(* ===== verification/Prelude.thy ===== *)
theory Prelude
  imports Main "HOL-Library.Word"
begin

unbundle bit_operations_syntax

section \<open>Prelude: shared types, error results, list and word facts\<close>

text \<open>
  What the component theories share.

  \<^item> Names for the C++ integer types, as words of their width.
  \<^item> The result type of code that can stop the process: \<open>vm_error + 'a\<close>, with \<open>Inl\<close> for
    every \<open>abort()\<close>, failed assertion and read outside an object. The repository has two
    assertion levels (\<open>src/common_utils/common.h\<close>): \<open>ReleaseAssert\<close> is always compiled in,
    \<open>TestAssert\<close> only in a test build. A definition whose code contains a \<open>TestAssert\<close> that
    matters takes the build flavour as its first argument \<open>tb\<close>.
  \<^item> Operations \<open>('s, 'a) op\<close> on a state that can fail, sequenced by \<open>bindS\<close>.
  \<^item> Sequencing \<open>bindR\<close> with the rules that split a successful run into its steps, and the
    congruence rule that lets recursive definitions use it.
  \<^item> Facts about list update, powers of two and masks.
\<close>

type_synonym u8 = "8 word"
type_synonym u16 = "16 word"
type_synonym u32 = "32 word"
type_synonym u64 = "64 word"

text \<open>
  Collections: \<open>res_simps\<close> unfolds result plumbing, \<open>res_dests\<close> takes a successful run apart.
\<close>

named_theorems res_simps \<open>simplification rules for results\<close>
named_theorems res_elims \<open>elimination rules for successful runs\<close>

subsection \<open>Results\<close>

datatype vm_error =
    ReleaseAssertFailed
  | TestAssertFailed
  | OutOfRange
  | Aborted string
  | Undefined
  | Exited int
  | OutOfFuel

type_synonym 'a res = "vm_error + 'a"

definition bindR :: "'e + 'a \<Rightarrow> ('a \<Rightarrow> 'e + 'b) \<Rightarrow> 'e + 'b" where
  "bindR m f = (case m of Inl e \<Rightarrow> Inl e | Inr x \<Rightarrow> f x)"

lemma bindR_simps [simp, res_simps]:
  "bindR (Inl e) f = Inl e"
  "bindR (Inr x) f = f x"
  by (simp_all add: bindR_def)

lemma bindR_cong [fundef_cong]:
  "m = m' \<Longrightarrow> (\<And>x. m' = Inr x \<Longrightarrow> f x = f' x) \<Longrightarrow> bindR m f = bindR m' f'"
  by (cases m') simp_all

lemma bindR_eq_Inr: "bindR m f = Inr y \<longleftrightarrow> (\<exists>x. m = Inr x \<and> f x = Inr y)"
  by (cases m) simp_all

lemma bindR_InrE [res_elims]:
  assumes "bindR m f = Inr y"
  obtains x where "m = Inr x" and "f x = Inr y"
  using assms by (auto simp: bindR_eq_Inr)

lemma bindR_assoc: "bindR (bindR m f) g = bindR m (\<lambda>x. bindR (f x) g)"
  by (cases m) simp_all

lemma bindR_Inr_right [simp]: "bindR m Inr = m"
  by (cases m) simp_all

lemma if_Inl_eq_Inr [res_simps]:
  "((if b then Inl e else m) = Inr y) \<longleftrightarrow> \<not> b \<and> m = Inr y"
  "((if b then m else Inl e) = Inr y) \<longleftrightarrow> b \<and> m = Inr y"
  by simp_all

subsection \<open>Assertions of the source\<close>

definition ReleaseAssert :: "bool \<Rightarrow> unit res" where
  "ReleaseAssert b = (if b then Inr () else Inl ReleaseAssertFailed)"

definition TestAssert :: "bool \<Rightarrow> bool \<Rightarrow> unit res" where
  "TestAssert tb b = (if tb \<and> \<not> b then Inl TestAssertFailed else Inr ())"

lemma ReleaseAssert_Inr [simp]: "ReleaseAssert b = Inr u \<longleftrightarrow> b"
  by (simp add: ReleaseAssert_def)

lemma TestAssert_Inr [simp]: "TestAssert tb b = Inr u \<longleftrightarrow> (tb \<longrightarrow> b)"
  by (simp add: TestAssert_def)

lemma TestAssert_release [simp]: "TestAssert False b = Inr ()"
  by (simp add: TestAssert_def)

subsection \<open>Operations on a state that can fail\<close>

type_synonym ('s, 'a) op = "'s \<Rightarrow> ('a \<times> 's) res"

definition bindS :: "('s, 'a) op \<Rightarrow> ('a \<Rightarrow> ('s, 'b) op) \<Rightarrow> ('s, 'b) op" where
  "bindS m f = (\<lambda>s. bindR (m s) (\<lambda>(x, s'). f x s'))"

definition retS :: "'a \<Rightarrow> ('s, 'a) op" where
  "retS x = (\<lambda>s. Inr (x, s))"

definition failS :: "vm_error \<Rightarrow> ('s, 'a) op" where
  "failS e = (\<lambda>s. Inl e)"

definition getS :: "('s \<Rightarrow> 'a) \<Rightarrow> ('s, 'a) op" where
  "getS f = (\<lambda>s. Inr (f s, s))"

definition modS :: "('s \<Rightarrow> 's) \<Rightarrow> ('s, unit) op" where
  "modS f = (\<lambda>s. Inr ((), f s))"

definition assertS :: "vm_error \<Rightarrow> bool \<Rightarrow> ('s, unit) op" where
  "assertS e b = (if b then retS () else failS e)"

definition liftS :: "'a res \<Rightarrow> ('s, 'a) op" where
  "liftS r = (\<lambda>s. bindR r (\<lambda>x. Inr (x, s)))"

lemma op_simps [simp, res_simps]:
  "retS x s = Inr (x, s)" "failS e s = Inl e" "getS f s = Inr (f s, s)" "modS g s = Inr ((), g s)"
  "assertS e b s = (if b then Inr ((), s) else Inl e)"
  by (simp_all add: retS_def failS_def getS_def modS_def assertS_def)

lemma bindS_app: "bindS m f s = bindR (m s) (\<lambda>(x, s'). f x s')"
  by (simp add: bindS_def)

lemma bindS_Inr [simp]: "m s = Inr (x, s') \<Longrightarrow> bindS m f s = f x s'"
  by (simp add: bindS_def)

lemma bindS_Inl [simp]: "m s = Inl e \<Longrightarrow> bindS m f s = Inl e"
  by (simp add: bindS_def)

lemma bindS_assoc: "bindS (bindS m f) g = bindS m (\<lambda>x. bindS (f x) g)"
  by (rule ext) (simp add: bindS_def bindR_assoc split_def)

lemma bindS_InrE [res_elims]:
  assumes "bindS m f s = Inr (y, t)"
  obtains x s' where "m s = Inr (x, s')" and "f x s' = Inr (y, t)"
  using assms by (auto simp: bindS_def elim!: bindR_InrE)

lemma liftS_simps [simp]: "liftS (Inr x) s = Inr (x, s)" "liftS (Inl e) s = Inl e"
  by (simp_all add: liftS_def)

lemma liftS_Inr: "liftS r s = Inr (x, s') \<longleftrightarrow> r = Inr x \<and> s' = s"
  by (cases r) auto

text \<open>
  Frame conditions: \<open>keeps f m\<close> says that a successful run of \<open>m\<close> leaves the part \<open>f\<close> of the state
  as it was. The rules \<open>keeps_intros\<close> follow the structure of an operation.
\<close>

named_theorems keeps_intros \<open>frame rules\<close>

definition keeps :: "('s \<Rightarrow> 'b) \<Rightarrow> ('s, 'a) op \<Rightarrow> bool" where
  "keeps f m \<longleftrightarrow> (\<forall>s x s'. m s = Inr (x, s') \<longrightarrow> f s' = f s)"

lemma keepsI: "(\<And>s x s'. m s = Inr (x, s') \<Longrightarrow> f s' = f s) \<Longrightarrow> keeps f m"
  by (simp add: keeps_def)

lemma keepsD: "keeps f m \<Longrightarrow> m s = Inr (x, s') \<Longrightarrow> f s' = f s"
  by (simp add: keeps_def)

lemma keeps_basic [keeps_intros]:
  "keeps f (retS x)" "keeps f (failS e)" "keeps f (getS g)" "keeps f (assertS e b)" "keeps f (liftS r)"
  by (auto simp: keeps_def liftS_Inr split: if_splits)

lemma keeps_modS [keeps_intros]: "(\<And>s. f (g s) = f s) \<Longrightarrow> keeps f (modS g)"
  by (simp add: keeps_def)

lemma keeps_bindS [keeps_intros]: "keeps f m \<Longrightarrow> (\<And>x. keeps f (k x)) \<Longrightarrow> keeps f (bindS m k)"
proof (rule keepsI, erule bindS_InrE)
  fix s x s' y t
  assume m: "keeps f m" and k: "\<And>x. keeps f (k x)" and run: "m s = Inr (y, t)" "k y t = Inr (x, s')"
  show "f s' = f s" using keepsD [OF m run(1)] keepsD [OF k run(2)] by simp
qed

lemma keeps_if [keeps_intros]: "(b \<Longrightarrow> keeps f m) \<Longrightarrow> (\<not> b \<Longrightarrow> keeps f n) \<Longrightarrow> keeps f (if b then m else n)"
  by simp

lemma keeps_option [keeps_intros]:
  "keeps f m \<Longrightarrow> (\<And>x. keeps f (k x)) \<Longrightarrow> keeps f (case y of None \<Rightarrow> m | Some x \<Rightarrow> k x)"
  by (simp split: option.split)

text \<open>
  \<open>same_run m n\<close>: every successful run of \<open>m\<close> is a run of \<open>n\<close>. It relates a test build, which may
  stop at an assertion, to the release build.
\<close>

named_theorems same_run_intros \<open>rules that compare two builds\<close>

definition same_run :: "('s, 'a) op \<Rightarrow> ('s, 'a) op \<Rightarrow> bool" where
  "same_run m n \<longleftrightarrow> (\<forall>s y. m s = Inr y \<longrightarrow> n s = Inr y)"

lemma same_runD: "same_run m n \<Longrightarrow> m s = Inr y \<Longrightarrow> n s = Inr y"
  unfolding same_run_def by blast

lemma same_run_bindS [same_run_intros]:
  assumes "same_run m n" and "\<And>x. same_run (f x) (g x)"
  shows "same_run (bindS m f) (bindS n g)"
  unfolding same_run_def
proof (intro allI impI)
  fix s y
  assume "bindS m f s = Inr y"
  then obtain x s' where "m s = Inr (x, s')" "f x s' = Inr y" by (cases y) (auto elim!: bindS_InrE)
  then show "bindS n g s = Inr y" using same_runD [OF assms(1)] same_runD [OF assms(2)] by simp
qed

lemma same_run_TestAssert [same_run_intros]: "same_run (liftS (TestAssert True b)) (liftS (TestAssert False b))"
  by (auto simp: same_run_def TestAssert_def)

lemma same_run_option [same_run_intros]:
  "same_run m n \<Longrightarrow> (\<And>x. same_run (f x) (g x)) \<Longrightarrow>
     same_run (case y of None \<Rightarrow> m | Some x \<Rightarrow> f x) (case y of None \<Rightarrow> n | Some x \<Rightarrow> g x)"
  by (simp split: option.split)

lemma same_run_refl [same_run_intros]: "same_run m m"
  by (simp add: same_run_def)

subsection \<open>Lists\<close>

lemma set_list_update_eq:
  assumes "i < length xs"
  shows "set (xs[i := x]) = insert x {xs ! j | j. j < length xs \<and> j \<noteq> i}"
proof -
  have "set (xs[i := x]) = {xs[i := x] ! j | j. j < length xs}"
    by (simp add: set_conv_nth)
  also have "\<dots> = insert x {xs ! j | j. j < length xs \<and> j \<noteq> i}"
    using assms by (auto simp: nth_list_update)
  finally show ?thesis .
qed

lemma nth_append_new [simp]: "(xs @ [y]) ! length xs = y"
  by (simp add: nth_append)

lemma map_of_eq_Some_nth:
  assumes "distinct (map fst kvs)"
  shows "map_of kvs k = Some v \<longleftrightarrow> (\<exists>i < length kvs. kvs ! i = (k, v))"
  using assms by (auto simp: in_set_conv_nth)

subsection \<open>Powers of two and masks\<close>

definition is_power_of_2 :: "nat \<Rightarrow> bool" where
  "is_power_of_2 n \<longleftrightarrow> 0 < n \<and> n AND (n - 1) = 0"

lemma and_double_odd: "(2 * m) AND Suc (2 * k) = 2 * (m AND k)" for m k :: nat
  by (subst and_rec) simp

lemma is_power_of_2_iff: "is_power_of_2 n \<longleftrightarrow> (\<exists>k. n = 2 ^ k)"
proof (induction n rule: less_induct)
  case (less n)
  show ?case
  proof (cases "even n")
    case True
    then obtain m where n: "n = 2 * m" by blast
    show ?thesis
    proof (cases m)
      case (Suc k)
      have "is_power_of_2 n \<longleftrightarrow> is_power_of_2 m"
        using and_double_odd [of m k] by (simp add: is_power_of_2_def n Suc)
      also have "\<dots> \<longleftrightarrow> (\<exists>k. m = 2 ^ k)" using less [of m] n Suc by simp
      also have "\<dots> \<longleftrightarrow> (\<exists>k. n = 2 ^ k)"
      proof
        assume "\<exists>k. n = 2 ^ k"
        then obtain k where k: "2 * m = 2 ^ k" unfolding n by blast
        then show "\<exists>k. m = 2 ^ k" by (cases k) auto
      qed (auto simp: n intro: exI [of _ "Suc k" for k])
      finally show ?thesis .
    qed (simp add: n is_power_of_2_def)
  next
    case False
    then obtain m where n: "n = Suc (2 * m)" by (auto elim: oddE)
    have "Suc (2 * m) AND (2 * m) = 2 * m"
      using and_double_odd [of m m] by (simp add: and.commute)
    then have "is_power_of_2 n \<longleftrightarrow> m = 0" by (simp add: is_power_of_2_def n)
    also have "\<dots> \<longleftrightarrow> (\<exists>k. n = 2 ^ k)"
    proof
      assume "\<exists>k. n = 2 ^ k"
      then obtain k where "Suc (2 * m) = 2 ^ k" unfolding n by blast
      then show "m = 0" by (cases k) (auto, presburger)
    qed (simp add: n exI [of _ 0])
    finally show ?thesis .
  qed
qed

lemma is_power_of_2_simps [simp]:
  "is_power_of_2 (2 ^ k)"
  "is_power_of_2 (Suc 0)"
  "\<not> is_power_of_2 0"
  by (auto simp: is_power_of_2_iff intro: exI [of _ 0])

lemma is_power_of_2_double: "is_power_of_2 n \<Longrightarrow> is_power_of_2 (2 * n)"
  by (auto simp: is_power_of_2_iff intro: exI [of _ "Suc k" for k])

lemma is_power_of_2_pos: "is_power_of_2 n \<Longrightarrow> 0 < n"
  by (simp add: is_power_of_2_def)

lemma of_nat_mask: "(of_nat (2 ^ k - 1) :: 'a::len word) = mask k"
  by (simp add: mask_eq_decr_exp of_nat_diff)

lemma unat_and_mask:
  fixes w :: "'a::len word"
  shows "unat (w AND mask k) = unat w mod 2 ^ k"
proof -
  have "unat (take_bit k w) = take_bit k (unat w)"
    by (simp add: unsigned_take_bit_eq)
  also have "\<dots> = unat w mod 2 ^ k"
    by (rule take_bit_eq_mod)
  finally show ?thesis by (simp add: take_bit_eq_mask)
qed

end
