(* ===== verification/Lexer.thy ===== *)
theory Lexer
  imports Prelude
begin

section \<open>Lexer\<close>

text \<open>
  \<open>src/runtime/som_lexer.h\<close> and \<open>src/runtime/som_lexer.cpp\<close>. The lexer reads the file line by
  line: \<open>buf\<close> is the current line, \<open>bufp\<close> the position in it, and \<open>infile\<close> the rest of the
  stream. One symbol of lookahead is kept by running \<open>GetSym\<close> and remembering the state after it.

  Reading \<open>buf[buf.length()]\<close> of a \<open>std::string\<close> gives the null character, which several loops
  use as their end; reading further is undefined behaviour and a value \<open>OutOfRange\<close> of the model.
  The only place that can run past the end is the escape character at the end of a line inside a
  string. \<open>assert\<close> is the C macro, compiled out under \<open>NDEBUG\<close>: argument \<open>nd\<close>.
\<close>

subsection \<open>Streams and characters\<close>

record istream =
  rest :: string
  good :: bool

text \<open>
  \<open>std::getline\<close> on a good stream: the characters up to the next newline, which is removed. At
  the end of the file the end-of-file bit is set, after which the stream is no longer good.
\<close>

definition getline :: "istream \<Rightarrow> string \<times> istream" where
  "getline s =
     (let line = takeWhile (\<lambda>c. c \<noteq> CHR 0x0A) (rest s)
      in if length line < length (rest s)
         then (line, s\<lparr>rest := drop (length line + 1) (rest s)\<rparr>)
         else (line, \<lparr>rest = [], good = False\<rparr>))"

definition ch :: "char \<Rightarrow> nat" where
  "ch c = of_char c"

definition isspace :: "char \<Rightarrow> bool" where
  "isspace c \<longleftrightarrow> ch c = 32 \<or> (9 \<le> ch c \<and> ch c \<le> 13)"

definition isdigit :: "char \<Rightarrow> bool" where
  "isdigit c \<longleftrightarrow> 48 \<le> ch c \<and> ch c \<le> 57"

definition isalpha :: "char \<Rightarrow> bool" where
  "isalpha c \<longleftrightarrow> (65 \<le> ch c \<and> ch c \<le> 90) \<or> (97 \<le> ch c \<and> ch c \<le> 122)"

definition isalnum :: "char \<Rightarrow> bool" where
  "isalnum c \<longleftrightarrow> isalpha c \<or> isdigit c"

definition ISOP :: "char \<Rightarrow> bool" where
  "ISOP c \<longleftrightarrow> c \<in> set [CHR ''~'', CHR ''&'', CHR ''|'', CHR ''*'', CHR ''/'', CHR 0x5C, CHR ''+'',
                         CHR ''='', CHR ''>'', CHR ''<'', CHR '','', CHR ''@'', CHR ''%'', CHR ''-'']"

subsection \<open>State\<close>

datatype Symbol =
    NONE | Integer | Double | Not | And | Or | Star | Div | Mod | Plus | Minus | Equal | More | Less
  | Comma | At | Per | NewBlock | EndBlock | Colon | Period | Exit | Assign | NewTerm | EndTerm
  | Pound | Primitive | Separator | STString | Identifier | Keyword | KeywordSequence
  | OperatorSequence

record LexerState =
  lineNumber :: nat
  bufp :: nat
  sym :: Symbol
  symc :: char
  symtext :: string
  startBufp :: nat

record Lexer =
  infile :: istream
  peekDone :: bool
  lstate :: LexerState
  stateAfterPeek :: LexerState
  buf :: string

definition init_state :: LexerState where
  "init_state = \<lparr>lineNumber = 0, bufp = 0, sym = NONE, symc = CHR 0x00, symtext = [], startBufp = 0\<rparr>"

definition new_lexer :: "istream \<Rightarrow> Lexer" where
  "new_lexer file =
     \<lparr>infile = file, peekDone = False, lstate = init_state, stateAfterPeek = init_state, buf = []\<rparr>"

definition EOB :: "Lexer \<Rightarrow> bool" where
  "EOB L \<longleftrightarrow> length (buf L) \<le> bufp (lstate L)"

text \<open>\<open>buf[bufp + k]\<close>, with the null character one past the end.\<close>

definition at :: "nat \<Rightarrow> Lexer \<Rightarrow> char" where
  "at k L = (if bufp (lstate L) + k < length (buf L) then buf L ! (bufp (lstate L) + k) else CHR 0x00)"

abbreviation BC :: "Lexer \<Rightarrow> char" where
  "BC L \<equiv> at 0 L"

definition incPtr :: "nat \<Rightarrow> Lexer \<Rightarrow> Lexer" where
  "incPtr k L = L\<lparr>lstate := (lstate L)\<lparr>bufp := bufp (lstate L) + k, startBufp := bufp (lstate L) + k\<rparr>\<rparr>"

definition set_text :: "string \<Rightarrow> Lexer \<Rightarrow> Lexer" where
  "set_text s L = L\<lparr>lstate := (lstate L)\<lparr>symtext := s\<rparr>\<rparr>"

definition append_text :: "char \<Rightarrow> Lexer \<Rightarrow> Lexer" where
  "append_text c L = set_text (symtext (lstate L) @ [c]) L"

definition set_sym :: "Symbol \<Rightarrow> Lexer \<Rightarrow> Lexer" where
  "set_sym s L = L\<lparr>lstate := (lstate L)\<lparr>sym := s\<rparr>\<rparr>"

definition set_symc :: "char \<Rightarrow> Lexer \<Rightarrow> Lexer" where
  "set_symc c L = L\<lparr>lstate := (lstate L)\<lparr>symc := c\<rparr>\<rparr>"

text \<open>\<open>fillBuffer\<close>: \<open>None\<close> is the result \<open>-1\<close>.\<close>

definition fillBuffer :: "Lexer \<Rightarrow> Lexer option" where
  "fillBuffer L =
     (if \<not> good (infile L) then None
      else let (line, s) = getline (infile L)
           in Some (L\<lparr>buf := line, infile := s,
                      lstate := (lstate L)\<lparr>lineNumber := lineNumber (lstate L) + 1, bufp := 0\<rparr>\<rparr>))"

text \<open>
  How much input is left: the rest of the line, the rest of the stream, and one more read while
  the stream is good. Every loop of the lexer decreases it.
\<close>

definition lex_left :: "Lexer \<Rightarrow> nat" where
  "lex_left L = (length (buf L) - bufp (lstate L)) + length (rest (infile L)) + of_bool (good (infile L))"

lemmas lexer_defs = incPtr_def set_text_def append_text_def set_sym_def set_symc_def EOB_def at_def

lemma fillBuffer_left: "fillBuffer L = Some L' \<Longrightarrow> EOB L \<Longrightarrow> lex_left L' < lex_left L"
  by (auto simp: fillBuffer_def getline_def Let_def lex_left_def EOB_def less_Suc_eq_le length_takeWhile_le
      split: if_splits)

lemma fillBuffer_None: "fillBuffer L = None \<longleftrightarrow> \<not> good (infile L)"
  by (simp add: fillBuffer_def Let_def split: prod.split)

lemma incPtr_left: "\<not> EOB L \<Longrightarrow> 0 < k \<Longrightarrow> lex_left (incPtr k L) < lex_left L"
  by (simp add: lex_left_def lexer_defs)

lemma text_left [simp]:
  "lex_left (set_text s L) = lex_left L" "lex_left (append_text c L) = lex_left L"
  "lex_left (set_sym y L) = lex_left L" "lex_left (set_symc c L) = lex_left L"
  by (simp_all add: lex_left_def lexer_defs)

lemma text_EOB [simp]:
  "EOB (set_text s L) = EOB L" "EOB (append_text c L) = EOB L"
  "EOB (set_sym y L) = EOB L" "EOB (set_symc c L) = EOB L"
  by (simp_all add: lexer_defs)

lemma text_at [simp]:
  "at k (set_text s L) = at k L" "at k (append_text c L) = at k L"
  "at k (set_sym y L) = at k L" "at k (set_symc d L) = at k L"
  by (simp_all add: lexer_defs)

lemma text_sel [simp]:
  "sym (lstate (set_text s L)) = sym (lstate L)" "sym (lstate (set_symc c L)) = sym (lstate L)"
  "sym (lstate (set_sym y L)) = y" "sym (lstate (incPtr k L)) = sym (lstate L)"
  "sym (lstate (append_text c L)) = sym (lstate L)"
  "symtext (lstate (set_text s L)) = s" "symtext (lstate (set_symc c L)) = symtext (lstate L)"
  "symtext (lstate (set_sym y L)) = symtext (lstate L)" "symtext (lstate (incPtr k L)) = symtext (lstate L)"
  "symtext (lstate (append_text c L)) = symtext (lstate L) @ [c]"
  by (simp_all add: lexer_defs)

lemma EOB_BC: "EOB L \<Longrightarrow> BC L = CHR 0x00"
  by (simp add: EOB_def at_def)

subsection \<open>Blank space and comments\<close>

text \<open>The loop \<open>while (EOB) { if (fillBuffer() == -1) ... }\<close>; \<open>False\<close> when the input is used up.\<close>

function fillWhileEOB :: "Lexer \<Rightarrow> bool \<times> Lexer" where
  "fillWhileEOB L =
     (if EOB L then case fillBuffer L of None \<Rightarrow> (False, L) | Some L' \<Rightarrow> fillWhileEOB L'
      else (True, L))"
  by pat_completeness auto
termination
  by (relation "measure lex_left") (auto dest: fillBuffer_left)

declare fillWhileEOB.simps [simp del]

definition hasMoreInput :: "Lexer \<Rightarrow> bool \<times> Lexer" where
  "hasMoreInput L = fillWhileEOB L"

lemma fillWhileEOB_done [simp]: "\<not> EOB L \<Longrightarrow> fillWhileEOB L = (True, L)"
  by (simp add: fillWhileEOB.simps)

lemma fillWhileEOB_left: "fillWhileEOB L = (b, L') \<Longrightarrow> lex_left L' \<le> lex_left L"
proof (induction L rule: fillWhileEOB.induct)
  case (1 L)
  show ?case
  proof (cases "EOB L")
    case True
    with 1 show ?thesis
      by (subst (asm) (2) fillWhileEOB.simps)
        (fastforce split: option.splits dest: fillBuffer_left [THEN less_imp_le])
  qed (use 1 in simp)
qed

lemma fillWhileEOB_result: "fillWhileEOB L = (b, L') \<Longrightarrow> b \<longleftrightarrow> \<not> EOB L'"
  by (induction L rule: fillWhileEOB.induct)
    (subst (asm) (2) fillWhileEOB.simps, auto split: if_splits option.splits)

lemma fillWhileEOB_left_EOB: "fillWhileEOB L = (True, L') \<Longrightarrow> EOB L \<Longrightarrow> lex_left L' < lex_left L"
  by (subst (asm) fillWhileEOB.simps)
    (auto split: option.splits dest!: fillWhileEOB_left fillBuffer_left)

text \<open>A step over one character followed by the fill loop uses input.\<close>

lemma inc_fill_left:
  assumes "fillWhileEOB (incPtr 1 L) = (b, L')" and "b \<or> \<not> EOB L"
  shows "lex_left L' < lex_left L"
proof (cases "EOB L")
  case True
  then have "EOB (incPtr 1 L)" "lex_left (incPtr 1 L) = lex_left L"
    by (simp_all add: lexer_defs lex_left_def)
  with assms True fillWhileEOB_left_EOB show ?thesis by fastforce
next
  case False
  then show ?thesis
    using fillWhileEOB_left [OF assms(1)] incPtr_left [of L 1] by simp
qed

lemma BC_not_EOB:
  "isspace (BC L) \<Longrightarrow> \<not> EOB L" "isdigit (BC L) \<Longrightarrow> \<not> EOB L" "isalpha (BC L) \<Longrightarrow> \<not> EOB L"
  "BC L = c \<Longrightarrow> c \<noteq> CHR 0x00 \<Longrightarrow> \<not> EOB L"
  by (auto dest!: EOB_BC simp: isspace_def isdigit_def isalpha_def ch_def)

function skipWhiteSpace :: "Lexer \<Rightarrow> Lexer" where
  "skipWhiteSpace L =
     (if isspace (BC L)
      then case fillWhileEOB (incPtr 1 L) of
             (False, L') \<Rightarrow> L'
           | (True, L') \<Rightarrow> skipWhiteSpace L'
      else L)"
  by pat_completeness auto
termination
  by (relation "measure lex_left") (auto simp del: One_nat_def dest: inc_fill_left [OF HOL.sym])

declare skipWhiteSpace.simps [simp del]

text \<open>The body of \<open>skipComment\<close> after the opening quote has been seen.\<close>

function commentLoop :: "Lexer \<Rightarrow> Lexer" where
  "commentLoop L =
     (case fillWhileEOB (incPtr 1 L) of
        (False, L') \<Rightarrow> L'
      | (True, L') \<Rightarrow> if BC L' \<noteq> CHR 0x22 then commentLoop L' else incPtr 1 L')"
  by pat_completeness auto
termination
  by (relation "measure lex_left") (auto simp del: One_nat_def dest: inc_fill_left [OF HOL.sym])

declare commentLoop.simps [simp del]

definition skipComment :: "Lexer \<Rightarrow> Lexer" where
  "skipComment L = (if BC L = CHR 0x22 then commentLoop L else L)"

lemma skipWhiteSpace_left:
  "lex_left (skipWhiteSpace L) \<le> lex_left L \<and> (isspace (BC L) \<longrightarrow> lex_left (skipWhiteSpace L) < lex_left L)"
proof (induction L rule: skipWhiteSpace.induct)
  case (1 L)
  obtain b L' where f: "fillWhileEOB (incPtr 1 L) = (b, L')" by fastforce
  show ?case
  proof (cases "isspace (BC L)")
    case True
    then have "lex_left L' < lex_left L" using inc_fill_left [OF f] BC_not_EOB(1) by blast
    with 1 f True show ?thesis by (subst (1 2) skipWhiteSpace.simps) (cases b; fastforce)
  qed (simp add: skipWhiteSpace.simps)
qed

lemma commentLoop_left: "\<not> EOB L \<Longrightarrow> lex_left (commentLoop L) < lex_left L"
proof (induction L rule: commentLoop.induct)
  case (1 L)
  obtain b L' where f: "fillWhileEOB (incPtr 1 L) = (b, L')" by fastforce
  have less: "lex_left L' < lex_left L" using inc_fill_left [OF f] "1.prems" by blast
  have "b \<Longrightarrow> \<not> EOB L'" using fillWhileEOB_result [OF f] by blast
  then have "b \<Longrightarrow> lex_left (incPtr 1 L') < lex_left L" using incPtr_left [of L' 1] less by simp
  with 1 f less \<open>b \<Longrightarrow> \<not> EOB L'\<close> show ?case
    by (subst commentLoop.simps) (cases b; fastforce)
qed

lemma skipComment_left:
  "lex_left (skipComment L) \<le> lex_left L \<and> (BC L = CHR 0x22 \<longrightarrow> lex_left (skipComment L) < lex_left L)"
  using commentLoop_left [OF BC_not_EOB(4) [of L "CHR 0x22"]] by (auto simp: skipComment_def less_imp_le)

text \<open>The loop of \<open>GetSym\<close> that skips blanks and comments; \<open>False\<close> at the end of the input.\<close>

lemma skip_left:
  assumes "\<not> EOB L"
    and "EOB (skipComment (skipWhiteSpace L)) \<or> isspace (BC (skipComment (skipWhiteSpace L))) \<or>
         BC (skipComment (skipWhiteSpace L)) = CHR 0x22"
  shows "lex_left (skipComment (skipWhiteSpace L)) < lex_left L"
proof (cases "isspace (BC L)")
  case True
  then show ?thesis
    using skipWhiteSpace_left [of L] skipComment_left [of "skipWhiteSpace L"] by simp
next
  case False
  then have ws: "skipWhiteSpace L = L" by (simp add: skipWhiteSpace.simps)
  then have "BC L = CHR 0x22" using assms False by (auto simp: skipComment_def split: if_splits)
  then show ?thesis using skipComment_left [of L] ws by simp
qed

lemma skipLoop_measure:
  assumes "hasMoreInput L = (True, L1)"
    and "EOB (skipComment (skipWhiteSpace L1)) \<or> isspace (BC (skipComment (skipWhiteSpace L1))) \<or>
         BC (skipComment (skipWhiteSpace L1)) = CHR 0x22"
  shows "lex_left (skipComment (skipWhiteSpace L1)) < lex_left L"
  using skip_left [OF _ assms(2)] assms(1) fillWhileEOB_left [of L True L1] fillWhileEOB_result [of L True L1]
  by (auto simp: hasMoreInput_def)

function skipLoop :: "Lexer \<Rightarrow> bool \<times> Lexer" where
  "skipLoop L =
     (case hasMoreInput L of
        (False, L1) \<Rightarrow> (False, L1)
      | (True, L1) \<Rightarrow>
          let L2 = skipComment (skipWhiteSpace L1)
          in if EOB L2 \<or> isspace (BC L2) \<or> BC L2 = CHR 0x22 then skipLoop L2 else (True, L2))"
  by pat_completeness auto
termination
  by (relation "measure lex_left") (auto dest: skipLoop_measure [OF HOL.sym])

declare skipLoop.simps [simp del]

subsection \<open>Symbols\<close>

text \<open>\<open>while (P(_BC)) { text += _BC; incPtr(); }\<close>, for a \<open>P\<close> that is false of the null character.\<close>

function scanWhile :: "(char \<Rightarrow> bool) \<Rightarrow> Lexer \<Rightarrow> Lexer" where
  "scanWhile P L = (if \<not> EOB L \<and> P (BC L) then scanWhile P (incPtr 1 (append_text (BC L) L)) else L)"
  by pat_completeness auto
termination
  by (relation "measure (\<lambda>(P, L). lex_left L)") (auto intro!: less_le_trans [OF incPtr_left])

declare scanWhile.simps [simp del]

text \<open>The macro \<open>_MATCH\<close>, when the character is the one asked for.\<close>

definition MATCH :: "Symbol \<Rightarrow> Lexer \<Rightarrow> Lexer" where
  "MATCH S L = incPtr 1 (set_text [BC L] (set_symc (BC L) (set_sym S L)))"

definition number_step :: "bool \<times> Lexer \<Rightarrow> bool \<times> Lexer" where
  "number_step = (\<lambda>(sawDecimalMark, L).
     let L1 = incPtr 1 (append_text (BC L) L)
     in if \<not> sawDecimalMark \<and> BC L1 = CHR ''.'' \<and> bufp (lstate L1) + 1 < length (buf L1) \<and> isdigit (at 1 L1)
        then (True, incPtr 1 (append_text (BC L1) (set_sym Double L1)))
        else (sawDecimalMark, L1))"

lemma number_step_left:
  assumes "isdigit (BC (snd (number_step (d, L))))"
  shows "lex_left (snd (number_step (d, L))) < lex_left L"
proof -
  have "\<not> EOB (snd (number_step (d, L)))" by (rule BC_not_EOB(2) [OF assms])
  then show ?thesis
    by (auto simp: number_step_def Let_def lexer_defs lex_left_def split: if_splits)
qed

function number_loop :: "bool \<times> Lexer \<Rightarrow> Lexer" where
  "number_loop dL =
     (let dL' = number_step dL
      in if isdigit (BC (snd dL')) then number_loop dL' else snd dL')"
  by pat_completeness auto
termination
  by (relation "measure (lex_left \<circ> snd)") (auto simp: number_step_left)

declare number_loop.simps [simp del]

definition lexNumber :: "Lexer \<Rightarrow> Lexer" where
  "lexNumber L = number_loop (False, set_text [] (set_symc CHR 0x00 (set_sym Integer L)))"

text \<open>
  \<open>lexEscapeChar\<close>. Under \<open>NDEBUG\<close> the two assertions vanish: at the end of the line the position
  moves past the null character and the next read of the caller is outside the buffer.
\<close>

definition escape_char :: "char \<Rightarrow> char option" where
  "escape_char c =
     (if c = CHR ''t'' then Some CHR 0x09 else if c = CHR ''b'' then Some CHR 0x08
      else if c = CHR ''n'' then Some CHR 0x0A else if c = CHR ''r'' then Some CHR 0x0D
      else if c = CHR ''f'' then Some CHR 0x0C else if c = CHR ''0'' then Some CHR 0x00
      else if c = CHR 0x27 then Some CHR 0x27 else if c = CHR 0x5C then Some CHR 0x5C
      else None)"

definition lexEscapeChar :: "bool \<Rightarrow> Lexer \<Rightarrow> Lexer res" where
  "lexEscapeChar nd L =
     (if EOB L then Inl (if nd then OutOfRange else Aborted ''assert'')
      else case escape_char (BC L) of
             Some c \<Rightarrow> Inr (incPtr 1 (append_text c L))
           | None \<Rightarrow> if nd then Inr (incPtr 1 L) else Inl (Aborted ''assert''))"

definition lexStringChar :: "bool \<Rightarrow> Lexer \<Rightarrow> Lexer res" where
  "lexStringChar nd L =
     (if BC L = CHR 0x5C then lexEscapeChar nd (incPtr 1 L)
      else Inr (incPtr 1 (append_text (BC L) L)))"

text \<open>The fill loop of \<open>lexString\<close>: every line break is part of the string.\<close>

function fillString :: "Lexer \<Rightarrow> bool \<times> Lexer" where
  "fillString L =
     (if EOB L then case fillBuffer L of None \<Rightarrow> (False, L) | Some L' \<Rightarrow> fillString (append_text CHR 0x0A L')
      else (True, L))"
  by pat_completeness auto
termination
  by (relation "measure lex_left") (auto dest: fillBuffer_left)

declare fillString.simps [simp del]

lemma fillString_left: "fillString L = (b, L') \<Longrightarrow> lex_left L' \<le> lex_left L"
proof (induction L rule: fillString.induct)
  case (1 L)
  then show ?case
    by (subst (asm) (2) fillString.simps)
      (fastforce split: option.splits if_splits dest: fillBuffer_left)
qed

lemma fillString_result: "fillString L = (b, L') \<Longrightarrow> b \<longleftrightarrow> \<not> EOB L'"
  by (induction L rule: fillString.induct)
    (subst (asm) (2) fillString.simps, auto split: if_splits option.splits)

lemma lexEscapeChar_left:
  "lexEscapeChar nd L = Inr L' \<Longrightarrow> lex_left L' < lex_left L"
  by (auto simp: lexEscapeChar_def intro!: less_le_trans [OF incPtr_left] split: if_splits option.splits)

lemma lexStringChar_left:
  assumes "lexStringChar nd L = Inr L'" and "\<not> EOB L"
  shows "lex_left L' < lex_left L"
proof (cases "BC L = CHR 0x5C")
  case True
  with assms have "lexEscapeChar nd (incPtr 1 L) = Inr L'" by (simp add: lexStringChar_def)
  then show ?thesis
    using lexEscapeChar_left incPtr_left [OF assms(2), of 1] by fastforce
next
  case False
  with assms incPtr_left [of "append_text (BC L) L" 1] show ?thesis
    by (auto simp: lexStringChar_def)
qed

lemma string_loop_measure:
  assumes "fillString L = (True, L1)" and "lexStringChar nd L1 = Inr L2"
  shows "lex_left L2 < lex_left L"
  using fillString_left [OF assms(1)] fillString_result [OF assms(1)] lexStringChar_left [OF assms(2)]
  by simp

function string_loop :: "bool \<Rightarrow> Lexer \<Rightarrow> Lexer res" where
  "string_loop nd L =
     (if BC L \<noteq> CHR 0x27
      then case fillString L of
             (False, L1) \<Rightarrow> Inr L1
           | (True, L1) \<Rightarrow>
               if BC L1 \<noteq> CHR 0x27 then bindR (lexStringChar nd L1) (string_loop nd)
               else Inr (incPtr 1 L1)
      else Inr (incPtr 1 L))"
  by pat_completeness auto
termination
  by (relation "measure (lex_left \<circ> snd)") (auto dest: string_loop_measure [OF HOL.sym])

declare string_loop.simps [simp del]

definition lexString :: "bool \<Rightarrow> Lexer \<Rightarrow> Lexer res" where
  "lexString nd L = string_loop nd (incPtr 1 (set_text [] (set_symc CHR 0x00 (set_sym STString L))))"

definition op_symbol :: "char \<Rightarrow> Symbol option" where
  "op_symbol c = map_of
     [(CHR ''~'', Not), (CHR ''&'', And), (CHR ''|'', Or), (CHR ''*'', Star), (CHR ''/'', Div),
      (CHR 0x5C, Mod), (CHR ''+'', Plus), (CHR ''='', Equal), (CHR ''>'', More), (CHR ''<'', Less),
      (CHR '','', Comma), (CHR ''@'', At), (CHR ''%'', Per), (CHR ''-'', Minus)] c"

definition lexOperator :: "Lexer \<Rightarrow> Lexer" where
  "lexOperator L =
     (if ISOP (at 1 L)
      then scanWhile ISOP (set_text [] (set_symc CHR 0x00 (set_sym OperatorSequence L)))
      else case op_symbol (BC L) of Some S \<Rightarrow> MATCH S L | None \<Rightarrow> L)"

definition PRIMITIVE :: string where
  "PRIMITIVE = ''primitive''"

definition buf_substr :: "Lexer \<Rightarrow> nat \<Rightarrow> string" where
  "buf_substr L n = take n (drop (bufp (lstate L)) (buf L))"

definition nextWordInBufferIsPrimitive :: "Lexer \<Rightarrow> bool" where
  "nextWordInBufferIsPrimitive L =
     (if PRIMITIVE \<noteq> buf_substr L (length PRIMITIVE) then False
      else if length (buf L) \<le> bufp (lstate L) + length PRIMITIVE then True
      else \<not> isalnum (at (length PRIMITIVE) L))"

definition ident_char :: "char \<Rightarrow> bool" where
  "ident_char c \<longleftrightarrow> isalpha c \<or> isdigit c \<or> c = CHR ''_''"

definition keyword_char :: "char \<Rightarrow> bool" where
  "keyword_char c \<longleftrightarrow> isalpha c \<or> c = CHR '':''"

text \<open>Identifiers, keywords and keyword sequences.\<close>

definition lexWord :: "Lexer \<Rightarrow> Lexer" where
  "lexWord L =
     (let L1 = set_sym Identifier (scanWhile ident_char (set_symc CHR 0x00 (set_text [] L)))
      in if BC L1 = CHR '':''
         then let L2 = append_text CHR '':'' (incPtr 1 (set_sym Keyword L1))
              in if isalpha (BC L2) then scanWhile keyword_char (set_sym KeywordSequence L2) else L2
         else L1)"

text \<open>The part of \<open>GetSym\<close> after the blanks: one symbol, at a position inside the line.\<close>

definition single_symbol :: "char \<Rightarrow> Symbol option" where
  "single_symbol c = map_of
     [(CHR ''('', NewTerm), (CHR '')'', EndTerm), (CHR ''#'', Pound), (CHR ''^'', Exit),
      (CHR ''.'', Period)] c"

definition lexSymbol :: "bool \<Rightarrow> Lexer \<Rightarrow> Lexer res" where
  "lexSymbol nd L =
     (if BC L = CHR 0x27 then lexString nd L
      else if BC L = CHR ''['' then Inr (MATCH NewBlock L)
      else if BC L = CHR '']'' then Inr (MATCH EndBlock L)
      else if BC L = CHR '':'' then
        (if at 1 L = CHR ''=''
         then Inr (set_text '':='' (set_symc CHR 0x00 (set_sym Assign (incPtr 2 L))))
         else Inr (set_text '':'' (set_symc CHR '':'' (set_sym Colon (incPtr 1 L)))))
      else case single_symbol (BC L) of
        Some S \<Rightarrow> Inr (MATCH S L)
      | None \<Rightarrow>
          if BC L = CHR ''-'' then
            (if buf_substr L 4 = ''----''
             then Inr (set_sym Separator (scanWhile (\<lambda>c. c = CHR ''-'') (set_text [] L)))
             else Inr (lexOperator L))
          else if ISOP (BC L) then Inr (lexOperator L)
          else if nextWordInBufferIsPrimitive L
            then Inr (set_text PRIMITIVE (set_symc CHR 0x00 (set_sym Primitive (incPtr (length PRIMITIVE) L))))
          else if isalpha (BC L) then Inr (lexWord L)
          else if isdigit (BC L) then Inr (lexNumber L)
          else Inr (set_text [BC L] (set_symc (BC L) (set_sym NONE L))))"

definition GetSym :: "bool \<Rightarrow> Lexer \<Rightarrow> (Symbol \<times> Lexer) res" where
  "GetSym nd L =
     (if peekDone L
      then Inr (sym (stateAfterPeek L), L\<lparr>peekDone := False, lstate := stateAfterPeek L\<rparr>)
      else case skipLoop L of
        (False, L1) \<Rightarrow> Inr (NONE, set_text [] (set_symc CHR 0x00 (set_sym NONE L1)))
      | (True, L1) \<Rightarrow>
          bindR (lexSymbol nd (L1\<lparr>lstate := (lstate L1)\<lparr>startBufp := bufp (lstate L1)\<rparr>\<rparr>))
            (\<lambda>L2. Inr (sym (lstate L2), L2)))"

definition Peek :: "bool \<Rightarrow> Lexer \<Rightarrow> (Symbol \<times> Lexer) res" where
  "Peek nd L =
     bindR (ReleaseAssert (\<not> peekDone L)) (\<lambda>_.
     bindR (GetSym nd L) (\<lambda>(_, L1).
     Inr (sym (lstate L1), L1\<lparr>stateAfterPeek := lstate L1, lstate := lstate L, peekDone := True\<rparr>)))"

subsection \<open>Progress\<close>

text \<open>
  Every symbol other than \<open>NONE\<close> uses input, so the parser, which stops at \<open>NONE\<close>, sees finitely
  many symbols; and \<open>NONE\<close> (end of input, or a character no symbol starts with) is final.
\<close>

lemma scanWhile_left: "lex_left (scanWhile P L) \<le> lex_left L"
proof (induction P L rule: scanWhile.induct)
  case (1 P L)
  show ?case
  proof (cases "\<not> EOB L \<and> P (BC L)")
    case True
    then have "lex_left (incPtr 1 (append_text (BC L) L)) < lex_left L"
      using incPtr_left [of "append_text (BC L) L" 1] by simp
    with 1 True show ?thesis by (subst scanWhile.simps) simp
  qed (subst scanWhile.simps, auto)
qed

lemma scanWhile_left_less:
  assumes "\<not> EOB L" and "P (BC L)"
  shows "lex_left (scanWhile P L) < lex_left L"
proof -
  have "scanWhile P L = scanWhile P (incPtr 1 (append_text (BC L) L))"
    using assms by (subst scanWhile.simps) simp
  then show ?thesis
    using scanWhile_left [of P "incPtr 1 (append_text (BC L) L)"] incPtr_left [of "append_text (BC L) L" 1] assms
    by simp
qed

lemma incPtr_left_le: "lex_left (incPtr k L) \<le> lex_left L"
  by (simp add: lex_left_def lexer_defs)

lemma MATCH_left: "\<not> EOB L \<Longrightarrow> lex_left (MATCH S L) < lex_left L"
  using incPtr_left [of "set_text [BC L] (set_symc (BC L) (set_sym S L))" 1] by (simp add: MATCH_def)

lemma number_step_less:
  assumes "\<not> EOB L"
  shows "lex_left (snd (number_step (d, L))) < lex_left L"
  using assms by (auto simp: number_step_def Let_def lexer_defs lex_left_def split: if_splits)

lemma number_loop_left: "\<not> EOB (snd dL) \<Longrightarrow> lex_left (number_loop dL) < lex_left (snd dL)"
proof (induction dL rule: number_loop.induct)
  case (1 dL)
  have "lex_left (snd (number_step dL)) < lex_left (snd dL)"
    using number_step_less [of "snd dL" "fst dL"] 1(2) by simp
  with 1 BC_not_EOB(2) show ?case
    by (subst number_loop.simps) (fastforce simp: Let_def)
qed

lemma string_loop_cases:
  assumes "string_loop nd L = Inr L'"
  obtains (quote) "BC L = CHR 0x27" and "L' = incPtr 1 L"
    | (eof) "fillString L = (False, L')"
    | (quote_line) L1 where "fillString L = (True, L1)" and "L' = incPtr 1 L1"
    | (char) L1 L2 where "fillString L = (True, L1)" and "BC L \<noteq> CHR 0x27" and "BC L1 \<noteq> CHR 0x27"
      and "lexStringChar nd L1 = Inr L2" and "string_loop nd L2 = Inr L'"
  using assms by (subst (asm) string_loop.simps) (auto split: if_splits prod.splits bool.splits elim!: bindR_InrE)

lemma string_loop_left: "string_loop nd L = Inr L' \<Longrightarrow> lex_left L' \<le> lex_left L"
proof (induction nd L rule: string_loop.induct)
  case (1 nd L)
  from "1.prems" show ?case
  proof (cases rule: string_loop_cases)
    case (char L1 L2)
    then have "lex_left L2 < lex_left L" by (blast dest: string_loop_measure)
    moreover have "lex_left L' \<le> lex_left L2" using "1.IH" char by auto
    ultimately show ?thesis by simp
  qed (auto intro: order_trans [OF incPtr_left_le] dest: fillString_left)
qed

text \<open>What \<open>fillString\<close> and \<open>lexStringChar\<close> keep, the loop keeps.\<close>

lemma string_loop_keeps:
  assumes "\<And>L. f (snd (fillString L)) = f L" and "\<And>L L'. lexStringChar nd L = Inr L' \<Longrightarrow> f L' = f L"
    and "\<And>L. f (incPtr 1 L) = f L"
  shows "string_loop nd L = Inr L' \<Longrightarrow> f L' = f L"
proof (induction nd' == nd L rule: string_loop.induct)
  case (1 L)
  have fill: "fillString L = (b, L1) \<Longrightarrow> f L1 = f L" for b L1 using assms(1) [of L] by simp
  from "1.prems" show ?case
  proof (cases rule: string_loop_cases)
    case (char L1 L2)
    then have "f L2 = f L" using assms(2) fill by metis
    moreover have "f L' = f L2" using "1.hyps" char by auto
    ultimately show ?thesis by simp
  qed (use assms(3) fill in auto)
qed

lemma lexOperator_left: "\<not> EOB L \<Longrightarrow> ISOP (BC L) \<Longrightarrow> lex_left (lexOperator L) < lex_left L"
  using MATCH_left [of L] scanWhile_left_less [of "set_text [] (set_symc CHR 0x00 (set_sym OperatorSequence L))" ISOP]
  by (auto simp: lexOperator_def op_symbol_def ISOP_def split: option.splits if_splits)

lemma lexWord_left: "\<not> EOB L \<Longrightarrow> isalpha (BC L) \<Longrightarrow> lex_left (lexWord L) < lex_left L"
proof -
  assume L: "\<not> EOB L" "isalpha (BC L)"
  let ?L1 = "scanWhile ident_char (set_symc CHR 0x00 (set_text [] L))"
  have 1: "lex_left ?L1 < lex_left L"
    using scanWhile_left_less [of "set_symc CHR 0x00 (set_text [] L)" ident_char] L
    by (simp add: ident_char_def)
  let ?L2 = "append_text CHR '':'' (incPtr 1 (set_sym Keyword (set_sym Identifier ?L1)))"
  have 2: "lex_left ?L2 \<le> lex_left ?L1" using incPtr_left_le [of 1 "set_sym Keyword (set_sym Identifier ?L1)"] by simp
  have "lex_left (scanWhile keyword_char (set_sym KeywordSequence ?L2)) \<le> lex_left ?L2"
    using scanWhile_left [of keyword_char "set_sym KeywordSequence ?L2"] by simp
  with 1 2 show ?thesis by (simp add: lexWord_def Let_def)
qed

lemma lexSymbol_left:
  assumes "lexSymbol nd L = Inr L'" and L: "\<not> EOB L" and "sym (lstate L') \<noteq> NONE"
  shows "lex_left L' < lex_left L"
proof -
  let ?S = "set_text [] (set_symc CHR 0x00 (set_sym STString L))"
  have str: "lexString nd L = Inr L' \<Longrightarrow> lex_left L' < lex_left L"
    using string_loop_left [of nd "incPtr 1 ?S" L'] incPtr_left [of ?S 1] L by (simp add: lexString_def)
  have num: "lex_left (lexNumber L) < lex_left L"
    using number_loop_left [of "(False, set_text [] (set_symc CHR 0x00 (set_sym Integer L)))"] L
    by (simp add: lexNumber_def)
  have sep: "BC L = CHR ''-'' \<Longrightarrow> lex_left (scanWhile (\<lambda>c. c = CHR ''-'') (set_text [] L)) < lex_left L"
    using scanWhile_left_less [of "set_text [] L"] L by simp
  show ?thesis
    using assms(1,3) str num sep MATCH_left [OF L] lexWord_left [OF L] lexOperator_left [OF L] incPtr_left [OF L]
    unfolding lexSymbol_def
    by (force simp: PRIMITIVE_def ISOP_def split: if_split_asm option.split_asm)
qed

lemma skipLoop_left: "skipLoop L = (b, L') \<Longrightarrow> lex_left L' \<le> lex_left L"
proof (induction L rule: skipLoop.induct)
  case (1 L)
  obtain m L1 where m: "hasMoreInput L = (m, L1)" by fastforce
  let ?L2 = "skipComment (skipWhiteSpace L1)"
  have "lex_left ?L2 \<le> lex_left L1"
    using skipWhiteSpace_left [of L1] skipComment_left [of "skipWhiteSpace L1"] by simp
  moreover have "lex_left L1 \<le> lex_left L" using m fillWhileEOB_left by (auto simp: hasMoreInput_def)
  ultimately show ?case
    using 1 m by (subst (asm) (2) skipLoop.simps) (fastforce simp: Let_def split: bool.splits if_splits)
qed

lemma skipLoop_result:
  "skipLoop L = (b, L') \<Longrightarrow>
     if b then \<not> EOB L' \<and> \<not> isspace (BC L') \<and> BC L' \<noteq> CHR 0x22 else EOB L' \<and> \<not> good (infile L')"
proof (induction L rule: skipLoop.induct)
  case (1 L)
  have stop: "fillWhileEOB L = (False, L'') \<Longrightarrow> \<not> good (infile L'')" for L L''
    by (induction L rule: fillWhileEOB.induct)
      (subst (asm) (2) fillWhileEOB.simps, auto split: if_splits option.splits simp: fillBuffer_None)
  show ?case
    using 1 stop fillWhileEOB_result [of L]
    by (subst (asm) (2) skipLoop.simps) (fastforce simp: hasMoreInput_def Let_def split: prod.splits bool.splits if_splits)
qed

text \<open>Lexing does not touch the lookahead.\<close>

definition frame :: "Lexer \<Rightarrow> bool \<times> LexerState" where
  "frame L = (peekDone L, stateAfterPeek L)"

lemma frame_simple [simp]:
  "frame (incPtr k L) = frame L" "frame (set_text s L) = frame L" "frame (append_text c L) = frame L"
  "frame (set_sym y L) = frame L" "frame (set_symc c L) = frame L"
  "frame (L\<lparr>lstate := q\<rparr>) = frame L"
  "fillBuffer L = Some L' \<Longrightarrow> frame L' = frame L"
  by (auto simp: frame_def lexer_defs fillBuffer_def Let_def split: if_splits prod.splits)

lemma frame_fill: "frame (snd (fillWhileEOB L)) = frame L"
  by (induction L rule: fillWhileEOB.induct) (subst fillWhileEOB.simps, auto split: option.splits)

lemma frame_fillString: "frame (snd (fillString L)) = frame L"
  by (induction L rule: fillString.induct) (subst fillString.simps, auto split: option.splits)

lemma frame_fill_inc: "fillWhileEOB (incPtr k L) = (b, L') \<Longrightarrow> frame L' = frame L"
  using frame_fill [of "incPtr k L"] by simp

lemma frame_skipWhiteSpace: "frame (skipWhiteSpace L) = frame L"
  by (induction L rule: skipWhiteSpace.induct)
    (subst skipWhiteSpace.simps, auto split: prod.splits bool.splits dest: frame_fill_inc)

lemma frame_commentLoop: "frame (commentLoop L) = frame L"
  by (induction L rule: commentLoop.induct)
    (subst commentLoop.simps, auto split: prod.splits bool.splits dest: frame_fill_inc)

lemma frame_skipComment: "frame (skipComment L) = frame L"
  by (simp add: skipComment_def frame_commentLoop)

lemma frame_skipLoop: "frame (snd (skipLoop L)) = frame L"
proof (induction L rule: skipLoop.induct)
  case (1 L)
  then show ?case
    using frame_fill [of L]
    by (subst skipLoop.simps)
      (auto simp: hasMoreInput_def Let_def frame_skipComment frame_skipWhiteSpace split: prod.splits bool.splits)
qed

lemma frame_scanWhile [simp]: "frame (scanWhile P L) = frame L"
  by (induction P L rule: scanWhile.induct) (subst scanWhile.simps, auto)

lemma frame_number_step: "frame (snd (number_step dL)) = frame (snd dL)"
  by (auto simp: number_step_def Let_def split: prod.splits)

lemma frame_number_loop: "frame (number_loop dL) = frame (snd dL)"
  by (induction dL rule: number_loop.induct) (subst number_loop.simps, auto simp: Let_def frame_number_step)

lemma frame_lexStringChar: "lexStringChar nd L = Inr L' \<Longrightarrow> frame L' = frame L"
  by (auto simp: lexStringChar_def lexEscapeChar_def split: if_splits option.splits)

lemma frame_string_loop: "string_loop nd L = Inr L' \<Longrightarrow> frame L' = frame L"
  by (rule string_loop_keeps) (auto simp: frame_fillString frame_lexStringChar)

lemma frame_lexSymbol: "lexSymbol nd L = Inr L' \<Longrightarrow> frame L' = frame L"
  by (auto simp: lexSymbol_def lexString_def lexOperator_def lexWord_def lexNumber_def MATCH_def Let_def
      frame_number_loop split: if_splits option.splits dest: frame_string_loop)

lemma GetSym_frame:
  assumes "GetSym nd L = Inr (s, L')"
  shows "\<not> peekDone L' \<and> stateAfterPeek L' = stateAfterPeek L"
proof (cases "peekDone L")
  case True
  with assms show ?thesis by (auto simp: GetSym_def)
next
  case False
  then have "frame L' = frame L"
    using assms frame_skipLoop [of L]
    by (auto simp: GetSym_def split: prod.splits bool.splits elim!: bindR_InrE dest!: frame_lexSymbol)
  with False show ?thesis by (simp add: frame_def)
qed

text \<open>
  Which positions give \<open>NONE\<close>: those none of the branches of \<open>GetSym\<close> matches. The position does
  not move, so \<open>NONE\<close> comes back.
\<close>

definition unlexable :: "Lexer \<Rightarrow> bool" where
  "unlexable L \<longleftrightarrow>
     BC L \<notin> {CHR 0x27, CHR ''['', CHR '']'', CHR '':'', CHR ''-''} \<and> single_symbol (BC L) = None \<and>
     \<not> ISOP (BC L) \<and> \<not> nextWordInBufferIsPrimitive L \<and> \<not> isalpha (BC L) \<and> \<not> isdigit (BC L)"

lemma sym_fillString: "sym (lstate (snd (fillString L))) = sym (lstate L)"
  by (induction L rule: fillString.induct)
    (subst fillString.simps, auto simp: fillBuffer_def Let_def split: option.splits if_splits prod.splits)

lemma sym_lexStringChar: "lexStringChar nd L = Inr L' \<Longrightarrow> sym (lstate L') = sym (lstate L)"
  by (auto simp: lexStringChar_def lexEscapeChar_def split: if_splits option.splits)

lemma sym_string_loop: "string_loop nd L = Inr L' \<Longrightarrow> sym (lstate L') = sym (lstate L)"
  by (rule string_loop_keeps [of "\<lambda>L. sym (lstate L)"]) (auto simp: sym_fillString sym_lexStringChar)

lemma sym_scanWhile [simp]: "sym (lstate (scanWhile P L)) = sym (lstate L)"
  by (induction P L rule: scanWhile.induct) (subst scanWhile.simps, auto)

lemma sym_number_loop: "sym (lstate (snd dL)) \<noteq> NONE \<Longrightarrow> sym (lstate (number_loop dL)) \<noteq> NONE"
proof (induction dL rule: number_loop.induct)
  case (1 dL)
  have "sym (lstate (snd (number_step dL))) \<noteq> NONE"
    using 1(2) by (auto simp: number_step_def Let_def split: prod.splits)
  with 1 show ?case by (subst number_loop.simps) (simp add: Let_def)
qed

lemma sym_lexOperator: "ISOP (BC L) \<Longrightarrow> sym (lstate (lexOperator L)) \<noteq> NONE"
  by (auto simp: lexOperator_def op_symbol_def ISOP_def MATCH_def split: if_splits)

lemma sym_lexWord: "sym (lstate (lexWord L)) \<noteq> NONE"
  by (simp add: lexWord_def Let_def)

lemma single_symbol_NONE: "single_symbol c \<noteq> Some NONE"
  by (simp add: single_symbol_def)

lemma lexSymbol_NONE:
  "lexSymbol nd L = Inr L' \<Longrightarrow> sym (lstate L') = NONE \<Longrightarrow>
     unlexable L \<and> L' = set_text [BC L] (set_symc (BC L) (set_sym NONE L))"
  unfolding lexSymbol_def lexString_def lexNumber_def
  by (auto simp: sym_lexOperator sym_lexWord sym_number_loop MATCH_def single_symbol_NONE unlexable_def
      ISOP_def [of "CHR ''-''"] split: if_split_asm option.split_asm dest: sym_string_loop)

lemma lexSymbol_unlexable:
  "unlexable L \<Longrightarrow> lexSymbol nd L = Inr (set_text [BC L] (set_symc (BC L) (set_sym NONE L)))"
  by (simp add: unlexable_def lexSymbol_def)

lemma GetSym_cases:
  assumes "GetSym nd L = Inr (s, L')" and "\<not> peekDone L"
  obtains (eof) L1 where "skipLoop L = (False, L1)" and "s = NONE"
      and "L' = set_text [] (set_symc CHR 0x00 (set_sym NONE L1))"
    | (symbol) L1 L2 where "skipLoop L = (True, L1)" and "s = sym (lstate L')"
      and "L2 = L1\<lparr>lstate := (lstate L1)\<lparr>startBufp := bufp (lstate L1)\<rparr>\<rparr>" and "lexSymbol nd L2 = Inr L'"
      and "lex_left L2 = lex_left L1" and "\<not> EOB L2" and "\<not> isspace (BC L2)" and "BC L2 \<noteq> CHR 0x22"
  using assms skipLoop_result [of L]
  by (fastforce simp: GetSym_def lex_left_def EOB_def at_def split: prod.splits bool.splits elim!: bindR_InrE)

lemma GetSym_left:
  assumes "GetSym nd L = Inr (s, L')" and "\<not> peekDone L"
  shows "lex_left L' \<le> lex_left L" and "s \<noteq> NONE \<Longrightarrow> lex_left L' < lex_left L"
proof -
  from assms show "s \<noteq> NONE \<Longrightarrow> lex_left L' < lex_left L"
    by (cases rule: GetSym_cases) (auto dest!: skipLoop_left lexSymbol_left)
  from assms show "lex_left L' \<le> lex_left L"
  proof (cases rule: GetSym_cases)
    case eof
    then show ?thesis by (auto dest: skipLoop_left)
  next
    case (symbol L1 L2)
    then have "lex_left L' \<le> lex_left L2"
      using lexSymbol_left [of nd L2 L'] lexSymbol_NONE [of nd L2 L'] by force
    then show ?thesis using skipLoop_left [OF symbol(1)] symbol by simp
  qed
qed

text \<open>After \<open>NONE\<close> the lexer returns \<open>NONE\<close> forever.\<close>

lemma GetSym_NONE_stays:
  assumes "GetSym nd L = Inr (NONE, L')" and "\<not> peekDone L"
  shows "\<exists>L''. GetSym nd L' = Inr (NONE, L'') \<and> symtext (lstate L'') = symtext (lstate L')"
proof -
  have nopeek: "\<not> peekDone L'" using GetSym_frame [OF assms(1)] by blast
  from assms show ?thesis
  proof (cases rule: GetSym_cases)
    case (eof L1)
    then have "EOB L'" "\<not> good (infile L')"
      using skipLoop_result [of L False L1] by (simp_all add: lexer_defs)
    then have "skipLoop L' = (False, L')"
      by (simp add: skipLoop.simps hasMoreInput_def fillWhileEOB.simps fillBuffer_None [THEN iffD2])
    then show ?thesis using nopeek eof by (simp add: GetSym_def)
  next
    case (symbol L1 L2)
    then have u: "unlexable L2" and L': "L' = set_text [BC L2] (set_symc (BC L2) (set_sym NONE L2))"
      using lexSymbol_NONE [of nd L2 L'] by simp_all
    have "\<not> EOB L'" "\<not> isspace (BC L')" "BC L' \<noteq> CHR 0x22" using symbol L' by simp_all
    then have skip: "skipLoop L' = (True, L')"
      by (simp add: skipLoop.simps hasMoreInput_def skipWhiteSpace.simps skipComment_def)
    let ?L = "L'\<lparr>lstate := (lstate L')\<lparr>startBufp := bufp (lstate L')\<rparr>\<rparr>"
    have "unlexable ?L = unlexable L2" "BC ?L = BC L2"
      unfolding L' unlexable_def nextWordInBufferIsPrimitive_def buf_substr_def
      by (simp_all add: lexer_defs)
    with u have "lexSymbol nd ?L = Inr (set_text [BC L2] (set_symc (BC L2) (set_sym NONE ?L)))"
      using lexSymbol_unlexable [of ?L nd] by simp
    then show ?thesis using nopeek skip L' by (simp add: GetSym_def)
  qed
qed

subsection \<open>The sequence of symbols\<close>

text \<open>
  \<open>tokens\<close> is the sequence of symbols with their texts that repeated calls of \<open>GetSym\<close> give, up to
  and including the first \<open>NONE\<close>. \<open>tok_left\<close> bounds its length.
\<close>

definition tok_left :: "Lexer \<Rightarrow> nat" where
  "tok_left L =
     (if peekDone L
      then lex_left (L\<lparr>lstate := stateAfterPeek L\<rparr>) + of_bool (sym (stateAfterPeek L) \<noteq> NONE)
      else lex_left L)"

lemma GetSym_tok_left:
  assumes "GetSym nd L = Inr (s, L')"
  shows "tok_left L' + of_bool (s \<noteq> NONE) \<le> tok_left L"
proof -
  have "\<not> peekDone L'" using GetSym_frame [OF assms(1)] by blast
  then show ?thesis
    using assms GetSym_left [OF assms(1)]
    by (cases "peekDone L") (auto simp: tok_left_def GetSym_def lex_left_def)
qed

type_synonym token = "Symbol \<times> string"

function tokens :: "bool \<Rightarrow> Lexer \<Rightarrow> token list res" where
  "tokens nd L =
     bindR (GetSym nd L) (\<lambda>(s, L').
     if s = NONE then Inr [(NONE, symtext (lstate L'))]
     else bindR (tokens nd L') (\<lambda>ts. Inr ((s, symtext (lstate L')) # ts)))"
  by pat_completeness auto
termination
  by (relation "measure (tok_left \<circ> snd)") (auto dest: GetSym_tok_left)

declare tokens.simps [simp del]

text \<open>Looking ahead changes neither the symbols that follow nor the text of the current one.\<close>

lemma Peek_GetSym:
  assumes "Peek nd L = Inr (s, L')"
  obtains L1 where "GetSym nd L = Inr (s, L1)" and "s = sym (lstate L1)"
    and "GetSym nd L' = Inr (s, L1\<lparr>stateAfterPeek := lstate L1\<rparr>)"
    and "lstate L' = lstate L" and "stateAfterPeek L' = lstate L1" and "peekDone L'"
proof -
  from assms obtain s' L1 where L1: "GetSym nd L = Inr (s', L1)" "\<not> peekDone L" "s = sym (lstate L1)"
    "L' = L1\<lparr>stateAfterPeek := lstate L1, lstate := lstate L, peekDone := True\<rparr>"
    by (auto simp: Peek_def elim!: bindR_InrE)
  have "s' = sym (lstate L1)"
    using L1 by (cases rule: GetSym_cases [OF L1(1,2)]) auto
  moreover have "\<not> peekDone L1" using GetSym_frame [OF L1(1)] by blast
  then have "L1\<lparr>stateAfterPeek := lstate L1, peekDone := False\<rparr> = L1\<lparr>stateAfterPeek := lstate L1\<rparr>"
    by (cases L1) simp
  ultimately have "GetSym nd L' = Inr (s, L1\<lparr>stateAfterPeek := lstate L1\<rparr>)"
    using L1(3,4) by (simp add: GetSym_def)
  with that [of L1] L1 \<open>s' = sym (lstate L1)\<close> show ?thesis by simp
qed

lemma Peek_tok_left:
  assumes "Peek nd L = Inr (s, L')"
  shows "tok_left L' \<le> tok_left L"
proof -
  from assms obtain L1 where L1: "GetSym nd L = Inr (s, L1)" "s = sym (lstate L1)" by (rule Peek_GetSym)
  have L': "\<not> peekDone L" "L' = L1\<lparr>stateAfterPeek := lstate L1, lstate := lstate L, peekDone := True\<rparr>"
    using assms L1(1) by (auto simp: Peek_def elim!: bindR_InrE)
  then show ?thesis
    using GetSym_left [OF L1(1) L'(1)] L1(2) by (auto simp: tok_left_def lex_left_def)
qed

text \<open>Without a peeked symbol, lexing does not look at \<open>stateAfterPeek\<close>.\<close>

definition reap :: "LexerState \<Rightarrow> Lexer \<Rightarrow> Lexer" where
  "reap q L = L\<lparr>stateAfterPeek := q\<rparr>"

lemma reap_simple [simp]:
  "EOB (reap q L) = EOB L" "at k (reap q L) = at k L" "lstate (reap q L) = lstate L"
  "buf (reap q L) = buf L" "peekDone (reap q L) = peekDone L"
  "incPtr k (reap q L) = reap q (incPtr k L)" "set_text s (reap q L) = reap q (set_text s L)"
  "append_text c (reap q L) = reap q (append_text c L)" "set_sym y (reap q L) = reap q (set_sym y L)"
  "set_symc c (reap q L) = reap q (set_symc c L)" "fillBuffer (reap q L) = map_option (reap q) (fillBuffer L)"
  "(reap q L)\<lparr>lstate := st\<rparr> = reap q (L\<lparr>lstate := st\<rparr>)"
  by (simp_all add: reap_def lexer_defs fillBuffer_def Let_def split: prod.splits)

lemma reap_fill [simp]: "fillWhileEOB (reap q L) = apsnd (reap q) (fillWhileEOB L)"
  by (induction L rule: fillWhileEOB.induct) (subst (1 2) fillWhileEOB.simps, auto split: option.splits)

lemma reap_fillString [simp]: "fillString (reap q L) = apsnd (reap q) (fillString L)"
  by (induction L rule: fillString.induct) (subst (1 2) fillString.simps, auto split: option.splits)

lemma reap_skipWhiteSpace [simp]: "skipWhiteSpace (reap q L) = reap q (skipWhiteSpace L)"
  by (induction L rule: skipWhiteSpace.induct)
    (subst (1 2) skipWhiteSpace.simps, auto split: prod.splits bool.splits)

lemma reap_commentLoop [simp]: "commentLoop (reap q L) = reap q (commentLoop L)"
  by (induction L rule: commentLoop.induct)
    (subst (1 2) commentLoop.simps, auto split: prod.splits bool.splits)

lemma reap_skipLoop [simp]: "skipLoop (reap q L) = apsnd (reap q) (skipLoop L)"
proof (induction L rule: skipLoop.induct)
  case (1 L)
  show ?case
    unfolding skipLoop.simps [of L] skipLoop.simps [of "reap q L"]
    by (cases "fillWhileEOB L"; cases "fst (fillWhileEOB L)")
      (auto simp: hasMoreInput_def Let_def skipComment_def "1.IH")
qed

lemma reap_scanWhile [simp]: "scanWhile P (reap q L) = reap q (scanWhile P L)"
  by (induction P L rule: scanWhile.induct) (subst (1 2) scanWhile.simps, auto)

lemma reap_number_step [simp]: "number_step (d, reap q L) = apsnd (reap q) (number_step (d, L))"
  by (simp add: number_step_def Let_def)

lemma reap_number_loop [simp]: "number_loop (apsnd (reap q) dL) = reap q (number_loop dL)"
proof (induction dL rule: number_loop.induct)
  case (1 dL)
  have step: "number_step (apsnd (reap q) dL) = apsnd (reap q) (number_step dL)"
    by (cases dL) simp
  show ?case
    unfolding number_loop.simps [of dL] number_loop.simps [of "apsnd (reap q) dL"] step
    using "1.IH" [OF refl] by (simp add: Let_def)
qed

lemma reap_lexStringChar: "lexStringChar nd (reap q L) = map_sum id (reap q) (lexStringChar nd L)"
  by (auto simp: lexStringChar_def lexEscapeChar_def split: option.splits)

lemma reap_string_loop: "string_loop nd (reap q L) = map_sum id (reap q) (string_loop nd L)"
proof (induction nd L rule: string_loop.induct)
  case (1 nd L)
  obtain b L1 where f: "fillString L = (b, L1)" by fastforce
  show ?case
    unfolding string_loop.simps [of nd L] string_loop.simps [of nd "reap q L"] reap_fillString f
    using "1.IH" [OF _ f [symmetric]]
    by (cases b; cases "lexStringChar nd L1") (auto simp: reap_lexStringChar)
qed

lemma reap_number: "number_loop (d, reap q L) = reap q (number_loop (d, L))"
  using reap_number_loop [of q "(d, L)"] by simp

lemma reap_lexSymbol: "lexSymbol nd (reap q L) = map_sum id (reap q) (lexSymbol nd L)"
  unfolding lexSymbol_def
  by (simp add: lexString_def lexOperator_def lexWord_def lexNumber_def MATCH_def Let_def reap_number
      reap_string_loop buf_substr_def nextWordInBufferIsPrimitive_def split: option.split)

lemma reap_GetSym:
  "\<not> peekDone L \<Longrightarrow> GetSym nd (reap q L) = map_sum id (apsnd (reap q)) (GetSym nd L)"
  by (cases "skipLoop L"; cases "fst (skipLoop L)"; simp add: GetSym_def)
    (cases "lexSymbol nd (snd (skipLoop L)\<lparr>lstate := lstate (snd (skipLoop L))\<lparr>startBufp := bufp (lstate (snd (skipLoop L)))\<rparr>\<rparr>)";
     simp add: reap_lexSymbol)

lemma tokens_reap: "\<not> peekDone L \<Longrightarrow> tokens nd (reap q L) = tokens nd L"
proof (induction nd L rule: tokens.induct)
  case (1 nd L)
  show ?case
  proof (cases "GetSym nd L")
    case (Inr y)
    obtain s L' where y: "y = (s, L')" by fastforce
    have "\<not> peekDone L'" using GetSym_frame Inr y by blast
    then have "s \<noteq> NONE \<Longrightarrow> tokens nd (reap q L') = tokens nd L'" using "1.IH" Inr y by simp
    then show ?thesis
      unfolding tokens.simps [of nd L] tokens.simps [of nd "reap q L"] reap_GetSym [OF "1.prems"]
      using Inr y by simp
  qed (simp add: tokens.simps [of nd L] tokens.simps [of nd "reap q L"] reap_GetSym [OF "1.prems"])
qed

lemma tokens_Peek:
  assumes "Peek nd L = Inr (s, L')"
  shows "tokens nd L' = tokens nd L"
proof -
  from assms obtain L1 where L1: "GetSym nd L = Inr (s, L1)" "GetSym nd L' = Inr (s, reap (lstate L1) L1)"
    by (rule Peek_GetSym) (simp add: reap_def)
  have "tokens nd (reap (lstate L1) L1) = tokens nd L1"
    using GetSym_frame [OF L1(1)] tokens_reap by blast
  then show ?thesis
    by (simp add: tokens.simps [of nd L] tokens.simps [of nd L'] L1)
qed

subsection \<open>Lexing a printed sequence of symbols\<close>

text \<open>
  \<open>rem\<close> is what is left of the current line. A step of the lexer inside a line is described by the
  symbol, its text and the new rest of the line.
\<close>

definition rem :: "Lexer \<Rightarrow> string" where
  "rem L = drop (bufp (lstate L)) (buf L)"

definition lexed :: "Lexer \<Rightarrow> Symbol \<Rightarrow> string \<Rightarrow> string \<Rightarrow> Lexer \<Rightarrow> bool" where
  "lexed L s txt r L' \<longleftrightarrow>
     sym (lstate L') = s \<and> symtext (lstate L') = txt \<and> rem L' = r \<and> infile L' = infile L"

lemma rem_simps [simp]:
  "rem (incPtr k L) = drop k (rem L)" "rem (set_text s L) = rem L" "rem (append_text c L) = rem L"
  "rem (set_sym y L) = rem L" "rem (set_symc c L) = rem L"
  "infile (incPtr k L) = infile L" "infile (set_text s L) = infile L" "infile (append_text c L) = infile L"
  "infile (set_sym y L) = infile L" "infile (set_symc c L) = infile L"
  by (simp_all add: rem_def lexer_defs add.commute)

lemma EOB_rem: "EOB L \<longleftrightarrow> rem L = []"
  by (simp add: rem_def EOB_def)

lemma at_rem: "at k L = (if k < length (rem L) then rem L ! k else CHR 0x00)"
  by (auto simp: rem_def at_def)

lemma at_rem_Cons: "rem L = c # r \<Longrightarrow> at 0 L = c" "rem L = c # d # r \<Longrightarrow> at (Suc 0) L = d"
  by (simp_all add: at_rem)

lemma buf_substr_rem: "buf_substr L n = take n (rem L)"
  by (simp add: buf_substr_def rem_def)

lemma scanWhile_rem:
  "symtext (lstate (scanWhile P L)) = symtext (lstate L) @ takeWhile P (rem L) \<and>
   rem (scanWhile P L) = dropWhile P (rem L) \<and> infile (scanWhile P L) = infile L"
proof (induction P L rule: scanWhile.induct)
  case (1 P L)
  show ?case
  proof (cases "rem L")
    case Nil
    then show ?thesis by (subst (1 2 3) scanWhile.simps) (simp add: EOB_rem)
  next
    case (Cons c r)
    with 1 show ?thesis by (subst (1 2 3) scanWhile.simps) (simp add: EOB_rem at_rem)
  qed
qed

lemma number_loop_saw:
  "rem L = c # ds @ r \<Longrightarrow> list_all isdigit ds \<Longrightarrow> r \<noteq> [] \<Longrightarrow> \<not> isdigit (hd r) \<Longrightarrow>
   lexed L (sym (lstate L)) (symtext (lstate L) @ c # ds) r (number_loop (True, L))"
proof (induction ds arbitrary: c L)
  case Nil
  then show ?case
    by (subst number_loop.simps) (cases r; simp add: number_step_def Let_def at_rem lexed_def)
next
  case (Cons d ds)
  have "lexed (incPtr 1 (append_text c L)) (sym (lstate L)) (symtext (lstate L) @ c # d # ds) r
          (number_loop (True, incPtr 1 (append_text c L)))"
    using Cons.IH [of "incPtr 1 (append_text c L)" d] Cons.prems by simp
  with Cons.prems show ?case
    by (subst number_loop.simps) (simp add: number_step_def Let_def at_rem lexed_def)
qed

lemma number_loop_int:
  "rem L = c # ds @ r \<Longrightarrow> list_all isdigit ds \<Longrightarrow> r \<noteq> [] \<Longrightarrow> \<not> isdigit (hd r) \<Longrightarrow> hd r \<noteq> CHR ''.'' \<Longrightarrow>
   lexed L (sym (lstate L)) (symtext (lstate L) @ c # ds) r (number_loop (False, L))"
proof (induction ds arbitrary: c L)
  case Nil
  then show ?case
    by (subst number_loop.simps) (cases r; simp add: number_step_def Let_def at_rem lexed_def)
next
  case (Cons d ds)
  have dot: "d \<noteq> CHR ''.''" using Cons.prems by (auto simp: isdigit_def ch_def)
  have "lexed (incPtr 1 (append_text c L)) (sym (lstate L)) (symtext (lstate L) @ c # d # ds) r
          (number_loop (False, incPtr 1 (append_text c L)))"
    using Cons.IH [of "incPtr 1 (append_text c L)" d] Cons.prems by simp
  with Cons.prems dot show ?case
    by (subst number_loop.simps) (simp add: number_step_def Let_def at_rem lexed_def)
qed

lemma number_loop_double:
  assumes "rem L = c # ds @ CHR ''.'' # e # es @ r" and "list_all isdigit ds" and "isdigit e"
    and "list_all isdigit es" and "r \<noteq> []" and "\<not> isdigit (hd r)"
  shows "lexed L Double (symtext (lstate L) @ c # ds @ CHR ''.'' # e # es) r (number_loop (False, L))"
  using assms
proof (induction ds arbitrary: c L)
  case Nil
  let ?L = "incPtr 1 (append_text CHR ''.'' (set_sym Double (incPtr 1 (append_text c L))))"
  have len: "bufp (lstate L) + 2 < length (buf L)"
    using arg_cong [OF Nil.prems(1), of length] by (simp add: rem_def)
  have "lexed ?L Double (symtext (lstate L) @ [c, CHR ''.'', e] @ es) r (number_loop (True, ?L))"
    using number_loop_saw [of ?L e es r] Nil.prems by simp
  then show ?case
    using Nil.prems len
    by (subst number_loop.simps) (simp add: number_step_def Let_def at_rem lexed_def, simp add: lexer_defs)
next
  case (Cons d ds)
  have dot: "d \<noteq> CHR ''.''" using Cons.prems by (auto simp: isdigit_def ch_def)
  have "lexed (incPtr 1 (append_text c L)) Double (symtext (lstate L) @ c # d # ds @ CHR ''.'' # e # es) r
          (number_loop (False, incPtr 1 (append_text c L)))"
    using Cons.IH [of "incPtr 1 (append_text c L)" d] Cons.prems by simp
  with Cons.prems dot show ?case
    by (subst number_loop.simps) (simp add: number_step_def Let_def at_rem lexed_def)
qed

text \<open>Strings are printed with the escapes of \<open>lexEscapeChar\<close>.\<close>

definition print_char :: "char \<Rightarrow> string" where
  "print_char c =
     (if c = CHR 0x09 then [CHR 0x5C, CHR ''t''] else if c = CHR 0x08 then [CHR 0x5C, CHR ''b'']
      else if c = CHR 0x0A then [CHR 0x5C, CHR ''n''] else if c = CHR 0x0D then [CHR 0x5C, CHR ''r'']
      else if c = CHR 0x0C then [CHR 0x5C, CHR ''f''] else if c = CHR 0x00 then [CHR 0x5C, CHR ''0'']
      else if c = CHR 0x27 then [CHR 0x5C, CHR 0x27] else if c = CHR 0x5C then [CHR 0x5C, CHR 0x5C]
      else [c])"

definition print_string :: "string \<Rightarrow> string" where
  "print_string t = CHR 0x27 # concat (map print_char t) @ [CHR 0x27]"

lemma print_char_cases:
  obtains (plain) "print_char c = [c]" and "c \<noteq> CHR 0x27" and "c \<noteq> CHR 0x5C" and "c \<noteq> CHR 0x0A"
    | (escaped) e where "print_char c = [CHR 0x5C, e]" and "escape_char e = Some c" and "e \<noteq> CHR 0x0A"
proof -
  have "(print_char c = [c] \<and> c \<noteq> CHR 0x27 \<and> c \<noteq> CHR 0x5C \<and> c \<noteq> CHR 0x0A) \<or>
        (\<exists>e. print_char c = [CHR 0x5C, e] \<and> escape_char e = Some c \<and> e \<noteq> CHR 0x0A)"
    by (simp add: print_char_def escape_char_def)
  then show ?thesis using that by blast
qed

lemma string_loop_char:
  assumes "rem L = print_char c @ r" and "r \<noteq> []"
  shows "\<exists>L1. string_loop nd L = string_loop nd L1 \<and> rem L1 = r \<and> infile L1 = infile L \<and>
           symtext (lstate L1) = symtext (lstate L) @ [c] \<and> sym (lstate L1) = sym (lstate L)"
proof (cases c rule: print_char_cases)
  case plain
  with assms show ?thesis
    by (intro exI [of _ "incPtr 1 (append_text c L)"], subst string_loop.simps)
      (simp add: fillString.simps EOB_rem at_rem lexStringChar_def)
next
  case (escaped e)
  with assms show ?thesis
    by (intro exI [of _ "incPtr 1 (append_text c (incPtr 1 L))"], subst string_loop.simps)
      (simp add: fillString.simps EOB_rem at_rem lexStringChar_def lexEscapeChar_def)
qed

lemma string_loop_print:
  "rem L = concat (map print_char t) @ CHR 0x27 # r \<Longrightarrow>
   \<exists>L'. string_loop nd L = Inr L' \<and> lexed L (sym (lstate L)) (symtext (lstate L) @ t) r L'"
proof (induction t arbitrary: L)
  case Nil
  then show ?case by (subst string_loop.simps) (simp add: at_rem lexed_def)
next
  case (Cons c t)
  then obtain L1 where L1: "string_loop nd L = string_loop nd L1"
    "rem L1 = concat (map print_char t) @ CHR 0x27 # r" "infile L1 = infile L"
    "symtext (lstate L1) = symtext (lstate L) @ [c]" "sym (lstate L1) = sym (lstate L)"
    using string_loop_char [of L c "concat (map print_char t) @ CHR 0x27 # r" nd] by auto
  with Cons.IH [of L1] show ?case by (auto simp: lexed_def)
qed

text \<open>Which pairs of a symbol and a text are symbols of the language, and how they are printed.\<close>

definition word_ok :: "string \<Rightarrow> bool" where
  "word_ok w \<longleftrightarrow> w \<noteq> [] \<and> isalpha (hd w) \<and> list_all ident_char w \<and>
     (take 9 w = PRIMITIVE \<longrightarrow> 9 < length w \<and> isalnum (w ! 9))"

fun tok_ok :: "token \<Rightarrow> bool" where
  "tok_ok (Integer, t) \<longleftrightarrow> t \<noteq> [] \<and> list_all isdigit t"
| "tok_ok (Double, t) \<longleftrightarrow>
     (let r = dropWhile isdigit t
      in r \<noteq> t \<and> 2 \<le> length r \<and> hd r = CHR ''.'' \<and> list_all isdigit (tl r))"
| "tok_ok (STString, t) \<longleftrightarrow> True"
| "tok_ok (Identifier, t) \<longleftrightarrow> word_ok t"
| "tok_ok (Keyword, t) \<longleftrightarrow> t \<noteq> [] \<and> last t = CHR '':'' \<and> word_ok (butlast t)"
| "tok_ok (KeywordSequence, t) \<longleftrightarrow>
     (let r = dropWhile ident_char t
      in word_ok (takeWhile ident_char t) \<and> 2 \<le> length r \<and> hd r = CHR '':'' \<and> isalpha (r ! 1) \<and>
         list_all keyword_char (tl r))"
| "tok_ok (OperatorSequence, t) \<longleftrightarrow> 2 \<le> length t \<and> list_all ISOP t \<and> take 4 t \<noteq> ''----''"
| "tok_ok (Separator, t) \<longleftrightarrow> 4 \<le> length t \<and> list_all (\<lambda>c. c = CHR ''-'') t"
| "tok_ok (Primitive, t) \<longleftrightarrow> t = PRIMITIVE"
| "tok_ok (Assign, t) \<longleftrightarrow> t = '':=''"
| "tok_ok (Colon, t) \<longleftrightarrow> t = '':''"
| "tok_ok (NewBlock, t) \<longleftrightarrow> t = ''[''"
| "tok_ok (EndBlock, t) \<longleftrightarrow> t = '']''"
| "tok_ok (s, t) \<longleftrightarrow> (\<exists>c. t = [c] \<and> (op_symbol c = Some s \<or> single_symbol c = Some s))"

definition print_tok :: "token \<Rightarrow> string" where
  "print_tok t = (if fst t = STString then print_string (snd t) else snd t)"

definition print_toks :: "token list \<Rightarrow> string" where
  "print_toks ts = CHR '' '' # concat (map (\<lambda>t. print_tok t @ '' '') ts)"

lemma isalpha_other:
  assumes "isalpha c"
  shows "c \<noteq> CHR 0x27" "c \<noteq> CHR ''[''" "c \<noteq> CHR '']''" "c \<noteq> CHR '':''" "c \<noteq> CHR ''-''"
    "single_symbol c = None" "\<not> ISOP c" "\<not> isspace c" "c \<noteq> CHR 0x22"
  using assms by (auto simp: isalpha_def ch_def single_symbol_def ISOP_def isspace_def)

lemma isdigit_other:
  assumes "isdigit c"
  shows "c \<noteq> CHR 0x27" "c \<noteq> CHR ''[''" "c \<noteq> CHR '']''" "c \<noteq> CHR '':''" "c \<noteq> CHR ''-''"
    "single_symbol c = None" "\<not> ISOP c" "\<not> isspace c" "c \<noteq> CHR 0x22" "\<not> isalpha c" "c \<noteq> CHR ''p''"
  using assms by (auto simp: isalpha_def isdigit_def ch_def single_symbol_def ISOP_def isspace_def)

lemma ISOP_other:
  assumes "ISOP c"
  shows "c \<noteq> CHR 0x27" "c \<noteq> CHR ''[''" "c \<noteq> CHR '']''" "c \<noteq> CHR '':''"
    "single_symbol c = None" "\<not> isspace c" "c \<noteq> CHR 0x22"
  using assms by (auto simp: ch_def single_symbol_def ISOP_def isspace_def)

lemma not_primitive:
  "rem L = c # r \<Longrightarrow> c \<noteq> CHR ''p'' \<Longrightarrow> \<not> nextWordInBufferIsPrimitive L"
  by (simp add: nextWordInBufferIsPrimitive_def buf_substr_rem PRIMITIVE_def)

lemma ident_char_facts: "\<not> ident_char CHR '' ''" "\<not> ident_char CHR '':''" "\<not> keyword_char CHR '' ''"
  "\<not> isalpha CHR '' ''" "\<not> isdigit CHR '' ''" "\<not> ISOP CHR '' ''" "isalpha c \<Longrightarrow> ident_char c"
  "isalpha c \<Longrightarrow> keyword_char c"
  by (simp_all add: ident_char_def keyword_char_def isalpha_def isdigit_def ch_def ISOP_def)

lemma takeWhile_list_all: "list_all P xs \<Longrightarrow> \<not> P y \<Longrightarrow> takeWhile P (xs @ y # ys) = xs"
  by (induction xs) simp_all

lemma dropWhile_list_all: "list_all P xs \<Longrightarrow> \<not> P y \<Longrightarrow> dropWhile P (xs @ y # ys) = y # ys"
  by (induction xs) simp_all

lemma length_PRIMITIVE: "length PRIMITIVE = 9"
  by (simp add: PRIMITIVE_def)

lemma word_not_primitive:
  assumes w: "word_ok w" and L: "rem L = w @ c # r" and c: "\<not> ident_char c"
  shows "\<not> nextWordInBufferIsPrimitive L"
proof (cases "take 9 (rem L) = PRIMITIVE")
  case True
  have "9 \<le> length w"
  proof (rule ccontr)
    assume "\<not> 9 \<le> length w"
    then have "PRIMITIVE ! length w = c" "length w < length PRIMITIVE"
      using arg_cong [OF True, of "\<lambda>x. x ! length w"] by (simp_all add: L PRIMITIVE_def del: take_append)
    then have "c \<in> set PRIMITIVE" using nth_mem by blast
    then show False using c by (auto simp: PRIMITIVE_def ident_char_def isalpha_def ch_def)
  qed
  then have "9 < length w" "isalnum (w ! 9)" using w True L by (simp_all add: word_ok_def)
  then have "9 < length (rem L)" "isalnum (at 9 L)" using L by (simp_all add: at_rem nth_append)
  moreover have "\<not> length (buf L) \<le> bufp (lstate L) + 9" using \<open>9 < length (rem L)\<close> by (simp add: rem_def)
  ultimately show ?thesis by (simp add: nextWordInBufferIsPrimitive_def length_PRIMITIVE)
next
  case False
  then show ?thesis by (auto simp: nextWordInBufferIsPrimitive_def buf_substr_rem length_PRIMITIVE)
qed

text \<open>One printed symbol, followed by a blank.\<close>

lemma lexWord_word:
  assumes "list_all ident_char w" and "rem L = w @ c # r" and "\<not> ident_char c" and "c \<noteq> CHR '':''"
  shows "lexed L Identifier w (c # r) (lexWord L)"
  using assms scanWhile_rem [of ident_char "set_symc CHR 0x00 (set_text [] L)"]
  by (simp add: lexWord_def Let_def lexed_def takeWhile_list_all dropWhile_list_all at_rem)

lemma lexWord_keyword:
  assumes "list_all ident_char w" and "rem L = w @ CHR '':'' # c # r" and "\<not> isalpha c"
  shows "lexed L Keyword (w @ '':'') (c # r) (lexWord L)"
  using assms scanWhile_rem [of ident_char "set_symc CHR 0x00 (set_text [] L)"]
  by (simp add: lexWord_def Let_def lexed_def takeWhile_list_all dropWhile_list_all at_rem ident_char_facts)

lemma lexWord_sequence:
  assumes "list_all ident_char w" and "rem L = w @ CHR '':'' # c # v @ d # r" and "isalpha c"
    and "list_all keyword_char v" and "\<not> keyword_char d"
  shows "lexed L KeywordSequence (w @ CHR '':'' # c # v) (d # r) (lexWord L)"
proof -
  let ?L1 = "scanWhile ident_char (set_symc CHR 0x00 (set_text [] L))"
  let ?L2 = "set_sym KeywordSequence (append_text CHR '':'' (incPtr 1 (set_sym Keyword (set_sym Identifier ?L1))))"
  have 1: "symtext (lstate ?L1) = w" "rem ?L1 = CHR '':'' # c # v @ d # r" "infile ?L1 = infile L"
    using scanWhile_rem [of ident_char "set_symc CHR 0x00 (set_text [] L)"] assms(1,2)
    by (simp_all add: takeWhile_list_all dropWhile_list_all ident_char_facts)
  have 2: "takeWhile keyword_char (rem ?L2) = c # v" "dropWhile keyword_char (rem ?L2) = d # r"
    using assms(3-5) 1 takeWhile_list_all [of keyword_char v d r] dropWhile_list_all [of keyword_char v d r]
    by (simp_all add: ident_char_facts)
  show ?thesis
    using 1 2 assms(3) scanWhile_rem [of keyword_char ?L2]
    by (simp add: lexWord_def Let_def lexed_def at_rem)
qed

lemma lexSymbol_word:
  assumes w: "word_ok w" and L: "rem L = w @ c # r" and c: "\<not> ident_char c"
  shows "lexSymbol nd L = Inr (lexWord L)"
proof -
  have "isalpha (BC L)" using w L by (cases w) (simp_all add: word_ok_def at_rem)
  then show ?thesis
    using word_not_primitive [OF assms] by (simp add: lexSymbol_def isalpha_other)
qed

lemma lexSymbol_number:
  assumes "isdigit c" and "rem L = c # r"
  shows "lexSymbol nd L = Inr (lexNumber L)"
  using assms not_primitive [of L c r] by (simp add: lexSymbol_def isdigit_other at_rem)

lemma lexSymbol_op:
  assumes "list_all ISOP (c # w)" and L: "rem L = c # w @ d # r" and "\<not> ISOP d" and "take 4 (c # w) \<noteq> ''----''"
  shows "lexSymbol nd L = Inr (lexOperator L)"
proof -
  have "take 4 (rem L) \<noteq> ''----''"
  proof (cases "4 \<le> length (c # w)")
    case True
    then have "take 4 (rem L) = take 4 (c # w)" unfolding L append_Cons [symmetric] by (simp del: append_Cons)
    with assms(4) show ?thesis by simp
  next
    case False
    then have "take 4 (rem L) ! length (c # w) = rem L ! length (c # w)" by (simp del: length_Cons)
    also have "\<dots> = d" using nth_append_length [of "c # w" d r] L by simp
    finally have "take 4 (rem L) ! length (c # w) = d" .
    moreover have "replicate 4 CHR ''-'' ! length (c # w) = CHR ''-''" using False by simp
    ultimately show ?thesis using assms(3) by (auto simp: ISOP_def numeral_eq_Suc)
  qed
  then show ?thesis
    using assms by (simp add: lexSymbol_def ISOP_other at_rem buf_substr_rem)
qed

lemma lexOperator_sequence:
  assumes "list_all ISOP (c # e # w)" and "rem L = c # e # w @ d # r" and "\<not> ISOP d"
  shows "lexed L OperatorSequence (c # e # w) (d # r) (lexOperator L)"
  using assms scanWhile_rem [of ISOP "set_text [] (set_symc CHR 0x00 (set_sym OperatorSequence L))"]
  by (simp add: lexOperator_def lexed_def takeWhile_list_all dropWhile_list_all at_rem)

lemma lexOperator_single:
  assumes "op_symbol c = Some s" and "rem L = c # d # r" and "\<not> ISOP d"
  shows "lexed L s [c] (d # r) (lexOperator L)"
  using assms by (simp add: lexOperator_def lexed_def MATCH_def at_rem)

lemma op_symbol_ISOP: "op_symbol c = Some s \<Longrightarrow> ISOP c"
  by (auto simp: op_symbol_def ISOP_def split: if_splits)

definition lexes :: "bool \<Rightarrow> token \<Rightarrow> bool" where
  "lexes nd t \<longleftrightarrow> (\<forall>L r. rem L = print_tok t @ CHR '' '' # r \<longrightarrow>
     (\<exists>L'. lexSymbol nd L = Inr L' \<and> lexed L (fst t) (snd t) (CHR '' '' # r) L'))"

lemma lexesI:
  assumes "\<And>L r. rem L = print_tok (s, w) @ CHR '' '' # r \<Longrightarrow>
             \<exists>L'. lexSymbol nd L = Inr L' \<and> lexed L s w (CHR '' '' # r) L'"
  shows "lexes nd (s, w)"
  using assms by (auto simp: lexes_def)

lemma lexes_word: "word_ok w \<Longrightarrow> lexes nd (Identifier, w)"
  using lexSymbol_word [of w _ "CHR '' ''"] lexWord_word [of w _ "CHR '' ''"]
  by (intro lexesI) (auto simp: print_tok_def ident_char_facts word_ok_def)

lemma lexes_keyword:
  assumes "tok_ok (Keyword, w)" shows "lexes nd (Keyword, w)"
proof (rule lexesI)
  fix L r assume r: "rem L = print_tok (Keyword, w) @ CHR '' '' # r"
  obtain v where v: "w = v @ '':''" "word_ok v"
    using assms by (metis append_butlast_last_id tok_ok.simps(5))
  have L: "rem L = v @ CHR '':'' # CHR '' '' # r" using r v by (simp add: print_tok_def)
  show "\<exists>L'. lexSymbol nd L = Inr L' \<and> lexed L Keyword w (CHR '' '' # r) L'"
    using lexSymbol_word [OF v(2) L] lexWord_keyword [OF _ L] v by (simp add: ident_char_facts word_ok_def)
qed

lemma lexes_sequence:
  assumes "tok_ok (KeywordSequence, w)" shows "lexes nd (KeywordSequence, w)"
proof (rule lexesI)
  fix L r assume r: "rem L = print_tok (KeywordSequence, w) @ CHR '' '' # r"
  let ?v = "takeWhile ident_char w"
  obtain c u where u: "dropWhile ident_char w = CHR '':'' # c # u" "isalpha c" "list_all keyword_char u" "word_ok ?v"
    using assms by (cases "dropWhile ident_char w"; cases "tl (dropWhile ident_char w)") auto
  have w: "w = ?v @ CHR '':'' # c # u" using takeWhile_dropWhile_id [of ident_char w] u(1) by simp
  have L: "rem L = ?v @ CHR '':'' # c # u @ CHR '' '' # r" using r w by (simp add: print_tok_def)
  show "\<exists>L'. lexSymbol nd L = Inr L' \<and> lexed L KeywordSequence w (CHR '' '' # r) L'"
    using lexSymbol_word [OF u(4) L] lexWord_sequence [OF _ L u(2,3)] u w
    by (simp add: ident_char_facts word_ok_def)
qed

lemma lexes_integer:
  assumes "tok_ok (Integer, w)" shows "lexes nd (Integer, w)"
proof (rule lexesI)
  fix L r assume r: "rem L = print_tok (Integer, w) @ CHR '' '' # r"
  obtain c ds where w: "w = c # ds" "isdigit c" "list_all isdigit ds" using assms by (cases w) auto
  have L: "rem L = c # ds @ CHR '' '' # r" using r w by (simp add: print_tok_def)
  show "\<exists>L'. lexSymbol nd L = Inr L' \<and> lexed L Integer w (CHR '' '' # r) L'"
    using lexSymbol_number [OF w(2) L] w L
      number_loop_int [of "set_text [] (set_symc CHR 0x00 (set_sym Integer L))" c ds "CHR '' '' # r"]
    by (simp add: lexNumber_def lexed_def ident_char_facts)
qed

lemma lexes_double:
  assumes "tok_ok (Double, w)" shows "lexes nd (Double, w)"
proof (rule lexesI)
  fix L r assume r: "rem L = print_tok (Double, w) @ CHR '' '' # r"
  let ?d = "dropWhile isdigit w"
  obtain e es where d: "?d = CHR ''.'' # e # es" "isdigit e" "list_all isdigit es"
    using assms by (cases ?d; cases "tl ?d") (auto simp: Let_def)
  obtain c ds where c: "takeWhile isdigit w = c # ds"
    using assms by (cases w) (auto simp: Let_def split: if_splits)
  then have digits: "isdigit c" "list_all isdigit ds"
    using set_takeWhileD [of _ isdigit w] by (auto simp: list_all_iff)
  have w: "w = c # ds @ CHR ''.'' # e # es" using takeWhile_dropWhile_id [of isdigit w] c d(1) by simp
  have L: "rem L = c # ds @ CHR ''.'' # e # es @ CHR '' '' # r" using r w by (simp add: print_tok_def)
  show "\<exists>L'. lexSymbol nd L = Inr L' \<and> lexed L Double w (CHR '' '' # r) L'"
    using lexSymbol_number [OF digits(1) L] w L digits d
      number_loop_double [of "set_text [] (set_symc CHR 0x00 (set_sym Integer L))" c ds e es "CHR '' '' # r"]
    by (simp add: lexNumber_def lexed_def ident_char_facts)
qed

lemma lexes_string: "lexes nd (STString, w)"
proof (rule lexesI)
  fix L r assume r: "rem L = print_tok (STString, w) @ CHR '' '' # r"
  let ?L = "incPtr 1 (set_text [] (set_symc CHR 0x00 (set_sym STString L)))"
  have "rem ?L = concat (map print_char w) @ CHR 0x27 # CHR '' '' # r"
    using r by (simp add: print_tok_def print_string_def)
  from string_loop_print [OF this, of nd] r
  show "\<exists>L'. lexSymbol nd L = Inr L' \<and> lexed L STString w (CHR '' '' # r) L'"
    by (auto simp: lexSymbol_def lexString_def lexed_def at_rem print_tok_def print_string_def)
qed

lemma lexes_operators:
  assumes "tok_ok (OperatorSequence, w)" shows "lexes nd (OperatorSequence, w)"
proof (rule lexesI)
  fix L r assume r: "rem L = print_tok (OperatorSequence, w) @ CHR '' '' # r"
  obtain c e u where w: "w = c # e # u" using assms by (cases w; cases "tl w") auto
  have L: "rem L = c # (e # u) @ CHR '' '' # r" using r w by (simp add: print_tok_def)
  show "\<exists>L'. lexSymbol nd L = Inr L' \<and> lexed L OperatorSequence w (CHR '' '' # r) L'"
    using lexSymbol_op [OF _ L, of nd] lexOperator_sequence [of c e u L] L w assms
    by (simp add: ident_char_facts)
qed

lemma lexes_separator:
  assumes "tok_ok (Separator, w)" shows "lexes nd (Separator, w)"
proof (rule lexesI)
  fix L r assume r: "rem L = print_tok (Separator, w) @ CHR '' '' # r"
  have all: "list_all (\<lambda>c. c = CHR ''-'') w" and len: "4 \<le> length w" using assms by simp_all
  then have w4: "take 4 w = ''----''"
    by (intro nth_equalityI) (auto simp: list_all_length nth_Cons numeral_eq_Suc split: nat.splits)
  have "take 4 (rem L) = take 4 w" using r len by (simp add: print_tok_def)
  moreover have "BC L = CHR ''-''" using r all len by (cases w) (simp_all add: print_tok_def at_rem)
  ultimately show "\<exists>L'. lexSymbol nd L = Inr L' \<and> lexed L Separator w (CHR '' '' # r) L'"
    using scanWhile_rem [of "\<lambda>c. c = CHR ''-''" "set_text [] L"] r w4 all
    by (simp add: lexSymbol_def lexed_def buf_substr_rem print_tok_def single_symbol_def
        takeWhile_list_all dropWhile_list_all)
qed

lemma lexes_op:
  assumes "op_symbol c = Some s" shows "lexes nd (s, [c])"
proof (rule lexesI)
  fix L r assume r: "rem L = print_tok (s, [c]) @ CHR '' '' # r"
  have "s \<noteq> STString" using assms by (auto simp: op_symbol_def split: if_splits)
  then have L: "rem L = c # [] @ CHR '' '' # r" using r by (simp add: print_tok_def)
  show "\<exists>L'. lexSymbol nd L = Inr L' \<and> lexed L s [c] (CHR '' '' # r) L'"
    using lexSymbol_op [OF _ L, of nd] lexOperator_single [OF assms, of L] L op_symbol_ISOP [OF assms]
    by (simp add: ident_char_facts)
qed

lemma lexes_single:
  assumes "single_symbol c = Some s" shows "lexes nd (s, [c])"
proof (rule lexesI)
  fix L r assume r: "rem L = print_tok (s, [c]) @ CHR '' '' # r"
  have "s \<noteq> STString" "c \<noteq> CHR 0x27" "c \<noteq> CHR ''[''" "c \<noteq> CHR '']''" "c \<noteq> CHR '':''"
    using assms by (auto simp: single_symbol_def split: if_splits)
  then show "\<exists>L'. lexSymbol nd L = Inr L' \<and> lexed L s [c] (CHR '' '' # r) L'"
    using r assms by (simp add: print_tok_def lexSymbol_def at_rem lexed_def MATCH_def)
qed

lemma lexes_fixed:
  "lexes nd (NewBlock, ''['')" "lexes nd (EndBlock, '']'')" "lexes nd (Assign, '':='')" "lexes nd (Colon, '':'')"
  by (auto intro!: lexesI simp: print_tok_def lexSymbol_def at_rem lexed_def MATCH_def)

lemma lexes_primitive: "lexes nd (Primitive, PRIMITIVE)"
proof (rule lexesI)
  fix L r assume r: "rem L = print_tok (Primitive, PRIMITIVE) @ CHR '' '' # r"
  then have L: "rem L = PRIMITIVE @ CHR '' '' # r" by (simp add: print_tok_def)
  then have "BC L = CHR ''p''" by (simp add: PRIMITIVE_def at_rem)
  moreover have "\<not> ISOP CHR ''p''" "single_symbol CHR ''p'' = None" by (simp_all add: ISOP_def single_symbol_def)
  moreover have "at 9 L = CHR '' ''" using L by (simp add: at_rem nth_append length_PRIMITIVE)
  then have "nextWordInBufferIsPrimitive L"
    using L by (simp add: nextWordInBufferIsPrimitive_def length_PRIMITIVE buf_substr_rem isalnum_def ident_char_facts)
  ultimately show "\<exists>L'. lexSymbol nd L = Inr L' \<and> lexed L Primitive PRIMITIVE (CHR '' '' # r) L'"
    using L by (simp add: lexSymbol_def lexed_def)
qed

lemma lexes_tok_ok: "tok_ok t \<Longrightarrow> lexes nd t"
  by (induction t rule: tok_ok.induct)
    (blast intro: lexes_op lexes_single | simp add: lexes_fixed lexes_primitive lexes_word lexes_keyword
      lexes_sequence lexes_integer lexes_double lexes_string lexes_operators lexes_separator
      del: tok_ok.simps(1,2,5-8) | simp add: lexes_fixed lexes_primitive lexes_word
     | fastforce intro: lexes_op lexes_single)+

text \<open>The first character of a printed symbol is not blank and does not open a comment.\<close>

lemma tok_ok_not_NONE: "tok_ok t \<Longrightarrow> fst t \<noteq> NONE"
  by (cases t rule: tok_ok.cases) (auto simp: op_symbol_def single_symbol_def split: if_splits)

lemma blank_unlexable:
  assumes "rem L = c # r" and "isspace c \<or> c = CHR 0x22"
  shows "unlexable L"
proof -
  have "c \<notin> {CHR 0x27, CHR ''['', CHR '']'', CHR '':'', CHR ''-'', CHR ''p''}" "single_symbol c = None"
    "\<not> ISOP c" "\<not> isalpha c" "\<not> isdigit c"
    using assms(2) by (auto simp: isspace_def ch_def single_symbol_def ISOP_def isalpha_def isdigit_def)
  then show ?thesis
    using assms(1) not_primitive [OF assms(1)] by (simp add: unlexable_def at_rem)
qed

lemma print_tok_first:
  assumes "tok_ok t" and c: "print_tok t @ '' '' = c # w"
  shows "\<not> isspace c" and "c \<noteq> CHR 0x22"
proof -
  let ?L = "(new_lexer \<lparr>rest = [], good = False\<rparr>)\<lparr>buf := c # w\<rparr>"
  have L: "rem ?L = c # w" by (simp add: rem_def new_lexer_def init_state_def)
  have "\<exists>L'. lexSymbol True ?L = Inr L' \<and> lexed ?L (fst t) (snd t) '' '' L'"
    using lexes_tok_ok [OF assms(1), of True] L c unfolding lexes_def by metis
  then obtain L' where "lexSymbol True ?L = Inr L'" "sym (lstate L') = fst t" by (auto simp: lexed_def)
  then have "\<not> unlexable ?L"
    using tok_ok_not_NONE [OF assms(1)] lexSymbol_unlexable [of ?L True] by auto
  with blank_unlexable [OF L] show "\<not> isspace c" "c \<noteq> CHR 0x22" by auto
qed

lemma list_all_no_newline:
  "list_all P w \<Longrightarrow> \<not> P CHR 0x0A \<Longrightarrow> CHR 0x0A \<notin> set w"
  by (auto simp: list_all_iff)

lemma newline_facts: "\<not> isdigit CHR 0x0A" "\<not> ident_char CHR 0x0A" "\<not> keyword_char CHR 0x0A" "\<not> ISOP CHR 0x0A"
  by (simp_all add: isdigit_def ident_char_def keyword_char_def isalpha_def ISOP_def ch_def)

lemma takeWhile_no_newline: "\<not> P CHR 0x0A \<Longrightarrow> CHR 0x0A \<notin> set (takeWhile P w)"
  by (auto dest: set_takeWhileD)

lemma dropWhile_no_newline:
  assumes "CHR 0x0A \<notin> set (dropWhile P w)" and "\<not> P CHR 0x0A"
  shows "CHR 0x0A \<notin> set w"
proof -
  have "set w = set (takeWhile P w) \<union> set (dropWhile P w)"
    by (metis set_append takeWhile_dropWhile_id)
  with assms takeWhile_no_newline [of P w] show ?thesis by simp
qed

lemma in_set_butlast_or_last: "x \<in> set xs \<Longrightarrow> x \<in> set (butlast xs) \<or> x = last xs"
  by (induction xs) (auto split: if_splits)

lemma print_tok_no_newline: "tok_ok t \<Longrightarrow> CHR 0x0A \<notin> set (print_tok t)"
proof (induction t rule: tok_ok.induct)
  case (2 t)
  then have "CHR 0x0A \<notin> set (dropWhile isdigit t)"
    by (cases "dropWhile isdigit t") (auto simp: Let_def newline_facts dest: list_all_no_newline)
  then show ?case using dropWhile_no_newline newline_facts by (auto simp: print_tok_def)
next
  case (3 t)
  have "CHR 0x0A \<notin> set (print_char c)" for c by (simp add: print_char_def)
  then show ?case by (auto simp: print_tok_def print_string_def)
next
  case (5 t)
  then have "CHR 0x0A \<notin> set (butlast t)" "last t \<noteq> CHR 0x0A"
    by (auto simp: word_ok_def newline_facts dest: list_all_no_newline)
  then show ?case by (auto simp: print_tok_def dest: in_set_butlast_or_last)
next
  case (6 t)
  then have "CHR 0x0A \<notin> set (dropWhile ident_char t)"
    by (cases "dropWhile ident_char t") (auto simp: Let_def newline_facts dest: list_all_no_newline)
  then show ?case using dropWhile_no_newline newline_facts by (auto simp: print_tok_def)
qed (auto simp: print_tok_def word_ok_def newline_facts PRIMITIVE_def op_symbol_def single_symbol_def
     dest: list_all_no_newline)

text \<open>Symbols separated by blanks: from the blank before a symbol to the blank before the next.\<close>

lemma skip_one_blank:
  assumes "rem L = CHR '' '' # c # r" and "\<not> isspace c" and "c \<noteq> CHR 0x22"
  shows "skipLoop L = (True, incPtr 1 L)"
proof -
  have "\<not> EOB L" "\<not> EOB (incPtr 1 L)" "BC L = CHR '' ''" "BC (incPtr 1 L) = c" "isspace CHR '' ''"
    using assms by (simp_all add: EOB_rem at_rem isspace_def ch_def)
  then show ?thesis
    using assms by (simp add: skipLoop.simps hasMoreInput_def skipWhiteSpace.simps skipComment_def Let_def)
qed

lemma skip_to_end:
  assumes "rem L = '' ''" and "\<not> good (infile L)"
  shows "skipLoop L = (False, incPtr 1 L)"
proof -
  have L: "\<not> EOB L" "BC L = CHR '' ''" "isspace CHR '' ''" using assms by (simp_all add: EOB_rem at_rem isspace_def ch_def)
  have L1: "EOB (incPtr 1 L)" "fillBuffer (incPtr 1 L) = None" "BC (incPtr 1 L) = CHR 0x00"
    using assms by (simp_all add: EOB_rem fillBuffer_None at_rem)
  have stop: "skipLoop (incPtr 1 L) = (False, incPtr 1 L)"
    by (subst skipLoop.simps) (use L1 in \<open>simp add: hasMoreInput_def fillWhileEOB.simps\<close>)
  have "fillWhileEOB (incPtr 1 L) = (False, incPtr 1 L)" using L1 by (subst fillWhileEOB.simps) simp
  then have "skipWhiteSpace L = incPtr 1 L" using L by (subst skipWhiteSpace.simps) simp
  then have "skipComment (skipWhiteSpace L) = incPtr 1 L" using L1 by (simp add: skipComment_def)
  with L L1 stop show ?thesis by (subst skipLoop.simps) (simp add: hasMoreInput_def Let_def)
qed

lemma tokens_print_toks:
  assumes "list_all tok_ok ts" and "rem L = print_toks ts" and "\<not> good (infile L)" and "\<not> peekDone L"
  shows "tokens nd L = Inr (ts @ [(NONE, [])])"
  using assms
proof (induction ts arbitrary: L)
  case Nil
  then show ?case
    using skip_to_end [of L] by (subst tokens.simps) (simp add: GetSym_def print_toks_def)
next
  case (Cons t ts)
  let ?r = "concat (map (\<lambda>t. print_tok t @ '' '') ts)"
  have L: "rem L = CHR '' '' # print_tok t @ CHR '' '' # ?r" using Cons.prems by (simp add: print_toks_def)
  obtain c w where c: "print_tok t @ '' '' = c # w" by (cases "print_tok t") auto
  have L': "rem L = CHR '' '' # c # w @ ?r" using L arg_cong [OF c, of "\<lambda>x. x @ ?r"] by simp
  have skip: "skipLoop L = (True, incPtr 1 L)"
    using skip_one_blank [OF L'] print_tok_first [OF _ c] Cons.prems(1) by simp
  let ?L = "incPtr 1 L\<lparr>lstate := (lstate (incPtr 1 L))\<lparr>startBufp := bufp (lstate (incPtr 1 L))\<rparr>\<rparr>"
  have "rem ?L = rem (incPtr 1 L)" "infile ?L = infile L" "frame ?L = frame L"
    by (simp_all add: rem_def lexer_defs frame_def)
  moreover have "rem (incPtr 1 L) = print_tok t @ CHR '' '' # ?r" using L by simp
  moreover have "lexes nd t" using lexes_tok_ok Cons.prems(1) by simp
  ultimately obtain L2 where L2: "lexSymbol nd ?L = Inr L2" "lexed ?L (fst t) (snd t) (CHR '' '' # ?r) L2"
    by (auto simp: lexes_def)
  have "frame L2 = frame L" using frame_lexSymbol [OF L2(1)] \<open>frame ?L = frame L\<close> by simp
  then have get: "GetSym nd L = Inr (fst t, L2)" "\<not> peekDone L2"
    using skip L2 Cons.prems(4) by (simp_all add: GetSym_def lexed_def frame_def)
  have "tokens nd L2 = Inr (ts @ [(NONE, [])])"
    using Cons.IH [of L2] Cons.prems L2 get \<open>infile ?L = infile L\<close> by (simp add: lexed_def print_toks_def)
  then show ?case
    using get L2 tok_ok_not_NONE [of t] Cons.prems(1) by (subst tokens.simps) (simp add: lexed_def)
qed

text \<open>Reading the first line.\<close>

lemma tokens_first_line:
  assumes "EOB L" and "fillBuffer L = Some L1" and "\<not> EOB L1" and "\<not> peekDone L"
  shows "tokens nd L = tokens nd L1"
proof -
  have "hasMoreInput L = hasMoreInput L1"
    using assms by (simp add: hasMoreInput_def fillWhileEOB.simps [of L])
  then have "skipLoop L = skipLoop L1" by (simp add: skipLoop.simps [of L] skipLoop.simps [of L1])
  moreover have "\<not> peekDone L1" using assms by (auto simp: fillBuffer_def Let_def split: if_splits prod.splits)
  ultimately have "GetSym nd L = GetSym nd L1" using assms(4) by (simp add: GetSym_def)
  then show ?thesis by (simp add: tokens.simps [of nd L] tokens.simps [of nd L1])
qed

lemma print_toks_no_newline: "list_all tok_ok ts \<Longrightarrow> CHR 0x0A \<notin> set (print_toks ts)"
  by (auto simp: print_toks_def list_all_iff dest: print_tok_no_newline)

subsection \<open>Properties\<close>

text \<open>
  C2. Lexing inverts printing: for every sequence of well-formed symbols (identifiers, keywords,
  keyword sequences, numbers, strings with their escapes, operators, punctuation), the lexer reads
  the text that separates them by blanks back as exactly these symbols with these texts, followed
  by the end of input, whether or not assertions are compiled in.
\<close>

theorem lexer_print_roundtrip:
  assumes "list_all tok_ok ts"
  shows "tokens nd (new_lexer \<lparr>rest = print_toks ts, good = True\<rparr>) = Inr (ts @ [(NONE, [])])"
proof -
  let ?L = "new_lexer \<lparr>rest = print_toks ts, good = True\<rparr>"
  have line: "takeWhile (\<lambda>c. c \<noteq> CHR 0x0A) (print_toks ts) = print_toks ts"
    using print_toks_no_newline [OF assms] by (auto simp: takeWhile_eq_all_conv)
  obtain L1 where L1: "fillBuffer ?L = Some L1" "rem L1 = print_toks ts" "\<not> good (infile L1)" "\<not> peekDone L1"
    by (simp add: fillBuffer_def getline_def new_lexer_def line rem_def)
  have "EOB ?L" "\<not> peekDone ?L" by (simp_all add: EOB_def new_lexer_def init_state_def)
  moreover have "\<not> EOB L1" using L1(2) by (simp add: EOB_rem print_toks_def)
  ultimately have "tokens nd ?L = tokens nd L1" using tokens_first_line L1(1) by blast
  then show ?thesis using tokens_print_toks [OF assms L1(2-4)] by simp
qed

theorem lexer_print_roundtrip_witness:
  "tokens True (new_lexer \<lparr>rest = print_toks
      [(Identifier, ''x''), (Assign, '':=''), (Double, ''1.5''), (Keyword, ''at:''), (STString, [CHR 0x27, CHR 0x0A])],
      good = True\<rparr>) =
   Inr ([(Identifier, ''x''), (Assign, '':=''), (Double, ''1.5''), (Keyword, ''at:''), (STString, [CHR 0x27, CHR 0x0A])]
        @ [(NONE, [])])"
  by (rule lexer_print_roundtrip) (simp, code_simp)

text \<open>
  C11. \<open>Peek\<close> is transparent: it returns the symbol the next \<open>GetSym\<close> will return, leaves the
  current symbol and its text alone, and the symbols that follow are those that would have
  followed without it, even when looking ahead has read another line into the buffer.
\<close>

theorem peek_transparent:
  assumes "Peek nd L = Inr (s, L')"
  shows "tokens nd L' = tokens nd L \<and> lstate L' = lstate L \<and> (\<exists>L1. GetSym nd L = Inr (s, L1)) \<and>
         (\<exists>L2. GetSym nd L' = Inr (s, L2))"
  using tokens_Peek [OF assms] by (auto intro: Peek_GetSym [OF assms])

definition demo_lexer :: Lexer where
  "demo_lexer = new_lexer \<lparr>rest = [CHR 0x0A, CHR ''x''], good = True\<rparr>"

theorem peek_transparent_witness:
  "\<exists>s L'. Peek True demo_lexer = Inr (s, L') \<and> tokens True L' = tokens True demo_lexer"
proof -
  have "\<not> isl (Peek True demo_lexer)" by code_simp
  then obtain s L' where "Peek True demo_lexer = Inr (s, L')" by (cases "Peek True demo_lexer") auto
  then show ?thesis using peek_transparent by blast
qed

text \<open>
  C12. The lexer always makes progress: a call that returns a symbol other than \<open>NONE\<close> uses up
  input, so at most \<open>lex_left\<close> symbols can follow; a call that returns \<open>NONE\<close> (end of input, or a
  character no symbol starts with) is repeated by every later call.
\<close>

theorem GetSym_progress:
  assumes "GetSym nd L = Inr (s, L')" and "\<not> peekDone L"
  shows "if s = NONE then \<exists>L''. GetSym nd L' = Inr (NONE, L'') else lex_left L' < lex_left L"
  using GetSym_left(2) [OF assms] GetSym_NONE_stays [of nd L L'] assms by auto

theorem GetSym_progress_witness:
  "\<exists>L'. GetSym True demo_lexer = Inr (Identifier, L') \<and> lex_left L' < lex_left demo_lexer"
proof -
  have "map_sum id fst (GetSym True demo_lexer) = Inr Identifier" "\<not> peekDone demo_lexer" by code_simp+
  then obtain L' where "GetSym True demo_lexer = Inr (Identifier, L')"
    by (cases "GetSym True demo_lexer") auto
  then show ?thesis using GetSym_progress [of True demo_lexer Identifier L'] \<open>\<not> peekDone demo_lexer\<close> by auto
qed

end
