(* ===== verification/Interner.thy ===== *)
theory Interner
  imports Prelude
begin

section \<open>String interner\<close>

text \<open>
  \<open>src/runtime/string_interner.h\<close>: strings are numbered in the order in which they are first
  seen; \<open>Get\<close> and \<open>GetHash\<close> index the list of seen strings. The hash function
  (\<open>HashString\<close> over the vendored xxHash) is the parameter \<open>HashString\<close> of \<open>InternString\<close>.

  The record \<open>StringInterner\<close> has the two containers of the class. \<open>interner_ok\<close> says that
  they describe the same bijection between strings and ordinals below the length of the list.
  The locale \<open>interning\<close> states what the clients of the interner (parser, compiler, method
  tables, VM) rely on.
\<close>

record StringInterner =
  m_map :: "string \<rightharpoonup> nat"
  m_list :: "(string \<times> u64) list"

definition empty_interner :: StringInterner where
  "empty_interner = \<lparr>m_map = Map.empty, m_list = []\<rparr>"

text \<open>The next ordinal is \<open>m_map.size()\<close> in the source; map and list grow together, so it is the length of the list.\<close>

definition InternString :: "(string \<Rightarrow> u64) \<Rightarrow> string \<Rightarrow> StringInterner \<Rightarrow> nat \<times> StringInterner" where
  "InternString HashString str I =
     (case m_map I str of
        None \<Rightarrow>
          (let count = length (m_list I)
           in (count, \<lparr>m_map = (m_map I)(str \<mapsto> count), m_list = m_list I @ [(str, HashString str)]\<rparr>))
      | Some ord \<Rightarrow> (ord, I))"

text \<open>\<open>Get\<close> and \<open>GetHash\<close> index a vector; outside it the read is out of range (\<open>None\<close>).\<close>

definition Get :: "StringInterner \<Rightarrow> nat \<Rightarrow> string option" where
  "Get I ord = (if ord < length (m_list I) then Some (fst (m_list I ! ord)) else None)"

definition GetHash :: "StringInterner \<Rightarrow> nat \<Rightarrow> u64 option" where
  "GetHash I ord = (if ord < length (m_list I) then Some (snd (m_list I ! ord)) else None)"

text \<open>
  Invariant: the map and the list agree, and the stored hash is the hash of the string.
  (\<open>m_map.size()\<close>, which the code uses as the next ordinal, equals \<open>m_list.size()\<close> under it:
  lemma \<open>interner_ok_card\<close>.)
\<close>

definition interner_ok :: "(string \<Rightarrow> u64) \<Rightarrow> StringInterner \<Rightarrow> bool" where
  "interner_ok HashString I \<longleftrightarrow>
     (\<forall>s i. m_map I s = Some i \<longleftrightarrow> Get I i = Some s) \<and>
     (\<forall>i s. Get I i = Some s \<longrightarrow> GetHash I i = Some (HashString s))"

lemma Get_eq_Some: "Get I i = Some s \<longleftrightarrow> i < length (m_list I) \<and> fst (m_list I ! i) = s"
  by (auto simp: Get_def)

lemma Get_lt: "Get I i = Some s \<Longrightarrow> i < length (m_list I)"
  by (simp add: Get_eq_Some)

lemma interner_ok_empty: "interner_ok HashString empty_interner"
  by (simp add: interner_ok_def empty_interner_def Get_def)

lemma interner_ok_map:
  "interner_ok HashString I \<Longrightarrow> m_map I s = Some i \<longleftrightarrow> Get I i = Some s"
  by (simp add: interner_ok_def)

lemma interner_ok_hash:
  "interner_ok HashString I \<Longrightarrow> Get I i = Some s \<Longrightarrow> GetHash I i = Some (HashString s)"
  by (simp add: interner_ok_def)

lemma interner_ok_card:
  assumes "interner_ok HashString I"
  shows "card (dom (m_map I)) = length (m_list I)"
proof -
  let ?f = "\<lambda>i. fst (m_list I ! i)"
  have inj: "inj_on ?f {..< length (m_list I)}"
  proof (rule inj_onI)
    fix i j assume "i \<in> {..< length (m_list I)}" "j \<in> {..< length (m_list I)}" "?f i = ?f j"
    then have "Get I i = Some (?f i)" "Get I j = Some (?f i)" by (simp_all add: Get_eq_Some)
    then have "m_map I (?f i) = Some i" "m_map I (?f i) = Some j"
      using assms by (simp_all add: interner_ok_map)
    then show "i = j" by simp
  qed
  have "dom (m_map I) = ?f ` {..< length (m_list I)}"
    using assms by (auto simp: interner_ok_map Get_eq_Some dom_def)
  then show ?thesis by (simp add: card_image [OF inj])
qed

text \<open>What one call does: a known string keeps its ordinal and changes nothing; a new one is appended.\<close>

lemma InternString_known:
  "m_map I str = Some ord \<Longrightarrow> InternString HashString str I = (ord, I)"
  by (simp add: InternString_def)

lemma InternString_new:
  "m_map I str = None \<Longrightarrow> InternString HashString str I =
     (length (m_list I), \<lparr>m_map = (m_map I)(str \<mapsto> length (m_list I)),
                          m_list = m_list I @ [(str, HashString str)]\<rparr>)"
  by (simp add: InternString_def Let_def)

lemma InternString_ok:
  assumes ok: "interner_ok HashString I"
  shows "interner_ok HashString (snd (InternString HashString str I))"
proof (cases "m_map I str")
  case None
  then have new: "\<And>i. i < length (m_list I) \<Longrightarrow> fst (m_list I ! i) \<noteq> str"
    using ok by (metis Get_eq_Some interner_ok_map option.distinct(1))
  show ?thesis
    using ok new unfolding InternString_new [OF None] interner_ok_def
    by (auto simp: Get_def GetHash_def nth_append less_Suc_eq split: if_splits)
next
  case (Some ord)
  then show ?thesis using ok by (simp add: InternString_known)
qed

lemma InternString_get:
  assumes ok: "interner_ok HashString I"
  shows "Get (snd (InternString HashString str I)) (fst (InternString HashString str I)) = Some str"
proof (cases "m_map I str")
  case None
  then show ?thesis by (simp add: InternString_new Get_def)
next
  case (Some ord)
  then show ?thesis using ok by (simp add: InternString_known interner_ok_map)
qed

lemma InternString_keeps:
  "Get I i = Some s \<Longrightarrow> Get (snd (InternString HashString str I)) i = Some s"
  by (cases "m_map I str") (auto simp: InternString_known InternString_new Get_def nth_append split: if_splits)

subsection \<open>What clients rely on\<close>

locale interning =
  fixes intern :: "string \<Rightarrow> 'i \<Rightarrow> nat \<times> 'i"
    and get :: "'i \<Rightarrow> nat \<Rightarrow> string option"
    and ok :: "'i \<Rightarrow> bool"
  assumes intern_ok: "ok I \<Longrightarrow> ok (snd (intern s I))"
    and intern_get: "ok I \<Longrightarrow> get (snd (intern s I)) (fst (intern s I)) = Some s"
    and intern_keeps: "get I i = Some t \<Longrightarrow> get (snd (intern s I)) i = Some t"
    and get_inj: "ok I \<Longrightarrow> get I i = Some s \<Longrightarrow> get I j = Some s \<Longrightarrow> i = j"
    and intern_again: "get I i = Some s \<Longrightarrow> ok I \<Longrightarrow> intern s I = (i, I)"
begin

text \<open>Interning a list of strings from left to right.\<close>

primrec intern_all :: "string list \<Rightarrow> 'i \<Rightarrow> nat list \<times> 'i" where
  "intern_all [] I = ([], I)"
| "intern_all (s # ss) I =
     (let (i, I1) = intern s I; (is, I2) = intern_all ss I1 in (i # is, I2))"

lemma intern_all_ok: "ok I \<Longrightarrow> ok (snd (intern_all ss I))"
proof (induction ss arbitrary: I)
  case (Cons s ss)
  from Cons.IH [OF intern_ok [OF Cons.prems, of s]] show ?case
    by (auto simp: Let_def split: prod.splits)
qed simp

lemma intern_all_keeps: "get I i = Some t \<Longrightarrow> get (snd (intern_all ss I)) i = Some t"
proof (induction ss arbitrary: I)
  case (Cons s ss)
  from Cons.IH [OF intern_keeps [OF Cons.prems, of s]] show ?case
    by (auto simp: Let_def split: prod.splits)
qed simp

lemma intern_all_get:
  "ok I \<Longrightarrow> map (get (snd (intern_all ss I))) (fst (intern_all ss I)) = map Some ss"
proof (induction ss arbitrary: I)
  case (Cons s ss)
  obtain i I1 where i: "intern s I = (i, I1)" by fastforce
  obtain ids I2 where ids: "intern_all ss I1 = (ids, I2)" by fastforce
  have "ok I1" "get I1 i = Some s"
    using intern_ok [OF Cons.prems, of s] intern_get [OF Cons.prems, of s] i by simp_all
  with Cons.IH [of I1] intern_all_keeps [of I1 i s ss] ids i show ?case
    by (auto simp: Let_def)
qed simp

text \<open>Two interned strings have the same ordinal exactly when they are equal.\<close>

lemma intern_eq_iff:
  assumes "ok I" and "intern s I = (i, I1)" and "intern t I1 = (j, I2)"
  shows "i = j \<longleftrightarrow> s = t"
proof -
  have 1: "ok I1" "get I1 i = Some s"
    using intern_ok [OF assms(1), of s] intern_get [OF assms(1), of s] assms(2) by simp_all
  then have 2: "ok I2" "get I2 i = Some s" "get I2 j = Some t"
    using intern_ok [of I1 t] intern_get [of I1 t] intern_keeps [of I1 i s t] assms(3) by simp_all
  then show ?thesis using get_inj by auto
qed

end

interpretation si: interning "InternString HashString" Get "interner_ok HashString"
  for HashString
proof unfold_locales
  fix I i j s
  assume "interner_ok HashString I" "Get I i = Some s" "Get I j = Some s"
  then show "i = j" by (metis interner_ok_map option.inject)
qed (auto simp: InternString_ok InternString_get InternString_keeps interner_ok_map InternString_known)

text \<open>C10. Interning keeps the interner consistent, gives the string an ordinal from which \<open>Get\<close> and
  \<open>GetHash\<close> return the string and its hash, leaves the ordinals of all earlier strings as they were,
  and gives two strings the same ordinal exactly when they are equal.\<close>

theorem InternString_bijective:
  assumes "interner_ok H I" and "InternString H s I = (i, I1)" and "InternString H t I1 = (j, I2)"
  shows "interner_ok H I1 \<and> interner_ok H I2 \<and> Get I2 i = Some s \<and> Get I2 j = Some t \<and>
         GetHash I2 i = Some (H s) \<and> GetHash I2 j = Some (H t) \<and> (i = j \<longleftrightarrow> s = t) \<and>
         (\<forall>k u. Get I k = Some u \<longrightarrow> Get I2 k = Some u) \<and>
         card (dom (m_map I2)) = length (m_list I2)"
proof -
  have ok: "interner_ok H I1" "interner_ok H I2"
    using si.intern_ok [of H I s] si.intern_ok [of H I1 t] assms by simp_all
  have get: "Get I1 i = Some s" "Get I2 j = Some t"
    using si.intern_get [of H I s] si.intern_get [of H I1 t] ok assms by simp_all
  have keep: "Get I k = Some u \<Longrightarrow> Get I1 k = Some u" "Get I1 k = Some u \<Longrightarrow> Get I2 k = Some u" for k u
    using si.intern_keeps [of I k u H s] si.intern_keeps [of I1 k u H t] assms by simp_all
  show ?thesis
    using ok get keep interner_ok_hash [OF ok(2)] interner_ok_card [OF ok(2)] si.intern_eq_iff [OF assms]
    by blast
qed

theorem InternString_bijective_witness:
  "Get (snd (InternString (\<lambda>_. 7) ''b'' (snd (InternString (\<lambda>_. 7) ''a'' empty_interner)))) 0 = Some ''a'' \<and>
   fst (InternString (\<lambda>_. 7) ''b'' (snd (InternString (\<lambda>_. 7) ''a'' empty_interner))) = 1"
proof -
  obtain i I1 where a: "InternString (\<lambda>_. 7) ''a'' empty_interner = (i, I1)" by fastforce
  obtain j I2 where b: "InternString (\<lambda>_. 7) ''b'' I1 = (j, I2)" by fastforce
  have "i = 0" "j = 1" using a b by (auto simp: InternString_def empty_interner_def)
  with InternString_bijective [OF interner_ok_empty a b] a b show ?thesis by simp
qed

end
