(* ===== verification/Double.thy ===== *)
theory Double
  imports Prelude
begin

section \<open>IEEE binary64 arithmetic\<close>

text \<open>
  The C++ type \<open>double\<close> as the runtime uses it: 64-bit patterns, with the value of a finite pattern
  an exact dyadic number and every operation the exact result rounded to nearest, ties to even.
  Operations that have no number as result give the quiet NaN the x86-64 hardware generates, and a
  NaN operand is passed on (the first one, made quiet). \<open>round_pos\<close> is the only rounding function:
  it rounds a positive fraction to a pattern without sign; an overflow rounds to infinity by itself
  because the patterns of infinity follow those of the largest numbers.
\<close>

type_synonym dbl = u64

fun nbits :: "int \<Rightarrow> int" where
  "nbits n = (if n \<le> 0 then 0 else 1 + nbits (n div 2))"

declare nbits.simps [simp del]

datatype fval = FNaN | FInf bool | FFin bool int int

definition dbl_sign :: "dbl \<Rightarrow> bool" where
  "dbl_sign d \<longleftrightarrow> 2 ^ 63 \<le> uint d"

definition dbl_exp :: "dbl \<Rightarrow> int" where
  "dbl_exp d = uint d div 2 ^ 52 mod 2048"

definition dbl_frac :: "dbl \<Rightarrow> int" where
  "dbl_frac d = uint d mod 2 ^ 52"

text \<open>\<open>FFin s m e\<close> is the number \<open>(-1)\<^sup>s * m * 2\<^sup>e\<close>.\<close>

definition decode :: "dbl \<Rightarrow> fval" where
  "decode d =
     (if dbl_exp d = 2047 then if dbl_frac d = 0 then FInf (dbl_sign d) else FNaN
      else if dbl_exp d = 0 then FFin (dbl_sign d) (dbl_frac d) (- 1074)
      else FFin (dbl_sign d) (2 ^ 52 + dbl_frac d) (dbl_exp d - 1075))"

definition inf_bits :: int where
  "inf_bits = 2047 * 2 ^ 52"

text \<open>\<open>round_pos n d\<close>: the pattern nearest to \<open>n / d\<close>, for positive \<open>n\<close> and \<open>d\<close>.\<close>

definition floor_log2 :: "int \<Rightarrow> int \<Rightarrow> int" where
  "floor_log2 n d =
     (let e = nbits n - nbits d
      in if (if 0 \<le> e then d * 2 ^ nat e \<le> n else d \<le> n * 2 ^ nat (- e)) then e else e - 1)"

definition round_div :: "int \<Rightarrow> int \<Rightarrow> int" where
  "round_div n d =
     (let q = n div d; r = n mod d in if d < 2 * r \<or> (2 * r = d \<and> odd q) then q + 1 else q)"

definition round_pos :: "int \<Rightarrow> int \<Rightarrow> int" where
  "round_pos n d =
     (let e = max (floor_log2 n d) (- 1022);
          s = 52 - e;
          q = (if 0 \<le> s then round_div (n * 2 ^ nat s) d else round_div n (d * 2 ^ nat (- s)))
      in min inf_bits ((e + 1022) * 2 ^ 52 + q))"

definition with_sign :: "bool \<Rightarrow> int \<Rightarrow> dbl" where
  "with_sign s b = (if s then word_of_int (2 ^ 63 + b) else word_of_int b)"

definition round_frac :: "bool \<Rightarrow> int \<Rightarrow> int \<Rightarrow> dbl" where
  "round_frac s n d = with_sign s (if n = 0 then 0 else round_pos n d)"

definition default_nan :: dbl where
  "default_nan = 0xFFF8000000000000"

definition quiet :: "dbl \<Rightarrow> dbl" where
  "quiet d = set_bit 51 d"

definition is_nan :: "dbl \<Rightarrow> bool" where
  "is_nan d \<longleftrightarrow> decode d = FNaN"

text \<open>A number \<open>m * 2\<^sup>e\<close> with an integer \<open>m\<close>, rounded; the sign of an exact zero is given.\<close>

definition round_dyadic :: "bool \<Rightarrow> int \<Rightarrow> int \<Rightarrow> dbl" where
  "round_dyadic zs m e =
     (if m = 0 then with_sign zs 0
      else if 0 \<le> e then round_frac (m < 0) (\<bar>m\<bar> * 2 ^ nat e) 1
      else round_frac (m < 0) \<bar>m\<bar> (2 ^ nat (- e)))"

definition signed :: "bool \<Rightarrow> int \<Rightarrow> int" where
  "signed s m = (if s then - m else m)"

definition dbl_neg :: "dbl \<Rightarrow> dbl" where
  "dbl_neg d = flip_bit 63 d"

definition dbl_add :: "dbl \<Rightarrow> dbl \<Rightarrow> dbl" where
  "dbl_add a b =
     (case (decode a, decode b) of
        (FNaN, _) \<Rightarrow> quiet a
      | (_, FNaN) \<Rightarrow> quiet b
      | (FInf s, FInf t) \<Rightarrow> if s = t then a else default_nan
      | (FInf s, FFin _ _ _) \<Rightarrow> a
      | (FFin _ _ _, FInf t) \<Rightarrow> b
      | (FFin s m e, FFin t n f) \<Rightarrow>
          let g = min e f
          in round_dyadic (s \<and> t)
               (signed s m * 2 ^ nat (e - g) + signed t n * 2 ^ nat (f - g)) g)"

definition dbl_sub :: "dbl \<Rightarrow> dbl \<Rightarrow> dbl" where
  "dbl_sub a b = (if is_nan a then quiet a else if is_nan b then quiet b else dbl_add a (dbl_neg b))"

definition dbl_mul :: "dbl \<Rightarrow> dbl \<Rightarrow> dbl" where
  "dbl_mul a b =
     (case (decode a, decode b) of
        (FNaN, _) \<Rightarrow> quiet a
      | (_, FNaN) \<Rightarrow> quiet b
      | (FInf s, FInf t) \<Rightarrow> with_sign (s \<noteq> t) inf_bits
      | (FInf s, FFin t n _) \<Rightarrow> if n = 0 then default_nan else with_sign (s \<noteq> t) inf_bits
      | (FFin s m _, FInf t) \<Rightarrow> if m = 0 then default_nan else with_sign (s \<noteq> t) inf_bits
      | (FFin s m e, FFin t n f) \<Rightarrow> round_dyadic (s \<noteq> t) (signed s m * signed t n) (e + f))"

definition dbl_div :: "dbl \<Rightarrow> dbl \<Rightarrow> dbl" where
  "dbl_div a b =
     (case (decode a, decode b) of
        (FNaN, _) \<Rightarrow> quiet a
      | (_, FNaN) \<Rightarrow> quiet b
      | (FInf s, FInf t) \<Rightarrow> default_nan
      | (FInf s, FFin t _ _) \<Rightarrow> with_sign (s \<noteq> t) inf_bits
      | (FFin s _ _, FInf t) \<Rightarrow> with_sign (s \<noteq> t) 0
      | (FFin s m e, FFin t n f) \<Rightarrow>
          if n = 0 then if m = 0 then default_nan else with_sign (s \<noteq> t) inf_bits
          else if f \<le> e then round_frac (s \<noteq> t) (m * 2 ^ nat (e - f)) n
          else round_frac (s \<noteq> t) m (n * 2 ^ nat (f - e)))"

text \<open>Comparison; false when an operand is a NaN. \<open>cmp_fin\<close> compares two finite numbers.\<close>

definition cmp_int :: "fval \<Rightarrow> fval \<Rightarrow> (int \<times> int) option" where
  "cmp_int a b =
     (case (a, b) of
        (FNaN, _) \<Rightarrow> None
      | (_, FNaN) \<Rightarrow> None
      | (FInf s, FInf t) \<Rightarrow> Some (signed s 1, signed t 1)
      | (FInf s, FFin _ _ _) \<Rightarrow> Some (signed s 1, 0)
      | (FFin _ _ _, FInf t) \<Rightarrow> Some (0, signed t 1)
      | (FFin s m e, FFin t n f) \<Rightarrow>
          let g = min e f in Some (signed s m * 2 ^ nat (e - g), signed t n * 2 ^ nat (f - g)))"

definition dbl_cmp :: "(int \<Rightarrow> int \<Rightarrow> bool) \<Rightarrow> dbl \<Rightarrow> dbl \<Rightarrow> bool" where
  "dbl_cmp r a b = (case cmp_int (decode a) (decode b) of None \<Rightarrow> False | Some (x, y) \<Rightarrow> r x y)"

definition dbl_eq :: "dbl \<Rightarrow> dbl \<Rightarrow> bool" where "dbl_eq = dbl_cmp (=)"
definition dbl_lt :: "dbl \<Rightarrow> dbl \<Rightarrow> bool" where "dbl_lt = dbl_cmp (<)"
definition dbl_le :: "dbl \<Rightarrow> dbl \<Rightarrow> bool" where "dbl_le = dbl_cmp (\<le>)"

text \<open>Conversions: from an integer (exact below 2^53), and of a decimal numeral, as \<open>strtod\<close> does.\<close>

definition dbl_of_int :: "int \<Rightarrow> dbl" where
  "dbl_of_int i = round_dyadic False i 0"

definition dbl_of_decimal :: "int \<Rightarrow> nat \<Rightarrow> dbl" where
  "dbl_of_decimal digits scale = round_frac False digits (10 ^ scale)"

end
