(* ===== verification/Ast.thy ===== *)
theory Ast
  imports Prelude
begin

section \<open>Abstract syntax\<close>

text \<open>
  \<open>src/runtime/som_ast.h\<close>. The classes derived from \<open>AstExpr\<close> are the constructors of one datatype;
  strings and symbols are ordinals of the interner, integers are 32-bit words, doubles 64-bit
  patterns. A \<open>VariableInfo\<close> is its name: its other member and the parent pointer of a nested block
  are written by the parser and never read.
\<close>

datatype AstExpr =
    AstArray "AstExpr list"
  | AstString nat
  | AstSymbol nat
  | AstInteger u32
  | AstDouble u64
  | AstVariableUse string
  | AstNestedBlock "string list" "string list" "AstExpr list"
  | AstAssignation "string list" AstExpr
  | AstReturn AstExpr
  | AstUnaryCall nat AstExpr
  | AstBinaryCall nat AstExpr AstExpr
  | AstKeywordCall nat AstExpr "AstExpr list"

datatype AstMethodKind = Unary | Binary | KeywordKind | Unknown

record AstMethod =
  am_params :: "string list"
  am_locals :: "string list"
  am_body :: "AstExpr list"
  am_kind :: AstMethodKind
  am_isPrimitive :: bool
  am_selectorName :: nat

text \<open>A class refers to its superclass by the handle the compiler returned for it (type \<open>'c\<close>).\<close>

record 'c AstClass =
  ac_name :: nat
  ac_superClass :: "'c option"
  ac_instanceFields :: "string list"
  ac_classFields :: "string list"
  ac_instanceMethods :: "AstMethod list"
  ac_classMethods :: "AstMethod list"

definition IsNonArrayLiteral :: "AstExpr \<Rightarrow> bool" where
  "IsNonArrayLiteral e =
     (case e of AstString _ \<Rightarrow> True | AstSymbol _ \<Rightarrow> True | AstInteger _ \<Rightarrow> True | AstDouble _ \<Rightarrow> True | _ \<Rightarrow> False)"

definition IsLiteral :: "AstExpr \<Rightarrow> bool" where
  "IsLiteral e \<longleftrightarrow> (case e of AstArray _ \<Rightarrow> True | _ \<Rightarrow> IsNonArrayLiteral e)"

definition IsCall :: "AstExpr \<Rightarrow> bool" where
  "IsCall e = (case e of AstUnaryCall _ _ \<Rightarrow> True | AstBinaryCall _ _ _ \<Rightarrow> True | AstKeywordCall _ _ _ \<Rightarrow> True | _ \<Rightarrow> False)"

definition IsPrimary :: "AstExpr \<Rightarrow> bool" where
  "IsPrimary e \<longleftrightarrow> IsLiteral e \<or> (case e of AstVariableUse _ \<Rightarrow> True | AstNestedBlock _ _ _ \<Rightarrow> True | _ \<Rightarrow> False)"

end
