(* ===== verification/Parser.thy ===== *)
theory Parser
  imports Lexer Interner Double Ast
begin

section \<open>Parser\<close>

text \<open>
  \<open>src/runtime/som_parser.h\<close>: a recursive-descent parser with one symbol of lookahead that interns
  the strings it meets. \<open>Parser\<close> is the state of \<open>SOMParser\<close>; a parsing function is a \<open>'a parser\<close>,
  from a state to a value and a new state or an abort.

  Functions of the source that call each other, and every loop, take a fuel argument that bounds
  the depth of calls. \<open>parse_fuel\<close> computes it from the text that is left; it is always enough
  (property \<open>ParseClass_enough_fuel\<close>), so the fuel never shows in a result.
\<close>

record Parser =
  m_symbolInterner :: StringInterner
  m_fileName :: string
  m_lexer :: Lexer
  m_curSym :: Symbol
  m_curText :: string
  m_nextSym :: Symbol

type_synonym 'a parser = "Parser \<Rightarrow> ('a \<times> Parser) res"

text \<open>The build (\<open>NDEBUG\<close> for \<open>assert\<close>, \<open>TESTBUILD\<close> for \<open>TestAssert\<close>) and the hash function of the interner.\<close>

record parse_env =
  pe_nd :: bool
  pe_tb :: bool
  pe_hash :: "string \<Rightarrow> u64"

definition bindP :: "'a parser \<Rightarrow> ('a \<Rightarrow> 'b parser) \<Rightarrow> 'b parser" where
  "bindP m f = (\<lambda>P. bindR (m P) (\<lambda>(x, P'). f x P'))"

definition retP :: "'a \<Rightarrow> 'a parser" where
  "retP x = (\<lambda>P. Inr (x, P))"

definition failP :: "vm_error \<Rightarrow> 'a parser" where
  "failP e = (\<lambda>P. Inl e)"

definition condP :: "(Parser \<Rightarrow> bool) \<Rightarrow> 'a parser \<Rightarrow> 'a parser \<Rightarrow> 'a parser" where
  "condP c m1 m2 = (\<lambda>P. if c P then m1 P else m2 P)"

definition curSym :: "Symbol \<Rightarrow> Parser \<Rightarrow> bool" where
  "curSym s P \<longleftrightarrow> m_curSym P = s"

definition curText :: "string parser" where
  "curText = (\<lambda>P. Inr (m_curText P, P))"

subsection \<open>Error messages\<close>

definition symnames :: "string list" where
  "symnames = [''NONE'', ''Integer'', ''Not'', ''And'', ''Or'', ''Star'',
     ''Div'', ''Mod'', ''Plus'', ''Minus'', ''Equal'', ''More'', ''Less'', ''Comma'', ''At'',
     ''Per'', ''NewBlock'', ''EndBlock'', ''Colon'', ''Period'', ''Exit'', ''Assign'',
     ''NewTerm'', ''EndTerm'', ''Pound'', ''Primitive'', ''Separator'', ''STString'',
     ''Identifier'', ''Keyword'', ''KeywordSequence'', ''OperatorSequence'']"

definition all_symbols :: "Symbol list" where
  "all_symbols =
     [NONE, Integer, Double, Not, And, Or, Star, Div, Mod, Plus, Minus, Equal, More, Less, Comma, At, Per,
      NewBlock, EndBlock, Colon, Period, Exit, Assign, NewTerm, EndTerm, Pound, Primitive, Separator,
      STString, Identifier, Keyword, KeywordSequence, OperatorSequence]"

text \<open>The value of an enumerator, and the array access \<open>symnames[sym]\<close>.\<close>

definition symbol_ord :: "Symbol \<Rightarrow> nat" where
  "symbol_ord s = length (takeWhile (\<lambda>x. x \<noteq> s) all_symbols)"

definition symname :: "Symbol \<Rightarrow> string option" where
  "symname s = (if symbol_ord s < length symnames then Some (symnames ! symbol_ord s) else None)"

fun find_pattern :: "string \<Rightarrow> string \<Rightarrow> nat option" where
  "find_pattern pat [] = (if pat = [] then Some 0 else None)"
| "find_pattern pat (c # s) =
     (if take (length pat) (c # s) = pat then Some 0 else map_option Suc (find_pattern pat s))"

definition ReplacePattern :: "string \<Rightarrow> string \<Rightarrow> string \<Rightarrow> string" where
  "ReplacePattern pat replacement str =
     (case find_pattern pat str of
        None \<Rightarrow> str
      | Some pos \<Rightarrow> take pos str @ replacement @ drop (pos + length pat) str)"

fun decimal :: "nat \<Rightarrow> string" where
  "decimal n = (if n < 10 then [char_of (48 + n)] else decimal (n div 10) @ [char_of (48 + n mod 10)])"

declare decimal.simps [simp del]

text \<open>\<open>GetCurrentColumn\<close> is computed in \<open>size_t\<close>.\<close>

definition GetCurrentColumn :: "Lexer \<Rightarrow> u64" where
  "GetCurrentColumn L = of_nat (startBufp (lstate L)) + 1 - of_nat (length (symtext (lstate L)))"

text \<open>\<open>ParseError\<close> prints a message and aborts; \<open>expected\<close> is \<open>None\<close> when the name of the expected
  symbol had to be read outside the array of names.\<close>

definition ParseError :: "string \<Rightarrow> string option \<Rightarrow> 'a parser" where
  "ParseError msg expected = (\<lambda>P.
     case (expected, symname (m_curSym P)) of
       (Some ex, Some name) \<Rightarrow>
         let found = (if m_curSym P = Integer \<or> symbol_ord STString \<le> symbol_ord (m_curSym P)
                      then name @ '' ('' @ m_curText P @ '')'' else name);
             m0 = ''%(file)s:%(line)d:%(column)d: error: '' @ msg;
             m1 = ReplacePattern ''%(file)s'' (m_fileName P) m0;
             m2 = ReplacePattern ''%(line)d'' (decimal (lineNumber (lstate (m_lexer P)))) m1;
             m3 = ReplacePattern ''%(column)d'' (decimal (unat (GetCurrentColumn (m_lexer P)))) m2;
             m4 = ReplacePattern ''%(expected)s'' ex m3
         in Inl (Aborted (ReplacePattern ''%(found)s'' found m4))
     | _ \<Rightarrow> Inl OutOfRange)"

subsection \<open>Symbols\<close>

definition singleOpSyms :: "Symbol list" where
  "singleOpSyms = [Not, And, Or, Star, Div, Mod, Plus, Equal, More, Less, Comma, At, Per, Minus]"

definition binaryOpSyms :: "Symbol list" where
  "binaryOpSyms =
     [Or, Comma, Minus, Equal, Not, And, Or, Star, Div, Mod, Plus, Equal, More, Less, Comma, At, Per]"

definition keywordSelectorSyms :: "Symbol list" where
  "keywordSelectorSyms = [Keyword, KeywordSequence]"

definition identOrPrimitiveSyms :: "Symbol list" where
  "identOrPrimitiveSyms = [Identifier, Primitive]"

definition Eat :: "parse_env \<Rightarrow> unit parser" where
  "Eat E = (\<lambda>P. bindR (GetSym (pe_nd E) (m_lexer P)) (\<lambda>(s, L).
     Inr ((), P\<lparr>m_lexer := L, m_curSym := s, m_curText := symtext (lstate L)\<rparr>)))"

definition PeekP :: "parse_env \<Rightarrow> Symbol parser" where
  "PeekP E = (\<lambda>P.
     if peekDone (m_lexer P) then Inr (m_nextSym P, P)
     else bindR (Peek (pe_nd E) (m_lexer P)) (\<lambda>(s, L). Inr (s, P\<lparr>m_lexer := L, m_nextSym := s\<rparr>)))"

definition Accept :: "parse_env \<Rightarrow> Symbol \<Rightarrow> bool parser" where
  "Accept E s = condP (curSym s) (bindP (Eat E) (\<lambda>_. retP True)) (retP False)"

definition IsOneOf :: "Symbol list \<Rightarrow> Parser \<Rightarrow> bool" where
  "IsOneOf ss P \<longleftrightarrow> m_curSym P \<in> set ss"

definition AcceptOneOf :: "parse_env \<Rightarrow> Symbol list \<Rightarrow> bool parser" where
  "AcceptOneOf E ss = condP (IsOneOf ss) (bindP (Eat E) (\<lambda>_. retP True)) (retP False)"

definition Expect :: "parse_env \<Rightarrow> Symbol \<Rightarrow> unit parser" where
  "Expect E s = bindP (Accept E s) (\<lambda>ok. if ok then retP ()
     else ParseError (''Unexpected symbol. Expected %(expected)s, but found %(found)s'' @ [CHR 0x0A]) (symname s))"

fun expectedStr :: "Symbol list \<Rightarrow> string option" where
  "expectedStr [] = Some []"
| "expectedStr [s] = symname s"
| "expectedStr (s # ss) =
     (case (symname s, expectedStr ss) of (Some a, Some b) \<Rightarrow> Some (a @ '', '' @ b) | _ \<Rightarrow> None)"

definition ExpectOneOf :: "parse_env \<Rightarrow> Symbol list \<Rightarrow> unit parser" where
  "ExpectOneOf E ss = bindP (AcceptOneOf E ss) (\<lambda>ok. if ok then retP ()
     else ParseError (''Unexpected symbol. Expected one of %(expected)s, but found %(found)s'' @ [CHR 0x0A])
            (expectedStr ss))"

definition intern :: "parse_env \<Rightarrow> string \<Rightarrow> nat parser" where
  "intern E s = (\<lambda>P. let (i, I) = InternString (pe_hash E) s (m_symbolInterner P)
                      in Inr (i, P\<lparr>m_symbolInterner := I\<rparr>))"

definition internCur :: "parse_env \<Rightarrow> nat parser" where
  "internCur E = bindP curText (intern E)"

subsection \<open>Literals\<close>

definition digits_value :: "string \<Rightarrow> int" where
  "digits_value s = fold (\<lambda>c n. n * 10 + (int (ch c) - 48)) s 0"

text \<open>
  \<open>strtoll\<close> with base 10 on the text of an \<open>Integer\<close> symbol, which is a sequence of digits; a value
  outside \<open>int64_t\<close> sets \<open>errno\<close>, and the parser then takes 0.
\<close>

definition ParseIntegerText :: "string \<Rightarrow> bool \<Rightarrow> u32 res" where
  "ParseIntegerText str shouldNegate =
     (if str = [] \<or> \<not> list_all isdigit str then Inl ReleaseAssertFailed
      else let v = digits_value str;
               i = (if v \<le> 2 ^ 63 - 1 then v else 0);
               j = (if shouldNegate then - i else i)
           in Inr (word_of_int j))"

definition ParseInteger :: "parse_env \<Rightarrow> bool \<Rightarrow> AstExpr parser" where
  "ParseInteger E shouldNegate =
     bindP curText (\<lambda>t.
     bindP (\<lambda>P. bindR (ParseIntegerText t shouldNegate) (\<lambda>w. Inr (w, P))) (\<lambda>w.
     bindP (Expect E Integer) (\<lambda>_. retP (AstInteger w))))"

text \<open>
  \<open>strtod\<close> on the whole text: the texts of \<open>Double\<close> symbols and plain digits. Other texts that the C
  function accepts (\<open>inf\<close>, hexadecimal numbers) are never the text of a \<open>Double\<close> symbol, so
  \<open>Expect(Double)\<close> aborts right after; here the assertion does.
\<close>

definition strtod :: "string \<Rightarrow> dbl option" where
  "strtod s =
     (let a = takeWhile isdigit s; r = dropWhile isdigit s
      in if s = [] then Some 0
         else if a = [] then None
         else if r = [] then Some (dbl_of_decimal (digits_value a) 0)
         else if hd r = CHR ''.'' \<and> list_all isdigit (tl r)
         then Some (dbl_of_decimal (digits_value (a @ tl r)) (length (tl r)))
         else None)"

definition ParseDouble :: "parse_env \<Rightarrow> bool \<Rightarrow> AstExpr parser" where
  "ParseDouble E shouldNegate =
     bindP curText (\<lambda>t.
     case strtod t of
       None \<Rightarrow> failP ReleaseAssertFailed
     | Some d \<Rightarrow>
         bindP (Expect E Double) (\<lambda>_. retP (AstDouble (if shouldNegate then dbl_sub 0 d else d))))"

definition ParseNumberSigned :: "parse_env \<Rightarrow> bool \<Rightarrow> AstExpr parser" where
  "ParseNumberSigned E shouldNegate = condP (curSym Integer) (ParseInteger E shouldNegate) (ParseDouble E shouldNegate)"

definition ParseNumber :: "parse_env \<Rightarrow> AstExpr parser" where
  "ParseNumber E =
     condP (curSym Minus) (bindP (Eat E) (\<lambda>_. ParseNumberSigned E True)) (ParseNumberSigned E False)"

definition ParseString :: "parse_env \<Rightarrow> AstExpr parser" where
  "ParseString E = bindP (internCur E) (\<lambda>i. bindP (Expect E STString) (\<lambda>_. retP (AstString i)))"

definition ParseUnarySelector :: "parse_env \<Rightarrow> nat parser" where
  "ParseUnarySelector E = bindP (internCur E) (\<lambda>i. bindP (ExpectOneOf E identOrPrimitiveSyms) (\<lambda>_. retP i))"

definition ParseBinarySelector :: "parse_env \<Rightarrow> nat parser" where
  "ParseBinarySelector E =
     bindP (internCur E) (\<lambda>i.
     bindP (AcceptOneOf E singleOpSyms) (\<lambda>a.
     bindP (if a then retP True else Accept E OperatorSequence) (\<lambda>b.
     bindP (if b then retP () else Expect E NONE) (\<lambda>_. retP i))))"

definition ParseKeywordSelector :: "parse_env \<Rightarrow> nat parser" where
  "ParseKeywordSelector E = bindP (internCur E) (\<lambda>i. bindP (ExpectOneOf E keywordSelectorSyms) (\<lambda>_. retP i))"

definition ParseSelector :: "parse_env \<Rightarrow> nat parser" where
  "ParseSelector E =
     condP (\<lambda>P. m_curSym P = OperatorSequence \<or> IsOneOf singleOpSyms P) (ParseBinarySelector E)
       (condP (IsOneOf keywordSelectorSyms) (ParseKeywordSelector E) (ParseUnarySelector E))"

definition ParseSymbol :: "parse_env \<Rightarrow> AstExpr parser" where
  "ParseSymbol E =
     bindP (Expect E Pound) (\<lambda>_.
     condP (curSym STString)
       (bindP (internCur E) (\<lambda>i. bindP (Expect E STString) (\<lambda>_. retP (AstSymbol i))))
       (bindP (ParseSelector E) (\<lambda>i. retP (AstSymbol i))))"

fun ParseArray :: "parse_env \<Rightarrow> nat \<Rightarrow> AstExpr parser"
and ParseArrayLoop :: "parse_env \<Rightarrow> nat \<Rightarrow> AstExpr list \<Rightarrow> AstExpr list parser"
and ParseLiteral :: "parse_env \<Rightarrow> nat \<Rightarrow> AstExpr parser"
where
  "ParseArray E 0 = failP OutOfFuel"
| "ParseArray E (Suc n) =
     bindP (Expect E Pound) (\<lambda>_.
     bindP (Expect E NewTerm) (\<lambda>_.
     bindP (ParseArrayLoop E n []) (\<lambda>es.
     bindP (Expect E EndTerm) (\<lambda>_. retP (AstArray es)))))"
| "ParseArrayLoop E 0 es = failP OutOfFuel"
| "ParseArrayLoop E (Suc n) es =
     condP (\<lambda>P. m_curSym P \<noteq> EndTerm)
       (bindP (ParseLiteral E n) (\<lambda>e. ParseArrayLoop E n (es @ [e]))) (retP es)"
| "ParseLiteral E 0 = failP OutOfFuel"
| "ParseLiteral E (Suc n) =
     condP (curSym Pound)
       (bindP (PeekP E) (\<lambda>s. if s = NewTerm then ParseArray E n else ParseSymbol E))
       (condP (curSym STString) (ParseString E) (ParseNumber E))"

subsection \<open>Expressions\<close>

definition ParseVariable :: "parse_env \<Rightarrow> string parser" where
  "ParseVariable E = bindP curText (\<lambda>t. bindP (ExpectOneOf E identOrPrimitiveSyms) (\<lambda>_. retP t))"

fun ParseParametersLoop :: "parse_env \<Rightarrow> nat \<Rightarrow> string list \<Rightarrow> string list parser" where
  "ParseParametersLoop E 0 res = failP OutOfFuel"
| "ParseParametersLoop E (Suc n) res =
     bindP (Expect E Colon) (\<lambda>_.
     bindP (ParseVariable E) (\<lambda>argName.
     if argName \<in> set res then ParseError ''Duplicate arguments!'' (Some [])
     else condP (curSym Colon) (ParseParametersLoop E n (res @ [argName])) (retP (res @ [argName]))))"

fun ParseLocalsLoop :: "parse_env \<Rightarrow> nat \<Rightarrow> string list \<Rightarrow> string list parser" where
  "ParseLocalsLoop E 0 res = failP OutOfFuel"
| "ParseLocalsLoop E (Suc n) res =
     condP (IsOneOf identOrPrimitiveSyms)
       (bindP (ParseVariable E) (\<lambda>argName.
        if argName \<in> set res then ParseError ''Duplicate locals!'' (Some [])
        else ParseLocalsLoop E n (res @ [argName])))
       (retP res)"

definition ParseLocals :: "parse_env \<Rightarrow> nat \<Rightarrow> string list parser" where
  "ParseLocals E n =
     bindP (Accept E Or) (\<lambda>ok.
     if ok then bindP (ParseLocalsLoop E n []) (\<lambda>res. bindP (Expect E Or) (\<lambda>_. retP res)) else retP [])"

definition ParseOneAssignment :: "parse_env \<Rightarrow> string parser" where
  "ParseOneAssignment E = bindP (ParseVariable E) (\<lambda>v. bindP (Expect E Assign) (\<lambda>_. retP v))"

fun ParseAssignments :: "parse_env \<Rightarrow> nat \<Rightarrow> string list \<Rightarrow> string list parser" where
  "ParseAssignments E 0 l = failP OutOfFuel"
| "ParseAssignments E (Suc n) l =
     condP (IsOneOf identOrPrimitiveSyms)
       (bindP (ParseOneAssignment E) (\<lambda>v.
        bindP (PeekP E) (\<lambda>s. if s = Assign then ParseAssignments E n (l @ [v]) else retP (l @ [v]))))
       (retP l)"

definition ParseUnaryMessage :: "parse_env \<Rightarrow> AstExpr \<Rightarrow> AstExpr parser" where
  "ParseUnaryMessage E primary = bindP (ParseUnarySelector E) (\<lambda>m. retP (AstUnaryCall m primary))"

text \<open>\<open>while (IsOneOf(identOrPrimitiveSyms)) { op = ParseUnaryMessage(op); }\<close>\<close>

fun UnaryMessages :: "parse_env \<Rightarrow> nat \<Rightarrow> AstExpr \<Rightarrow> AstExpr parser" where
  "UnaryMessages E 0 op = failP OutOfFuel"
| "UnaryMessages E (Suc n) op =
     condP (IsOneOf identOrPrimitiveSyms) (bindP (ParseUnaryMessage E op) (UnaryMessages E n)) (retP op)"

definition ParseKeyword :: "parse_env \<Rightarrow> string parser" where
  "ParseKeyword E = bindP curText (\<lambda>s. bindP (Expect E Keyword) (\<lambda>_. retP s))"

definition atBinaryOp :: "Parser \<Rightarrow> bool" where
  "atBinaryOp P \<longleftrightarrow> m_curSym P = OperatorSequence \<or> IsOneOf binaryOpSyms P"

text \<open>
  The functions between an expression and the expressions nested in it. Parentheses and blocks are
  the only places where an expression occurs inside another one, and both call \<open>ParseExpr\<close>, which
  is passed as the argument \<open>pe\<close>.
\<close>

definition ParseNestedTerm :: "parse_env \<Rightarrow> AstExpr parser \<Rightarrow> AstExpr parser" where
  "ParseNestedTerm E pe =
     bindP (Expect E NewTerm) (\<lambda>_.
     bindP pe (\<lambda>res.
     bindP (Expect E EndTerm) (\<lambda>_. retP res)))"

fun ParseBlockExprs :: "parse_env \<Rightarrow> AstExpr parser \<Rightarrow> nat \<Rightarrow> AstExpr list \<Rightarrow> AstExpr list parser" where
  "ParseBlockExprs E pe 0 res = failP OutOfFuel"
| "ParseBlockExprs E pe (Suc n) res =
     condP (\<lambda>P. m_curSym P = EndTerm \<or> m_curSym P = EndBlock) (retP res)
       (bindP (Accept E Exit) (\<lambda>ex.
        if ex then bindP pe (\<lambda>retVal.
                   bindP (Accept E Period) (\<lambda>_. retP (res @ [AstReturn retVal])))
        else bindP pe (\<lambda>e.
             bindP (Accept E Period) (\<lambda>p.
             if p then ParseBlockExprs E pe n (res @ [e]) else retP (res @ [e])))))"

definition ParseParameters :: "parse_env \<Rightarrow> nat \<Rightarrow> string list parser" where
  "ParseParameters E n = ParseParametersLoop E n []"

definition ParseNestedBlock :: "parse_env \<Rightarrow> AstExpr parser \<Rightarrow> nat \<Rightarrow> AstExpr parser" where
  "ParseNestedBlock E pe n =
     bindP (Expect E NewBlock) (\<lambda>_.
     bindP (condP (curSym Colon)
              (bindP (ParseParameters E n) (\<lambda>ps. bindP (Expect E Or) (\<lambda>_. retP ps))) (retP [])) (\<lambda>params.
     bindP (ParseLocals E n) (\<lambda>locals.
     bindP (ParseBlockExprs E pe n []) (\<lambda>body.
     bindP (Expect E EndBlock) (\<lambda>_. retP (AstNestedBlock params locals body))))))"

definition ParsePrimary :: "parse_env \<Rightarrow> AstExpr parser \<Rightarrow> nat \<Rightarrow> AstExpr parser" where
  "ParsePrimary E pe n =
     condP (IsOneOf identOrPrimitiveSyms) (bindP (ParseVariable E) (\<lambda>v. retP (AstVariableUse v)))
       (condP (curSym NewTerm) (ParseNestedTerm E pe)
          (condP (curSym NewBlock) (ParseNestedBlock E pe n) (ParseLiteral E n)))"

definition ParseBinaryOperand :: "parse_env \<Rightarrow> AstExpr parser \<Rightarrow> nat \<Rightarrow> AstExpr parser" where
  "ParseBinaryOperand E pe n = bindP (ParsePrimary E pe n) (UnaryMessages E n)"

definition ParseBinaryMessage :: "parse_env \<Rightarrow> AstExpr parser \<Rightarrow> nat \<Rightarrow> AstExpr \<Rightarrow> AstExpr parser" where
  "ParseBinaryMessage E pe n primary =
     bindP (ParseBinarySelector E) (\<lambda>m.
     bindP (ParseBinaryOperand E pe n) (\<lambda>op. retP (AstBinaryCall m primary op)))"

text \<open>\<open>while (m_curSym == OperatorSequence || IsOneOf(binaryOpSyms)) { op = ParseBinaryMessage(op); }\<close>\<close>

fun BinaryMessages :: "parse_env \<Rightarrow> AstExpr parser \<Rightarrow> nat \<Rightarrow> nat \<Rightarrow> AstExpr \<Rightarrow> AstExpr parser" where
  "BinaryMessages E pe k 0 op = failP OutOfFuel"
| "BinaryMessages E pe k (Suc n) op =
     condP atBinaryOp (bindP (ParseBinaryMessage E pe k op) (BinaryMessages E pe k n)) (retP op)"

definition ParseKeywordMessageOperand :: "parse_env \<Rightarrow> AstExpr parser \<Rightarrow> nat \<Rightarrow> AstExpr parser" where
  "ParseKeywordMessageOperand E pe n = bindP (ParseBinaryOperand E pe n) (BinaryMessages E pe n n)"

text \<open>The keyword and argument pairs of \<open>ParseKeywordMessage\<close>, the first one included.\<close>

fun KeywordParts ::
  "parse_env \<Rightarrow> AstExpr parser \<Rightarrow> nat \<Rightarrow> nat \<Rightarrow> string \<Rightarrow> AstExpr list \<Rightarrow> (string \<times> AstExpr list) parser"
where
  "KeywordParts E pe k 0 kw args = failP OutOfFuel"
| "KeywordParts E pe k (Suc n) kw args =
     bindP (ParseKeyword E) (\<lambda>s.
     bindP (ParseKeywordMessageOperand E pe k) (\<lambda>a.
     condP (curSym Keyword) (KeywordParts E pe k n (kw @ s) (args @ [a])) (retP (kw @ s, args @ [a]))))"

definition ParseKeywordMessage :: "parse_env \<Rightarrow> AstExpr parser \<Rightarrow> nat \<Rightarrow> AstExpr \<Rightarrow> AstExpr parser" where
  "ParseKeywordMessage E pe n primary =
     bindP (KeywordParts E pe n n [] []) (\<lambda>(kw, args).
     bindP (intern E kw) (\<lambda>i. retP (AstKeywordCall i primary args)))"

definition ParseEvaluation :: "parse_env \<Rightarrow> AstExpr parser \<Rightarrow> nat \<Rightarrow> AstExpr parser" where
  "ParseEvaluation E pe n =
     bindP (ParsePrimary E pe n) (\<lambda>primary.
     bindP (UnaryMessages E n primary) (\<lambda>primary1.
     bindP (BinaryMessages E pe n n primary1) (\<lambda>primary2.
     condP (curSym Keyword) (ParseKeywordMessage E pe n primary2) (retP primary2))))"

definition ParseAssignation :: "parse_env \<Rightarrow> AstExpr parser \<Rightarrow> nat \<Rightarrow> AstExpr parser" where
  "ParseAssignation E pe n =
     bindP (ParseAssignments E n []) (\<lambda>lhs.
     bindP (ParseEvaluation E pe n) (\<lambda>rhs. retP (AstAssignation lhs rhs)))"

fun ParseExpr :: "parse_env \<Rightarrow> nat \<Rightarrow> AstExpr parser" where
  "ParseExpr E 0 = failP OutOfFuel"
| "ParseExpr E (Suc n) =
     bindP (PeekP E) (\<lambda>s.
     if s = Assign then ParseAssignation E (ParseExpr E n) n else ParseEvaluation E (ParseExpr E n) n)"

subsection \<open>Methods and classes\<close>

definition ParseUnaryMethodPattern :: "parse_env \<Rightarrow> (AstMethodKind \<times> nat \<times> string list) parser" where
  "ParseUnaryMethodPattern E = bindP (ParseUnarySelector E) (\<lambda>i. retP (Unary, i, []))"

definition ParseBinaryMethodPattern :: "parse_env \<Rightarrow> (AstMethodKind \<times> nat \<times> string list) parser" where
  "ParseBinaryMethodPattern E =
     bindP (ParseBinarySelector E) (\<lambda>i. bindP (ParseVariable E) (\<lambda>v. retP (Binary, i, [v])))"

fun KeywordPatternParts :: "parse_env \<Rightarrow> nat \<Rightarrow> string \<Rightarrow> string list \<Rightarrow> (string \<times> string list) parser" where
  "KeywordPatternParts E 0 kw ps = failP OutOfFuel"
| "KeywordPatternParts E (Suc n) kw ps =
     bindP (ParseKeyword E) (\<lambda>s.
     bindP (ParseVariable E) (\<lambda>v.
     condP (curSym Keyword) (KeywordPatternParts E n (kw @ s) (ps @ [v])) (retP (kw @ s, ps @ [v]))))"

definition ParseKeywordMethodPattern :: "parse_env \<Rightarrow> nat \<Rightarrow> (AstMethodKind \<times> nat \<times> string list) parser" where
  "ParseKeywordMethodPattern E n =
     bindP (KeywordPatternParts E n [] []) (\<lambda>(kw, ps). bindP (intern E kw) (\<lambda>i. retP (KeywordKind, i, ps)))"

definition ParseMethodPattern :: "parse_env \<Rightarrow> nat \<Rightarrow> (AstMethodKind \<times> nat \<times> string list) parser" where
  "ParseMethodPattern E n =
     condP (IsOneOf identOrPrimitiveSyms) (ParseUnaryMethodPattern E)
       (condP (curSym Keyword) (ParseKeywordMethodPattern E n) (ParseBinaryMethodPattern E))"

definition ParseMethod :: "parse_env \<Rightarrow> nat \<Rightarrow> AstMethod parser" where
  "ParseMethod E n =
     bindP (ParseMethodPattern E n) (\<lambda>(kind, i, params).
     bindP (Expect E Equal) (\<lambda>_.
     bindP (Accept E Primitive) (\<lambda>prim.
     if prim
     then retP \<lparr>am_params = params, am_locals = [], am_body = [], am_kind = kind, am_isPrimitive = True,
                am_selectorName = i\<rparr>
     else bindP (Expect E NewTerm) (\<lambda>_.
          bindP (ParseLocals E n) (\<lambda>locals.
          bindP (ParseBlockExprs E (ParseExpr E n) n []) (\<lambda>body.
          bindP (Expect E EndTerm) (\<lambda>_.
          retP \<lparr>am_params = params, am_locals = locals, am_body = body, am_kind = kind,
                am_isPrimitive = False, am_selectorName = i\<rparr>)))))))"

definition atMethod :: "Parser \<Rightarrow> bool" where
  "atMethod P \<longleftrightarrow> IsOneOf identOrPrimitiveSyms P \<or> m_curSym P = Keyword \<or> m_curSym P = OperatorSequence \<or>
     IsOneOf binaryOpSyms P"

fun ParseMethods :: "parse_env \<Rightarrow> nat \<Rightarrow> nat \<Rightarrow> AstMethod list \<Rightarrow> AstMethod list parser" where
  "ParseMethods E k 0 res = failP OutOfFuel"
| "ParseMethods E k (Suc n) res =
     condP atMethod (bindP (ParseMethod E k) (\<lambda>m. ParseMethods E k n (res @ [m]))) (retP res)"

text \<open>
  \<open>ParseClass\<close>. Parsing the header compiles the superclass: \<open>compile\<close> stands for \<open>SOMCompileFile\<close>,
  which is given the interner and returns the class and the interner after it. \<open>n\<close> is the fuel.
\<close>

definition callCompile ::
  "(string \<Rightarrow> StringInterner \<Rightarrow> ('c \<times> StringInterner) res) \<Rightarrow> string \<Rightarrow> 'c parser" where
  "callCompile compile name =
     (\<lambda>P. bindR (compile name (m_symbolInterner P)) (\<lambda>(c, I). Inr (c, P\<lparr>m_symbolInterner := I\<rparr>)))"

definition ParseSuperClass ::
  "parse_env \<Rightarrow> (string \<Rightarrow> StringInterner \<Rightarrow> ('c \<times> StringInterner) res) \<Rightarrow> nat \<Rightarrow> 'c option parser" where
  "ParseSuperClass E compile name =
     condP (curSym Identifier)
       (bindP curText (\<lambda>t.
        bindP (if t \<noteq> ''nil'' then bindP (callCompile compile t) (\<lambda>c. retP (Some c))
               else bindP (\<lambda>P. bindR (TestAssert (pe_tb E) (Get (m_symbolInterner P) name = Some ''Object''))
                            (\<lambda>u. Inr (u, P))) (\<lambda>_. retP None)) (\<lambda>sc.
        bindP (Expect E Identifier) (\<lambda>_. retP sc))))
       (bindP (callCompile compile ''Object'') (\<lambda>c. retP (Some c)))"

definition ParseClassFuel ::
  "parse_env \<Rightarrow> (string \<Rightarrow> StringInterner \<Rightarrow> ('c \<times> StringInterner) res) \<Rightarrow> nat \<Rightarrow> 'c AstClass parser" where
  "ParseClassFuel E compile n =
     bindP (internCur E) (\<lambda>name.
     bindP (Expect E Identifier) (\<lambda>_.
     bindP (Expect E Equal) (\<lambda>_.
     bindP (ParseSuperClass E compile name) (\<lambda>sc.
     bindP (Expect E NewTerm) (\<lambda>_.
     bindP (ParseLocals E n) (\<lambda>ifields.
     bindP (ParseMethods E n n []) (\<lambda>imeths.
     bindP (Accept E Separator) (\<lambda>sep.
     bindP (if sep then ParseLocals E n else retP []) (\<lambda>cfields.
     bindP (if sep then ParseMethods E n n [] else retP []) (\<lambda>cmeths.
     bindP (Expect E EndTerm) (\<lambda>_.
     retP \<lparr>ac_name = name, ac_superClass = sc, ac_instanceFields = ifields, ac_classFields = cfields,
           ac_instanceMethods = imeths, ac_classMethods = cmeths\<rparr>)))))))))))"

text \<open>The symbols a parser state can still see: enough fuel for every call.\<close>

definition pleft :: "Parser \<Rightarrow> nat" where
  "pleft P = tok_left (m_lexer P) + of_bool (m_curSym P \<noteq> NONE)"

definition parse_fuel :: "Parser \<Rightarrow> nat" where
  "parse_fuel P = 2 * pleft P + 2"

definition ParseClass ::
  "parse_env \<Rightarrow> (string \<Rightarrow> StringInterner \<Rightarrow> ('c \<times> StringInterner) res) \<Rightarrow> 'c AstClass parser" where
  "ParseClass E compile = (\<lambda>P. ParseClassFuel E compile (parse_fuel P) P)"

text \<open>The constructor \<open>SOMParser\<close>.\<close>

definition new_parser :: "parse_env \<Rightarrow> StringInterner \<Rightarrow> string \<Rightarrow> istream \<Rightarrow> Parser res" where
  "new_parser E I fileName fileStream =
     map_sum id snd (Eat E \<lparr>m_symbolInterner = I, m_fileName = fileName, m_lexer = new_lexer fileStream,
       m_curSym = NONE, m_curText = [], m_nextSym = NONE\<rparr>)"

end
