(* ===== verification/ParserFuel.thy ===== *)
theory ParserFuel
  imports Parser
begin

section \<open>Termination of the parser\<close>

text \<open>
  The fuel of \<open>Parser\<close> is enough. \<open>uses k m\<close>: when \<open>m\<close> succeeds it has consumed at least \<open>k\<close>
  symbols. \<open>fueled N m\<close>: with at most \<open>N\<close> symbols left, \<open>m\<close> does not run out of fuel. Both are
  closed under the combinators of the parser, so each parsing function needs one line.
\<close>

named_theorems uses_intros \<open>how much input a parsing function consumes\<close>
named_theorems fueled_intros \<open>when a parsing function has enough fuel\<close>

definition uses :: "nat \<Rightarrow> 'a parser \<Rightarrow> bool" where
  "uses k m \<longleftrightarrow> (\<forall>P x P'. m P = Inr (x, P') \<longrightarrow> pleft P' + k \<le> pleft P)"

definition fueled :: "nat \<Rightarrow> 'a parser \<Rightarrow> bool" where
  "fueled N m \<longleftrightarrow> (\<forall>P. pleft P \<le> N \<longrightarrow> m P \<noteq> Inl OutOfFuel)"

lemma usesD: "uses k m \<Longrightarrow> m P = Inr (x, P') \<Longrightarrow> pleft P' + k \<le> pleft P"
  by (auto simp: uses_def)

lemma fueledD: "fueled N m \<Longrightarrow> pleft P \<le> N \<Longrightarrow> m P \<noteq> Inl OutOfFuel"
  by (simp add: fueled_def)

lemma uses_mono: "uses k m \<Longrightarrow> l \<le> k \<Longrightarrow> uses l m"
  by (fastforce simp: uses_def)

lemma fueled_mono: "fueled N m \<Longrightarrow> M \<le> N \<Longrightarrow> fueled M m"
  by (auto simp: fueled_def)

lemma uses_bind:
  assumes "uses k m" and "\<And>x. uses l (f x)"
  shows "uses (k + l) (bindP m f)"
  unfolding uses_def
proof (intro allI impI)
  fix P y P'
  assume "bindP m f P = Inr (y, P')"
  then obtain x P1 where "m P = Inr (x, P1)" "f x P1 = Inr (y, P')"
    by (auto simp: bindP_def elim!: bindR_InrE)
  with assms show "pleft P' + (k + l) \<le> pleft P" by (fastforce dest!: usesD)
qed

lemma uses_bind_first: "uses k m \<Longrightarrow> (\<And>x. uses 0 (f x)) \<Longrightarrow> uses k (bindP m f)"
  using uses_bind [of k m 0 f] by simp

lemma uses_bind_second: "uses 0 m \<Longrightarrow> (\<And>x. uses k (f x)) \<Longrightarrow> uses k (bindP m f)"
  using uses_bind [of 0 m k f] by simp

lemma uses_cond: "uses k m1 \<Longrightarrow> uses k m2 \<Longrightarrow> uses k (condP c m1 m2)"
  by (simp add: uses_def condP_def)

lemma uses_ret: "uses 0 (retP x)"
  by (simp add: uses_def retP_def)

lemma uses_fail: "uses k (failP e)"
  by (simp add: uses_def failP_def)

lemma uses_if: "(b \<Longrightarrow> uses k m1) \<Longrightarrow> (\<not> b \<Longrightarrow> uses k m2) \<Longrightarrow> uses k (if b then m1 else m2)"
  by simp

lemma ParseError_no_result: "ParseError msg ex P \<noteq> Inr r"
  by (auto simp: ParseError_def Let_def split: option.splits)

lemma ParseError_not_fuel: "ParseError msg ex P \<noteq> Inl OutOfFuel"
  by (auto simp: ParseError_def Let_def split: option.splits)

lemma uses_ParseError: "uses k (ParseError msg ex)"
  by (simp add: uses_def ParseError_no_result)

lemma fueled_bind:
  assumes "uses k m" and "fueled N m" and "k \<le> N \<Longrightarrow> (\<And>x. fueled (N - k) (f x))"
  shows "fueled N (bindP m f)"
  unfolding fueled_def
proof (intro allI impI)
  fix P
  assume P: "pleft P \<le> N"
  show "bindP m f P \<noteq> Inl OutOfFuel"
  proof (cases "m P")
    case (Inl e)
    then show ?thesis using fueledD [OF assms(2) P] by (simp add: bindP_def)
  next
    case (Inr r)
    obtain x P1 where r: "r = (x, P1)" by fastforce
    have "pleft P1 + k \<le> pleft P" using usesD [OF assms(1)] Inr r by blast
    then have "f x P1 \<noteq> Inl OutOfFuel" using fueledD [OF assms(3)] P by simp
    then show ?thesis using Inr r by (simp add: bindP_def)
  qed
qed

lemma fueled_cond: "fueled N m1 \<Longrightarrow> fueled N m2 \<Longrightarrow> fueled N (condP c m1 m2)"
  by (simp add: fueled_def condP_def)

lemma fueled_ret: "fueled N (retP x)"
  by (simp add: fueled_def retP_def)

lemma fueled_if: "(b \<Longrightarrow> fueled N m1) \<Longrightarrow> (\<not> b \<Longrightarrow> fueled N m2) \<Longrightarrow> fueled N (if b then m1 else m2)"
  by simp

lemma fueled_ParseError: "fueled N (ParseError msg ex)"
  by (simp add: fueled_def ParseError_not_fuel)

lemma fueled_fail: "e \<noteq> OutOfFuel \<Longrightarrow> fueled N (failP e)"
  by (simp add: fueled_def failP_def)

subsection \<open>The lexer interface\<close>

lemma string_loop_not_fuel: "string_loop nd L \<noteq> Inl OutOfFuel"
proof (induction nd L rule: string_loop.induct)
  case (1 nd L)
  obtain b L1 where f: "fillString L = (b, L1)" by fastforce
  have "lexStringChar nd L1 \<noteq> Inl OutOfFuel"
    by (auto simp: lexStringChar_def lexEscapeChar_def split: option.splits)
  with "1.IH" [OF _ f [symmetric]] show ?case
    by (subst string_loop.simps) (cases b; cases "lexStringChar nd L1"; auto simp: f)
qed

lemma GetSym_not_fuel: "GetSym nd L \<noteq> Inl OutOfFuel"
proof -
  have "lexSymbol nd L' \<noteq> Inl OutOfFuel" for L'
    by (auto simp: lexSymbol_def lexString_def string_loop_not_fuel split: option.splits)
  then show ?thesis
    by (auto simp: GetSym_def bindR_def split: prod.splits bool.splits sum.splits)
qed

lemma fueled_Eat: "fueled N (Eat E)"
  using GetSym_not_fuel by (auto simp: fueled_def Eat_def bindR_def split: sum.splits prod.splits)

lemma fueled_PeekP: "fueled N (PeekP E)"
  using GetSym_not_fuel
  by (auto simp: fueled_def PeekP_def Peek_def bindR_def ReleaseAssert_def split: sum.splits prod.splits if_splits)

lemma Eat_pleft:
  assumes "Eat E P = Inr (u, P')"
  shows "pleft P' + of_bool (m_curSym P \<noteq> NONE) \<le> pleft P"
  using assms by (auto simp: Eat_def pleft_def elim!: bindR_InrE dest!: GetSym_tok_left)

lemma uses_Eat: "uses 0 (Eat E)"
  by (auto simp: uses_def dest: Eat_pleft)

lemma uses_PeekP: "uses 0 (PeekP E)"
  by (auto simp: uses_def PeekP_def pleft_def elim!: bindR_InrE dest: Peek_tok_left split: if_splits)

lemma uses_curText: "uses 0 curText"
  by (simp add: uses_def curText_def)

lemma uses_intern: "uses 0 (intern E s)" "uses 0 (internCur E)"
  by (auto simp: uses_def intern_def internCur_def curText_def bindP_def pleft_def Let_def split: prod.splits)

lemma fueled_simple: "fueled N curText" "fueled N (intern E s)" "fueled N (internCur E)"
  by (auto simp: fueled_def intern_def internCur_def curText_def bindP_def Let_def split: prod.splits)

lemma Accept_result:
  "Accept E s P = Inr (b, P') \<Longrightarrow> if b then pleft P' + of_bool (s \<noteq> NONE) \<le> pleft P else P' = P"
  by (auto simp: Accept_def condP_def bindP_def retP_def curSym_def elim!: bindR_InrE split: if_splits dest!: Eat_pleft)

lemma AcceptOneOf_result:
  assumes "AcceptOneOf E ss P = Inr (b, P')"
  shows "if b then pleft P' + of_bool (NONE \<notin> set ss) \<le> pleft P else P' = P"
  using assms
  by (cases "m_curSym P = NONE")
    (auto simp: AcceptOneOf_def condP_def bindP_def retP_def IsOneOf_def elim!: bindR_InrE split: if_splits
      dest!: Eat_pleft)

lemma uses_Accept: "uses 0 (Accept E s)" "uses 0 (AcceptOneOf E ss)"
  by (auto simp: uses_def dest!: Accept_result AcceptOneOf_result split: if_splits)

lemma uses_Expect0: "uses 0 (Expect E s)"
  by (auto simp: uses_def Expect_def bindP_def retP_def ParseError_no_result elim!: bindR_InrE
      dest!: Accept_result split: if_splits)

lemma uses_Expect: "s \<noteq> NONE \<Longrightarrow> uses 1 (Expect E s)"
  by (auto simp: uses_def Expect_def bindP_def retP_def ParseError_no_result elim!: bindR_InrE
      dest!: Accept_result split: if_splits)

lemma uses_ExpectOneOf: "NONE \<notin> set ss \<Longrightarrow> uses 1 (ExpectOneOf E ss)"
  by (auto simp: uses_def ExpectOneOf_def bindP_def retP_def ParseError_no_result elim!: bindR_InrE
      dest!: AcceptOneOf_result split: if_splits)

lemma fueled_Accept: "fueled N (Accept E s)" "fueled N (AcceptOneOf E ss)"
  using fueled_Eat [of N E]
  by (auto simp: fueled_def Accept_def AcceptOneOf_def condP_def bindP_def retP_def bindR_def split: sum.splits)

lemma fueled_Expect: "fueled N (Expect E s)" "fueled N (ExpectOneOf E ss)"
  using fueled_Accept(1) [of N E s] fueled_Accept(2) [of N E ss]
  by (auto simp: fueled_def Expect_def ExpectOneOf_def bindP_def retP_def bindR_def ParseError_not_fuel
      split: sum.splits)

subsection \<open>Parsing functions\<close>

declare One_nat_def [simp del]

lemmas uses_basic =
  uses_ret uses_fail uses_ParseError uses_Eat uses_PeekP uses_curText uses_intern uses_Accept uses_Expect0

lemmas fueled_basic =
  fueled_ret fueled_ParseError fueled_Eat fueled_PeekP fueled_simple fueled_Accept fueled_Expect

lemma uses_lift: "uses 0 (\<lambda>P. bindR r (\<lambda>w. Inr (w, P)))"
  by (auto simp: uses_def elim!: bindR_InrE)

lemma no_NONE: "NONE \<notin> set identOrPrimitiveSyms" "NONE \<notin> set keywordSelectorSyms"
  by (simp_all add: identOrPrimitiveSyms_def keywordSelectorSyms_def)

text \<open>\<open>bind0\<close>, \<open>bind1\<close>: sequencing when the first part may consume nothing, or consumes a symbol.\<close>

lemma uses_bind0: "uses 0 m \<Longrightarrow> (\<And>x. uses 0 (f x)) \<Longrightarrow> uses 0 (bindP m f)"
  by (rule uses_bind_first)

lemma uses_0: "uses 1 m \<Longrightarrow> uses 0 m"
  by (erule uses_mono) simp

lemma uses_ParseInteger [uses_intros]: "uses 1 (ParseInteger E b)"
  unfolding ParseInteger_def
  by (intro uses_bind_second [OF uses_curText] uses_bind_second [OF uses_lift] uses_bind_first uses_Expect uses_ret) simp

lemma uses_ParseDouble [uses_intros]: "uses 1 (ParseDouble E b)"
  unfolding ParseDouble_def
  by (intro uses_bind_second [OF uses_curText])
    (auto split: option.split intro!: uses_fail uses_bind_first uses_Expect uses_ret)

lemma uses_ParseNumber [uses_intros]: "uses 1 (ParseNumber E)"
  unfolding ParseNumber_def ParseNumberSigned_def
  by (intro uses_cond uses_bind_second [OF uses_Eat] uses_ParseInteger uses_ParseDouble)

lemma uses_ParseString [uses_intros]: "uses 1 (ParseString E)"
  unfolding ParseString_def
  by (intro uses_bind_second [OF uses_intern(2)] uses_bind_first uses_Expect uses_ret) simp

lemma uses_selectors [uses_intros]:
  "uses 1 (ParseUnarySelector E)" "uses 1 (ParseKeywordSelector E)" "uses 0 (ParseBinarySelector E)"
  unfolding ParseUnarySelector_def ParseKeywordSelector_def ParseBinarySelector_def
  by (intro uses_bind_second [OF uses_intern(2)] uses_bind_first uses_ExpectOneOf uses_basic no_NONE uses_if
      uses_bind0)+

lemma uses_ParseSelector: "uses 0 (ParseSelector E)"
  unfolding ParseSelector_def
  by (intro uses_cond uses_selectors(3) uses_0 [OF uses_selectors(1)] uses_0 [OF uses_selectors(2)])

lemma uses_ParseSymbol [uses_intros]: "uses 1 (ParseSymbol E)"
  unfolding ParseSymbol_def
  by (intro uses_bind_first uses_Expect uses_cond uses_bind0 uses_basic uses_ParseSelector) simp

lemma uses_literal:
  "uses 1 (ParseArray E n)" "uses 0 (ParseArrayLoop E n es)" "uses 1 (ParseLiteral E n)"
proof (induction E n and E n es and E n rule: ParseArray_ParseArrayLoop_ParseLiteral.induct)
  case (2 E n)
  then show ?case by (auto intro!: uses_bind_first uses_Expect uses_bind0 uses_basic)
next
  case (4 E n es)
  have "uses 0 (ParseLiteral E n)" by (rule uses_0 [OF 4(1)])
  with 4(2) show ?case by (auto intro!: uses_cond uses_bind0 uses_ret)
next
  case (6 E n)
  then show ?case
    by (auto intro!: uses_cond uses_ParseString uses_ParseNumber uses_bind_second uses_PeekP uses_if uses_ParseSymbol)
qed (simp_all add: uses_fail)

lemma uses_ParseVariable [uses_intros]: "uses 1 (ParseVariable E)"
  unfolding ParseVariable_def
  by (intro uses_bind_second [OF uses_curText] uses_bind_first uses_ExpectOneOf no_NONE uses_ret)

lemma uses_ParseParametersLoop: "uses 1 (ParseParametersLoop E n res)"
proof (induction n arbitrary: res)
  case (Suc n)
  have "uses 0 (ParseParametersLoop E n r)" for r by (rule uses_0 [OF Suc])
  then show ?case
    by (auto intro!: uses_bind_first [OF uses_Expect] uses_bind0 uses_0 [OF uses_ParseVariable] uses_if
        uses_ParseError uses_cond uses_ret)
qed (simp add: uses_fail)

lemma uses_ParseLocalsLoop: "uses 0 (ParseLocalsLoop E n res)"
  by (induction n arbitrary: res)
    (auto intro!: uses_fail uses_cond uses_bind0 uses_0 [OF uses_ParseVariable] uses_if uses_ParseError uses_ret)

lemma uses_ParseLocals: "uses 0 (ParseLocals E n)"
  unfolding ParseLocals_def
  by (intro uses_bind0 uses_if uses_basic uses_ParseLocalsLoop)

lemma uses_ParseAssignments: "uses 0 (ParseAssignments E n l)"
  by (induction n arbitrary: l)
    (auto simp: ParseOneAssignment_def intro!: uses_fail uses_cond uses_bind0 uses_basic uses_0 [OF uses_ParseVariable] uses_if)

lemma uses_UnaryMessages: "uses 0 (UnaryMessages E n op)"
  by (induction n arbitrary: op)
    (auto simp: ParseUnaryMessage_def intro!: uses_fail uses_cond uses_bind0 uses_ret uses_0 [OF uses_selectors(1)])

lemma uses_ParseKeyword [uses_intros]: "uses 1 (ParseKeyword E)"
  unfolding ParseKeyword_def
  by (intro uses_bind_second [OF uses_curText] uses_bind_first uses_Expect uses_ret) simp

lemma uses_ParseNestedTerm: "uses 0 pe \<Longrightarrow> uses 1 (ParseNestedTerm E pe)"
  unfolding ParseNestedTerm_def by (intro uses_bind_first uses_Expect uses_bind0 uses_basic) simp_all

lemma uses_ParseBlockExprs: "uses 0 pe \<Longrightarrow> uses 0 (ParseBlockExprs E pe n res)"
  by (induction n arbitrary: res) (auto intro!: uses_fail uses_cond uses_bind0 uses_basic uses_if)

lemma uses_ParseNestedBlock: "uses 0 pe \<Longrightarrow> uses 1 (ParseNestedBlock E pe n)"
  unfolding ParseNestedBlock_def ParseParameters_def
  by (intro uses_bind_first uses_Expect uses_bind0 uses_basic uses_cond uses_0 [OF uses_ParseParametersLoop]
      uses_ParseLocals uses_ParseBlockExprs) simp_all

lemma uses_ParsePrimary: "uses 0 pe \<Longrightarrow> uses 1 (ParsePrimary E pe n)"
  unfolding ParsePrimary_def
  by (intro uses_cond uses_bind_first uses_ParseVariable uses_ret uses_ParseNestedTerm uses_ParseNestedBlock
      uses_literal) simp_all

lemma uses_ParseBinaryOperand: "uses 0 pe \<Longrightarrow> uses 1 (ParseBinaryOperand E pe n)"
  unfolding ParseBinaryOperand_def by (intro uses_bind_first uses_ParsePrimary uses_UnaryMessages)

lemma uses_ParseBinaryMessage: "uses 0 pe \<Longrightarrow> uses 1 (ParseBinaryMessage E pe n op)"
  unfolding ParseBinaryMessage_def
  by (intro uses_bind_second [OF uses_selectors(3)] uses_bind_first uses_ParseBinaryOperand uses_ret)

lemma uses_BinaryMessages: "uses 0 pe \<Longrightarrow> uses 0 (BinaryMessages E pe k n op)"
  by (induction n arbitrary: op)
    (auto intro!: uses_fail uses_cond uses_bind0 uses_ret uses_0 [OF uses_ParseBinaryMessage])

lemma uses_ParseKeywordMessageOperand: "uses 0 pe \<Longrightarrow> uses 1 (ParseKeywordMessageOperand E pe n)"
  unfolding ParseKeywordMessageOperand_def by (intro uses_bind_first uses_ParseBinaryOperand uses_BinaryMessages)

lemma uses_KeywordParts: "uses 0 pe \<Longrightarrow> uses 1 (KeywordParts E pe k n kw args)"
proof (induction n arbitrary: kw args)
  case (Suc n)
  have "uses 0 (KeywordParts E pe k n kw' args')" for kw' args' by (rule uses_0 [OF Suc.IH [OF Suc.prems]])
  with Suc.prems show ?case
    by (auto intro!: uses_bind_first [OF uses_ParseKeyword] uses_bind0 uses_ret uses_cond
        uses_0 [OF uses_ParseKeywordMessageOperand])
qed (simp add: uses_fail)

lemma uses_ParseEvaluation: "uses 0 pe \<Longrightarrow> uses 1 (ParseEvaluation E pe n)"
  unfolding ParseEvaluation_def ParseKeywordMessage_def
  by (intro uses_bind_first [OF uses_ParsePrimary] uses_bind0 uses_UnaryMessages uses_BinaryMessages uses_cond uses_ret)
    (auto intro!: uses_bind0 uses_0 [OF uses_KeywordParts] uses_basic split: prod.split)

lemma uses_ParseExpr: "uses 1 (ParseExpr E n)"
proof (induction n)
  case (Suc n)
  have ev: "uses 1 (ParseEvaluation E (ParseExpr E n) n)" by (rule uses_ParseEvaluation [OF uses_0 [OF Suc]])
  then have "uses 1 (ParseAssignation E (ParseExpr E n) n)"
    unfolding ParseAssignation_def
    by (intro uses_bind_second [OF uses_ParseAssignments] uses_bind_first uses_ret)
  with ev show ?case by (auto intro!: uses_bind_second [OF uses_PeekP] uses_if)
qed (simp add: uses_fail)

subsection \<open>Enough fuel\<close>

lemma fueled_bind0: "uses 0 m \<Longrightarrow> fueled N m \<Longrightarrow> (\<And>x. fueled N (f x)) \<Longrightarrow> fueled N (bindP m f)"
  using fueled_bind [of 0 m N f] by simp

lemma fueled_bind1:
  "uses 1 m \<Longrightarrow> fueled N m \<Longrightarrow> (1 \<le> N \<Longrightarrow> (\<And>x. fueled (N - 1) (f x))) \<Longrightarrow> fueled N (bindP m f)"
  by (rule fueled_bind)

lemma fueled_lift: "r \<noteq> Inl OutOfFuel \<Longrightarrow> fueled N (\<lambda>P. bindR r (\<lambda>w. Inr (w, P)))"
  by (cases r) (auto simp: fueled_def)

lemma fueled_ParseInteger: "fueled N (ParseInteger E b)"
  unfolding ParseInteger_def
  by (intro fueled_bind0 [OF uses_curText] fueled_bind0 [OF uses_lift] fueled_bind0 [OF uses_Expect0] fueled_basic
      fueled_lift) (simp add: ParseIntegerText_def Let_def)

lemma fueled_ParseNumber: "fueled N (ParseNumber E)"
  unfolding ParseNumber_def ParseNumberSigned_def ParseDouble_def
  by (intro fueled_cond fueled_bind0 [OF uses_Eat] fueled_bind0 [OF uses_curText] fueled_basic fueled_ParseInteger)
    (auto split: option.split intro!: fueled_fail fueled_bind0 [OF uses_Expect0] fueled_basic)

lemma fueled_ParseString: "fueled N (ParseString E)"
  unfolding ParseString_def
  by (intro fueled_bind0 [OF uses_intern(2)] fueled_bind0 [OF uses_Expect0] fueled_basic)

lemma uses_ExpectOneOf0: "uses 0 (ExpectOneOf E ss)"
  by (auto simp: uses_def ExpectOneOf_def bindP_def retP_def ParseError_no_result elim!: bindR_InrE
      dest!: AcceptOneOf_result split: if_splits)

lemma fueled_selectors:
  "fueled N (ParseUnarySelector E)" "fueled N (ParseKeywordSelector E)" "fueled N (ParseBinarySelector E)"
  unfolding ParseUnarySelector_def ParseKeywordSelector_def ParseBinarySelector_def
  by (intro fueled_bind0 uses_intern uses_ExpectOneOf0 uses_Accept uses_basic uses_if fueled_basic fueled_if)+

lemma fueled_ParseSymbol: "fueled N (ParseSymbol E)"
  unfolding ParseSymbol_def ParseSelector_def
  by (intro fueled_bind0 [OF uses_Expect0] fueled_bind0 [OF uses_intern(2)] fueled_cond fueled_basic
      fueled_bind0 [OF uses_ParseSelector [unfolded ParseSelector_def]] fueled_selectors)

lemma fueled_literal:
  "2 * N + 1 \<le> n \<Longrightarrow> fueled N (ParseArray E n)"
  "2 * N + 3 \<le> n \<Longrightarrow> fueled N (ParseArrayLoop E n es)"
  "2 * N + 2 \<le> n \<Longrightarrow> fueled N (ParseLiteral E n)"
proof (induction E n and E n es and E n arbitrary: N and N and N
    rule: ParseArray_ParseArrayLoop_ParseLiteral.induct)
  case (2 E n)
  have "1 \<le> N - 1 \<Longrightarrow> fueled (N - 1 - 1) (ParseArrayLoop E n [])" by (rule 2(1)) (use 2(2) in simp)
  then have "1 \<le> N - 1 \<Longrightarrow> fueled (N - 1 - 1)
      (bindP (ParseArrayLoop E n []) (\<lambda>es. bindP (Expect E EndTerm) (\<lambda>_. retP (AstArray es))))"
    by (intro fueled_bind0 uses_literal uses_Expect0 fueled_basic)
  then show ?case
    unfolding ParseArray.simps by (intro fueled_bind1 [OF uses_Expect] fueled_Expect) simp_all
next
  case (4 E n es)
  have "fueled N (ParseLiteral E n)" by (rule 4(1)) (use 4(3) in simp)
  moreover have "1 \<le> N \<Longrightarrow> fueled (N - 1) (ParseArrayLoop E n (es @ [x]))" for x by (rule 4(2)) (use 4(3) in simp)
  ultimately show ?case by (auto intro!: fueled_cond fueled_bind1 [OF uses_literal(3)] fueled_ret)
next
  case (6 E n)
  have "fueled N (ParseArray E n)" using 6 by simp
  then show ?case
    by (auto intro!: fueled_cond fueled_bind0 [OF uses_PeekP] fueled_basic fueled_if fueled_ParseSymbol
        fueled_ParseString fueled_ParseNumber)
qed simp_all

lemma fueled_ParseVariable: "fueled N (ParseVariable E)"
  unfolding ParseVariable_def
  by (intro fueled_bind0 [OF uses_curText] fueled_bind0 [OF uses_ExpectOneOf0] fueled_basic)

lemma fueled_ParseParametersLoop: "N < n \<Longrightarrow> fueled N (ParseParametersLoop E n res)"
proof (induction n arbitrary: N res)
  case (Suc n)
  then have "1 \<le> N \<Longrightarrow> fueled (N - 1) (ParseParametersLoop E n r)" for r by simp
  then show ?case
    by (auto intro!: fueled_bind1 [OF uses_Expect] fueled_bind0 [OF uses_0 [OF uses_ParseVariable]] fueled_basic
        fueled_ParseVariable fueled_if fueled_cond)
qed simp

lemma fueled_ParseLocalsLoop: "N < n \<Longrightarrow> fueled N (ParseLocalsLoop E n res)"
proof (induction n arbitrary: N res)
  case (Suc n)
  then have "1 \<le> N \<Longrightarrow> fueled (N - 1) (ParseLocalsLoop E n r)" for r by simp
  then show ?case
    by (auto intro!: fueled_bind1 [OF uses_ParseVariable] fueled_basic fueled_ParseVariable fueled_if fueled_cond)
qed simp

lemma fueled_ParseLocals: "N < n \<Longrightarrow> fueled N (ParseLocals E n)"
  unfolding ParseLocals_def
  by (intro fueled_bind0 uses_Accept uses_ParseLocalsLoop uses_Expect0 fueled_basic fueled_if fueled_ParseLocalsLoop)

lemma uses_ParseOneAssignment: "uses 1 (ParseOneAssignment E)"
  unfolding ParseOneAssignment_def
  by (intro uses_bind_first [OF uses_ParseVariable] uses_bind0 uses_Expect0 uses_ret)

lemma fueled_ParseAssignments: "N < n \<Longrightarrow> fueled N (ParseAssignments E n l)"
proof (induction n arbitrary: N l)
  case (Suc n)
  then have "1 \<le> N \<Longrightarrow> fueled (N - 1) (ParseAssignments E n r)" for r by simp
  moreover have "fueled N (ParseOneAssignment E)"
    unfolding ParseOneAssignment_def
    by (intro fueled_bind0 [OF uses_0 [OF uses_ParseVariable]] fueled_ParseVariable fueled_bind0 [OF uses_Expect0] fueled_basic)
  ultimately show ?case
    by (auto intro!: fueled_bind1 [OF uses_ParseOneAssignment] fueled_bind0 [OF uses_PeekP] fueled_basic fueled_if fueled_cond)
qed simp

lemma uses_ParseUnaryMessage: "uses 1 (ParseUnaryMessage E op)"
  unfolding ParseUnaryMessage_def by (intro uses_bind_first [OF uses_selectors(1)] uses_ret)

lemma fueled_UnaryMessages: "N < n \<Longrightarrow> fueled N (UnaryMessages E n op)"
proof (induction n arbitrary: N op)
  case (Suc n)
  then have "1 \<le> N \<Longrightarrow> fueled (N - 1) (UnaryMessages E n r)" for r by simp
  moreover have "fueled N (ParseUnaryMessage E op)"
    unfolding ParseUnaryMessage_def
    by (intro fueled_bind0 [OF uses_0 [OF uses_selectors(1)]] fueled_selectors fueled_ret)
  ultimately show ?case
    by (auto intro!: fueled_bind1 [OF uses_ParseUnaryMessage] fueled_basic fueled_cond)
qed simp

lemma fueled_ParseNestedTerm:
  assumes "uses 0 pe" and "1 \<le> N \<Longrightarrow> fueled (N - 1) pe"
  shows "fueled N (ParseNestedTerm E pe)"
  unfolding ParseNestedTerm_def
  by (rule fueled_bind1 [OF uses_Expect fueled_Expect(1)])
    (use assms in \<open>auto intro!: fueled_bind0 uses_Expect0 fueled_basic\<close>)

lemma fueled_ParseBlockExprs:
  assumes "uses 1 pe"
  shows "fueled N pe \<Longrightarrow> N < n \<Longrightarrow> fueled N (ParseBlockExprs E pe n res)"
proof (induction n arbitrary: N res)
  case (Suc n)
  have "1 \<le> N \<Longrightarrow> fueled (N - 1) (ParseBlockExprs E pe n r)" for r
    by (rule Suc.IH) (use Suc.prems in \<open>auto intro: fueled_mono\<close>)
  then have rest: "1 \<le> N \<Longrightarrow> fueled (N - 1) (bindP (Accept E Period) (\<lambda>p.
      if p then ParseBlockExprs E pe n r else retP r))" for r
    by (auto intro!: fueled_bind0 uses_Accept fueled_basic)
  show ?case
    unfolding ParseBlockExprs.simps
    by (intro fueled_cond fueled_ret fueled_bind0 [OF uses_Accept(1) fueled_Accept(1)] fueled_if
        fueled_bind0 [OF uses_0 [OF assms] Suc.prems(1)] fueled_bind1 [OF assms Suc.prems(1)] rest)
qed simp

lemma fueled_ParseNestedBlock:
  assumes "uses 1 pe" and "1 \<le> N \<Longrightarrow> fueled (N - 1) pe" and "N < n"
  shows "fueled N (ParseNestedBlock E pe n)"
proof -
  have "1 \<le> N \<Longrightarrow> fueled (N - 1) (ParseBlockExprs E pe n [])"
    by (rule fueled_ParseBlockExprs [OF assms(1)]) (use assms in auto)
  moreover have "fueled (N - 1) (ParseParametersLoop E n [])" "fueled (N - 1) (ParseLocals E n)"
    using assms(3) by (auto intro!: fueled_ParseParametersLoop fueled_ParseLocals)
  ultimately show ?thesis
    unfolding ParseNestedBlock_def ParseParameters_def
    by (intro fueled_bind1 [OF uses_Expect fueled_Expect(1)] fueled_bind0 uses_cond uses_bind0 uses_Expect0 uses_ret
        uses_ParseLocals uses_ParseBlockExprs uses_0 [OF uses_ParseParametersLoop] uses_0 [OF assms(1)]
        fueled_basic fueled_cond) simp_all
qed

lemma fueled_ParsePrimary:
  assumes "uses 1 pe" and "1 \<le> N \<Longrightarrow> fueled (N - 1) pe" and "2 * N + 2 \<le> n"
  shows "fueled N (ParsePrimary E pe n)"
  unfolding ParsePrimary_def
  by (intro fueled_cond fueled_bind0 [OF uses_0 [OF uses_ParseVariable]] fueled_ParseVariable fueled_ret
      fueled_ParseNestedTerm fueled_ParseNestedBlock fueled_literal assms uses_0 [OF assms(1)])
    (use assms in auto)

lemma fueled_ParseBinaryOperand:
  assumes "uses 1 pe" and "1 \<le> N \<Longrightarrow> fueled (N - 1) pe" and "2 * N + 2 \<le> n"
  shows "fueled N (ParseBinaryOperand E pe n)"
  unfolding ParseBinaryOperand_def
  by (rule fueled_bind0 [OF uses_0 [OF uses_ParsePrimary [OF uses_0 [OF assms(1)]]] fueled_ParsePrimary [OF assms]])
    (use assms(3) in \<open>auto intro!: fueled_UnaryMessages\<close>)

lemma fueled_BinaryMessages:
  assumes "uses 1 pe"
  shows "(1 \<le> N \<Longrightarrow> fueled (N - 1) pe) \<Longrightarrow> 2 * N + 2 \<le> k \<Longrightarrow> N < n \<Longrightarrow> fueled N (BinaryMessages E pe k n op)"
proof (induction n arbitrary: N op)
  case (Suc n)
  have "1 \<le> N \<Longrightarrow> fueled (N - 1) (BinaryMessages E pe k n r)" for r
    by (rule Suc.IH) (use Suc.prems in \<open>auto intro: fueled_mono\<close>)
  moreover have "fueled N (ParseBinaryMessage E pe k op)"
    unfolding ParseBinaryMessage_def
    by (intro fueled_bind0 [OF uses_selectors(3) fueled_selectors(3)] fueled_bind0 [OF uses_0 [OF uses_ParseBinaryOperand]]
        uses_0 [OF assms] fueled_ParseBinaryOperand assms fueled_ret) (use Suc.prems in auto)
  ultimately show ?case
    unfolding BinaryMessages.simps
    by (intro fueled_cond fueled_ret fueled_bind1 [OF uses_ParseBinaryMessage [OF uses_0 [OF assms]]])
qed simp

lemma fueled_ParseKeywordMessageOperand:
  assumes "uses 1 pe" and "1 \<le> N \<Longrightarrow> fueled (N - 1) pe" and "2 * N + 2 \<le> n"
  shows "fueled N (ParseKeywordMessageOperand E pe n)"
  unfolding ParseKeywordMessageOperand_def
  by (rule fueled_bind0 [OF uses_0 [OF uses_ParseBinaryOperand [OF uses_0 [OF assms(1)]]] fueled_ParseBinaryOperand [OF assms]])
    (use assms in \<open>auto intro!: fueled_BinaryMessages\<close>)

lemma fueled_ParseKeyword: "fueled N (ParseKeyword E)"
  unfolding ParseKeyword_def by (intro fueled_bind0 uses_curText uses_Expect0 fueled_basic)

lemma fueled_KeywordParts:
  assumes "uses 1 pe"
  shows "(1 \<le> N \<Longrightarrow> fueled (N - 1) pe) \<Longrightarrow> 2 * N + 2 \<le> k \<Longrightarrow> N < n \<Longrightarrow> fueled N (KeywordParts E pe k n kw args)"
proof (induction n arbitrary: N kw args)
  case (Suc n)
  have "1 \<le> N \<Longrightarrow> fueled (N - 1) (KeywordParts E pe k n kw' args')" for kw' args'
    by (rule Suc.IH) (use Suc.prems in \<open>auto intro: fueled_mono\<close>)
  moreover have "1 \<le> N \<Longrightarrow> fueled (N - 1) (ParseKeywordMessageOperand E pe k)"
    by (rule fueled_ParseKeywordMessageOperand [OF assms]) (use Suc.prems in \<open>auto intro: fueled_mono\<close>)
  ultimately show ?case
    unfolding KeywordParts.simps
    by (intro fueled_bind1 [OF uses_ParseKeyword fueled_ParseKeyword]
        fueled_bind0 [OF uses_0 [OF uses_ParseKeywordMessageOperand [OF uses_0 [OF assms]]]] fueled_cond fueled_ret)
qed simp

lemma fueled_ParseEvaluation:
  assumes "uses 1 pe" and "1 \<le> N \<Longrightarrow> fueled (N - 1) pe" and "2 * N + 2 \<le> n"
  shows "fueled N (ParseEvaluation E pe n)"
proof -
  have "fueled N (KeywordParts E pe n n [] [])" by (rule fueled_KeywordParts) (use assms in auto)
  then have "fueled N (ParseKeywordMessage E pe n op)" for op
    unfolding ParseKeywordMessage_def
    by (auto intro!: fueled_bind0 [OF uses_0 [OF uses_KeywordParts [OF uses_0 [OF assms(1)]]]] fueled_bind0 uses_intern
        fueled_basic split: prod.split)
  moreover have "fueled N (UnaryMessages E n op)" "fueled N (BinaryMessages E pe n n op)" for op
    using assms by (auto intro!: fueled_UnaryMessages fueled_BinaryMessages)
  ultimately show ?thesis
    unfolding ParseEvaluation_def
    by (intro fueled_bind0 [OF uses_0 [OF uses_ParsePrimary [OF uses_0 [OF assms(1)]]]] fueled_ParsePrimary assms
        fueled_bind0 [OF uses_UnaryMessages] fueled_bind0 [OF uses_BinaryMessages [OF uses_0 [OF assms(1)]]]
        fueled_cond fueled_ret)
qed

lemma fueled_ParseExpr: "2 * N + 3 \<le> n \<Longrightarrow> fueled N (ParseExpr E n)"
proof (induction n arbitrary: N)
  case (Suc n)
  have ev: "fueled N (ParseEvaluation E (ParseExpr E n) n)"
    by (rule fueled_ParseEvaluation [OF uses_ParseExpr]) (use Suc in auto)
  then have "fueled N (ParseAssignation E (ParseExpr E n) n)"
    unfolding ParseAssignation_def
    by (intro fueled_bind0 [OF uses_ParseAssignments] fueled_ParseAssignments fueled_ret
        fueled_bind0 [OF uses_0 [OF uses_ParseEvaluation [OF uses_0 [OF uses_ParseExpr]]]]) (use Suc.prems in auto)
  with ev show ?case by (auto intro!: fueled_bind0 [OF uses_PeekP] fueled_PeekP fueled_if)
qed simp

subsection \<open>Methods and classes\<close>

lemma uses_KeywordPatternParts: "uses 0 (KeywordPatternParts E n kw ps)"
  by (induction n arbitrary: kw ps)
    (auto intro!: uses_fail uses_bind0 uses_0 [OF uses_ParseKeyword] uses_0 [OF uses_ParseVariable] uses_cond uses_ret)

lemma fueled_KeywordPatternParts: "N < n \<Longrightarrow> fueled N (KeywordPatternParts E n kw ps)"
proof (induction n arbitrary: N kw ps)
  case (Suc n)
  then have "1 \<le> N \<Longrightarrow> fueled (N - 1) (KeywordPatternParts E n kw' ps')" for kw' ps' by simp
  then show ?case
    unfolding KeywordPatternParts.simps
    by (intro fueled_bind1 [OF uses_ParseKeyword fueled_ParseKeyword]
        fueled_bind0 [OF uses_0 [OF uses_ParseVariable] fueled_ParseVariable] fueled_cond fueled_ret)
qed simp

lemma uses_ParseMethodPattern: "uses 0 (ParseMethodPattern E n)"
  unfolding ParseMethodPattern_def ParseUnaryMethodPattern_def ParseKeywordMethodPattern_def
    ParseBinaryMethodPattern_def
  by (auto intro!: uses_cond uses_bind0 uses_0 [OF uses_selectors(1)] uses_selectors(3) uses_ret
      uses_KeywordPatternParts uses_intern uses_0 [OF uses_ParseVariable] split: prod.split)

lemma fueled_ParseMethodPattern: "N < n \<Longrightarrow> fueled N (ParseMethodPattern E n)"
  unfolding ParseMethodPattern_def ParseUnaryMethodPattern_def ParseKeywordMethodPattern_def
    ParseBinaryMethodPattern_def
  by (auto intro!: fueled_cond fueled_bind0 uses_0 [OF uses_selectors(1)] uses_selectors(3) uses_ret
      uses_KeywordPatternParts uses_intern uses_0 [OF uses_ParseVariable] fueled_selectors fueled_basic
      fueled_KeywordPatternParts fueled_ParseVariable split: prod.split)

lemma uses_ParseMethod: "uses 1 (ParseMethod E n)"
  unfolding ParseMethod_def
  by (auto intro!: uses_bind_second [OF uses_ParseMethodPattern] uses_bind_first [OF uses_Expect] uses_bind0
      uses_basic uses_if uses_ParseLocals uses_ParseBlockExprs uses_0 [OF uses_ParseExpr] split: prod.split)

lemma fueled_ParseMethod:
  assumes "2 * N + 3 \<le> n"
  shows "fueled N (ParseMethod E n)"
proof -
  have "fueled N (ParseBlockExprs E (ParseExpr E n) n [])" "fueled N (ParseLocals E n)" "fueled N (ParseMethodPattern E n)"
    using assms by (auto intro!: fueled_ParseBlockExprs uses_ParseExpr fueled_ParseExpr fueled_ParseLocals
        fueled_ParseMethodPattern)
  then show ?thesis
    unfolding ParseMethod_def
    by (auto intro!: fueled_bind0 [OF uses_ParseMethodPattern] fueled_bind0 [OF uses_Expect0] fueled_bind0 [OF uses_Accept(1)]
        fueled_bind0 [OF uses_ParseLocals] fueled_bind0 [OF uses_ParseBlockExprs [OF uses_0 [OF uses_ParseExpr]]]
        fueled_basic fueled_if split: prod.split)
qed

lemma uses_ParseMethods: "uses 0 (ParseMethods E k n res)"
  by (induction n arbitrary: res)
    (auto intro!: uses_fail uses_cond uses_bind0 uses_0 [OF uses_ParseMethod] uses_ret)

lemma fueled_ParseMethods: "2 * N + 3 \<le> k \<Longrightarrow> N < n \<Longrightarrow> fueled N (ParseMethods E k n res)"
proof (induction n arbitrary: N res)
  case (Suc n)
  then have "1 \<le> N \<Longrightarrow> fueled (N - 1) (ParseMethods E k n r)" for r by simp
  then show ?case
    unfolding ParseMethods.simps
    by (intro fueled_cond fueled_ret fueled_bind1 [OF uses_ParseMethod fueled_ParseMethod]) (use Suc.prems in simp_all)
qed simp

lemma uses_callCompile: "uses 0 (callCompile compile name)"
  by (auto simp: uses_def callCompile_def pleft_def elim!: bindR_InrE)

lemma fueled_callCompile:
  "(\<And>I. compile name I \<noteq> Inl OutOfFuel) \<Longrightarrow> fueled N (callCompile compile name)"
  by (auto simp: fueled_def callCompile_def bindR_def split: sum.splits)

lemma uses_TestAssert: "uses 0 (\<lambda>P. bindR (TestAssert tb (b P)) (\<lambda>u. Inr (u, P)))"
  by (auto simp: uses_def elim!: bindR_InrE)

lemma fueled_TestAssert: "fueled N (\<lambda>P. bindR (TestAssert tb (b P)) (\<lambda>u. Inr (u, P)))"
  by (simp add: fueled_def TestAssert_def)

lemma uses_ParseSuperClass: "uses 0 (ParseSuperClass E compile name)"
  unfolding ParseSuperClass_def
  by (intro uses_cond uses_bind0 uses_if uses_callCompile uses_TestAssert uses_basic)

lemma fueled_ParseSuperClass:
  "(\<And>nm I. compile nm I \<noteq> Inl OutOfFuel) \<Longrightarrow> fueled N (ParseSuperClass E compile name)"
  unfolding ParseSuperClass_def
  by (intro fueled_cond fueled_bind0 uses_curText uses_if uses_bind0 uses_callCompile uses_TestAssert uses_basic
      fueled_if fueled_callCompile fueled_TestAssert fueled_basic) auto

lemma fueled_ParseClassFuel:
  assumes "\<And>nm I. compile nm I \<noteq> Inl OutOfFuel" and "2 * N + 2 \<le> n"
  shows "fueled N (ParseClassFuel E compile n)"
proof -
  have "1 \<le> N \<Longrightarrow> fueled (N - 1) (ParseMethods E n n [])" "fueled (N - 1) (ParseLocals E n)"
    "fueled (N - 1) (ParseSuperClass E compile name)" for name
    using assms by (auto intro!: fueled_ParseMethods fueled_ParseLocals fueled_ParseSuperClass)
  then show ?thesis
    unfolding ParseClassFuel_def
    by (intro fueled_bind0 [OF uses_intern(2) fueled_simple(3)] fueled_bind1 [OF uses_Expect fueled_Expect(1)]
        fueled_bind0 [OF uses_ParseSuperClass] fueled_bind0 [OF uses_ParseLocals] fueled_bind0 [OF uses_ParseMethods]
        fueled_bind0 uses_Expect0 uses_Accept uses_if uses_ParseLocals uses_ParseMethods uses_ret
        fueled_basic fueled_if) simp_all
qed

declare One_nat_def [simp]

subsection \<open>More fuel\<close>

text \<open>
  \<open>refined_by m m'\<close>: where \<open>m\<close> does not run out of fuel, \<open>m'\<close> behaves like \<open>m\<close>. The combinators of the parser are
  monotonic in this order, so every parsing function is monotonic in its fuel.
\<close>

named_theorems refined_intros \<open>parsing functions are monotonic in their fuel\<close>

definition refined_by :: "'a parser \<Rightarrow> 'a parser \<Rightarrow> bool" where
  "refined_by m m' \<longleftrightarrow> (\<forall>P. m P = Inl OutOfFuel \<or> m' P = m P)"

lemma refined_byD: "refined_by m m' \<Longrightarrow> m P \<noteq> Inl OutOfFuel \<Longrightarrow> m' P = m P"
  by (auto simp: refined_by_def)

lemma refined_refl: "refined_by m m"
  by (simp add: refined_by_def)

lemma refined_fail: "refined_by (failP OutOfFuel) m"
  by (simp add: refined_by_def failP_def)

lemma refined_bind [refined_intros]:
  assumes "refined_by m m'" and "\<And>x. refined_by (f x) (f' x)"
  shows "refined_by (bindP m f) (bindP m' f')"
  unfolding refined_by_def
proof
  fix P
  show "bindP m f P = Inl OutOfFuel \<or> bindP m' f' P = bindP m f P"
  proof (cases "m P = Inl OutOfFuel")
    case False
    then have "m' P = m P" by (rule refined_byD [OF assms(1)])
    then show ?thesis using assms(2) unfolding refined_by_def bindP_def by (cases "m P") (auto split: prod.splits)
  qed (simp add: bindP_def)
qed

lemma refined_cond [refined_intros]:
  "refined_by m1 m1' \<Longrightarrow> refined_by m2 m2' \<Longrightarrow> refined_by (condP c m1 m2) (condP c m1' m2')"
  by (simp add: refined_by_def condP_def)

lemma refined_if [refined_intros]:
  "(b \<Longrightarrow> refined_by m1 m1') \<Longrightarrow> (\<not> b \<Longrightarrow> refined_by m2 m2') \<Longrightarrow>
     refined_by (if b then m1 else m2) (if b then m1' else m2')"
  by simp

lemma refined_case_prod [refined_intros]:
  "(\<And>x y. refined_by (f x y) (g x y)) \<Longrightarrow> refined_by (case p of (x, y) \<Rightarrow> f x y) (case p of (x, y) \<Rightarrow> g x y)"
  by (cases p) simp

text \<open>A loop with fuel: the step from \<open>n\<close> to any larger fuel.\<close>

lemma refined_fuel:
  assumes "\<And>x. f 0 x = failP OutOfFuel"
    and "\<And>n n' x. n \<le> n' \<Longrightarrow> (\<And>y. refined_by (f n y) (f' n' y)) \<Longrightarrow> refined_by (f (Suc n) x) (f' (Suc n') x)"
  shows "n \<le> n' \<Longrightarrow> refined_by (f n x) (f' n' x)"
proof (induction n arbitrary: n' x)
  case 0
  show ?case unfolding assms(1) by (rule refined_fail)
next
  case (Suc n)
  then obtain m where "n' = Suc m" "n \<le> m" by (cases n') auto
  with Suc.IH assms(2) show ?case by blast
qed

lemma refined_literal:
  "n \<le> n' \<Longrightarrow> refined_by (ParseArray E n) (ParseArray E n') \<and>
     (\<forall>es. refined_by (ParseArrayLoop E n es) (ParseArrayLoop E n' es)) \<and>
     refined_by (ParseLiteral E n) (ParseLiteral E n')"
proof (induction n arbitrary: n')
  case 0
  show ?case by (simp add: refined_fail)
next
  case (Suc n)
  then obtain m where m: "n' = Suc m" "n \<le> m" by (cases n') auto
  note IH = Suc.IH [OF m(2)]
  show ?case unfolding m(1) using IH
    by (auto intro!: refined_intros intro: refined_refl)
qed

lemmas refined_rules = refined_intros refined_refl

lemma refined_ParseParametersLoop:
  "n \<le> n' \<Longrightarrow> refined_by (ParseParametersLoop E n l) (ParseParametersLoop E n' l)"
  by (rule refined_fuel) (auto intro!: refined_intros intro: refined_refl)

lemma refined_ParseLocalsLoop: "n \<le> n' \<Longrightarrow> refined_by (ParseLocalsLoop E n l) (ParseLocalsLoop E n' l)"
  by (rule refined_fuel) (auto intro!: refined_intros intro: refined_refl)

lemma refined_ParseLocals: "n \<le> n' \<Longrightarrow> refined_by (ParseLocals E n) (ParseLocals E n')"
  unfolding ParseLocals_def by (intro refined_rules refined_ParseLocalsLoop)

lemma refined_ParseAssignments: "n \<le> n' \<Longrightarrow> refined_by (ParseAssignments E n l) (ParseAssignments E n' l)"
  by (rule refined_fuel) (auto intro!: refined_intros intro: refined_refl)

lemma refined_UnaryMessages: "n \<le> n' \<Longrightarrow> refined_by (UnaryMessages E n op) (UnaryMessages E n' op)"
  by (rule refined_fuel) (auto intro!: refined_intros intro: refined_refl)

lemma refined_ParseBlockExprs:
  "refined_by pe pe' \<Longrightarrow> n \<le> n' \<Longrightarrow> refined_by (ParseBlockExprs E pe n l) (ParseBlockExprs E pe' n' l)"
  by (rule refined_fuel) (auto intro!: refined_intros intro: refined_refl)

lemma refined_ParseBinaryOperand:
  "refined_by pe pe' \<Longrightarrow> n \<le> n' \<Longrightarrow> refined_by (ParsePrimary E pe n) (ParsePrimary E pe' n')"
  "refined_by pe pe' \<Longrightarrow> n \<le> n' \<Longrightarrow> refined_by (ParseBinaryOperand E pe n) (ParseBinaryOperand E pe' n')"
  unfolding ParseBinaryOperand_def ParsePrimary_def ParseNestedTerm_def ParseNestedBlock_def ParseParameters_def
  by (intro refined_rules refined_ParseLocals refined_ParseParametersLoop refined_ParseBlockExprs refined_UnaryMessages;
      simp add: refined_literal)+

lemma refined_BinaryMessages:
  "refined_by pe pe' \<Longrightarrow> k \<le> k' \<Longrightarrow> n \<le> n' \<Longrightarrow> refined_by (BinaryMessages E pe k n op) (BinaryMessages E pe' k' n' op)"
  by (rule refined_fuel)
    (auto simp: ParseBinaryMessage_def intro!: refined_intros refined_ParseBinaryOperand intro: refined_refl)

lemma refined_KeywordParts:
  assumes "refined_by pe pe'" and "k \<le> k'"
  shows "n \<le> n' \<Longrightarrow> refined_by (KeywordParts E pe k n kw args) (KeywordParts E pe' k' n' kw args)"
  by (rule refined_fuel [where x = "(kw, args)" and f = "\<lambda>n (kw, args). KeywordParts E pe k n kw args"
        and f' = "\<lambda>n (kw, args). KeywordParts E pe' k' n kw args", simplified])
    (use assms in \<open>auto simp: ParseKeywordMessageOperand_def
       intro!: refined_intros refined_ParseBinaryOperand refined_BinaryMessages intro: refined_refl\<close>)

lemma refined_ParseEvaluation:
  assumes "refined_by pe pe'" and "n \<le> n'"
  shows "refined_by (ParseEvaluation E pe n) (ParseEvaluation E pe' n')"
  unfolding ParseEvaluation_def ParseKeywordMessage_def
  by (intro refined_rules refined_ParseBinaryOperand refined_UnaryMessages refined_BinaryMessages
      refined_KeywordParts assms)

lemma refined_ParseExpr: "n \<le> n' \<Longrightarrow> refined_by (ParseExpr E n) (ParseExpr E n')"
  by (rule refined_fuel [where f = "\<lambda>n u :: unit. ParseExpr E n" and f' = "\<lambda>n u. ParseExpr E n"])
    (auto simp: ParseAssignation_def intro!: refined_intros refined_ParseEvaluation refined_ParseAssignments
       intro: refined_refl)

lemma refined_KeywordPatternParts:
  "n \<le> n' \<Longrightarrow> refined_by (KeywordPatternParts E n kw ps) (KeywordPatternParts E n' kw ps)"
  by (rule refined_fuel [where x = "(kw, ps)" and f = "\<lambda>n (kw, ps). KeywordPatternParts E n kw ps"
        and f' = "\<lambda>n (kw, ps). KeywordPatternParts E n kw ps", simplified])
    (auto intro!: refined_intros intro: refined_refl)

lemma refined_ParseMethod: "n \<le> n' \<Longrightarrow> refined_by (ParseMethod E n) (ParseMethod E n')"
  unfolding ParseMethod_def ParseMethodPattern_def ParseKeywordMethodPattern_def
  by (intro refined_rules refined_KeywordPatternParts refined_ParseLocals refined_ParseBlockExprs refined_ParseExpr)

lemma refined_ParseMethods:
  "k \<le> k' \<Longrightarrow> n \<le> n' \<Longrightarrow> refined_by (ParseMethods E k n l) (ParseMethods E k' n' l)"
  by (rule refined_fuel) (auto intro!: refined_intros refined_ParseMethod intro: refined_refl)

lemma refined_ParseClassFuel: "n \<le> n' \<Longrightarrow> refined_by (ParseClassFuel E compile n) (ParseClassFuel E compile n')"
  unfolding ParseClassFuel_def
  by (intro refined_rules refined_ParseLocals refined_ParseMethods)

subsection \<open>Property\<close>

text \<open>
  C3. Parsing a class file ends, if compiling the superclass named in it ends: for every file, in every build,
  the parser then either returns a class or aborts with an error, whatever the file contains. The
  model's fuel, computed from the text that is left, is never used up, and with more fuel the result is the same. (The call
  that compiles the superclass is a parameter. It does not end when a class is its own superclass, directly or through others.)
\<close>

theorem ParseClass_enough_fuel:
  assumes "\<And>name I. compile name I \<noteq> Inl OutOfFuel"
  shows "ParseClass E compile P \<noteq> Inl OutOfFuel \<and>
         (\<forall>n \<ge> parse_fuel P. ParseClassFuel E compile n P = ParseClass E compile P)"
proof -
  have "fueled (pleft P) (ParseClassFuel E compile (parse_fuel P))"
    by (rule fueled_ParseClassFuel [OF assms]) (simp add: parse_fuel_def)
  then have "ParseClass E compile P \<noteq> Inl OutOfFuel" by (simp add: fueled_def ParseClass_def)
  then show ?thesis
    using refined_byD [OF refined_ParseClassFuel] unfolding ParseClass_def by blast
qed

definition demo_env :: parse_env where
  "demo_env = \<lparr>pe_nd = True, pe_tb = True, pe_hash = (\<lambda>_. 0)\<rparr>"

definition demo_parser :: "string \<Rightarrow> Parser" where
  "demo_parser s = projr (new_parser demo_env empty_interner ''demo.som'' \<lparr>rest = s, good = True\<rparr>)"

theorem ParseClass_enough_fuel_witness:
  "ParseClass demo_env (\<lambda>name I. Inr (name, I)) (demo_parser ''A = ( f = ( ^#(1 #(2 3)) ) )'') \<noteq> Inl OutOfFuel"
  using ParseClass_enough_fuel [of "\<lambda>name I. Inr (name, I)"] by simp

end
