(* ===== verification/MethodTable.thy ===== *)
theory MethodTable
  imports Prelude
begin

section \<open>Method tables: the cuckoo hash table of a class\<close>

text \<open>
  \<open>src/runtime/som_class.cpp\<close>, \<open>SimpleCuckooHashTable\<close>, and \<open>SOMClass::GetMethod\<close> of
  \<open>src/runtime/som_class.h\<close>. A class keeps one flat table of all methods its instances
  understand: the table of the superclass is copied and the methods of the class are inserted
  over it. A key (the interned selector) sits in one of two slots computed from its hash;
  insertion evicts at most 30 entries before it gives up and the table is doubled.

  A table is a list of entries. The hash of a key comes from the interner and is the argument
  \<open>hash\<close>. \<open>m_data\<close> is the 32-bit \<open>GeneralHeapPointer\<close> of the method's function object, 0 the
  null pointer. \<open>ht_ok\<close> is the invariant, \<open>ents\<close> the set of bindings a table holds, and
  \<open>ht_lookup\<close> reads it the way \<open>GetMethod\<close> does.
\<close>

record MethodHtEntry =
  m_id :: u32
  m_data :: u32

type_synonym ht = "MethodHtEntry list"

abbreviation no_id :: u32 where
  "no_id \<equiv> - 1"

definition mk_entry :: "u32 \<Rightarrow> u32 \<Rightarrow> MethodHtEntry" where
  "mk_entry key val = \<lparr>m_id = key, m_data = val\<rparr>"

definition empty_entry :: MethodHtEntry where
  "empty_entry = \<lparr>m_id = no_id, m_data = 0\<rparr>"

definition new_table :: ht where
  "new_table = [empty_entry]"

datatype InsertionResult = Inserted | Found | Failed

text \<open>\<open>SimpleCuckooHashTable::GetHash\<close>: the two slots of a key in a table of the given size.\<close>

definition slots :: "(u32 \<Rightarrow> u64) \<Rightarrow> nat \<Rightarrow> u32 \<Rightarrow> nat \<times> nat" where
  "slots hash n key =
     (let hash64 = hash key; msk = of_nat (n - 1) :: u64
      in (unat (hash64 AND msk), unat (drop_bit 16 hash64 AND msk)))"

text \<open>
  The eviction loop of \<open>TryInsert\<close>. \<open>pos\<close> is \<open>victimPosition\<close>. The result carries the values the
  reference parameters \<open>key\<close> and \<open>val\<close> have at the end: on failure, the pair that was thrown
  out of the table.
\<close>

function evict_loop ::
  "bool \<Rightarrow> (u32 \<Rightarrow> u64) \<Rightarrow> ht \<Rightarrow> u32 \<Rightarrow> u32 \<Rightarrow> nat \<Rightarrow> nat \<Rightarrow> (InsertionResult \<times> u32 \<times> u32 \<times> ht) res"
where
  "evict_loop tb hash t key val pos rounds =
     (let victimKey = m_id (t ! pos);
          victimValue = m_data (t ! pos);
          t1 = t[pos := mk_entry key val];
          (g1, g2) = slots hash (length t1) victimKey;
          (h1, h2) = (if g1 = pos then (g2, g1) else (g1, g2))
      in bindR (TestAssert tb (h2 = pos)) (\<lambda>_.
         if m_id (t1 ! h1) = no_id
         then Inr (Inserted, key, val, t1[h1 := mk_entry victimKey victimValue])
         else if rounds + 1 > 30 then Inr (Failed, victimKey, victimValue, t1)
         else evict_loop tb hash t1 victimKey victimValue h1 (rounds + 1)))"
  by pat_completeness auto
termination
  by (relation "measure (\<lambda>(tb, hash, t, key, val, pos, rounds). 30 - rounds)") auto

declare evict_loop.simps [simp del]

definition TryInsert ::
  "bool \<Rightarrow> (u32 \<Rightarrow> u64) \<Rightarrow> ht \<Rightarrow> u32 \<Rightarrow> u32 \<Rightarrow> (InsertionResult \<times> u32 \<times> u32 \<times> ht) res" where
  "TryInsert tb hash t key val =
     (if t = [] then Inl OutOfRange else
      let (h1, h2) = slots hash (length t) key
      in if m_id (t ! h1) = key then Inr (Found, key, val, t[h1 := (t ! h1)\<lparr>m_data := val\<rparr>])
         else if m_id (t ! h2) = key then Inr (Found, key, val, t[h2 := (t ! h2)\<lparr>m_data := val\<rparr>])
         else if m_id (t ! h1) = no_id then Inr (Inserted, key, val, t[h1 := mk_entry key val])
         else if m_id (t ! h2) = no_id then Inr (Inserted, key, val, t[h2 := mk_entry key val])
         else evict_loop tb hash t key val h1 1)"

text \<open>The reinsertion loop of \<open>Resize\<close>, over the old entries in index order.\<close>

fun reinsert :: "bool \<Rightarrow> (u32 \<Rightarrow> u64) \<Rightarrow> ht \<Rightarrow> ht \<Rightarrow> ht res" where
  "reinsert tb hash [] t = Inr t"
| "reinsert tb hash (e # es) t =
     (if m_id e = no_id then reinsert tb hash es t
      else bindR (TryInsert tb hash t (m_id e) (m_data e)) (\<lambda>(r, _, _, t').
           bindR (TestAssert tb (r = Inserted)) (\<lambda>_. reinsert tb hash es t')))"

definition Resize :: "bool \<Rightarrow> (u32 \<Rightarrow> u64) \<Rightarrow> ht \<Rightarrow> ht res" where
  "Resize tb hash t =
     bindR (ReleaseAssert (length t \<le> 32768)) (\<lambda>_.
     reinsert tb hash t (replicate (length t * 2) empty_entry))"

lemma evict_loop_length:
  "evict_loop tb hash t key val pos rounds = Inr (r, k, v, t') \<Longrightarrow> length t' = length t"
proof (induction tb hash t key val pos rounds rule: evict_loop.induct)
  case (1 tb hash t key val pos rounds)
  show ?case
    using "1.prems" "1.IH"
    by (subst (asm) evict_loop.simps)
      (fastforce simp: Let_def res_simps split: prod.splits if_splits elim!: bindR_InrE)
qed

lemma TryInsert_length:
  "TryInsert tb hash t key val = Inr (r, k, v, t') \<Longrightarrow> length t' = length t"
  by (auto simp: TryInsert_def Let_def split: prod.splits if_splits dest: evict_loop_length)

lemma TryInsert_nonempty: "TryInsert tb hash t key val = Inr x \<Longrightarrow> t \<noteq> []"
  by (auto simp: TryInsert_def)

lemma reinsert_length: "reinsert tb hash es t = Inr t' \<Longrightarrow> length t' = length t"
  by (induction es arbitrary: t)
    (auto split: if_splits elim!: bindR_InrE dest: TryInsert_length)

lemma Resize_length: "Resize tb hash t = Inr t' \<Longrightarrow> length t' = 2 * length t \<and> length t \<le> 32768"
  by (auto simp: Resize_def elim!: bindR_InrE dest: reinsert_length)

lemma TryInsert_Resize_measure:
  assumes "TryInsert tb hash t key val = Inr (r, k, v, t')" and "Resize tb hash t' = Inr t''"
  shows "65537 - length t'' < 65537 - length t"
proof -
  have "length t' = length t" "t \<noteq> []" "length t'' = 2 * length t'" "length t' \<le> 32768"
    using assms by (auto dest: TryInsert_length TryInsert_nonempty Resize_length)
  then show ?thesis by (cases t) auto
qed

text \<open>
  \<open>Insert\<close>: retry after doubling until the pair fits. The table grows by \<open>Resize\<close>, whose
  \<open>ReleaseAssert\<close> stops at 65536 entries, so the loop ends. \<open>resized\<close> is the variable of the code.
\<close>

function Insert_loop ::
  "bool \<Rightarrow> (u32 \<Rightarrow> u64) \<Rightarrow> bool \<Rightarrow> ht \<Rightarrow> u32 \<Rightarrow> u32 \<Rightarrow> (InsertionResult \<times> ht) res" where
  "Insert_loop tb hash resized t key val =
     bindR (TryInsert tb hash t key val) (\<lambda>(r, key', val', t').
     bindR (TestAssert tb (resized \<longrightarrow> r = Inserted)) (\<lambda>_.
     if r \<noteq> Failed then Inr (r, t')
     else bindR (Resize tb hash t') (\<lambda>t''. Insert_loop tb hash True t'' key' val')))"
  by pat_completeness auto
termination
  by (relation "measure (\<lambda>(tb, hash, resized, t, key, val). 65537 - length t)")
    (auto dest: TryInsert_Resize_measure)

declare Insert_loop.simps [simp del]

definition Insert :: "bool \<Rightarrow> (u32 \<Rightarrow> u64) \<Rightarrow> ht \<Rightarrow> u32 \<Rightarrow> u32 \<Rightarrow> (InsertionResult \<times> ht) res" where
  "Insert tb hash t key val = Insert_loop tb hash False t key val"

subsection \<open>Invariant and contents\<close>

definition slotset :: "(u32 \<Rightarrow> u64) \<Rightarrow> nat \<Rightarrow> u32 \<Rightarrow> nat set" where
  "slotset hash n key = {fst (slots hash n key), snd (slots hash n key)}"

definition ht_ok :: "(u32 \<Rightarrow> u64) \<Rightarrow> ht \<Rightarrow> bool" where
  "ht_ok hash t \<longleftrightarrow>
     is_power_of_2 (length t) \<and> length t \<le> 65536 \<and>
     (\<forall>i < length t. m_id (t ! i) \<noteq> no_id \<longrightarrow> i \<in> slotset hash (length t) (m_id (t ! i))) \<and>
     (\<forall>i < length t. \<forall>j < length t.
        m_id (t ! i) = m_id (t ! j) \<longrightarrow> m_id (t ! i) \<noteq> no_id \<longrightarrow> i = j)"

definition ents :: "ht \<Rightarrow> (u32 \<times> u32) set" where
  "ents t = {(m_id e, m_data e) | e. e \<in> set t \<and> m_id e \<noteq> no_id}"

definition keys :: "ht \<Rightarrow> u32 set" where
  "keys t = fst ` ents t"

text \<open>The bindings after \<open>key\<close> has been given the value \<open>val\<close>.\<close>

definition upd :: "(u32 \<times> u32) set \<Rightarrow> u32 \<Rightarrow> u32 \<Rightarrow> (u32 \<times> u32) set" where
  "upd E key val = insert (key, val) {p \<in> E. fst p \<noteq> key}"

lemma mk_entry_simps [simp]: "m_id (mk_entry k v) = k" "m_data (mk_entry k v) = v"
  by (simp_all add: mk_entry_def)

lemma mk_entry_eta [simp]: "mk_entry (m_id e) v = e\<lparr>m_data := v\<rparr>"
  by (simp add: mk_entry_def)

lemma empty_entry_id [simp]: "m_id empty_entry = no_id"
  by (simp add: empty_entry_def)

lemma slots_mod:
  assumes "is_power_of_2 n"
  shows "slots hash n key = (unat (hash key) mod n, unat (drop_bit 16 (hash key)) mod n)"
proof -
  from assms obtain k where n: "n = 2 ^ k" by (auto simp: is_power_of_2_iff)
  show ?thesis unfolding n slots_def Let_def of_nat_mask unat_and_mask ..
qed

lemma slots_lt:
  assumes "is_power_of_2 n"
  shows "fst (slots hash n key) < n" "snd (slots hash n key) < n"
  using is_power_of_2_pos [OF assms] by (simp_all add: slots_mod [OF assms])

lemma slotset_lt: "is_power_of_2 n \<Longrightarrow> i \<in> slotset hash n key \<Longrightarrow> i < n"
  by (auto simp: slotset_def slots_lt)

lemma ht_okD:
  assumes "ht_ok hash t"
  shows ht_ok_pow: "is_power_of_2 (length t)"
    and ht_ok_size: "length t \<le> 65536"
    and ht_ok_slot: "\<And>i. i < length t \<Longrightarrow> m_id (t ! i) \<noteq> no_id \<Longrightarrow> i \<in> slotset hash (length t) (m_id (t ! i))"
    and ht_ok_inj: "\<And>i j. i < length t \<Longrightarrow> j < length t \<Longrightarrow> m_id (t ! i) = m_id (t ! j) \<Longrightarrow>
                      m_id (t ! i) \<noteq> no_id \<Longrightarrow> i = j"
  using assms by (auto simp: ht_ok_def)

lemma in_ents_iff: "(k, v) \<in> ents t \<longleftrightarrow> k \<noteq> no_id \<and> (\<exists>i < length t. m_id (t ! i) = k \<and> m_data (t ! i) = v)"
  by (auto simp: ents_def in_set_conv_nth)

lemma in_keys_iff: "k \<in> keys t \<longleftrightarrow> k \<noteq> no_id \<and> (\<exists>i < length t. m_id (t ! i) = k)"
proof -
  have "k \<in> keys t \<longleftrightarrow> (\<exists>v. (k, v) \<in> ents t)"
    by (force simp: keys_def)
  then show ?thesis by (auto simp: in_ents_iff)
qed

lemma ents_functional:
  "ht_ok hash t \<Longrightarrow> (k, v) \<in> ents t \<Longrightarrow> (k, w) \<in> ents t \<Longrightarrow> v = w"
  by (metis in_ents_iff ht_ok_inj)

lemma ents_restore:
  assumes ok: "ht_ok hash t" and kv: "(k, v) \<in> ents t"
  shows "insert (k, v) {p \<in> ents t. fst p \<noteq> k} = ents t"
proof (rule set_eqI)
  fix p :: "u32 \<times> u32"
  obtain a b where p: "p = (a, b)" by fastforce
  have "(a, b) \<in> ents t \<Longrightarrow> a = k \<Longrightarrow> b = v"
    using ents_functional [OF ok] kv by blast
  then show "p \<in> insert (k, v) {p \<in> ents t. fst p \<noteq> k} \<longleftrightarrow> p \<in> ents t"
    using kv unfolding p by (cases "a = k") auto
qed

text \<open>Overwriting one slot that belongs to the key keeps the invariant when the key is nowhere else.\<close>

lemma ht_ok_put:
  assumes ok: "ht_ok hash t" and i: "i \<in> slotset hash (length t) key"
    and new: "\<And>j. j < length t \<Longrightarrow> j \<noteq> i \<Longrightarrow> m_id (t ! j) \<noteq> key"
  shows "ht_ok hash (t[i := mk_entry key val])"
proof -
  have "i < length t" using i ht_ok_pow [OF ok] by (rule slotset_lt [rotated])
  then show ?thesis
    using ok i new by (auto simp: ht_ok_def nth_list_update)
qed

lemma ents_put:
  assumes ok: "ht_ok hash t" and i: "i < length t" and key: "key \<noteq> no_id"
  shows "ents (t[i := mk_entry key val]) = insert (key, val) {p \<in> ents t. fst p \<noteq> m_id (t ! i)}"
proof (rule set_eqI)
  fix p :: "u32 \<times> u32"
  obtain k v where p: "p = (k, v)" by fastforce
  show "p \<in> ents (t[i := mk_entry key val]) \<longleftrightarrow>
        p \<in> insert (key, val) {p \<in> ents t. fst p \<noteq> m_id (t ! i)}"
  proof -
    have "(\<exists>j < length t. j \<noteq> i \<and> m_id (t ! j) = k \<and> m_data (t ! j) = v) \<longleftrightarrow>
          (\<exists>j < length t. m_id (t ! j) = k \<and> m_data (t ! j) = v) \<and> k \<noteq> m_id (t ! i)" if "k \<noteq> no_id"
      using that i ht_ok_inj [OF ok] by metis
    then show ?thesis
      using i key unfolding p by (auto simp: in_ents_iff nth_list_update)
  qed
qed

lemma ht_ok_replicate:
  "is_power_of_2 n \<Longrightarrow> n \<le> 65536 \<Longrightarrow> ht_ok hash (replicate n empty_entry)"
  by (simp add: ht_ok_def)

lemma ents_replicate [simp]: "ents (replicate n empty_entry) = {}"
  by (auto simp: ents_def)

lemma new_table_ok: "ht_ok hash new_table"
  using ht_ok_replicate [of 1 hash] by (simp add: new_table_def)

lemma ents_new_table [simp]: "ents new_table = {}"
  using ents_replicate [of 1] by (simp add: new_table_def)

subsection \<open>Insertion keeps the invariant and updates the bindings\<close>

text \<open>
  The other slot of an entry that sits at \<open>pos\<close>: the pair \<open>(h1, h2)\<close> of the eviction loop, with
  \<open>h2 = pos\<close> (the \<open>TestAssert\<close> of the loop) and \<open>h1\<close> a slot of the victim.
\<close>

lemma swap_slots:
  assumes "pos \<in> slotset hash n k" and "slots hash n k = (g1, g2)"
    and "(h1, h2) = (if g1 = pos then (g2, g1) else (g1, g2))"
  shows "h2 = pos" and "h1 \<in> slotset hash n k"
  using assms by (auto simp: slotset_def split: if_splits)

text \<open>
  The contract of \<open>evict_loop\<close> and \<open>TryInsert\<close>: which pair is bound, and which one is left over,
  when \<open>(key, val)\<close> was to be added to a table with bindings \<open>E\<close>.
\<close>

definition insert_post ::
  "(u32 \<Rightarrow> u64) \<Rightarrow> (u32 \<times> u32) set \<Rightarrow> u32 \<Rightarrow> u32 \<Rightarrow> InsertionResult \<Rightarrow> u32 \<Rightarrow> u32 \<Rightarrow> ht \<Rightarrow> bool" where
  "insert_post hash E key val r k v t' \<longleftrightarrow>
     ht_ok hash t' \<and>
     (r \<noteq> Failed \<longrightarrow> ents t' = upd E key val) \<and>
     (r = Failed \<longrightarrow> key \<notin> fst ` E \<and> k \<noteq> no_id \<and> k \<notin> keys t' \<and> insert (k, v) (ents t') = insert (key, val) E)"

lemma upd_new: "key \<notin> fst ` E \<Longrightarrow> upd E key val = insert (key, val) E"
  by (force simp: upd_def)

lemma evict_loop_unfold:
  assumes "slots hash (length t) (m_id (t ! pos)) = (g1, g2)"
    and "(h1, h2) = (if g1 = pos then (g2, g1) else (g1, g2))" and "h2 = pos"
  shows "evict_loop tb hash t key val pos rounds =
     (let t1 = t[pos := mk_entry key val]
      in if m_id (t1 ! h1) = no_id
         then Inr (Inserted, key, val, t1[h1 := mk_entry (m_id (t ! pos)) (m_data (t ! pos))])
         else if rounds + 1 > 30 then Inr (Failed, m_id (t ! pos), m_data (t ! pos), t1)
         else evict_loop tb hash t1 (m_id (t ! pos)) (m_data (t ! pos)) h1 (rounds + 1))"
proof (cases "g1 = pos")
  case True
  then have "h1 = g2" using assms(2) by simp
  then show ?thesis
    unfolding evict_loop.simps [of tb hash t key val pos rounds] Let_def
    using True assms(1) by (simp add: TestAssert_def)
next
  case False
  then have "h1 = g1" "g2 = pos" using assms(2,3) by simp_all
  then show ?thesis
    unfolding evict_loop.simps [of tb hash t key val pos rounds] Let_def
    using False assms(1) by (simp add: TestAssert_def)
qed

lemma evict_loop_post:
  assumes "ht_ok hash t" and "key \<noteq> no_id" and "key \<notin> keys t"
    and "pos \<in> slotset hash (length t) key" and "m_id (t ! pos) \<noteq> no_id"
  shows "\<exists>r k v t'. evict_loop tb hash t key val pos rounds = Inr (r, k, v, t') \<and> r \<noteq> Found \<and>
           insert_post hash (ents t) key val r k v t'"
  using assms
proof (induction "31 - rounds" arbitrary: t key val pos rounds rule: less_induct)
  case less
  define vk where "vk = m_id (t ! pos)"
  define vv where "vv = m_data (t ! pos)"
  define t1 where "t1 = t[pos := mk_entry key val]"
  obtain g1 g2 where g: "slots hash (length t1) vk = (g1, g2)" by fastforce
  obtain h1 h2 where h: "(h1, h2) = (if g1 = pos then (g2, g1) else (g1, g2))"
    by (cases "g1 = pos") auto
  note ok = less.prems(1) and key = less.prems(2,3)
  have pos: "pos < length t" by (rule slotset_lt [OF ht_ok_pow [OF ok] less.prems(4)])
  have other: "\<And>j. j < length t \<Longrightarrow> m_id (t ! j) \<noteq> key"
    using key by (auto simp: in_keys_iff)
  have vk: "vk \<noteq> no_id" "vk \<noteq> key" using less.prems(5) other [OF pos] by (simp_all add: vk_def)
  have len: "length t1 = length t" by (simp add: t1_def)
  have ok1: "ht_ok hash t1" unfolding t1_def using ok less.prems(4) other by (blast intro: ht_ok_put)
  have pos_vk: "pos \<in> slotset hash (length t1) vk"
    using ht_ok_slot [OF ok pos] less.prems(5) by (simp add: vk_def len)
  note h12 = swap_slots [OF pos_vk g h]
  have ents1: "ents t1 = insert (key, val) {p \<in> ents t. fst p \<noteq> vk}"
    unfolding t1_def vk_def by (rule ents_put [OF ok pos key(1)])
  have vic: "(vk, vv) \<in> ents t" using pos vk by (auto simp: in_ents_iff vk_def vv_def)
  have whole: "insert (vk, vv) (ents t1) = insert (key, val) (ents t)"
    unfolding ents1 by (subst insert_commute) (simp only: ents_restore [OF ok vic])
  have fresh: "vk \<notin> keys t1" using vk by (auto simp: keys_def ents1)
  have unfold: "evict_loop tb hash t key val pos rounds =
     (if m_id (t1 ! h1) = no_id then Inr (Inserted, key, val, t1[h1 := mk_entry vk vv])
      else if rounds + 1 > 30 then Inr (Failed, vk, vv, t1)
      else evict_loop tb hash t1 vk vv h1 (rounds + 1))"
    using evict_loop_unfold [of hash t pos g1 g2 h1 h2 tb key val rounds] g h h12(1)
    by (simp add: Let_def t1_def vk_def vv_def)
  have knew: "key \<notin> fst ` ents t" using key by (simp add: keys_def)
  consider (ins) "m_id (t1 ! h1) = no_id" | (fail) "m_id (t1 ! h1) \<noteq> no_id" "rounds + 1 > 30"
    | (rec) "m_id (t1 ! h1) \<noteq> no_id" "\<not> rounds + 1 > 30" by blast
  then show ?case
  proof cases
    case ins
    have h1: "h1 < length t1" using h12(2) ht_ok_pow [OF ok1] by (rule slotset_lt [rotated])
    have "ht_ok hash (t1[h1 := mk_entry vk vv])"
      using ok1 h12(2) fresh vk by (intro ht_ok_put) (auto simp: in_keys_iff)
    moreover have "ents (t1[h1 := mk_entry vk vv]) = insert (vk, vv) (ents t1)"
      using ents_put [OF ok1 h1 vk(1)] ins by (auto simp: in_ents_iff)
    ultimately show ?thesis
      using ins whole by (simp add: unfold insert_post_def upd_new [OF knew])
  next
    case fail
    then show ?thesis using ok1 vk fresh whole knew by (simp add: unfold insert_post_def)
  next
    case rec
    have "31 - (rounds + 1) < 31 - rounds" using rec by simp
    from less.hyps [OF this ok1 vk(1) fresh h12(2) rec(1)]
    obtain r k v t' where r: "evict_loop tb hash t1 vk vv h1 (rounds + 1) = Inr (r, k, v, t')"
      "r \<noteq> Found" "insert_post hash (ents t1) vk vv r k v t'" by blast
    moreover have "upd (ents t1) vk vv = upd (ents t) key val"
      using fresh knew whole by (simp add: upd_new keys_def)
    ultimately show ?thesis using rec whole knew by (simp add: unfold insert_post_def)
  qed
qed

lemma ents_set_data:
  assumes ok: "ht_ok hash t" and i: "i < length t" and key: "m_id (t ! i) = key" "key \<noteq> no_id"
  shows "ht_ok hash (t[i := (t ! i)\<lparr>m_data := val\<rparr>])"
    and "ents (t[i := (t ! i)\<lparr>m_data := val\<rparr>]) = upd (ents t) key val"
proof -
  have e: "(t ! i)\<lparr>m_data := val\<rparr> = mk_entry key val" using key by (simp add: mk_entry_def)
  have "i \<in> slotset hash (length t) key" using ht_ok_slot [OF ok i] key by simp
  then show "ht_ok hash (t[i := (t ! i)\<lparr>m_data := val\<rparr>])"
    unfolding e using ok key i ht_ok_inj [OF ok] by (intro ht_ok_put) auto
  show "ents (t[i := (t ! i)\<lparr>m_data := val\<rparr>]) = upd (ents t) key val"
    unfolding e upd_def using ents_put [OF ok i key(2)] key(1) by simp
qed

lemma not_in_slots_not_in_keys:
  assumes "ht_ok hash t" and "slots hash (length t) key = (h1, h2)"
    and "m_id (t ! h1) \<noteq> key" and "m_id (t ! h2) \<noteq> key"
  shows "key \<notin> keys t"
proof
  assume "key \<in> keys t"
  then obtain i where i: "i < length t" "m_id (t ! i) = key" "key \<noteq> no_id" by (auto simp: in_keys_iff)
  then have "i \<in> slotset hash (length t) key" using ht_ok_slot [OF assms(1)] by blast
  then have "i = h1 \<or> i = h2" using assms(2) by (simp add: slotset_def)
  with i assms(3,4) show False by auto
qed

lemma ents_fill:
  assumes ok: "ht_ok hash t" and i: "i \<in> slotset hash (length t) key" and key: "key \<noteq> no_id" "key \<notin> keys t"
    and free: "m_id (t ! i) = no_id"
  shows "ht_ok hash (t[i := mk_entry key val])" and "ents (t[i := mk_entry key val]) = upd (ents t) key val"
proof -
  have lt: "i < length t" using i ht_ok_pow [OF ok] by (rule slotset_lt [rotated])
  show "ht_ok hash (t[i := mk_entry key val])"
    using ok i key by (intro ht_ok_put) (auto simp: in_keys_iff)
  have "{p \<in> ents t. fst p \<noteq> no_id} = ents t" by (auto simp: in_ents_iff)
  then show "ents (t[i := mk_entry key val]) = upd (ents t) key val"
    using ents_put [OF ok lt key(1)] free key(2) by (simp add: upd_new keys_def)
qed

text \<open>
  \<open>TryInsert\<close> never fails an assertion on a well-formed table, and reports \<open>Found\<close> exactly when the
  key was bound.
\<close>

lemma TryInsert_post:
  assumes ok: "ht_ok hash t" and key: "key \<noteq> no_id"
  shows "\<exists>r k v t'. TryInsert tb hash t key val = Inr (r, k, v, t') \<and>
           (r = Found \<longleftrightarrow> key \<in> keys t) \<and> insert_post hash (ents t) key val r k v t'"
proof -
  obtain h1 h2 where h: "slots hash (length t) key = (h1, h2)" by fastforce
  have ne: "t \<noteq> []" using ht_ok_pow [OF ok] by auto
  have lt: "h1 < length t" "h2 < length t" using slots_lt [OF ht_ok_pow [OF ok], of hash key] h by simp_all
  have sl: "h1 \<in> slotset hash (length t) key" "h2 \<in> slotset hash (length t) key"
    using h by (simp_all add: slotset_def)
  have unfold: "TryInsert tb hash t key val =
      (if m_id (t ! h1) = key then Inr (Found, key, val, t[h1 := (t ! h1)\<lparr>m_data := val\<rparr>])
       else if m_id (t ! h2) = key then Inr (Found, key, val, t[h2 := (t ! h2)\<lparr>m_data := val\<rparr>])
       else if m_id (t ! h1) = no_id then Inr (Inserted, key, val, t[h1 := mk_entry key val])
       else if m_id (t ! h2) = no_id then Inr (Inserted, key, val, t[h2 := mk_entry key val])
       else evict_loop tb hash t key val h1 1)"
    using ne by (simp add: TryInsert_def h)
  consider (a) "m_id (t ! h1) = key" | (b) "m_id (t ! h1) \<noteq> key" "m_id (t ! h2) = key"
    | (c) "m_id (t ! h1) \<noteq> key" "m_id (t ! h2) \<noteq> key" by blast
  then show ?thesis
  proof cases
    case a
    then have "key \<in> keys t" using lt key by (auto simp: in_keys_iff)
    with a key ents_set_data [OF ok lt(1) a key] show ?thesis by (simp add: unfold insert_post_def)
  next
    case b
    then have "key \<in> keys t" using lt key by (auto simp: in_keys_iff)
    with b key ents_set_data [OF ok lt(2) b(2) key] show ?thesis by (simp add: unfold insert_post_def)
  next
    case c
    note new = not_in_slots_not_in_keys [OF ok h c]
    show ?thesis
    proof (cases "m_id (t ! h1) = no_id \<or> m_id (t ! h2) = no_id")
      case True
      then show ?thesis
        using c new ents_fill [OF ok sl(1) key new] ents_fill [OF ok sl(2) key new]
        by (auto simp: unfold insert_post_def)
    next
      case False
      then show ?thesis
        using c new evict_loop_post [OF ok key new sl(1), of tb val 1] by (auto simp: unfold)
    qed
  qed
qed

lemma TryInsert_Inr:
  assumes "ht_ok hash t" and "key \<noteq> no_id" and "TryInsert tb hash t key val = Inr (r, k, v, t')"
  shows "insert_post hash (ents t) key val r k v t'" and "r = Found \<longleftrightarrow> key \<in> keys t"
  using TryInsert_post [OF assms(1,2), of tb val] assms(3) by auto

lemma insert_post_ok: "insert_post hash E key val r k v t' \<Longrightarrow> ht_ok hash t'"
  by (simp add: insert_post_def)

lemma ents_Cons: "ents (e # es) = (if m_id e = no_id then {} else {(m_id e, m_data e)}) \<union> ents es"
  by (auto simp: ents_def)

lemma reinsert_post:
  assumes "reinsert True hash es t = Inr t'" and "ht_ok hash t"
  shows "ht_ok hash t' \<and> ents t' = ents t \<union> ents es"
  using assms
proof (induction es arbitrary: t)
  case Nil
  then show ?case by (simp add: ents_def)
next
  case (Cons e es)
  show ?case
  proof (cases "m_id e = no_id")
    case True
    with Cons show ?thesis by (simp add: ents_Cons)
  next
    case False
    with Cons.prems obtain k v t1 where
      t1: "TryInsert True hash t (m_id e) (m_data e) = Inr (Inserted, k, v, t1)"
      and rest: "reinsert True hash es t1 = Inr t'"
      by (auto elim!: bindR_InrE)
    note post = TryInsert_Inr [OF Cons.prems(2) False t1]
    have new: "m_id e \<notin> fst ` ents t" using post(2) by (simp add: keys_def)
    have "ents t1 = insert (m_id e, m_data e) (ents t)"
      using post(1) by (simp add: insert_post_def upd_new [OF new])
    with Cons.IH [OF rest insert_post_ok [OF post(1)]] False show ?thesis
      by (auto simp: ents_Cons)
  qed
qed

lemma Resize_post:
  assumes "Resize True hash t = Inr t'" and ok: "ht_ok hash t"
  shows "ht_ok hash t' \<and> ents t' = ents t"
proof -
  have re: "reinsert True hash t (replicate (length t * 2) empty_entry) = Inr t'" and len: "length t \<le> 32768"
    using assms(1) by (auto simp: Resize_def elim!: bindR_InrE)
  have "ht_ok hash (replicate (length t * 2) empty_entry)"
    using is_power_of_2_double [OF ht_ok_pow [OF ok]] len
    by (intro ht_ok_replicate) (simp_all add: mult.commute)
  from reinsert_post [OF re this] show ?thesis by simp
qed

lemma Insert_loop_post:
  assumes "Insert_loop True hash resized t key val = Inr (r, t')" and "ht_ok hash t" and "key \<noteq> no_id"
  shows "ht_ok hash t' \<and> ents t' = upd (ents t) key val"
  using assms
proof (induction "65537 - length t" arbitrary: resized t key val rule: less_induct)
  case less
  obtain r1 k v t1 where t1: "TryInsert True hash t key val = Inr (r1, k, v, t1)"
    using TryInsert_post [OF less.prems(2,3), of True val] by blast
  note post = TryInsert_Inr(1) [OF less.prems(2,3) t1]
  show ?case
  proof (cases "r1 = Failed")
    case False
    then have "t' = t1" using less.prems(1) t1
      by (subst (asm) Insert_loop.simps) (auto elim!: bindR_InrE)
    then show ?thesis using post False by (simp add: insert_post_def)
  next
    case True
    then obtain t2 where t2: "Resize True hash t1 = Inr t2" "Insert_loop True hash True t2 k v = Inr (r, t')"
      using less.prems(1) t1 by (subst (asm) Insert_loop.simps) (auto elim!: bindR_InrE)
    have k: "key \<notin> fst ` ents t" "k \<noteq> no_id" "k \<notin> keys t1" "insert (k, v) (ents t1) = insert (key, val) (ents t)"
      using post True by (simp_all add: insert_post_def)
    note t2' = Resize_post [OF t2(1) insert_post_ok [OF post]]
    have "ht_ok hash t' \<and> ents t' = upd (ents t2) k v"
      using less.hyps [OF TryInsert_Resize_measure [OF t1 t2(1)] t2(2)] t2' k(2) by blast
    moreover have "upd (ents t2) k v = upd (ents t) key val"
      using t2' k by (simp add: upd_new keys_def)
    ultimately show ?thesis by simp
  qed
qed

text \<open>
  In either build, insertion never invents or changes a binding: what the table holds afterwards are bindings it
  should hold. A release build, which goes on when an entry cannot be reinserted into the doubled table, may have
  lost some.
\<close>

lemma reinsert_sub:
  assumes "ht_ok hash t"
  shows "case reinsert tb hash es t of Inl err \<Rightarrow> tb \<and> err = TestAssertFailed | Inr t' \<Rightarrow> ht_ok hash t' \<and> ents t' \<subseteq> ents t \<union> ents es"
  using assms
proof (induction es arbitrary: t)
  case (Cons e es)
  show ?case
  proof (cases "m_id e = no_id")
    case True
    then show ?thesis using Cons.IH [OF Cons.prems] by (simp add: ents_Cons split: sum.splits)
  next
    case False
    obtain r k v t1 where t1: "TryInsert tb hash t (m_id e) (m_data e) = Inr (r, k, v, t1)"
      using TryInsert_post [OF Cons.prems False, of tb "m_data e"] by blast
    note post = TryInsert_Inr(1) [OF Cons.prems False t1]
    have "ents t1 \<subseteq> insert (m_id e, m_data e) (ents t)" using post by (auto simp: insert_post_def upd_def)
    then show ?thesis using Cons.IH [OF insert_post_ok [OF post]] t1 False
      by (auto simp: ents_Cons TestAssert_def split: sum.splits)
  qed
qed simp

lemma Resize_sub:
  assumes ok: "ht_ok hash t"
  shows "case Resize tb hash t of Inl err \<Rightarrow> err = ReleaseAssertFailed \<or> tb \<and> err = TestAssertFailed
     | Inr t' \<Rightarrow> ht_ok hash t' \<and> ents t' \<subseteq> ents t"
proof (cases "length t \<le> 32768")
  case True
  have "ht_ok hash (replicate (length t * 2) empty_entry)"
    using is_power_of_2_double [OF ht_ok_pow [OF ok]] True by (intro ht_ok_replicate) (simp_all add: mult.commute)
  from reinsert_sub [OF this, of tb t] show ?thesis using True by (auto simp: Resize_def ReleaseAssert_def split: sum.splits)
qed (simp add: Resize_def ReleaseAssert_def)

lemma Insert_loop_sub:
  assumes "ht_ok hash t" and "key \<noteq> no_id"
  shows "case Insert_loop tb hash resized t key val of Inl err \<Rightarrow> err = ReleaseAssertFailed \<or> tb \<and> err = TestAssertFailed
     | Inr (r, t') \<Rightarrow> ht_ok hash t' \<and> ents t' \<subseteq> upd (ents t) key val"
  using assms
proof (induction "65537 - length t" arbitrary: resized t key val rule: less_induct)
  case less
  obtain r1 k v t1 where t1: "TryInsert tb hash t key val = Inr (r1, k, v, t1)"
    using TryInsert_post [OF less.prems, of tb val] by blast
  note post = TryInsert_Inr(1) [OF less.prems t1]
  note unfold = Insert_loop.simps [of tb hash resized t key val]
  show ?case
  proof (cases "r1 = Failed")
    case False
    then show ?thesis using t1 post by (auto simp: unfold TestAssert_def insert_post_def)
  next
    case True
    have k: "key \<notin> fst ` ents t" "k \<noteq> no_id" "k \<notin> keys t1" "insert (k, v) (ents t1) = insert (key, val) (ents t)"
      using post True by (simp_all add: insert_post_def)
    note res = Resize_sub [OF insert_post_ok [OF post], of tb]
    show ?thesis
    proof (cases "Resize tb hash t1")
      case (Inl err)
      then show ?thesis using t1 True res by (auto simp: unfold TestAssert_def)
    next
      case (Inr t2)
      then have t2: "ht_ok hash t2" "ents t2 \<subseteq> ents t1" using res by simp_all
      note IH = less.hyps [OF TryInsert_Resize_measure [OF t1 Inr] t2(1) k(2), where resized = True and val = v]
      have "upd (ents t2) k v \<subseteq> upd (ents t) key val"
        using t2(2) k(4) unfolding upd_new [OF k(1)] by (auto simp: upd_def)
      then show ?thesis using t1 True Inr IH by (auto simp: unfold TestAssert_def split: sum.splits prod.splits)
    qed
  qed
qed

text \<open>
  A run of a test build that passes its assertions is a run of the release build with the same
  result: the assertions only stop the process.
\<close>

lemma evict_loop_release:
  "evict_loop True hash t key val pos rounds = Inr x \<Longrightarrow> evict_loop False hash t key val pos rounds = Inr x"
proof (induction "31 - rounds" arbitrary: t key val pos rounds rule: less_induct)
  case less
  let ?vk = "m_id (t ! pos)"
  obtain g1 g2 where g: "slots hash (length t) ?vk = (g1, g2)" by fastforce
  obtain h1 h2 where h: "(h1, h2) = (if g1 = pos then (g2, g1) else (g1, g2))" by (cases "g1 = pos") auto
  have h2: "h2 = pos"
    using less.prems h g by (subst (asm) evict_loop.simps) (auto simp: Let_def elim!: bindR_InrE split: if_splits)
  note unfold = evict_loop_unfold [OF g h h2, unfolded Let_def]
  show ?case
    using less.prems less.hyps [of "rounds + 1"] unfolding unfold by (auto split: if_splits)
qed

lemma TryInsert_release:
  "TryInsert True hash t key val = Inr x \<Longrightarrow> TryInsert False hash t key val = Inr x"
  using evict_loop_release [of hash t key val "fst (slots hash (length t) key)" 1 x]
  unfolding TryInsert_def Let_def case_prod_beta by (auto simp only: split: if_splits)

lemma reinsert_release: "reinsert True hash es t = Inr x \<Longrightarrow> reinsert False hash es t = Inr x"
proof (induction es arbitrary: t)
  case (Cons e es)
  then show ?case
    by (auto split: if_splits elim!: bindR_InrE dest!: TryInsert_release)
qed simp

lemma Resize_release: "Resize True hash t = Inr x \<Longrightarrow> Resize False hash t = Inr x"
  by (auto simp: Resize_def ReleaseAssert_def elim!: bindR_InrE dest: reinsert_release split: if_splits)

lemma Insert_loop_release:
  "Insert_loop True hash resized t key val = Inr x \<Longrightarrow> Insert_loop False hash resized t key val = Inr x"
proof (induction "65537 - length t" arbitrary: resized t key val rule: less_induct)
  case less
  from less.prems obtain r k v t1 where t1: "TryInsert True hash t key val = Inr (r, k, v, t1)"
    and cont: "(if r \<noteq> Failed then Inr (r, t1)
               else bindR (Resize True hash t1) (\<lambda>t''. Insert_loop True hash True t'' k v)) = Inr x"
    by (subst (asm) Insert_loop.simps) (auto elim!: bindR_InrE)
  have "(if r \<noteq> Failed then Inr (r, t1)
         else bindR (Resize False hash t1) (\<lambda>t''. Insert_loop False hash True t'' k v)) = Inr x"
  proof (cases "r = Failed")
    case True
    with cont obtain t2 where t2: "Resize True hash t1 = Inr t2" "Insert_loop True hash True t2 k v = Inr x"
      by (auto elim!: bindR_InrE)
    from less.hyps [OF TryInsert_Resize_measure [OF t1 t2(1)] t2(2)] Resize_release [OF t2(1)] True
    show ?thesis by simp
  qed (use cont in simp)
  then show ?case
    using TryInsert_release [OF t1] by (subst Insert_loop.simps) simp
qed

subsection \<open>Lookup\<close>

definition ht_lookup :: "(u32 \<Rightarrow> u64) \<Rightarrow> ht \<Rightarrow> u32 \<Rightarrow> u32 option" where
  "ht_lookup hash t key =
     (let (h1, h2) = slots hash (length t) key
      in if m_id (t ! h1) = key then Some (m_data (t ! h1))
         else if m_id (t ! h2) = key then Some (m_data (t ! h2))
         else None)"

lemma ht_lookup_iff:
  assumes ok: "ht_ok hash t" and key: "key \<noteq> no_id"
  shows "ht_lookup hash t key = Some v \<longleftrightarrow> (key, v) \<in> ents t"
proof -
  obtain h1 h2 where h: "slots hash (length t) key = (h1, h2)" by fastforce
  have lt: "h1 < length t" "h2 < length t" using slots_lt [OF ht_ok_pow [OF ok], of hash key] h by simp_all
  show ?thesis
  proof (cases "key \<in> keys t")
    case True
    then obtain i where i: "i < length t" "m_id (t ! i) = key" by (auto simp: in_keys_iff)
    then have "i = h1 \<or> i = h2" using ht_ok_slot [OF ok i(1)] key h by (simp add: slotset_def)
    moreover have "(key, v) \<in> ents t \<longleftrightarrow> m_data (t ! i) = v"
      using i key ht_ok_inj [OF ok] by (metis in_ents_iff)
    ultimately show ?thesis
      using i lt key ht_ok_inj [OF ok] by (auto simp: ht_lookup_def h)
  next
    case False
    then have "m_id (t ! h1) \<noteq> key" "m_id (t ! h2) \<noteq> key" "(key, v) \<notin> ents t"
      using lt key by (auto simp: in_keys_iff in_ents_iff)
    then show ?thesis by (simp add: ht_lookup_def h)
  qed
qed

lemma ht_lookup_upd:
  assumes "ht_ok hash t" and "ht_ok hash t'" and "ents t' = upd (ents t) key val" and "k \<noteq> no_id"
  shows "ht_lookup hash t' k = ((ht_lookup hash t)(key \<mapsto> val)) k"
proof -
  have "ht_lookup hash t' k = Some v \<longleftrightarrow> ((ht_lookup hash t)(key \<mapsto> val)) k = Some v" for v
    using assms by (auto simp: ht_lookup_iff upd_def)
  then show ?thesis by (metis option.exhaust)
qed

text \<open>\<open>SOMClass::GetMethod\<close>: a 32-bit hash and the 16-bit mask stored in the class.\<close>

record SOMUniquedString =
  us_id :: u32
  us_hash :: u32

definition GetMethod :: "u16 \<Rightarrow> ht \<Rightarrow> SOMUniquedString \<Rightarrow> u32" where
  "GetMethod methodHtMask methodHt name =
     (let slot1 = unat (us_hash name AND ucast methodHtMask);
          slot2 = unat (drop_bit 16 (us_hash name) AND ucast methodHtMask)
      in if m_id (methodHt ! slot1) = us_id name then m_data (methodHt ! slot1)
         else if m_id (methodHt ! slot2) = us_id name then m_data (methodHt ! slot2)
         else 0)"

lemma ucast_mask16: "k \<le> 16 \<Longrightarrow> ucast (of_nat (2 ^ k - 1) :: u16) = (mask k :: u32)"
  unfolding of_nat_mask by (rule bit_word_eqI) (auto simp: bit_simps)

lemma unat_ucast32: "unat (ucast (h :: u64) :: u32) = unat h mod 2 ^ 32"
  unfolding unsigned_ucast_eq take_bit_eq_mod by simp

lemma unat_drop16:
  "unat (drop_bit 16 (w :: u64)) = unat w div 2 ^ 16" "unat (drop_bit 16 (v :: u32)) = unat v div 2 ^ 16"
  unfolding drop_bit_eq_div by (simp_all add: unat_div)

lemma slots_32bit:
  fixes h :: u64
  assumes "k \<le> 16"
  shows "unat ((ucast h :: u32) AND mask k) = unat h mod 2 ^ k"
    and "unat (drop_bit 16 (ucast h :: u32) AND mask k) = unat (drop_bit 16 h) mod 2 ^ k"
proof -
  have "k \<le> 32" using assms by simp
  then have "(2::nat) ^ k dvd 2 ^ 32" "(2::nat) ^ k dvd 2 ^ 16"
    using assms by (blast intro: le_imp_power_dvd)+
  then have m: "unat h mod 2 ^ 32 mod 2 ^ k = unat h mod 2 ^ k"
    "unat h div 2 ^ 16 mod 2 ^ 16 mod 2 ^ k = unat h div 2 ^ 16 mod 2 ^ k"
    by (simp_all only: mod_mod_cancel)
  have d: "unat h mod 2 ^ 32 div 2 ^ 16 = unat h div 2 ^ 16 mod 2 ^ 16"
    using mod_mult2_eq [of "unat h" "2 ^ 16" "2 ^ 16"] by simp
  show "unat ((ucast h :: u32) AND mask k) = unat h mod 2 ^ k"
    unfolding unat_and_mask unat_ucast32 by (rule m(1))
  show "unat (drop_bit 16 (ucast h :: u32) AND mask k) = unat (drop_bit 16 h) mod 2 ^ k"
    unfolding unat_and_mask unat_drop16 unat_ucast32 d by (rule m(2))
qed

definition ptr_or_null :: "u32 option \<Rightarrow> u32" where
  "ptr_or_null p = (case p of None \<Rightarrow> 0 | Some v \<Rightarrow> v)"

lemma GetMethod_lookup:
  assumes ok: "ht_ok hash t"
  shows "GetMethod (of_nat (length t - 1)) t \<lparr>us_id = key, us_hash = ucast (hash key)\<rparr> =
         ptr_or_null (ht_lookup hash t key)"
proof -
  from ht_ok_pow [OF ok] obtain k where k: "length t = 2 ^ k" by (auto simp: is_power_of_2_iff)
  have "(2::nat) ^ k \<le> 2 ^ 16" using ht_ok_size [OF ok] k by simp
  then have k16: "k \<le> 16" by (rule power_le_imp_le_exp [rotated]) simp
  have us_sel: "us_id \<lparr>us_id = i, us_hash = h\<rparr> = i" "us_hash \<lparr>us_id = i, us_hash = h\<rparr> = h" for i h
    by simp_all
  show ?thesis
    unfolding GetMethod_def ht_lookup_def ptr_or_null_def slots_mod [OF ht_ok_pow [OF ok]]
    unfolding k ucast_mask16 [OF k16] us_sel slots_32bit [OF k16] by (simp add: Let_def)
qed

subsection \<open>The method dictionary a class relies on\<close>

text \<open>
  What class creation needs of the table: an insertion that succeeds changes the binding of one
  key, and nothing else. The bindings of a class are then those of its superclass overridden by
  the methods of the class, the later of two methods with the same selector winning. In a release build the
  weaker contract \<open>lossy_dict\<close> holds, which allows bindings to be lost.
\<close>

locale lossy_dict =
  fixes lookup :: "'t \<Rightarrow> 'k \<Rightarrow> 'v option"
    and ins :: "'t \<Rightarrow> 'k \<Rightarrow> 'v \<Rightarrow> 't res"
    and ok :: "'t \<Rightarrow> bool"
    and is_key :: "'k \<Rightarrow> bool"
  assumes ins_ok: "ok t \<Longrightarrow> is_key k \<Longrightarrow> ins t k v = Inr t' \<Longrightarrow> ok t'"
    and ins_some: "ok t \<Longrightarrow> is_key k \<Longrightarrow> ins t k v = Inr t' \<Longrightarrow> is_key j \<Longrightarrow>
                     lookup t' j = None \<or> lookup t' j = ((lookup t)(k \<mapsto> v)) j"
begin

primrec ins_all :: "('k \<times> 'v) list \<Rightarrow> 't \<Rightarrow> 't res" where
  "ins_all [] t = Inr t"
| "ins_all (kv # kvs) t = bindR (ins t (fst kv) (snd kv)) (ins_all kvs)"

lemma ins_all_ok:
  "ok t \<Longrightarrow> list_all (is_key \<circ> fst) kvs \<Longrightarrow> ins_all kvs t = Inr t' \<Longrightarrow> ok t'"
  by (induction kvs arbitrary: t) (auto elim!: bindR_InrE dest: ins_ok)

lemma ins_all_some:
  assumes "ok t" and "list_all (is_key \<circ> fst) kvs" and "ins_all kvs t = Inr t'" and "is_key j"
  shows "lookup t' j = None \<or> lookup t' j = (lookup t ++ map_of (rev kvs)) j"
  using assms
proof (induction kvs arbitrary: t)
  case (Cons kv kvs)
  from Cons.prems obtain t1 where t1: "ins t (fst kv) (snd kv) = Inr t1" "ins_all kvs t1 = Inr t'"
    by (auto elim!: bindR_InrE)
  have "ok t1" using Cons.prems t1 by (auto dest: ins_ok)
  then have "lookup t' j = None \<or> lookup t' j = (lookup t1 ++ map_of (rev kvs)) j"
    using Cons t1 by auto
  moreover have "lookup t1 j = None \<or> lookup t1 j = ((lookup t)(fst kv \<mapsto> snd kv)) j"
    using ins_some [OF Cons.prems(1) _ t1(1) Cons.prems(4)] Cons.prems(2) by simp
  ultimately show ?case by (cases kv) (auto simp: map_add_def split: option.splits if_splits)
qed simp

end

text \<open>A dictionary that loses nothing.\<close>

locale method_dict = lossy_dict +
  assumes ins_lookup: "ok t \<Longrightarrow> is_key k \<Longrightarrow> ins t k v = Inr t' \<Longrightarrow> is_key j \<Longrightarrow>
                       lookup t' j = ((lookup t)(k \<mapsto> v)) j"
begin

lemma ins_all_lookup:
  assumes "ok t" and "list_all (is_key \<circ> fst) kvs" and "ins_all kvs t = Inr t'" and "is_key j"
  shows "lookup t' j = (lookup t ++ map_of (rev kvs)) j"
  using assms
proof (induction kvs arbitrary: t)
  case (Cons kv kvs)
  from Cons.prems obtain t1 where t1: "ins t (fst kv) (snd kv) = Inr t1" "ins_all kvs t1 = Inr t'"
    by (auto elim!: bindR_InrE)
  have "ok t1" using Cons.prems t1 by (auto dest: ins_ok)
  then have "lookup t' j = (lookup t1 ++ map_of (rev kvs)) j"
    using Cons t1 by auto
  also have "\<dots> = ((lookup t)(fst kv \<mapsto> snd kv) ++ map_of (rev kvs)) j"
    using ins_lookup [OF Cons.prems(1) _ t1(1) Cons.prems(4)] Cons.prems(2)
    unfolding map_add_def by (auto split: option.splits)
  finally show ?case by (cases kv) (simp add: map_add_def split: option.splits)
qed simp

end

definition ins_table :: "bool \<Rightarrow> (u32 \<Rightarrow> u64) \<Rightarrow> ht \<Rightarrow> u32 \<Rightarrow> u32 \<Rightarrow> ht res" where
  "ins_table tb hash t key val = bindR (Insert tb hash t key val) (\<lambda>(_, t'). Inr t')"

lemma ins_table_sub:
  "ht_ok hash t \<Longrightarrow> k \<noteq> no_id \<Longrightarrow> ins_table tb hash t k v = Inr t' \<Longrightarrow> ht_ok hash t' \<and> ents t' \<subseteq> upd (ents t) k v"
  using Insert_loop_sub [of hash t k, where tb = tb and resized = False and val = v] by (auto simp: ins_table_def Insert_def elim!: bindR_InrE)

lemma ht_lookup_sub:
  assumes "ht_ok hash t" and "ht_ok hash t'" and "ents t' \<subseteq> upd (ents t) key val" and "k \<noteq> no_id"
  shows "ht_lookup hash t' k = None \<or> ht_lookup hash t' k = ((ht_lookup hash t)(key \<mapsto> val)) k"
proof (cases "ht_lookup hash t' k")
  case (Some v)
  then have "(k, v) \<in> upd (ents t) key val" using assms by (auto simp: ht_lookup_iff)
  then show ?thesis using assms Some ht_lookup_iff [OF assms(1,4), of v] by (auto simp: upd_def)
qed simp

interpretation table: lossy_dict "ht_lookup hash" "ins_table tb hash" "ht_ok hash" "\<lambda>k. k \<noteq> no_id"
  for tb hash
  by unfold_locales (use ins_table_sub ht_lookup_sub in blast)+

interpretation cuckoo: method_dict "ht_lookup hash" "ins_table True hash" "ht_ok hash" "\<lambda>k. k \<noteq> no_id"
  for hash
proof unfold_locales
  fix t k v t' and j :: u32
  assume t: "ht_ok hash t" "k \<noteq> no_id" "ins_table True hash t k v = Inr t'" and j: "j \<noteq> no_id"
  then have "ht_ok hash t' \<and> ents t' = upd (ents t) k v"
    by (auto simp: ins_table_def Insert_def elim!: bindR_InrE dest: Insert_loop_post)
  with t j show "ht_lookup hash t' j = ((ht_lookup hash t)(k \<mapsto> v)) j"
    by (blast intro: ht_lookup_upd)
qed

subsection \<open>Correctness of insertion and lookup\<close>

lemma ht_ok_code [code]:
  "ht_ok hash t \<longleftrightarrow>
     is_power_of_2 (length t) \<and> length t \<le> 65536 \<and>
     list_all (\<lambda>i. m_id (t ! i) \<noteq> no_id \<longrightarrow>
                     i = fst (slots hash (length t) (m_id (t ! i))) \<or> i = snd (slots hash (length t) (m_id (t ! i))))
       [0 ..< length t] \<and>
     distinct (filter (\<lambda>k. k \<noteq> no_id) (map m_id t))"
proof -
  have "distinct (filter (\<lambda>k. k \<noteq> no_id) (map m_id t)) \<longleftrightarrow>
        (\<forall>i < length t. \<forall>j < length t. m_id (t ! i) = m_id (t ! j) \<longrightarrow> m_id (t ! i) \<noteq> no_id \<longrightarrow> i = j)"
  proof (induction t)
    case (Cons e es)
    have all: "(\<forall>i < length (e # es). P i) \<longleftrightarrow> P 0 \<and> (\<forall>i < length es. P (Suc i))" for P
      by (auto simp: less_Suc_eq_0_disj)
    have "m_id e \<in> m_id ` set es \<longleftrightarrow> (\<exists>i < length es. m_id (es ! i) = m_id e)"
      by (metis (no_types, lifting) image_iff in_set_conv_nth)
    then show ?case
      unfolding all using Cons by (auto simp del: length_Cons)
  qed simp
  then show ?thesis
    by (auto simp: ht_ok_def slotset_def list_all_iff)
qed

definition demo_table :: ht where
  "demo_table = [mk_entry 2 20, mk_entry 5 50, empty_entry, empty_entry]"

lemma demo_table_ok: "ht_ok (\<lambda>k. ucast k) demo_table"
proof -
  have "Suc (Suc (Suc (Suc 0))) = 2 ^ 2" by simp
  then have "is_power_of_2 (Suc (Suc (Suc (Suc 0))))" by (metis is_power_of_2_simps(1))
  then show ?thesis
    by (simp add: ht_ok_code demo_table_def mk_entry_def empty_entry_def slots_def upt_rec)
qed

lemma Insert_first_attempt:
  "TryInsert tb hash t key val = Inr (r, key', val', t') \<Longrightarrow> r \<noteq> Failed \<Longrightarrow> Insert tb hash t key val = Inr (r, t')"
  unfolding Insert_def by (subst Insert_loop.simps) (simp add: TestAssert_def)

lemma demo_insert:
  "Insert tb (\<lambda>k. ucast k) demo_table 1 10 =
     Inr (Inserted, [mk_entry 5 50, mk_entry 1 10, mk_entry 2 20, empty_entry])"
  by (rule Insert_first_attempt)
    (simp_all add: TryInsert_def evict_loop.simps demo_table_def slots_def
       mk_entry_def empty_entry_def TestAssert_def Let_def)

text \<open>C5. One attempt to insert a pair into a well-formed table always returns (no assertion of a
  test build fails, and the eviction loop ends); the table it leaves is well-formed. If the attempt
  succeeds the table binds the key to the value and every other key as before; if it fails, exactly
  one pair has been displaced, and it is the pair handed back to the caller.\<close>

theorem TryInsert_correct:
  assumes "ht_ok hash t" and "key \<noteq> no_id"
  shows "\<exists>r k v t'. TryInsert tb hash t key val = Inr (r, k, v, t') \<and> ht_ok hash t' \<and>
           (r = Found \<longleftrightarrow> key \<in> keys t) \<and>
           (r \<noteq> Failed \<longrightarrow> ents t' = upd (ents t) key val) \<and>
           (r = Failed \<longrightarrow> (k, v) \<notin> ents t' \<and> insert (k, v) (ents t') = insert (key, val) (ents t))"
proof -
  obtain r k v t' where "TryInsert tb hash t key val = Inr (r, k, v, t')" "r = Found \<longleftrightarrow> key \<in> keys t"
    and post: "insert_post hash (ents t) key val r k v t'"
    using TryInsert_post [OF assms] by blast
  moreover have "r = Failed \<longrightarrow> (k, v) \<notin> ents t'"
    using post by (auto simp: insert_post_def keys_def image_iff)
  ultimately show ?thesis using post unfolding insert_post_def by blast
qed

theorem TryInsert_correct_witness:
  "ht_ok (\<lambda>k. ucast k) demo_table \<and>
   (\<exists>r k v t'. TryInsert True (\<lambda>k. ucast k) demo_table 1 10 = Inr (r, k, v, t') \<and>
      ht_ok (\<lambda>k. ucast k) t')"
proof -
  note ok = demo_table_ok
  from TryInsert_correct [OF ok, of 1 True 10] ok show ?thesis by auto
qed

text \<open>C4. Insertion, in a test or a release build: it returns a well-formed table, or stops with the release
  assertion on the size of the table or, in a test build, with a test assertion. In the table it returns \<open>GetMethod\<close>
  finds the new value for the key and the old result for every other selector, whatever evictions and
  resizes took place. The only exception is a null result in a release build, when a test build would have stopped at an assertion:
  a binding can then be lost, but no selector is ever bound to a wrong value.\<close>

theorem Insert_GetMethod:
  assumes "ht_ok hash t" and "key \<noteq> no_id"
  shows "case Insert tb hash t key val of
      Inl err \<Rightarrow> err = ReleaseAssertFailed \<or> tb \<and> err = TestAssertFailed
    | Inr (r, t') \<Rightarrow> ht_ok hash t' \<and> (\<forall>k. k \<noteq> no_id \<longrightarrow>
        (let found = GetMethod (of_nat (length t' - 1)) t' \<lparr>us_id = k, us_hash = ucast (hash k)\<rparr>;
             expected = (if k = key then val else GetMethod (of_nat (length t - 1)) t \<lparr>us_id = k, us_hash = ucast (hash k)\<rparr>)
         in found = expected \<or> (found = 0 \<and> \<not> tb \<and> (\<exists>err. Insert True hash t key val = Inl err))))"
proof (cases "Insert tb hash t key val")
  case (Inl err)
  then show ?thesis using Insert_loop_sub [OF assms, where tb = tb and resized = False and val = val] by (simp add: Insert_def)
next
  case (Inr rt)
  obtain r t' where rt: "rt = (r, t')" by force
  then have ins: "ins_table tb hash t key val = Inr t'" using Inr by (simp add: ins_table_def)
  note ok = table.ins_ok [OF assms ins]
  have sure: "ht_lookup hash t' k = ((ht_lookup hash t)(key \<mapsto> val)) k" 
    if sound: "tb \<or> (\<nexists>err. Insert True hash t key val = Inl err)" and k: "k \<noteq> no_id" for k
  proof -
    obtain x where "Insert True hash t key val = Inr x"
      using sound Inr by (cases tb; cases "Insert True hash t key val") auto
    then obtain r2 t2 where t2: "Insert True hash t key val = Inr (r2, t2)" by (cases x) simp
    moreover have "Insert False hash t key val = Inr (r2, t2)" using t2 by (simp add: Insert_def Insert_loop_release)
    ultimately have "ins_table True hash t key val = Inr t'" using Inr rt by (cases tb) (simp_all add: ins_table_def)
    then show ?thesis using cuckoo.ins_lookup [OF assms _ k] by blast
  qed
  have "let found = ptr_or_null (ht_lookup hash t' k);
            expected = (if k = key then val else ptr_or_null (ht_lookup hash t k))
        in found = expected \<or> (found = 0 \<and> \<not> tb \<and> (\<exists>err. Insert True hash t key val = Inl err))" if "k \<noteq> no_id" for k
    using table.ins_some [OF assms ins that] sure [OF _ that]
    by (cases "tb \<or> (\<nexists>err. Insert True hash t key val = Inl err)") (auto simp: ptr_or_null_def)
  then show ?thesis using ok
    unfolding Inr rt sum.case prod.case GetMethod_lookup [OF ok] GetMethod_lookup [OF assms(1)] by blast
qed

theorem Insert_GetMethod_witness:
  "GetMethod 3 [mk_entry 5 50, mk_entry 1 10, mk_entry 2 20, empty_entry] \<lparr>us_id = 1, us_hash = 1\<rparr> = 10 \<and>
   ht_ok (\<lambda>k. ucast k) [mk_entry 5 50, mk_entry 1 10, mk_entry 2 20, empty_entry]"
  using Insert_GetMethod [OF demo_table_ok, of 1 True 10] by (auto simp: demo_insert dest!: spec [of _ 1])

end
