(* ===== verification/Objects.thy ===== *)
theory Objects
  imports Interner MethodTable Double
begin

section \<open>Objects, classes and the state of the virtual machine\<close>

text \<open>
  The heap data of the runtime: values, \<open>SOMObject\<close> and \<open>SOMClass\<close> (\<open>src/runtime/som_class.h\<close>),
  \<open>FunctionObject\<close> and \<open>Upvalue\<close> (\<open>src/runtime/runtime_utils.h\<close>), and the language-level members
  of \<open>VM\<close> (\<open>src/runtime/vm.h\<close>).

  Heap entities are numbered in the order of their allocation (there is no garbage collector: the
  allocators only bump a pointer, theory \<open>Memory\<close>), so a heap is a list and a pointer an index.
  A value is the datatype \<open>'p tv\<close> over pointers \<open>'p\<close>; theory \<open>TValue\<close> relates it to the 64-bit
  NaN-boxed words of \<open>src/drt/tvalue.h\<close>. \<open>TRaw\<close> is the raw class pointer kept in the first field
  of a class object; \<open>TImpossible\<close> marks a global that has no value yet.
\<close>

datatype 'p tv =
    TInt u32
  | TDouble dbl
  | TNil
  | TBool bool
  | TObj 'p
  | TFun 'p
  | TRaw nat
  | TImpossible

type_synonym val = "nat tv"

datatype SOMDetailEntityType =
    SOM_Object | SOM_Method
  | SOM_BlockNoArg | SOM_BlockNoArgImmSelf
  | SOM_BlockOneArg | SOM_BlockOneArgImmSelf
  | SOM_BlockTwoArgs | SOM_BlockTwoArgsImmSelf
  | SOM_Array | SOM_String

datatype SOMMethodLookupResultKind =
    SOM_MethodNotFound | SOM_NormalMethod | SOM_LiteralReturn | SOM_GlobalReturn
  | SOM_SelfReturn | SOM_Getter | SOM_Setter | SOM_CallBaseNotObject

text \<open>The trailing data of an object; \<open>m_data[0]\<close> of arrays and strings is their length.\<close>

datatype payload = Fields "val list" | ArrayData "val list" | StringData string

record SOMObject =
  o_hiddenClass :: nat
  o_payload :: payload

definition o_arrayType :: "SOMObject \<Rightarrow> SOMDetailEntityType" where
  "o_arrayType obj = (case o_payload obj of Fields _ \<Rightarrow> SOM_Object | ArrayData _ \<Rightarrow> SOM_Array | StringData _ \<Rightarrow> SOM_String)"

record SOMClass =
  c_superClass :: "nat option"
  c_classObject :: "nat option"
  c_name :: nat
  c_fields :: nat
  c_methods :: nat
  c_numFields :: nat
  c_methodHt :: ht

text \<open>
  An upvalue of a function is a captured immutable value, a pointer to an \<open>Upvalue\<close>, or (for the
  trivial methods) a plain number: the index of a global or of a field.
\<close>

datatype upval = UvImm val | UvRef nat | UvRaw nat

text \<open>
  \<open>uv_ptr\<close> is where \<open>m_ptr\<close> points: a stack slot while the upvalue is open, \<open>None\<close> for its own \<open>m_tv\<close>. The
  open upvalues form a linked list through \<open>uv_prev\<close>.
\<close>

record Upvalue =
  uv_ptr :: "nat option"
  uv_tv :: val
  uv_prev :: "nat option"
  uv_isClosed :: bool
  uv_isImmutable :: bool

record FunctionObject =
  fo_type :: SOMDetailEntityType
  fo_lookup :: SOMMethodLookupResultKind
  fo_executable :: nat
  fo_upvalues :: "upval list"

text \<open>
  The members of \<open>VM\<close> that hold uniqued selectors (\<open>m_str...\<close> and the three handlers) and the
  ordinals of the inlinable control-flow selectors (\<open>m_stringIdFor...\<close>).
\<close>

datatype StrMember =
    unknownGlobalHandler | doesNotUnderstandHandler | escapedBlockHandler | strOperatorPlus
   | strOperatorMinus | strOperatorStar | strOperatorSlashSlash | strOperatorPercent
   | strOperatorAnd | strOperatorEqual | strOperatorLessThan | strOperatorLessEqual
   | strOperatorGreaterThan | strOperatorGreaterEqual | strOperatorUnequal | strOperatorTildeUnequal
   | strOperatorLeftShift | strOperatorRightShift | strOperatorBitwiseXor | strOperatorSlash
   | strOperatorEqualEqual | strOperatorLogicalAnd | strOperatorLogicalOr | strOperatorKeywordAnd
   | strOperatorKeywordOr | strOperatorValueColon | strOperatorAtColon | strOperatorCharAtColon
   | strOperatorAbs | strOperatorSqrt | strOperatorIsNil | strOperatorNotNil | strOperatorValue
   | strOperatorNot | strOperatorLength | strOperatorAtPut | strOperatorValueWith

datatype CtlMember =
    stringIdForWhileTrue | stringIdForWhileFalse | stringIdForIfTrueIfFalse
   | stringIdForIfFalseIfTrue | stringIdForIfNilIfNotNil | stringIdForIfNotNilIfNil
   | stringIdForIfTrue | stringIdForIfFalse | stringIdForIfNil | stringIdForIfNotNil
   | stringIdForOperatorAnd | stringIdForOperatorOr | stringIdForMethodAnd | stringIdForMethodOr
   | stringIdForToDo | stringIdForDowntoDo

record VM =
  h_objs :: "SOMObject list"
  h_classes :: "SOMClass list"
  h_funs :: "FunctionObject list"
  h_upvalues :: "Upvalue list"
  v_stack :: "val list"
  m_upvalueList :: "nat option"
  m_interner :: StringInterner
  m_internedStringObjects :: "nat option list"
  m_internedSymbolObjects :: "nat option list"
  m_parsedClasses :: "nat \<rightharpoonup> nat"
  m_globalIdxMap :: "nat \<rightharpoonup> nat"
  m_globalStringIdWithIndex :: "nat list"
  m_globalsVec :: "val list"
  m_cachedSingleCharStrings :: "nat \<rightharpoonup> nat"
  m_stringHiddenClass :: nat
  m_arrayHiddenClass :: nat
  m_objectClass :: nat
  m_classClass :: nat
  m_metaclassClass :: nat
  m_nilClass :: nat
  m_booleanClass :: nat
  m_trueClass :: nat
  m_falseClass :: nat
  m_integerClass :: nat
  m_doubleClass :: nat
  m_blockClass :: nat
  m_block1Class :: nat
  m_block2Class :: nat
  m_block3Class :: nat
  m_methodClass :: nat
  m_symbolClass :: nat
  m_primitiveClass :: nat
  m_systemClass :: nat
  m_metaclassClassLoaded :: bool
  m_str :: "StrMember \<Rightarrow> SOMUniquedString"
  m_stringIdFor :: "CtlMember \<Rightarrow> nat"
  m_stdout :: string
  m_stderr :: string

type_synonym 'a vmop = "(VM, 'a) op"

subsection \<open>Reading and writing the heap\<close>

definition the_obj :: "nat \<Rightarrow> SOMObject vmop" where
  "the_obj a = (\<lambda>V. if a < length (h_objs V) then Inr (h_objs V ! a, V) else Inl Undefined)"

definition the_class :: "nat \<Rightarrow> SOMClass vmop" where
  "the_class a = (\<lambda>V. if a < length (h_classes V) then Inr (h_classes V ! a, V) else Inl Undefined)"

definition the_fun :: "nat \<Rightarrow> FunctionObject vmop" where
  "the_fun a = (\<lambda>V. if a < length (h_funs V) then Inr (h_funs V ! a, V) else Inl Undefined)"

definition set_obj :: "nat \<Rightarrow> SOMObject \<Rightarrow> unit vmop" where
  "set_obj a x = modS (\<lambda>V. V\<lparr>h_objs := (h_objs V)[a := x]\<rparr>)"

definition set_class :: "nat \<Rightarrow> SOMClass \<Rightarrow> unit vmop" where
  "set_class a c = modS (\<lambda>V. V\<lparr>h_classes := (h_classes V)[a := c]\<rparr>)"

definition new_obj :: "SOMObject \<Rightarrow> nat vmop" where
  "new_obj x = (\<lambda>V. Inr (length (h_objs V), V\<lparr>h_objs := h_objs V @ [x]\<rparr>))"

text \<open>Reading \<open>m_data[i]\<close> of an object with fields; another index or kind is outside the object.\<close>

definition get_field :: "SOMObject \<Rightarrow> nat \<Rightarrow> val res" where
  "get_field obj i =
     (case o_payload obj of
        Fields vs \<Rightarrow> if i < length vs then Inr (vs ! i) else Inl OutOfRange
      | _ \<Rightarrow> Inl Undefined)"

definition put_field :: "SOMObject \<Rightarrow> nat \<Rightarrow> val \<Rightarrow> SOMObject res" where
  "put_field obj i v =
     (case o_payload obj of
        Fields vs \<Rightarrow> if i < length vs then Inr (obj\<lparr>o_payload := Fields (vs[i := v])\<rparr>) else Inl OutOfRange
      | _ \<Rightarrow> Inl Undefined)"

definition array_of :: "SOMObject \<Rightarrow> val list res" where
  "array_of obj = (case o_payload obj of ArrayData vs \<Rightarrow> Inr vs | _ \<Rightarrow> Inl Undefined)"

definition string_of :: "SOMObject \<Rightarrow> string res" where
  "string_of obj = (case o_payload obj of StringData s \<Rightarrow> Inr s | _ \<Rightarrow> Inl Undefined)"

text \<open>\<open>As<tObject>\<close> of a value and the contents behind it.\<close>

definition as_obj :: "val \<Rightarrow> nat res" where
  "as_obj v = (case v of TObj a \<Rightarrow> Inr a | _ \<Rightarrow> Inl Undefined)"

definition obj_of :: "val \<Rightarrow> SOMObject vmop" where
  "obj_of v = bindS (liftS (as_obj v)) the_obj"

definition GetStringContentFromSOMString :: "val \<Rightarrow> string vmop" where
  "GetStringContentFromSOMString v = bindS (obj_of v) (\<lambda>x. liftS (string_of x))"

definition array_content :: "val \<Rightarrow> val list vmop" where
  "array_content v = bindS (obj_of v) (\<lambda>x. liftS (array_of x))"

subsection \<open>Allocation\<close>

definition AllocateString :: "string \<Rightarrow> nat vmop" where
  "AllocateString str = bindS (getS m_stringHiddenClass) (\<lambda>c. new_obj \<lparr>o_hiddenClass = c, o_payload = StringData str\<rparr>)"

definition AllocateArray :: "nat \<Rightarrow> nat vmop" where
  "AllocateArray len =
     bindS (getS m_arrayHiddenClass) (\<lambda>c. new_obj \<lparr>o_hiddenClass = c, o_payload = ArrayData (replicate len TNil)\<rparr>)"

definition ShallowCopyArray :: "nat \<Rightarrow> nat vmop" where
  "ShallowCopyArray a =
     bindS (the_obj a) (\<lambda>x.
     bindS (liftS (array_of x)) (\<lambda>vs.
     bindS (getS m_arrayHiddenClass) (\<lambda>c. new_obj \<lparr>o_hiddenClass = c, o_payload = ArrayData vs\<rparr>)))"

definition DoStringConcat :: "nat \<Rightarrow> nat \<Rightarrow> nat vmop" where
  "DoStringConcat lhs rhs =
     bindS (the_obj lhs) (\<lambda>l. bindS (liftS (string_of l)) (\<lambda>ls.
     bindS (the_obj rhs) (\<lambda>r. bindS (liftS (string_of r)) (\<lambda>rs.
     bindS (getS m_stringHiddenClass) (\<lambda>c. new_obj \<lparr>o_hiddenClass = c, o_payload = StringData (ls @ rs)\<rparr>)))))"

definition Instantiate :: "nat \<Rightarrow> nat vmop" where
  "Instantiate cl =
     bindS (the_class cl) (\<lambda>c.
     new_obj \<lparr>o_hiddenClass = cl, o_payload = Fields (replicate (c_numFields c) TNil)\<rparr>)"

definition FillArray :: "nat \<Rightarrow> val list \<Rightarrow> unit vmop" where
  "FillArray a vs =
     bindS (the_obj a) (\<lambda>x. bindS (liftS (array_of x)) (\<lambda>old.
     if length vs \<noteq> length old then failS OutOfRange
     else set_obj a (x\<lparr>o_payload := ArrayData vs\<rparr>)))"

end
