(* ===== verification/TValue.thy ===== *)
theory TValue
  imports Objects
begin

section \<open>Boxed values: the 64-bit NaN-boxing scheme\<close>

text \<open>
  \<open>src/drt/tvalue.h\<close>: \<open>MiscImmediateValue\<close> and \<open>TValue\<close> as operations on 64-bit words, the type
  checks \<open>tNil\<close>, \<open>tBool\<close>, ..., and the lattice of type masks built from the list of types.

  A boxed value is a word. \<open>boxed_ok\<close> describes the words the runtime creates: doubles up to
  \<open>FFFA...\<close>, 32-bit integers under the tag \<open>FFFBFFFF\<close>, the four misc immediate values and pointers
  whose high half is \<open>FFFFFFFC\<close> to \<open>FFFFFFFE\<close> (the 12GB the heap can use). \<open>box\<close> and \<open>unbox\<close> relate
  words to the datatype \<open>'p tv\<close> of theory \<open>Objects\<close>, with addresses as pointers; the kind of a heap
  object is read from its header, here the parameter \<open>ty\<close>.
\<close>

subsection \<open>Misc immediate values\<close>

definition x_nil :: u64 where "x_nil = 0"
definition x_false :: u64 where "x_false = 2"
definition x_true :: u64 where "x_true = 3"
definition x_impossible_value :: u64 where "x_impossible_value = 4"

definition miv_ok :: "u64 \<Rightarrow> bool" where
  "miv_ok m \<longleftrightarrow> m = x_nil \<or> m = x_true \<or> m = x_false \<or> m = x_impossible_value"

definition MIV_IsNil :: "u64 \<Rightarrow> bool" where
  "MIV_IsNil m \<longleftrightarrow> m = 0"

definition MIV_IsTrue :: "u64 \<Rightarrow> bool" where
  "MIV_IsTrue m \<longleftrightarrow> m = x_true"

definition MIV_IsBoolean :: "u64 \<Rightarrow> bool" where
  "MIV_IsBoolean m \<longleftrightarrow> m \<noteq> 0"

definition GetBooleanValue :: "u64 \<Rightarrow> bool" where
  "GetBooleanValue m \<longleftrightarrow> m AND 1 \<noteq> 0"

definition FlipBooleanValue :: "u64 \<Rightarrow> u64" where
  "FlipBooleanValue m = m XOR 1"

definition MIV_CreateBoolean :: "bool \<Rightarrow> u64" where
  "MIV_CreateBoolean v = (if v then x_true else x_false)"

subsection \<open>Boxing and the basic checks\<close>

definition x_int32Tag :: u64 where "x_int32Tag = 0xFFFBFFFF00000000"
definition x_mivTag :: u64 where "x_mivTag = 0xFFFCFFFF0000007F"

definition IsInt32 :: "u64 \<Rightarrow> bool" where
  "IsInt32 v \<longleftrightarrow> v AND x_int32Tag = x_int32Tag"

definition IsMIV :: "u64 \<Rightarrow> bool" where
  "IsMIV v \<longleftrightarrow> v AND (x_mivTag - 0x7F) = x_mivTag - 0x7F"

definition IsPointer :: "u64 \<Rightarrow> bool" where
  "IsPointer v \<longleftrightarrow> v > x_mivTag"

definition IsDouble :: "u64 \<Rightarrow> bool" where
  "IsDouble v \<longleftrightarrow> v < x_int32Tag"

definition IsDoubleNotNaN :: "u64 \<Rightarrow> bool" where
  "IsDoubleNotNaN v \<longleftrightarrow> \<not> is_nan v"

definition x_pureNaN :: u64 where "x_pureNaN = 0x7ff8000000000000"

definition IsDoubleNaN :: "u64 \<Rightarrow> bool" where
  "IsDoubleNaN v \<longleftrightarrow> v = x_pureNaN"

definition AsInt32 :: "u64 \<Rightarrow> u32" where
  "AsInt32 v = ucast v"

definition IsTruthy :: "u64 \<Rightarrow> bool" where
  "IsTruthy v \<longleftrightarrow> v XOR x_mivTag > 2"

definition AsMIV :: "u64 \<Rightarrow> u64" where
  "AsMIV v = v XOR x_mivTag"

definition CreateInt32 :: "u32 \<Rightarrow> u64" where
  "CreateInt32 i = x_int32Tag OR ucast i"

definition CreateDouble :: "dbl \<Rightarrow> u64" where
  "CreateDouble d = d"

definition CreatePointer :: "u64 \<Rightarrow> u64" where
  "CreatePointer p = p"

definition CreateMIV :: "u64 \<Rightarrow> u64" where
  "CreateMIV m = m XOR x_mivTag"

definition CreateImpossibleValue :: u64 where
  "CreateImpossibleValue = CreateMIV x_impossible_value"

definition CreateBoolean :: "bool \<Rightarrow> u64" where
  "CreateBoolean v = CreateMIV (MIV_CreateBoolean v)"

definition NilV :: u64 where
  "NilV = CreateMIV x_nil"

definition IsNil :: "u64 \<Rightarrow> bool" where
  "IsNil v \<longleftrightarrow> v = NilV"

definition IsBool :: "u64 \<Rightarrow> bool" where
  "IsBool v \<longleftrightarrow> IsMIV v \<and> \<not> IsNil v"

definition AsBool :: "u64 \<Rightarrow> bool" where
  "AsBool v = GetBooleanValue (AsMIV v)"

subsection \<open>The words the runtime creates\<close>

definition ptr_ok :: "u64 \<Rightarrow> bool" where
  "ptr_ok p \<longleftrightarrow> 0xFFFFFFFC00000000 \<le> p \<and> p < 0xFFFFFFFF00000000"

definition int_word :: "u64 \<Rightarrow> bool" where
  "int_word v \<longleftrightarrow> drop_bit 32 v = 0xFFFBFFFF"

definition miv_word :: "u64 \<Rightarrow> bool" where
  "miv_word v \<longleftrightarrow> miv_ok (v XOR x_mivTag)"

definition boxed_ok :: "u64 \<Rightarrow> bool" where
  "boxed_ok v \<longleftrightarrow> v \<le> 0xFFFAFFFFFFFFFFFF \<or> int_word v \<or> miv_word v \<or> ptr_ok v"

lemma miv_words:
  "miv_word v \<longleftrightarrow> v = 0xFFFCFFFF0000007F \<or> v = 0xFFFCFFFF0000007C \<or> v = 0xFFFCFFFF0000007D \<or> v = 0xFFFCFFFF0000007B"
proof -
  have "v XOR m = k \<longleftrightarrow> v = k XOR m" for k m :: u64 by (auto simp: xor.assoc)
  from this [of x_mivTag] show ?thesis
    by (simp add: miv_word_def miv_ok_def x_mivTag_def x_nil_def x_true_def x_false_def x_impossible_value_def)
qed

lemma and_eq_le: "v AND m = m \<Longrightarrow> m \<le> (v :: u64)"
  using word_and_le2 [of v m] by simp

lemma bit_u64_nat: "bit (v :: u64) n \<longleftrightarrow> odd (unat v div 2 ^ n)"
  using bit_unsigned_iff [where 'a = nat, of v n] by (auto simp: bit_iff_odd bit_imp_le_length)

lemma ptr_ok_nat: "ptr_ok p \<longleftrightarrow> unat p div 2 ^ 32 \<in> {0xFFFFFFFC, 0xFFFFFFFD, 0xFFFFFFFE}"
proof -
  have "ptr_ok p \<longleftrightarrow> 0xFFFFFFFC00000000 \<le> unat p \<and> unat p < 0xFFFFFFFF00000000"
    by (simp add: ptr_ok_def word_le_nat_alt word_less_nat_alt)
  also have "\<dots> \<longleftrightarrow> 0xFFFFFFFC \<le> unat p div 2 ^ 32 \<and> unat p div 2 ^ 32 < 0xFFFFFFFF"
    by (simp add: less_eq_div_iff_mult_less_eq div_less_iff_less_mult)
  also have "\<dots> \<longleftrightarrow> unat p div 2 ^ 32 \<in> {0xFFFFFFFC, 0xFFFFFFFD, 0xFFFFFFFE}" by auto
  finally show ?thesis .
qed

lemma int_word_nat: "int_word v \<longleftrightarrow> unat v div 2 ^ 32 = 0xFFFBFFFF"
  by (simp add: int_word_def word_unat_eq_iff drop_bit_eq_div unat_div)

lemma ptr_not_masked:
  assumes "ptr_ok p" and "bit m 32" and "bit m 33"
  shows "p AND m \<noteq> m"
proof
  assume "p AND m = m"
  then have "bit p 32" "bit p 33" using assms(2,3) by (metis bit_and_iff)+
  then have "odd (unat p div 2 ^ 32)" "odd (unat p div 2 ^ 32 div 2)"
    by (simp_all add: bit_u64_nat div_mult2_eq [symmetric])
  then show False using assms(1) unfolding ptr_ok_nat by auto
qed

lemma bit_int32Tag: "bit x_int32Tag n \<longleftrightarrow> 32 \<le> n \<and> n < 64 \<and> bit (0xFFFBFFFF :: u64) (n - 32)"
proof -
  have tag: "x_int32Tag = push_bit 32 0xFFFBFFFF" by (simp add: x_int32Tag_def)
  show ?thesis unfolding tag bit_push_bit_iff by auto
qed

lemma int_word_form: "int_word v \<Longrightarrow> v = CreateInt32 (AsInt32 v)"
proof -
  assume "int_word v"
  then have hi: "bit v (32 + k) \<longleftrightarrow> bit (0xFFFBFFFF :: u64) k" for k
    by (metis bit_drop_bit_eq comp_apply int_word_def)
  show ?thesis
  proof (rule bit_word_eqI)
    fix n
    assume "n < LENGTH(64)"
    then show "bit v n \<longleftrightarrow> bit (CreateInt32 (AsInt32 v)) n"
      unfolding CreateInt32_def AsInt32_def using hi [of "n - 32"]
      by (cases "n < 32") (auto simp: bit_or_iff bit_int32Tag bit_unsigned_iff dest: bit_imp_le_length)
  qed
qed

lemma CreateInt32_word: "int_word (CreateInt32 i)"
proof -
  have "drop_bit 32 (ucast i :: u64) = 0"
    by (rule bit_word_eqI) (auto simp: bit_simps dest: bit_imp_le_length)
  then show ?thesis by (simp add: int_word_def CreateInt32_def x_int32Tag_def drop_bit_or)
qed

lemma AsInt32_CreateInt32: "AsInt32 (CreateInt32 i) = i"
  unfolding AsInt32_def CreateInt32_def by (rule bit_word_eqI) (auto simp: bit_simps bit_int32Tag)

lemmas tag_defs = x_int32Tag_def x_mivTag_def

lemma double_checks:
  assumes "v \<le> 0xFFFAFFFFFFFFFFFF"
  shows "IsDouble v" "\<not> IsInt32 v" "\<not> IsMIV v" "\<not> IsPointer v"
proof -
  have v: "unat v \<le> 0xFFFAFFFFFFFFFFFF" using assms by (simp add: word_le_nat_alt)
  then show "IsDouble v" "\<not> IsPointer v"
    by (simp_all add: IsDouble_def IsPointer_def tag_defs word_less_nat_alt)
  show "\<not> IsInt32 v" "\<not> IsMIV v"
    using v by (auto simp: IsInt32_def IsMIV_def tag_defs word_le_nat_alt dest!: and_eq_le)
qed

lemma int_checks:
  assumes "int_word v"
  shows "\<not> IsDouble v" "IsInt32 v" "\<not> IsMIV v" "\<not> IsPointer v"
proof -
  have "0xFFFBFFFF \<le> unat v div 2 ^ 32" "unat v div 2 ^ 32 < 0xFFFC0000"
    using assms by (simp_all add: int_word_nat)
  then have v: "0xFFFBFFFF00000000 \<le> unat v" "unat v < 0xFFFC000000000000"
    by (simp_all add: less_eq_div_iff_mult_less_eq div_less_iff_less_mult)
  then show "\<not> IsDouble v" "\<not> IsPointer v" "\<not> IsMIV v"
    by (auto simp: IsDouble_def IsPointer_def IsMIV_def tag_defs word_less_nat_alt word_le_nat_alt dest!: and_eq_le)
  have "(x_int32Tag OR w) AND x_int32Tag = x_int32Tag" for w by (simp add: word_ao_absorbs)
  then show "IsInt32 v"
    using int_word_form [OF assms] by (metis CreateInt32_def IsInt32_def)
qed

lemma ptr_checks:
  assumes "ptr_ok v"
  shows "\<not> IsDouble v" "\<not> IsInt32 v" "\<not> IsMIV v" "IsPointer v"
proof -
  have "0xFFFFFFFC00000000 \<le> unat v" using assms by (simp add: ptr_ok_def word_le_nat_alt)
  then show "\<not> IsDouble v" "IsPointer v"
    by (simp_all add: IsDouble_def IsPointer_def tag_defs word_less_nat_alt)
  have "bit (0xFFFBFFFF00000000 :: u64) 32" "bit (0xFFFBFFFF00000000 :: u64) 33"
    "bit (0xFFFCFFFF00000000 :: u64) 32" "bit (0xFFFCFFFF00000000 :: u64) 33"
    by (simp_all add: bit_u64_nat)
  then show "\<not> IsInt32 v" "\<not> IsMIV v"
    using ptr_not_masked [OF assms] by (simp_all add: IsInt32_def IsMIV_def tag_defs)
qed

lemma miv_checks:
  assumes "miv_word v"
  shows "\<not> IsDouble v" "\<not> IsInt32 v" "IsMIV v" "\<not> IsPointer v"
  using assms unfolding miv_words
  by (auto simp: IsDouble_def IsInt32_def IsMIV_def IsPointer_def tag_defs)

lemmas boxed_checks = double_checks int_checks ptr_checks miv_checks

text \<open>C13. The NaN-boxing scheme is unambiguous: a word the runtime creates passes exactly one of the
  four basic checks \<open>IsDouble\<close>, \<open>IsInt32\<close>, \<open>IsMIV\<close>, \<open>IsPointer\<close>, and each check, however it is
  computed (one comparison, or one AND and a comparison), is exactly the address or tag range that
  the assertion next to it states.\<close>

theorem boxed_partition:
  assumes "boxed_ok v"
  shows "(IsDouble v \<longleftrightarrow> v \<le> 0xFFFAFFFFFFFFFFFF) \<and>
         (IsInt32 v \<longleftrightarrow> drop_bit 32 v = 0xFFFBFFFF) \<and>
         (IsMIV v \<longleftrightarrow> x_mivTag - 0x7F \<le> v \<and> v \<le> x_mivTag) \<and>
         (IsPointer v \<longleftrightarrow> 0xFFFFFFFC \<le> drop_bit 32 v \<and> drop_bit 32 v \<le> 0xFFFFFFFE) \<and>
         length (filter id [IsDouble v, IsInt32 v, IsMIV v, IsPointer v]) = 1"
proof -
  have hi: "unat (drop_bit 32 v) = unat v div 2 ^ 32" by (simp add: drop_bit_eq_div unat_div)
  consider (d) "v \<le> 0xFFFAFFFFFFFFFFFF" | (i) "int_word v" | (m) "miv_word v" | (p) "ptr_ok v"
    using assms by (auto simp: boxed_ok_def)
  then show ?thesis
  proof cases
    case d
    then have "unat v \<le> 0xFFFAFFFFFFFFFFFF" by (simp add: word_le_nat_alt)
    moreover from this have "unat v div 2 ^ 32 < 0xFFFB0000" by (simp add: div_less_iff_less_mult)
    ultimately show ?thesis
      using double_checks [OF d] d
      by (auto simp: word_le_nat_alt word_unat_eq_iff hi tag_defs simp del: word_unat_eq_iff [symmetric])
  next
    case i
    then have q: "unat v div 2 ^ 32 = 0xFFFBFFFF" by (simp add: int_word_nat)
    then have "0xFFFBFFFF \<le> unat v div 2 ^ 32" "unat v div 2 ^ 32 < 0xFFFC0000" by simp_all
    then have "0xFFFBFFFF00000000 \<le> unat v" "unat v < 0xFFFC000000000000"
      by (simp_all add: less_eq_div_iff_mult_less_eq div_less_iff_less_mult)
    with int_checks [OF i] q i show ?thesis
      by (auto simp: word_le_nat_alt int_word_def tag_defs)
  next
    case m
    then show ?thesis using miv_checks [OF m] unfolding miv_words by (auto simp: tag_defs)
  next
    case p
    then have "0xFFFFFFFC00000000 \<le> unat v" by (simp add: ptr_ok_def word_le_nat_alt)
    moreover have "unat (drop_bit 32 v) \<in> {0xFFFFFFFC, 0xFFFFFFFD, 0xFFFFFFFE}"
      using p unfolding ptr_ok_nat hi .
    ultimately show ?thesis using ptr_checks [OF p]
      by (auto simp: word_le_nat_alt word_unat_eq_iff tag_defs)
  qed
qed

theorem boxed_partition_witness: "IsInt32 (CreateInt32 5) \<and> \<not> IsDouble (CreateInt32 5)"
proof -
  have "boxed_ok (CreateInt32 5)" using CreateInt32_word by (simp add: boxed_ok_def)
  from boxed_partition [OF this] show ?thesis
    using CreateInt32_word [of 5] by (simp add: int_word_def split: if_splits)
qed

subsection \<open>Boxing the values of the model\<close>

datatype HeapEntityType = ET_Function | ET_Thread | ET_Object | ET_Upvalue | ET_UnlinkedCodeBlock | ET_ExecutableCode | ET_SOMClass

definition box :: "u64 tv \<Rightarrow> u64" where
  "box x = (case x of
              TInt i \<Rightarrow> CreateInt32 i | TDouble d \<Rightarrow> CreateDouble d | TNil \<Rightarrow> NilV | TBool b \<Rightarrow> CreateBoolean b
            | TObj p \<Rightarrow> CreatePointer p | TFun p \<Rightarrow> CreatePointer p | TRaw n \<Rightarrow> of_nat n
            | TImpossible \<Rightarrow> CreateImpossibleValue)"

definition unbox :: "(u64 \<Rightarrow> HeapEntityType) \<Rightarrow> u64 \<Rightarrow> u64 tv option" where
  "unbox ty w =
     (if IsDouble w then Some (TDouble w)
      else if IsPointer w then
        (case ty w of ET_Object \<Rightarrow> Some (TObj w) | ET_Function \<Rightarrow> Some (TFun w) | _ \<Rightarrow> None)
      else if IsInt32 w then Some (TInt (AsInt32 w))
      else if IsNil w then Some TNil
      else if w = CreateImpossibleValue then Some TImpossible
      else if IsBool w then Some (TBool (AsBool w))
      else None)"

text \<open>The values that have a boxed form: no raw words, doubles outside the boxed NaN space, and
  pointers to objects of the right kind.\<close>

definition tv_ok :: "(u64 \<Rightarrow> HeapEntityType) \<Rightarrow> u64 tv \<Rightarrow> bool" where
  "tv_ok ty x \<longleftrightarrow>
     (case x of TDouble d \<Rightarrow> d \<le> 0xFFFAFFFFFFFFFFFF | TObj p \<Rightarrow> ptr_ok p \<and> ty p = ET_Object
      | TFun p \<Rightarrow> ptr_ok p \<and> ty p = ET_Function | TRaw n \<Rightarrow> False | _ \<Rightarrow> True)"

lemma miv_constants:
  "NilV = 0xFFFCFFFF0000007F" "CreateImpossibleValue = 0xFFFCFFFF0000007B"
  "CreateBoolean True = 0xFFFCFFFF0000007C" "CreateBoolean False = 0xFFFCFFFF0000007D"
  by (simp_all add: NilV_def CreateImpossibleValue_def CreateBoolean_def MIV_CreateBoolean_def CreateMIV_def
      tag_defs x_nil_def x_true_def x_false_def x_impossible_value_def)

lemma miv_word_constants: "miv_word NilV" "miv_word CreateImpossibleValue" "miv_word (CreateBoolean b)"
  by (cases b; simp add: miv_words miv_constants)+

lemma IsTruthy_iff:
  "IsTruthy v \<longleftrightarrow> v \<noteq> 0xFFFCFFFF0000007F \<and> v \<noteq> 0xFFFCFFFF0000007E \<and> v \<noteq> 0xFFFCFFFF0000007D"
proof -
  have le2: "w \<le> 2 \<longleftrightarrow> w = 0 \<or> w = 1 \<or> w = 2" for w :: u64
  proof -
    have "unat w \<le> 2 \<longleftrightarrow> unat w = 0 \<or> unat w = 1 \<or> unat w = 2" by linarith
    then show ?thesis by (simp add: word_le_nat_alt word_unat_eq_iff)
  qed
  have eq: "v XOR x_mivTag = k \<longleftrightarrow> v = k XOR x_mivTag" for k by (auto simp: xor.assoc)
  have "\<not> IsTruthy v \<longleftrightarrow> v XOR x_mivTag \<le> 2" by (simp add: IsTruthy_def not_less)
  then show ?thesis unfolding le2 eq by (auto simp: tag_defs)
qed

lemma is_nan_high: "0xFFFBFFFF00000000 \<le> unat v \<Longrightarrow> is_nan v"
proof -
  assume v: "0xFFFBFFFF00000000 \<le> unat v"
  have "int 0xFFFBFFFF00000000 \<le> int (unat v)" using v by (simp only: of_nat_le_iff)
  then have u: "0xFFFBFFFF00000000 \<le> uint v" "uint v < 2 ^ 64"
    using uint_lt2p [of v] by simp_all
  have q: "uint v div 2 ^ 52 = 4095"
    by (rule int_div_pos_eq [where r = "uint v - 4095 * 2 ^ 52"]) (use u in simp_all)
  have "uint v mod 2 ^ 52 = uint v - 4095 * 2 ^ 52"
    by (rule int_mod_pos_eq [where q = 4095]) (use u in simp_all)
  with u q show ?thesis by (simp add: is_nan_def decode_def dbl_exp_def dbl_frac_def)
qed

lemma not_double_nan: "boxed_ok v \<Longrightarrow> \<not> IsDouble v \<Longrightarrow> is_nan v"
  by (rule is_nan_high) (simp add: IsDouble_def tag_defs word_less_nat_alt)

lemma box_ok: "tv_ok ty x \<Longrightarrow> boxed_ok (box x)"
  using CreateInt32_word miv_word_constants
  by (auto simp: tv_ok_def boxed_ok_def box_def CreateDouble_def CreatePointer_def split: tv.splits)

text \<open>C14. Boxing is lossless: the word made for a value unboxes to exactly that value (so different
  values have different words), and a boxed value is truthy unless it is \<open>nil\<close> or \<open>false\<close>; reading the
  bits of a value that is not a double as a double gives a NaN.\<close>

theorem box_roundtrip:
  assumes "tv_ok ty x"
  shows "unbox ty (box x) = Some x \<and> (IsTruthy (box x) \<longleftrightarrow> x \<noteq> TNil \<and> x \<noteq> TBool False) \<and>
         (is_nan (box x) \<or> (\<exists>d. x = TDouble d))"
proof (cases x)
  case (TInt i)
  have w: "int_word (CreateInt32 i)" by (rule CreateInt32_word)
  then have "CreateInt32 i \<noteq> 0xFFFCFFFF0000007F" "CreateInt32 i \<noteq> 0xFFFCFFFF0000007E" "CreateInt32 i \<noteq> 0xFFFCFFFF0000007D"
    by (auto simp: int_word_def)
  with int_checks [OF w] TInt not_double_nan [OF box_ok [OF assms]] show ?thesis
    by (simp add: box_def unbox_def AsInt32_CreateInt32 IsTruthy_iff)
next
  case (TDouble d)
  then have d: "d \<le> 0xFFFAFFFFFFFFFFFF" using assms by (simp add: tv_ok_def)
  have "d \<noteq> 0xFFFCFFFF0000007F" "d \<noteq> 0xFFFCFFFF0000007E" "d \<noteq> 0xFFFCFFFF0000007D" using d by auto
  with TDouble double_checks [OF d] show ?thesis by (simp add: box_def unbox_def CreateDouble_def IsTruthy_iff)
next
  case TNil
  with miv_checks [OF miv_word_constants(1)] not_double_nan [OF box_ok [OF assms]] show ?thesis
    by (simp add: box_def unbox_def IsNil_def IsTruthy_iff miv_constants)
next
  case (TBool b)
  with miv_checks [OF miv_word_constants(3) [of b]] not_double_nan [OF box_ok [OF assms]] show ?thesis
    by (cases b) (simp_all add: box_def unbox_def IsNil_def IsBool_def AsBool_def AsMIV_def GetBooleanValue_def
        IsTruthy_iff miv_constants tag_defs)
next
  case (TObj p)
  then have p: "ptr_ok p" "ty p = ET_Object" using assms by (simp_all add: tv_ok_def)
  have "p \<noteq> 0xFFFCFFFF0000007F" "p \<noteq> 0xFFFCFFFF0000007E" "p \<noteq> 0xFFFCFFFF0000007D" using p by (auto simp: ptr_ok_def)
  with TObj p ptr_checks [OF p(1)] not_double_nan [OF box_ok [OF assms]] show ?thesis
    by (simp add: box_def unbox_def CreatePointer_def IsTruthy_iff)
next
  case (TFun p)
  then have p: "ptr_ok p" "ty p = ET_Function" using assms by (simp_all add: tv_ok_def)
  have "p \<noteq> 0xFFFCFFFF0000007F" "p \<noteq> 0xFFFCFFFF0000007E" "p \<noteq> 0xFFFCFFFF0000007D" using p by (auto simp: ptr_ok_def)
  with TFun p ptr_checks [OF p(1)] not_double_nan [OF box_ok [OF assms]] show ?thesis
    by (simp add: box_def unbox_def CreatePointer_def IsTruthy_iff)
next
  case (TRaw n)
  then show ?thesis using assms by (simp add: tv_ok_def)
next
  case TImpossible
  with miv_checks [OF miv_word_constants(2)] not_double_nan [OF box_ok [OF assms]] show ?thesis
    by (simp add: box_def unbox_def IsNil_def IsTruthy_iff miv_constants)
qed

theorem box_roundtrip_witness:
  "unbox (\<lambda>_. ET_Object) (box (TObj 0xFFFFFFFC00000010)) = Some (TObj 0xFFFFFFFC00000010)"
  using box_roundtrip [of "\<lambda>_. ET_Object" "TObj 0xFFFFFFFC00000010"] by (simp add: tv_ok_def ptr_ok_def)

end
