(* ===== verification/TypeMask.thy ===== *)
theory TypeMask
  imports TValue
begin

section \<open>Type masks\<close>

text \<open>
  The lattice of types of \<open>src/drt/tvalue.h\<close>: the list of types, the type checks, the bit masks
  the templates compute from the definitions of the types, \<open>GetTypeForBoxedValue\<close> and \<open>TypeMask\<close>.
  The lattice is what the JIT compilers reason with. \<open>ty\<close> is the type in the header of the heap
  object at an address. The theorems say that the masks are exact: the single bit computed for a
  value lies in the mask of a type if and only if the check of that type succeeds on the value.
\<close>

datatype tspec =
    tNil | tBool | tMIV | tDoubleNotNaN | tDoubleNaN | tInt32 | tDouble
  | tFunction | tThread | tObject | tHeapEntity
  | tBottom | tGarbage | tOpaque | tBoxedValueTop | tFullTop

datatype tsm = tsm_type tspec | tsm_or "tsm list" | tsm_not tsm

text \<open>\<open>TSMDef\<close>: \<open>None\<close> for \<open>TypeSpeculationLeaf\<close> (and for the special lattice values, which have none).\<close>

definition TSMDef :: "tspec \<Rightarrow> tsm option" where
  "TSMDef T = (case T of
      tMIV \<Rightarrow> Some (tsm_or [tsm_type tNil, tsm_type tBool])
    | tDouble \<Rightarrow> Some (tsm_or [tsm_type tDoubleNotNaN, tsm_type tDoubleNaN])
    | tHeapEntity \<Rightarrow> Some (tsm_or [tsm_or [], tsm_type tFunction, tsm_type tThread, tsm_type tObject])
    | _ \<Rightarrow> None)"

definition TypeSpecializationList :: "tspec list" where
  "TypeSpecializationList =
     [tNil, tBool, tMIV, tDoubleNotNaN, tDoubleNaN, tInt32, tDouble, tFunction, tThread, tObject,
      tHeapEntity, tBottom, tGarbage, tOpaque, tBoxedValueTop, tFullTop]"

text \<open>The checks. \<open>tGarbage\<close> and \<open>tOpaque\<close> must not be checked for.\<close>

definition check :: "(u64 \<Rightarrow> HeapEntityType) \<Rightarrow> tspec \<Rightarrow> u64 \<Rightarrow> bool res" where
  "check ty T v = (case T of
      tNil \<Rightarrow> Inr (IsNil v)
    | tBool \<Rightarrow> Inr (IsMIV v \<and> \<not> IsNil v)
    | tMIV \<Rightarrow> Inr (IsMIV v)
    | tDoubleNotNaN \<Rightarrow> Inr (IsDoubleNotNaN v)
    | tDoubleNaN \<Rightarrow> Inr (IsDoubleNaN v)
    | tInt32 \<Rightarrow> Inr (IsInt32 v)
    | tDouble \<Rightarrow> Inr (IsDouble v)
    | tFunction \<Rightarrow> Inr (IsPointer v \<and> ty v = ET_Function)
    | tThread \<Rightarrow> Inr (IsPointer v \<and> ty v = ET_Thread)
    | tObject \<Rightarrow> Inr (IsPointer v \<and> ty v = ET_Object)
    | tHeapEntity \<Rightarrow> Inr (IsPointer v)
    | tBottom \<Rightarrow> Inr False
    | tGarbage \<Rightarrow> Inl ReleaseAssertFailed
    | tOpaque \<Rightarrow> Inl ReleaseAssertFailed
    | tBoxedValueTop \<Rightarrow> Inr True
    | tFullTop \<Rightarrow> Inr True)"

subsection \<open>Masks\<close>

definition is_type_speculation_leaf :: "tspec \<Rightarrow> bool" where
  "is_type_speculation_leaf T =
     (if T = tFullTop \<or> T = tBoxedValueTop \<or> T = tBottom then False
      else if T = tGarbage \<or> T = tOpaque then True
      else TSMDef T = None)"

fun count_leaves :: "tspec list \<Rightarrow> nat" where
  "count_leaves [] = 0"
| "count_leaves (T # Ts) = of_bool (is_type_speculation_leaf T) + count_leaves Ts"

definition x_numUsefulBitsInFullTypeMask :: nat where
  "x_numUsefulBitsInFullTypeMask = count_leaves TypeSpecializationList"

definition x_numUsefulBitsInBytecodeTypeMask :: nat where
  "x_numUsefulBitsInBytecodeTypeMask = x_numUsefulBitsInFullTypeMask - 2"

fun leaf_ordinal :: "tspec \<Rightarrow> tspec list \<Rightarrow> nat" where
  "leaf_ordinal T [] = 0"
| "leaf_ordinal T (F # Fs) = (if T = F then 0 else of_bool (is_type_speculation_leaf F) + leaf_ordinal T Fs)"

definition ComputeTypeMaskForTop :: u32 where
  "ComputeTypeMaskForTop = drop_bit (32 - x_numUsefulBitsInBytecodeTypeMask) (- 1)"

fun eval_operator :: "(tspec \<Rightarrow> u32) \<Rightarrow> tsm \<Rightarrow> u32" where
  "eval_operator f (tsm_type T) = f T"
| "eval_operator f (tsm_or args) = fold (\<lambda>a r. r OR eval_operator f a) args 0"
| "eval_operator f (tsm_not a) = ComputeTypeMaskForTop XOR eval_operator f a"

text \<open>
  \<open>compute\<close>: the definitions of the types only name leaves, so the masks of leaves (and of the special
  values) are computed first and the others from them.
\<close>

definition compute_leaf :: "tspec \<Rightarrow> u32" where
  "compute_leaf T =
     (if T = tBottom then 0
      else if T = tBoxedValueTop then ComputeTypeMaskForTop
      else if T = tGarbage then push_bit x_numUsefulBitsInBytecodeTypeMask 1
      else if T = tOpaque then push_bit (x_numUsefulBitsInBytecodeTypeMask + 1) 1
      else push_bit (leaf_ordinal T TypeSpecializationList) 1)"

definition x_typeMaskFor :: "tspec \<Rightarrow> u32" where
  "x_typeMaskFor T =
     (if T = tFullTop then compute_leaf tBoxedValueTop OR compute_leaf tGarbage OR compute_leaf tOpaque
      else case TSMDef T of None \<Rightarrow> compute_leaf T | Some d \<Rightarrow> eval_operator compute_leaf d)"

definition x_heapEntityTypeMaskMap :: "HeapEntityType \<Rightarrow> u32 res" where
  "x_heapEntityTypeMaskMap t = (case t of
      ET_Function \<Rightarrow> Inr (x_typeMaskFor tFunction)
    | ET_Thread \<Rightarrow> Inr (x_typeMaskFor tThread)
    | ET_Object \<Rightarrow> Inr (x_typeMaskFor tObject)
    | _ \<Rightarrow> Inl OutOfRange)"

definition GetTypeForBoxedValue :: "bool \<Rightarrow> (u64 \<Rightarrow> HeapEntityType) \<Rightarrow> u64 \<Rightarrow> u32 res" where
  "GetTypeForBoxedValue tb ty v =
     (if IsDouble v then
        if IsDoubleNotNaN v then Inr (x_typeMaskFor tDoubleNotNaN) else Inr (x_typeMaskFor tDoubleNaN)
      else if IsPointer v then x_heapEntityTypeMaskMap (ty v)
      else if IsMIV v then
        if IsNil v then Inr (x_typeMaskFor tNil)
        else bindR (TestAssert tb (IsMIV v \<and> \<not> IsNil v)) (\<lambda>_. Inr (x_typeMaskFor tBool))
      else bindR (TestAssert tb (IsInt32 v)) (\<lambda>_. Inr (x_typeMaskFor tInt32)))"

text \<open>\<open>struct TypeMask\<close>\<close>

definition TM_Empty :: "u32 \<Rightarrow> bool" where "TM_Empty m \<longleftrightarrow> m = 0"
definition SubsetOf :: "u32 \<Rightarrow> u32 \<Rightarrow> bool" where "SubsetOf m n \<longleftrightarrow> m AND n = m"
definition StrictSubsetOf :: "u32 \<Rightarrow> u32 \<Rightarrow> bool" where "StrictSubsetOf m n \<longleftrightarrow> SubsetOf m n \<and> m \<noteq> n"
definition SupersetOf :: "u32 \<Rightarrow> u32 \<Rightarrow> bool" where "SupersetOf m n \<longleftrightarrow> m AND n = n"
definition StrictSupersetOf :: "u32 \<Rightarrow> u32 \<Rightarrow> bool" where "StrictSupersetOf m n \<longleftrightarrow> SupersetOf m n \<and> m \<noteq> n"
definition DisjointFrom :: "u32 \<Rightarrow> u32 \<Rightarrow> bool" where "DisjointFrom m n \<longleftrightarrow> m AND n = 0"
definition OverlapsWith :: "u32 \<Rightarrow> u32 \<Rightarrow> bool" where "OverlapsWith m n \<longleftrightarrow> m AND n \<noteq> 0"
definition Cap :: "u32 \<Rightarrow> u32 \<Rightarrow> u32" where "Cap m n = m AND n"
definition Cup :: "u32 \<Rightarrow> u32 \<Rightarrow> u32" where "Cup m n = m OR n"
definition Subtract :: "u32 \<Rightarrow> u32 \<Rightarrow> u32" where "Subtract m n = m AND NOT n"

subsection \<open>The masks are exact\<close>

lemma type_masks:
  "x_typeMaskFor tNil = 1" "x_typeMaskFor tBool = 2" "x_typeMaskFor tMIV = 3"
  "x_typeMaskFor tDoubleNotNaN = 4" "x_typeMaskFor tDoubleNaN = 8" "x_typeMaskFor tInt32 = 16"
  "x_typeMaskFor tDouble = 12" "x_typeMaskFor tFunction = 32" "x_typeMaskFor tThread = 64"
  "x_typeMaskFor tObject = 128" "x_typeMaskFor tHeapEntity = 224" "x_typeMaskFor tBottom = 0"
  "x_typeMaskFor tBoxedValueTop = 255" "x_typeMaskFor tGarbage = 256" "x_typeMaskFor tOpaque = 512"
  "x_typeMaskFor tFullTop = 1023"
  by code_simp+

lemma miv_word_cases: "miv_word v \<Longrightarrow> \<not> IsNil v \<or> v = NilV"
  by (simp add: IsNil_def)

lemma IsNil_IsMIV: "IsNil v \<Longrightarrow> IsMIV v"
  using miv_checks(3) [OF miv_word_constants(1)] by (simp add: IsNil_def)

lemma IsDoubleNaN_facts: "IsDoubleNaN v \<Longrightarrow> IsDouble v \<and> is_nan v"
proof -
  have "v = 0x7ff8000000000000 \<Longrightarrow> is_nan v"
    by (simp add: is_nan_def decode_def dbl_exp_def dbl_frac_def)
  then show "IsDoubleNaN v \<Longrightarrow> ?thesis"
    by (simp add: IsDoubleNaN_def x_pureNaN_def IsDouble_def tag_defs)
qed

text \<open>C15. The type lattice is exact, but for NaNs: for every word the runtime creates (whose heap object, if it is a
  pointer, has a type exposed to the language), \<open>GetTypeForBoxedValue\<close> returns a single bit without failing an assertion, and the
  check of any type of the list succeeds on the word if and only if that bit is in the mask computed for the type, except that the check of
  \<open>tDoubleNaN\<close> accepts the pure NaN alone, although every NaN gets the bit of \<open>tDoubleNaN\<close>. The two types that no boxed
  value has, \<open>tGarbage\<close> and \<open>tOpaque\<close>, cannot be checked: their check fails a release assertion.\<close>

theorem type_masks_exact:
  assumes ok: "boxed_ok v"
    and heap: "IsPointer v \<Longrightarrow> ty v \<in> {ET_Function, ET_Thread, ET_Object}"
  shows "\<exists>m. GetTypeForBoxedValue tb ty v = Inr m \<and> is_power_of_2 (unat m) \<and>
             check ty T v =
               (if T = tGarbage \<or> T = tOpaque then Inl ReleaseAssertFailed
                else Inr (SubsetOf m (x_typeMaskFor T) \<and> (T = tDoubleNaN \<longrightarrow> v = x_pureNaN)))"
proof -
  note one = boxed_partition [OF ok, THEN conjunct2, THEN conjunct2, THEN conjunct2, THEN conjunct2]
  note ndn = not_double_nan [OF ok]
  have pow: "is_power_of_2 1" "is_power_of_2 2" "is_power_of_2 4" "is_power_of_2 8" "is_power_of_2 16"
    "is_power_of_2 32" "is_power_of_2 64" "is_power_of_2 128"
    by code_simp+
  note facts = GetTypeForBoxedValue_def check_def IsDoubleNotNaN_def SubsetOf_def type_masks pow TestAssert_def
    x_heapEntityTypeMaskMap_def
  consider (d) "IsDouble v" "\<not> IsInt32 v" "\<not> IsMIV v" "\<not> IsPointer v"
    | (i) "\<not> IsDouble v" "IsInt32 v" "\<not> IsMIV v" "\<not> IsPointer v"
    | (m) "\<not> IsDouble v" "\<not> IsInt32 v" "IsMIV v" "\<not> IsPointer v"
    | (p) "\<not> IsDouble v" "\<not> IsInt32 v" "\<not> IsMIV v" "IsPointer v"
    using one by (auto split: if_splits)
  then show ?thesis
  proof cases
    case d
    then have "\<not> IsNil v" using IsNil_IsMIV by blast
    moreover have "IsDoubleNaN v \<longleftrightarrow> is_nan v \<and> v = x_pureNaN"
      using IsDoubleNaN_facts by (auto simp: IsDoubleNaN_def)
    ultimately show ?thesis using d by (cases T) (auto simp: facts)
  next
    case i
    then have "\<not> IsNil v" "\<not> IsDoubleNaN v" "is_nan v" using IsNil_IsMIV IsDoubleNaN_facts ndn by blast+
    then show ?thesis using i by (cases T) (simp_all add: facts)
  next
    case m
    then have "\<not> IsDoubleNaN v" "is_nan v" using IsDoubleNaN_facts ndn by blast+
    then show ?thesis using m by (cases T) (auto simp: facts)
  next
    case p
    then have "\<not> IsNil v" "\<not> IsDoubleNaN v" "is_nan v" using IsNil_IsMIV IsDoubleNaN_facts ndn by blast+
    then show ?thesis using p heap [OF p(4)] by (cases T) (auto simp: facts)
  qed
qed

theorem type_masks_exact_witness:
  "\<exists>m. GetTypeForBoxedValue True (\<lambda>_. ET_Object) (CreateInt32 7) = Inr m \<and>
       check (\<lambda>_. ET_Object) tInt32 (CreateInt32 7) = Inr (SubsetOf m (x_typeMaskFor tInt32))"
proof -
  have ok: "boxed_ok (CreateInt32 7)" using CreateInt32_word by (simp add: boxed_ok_def)
  show ?thesis
    using type_masks_exact [OF ok, of "\<lambda>_. ET_Object" True tInt32] int_checks [OF CreateInt32_word [of 7]]
    by auto
qed

text \<open>The exception is reached: the NaN the hardware generates, which is the result of
  \<open>0.0 // 0.0\<close>, is a double that neither \<open>tDoubleNotNaN\<close> nor \<open>tDoubleNaN\<close> recognises.\<close>

lemma default_nan_unrecognised:
  "dbl_div 0 0 = default_nan \<and> IsDouble default_nan \<and>
   GetTypeForBoxedValue True ty default_nan = Inr (x_typeMaskFor tDoubleNaN) \<and>
   check ty tDoubleNaN default_nan = Inr False \<and> check ty tDoubleNotNaN default_nan = Inr False"
proof -
  have "is_nan default_nan" by (simp add: is_nan_def decode_def dbl_exp_def dbl_frac_def default_nan_def)
  moreover have "dbl_div 0 0 = default_nan" by code_simp
  ultimately show ?thesis
    by (simp add: GetTypeForBoxedValue_def check_def IsDouble_def IsDoubleNotNaN_def IsDoubleNaN_def x_pureNaN_def
        tag_defs default_nan_def)
qed

text \<open>C16. The operations of \<open>TypeMask\<close> are the operations of the lattice of sets of types: intersection,
  union, difference, inclusion, disjointness and emptiness of the sets of bits.\<close>

theorem TypeMask_set_algebra:
  "{n. bit (Cap a b) n} = {n. bit a n} \<inter> {n. bit b n} \<and>
   {n. bit (Cup a b) n} = {n. bit a n} \<union> {n. bit b n} \<and>
   {n. bit (Subtract a b) n} = {n. bit a n} - {n. bit b n} \<and>
   (SubsetOf a b \<longleftrightarrow> {n. bit a n} \<subseteq> {n. bit b n}) \<and>
   (StrictSubsetOf a b \<longleftrightarrow> {n. bit a n} \<subset> {n. bit b n}) \<and>
   (SupersetOf a b \<longleftrightarrow> {n. bit b n} \<subseteq> {n. bit a n}) \<and>
   (StrictSupersetOf a b \<longleftrightarrow> {n. bit b n} \<subset> {n. bit a n}) \<and>
   (DisjointFrom a b \<longleftrightarrow> {n. bit a n} \<inter> {n. bit b n} = {}) \<and>
   (OverlapsWith a b \<longleftrightarrow> {n. bit a n} \<inter> {n. bit b n} \<noteq> {}) \<and>
   (TM_Empty a \<longleftrightarrow> {n. bit a n} = {})"
proof -
  have eq: "x = y \<longleftrightarrow> {n. bit x n} = {n. bit y n}" for x y :: u32 by (metis Collect_inj bit_eqI)
  have sub: "SubsetOf x y \<longleftrightarrow> {n. bit x n} \<subseteq> {n. bit y n}" "SupersetOf x y \<longleftrightarrow> {n. bit y n} \<subseteq> {n. bit x n}" for x y
    unfolding SubsetOf_def SupersetOf_def eq by (auto simp: bit_simps)
  have "x AND y = 0 \<longleftrightarrow> {n. bit x n} \<inter> {n. bit y n} = {}" for x y :: u32
    unfolding eq by (auto simp: bit_simps)
  then show ?thesis
    unfolding StrictSubsetOf_def StrictSupersetOf_def sub DisjointFrom_def OverlapsWith_def TM_Empty_def
      Cap_def Cup_def Subtract_def eq
    by (auto simp: bit_simps dest: bit_imp_le_length)
qed

end
