(* ===== verification/DoubleLib.thy ===== *)
theory DoubleLib
  imports Double Lexer
begin

section \<open>Conversions and library functions on doubles\<close>

text \<open>
  What the primitives use of the C++ conversions and of the standard library on \<open>double\<close>: truncation
  to an integer type, \<open>llround\<close>, \<open>sqrt\<close> (correctly rounded, as IEEE 754 requires) and the output of
  \<open>ostringstream\<close> with precision 17. The lemmas show that 32-bit integers convert to doubles exactly.
\<close>

subsection \<open>Conversions\<close>

definition dbl_trunc :: "dbl \<Rightarrow> int option" where
  "dbl_trunc d =
     (case decode d of
        FFin s m e \<Rightarrow> Some (signed s (if 0 \<le> e then m * 2 ^ nat e else m div 2 ^ nat (- e)))
      | _ \<Rightarrow> None)"

text \<open>A conversion of a value outside the target type is undefined.\<close>

definition dbl_to_signed :: "nat \<Rightarrow> dbl \<Rightarrow> int res" where
  "dbl_to_signed w d =
     (case dbl_trunc d of
        Some i \<Rightarrow> if - (2 ^ (w - 1)) \<le> i \<and> i < 2 ^ (w - 1) then Inr i else Inl Undefined
      | None \<Rightarrow> Inl Undefined)"

definition llround :: "dbl \<Rightarrow> int res" where
  "llround d =
     (case decode d of
        FFin s m e \<Rightarrow>
          let i = signed s (if 0 \<le> e then m * 2 ^ nat e else (2 * m + 2 ^ nat (- e)) div (2 * 2 ^ nat (- e)))
          in if - (2 ^ 63) \<le> i \<and> i < 2 ^ 63 then Inr i else Inl Undefined
      | _ \<Rightarrow> Inl Undefined)"

definition dbl_integral :: "dbl \<Rightarrow> bool" where
  "dbl_integral d \<longleftrightarrow>
     (case decode d of FFin s m e \<Rightarrow> 0 \<le> e \<or> m mod 2 ^ nat (- e) = 0 | FInf _ \<Rightarrow> True | FNaN \<Rightarrow> False)"

subsection \<open>Square root\<close>

fun isqrt :: "int \<Rightarrow> int" where
  "isqrt n =
     (if n \<le> 0 then 0
      else let r = 2 * isqrt (n div 4) in if (r + 1) * (r + 1) \<le> n then r + 1 else r)"

declare isqrt.simps [simp del]

definition dbl_sqrt :: "dbl \<Rightarrow> dbl" where
  "dbl_sqrt d =
     (case decode d of
        FNaN \<Rightarrow> quiet d
      | FInf s \<Rightarrow> if s then default_nan else d
      | FFin s m e \<Rightarrow>
          if m = 0 then d else if s then default_nan
          else let k = 120 + e mod 2; n = m * 2 ^ nat k; r = isqrt n
               in round_dyadic False (2 * r + (if r * r < n then 1 else 0)) ((e - k) div 2 - 1))"

subsection \<open>Output with 17 significant digits\<close>

fun int_digits :: "int \<Rightarrow> string" where
  "int_digits n = (if n < 10 then [char_of (48 + nat n)] else int_digits (n div 10) @ [char_of (48 + nat (n mod 10))])"

declare int_digits.simps [simp del]

definition show_int :: "int \<Rightarrow> string" where
  "show_int i = (if i < 0 then CHR ''-'' # int_digits (- i) else int_digits i)"

text \<open>The decimal exponent of a fraction below 1: the fuel 400 exceeds every exponent of a double.\<close>

fun small_exp10 :: "nat \<Rightarrow> int \<Rightarrow> int \<Rightarrow> int" where
  "small_exp10 0 n d = 0"
| "small_exp10 (Suc f) n d = (if d \<le> n then 0 else small_exp10 f (n * 10) d - 1)"

definition exp10 :: "int \<Rightarrow> int \<Rightarrow> int" where
  "exp10 n d = (if d \<le> n then int (length (int_digits (n div d))) - 1 else small_exp10 400 n d)"

definition sig17 :: "int \<Rightarrow> int \<Rightarrow> int \<times> int" where
  "sig17 n d =
     (let x = exp10 n d; k = 16 - x;
          q = (if 0 \<le> k then round_div (n * 10 ^ nat k) d else round_div n (d * 10 ^ nat (- k)))
      in if q = 10 ^ 17 then (10 ^ 16, x + 1) else (q, x))"

definition strip_zeros :: "string \<Rightarrow> string" where
  "strip_zeros s = rev (dropWhile (\<lambda>c. c = CHR ''0'') (rev s))"

definition with_frac :: "string \<Rightarrow> string \<Rightarrow> string" where
  "with_frac a b = (if strip_zeros b = [] then a else a @ ''.'' @ strip_zeros b)"

definition print_pos :: "int \<Rightarrow> int \<Rightarrow> string" where
  "print_pos n d =
     (let (q, x) = sig17 n d; ds = int_digits q
      in if - 4 \<le> x \<and> x < 17 then
           if 0 \<le> x then with_frac (take (nat x + 1) ds) (drop (nat x + 1) ds)
           else with_frac ''0'' (replicate (nat (- x) - 1) (CHR ''0'') @ ds)
         else with_frac (take 1 ds) (drop 1 ds) @ ''e'' @ (if x < 0 then ''-'' else ''+'') @
              (if \<bar>x\<bar> < 10 then ''0'' else []) @ int_digits \<bar>x\<bar>)"

definition print_double :: "dbl \<Rightarrow> string" where
  "print_double d =
     (if dbl_sign d then ''-'' else []) @
     (case decode d of
        FNaN \<Rightarrow> ''nan''
      | FInf _ \<Rightarrow> ''inf''
      | FFin s m e \<Rightarrow>
          if m = 0 then ''0''
          else if 0 \<le> e then print_pos (m * 2 ^ nat e) 1 else print_pos m (2 ^ nat (- e)))"

subsection \<open>Integers convert exactly\<close>

lemma nbits_bounds: "0 < n \<Longrightarrow> 1 \<le> nbits n \<and> 2 ^ nat (nbits n - 1) \<le> n \<and> n < 2 ^ nat (nbits n)"
proof (induction n rule: nbits.induct)
  case (1 n)
  show ?case
  proof (cases "n = 1")
    case True
    then show ?thesis by (simp add: nbits.simps)
  next
    case False
    then have "0 < n div 2" "\<not> n \<le> 0" using "1.prems" by linarith+
    with "1.IH" have ih: "1 \<le> nbits (n div 2)" "2 ^ nat (nbits (n div 2) - 1) \<le> n div 2" "n div 2 < 2 ^ nat (nbits (n div 2))"
      by simp_all
    obtain k where k: "nbits (n div 2) = int (Suc k)"
      using zero_less_imp_eq_int [of "nbits (n div 2)"] ih(1) by (metis Suc_pred int_one_le_iff_zero_less zero_less_one less_le_trans)
    have "nbits n = int (Suc (Suc k))" using "1.prems" k by (subst nbits.simps) simp
    moreover have "nat (1 + int k) = Suc k" by simp
    then have "2 * 2 ^ k \<le> n" "n < 2 * (2 * 2 ^ k)" using ih k by simp_all
    ultimately show ?thesis by (simp add: nat_add_distrib)
  qed
qed

lemma nbits_eq: "0 \<le> b \<Longrightarrow> 2 ^ nat b \<le> n \<Longrightarrow> n < 2 ^ nat (b + 1) \<Longrightarrow> nbits n = b + 1"
proof -
  assume b: "0 \<le> b" and n: "2 ^ nat b \<le> n" "n < 2 ^ nat (b + 1)"
  have "0 < n" using n(1) by (metis less_le_trans zero_less_numeral zero_less_power)
  note nb = nbits_bounds [OF this]
  have "2 ^ nat (nbits n - 1) < (2 :: int) ^ nat (b + 1)" "(2 :: int) ^ nat b < 2 ^ nat (nbits n)"
    using nb n by linarith+
  then have "nat (nbits n - 1) < nat (b + 1)" "nat b < nat (nbits n)" by simp_all
  with b nb show ?thesis by linarith
qed

lemma round_pos_int:
  assumes "0 < n" and "n < 2 ^ 53"
  defines "b \<equiv> nbits n - 1"
  shows "0 \<le> b" and "b \<le> 52" and "round_pos n 1 = (b + 1022) * 2 ^ 52 + n * 2 ^ nat (52 - b)"
    and "2 ^ 52 \<le> n * 2 ^ nat (52 - b)" and "n * 2 ^ nat (52 - b) < 2 ^ 53"
proof -
  note nb = nbits_bounds [OF assms(1)]
  show b0: "0 \<le> b" using nb by (simp add: b_def)
  have "(2 :: int) ^ nat b < 2 ^ 53" using nb assms(2) unfolding b_def by linarith
  then have "nat b < 53" by (simp only: power_strict_increasing_iff)
  then show b52: "b \<le> 52" by linarith
  have lo: "2 ^ nat b \<le> n" and hi: "n < 2 * 2 ^ nat b"
    using nb b0 unfolding b_def by (simp_all add: nat_diff_distrib power_diff flip: power_Suc) 
  have sum: "(2 :: int) ^ nat b * 2 ^ nat (52 - b) = 2 ^ 52"
    using b0 b52 by (simp flip: power_add add: nat_add_distrib [symmetric])
  show l: "2 ^ 52 \<le> n * 2 ^ nat (52 - b)"
    unfolding sum [symmetric] using lo by (intro mult_right_mono) simp_all
  have "n * 2 ^ nat (52 - b) < (2 * 2 ^ nat b) * 2 ^ nat (52 - b)"
    using hi by (intro mult_strict_right_mono) simp_all
  also have "\<dots> = 2 ^ 53" using sum by (simp add: mult.assoc)
  finally show h: "n * 2 ^ nat (52 - b) < 2 ^ 53" .
  have "nbits 1 = 1" by (simp add: nbits.simps)
  then have fl: "floor_log2 n 1 = b" using b0 lo by (simp add: floor_log2_def b_def Let_def)
  have "(b + 1022) * 2 ^ 52 + n * 2 ^ nat (52 - b) \<le> inf_bits"
    using h b52 by (simp add: inf_bits_def)
  then show "round_pos n 1 = (b + 1022) * 2 ^ 52 + n * 2 ^ nat (52 - b)"
    using b0 b52 by (simp add: round_pos_def fl Let_def round_div_def)
qed

lemma decode_with_sign:
  assumes "0 \<le> p" and "p < 2 ^ 63"
  shows "dbl_sign (with_sign s p) = s" and "dbl_exp (with_sign s p) = p div 2 ^ 52"
    and "dbl_frac (with_sign s p) = p mod 2 ^ 52"
proof -
  have u: "uint (with_sign s p) = (if s then 2 ^ 63 + p else p)"
    using assms by (simp add: with_sign_def word_of_int_inverse uint_word_of_int_eq take_bit_int_eq_self)
  have "p div 2 ^ 52 < 2048" "0 \<le> p div 2 ^ 52" using assms by simp_all
  moreover have "(2 ^ 63 + p) div 2 ^ 52 = 2048 + p div 2 ^ 52" "(2 ^ 63 + p) mod 2 ^ 52 = p mod 2 ^ 52"
    using div_mult_self3 [of "2 ^ 52" 2048 p] mod_mult_self3 [of 2048 "2 ^ 52" p] by simp_all
  ultimately show "dbl_sign (with_sign s p) = s" "dbl_exp (with_sign s p) = p div 2 ^ 52"
    "dbl_frac (with_sign s p) = p mod 2 ^ 52"
    using assms by (auto simp: dbl_sign_def dbl_exp_def dbl_frac_def u)
qed

text \<open>A non-zero integer below 2^53 is represented exactly, with its leading bit explicit.\<close>

lemma decode_dbl_of_int:
  assumes "\<bar>i\<bar> < 2 ^ 53"
  obtains k where "decode (dbl_of_int i) = FFin (i < 0) (\<bar>i\<bar> * 2 ^ k) (- int k)"
proof (cases "i = 0")
  case True
  then have "dbl_of_int i = with_sign False 0" by (simp add: dbl_of_int_def round_dyadic_def)
  then have "decode (dbl_of_int i) = FFin False 0 (- 1074)"
    using decode_with_sign [of 0 False] by (simp add: decode_def)
  with True that [of 1074] show ?thesis by simp
next
  case False
  then have pos: "0 < \<bar>i\<bar>" by simp
  define b where "b = nbits \<bar>i\<bar> - 1"
  note r = round_pos_int [OF pos assms, folded b_def]
  let ?q = "\<bar>i\<bar> * 2 ^ nat (52 - b)"
  have bits: "dbl_of_int i = with_sign (i < 0) ((b + 1023) * 2 ^ 52 + (?q - 2 ^ 52))"
    using False r(3) by (simp add: dbl_of_int_def round_dyadic_def round_frac_def algebra_simps)
  have "(b + 1023) * 2 ^ 52 + (?q - 2 ^ 52) < 2 ^ 63" using r(2,5) by simp
  moreover have "0 \<le> (b + 1023) * 2 ^ 52 + (?q - 2 ^ 52)" using r(1,4) by simp
  moreover have "((b + 1023) * 2 ^ 52 + (?q - 2 ^ 52)) div 2 ^ 52 = b + 1023"
    by (rule int_div_pos_eq [where r = "?q - 2 ^ 52"]) (use r(4,5) in simp_all)
  moreover have "((b + 1023) * 2 ^ 52 + (?q - 2 ^ 52)) mod 2 ^ 52 = ?q - 2 ^ 52"
    by (rule int_mod_pos_eq [where q = "b + 1023"]) (use r(4,5) in simp_all)
  ultimately have "decode (dbl_of_int i) = FFin (i < 0) ?q (b + 1023 - 1075)"
    using decode_with_sign [of "(b + 1023) * 2 ^ 52 + (?q - 2 ^ 52)" "i < 0"] r(1,2)
    unfolding bits by (simp add: decode_def)
  with r(2) that [of "nat (52 - b)"] show ?thesis by (simp add: algebra_simps)
qed

lemma signed_abs: "signed (i < 0) (\<bar>i\<bar> * m) = i * m"
  by (simp add: signed_def)

text \<open>Truncation inverts the conversion, and comparisons of converted integers are those of the integers.\<close>

lemma dbl_trunc_of_int: "\<bar>i\<bar> < 2 ^ 53 \<Longrightarrow> dbl_trunc (dbl_of_int i) = Some i"
proof (erule decode_dbl_of_int)
  fix k
  assume d: "decode (dbl_of_int i) = FFin (i < 0) (\<bar>i\<bar> * 2 ^ k) (- int k)"
  have "\<bar>i\<bar> * 2 ^ k div 2 ^ k = \<bar>i\<bar>" by (rule nonzero_mult_div_cancel_right) simp
  moreover have "signed (i < 0) \<bar>i\<bar> = i" by (simp add: signed_def)
  ultimately show "dbl_trunc (dbl_of_int i) = Some i" unfolding dbl_trunc_def d by (cases "k = 0") (simp_all del: abs_mult)
qed

lemma dbl_cmp_of_int:
  assumes "\<bar>i\<bar> < 2 ^ 53" and "\<bar>j\<bar> < 2 ^ 53"
  obtains m where "0 < m" "\<And>r. dbl_cmp r (dbl_of_int i) (dbl_of_int j) = r (i * m) (j * m)"
proof -
  obtain k where k: "decode (dbl_of_int i) = FFin (i < 0) (\<bar>i\<bar> * 2 ^ k) (- int k)"
    by (rule decode_dbl_of_int [OF assms(1)])
  obtain l where l: "decode (dbl_of_int j) = FFin (j < 0) (\<bar>j\<bar> * 2 ^ l) (- int l)"
    by (rule decode_dbl_of_int [OF assms(2)])
  let ?g = "min (- int k) (- int l)"
  have "k + nat (- int k - ?g) = max k l" "l + nat (- int l - ?g) = max k l" by auto
  then have "cmp_int (decode (dbl_of_int i)) (decode (dbl_of_int j)) = Some (i * 2 ^ max k l, j * 2 ^ max k l)"
    unfolding k l cmp_int_def by (simp add: Let_def signed_abs mult.assoc flip: power_add)
  then show ?thesis using that [of "2 ^ max k l"] by (simp add: dbl_cmp_def)
qed

lemma dbl_compare_of_int:
  assumes "\<bar>i\<bar> < 2 ^ 53" and "\<bar>j\<bar> < 2 ^ 53"
  shows "dbl_eq (dbl_of_int i) (dbl_of_int j) \<longleftrightarrow> i = j" and "dbl_lt (dbl_of_int i) (dbl_of_int j) \<longleftrightarrow> i < j"
    and "dbl_le (dbl_of_int i) (dbl_of_int j) \<longleftrightarrow> i \<le> j"
  by (rule dbl_cmp_of_int [OF assms]; simp add: dbl_eq_def dbl_lt_def dbl_le_def)+

end
