(* ===== verification/VMState.thy ===== *)
theory VMState
  imports Objects
begin

section \<open>Globals, interned objects and the classes of values\<close>

text \<open>
  The language-level operations of \<open>VM\<close> (\<open>src/runtime/vm.h\<close>, \<open>src/runtime/vm.cpp\<close>) and
  \<open>src/runtime/som_utils.h\<close>. \<open>H\<close> is the hash function of the interner, \<open>tb\<close> the build flavour.
\<close>

definition InternV :: "(string \<Rightarrow> u64) \<Rightarrow> string \<Rightarrow> nat vmop" where
  "InternV H s = (\<lambda>V. let (i, I) = InternString H s (m_interner V) in Inr (i, V\<lparr>m_interner := I\<rparr>))"

definition GetSlotForGlobalNoCreate :: "(string \<Rightarrow> u64) \<Rightarrow> string \<Rightarrow> nat option vmop" where
  "GetSlotForGlobalNoCreate H globalName =
     bindS (InternV H globalName) (\<lambda>ord. getS (\<lambda>V. m_globalIdxMap V ord))"

definition GetSlotForGlobal :: "(string \<Rightarrow> u64) \<Rightarrow> string \<Rightarrow> nat vmop" where
  "GetSlotForGlobal H globalName =
     bindS (InternV H globalName) (\<lambda>ord.
     bindS (getS (\<lambda>V. m_globalIdxMap V ord)) (\<lambda>it.
     case it of
       None \<Rightarrow>
         (\<lambda>V. let idx = length (m_globalsVec V)
              in Inr (idx, V\<lparr>m_globalsVec := m_globalsVec V @ [TImpossible],
                             m_globalIdxMap := (m_globalIdxMap V)(ord \<mapsto> idx),
                             m_globalStringIdWithIndex := m_globalStringIdWithIndex V @ [ord]\<rparr>))
     | Some idx \<Rightarrow> retS idx))"

definition VM_GetGlobal :: "nat \<Rightarrow> val vmop" where
  "VM_GetGlobal idx = (\<lambda>V. if idx < length (m_globalsVec V) then Inr (m_globalsVec V ! idx, V) else Inl OutOfRange)"

definition set_global :: "nat \<Rightarrow> val \<Rightarrow> unit vmop" where
  "set_global idx v = modS (\<lambda>V. V\<lparr>m_globalsVec := (m_globalsVec V)[idx := v]\<rparr>)"

definition SetSOMGlobal :: "bool \<Rightarrow> (string \<Rightarrow> u64) \<Rightarrow> string \<Rightarrow> val \<Rightarrow> unit vmop" where
  "SetSOMGlobal tb H key v =
     bindS (GetSlotForGlobal H key) (\<lambda>slot.
     bindS (VM_GetGlobal slot) (\<lambda>old.
     bindS (liftS (TestAssert tb (old = TImpossible))) (\<lambda>_. set_global slot v)))"

definition GetUniquedString :: "(string \<Rightarrow> u64) \<Rightarrow> string \<Rightarrow> SOMUniquedString vmop" where
  "GetUniquedString H str =
     bindS (InternV H str) (\<lambda>ord.
     bindS (getS m_interner) (\<lambda>I.
     case GetHash I ord of
       None \<Rightarrow> failS OutOfRange
     | Some h \<Rightarrow> retS \<lparr>us_id = of_nat ord, us_hash = ucast h\<rparr>))"

text \<open>\<open>std::vector::resize(ord + 1, nullptr)\<close>, when the vector is shorter.\<close>

definition grow :: "nat \<Rightarrow> 'a option list \<Rightarrow> 'a option list" where
  "grow ord xs = (if length xs \<le> ord then xs @ replicate (ord + 1 - length xs) None else xs)"

definition GetInternedString :: "nat \<Rightarrow> nat vmop" where
  "GetInternedString ord =
     bindS (getS m_interner) (\<lambda>I.
     case Get I ord of
       None \<Rightarrow> failS OutOfRange
     | Some s \<Rightarrow>
         bindS (modS (\<lambda>V. V\<lparr>m_internedStringObjects := grow ord (m_internedStringObjects V)\<rparr>)) (\<lambda>_.
         bindS (getS (\<lambda>V. m_internedStringObjects V ! ord)) (\<lambda>it.
         case it of
           Some a \<Rightarrow> retS a
         | None \<Rightarrow>
             bindS (AllocateString s) (\<lambda>a.
             bindS (modS (\<lambda>V. V\<lparr>m_internedStringObjects := (m_internedStringObjects V)[ord := Some a]\<rparr>)) (\<lambda>_.
             retS a)))))"

text \<open>The test assertion that the class of symbols is set is left out: \<open>m_symbolClass\<close> is an index here and never null.\<close>

definition GetInternedSymbol :: "nat \<Rightarrow> nat vmop" where
  "GetInternedSymbol ord =
     bindS (getS m_interner) (\<lambda>I.
     case Get I ord of
       None \<Rightarrow> failS OutOfRange
     | Some s \<Rightarrow>
         bindS (modS (\<lambda>V. V\<lparr>m_internedSymbolObjects := grow ord (m_internedSymbolObjects V)\<rparr>)) (\<lambda>_.
         bindS (getS (\<lambda>V. m_internedSymbolObjects V ! ord)) (\<lambda>it.
         case it of
           Some a \<Rightarrow> retS a
         | None \<Rightarrow>
             bindS (AllocateString s) (\<lambda>a.
             bindS (the_obj a) (\<lambda>x.
             bindS (getS m_symbolClass) (\<lambda>c.
             bindS (set_obj a (x\<lparr>o_hiddenClass := c\<rparr>)) (\<lambda>_.
             bindS (modS (\<lambda>V. V\<lparr>m_internedSymbolObjects := (m_internedSymbolObjects V)[ord := Some a]\<rparr>)) (\<lambda>_.
             retS a))))))))"

text \<open>\<open>GetSOMClassOfAny\<close>: the class of any value.\<close>

definition GetSOMClassOfAny :: "val \<Rightarrow> nat vmop" where
  "GetSOMClassOfAny v =
     (case v of
        TObj a \<Rightarrow> bindS (the_obj a) (\<lambda>x. retS (o_hiddenClass x))
      | TNil \<Rightarrow> getS m_nilClass
      | TBool b \<Rightarrow> getS (if b then m_trueClass else m_falseClass)
      | TInt _ \<Rightarrow> getS m_integerClass
      | TDouble _ \<Rightarrow> getS m_doubleClass
      | TFun f \<Rightarrow>
          bindS (the_fun f) (\<lambda>fo.
          case fo_type fo of
            SOM_BlockNoArg \<Rightarrow> getS m_block1Class
          | SOM_BlockNoArgImmSelf \<Rightarrow> getS m_block1Class
          | SOM_BlockOneArg \<Rightarrow> getS m_block2Class
          | SOM_BlockOneArgImmSelf \<Rightarrow> getS m_block2Class
          | SOM_BlockTwoArgs \<Rightarrow> getS m_block3Class
          | SOM_BlockTwoArgsImmSelf \<Rightarrow> getS m_block3Class
          | _ \<Rightarrow> failS Undefined)
      | _ \<Rightarrow> failS Undefined)"

text \<open>
  \<open>DeepCloneConstantArray\<close>: the elements of the copy that are arrays are replaced by their clones,
  from the first to the last. The fuel bounds the nesting depth.
\<close>

fun DeepCloneConstantArray :: "nat \<Rightarrow> val \<Rightarrow> val vmop"
and clone_elems :: "nat \<Rightarrow> nat \<Rightarrow> val list \<Rightarrow> nat \<Rightarrow> unit vmop"
where
  "DeepCloneConstantArray 0 v = failS OutOfFuel"
| "DeepCloneConstantArray (Suc n) v =
     bindS (array_content v) (\<lambda>vs.
     bindS (AllocateArray (length vs)) (\<lambda>r.
     bindS (FillArray r vs) (\<lambda>_.
     bindS (clone_elems n r vs 0) (\<lambda>_. retS (TObj r)))))"
| "clone_elems n r [] i = retS ()"
| "clone_elems n r (x # xs) i =
     bindS (case x of
              TObj a \<Rightarrow>
                bindS (the_obj a) (\<lambda>obj.
                bindS (getS m_arrayHiddenClass) (\<lambda>ac.
                if o_hiddenClass obj = ac
                then bindS (DeepCloneConstantArray n x) (\<lambda>y.
                     bindS (the_obj r) (\<lambda>ro.
                     bindS (liftS (array_of ro)) (\<lambda>vs.
                     set_obj r (ro\<lparr>o_payload := ArrayData (vs[i := y])\<rparr>))))
                else retS ()))
            | _ \<Rightarrow> retS ()) (\<lambda>_. clone_elems n r xs (Suc i))"

subsection \<open>Frame conditions\<close>

lemma keeps_heap [keeps_intros]:
  "keeps f (the_obj a)" "keeps f (the_class a)" "keeps f (the_fun a)"
  by (auto simp: keeps_def the_obj_def the_class_def the_fun_def split: if_splits)

lemma keeps_new_obj [keeps_intros]: "(\<And>V x. f (V\<lparr>h_objs := x\<rparr>) = f V) \<Longrightarrow> keeps f (new_obj y)"
  by (auto simp: keeps_def new_obj_def)

lemma keeps_set_obj [keeps_intros]: "(\<And>V x. f (V\<lparr>h_objs := x\<rparr>) = f V) \<Longrightarrow> keeps f (set_obj a y)"
  by (auto simp: keeps_def set_obj_def)

lemma keeps_alloc [keeps_intros]:
  assumes "\<And>V x. f (V\<lparr>h_objs := x\<rparr>) = f V"
  shows "keeps f (AllocateString s)" "keeps f (AllocateArray n)" "keeps f (FillArray a vs)"
  unfolding AllocateString_def AllocateArray_def FillArray_def
  by (intro keeps_intros assms)+

lemma keeps_GetInternedSymbol [keeps_intros]:
  assumes "\<And>V x. f (V\<lparr>h_objs := x\<rparr>) = f V" and "\<And>V x. f (V\<lparr>m_internedSymbolObjects := x\<rparr>) = f V"
  shows "keeps f (GetInternedSymbol ord)"
  unfolding GetInternedSymbol_def by (intro keeps_intros assms)

lemma keeps_InternV [keeps_intros]:
  assumes "\<And>V x. f (V\<lparr>m_interner := x\<rparr>) = f V"
  shows "keeps f (InternV H s)"
  using assms by (auto simp: keeps_def InternV_def split: prod.splits)

subsection \<open>Globals as a map from names to values\<close>

text \<open>
  \<open>globals_ok\<close>: the index map is a bijection between the interned names that have a slot and the
  slots, and \<open>m_globalStringIdWithIndex\<close> is its inverse.
\<close>

definition globals_ok :: "(string \<Rightarrow> u64) \<Rightarrow> VM \<Rightarrow> bool" where
  "globals_ok H V \<longleftrightarrow>
     interner_ok H (m_interner V) \<and>
     length (m_globalStringIdWithIndex V) = length (m_globalsVec V) \<and>
     (\<forall>ord idx. m_globalIdxMap V ord = Some idx \<longleftrightarrow>
        idx < length (m_globalsVec V) \<and> m_globalStringIdWithIndex V ! idx = ord) \<and>
     (\<forall>ord \<in> dom (m_globalIdxMap V). ord < length (m_list (m_interner V)))"

text \<open>The abstract view: the slot and the value of a name.\<close>

definition global_slot :: "VM \<Rightarrow> string \<Rightarrow> nat option" where
  "global_slot V name =
     (case m_map (m_interner V) name of None \<Rightarrow> None | Some ord \<Rightarrow> m_globalIdxMap V ord)"

definition global_value :: "VM \<Rightarrow> string \<Rightarrow> val option" where
  "global_value V name = map_option (\<lambda>idx. m_globalsVec V ! idx) (global_slot V name)"

lemma global_slot_vec [simp]: "global_slot (V\<lparr>m_globalsVec := x\<rparr>) n = global_slot V n"
  by (simp add: global_slot_def split: option.splits)

lemma InternV_step:
  assumes "globals_ok H V"
  obtains ord I where "InternV H s V = Inr (ord, V\<lparr>m_interner := I\<rparr>)" "interner_ok H I"
    "globals_ok H (V\<lparr>m_interner := I\<rparr>)" "m_map I s = Some ord"
    "\<And>n. global_slot (V\<lparr>m_interner := I\<rparr>) n = global_slot V n" "ord < length (m_list I)"
proof -
  obtain ord I where i: "InternString H s (m_interner V) = (ord, I)" by fastforce
  have ok: "interner_ok H (m_interner V)" using assms by (simp add: globals_ok_def)
  have 1: "interner_ok H I" "Get I ord = Some s"
    using si.intern_ok [OF ok, of s] si.intern_get [OF ok, of s] i by simp_all
  then have 2: "m_map I s = Some ord" "ord < length (m_list I)" by (simp_all add: interner_ok_map Get_eq_Some)
  have slot: "global_slot (V\<lparr>m_interner := I\<rparr>) n = global_slot V n" for n
  proof (cases "m_map (m_interner V) s")
    case None
    then have I: "m_map I = (m_map (m_interner V))(s \<mapsto> length (m_list (m_interner V)))" using i
      by (auto simp: InternString_new)
    have "m_globalIdxMap V (length (m_list (m_interner V))) = None"
      using assms by (auto simp: globals_ok_def)
    with I None show ?thesis by (auto simp: global_slot_def split: option.splits)
  next
    case (Some a)
    then show ?thesis using i by (simp add: InternString_known global_slot_def split: option.splits)
  qed
  have "length (m_list (m_interner V)) \<le> length (m_list I)"
    using i by (cases "m_map (m_interner V) s") (auto simp: InternString_known InternString_new)
  then have "globals_ok H (V\<lparr>m_interner := I\<rparr>)"
    using assms 1(1) by (auto simp: globals_ok_def intro: less_le_trans)
  with 1 2 slot show ?thesis using that [of ord I] i by (simp add: InternV_def)
qed

lemma GetSlotForGlobal_step:
  assumes ok: "globals_ok H V"
  obtains idx V' where "GetSlotForGlobal H name V = Inr (idx, V')" "globals_ok H V'"
    "global_slot V' name = Some idx" "idx < length (m_globalsVec V')"
    "\<And>n. global_value V' n =
           (if n = name \<and> global_value V name = None then Some TImpossible else global_value V n)"
proof -
  obtain ord I where i: "InternV H name V = Inr (ord, V\<lparr>m_interner := I\<rparr>)" and I: "interner_ok H I"
    and ok1: "globals_ok H (V\<lparr>m_interner := I\<rparr>)" and map: "m_map I name = Some ord"
    and slot: "\<And>n. global_slot (V\<lparr>m_interner := I\<rparr>) n = global_slot V n" and lt: "ord < length (m_list I)"
    using InternV_step [OF ok] by metis
  show ?thesis
  proof (cases "m_globalIdxMap V ord")
    case (Some idx)
    have v: "global_value (V\<lparr>m_interner := I\<rparr>) n = global_value V n" for n
      using slot [of n] by (simp add: global_value_def)
    have "global_slot (V\<lparr>m_interner := I\<rparr>) name = Some idx" using Some map by (simp add: global_slot_def)
    moreover have "idx < length (m_globalsVec V)" using Some ok by (auto simp: globals_ok_def)
    moreover have "global_value V name \<noteq> None" using calculation(1) slot by (simp add: global_value_def)
    ultimately show ?thesis
      using that [of idx "V\<lparr>m_interner := I\<rparr>"] ok1 Some i v by (simp add: GetSlotForGlobal_def)
  next
    case None
    let ?V = "V\<lparr>m_interner := I, m_globalsVec := m_globalsVec V @ [TImpossible],
                m_globalIdxMap := (m_globalIdxMap V)(ord \<mapsto> length (m_globalsVec V)),
                m_globalStringIdWithIndex := m_globalStringIdWithIndex V @ [ord]\<rparr>"
    have run: "GetSlotForGlobal H name V = Inr (length (m_globalsVec V), ?V)"
      using None i by (simp add: GetSlotForGlobal_def Let_def)
    have lens: "length (m_globalStringIdWithIndex V) = length (m_globalsVec V)" using ok by (simp add: globals_ok_def)
    have no: "\<And>idx. idx < length (m_globalsVec V) \<Longrightarrow> m_globalStringIdWithIndex V ! idx \<noteq> ord"
      using ok None unfolding globals_ok_def by (metis option.distinct(1))
    have "globals_ok H ?V"
      using ok1 lens no lt unfolding globals_ok_def
      by (auto simp: nth_append less_Suc_eq split: if_splits)
    moreover have other: "global_slot ?V n = (if n = name then Some (length (m_globalsVec V)) else global_slot V n)" for n
    proof (cases "n = name")
      case False
      then have "m_map I n \<noteq> Some ord" using map I by (auto simp: interner_ok_map)
      with False show ?thesis unfolding slot [of n, symmetric] by (auto simp: global_slot_def split: option.splits)
    qed (simp add: global_slot_def map)
    moreover have new: "global_value V name = None"
      using slot [of name] map None by (simp add: global_slot_def global_value_def)
    moreover have below: "global_slot V n = Some j \<Longrightarrow> j < length (m_globalsVec V)" for n j
      using ok by (auto simp: global_slot_def globals_ok_def split: option.splits)
    moreover have "global_value ?V n = (if n = name \<and> global_value V name = None then Some TImpossible else global_value V n)" for n
      using below [of n] unfolding global_value_def other using new
      by (cases "global_slot V n") (auto simp: nth_append global_value_def)
    ultimately show ?thesis
      using that [OF run] by simp
  qed
qed

text \<open>C8. The globals of the machine are a map from names to values: setting a global keeps the tables
  consistent and changes the value of that name and of no other (a test build refuses to set a name
  that already has a value); asking for the slot of a name never changes a value, except that a name
  without a slot gets the \<open>impossible\<close> value, which the interpreter reports as an unknown global.\<close>

theorem SetSOMGlobal_refines:
  assumes "globals_ok H V"
  shows "(if tb \<and> global_value V name \<notin> {None, Some TImpossible}
          then SetSOMGlobal tb H name v V = Inl TestAssertFailed
          else \<exists>V'. SetSOMGlobal tb H name v V = Inr ((), V') \<and> globals_ok H V' \<and>
                     global_value V' = (global_value V)(name \<mapsto> v)) \<and>
         (\<exists>idx V'. GetSlotForGlobal H name V = Inr (idx, V') \<and> globals_ok H V' \<and>
            VM_GetGlobal idx V' = Inr (the (global_value V' name), V') \<and>
            global_value V' = (case global_value V name of
                                 None \<Rightarrow> (global_value V)(name \<mapsto> TImpossible) | Some _ \<Rightarrow> global_value V))"
proof -
  obtain idx V1 where s: "GetSlotForGlobal H name V = Inr (idx, V1)" and ok: "globals_ok H V1"
    and slot: "global_slot V1 name = Some idx" and lt: "idx < length (m_globalsVec V1)"
    and val: "\<And>n. global_value V1 n =
           (if n = name \<and> global_value V name = None then Some TImpossible else global_value V n)"
    using GetSlotForGlobal_step [OF assms] by metis
  let ?V = "V1\<lparr>m_globalsVec := (m_globalsVec V1)[idx := v]\<rparr>"
  have "globals_ok H ?V" using ok by (simp add: globals_ok_def)
  moreover have "global_value ?V n = ((global_value V)(name \<mapsto> v)) n" for n
  proof (cases "n = name")
    case True
    then show ?thesis using slot lt by (simp add: global_value_def)
  next
    case False
    have "global_slot V1 n \<noteq> Some idx"
    proof
      assume n: "global_slot V1 n = Some idx"
      then obtain ord where "m_map (m_interner V1) n = Some ord" "m_map (m_interner V1) name = Some ord"
        using slot ok by (auto simp: global_slot_def globals_ok_def split: option.splits)
      then show False using False ok by (auto simp: globals_ok_def interner_ok_map)
    qed
    then have "global_value ?V n = global_value V1 n"
      by (cases "global_slot V1 n") (auto simp: global_value_def)
    then show ?thesis using False val by simp
  qed
  ultimately have upd: "globals_ok H ?V \<and> global_value ?V = (global_value V)(name \<mapsto> v)" by blast
  have cur: "global_value V1 name = Some (m_globalsVec V1 ! idx)" using slot by (simp add: global_value_def)
  have get: "VM_GetGlobal idx V1 = Inr (m_globalsVec V1 ! idx, V1)" using lt by (simp add: VM_GetGlobal_def)
  have imp: "m_globalsVec V1 ! idx = TImpossible \<longleftrightarrow> global_value V name \<in> {None, Some TImpossible}"
    using cur val [of name] by (auto split: if_splits)
  have set: "SetSOMGlobal tb H name v V =
      (if tb \<and> m_globalsVec V1 ! idx \<noteq> TImpossible then Inl TestAssertFailed else Inr ((), ?V))"
    by (simp add: SetSOMGlobal_def s get TestAssert_def set_global_def bindS_app)
  have "global_value V1 = (case global_value V name of
       None \<Rightarrow> (global_value V)(name \<mapsto> TImpossible) | Some _ \<Rightarrow> global_value V)"
    using val by (auto split: option.splits)
  then show ?thesis unfolding set imp using upd s ok get cur by simp
qed

definition empty_vm :: VM where
  "empty_vm = \<lparr>h_objs = [], h_classes = [], h_funs = [], h_upvalues = [], v_stack = [], m_upvalueList = None,
     m_interner = empty_interner, m_internedStringObjects = [], m_internedSymbolObjects = [],
     m_parsedClasses = Map.empty, m_globalIdxMap = Map.empty, m_globalStringIdWithIndex = [],
     m_globalsVec = [], m_cachedSingleCharStrings = Map.empty, m_stringHiddenClass = 0,
     m_arrayHiddenClass = 0, m_objectClass = 0, m_classClass = 0, m_metaclassClass = 0, m_nilClass = 0,
     m_booleanClass = 0, m_trueClass = 0, m_falseClass = 0, m_integerClass = 0, m_doubleClass = 0,
     m_blockClass = 0, m_block1Class = 0, m_block2Class = 0, m_block3Class = 0, m_methodClass = 0,
     m_symbolClass = 0, m_primitiveClass = 0, m_systemClass = 0, m_metaclassClassLoaded = False,
     m_str = (\<lambda>_. \<lparr>us_id = 0, us_hash = 0\<rparr>), m_stringIdFor = (\<lambda>_. 0),
     m_stdout = [], m_stderr = []\<rparr>"

lemma empty_vm_globals_ok: "globals_ok H empty_vm"
  by (auto simp: globals_ok_def empty_vm_def interner_ok_empty)

theorem SetSOMGlobal_refines_witness:
  "\<exists>V'. SetSOMGlobal True (\<lambda>_. 0) ''system'' (TInt 5) empty_vm = Inr ((), V') \<and>
        global_value V' ''system'' = Some (TInt 5) \<and> global_value V' ''nil'' = None"
proof -
  have "global_value empty_vm ''nil'' = None" "global_value empty_vm ''system'' = None"
    by (simp_all add: global_value_def global_slot_def empty_vm_def empty_interner_def)
  then show ?thesis
    using SetSOMGlobal_refines [OF empty_vm_globals_ok, of True "''system''" "\<lambda>_. 0" "TInt 5"] by auto
qed

subsection \<open>Interned symbols\<close>

definition symbol_at :: "VM \<Rightarrow> nat \<Rightarrow> nat option" where
  "symbol_at V ord =
     (if ord < length (m_internedSymbolObjects V) then m_internedSymbolObjects V ! ord else None)"

definition symbol_object :: "VM \<Rightarrow> string \<Rightarrow> SOMObject" where
  "symbol_object V s = \<lparr>o_hiddenClass = m_symbolClass V, o_payload = StringData s\<rparr>"

definition symbols_ok :: "VM \<Rightarrow> bool" where
  "symbols_ok V \<longleftrightarrow>
     (\<forall>ord a. symbol_at V ord = Some a \<longrightarrow>
        (\<exists>s. Get (m_interner V) ord = Some s \<and> a < length (h_objs V) \<and> h_objs V ! a = symbol_object V s))"

lemma grow_nth: "ord' < length (grow ord xs) \<Longrightarrow>
    grow ord xs ! ord' = (if ord' < length xs then xs ! ord' else None)"
  by (auto simp: grow_def nth_append)

lemma grow_length: "length (grow ord xs) = max (length xs) (Suc ord)"
  by (auto simp: grow_def)

lemma GetInternedSymbol_step:
  assumes ok: "symbols_ok V" and get: "Get (m_interner V) ord = Some s"
  obtains a V' where "GetInternedSymbol ord V = Inr (a, V')" "symbols_ok V'"
    "symbol_at V' = (symbol_at V)(ord \<mapsto> a)" "symbol_at V ord = None \<or> symbol_at V ord = Some a"
    "a < length (h_objs V')" "h_objs V' ! a = symbol_object V s"
    "take (length (h_objs V)) (h_objs V') = h_objs V" "m_interner V' = m_interner V" "m_symbolClass V' = m_symbolClass V"
    "h_classes V' = h_classes V"
proof (cases "symbol_at V ord")
  case (Some a)
  then have lt: "ord < length (m_internedSymbolObjects V)" "m_internedSymbolObjects V ! ord = Some a"
    by (auto simp: symbol_at_def split: if_splits)
  then have run: "GetInternedSymbol ord V = Inr (a, V)"
    using get by (simp add: GetInternedSymbol_def grow_def)
  obtain t where "Get (m_interner V) ord = Some t" "a < length (h_objs V)" "h_objs V ! a = symbol_object V t"
    using ok Some by (auto simp: symbols_ok_def)
  with get Some show ?thesis using that [OF run ok] by (auto simp: fun_upd_idem)
next
  case None
  let ?n = "length (h_objs V)"
  let ?V = "V\<lparr>h_objs := h_objs V @ [symbol_object V s],
              m_internedSymbolObjects := (grow ord (m_internedSymbolObjects V))[ord := Some ?n]\<rparr>"
  have "grow ord (m_internedSymbolObjects V) ! ord = None"
    using None by (simp add: grow_nth grow_length symbol_at_def split: if_splits)
  then have run: "GetInternedSymbol ord V = Inr (?n, ?V)"
    using get by (simp add: GetInternedSymbol_def AllocateString_def new_obj_def the_obj_def set_obj_def symbol_object_def)
  have at: "symbol_at ?V = (symbol_at V)(ord \<mapsto> ?n)"
    by (rule ext) (auto simp: symbol_at_def grow_length grow_nth nth_list_update)
  have "symbols_ok ?V"
    unfolding symbols_ok_def
  proof (intro allI impI)
    fix ord' a
    assume a: "symbol_at ?V ord' = Some a"
    show "\<exists>s. Get (m_interner ?V) ord' = Some s \<and> a < length (h_objs ?V) \<and> h_objs ?V ! a = symbol_object ?V s"
    proof (cases "ord' = ord")
      case True
      then have "a = ?n" using a by (simp add: at)
      with True get show ?thesis by (simp add: symbol_object_def)
    next
      case False
      then obtain t where "Get (m_interner V) ord' = Some t" "a < length (h_objs V)" "h_objs V ! a = symbol_object V t"
        using a ok by (auto simp: at symbols_ok_def)
      then show ?thesis by (simp add: symbol_object_def nth_append)
    qed
  qed
  with run at None show ?thesis using that [of ?n ?V] by simp
qed

text \<open>C9. Interned symbols are unique objects: for an interned string, \<open>GetInternedSymbol\<close> returns a
  symbol object with that content, allocates at most one new object and changes none; a second
  request changes nothing and returns the same object, and the symbol of a different string is a
  different object.\<close>

theorem GetInternedSymbol_unique:
  assumes "symbols_ok V" and "interner_ok H (m_interner V)"
    and "Get (m_interner V) ord = Some s" and "Get (m_interner V) ord' = Some s'"
  shows "\<exists>a V1 b V2. GetInternedSymbol ord V = Inr (a, V1) \<and> GetInternedSymbol ord' V1 = Inr (b, V2) \<and>
           symbols_ok V2 \<and> h_objs V2 ! a = symbol_object V s \<and> h_objs V2 ! b = symbol_object V s' \<and>
           (a = b \<longleftrightarrow> s = s') \<and> GetInternedSymbol ord V2 = Inr (a, V2) \<and>
           take (length (h_objs V)) (h_objs V2) = h_objs V"
proof -
  obtain a V1 where 1: "GetInternedSymbol ord V = Inr (a, V1)" "symbols_ok V1"
    "symbol_at V1 = (symbol_at V)(ord \<mapsto> a)" "a < length (h_objs V1)" "h_objs V1 ! a = symbol_object V s"
    "take (length (h_objs V)) (h_objs V1) = h_objs V" "m_interner V1 = m_interner V" "m_symbolClass V1 = m_symbolClass V"
    using GetInternedSymbol_step [OF assms(1,3)] by metis
  have get1: "Get (m_interner V1) ord' = Some s'" using assms(4) 1(7) by simp
  obtain b V2 where 2: "GetInternedSymbol ord' V1 = Inr (b, V2)" "symbols_ok V2"
    "symbol_at V2 = (symbol_at V1)(ord' \<mapsto> b)" "symbol_at V1 ord' = None \<or> symbol_at V1 ord' = Some b"
    "h_objs V2 ! b = symbol_object V1 s'"
    "take (length (h_objs V1)) (h_objs V2) = h_objs V1" "m_interner V2 = m_interner V1"
    using GetInternedSymbol_step [OF 1(2) get1] by metis
  have a: "h_objs V2 ! a = symbol_object V s" using 1(4,5) 2(6) by (metis nth_take)
  have ords: "s = s' \<longleftrightarrow> ord = ord'" using assms(2-4) by (metis interner_ok_map option.inject)
  have eq: "a = b \<longleftrightarrow> s = s'"
  proof
    assume "a = b"
    then show "s = s'" using a 2(5) 1(8) by (simp add: symbol_object_def)
  next
    assume "s = s'"
    then show "a = b" using ords 1(3) 2(4) by simp
  qed
  have "symbol_at V2 ord = Some a" using 2(3) 1(3) eq ords by auto
  then have again: "GetInternedSymbol ord V2 = Inr (a, V2)"
    using assms(3) 1(7) 2(7) by (simp add: GetInternedSymbol_def symbol_at_def grow_def split: if_splits)
  have "take (length (h_objs V)) (h_objs V2) = h_objs V"
    using 1(6) 2(6) by (metis length_take min.absorb1 nat_le_linear take_all_iff take_take)
  with 1 2 a eq again show ?thesis by (auto simp: symbol_object_def)
qed

lemma empty_vm_symbols_ok: "symbols_ok (empty_vm\<lparr>m_interner := I\<rparr>)"
  by (simp add: symbols_ok_def symbol_at_def empty_vm_def)

theorem GetInternedSymbol_unique_witness:
  "\<exists>a V1 b V2.
     GetInternedSymbol 0 (empty_vm\<lparr>m_interner := snd (InternString (\<lambda>_. 0) ''x'' empty_interner)\<rparr>) = Inr (a, V1) \<and>
     GetInternedSymbol 0 V1 = Inr (b, V2) \<and> a = b"
proof -
  let ?I = "snd (InternString (\<lambda>_. 0) ''x'' empty_interner)"
  let ?V = "empty_vm\<lparr>m_interner := ?I\<rparr>"
  have I: "interner_ok (\<lambda>_. 0) (m_interner ?V)" using InternString_ok [OF interner_ok_empty] by simp
  have g: "Get (m_interner ?V) 0 = Some ''x''" by (simp add: InternString_def empty_interner_def Get_def)
  from GetInternedSymbol_unique [OF empty_vm_symbols_ok I g g] show ?thesis by auto
qed

end
