(* ===== verification/SomClass.thy ===== *)
theory SomClass
  imports VMState
begin

section \<open>Class creation\<close>

text \<open>
  \<open>SOMClass::Create\<close> and the allocation functions of \<open>src/runtime/som_class.cpp\<close>, with
  \<open>FinishSOMClassMethodArray\<close> of \<open>src/runtime/som_compile_file.cpp\<close>. A method is given by its
  selector, whether it is a primitive, and its function; function \<open>f\<close> of the heap is the non-null
  32-bit pointer \<open>fn_ptr f\<close>: the assertions \<open>m_fnObj != nullptr\<close> always hold.
\<close>

record MethInfo =
  mi_stringId :: u32
  mi_isPrimitive :: bool
  mi_fnObj :: nat

definition fn_ptr :: "nat \<Rightarrow> u32" where
  "fn_ptr f = of_nat (Suc f)"

definition ptr_fn :: "u32 \<Rightarrow> nat" where
  "ptr_fn p = unat p - 1"

text \<open>The hash of an ordinal, from the interner; every ordinal that reaches the table was interned, for others (a failed
  assertion of the source) the value is arbitrary.\<close>

definition hash_of :: "StringInterner \<Rightarrow> u32 \<Rightarrow> u64" where
  "hash_of I key = (case GetHash I (unat key) of None \<Rightarrow> 0 | Some h \<Rightarrow> h)"

text \<open>\<open>for (auto& it : methods) methodHt.Insert(it.m_stringId, it.m_fnObj)\<close>\<close>

fun insert_methods :: "bool \<Rightarrow> (u32 \<Rightarrow> u64) \<Rightarrow> MethInfo list \<Rightarrow> ht \<Rightarrow> ht res" where
  "insert_methods tb hash [] t = Inr t"
| "insert_methods tb hash (m # ms) t =
     bindR (Insert tb hash t (mi_stringId m) (fn_ptr (mi_fnObj m))) (\<lambda>(_, t'). insert_methods tb hash ms t')"

definition x_bootstrapClassesMethodHtSize :: nat where
  "x_bootstrapClassesMethodHtSize = 128"

text \<open>\<open>AllocateUnintialized\<close>: a class whose members are not set yet.\<close>

definition blank_class :: "nat \<Rightarrow> SOMClass" where
  "blank_class n = \<lparr>c_superClass = None, c_classObject = None, c_name = 0, c_fields = 0, c_methods = 0,
                    c_numFields = 0, c_methodHt = replicate n empty_entry\<rparr>"

definition AllocateUnintialized :: "bool \<Rightarrow> nat \<Rightarrow> nat vmop" where
  "AllocateUnintialized tb methodHtSize =
     bindS (liftS (TestAssert tb (is_power_of_2 methodHtSize))) (\<lambda>_.
     bindS (liftS (TestAssert tb (methodHtSize \<le> 65536))) (\<lambda>_.
     (\<lambda>V. Inr (length (h_classes V), V\<lparr>h_classes := h_classes V @ [blank_class methodHtSize]\<rparr>))))"

text \<open>The interned symbols of the fields a class adds, in order.\<close>

fun field_symbols :: "u32 list \<Rightarrow> val list vmop" where
  "field_symbols [] = retS []"
| "field_symbols (i # is) =
     bindS (GetInternedSymbol (unat i)) (\<lambda>a. bindS (field_symbols is) (\<lambda>vs. retS (TObj a # vs)))"

text \<open>One method object: holder (set later), signature, function.\<close>

definition method_object :: "MethInfo \<Rightarrow> nat vmop" where
  "method_object m =
     bindS (getS (\<lambda>V. if mi_isPrimitive m then m_primitiveClass V else m_methodClass V)) (\<lambda>hc.
     bindS (new_obj \<lparr>o_hiddenClass = hc, o_payload = Fields [TNil, TNil, TNil]\<rparr>) (\<lambda>mo.
     bindS (GetInternedSymbol (unat (mi_stringId m))) (\<lambda>sig.
     bindS (set_obj mo \<lparr>o_hiddenClass = hc, o_payload = Fields [TNil, TObj sig, TFun (mi_fnObj m)]\<rparr>) (\<lambda>_.
     retS mo))))"

fun method_objects :: "MethInfo list \<Rightarrow> val list vmop" where
  "method_objects [] = retS []"
| "method_objects (m # ms) =
     bindS (method_object m) (\<lambda>mo. bindS (method_objects ms) (\<lambda>mos. retS (TObj mo # mos)))"

text \<open>The check of a test build that every method is found in the table.\<close>

definition all_found :: "(u32 \<Rightarrow> u64) \<Rightarrow> ht \<Rightarrow> MethInfo list \<Rightarrow> bool" where
  "all_found hash t ms \<longleftrightarrow>
     list_all (\<lambda>m. GetMethod (of_nat (length t - 1)) t \<lparr>us_id = mi_stringId m, us_hash = ucast (hash (mi_stringId m))\<rparr>
                     = fn_ptr (mi_fnObj m)) ms"

definition super_fields :: "nat option \<Rightarrow> val list vmop" where
  "super_fields sc =
     (case sc of
        None \<Rightarrow> retS []
      | Some s \<Rightarrow>
          bindS (the_class s) (\<lambda>c.
          bindS (the_obj (c_fields c)) (\<lambda>x.
          bindS (liftS (array_of x)) (\<lambda>vs. retS (take (c_numFields c) vs)))))"

definition SOMClass_Create ::
  "bool \<Rightarrow> (string \<Rightarrow> u64) \<Rightarrow> string \<Rightarrow> nat option \<Rightarrow> MethInfo list \<Rightarrow> u32 list \<Rightarrow> nat option \<Rightarrow> nat vmop"
where
  "SOMClass_Create tb H className superClass meths flds preallocatedAddr =
     bindS (getS m_interner) (\<lambda>I.
     bindS (case superClass of
              None \<Rightarrow> retS new_table
            | Some s \<Rightarrow>
                bindS (the_class s) (\<lambda>c.
                bindS (liftS (TestAssert tb (is_power_of_2 (length (c_methodHt c))))) (\<lambda>_. retS (c_methodHt c)))) (\<lambda>t0.
     bindS (liftS (insert_methods tb (hash_of I) meths t0)) (\<lambda>t.
     bindS (if preallocatedAddr \<noteq> None \<and> length t \<noteq> x_bootstrapClassesMethodHtSize
            then failS (Aborted ''Unexpected method hash table size for pre-allocated system class!'')
            else retS ()) (\<lambda>_.
     bindS (case preallocatedAddr of Some c \<Rightarrow> retS c | None \<Rightarrow> AllocateUnintialized tb (length t)) (\<lambda>c.
     bindS (super_fields superClass) (\<lambda>inherited.
     bindS (InternV H className) (\<lambda>ord.
     bindS (GetInternedSymbol ord) (\<lambda>name.
     bindS (AllocateArray (length inherited + length flds)) (\<lambda>fa.
     bindS (field_symbols flds) (\<lambda>own.
     bindS (FillArray fa (inherited @ own)) (\<lambda>_.
     bindS (liftS (TestAssert tb (is_power_of_2 (length t) \<and> length t \<le> 65535))) (\<lambda>_.
     bindS (AllocateArray (length meths)) (\<lambda>ma.
     bindS (set_class c \<lparr>c_superClass = superClass, c_classObject = None, c_name = name, c_fields = fa, c_methods = ma,
              c_numFields = length inherited + length flds, c_methodHt = t\<rparr>) (\<lambda>_.
     bindS (method_objects meths) (\<lambda>mos.
     bindS (FillArray ma mos) (\<lambda>_.
     bindS (liftS (TestAssert tb (all_found (hash_of I) t meths))) (\<lambda>_.
     retS c)))))))))))))))))"

text \<open>
  \<open>FinishSOMClassMethodArray\<close>: the holder of every method object is the class object of the class.
\<close>

fun set_holders :: "val \<Rightarrow> val list \<Rightarrow> unit vmop" where
  "set_holders h [] = retS ()"
| "set_holders h (m # ms) =
     bindS (liftS (as_obj m)) (\<lambda>a.
     bindS (the_obj a) (\<lambda>x.
     bindS (liftS (put_field x 0 h)) (\<lambda>y.
     bindS (set_obj a y) (\<lambda>_. set_holders h ms))))"

definition FinishSOMClassMethodArray :: "nat \<Rightarrow> unit vmop" where
  "FinishSOMClassMethodArray cl =
     bindS (the_class cl) (\<lambda>c.
     case c_classObject c of
       None \<Rightarrow> failS Undefined
     | Some co \<Rightarrow>
         bindS (the_obj (c_methods c)) (\<lambda>x.
         bindS (liftS (array_of x)) (\<lambda>ms. set_holders (TObj co) ms)))"

subsection \<open>Frame conditions\<close>

lemma keeps_field_symbols [keeps_intros]:
  assumes "\<And>V x. f (V\<lparr>h_objs := x\<rparr>) = f V" and "\<And>V x. f (V\<lparr>m_internedSymbolObjects := x\<rparr>) = f V"
  shows "keeps f (field_symbols is)"
  by (induction "is"; unfold field_symbols.simps; intro keeps_intros assms)

lemma keeps_method_objects [keeps_intros]:
  assumes "\<And>V x. f (V\<lparr>h_objs := x\<rparr>) = f V" and "\<And>V x. f (V\<lparr>m_internedSymbolObjects := x\<rparr>) = f V"
  shows "keeps f (method_objects ms)"
  by (induction ms; unfold method_objects.simps method_object_def; intro keeps_intros assms)

lemma keeps_super_fields [keeps_intros]: "keeps f (super_fields sc)"
  unfolding super_fields_def by (intro keeps_intros)

subsection \<open>The method dictionary of a class\<close>

definition method_bindings :: "MethInfo list \<Rightarrow> u32 \<rightharpoonup> u32" where
  "method_bindings ms = map_of (rev (map (\<lambda>m. (mi_stringId m, fn_ptr (mi_fnObj m))) ms))"

lemma insert_methods_ins_all:
  "insert_methods tb hash ms t = table.ins_all tb hash (map (\<lambda>m. (mi_stringId m, fn_ptr (mi_fnObj m))) ms) t"
proof (induction ms arbitrary: t)
  case (Cons m ms)
  have "bindR (ins_table tb hash t k v) f = bindR (Insert tb hash t k v) (\<lambda>(_, t'). f t')" for k v and f :: "ht \<Rightarrow> ht res"
    unfolding ins_table_def by (cases "Insert tb hash t k v") (auto split: prod.splits)
  with Cons show ?case by (simp add: case_prod_unfold)
qed simp

lemma insert_methods_table:
  assumes run: "insert_methods tb hash ms t = Inr t'" and ok: "ht_ok hash t"
    and ids: "list_all (\<lambda>m. mi_stringId m \<noteq> no_id) ms"
  shows "ht_ok hash t'"
    and "k \<noteq> no_id \<Longrightarrow> ht_lookup hash t' k = None \<or> ht_lookup hash t' k = (ht_lookup hash t ++ method_bindings ms) k"
    and "tb \<Longrightarrow> k \<noteq> no_id \<Longrightarrow> ht_lookup hash t' k = (ht_lookup hash t ++ method_bindings ms) k"
proof -
  let ?kvs = "map (\<lambda>m. (mi_stringId m, fn_ptr (mi_fnObj m))) ms"
  have keys: "list_all ((\<lambda>k. k \<noteq> no_id) \<circ> fst) ?kvs" using ids by (simp add: list_all_iff)
  note run = run [unfolded insert_methods_ins_all]
  show "ht_ok hash t'" by (rule table.ins_all_ok [OF ok keys run])
  show "k \<noteq> no_id \<Longrightarrow> ht_lookup hash t' k = None \<or> ht_lookup hash t' k = (ht_lookup hash t ++ method_bindings ms) k"
    using table.ins_all_some [OF ok keys run] by (simp add: method_bindings_def)
  show "ht_lookup hash t' k = (ht_lookup hash t ++ method_bindings ms) k" if "tb" "k \<noteq> no_id"
    using cuckoo.ins_all_lookup [OF ok keys, of t' k] run that by (simp add: method_bindings_def)
qed

lemma classes_frame:
  "GetInternedSymbol ord V = Inr (a, V') \<Longrightarrow> h_classes V' = h_classes V"
  "AllocateArray n V = Inr (a, V') \<Longrightarrow> h_classes V' = h_classes V"
  "FillArray a vs V = Inr (u, V') \<Longrightarrow> h_classes V' = h_classes V"
  "InternV H s V = Inr (a, V') \<Longrightarrow> h_classes V' = h_classes V"
  "field_symbols is V = Inr (vs, V') \<Longrightarrow> h_classes V' = h_classes V"
  "method_objects ms V = Inr (vs, V') \<Longrightarrow> h_classes V' = h_classes V"
  by (erule keepsD [rotated], intro keeps_intros, simp_all)+

lemma super_fields_state: "super_fields sc V = Inr (vs, V') \<Longrightarrow> V' = V"
  by (erule keepsD [where f = "\<lambda>V. V", rotated]) (intro keeps_intros)

text \<open>What class creation leaves at the address of the class.\<close>

lemma SOMClass_Create_result:
  assumes run: "SOMClass_Create tb H className superClass meths flds pre V = Inr (c, V')"
    and pre: "\<And>p. pre = Some p \<Longrightarrow> p < length (h_classes V)"
  obtains t0 t inherited where
    "t0 = (case superClass of None \<Rightarrow> new_table | Some s \<Rightarrow> c_methodHt (h_classes V ! s))"
    "insert_methods tb (hash_of (m_interner V)) meths t0 = Inr t"
    "c < length (h_classes V')"
    "c_methodHt (h_classes V' ! c) = t" "c_superClass (h_classes V' ! c) = superClass"
    "c_numFields (h_classes V' ! c) = length inherited + length flds"
    "super_fields superClass V = Inr (inherited, V)"
    "\<And>d. d < length (h_classes V) \<Longrightarrow> d \<noteq> c \<Longrightarrow> h_classes V' ! d = h_classes V ! d"
    "pre = None \<Longrightarrow> c = length (h_classes V)" "pre \<noteq> None \<Longrightarrow> length t = 128"
proof -
  from run show ?thesis
    unfolding SOMClass_Create_def
  proof (elim bindS_InrE, goal_cases)
    case (1 I V0 t0 V1 t V2 u1 V3 c' V4 inh V5 ord V6 name V7 fa V8 own V9 u2 V10 u3 V11 ma V12 u4 V13 mos V14 u5 V15 u6 V16)
    have V: "I = m_interner V" "V0 = V" using 1(1) by auto
    have t0: "t0 = (case superClass of None \<Rightarrow> new_table | Some s \<Rightarrow> c_methodHt (h_classes V ! s))" "V1 = V"
      using 1(2) V by (auto simp: the_class_def liftS_Inr split: option.splits if_splits elim!: bindS_InrE)
    have t: "insert_methods tb (hash_of (m_interner V)) meths t0 = Inr t" "V2 = V"
      using 1(3) V t0 by (simp_all add: liftS_Inr)
    have len: "pre \<noteq> None \<Longrightarrow> length t = 128" "V3 = V"
      using 1(4) t by (auto simp: x_bootstrapClassesMethodHtSize_def split: if_splits)
    have c: "c' < length (h_classes V4)" "pre = None \<Longrightarrow> c' = length (h_classes V)"
      "m_interner V4 = m_interner V" "h_objs V4 = h_objs V"
      "\<And>d. d < length (h_classes V) \<Longrightarrow> h_classes V4 ! d = h_classes V ! d"
      using 1(5) pre len
      by (auto simp: AllocateUnintialized_def liftS_Inr nth_append split: option.splits elim!: bindS_InrE)
    have h: "h_classes V12 = h_classes V4" "V5 = V4" using 1(6-13)
      by (auto simp: liftS_Inr dest!: classes_frame super_fields_state)
    have h': "h_classes V' = h_classes V13" "c = c'" using 1(15-18)
      by (auto simp: liftS_Inr dest!: classes_frame)
    have sup: "superClass = Some s \<Longrightarrow> s < length (h_classes V)" for s
      using 1(2) V by (auto simp: the_class_def split: if_splits elim!: bindS_InrE)
    have inh: "super_fields superClass V = Inr (inh, V)"
      using 1(6) h(2) c(4) c(5) sup
      by (cases superClass)
        (auto simp: super_fields_def the_class_def the_obj_def bindS_app bindR_eq_Inr liftS_Inr split: if_splits)
    have "h_classes V13 = (h_classes V4)[c' := \<lparr>c_superClass = superClass, c_classObject = None, c_name = name,
             c_fields = fa, c_methods = ma, c_numFields = length inh + length flds, c_methodHt = t\<rparr>]"
      using 1(14) h by (auto simp: set_class_def)
    then show ?case
      using that [OF t0(1) t(1)] h' c len(1) inh by simp
  qed
qed

subsection \<open>The two builds\<close>

lemma insert_methods_release:
  "insert_methods True hash ms t = Inr t' \<Longrightarrow> insert_methods False hash ms t = Inr t'"
  by (induction ms arbitrary: t) (auto simp: bindR_eq_Inr Insert_def dest!: Insert_loop_release)

lemma AllocateUnintialized_release [same_run_intros]:
  "same_run (AllocateUnintialized True n) (AllocateUnintialized False n)"
  unfolding AllocateUnintialized_def by (intro same_run_intros)

lemma same_run_insert_methods [same_run_intros]:
  "same_run (liftS (insert_methods True hash ms t)) (liftS (insert_methods False hash ms t))"
  by (auto simp: same_run_def liftS_Inr dest: insert_methods_release)

lemma SOMClass_Create_release:
  "same_run (SOMClass_Create True H cn sc meths flds pre) (SOMClass_Create False H cn sc meths flds pre)"
  unfolding SOMClass_Create_def by (rule same_run_intros same_run_refl | intro same_run_intros)+

text \<open>The method a class answers a selector with, through its hash table.\<close>

definition find_method :: "(u32 \<Rightarrow> u64) \<Rightarrow> SOMClass \<Rightarrow> u32 \<Rightarrow> u32" where
  "find_method hash c k =
     GetMethod (of_nat (length (c_methodHt c) - 1)) (c_methodHt c) \<lparr>us_id = k, us_hash = ucast (hash k)\<rparr>"

lemma find_method_lookup:
  "ht_ok hash (c_methodHt c) \<Longrightarrow> find_method hash c k = ptr_or_null (ht_lookup hash (c_methodHt c) k)"
  unfolding find_method_def by (rule GetMethod_lookup)


definition demo_vm :: VM where
  "demo_vm = empty_vm\<lparr>m_interner := snd (InternString (\<lambda>_. 0) ''foo'' empty_interner),
     h_objs := [\<lparr>o_hiddenClass = 0, o_payload = ArrayData []\<rparr>], h_classes := [blank_class 1]\<rparr>"

lemma demo_create:
  "\<exists>V'. SOMClass_Create True (\<lambda>_. 0) ''A'' (Some 0) [\<lparr>mi_stringId = 0, mi_isPrimitive = False, mi_fnObj = 4\<rparr>] [0] None demo_vm
          = Inr (1, V')"
  by (simp add: SOMClass_Create_def demo_vm_def blank_class_def empty_vm_def InternString_def empty_interner_def
      the_class_def hash_of_def GetHash_def Get_def fn_ptr_def Insert_first_attempt [OF _ InsertionResult.distinct(3)]
      TryInsert_def slots_def empty_entry_def mk_entry_def AllocateUnintialized_def TestAssert_def
      super_fields_def the_obj_def array_of_def InternV_def GetInternedSymbol_def grow_def AllocateString_def
      new_obj_def set_obj_def AllocateArray_def FillArray_def set_class_def method_object_def all_found_def
      GetMethod_def bindS_app Insert_def Insert_loop.simps)


end
