(* ===== verification/PrimNumbers.thy ===== *)
theory PrimNumbers
  imports DoubleLib SomClass
begin

section \<open>Primitives on numbers\<close>

text \<open>
  The \<open>integer_*\<close> and \<open>double_*\<close> library functions of \<open>src/annotated/builtin_libs/som_primitives.cpp\<close>,
  as functions from the arguments (\<open>args ! 0\<close> is the receiver) to the returned value.

  A SOM integer is an \<open>int32_t\<close>, a 32-bit word; \<open>sint\<close> reads it. Signed addition, subtraction,
  multiplication and negation are the machine's, which wrap around. What the machine traps or C++
  leaves undefined otherwise is \<open>Inl Undefined\<close>: a receiver or argument of the wrong type (\<open>As\<close> without a
  check), division by zero and of the smallest integer by -1, a shift by a negative count or by 32
  and more, and the conversion of a double that does not fit. \<open>sin\<close>, \<open>cos\<close>, \<open>stod\<close>, \<open>rand\<close>, the clock
  and the file system are members of \<open>prim_env\<close>.
\<close>

record prim_env =
  e_tb :: bool
  e_hash :: "string \<Rightarrow> u64"
  e_sin :: "dbl \<Rightarrow> dbl"
  e_cos :: "dbl \<Rightarrow> dbl"
  e_stod :: "string \<Rightarrow> dbl option"
  e_rand :: u32
  e_elapsed :: dbl
  e_readFile :: "string \<Rightarrow> string option"
  e_bits :: "val \<Rightarrow> u64"
  e_HashPrimitiveTypes :: "u64 \<Rightarrow> u64"
  e_trace :: string
  e_SOMCompileFile :: "string \<Rightarrow> nat vmop"

subsection \<open>Arguments and machine arithmetic\<close>

definition GetArg :: "val list \<Rightarrow> nat \<Rightarrow> val res" where
  "GetArg args i = (if i < length args then Inr (args ! i) else Inl Undefined)"

definition as_int :: "val \<Rightarrow> u32 res" where
  "as_int v = (case v of TInt i \<Rightarrow> Inr i | _ \<Rightarrow> Inl Undefined)"

definition as_double :: "val \<Rightarrow> dbl res" where
  "as_double v = (case v of TDouble d \<Rightarrow> Inr d | _ \<Rightarrow> Inl Undefined)"

definition int_arg :: "val list \<Rightarrow> nat \<Rightarrow> u32 res" where
  "int_arg args i = bindR (GetArg args i) as_int"

definition double_arg :: "val list \<Rightarrow> nat \<Rightarrow> dbl res" where
  "double_arg args i = bindR (GetArg args i) as_double"

definition i2d :: "u32 \<Rightarrow> dbl" where
  "i2d i = dbl_of_int (sint i)"

definition d2i32 :: "dbl \<Rightarrow> u32 res" where
  "d2i32 d = bindR (dbl_to_signed 32 d) (\<lambda>i. Inr (word_of_int i))"

text \<open>C++ integer division truncates; the remainder has the sign of the dividend.\<close>

definition tdiv :: "int \<Rightarrow> int \<Rightarrow> int" where
  "tdiv a b = (if (a < 0) = (b < 0) then \<bar>a\<bar> div \<bar>b\<bar> else - (\<bar>a\<bar> div \<bar>b\<bar>))"

definition trem :: "int \<Rightarrow> int \<Rightarrow> int" where
  "trem a b = a - tdiv a b * b"

definition div32 :: "u32 \<Rightarrow> u32 \<Rightarrow> u32 res" where
  "div32 l r =
     (if r = 0 \<or> (sint l = - (2 ^ 31) \<and> sint r = - 1) then Inl Undefined
      else Inr (word_of_int (tdiv (sint l) (sint r))))"

definition rem32 :: "u32 \<Rightarrow> u32 \<Rightarrow> u32 res" where
  "rem32 l r =
     (if r = 0 \<or> (sint l = - (2 ^ 31) \<and> sint r = - 1) then Inl Undefined
      else Inr (word_of_int (trem (sint l) (sint r))))"

definition rem64 :: "int \<Rightarrow> int \<Rightarrow> int res" where
  "rem64 l r = (if r = 0 \<or> (l = - (2 ^ 63) \<and> r = - 1) then Inl Undefined else Inr (trem l r))"

subsection \<open>Integers\<close>

text \<open>The shape of most primitives: a 32-bit receiver and an argument that is an integer or a double.\<close>

definition int_num_op :: "(u32 \<Rightarrow> u32 \<Rightarrow> val res) \<Rightarrow> (u32 \<Rightarrow> dbl \<Rightarrow> val res) \<Rightarrow> val list \<Rightarrow> val res" where
  "int_num_op f g args =
     bindR (int_arg args 0) (\<lambda>lhs.
     bindR (GetArg args 1) (\<lambda>rhs.
     case rhs of TInt r \<Rightarrow> f lhs r | TDouble d \<Rightarrow> g lhs d | _ \<Rightarrow> Inl Undefined))"

definition int_int_op :: "(u32 \<Rightarrow> u32 \<Rightarrow> val res) \<Rightarrow> val list \<Rightarrow> val res" where
  "int_int_op f args = bindR (int_arg args 0) (\<lambda>lhs. bindR (int_arg args 1) (\<lambda>rhs. f lhs rhs))"

definition integer_add :: "val list \<Rightarrow> val res" where
  "integer_add = int_num_op (\<lambda>l r. Inr (TInt (l + r))) (\<lambda>l d. Inr (TDouble (dbl_add (i2d l) d)))"

definition integer_minus :: "val list \<Rightarrow> val res" where
  "integer_minus = int_num_op (\<lambda>l r. Inr (TInt (l - r))) (\<lambda>l d. Inr (TDouble (dbl_sub (i2d l) d)))"

definition integer_star :: "val list \<Rightarrow> val res" where
  "integer_star = int_num_op (\<lambda>l r. Inr (TInt (l * r))) (\<lambda>l d. Inr (TDouble (dbl_mul (i2d l) d)))"

definition integer_rem :: "val list \<Rightarrow> val res" where
  "integer_rem = int_num_op
     (\<lambda>l r. bindR (div32 l r) (\<lambda>q. Inr (TInt (l - q * r))))
     (\<lambda>l d. bindR (dbl_to_signed 64 d) (\<lambda>r. bindR (rem64 (sint l) r) (\<lambda>m. Inr (TDouble (dbl_of_int m)))))"

definition integer_bitwisexor :: "val list \<Rightarrow> val res" where
  "integer_bitwisexor = int_int_op (\<lambda>l r. Inr (TInt (l XOR r)))"

definition integer_leftshift :: "val list \<Rightarrow> val res" where
  "integer_leftshift = int_int_op (\<lambda>l r. if unat r < 32 then Inr (TInt (push_bit (unat r) l)) else Inl Undefined)"

definition integer_unsignedrightshift :: "val list \<Rightarrow> val res" where
  "integer_unsignedrightshift =
     int_int_op (\<lambda>l r. if unat r < 32 then Inr (TInt (signed_drop_bit (unat r) l)) else Inl Undefined)"

definition integer_slash :: "val list \<Rightarrow> val res" where
  "integer_slash = int_num_op
     (\<lambda>l r. bindR (div32 l r) (\<lambda>q. Inr (TInt q)))
     (\<lambda>l d. bindR (d2i32 d) (\<lambda>r. bindR (div32 l r) (\<lambda>q. Inr (TInt q))))"

definition integer_slashslash :: "val list \<Rightarrow> val res" where
  "integer_slashslash = int_num_op
     (\<lambda>l r. Inr (TDouble (dbl_div (i2d l) (i2d r))))
     (\<lambda>l d. Inr (TDouble (dbl_div (i2d l) d)))"

definition percent32 :: "u32 \<Rightarrow> u32 \<Rightarrow> u32 res" where
  "percent32 l r =
     bindR (rem32 l r) (\<lambda>result.
     Inr (if result \<noteq> 0 \<and> (result <s 0) \<noteq> (r <s 0) then result + r else result))"

definition integer_percent :: "val list \<Rightarrow> val res" where
  "integer_percent = int_num_op
     (\<lambda>l r. bindR (percent32 l r) (\<lambda>m. Inr (TInt m)))
     (\<lambda>l d. bindR (d2i32 d) (\<lambda>r. bindR (percent32 l r) (\<lambda>m. Inr (TInt m))))"

definition integer_and :: "val list \<Rightarrow> val res" where
  "integer_and = int_int_op (\<lambda>l r. Inr (TInt (l AND r)))"

definition integer_equal :: "val list \<Rightarrow> val res" where
  "integer_equal args =
     bindR (int_arg args 0) (\<lambda>l.
     bindR (GetArg args 1) (\<lambda>rhs.
     Inr (TBool (case rhs of TInt r \<Rightarrow> l = r | TDouble d \<Rightarrow> dbl_eq (i2d l) d | _ \<Rightarrow> False))))"

definition integer_equalequal :: "val list \<Rightarrow> val res" where
  "integer_equalequal args =
     bindR (int_arg args 0) (\<lambda>l.
     bindR (GetArg args 1) (\<lambda>rhs.
     Inr (TBool (case rhs of TInt r \<Rightarrow> l = r | _ \<Rightarrow> False))))"

definition integer_lowerthan :: "val list \<Rightarrow> val res" where
  "integer_lowerthan = int_num_op (\<lambda>l r. Inr (TBool (l <s r))) (\<lambda>l d. Inr (TBool (dbl_lt (i2d l) d)))"

definition integer_lowerequal :: "val list \<Rightarrow> val res" where
  "integer_lowerequal = int_num_op (\<lambda>l r. Inr (TBool (l \<le>s r))) (\<lambda>l d. Inr (TBool (dbl_le (i2d l) d)))"

definition integer_greaterthan :: "val list \<Rightarrow> val res" where
  "integer_greaterthan = int_num_op (\<lambda>l r. Inr (TBool (r <s l))) (\<lambda>l d. Inr (TBool (dbl_lt d (i2d l))))"

definition integer_greaterequal :: "val list \<Rightarrow> val res" where
  "integer_greaterequal = int_num_op (\<lambda>l r. Inr (TBool (r \<le>s l))) (\<lambda>l d. Inr (TBool (dbl_le d (i2d l))))"

definition integer_unequal :: "val list \<Rightarrow> val res" where
  "integer_unequal = int_num_op (\<lambda>l r. Inr (TBool (l \<noteq> r))) (\<lambda>l d. Inr (TBool (\<not> dbl_eq (i2d l) d)))"

definition integer_asstring :: "val list \<Rightarrow> val vmop" where
  "integer_asstring args =
     bindS (liftS (int_arg args 0)) (\<lambda>v. bindS (AllocateString (show_int (sint v))) (\<lambda>a. retS (TObj a)))"

definition integer_asdouble :: "val list \<Rightarrow> val res" where
  "integer_asdouble args = bindR (int_arg args 0) (\<lambda>v. Inr (TDouble (i2d v)))"

definition integer_as32bitsigned :: "val list \<Rightarrow> val res" where
  "integer_as32bitsigned args = GetArg args 0"

definition integer_as32bitunsigned :: "val list \<Rightarrow> val res" where
  "integer_as32bitunsigned args = GetArg args 0"

definition integer_sqrt :: "val list \<Rightarrow> val res" where
  "integer_sqrt args =
     bindR (int_arg args 0) (\<lambda>v.
     let r = dbl_sqrt (i2d v)
     in if dbl_integral r then bindR (d2i32 r) (\<lambda>i. Inr (TInt i)) else Inr (TDouble r))"

definition integer_atrandom :: "prim_env \<Rightarrow> val list \<Rightarrow> val res" where
  "integer_atrandom E args = Inr (TInt (e_rand E))"

text \<open>\<open>strtoll\<close> in base 10 on a C string: \<open>None\<close> when nothing is parsed; the value may be out of range.\<close>

definition strtoll :: "string \<Rightarrow> int option" where
  "strtoll s0 =
     (let s = dropWhile isspace (takeWhile (\<lambda>c. c \<noteq> CHR 0x00) s0);
          neg = (s \<noteq> [] \<and> hd s = CHR ''-'');
          ds = takeWhile isdigit (if s \<noteq> [] \<and> (hd s = CHR ''-'' \<or> hd s = CHR ''+'') then tl s else s);
          n = foldl (\<lambda>a c. a * 10 + (int (of_char c) - 48)) 0 ds
      in if ds = [] then None else Some (if neg then - n else n))"

definition parse_integer :: "string \<Rightarrow> u32" where
  "parse_integer str =
     (case strtoll str of
        None \<Rightarrow> 0
      | Some i \<Rightarrow> if i < - (2 ^ 63) \<or> 2 ^ 63 \<le> i then 0 else word_of_int i)"

definition integer_fromstring :: "val list \<Rightarrow> val vmop" where
  "integer_fromstring args =
     bindS (liftS (GetArg args 1)) (\<lambda>tv.
     bindS (GetStringContentFromSOMString tv) (\<lambda>str. retS (TInt (parse_integer str))))"

definition integer_abs :: "val list \<Rightarrow> val res" where
  "integer_abs args = bindR (int_arg args 0) (\<lambda>v. Inr (TInt (if v <s 0 then - v else v)))"

definition integer_min :: "val list \<Rightarrow> val res" where
  "integer_min = int_num_op (\<lambda>l r. Inr (TInt (if r <s l then r else l)))
                            (\<lambda>l d. Inr (if dbl_lt (i2d l) d then TInt l else TDouble d))"

definition integer_max :: "val list \<Rightarrow> val res" where
  "integer_max = int_num_op (\<lambda>l r. Inr (TInt (if l <s r then r else l)))
                            (\<lambda>l d. Inr (if dbl_lt d (i2d l) then TInt l else TDouble d))"

text \<open>The loop counts up to \<open>end\<close> inclusive, so it overflows when \<open>end\<close> is the largest integer.\<close>

definition integer_range :: "val list \<Rightarrow> val vmop" where
  "integer_range args =
     bindS (liftS (int_arg args 0)) (\<lambda>start.
     bindS (liftS (int_arg args 1)) (\<lambda>endv.
     let s = sint start; e = sint endv in
     if s \<le> e \<and> (e = 2 ^ 31 - 1 \<or> 2 ^ 31 \<le> e - s + 1) then failS Undefined
     else bindS (AllocateArray (nat (e - s + 1))) (\<lambda>o1.
          bindS (FillArray o1 (map (\<lambda>k. TInt (word_of_int k)) [s .. e])) (\<lambda>_. retS (TObj o1)))))"

subsection \<open>Doubles\<close>

definition CoerceDouble :: "val \<Rightarrow> dbl res" where
  "CoerceDouble tv = (case tv of TDouble d \<Rightarrow> Inr d | TInt i \<Rightarrow> Inr (i2d i) | _ \<Rightarrow> Inl Undefined)"

definition double_op :: "(dbl \<Rightarrow> dbl \<Rightarrow> val res) \<Rightarrow> val list \<Rightarrow> val res" where
  "double_op f args =
     bindR (double_arg args 0) (\<lambda>lhs.
     bindR (bindR (GetArg args 1) CoerceDouble) (\<lambda>rhs. f lhs rhs))"

definition double_add :: "val list \<Rightarrow> val res" where
  "double_add = double_op (\<lambda>l r. Inr (TDouble (dbl_add l r)))"

definition double_sub :: "val list \<Rightarrow> val res" where
  "double_sub = double_op (\<lambda>l r. Inr (TDouble (dbl_sub l r)))"

definition double_star :: "val list \<Rightarrow> val res" where
  "double_star = double_op (\<lambda>l r. Inr (TDouble (dbl_mul l r)))"

definition double_slashslash :: "val list \<Rightarrow> val res" where
  "double_slashslash = double_op (\<lambda>l r. Inr (TDouble (dbl_div l r)))"

definition double_percent :: "val list \<Rightarrow> val res" where
  "double_percent = double_op (\<lambda>l r.
     bindR (dbl_to_signed 64 l) (\<lambda>a. bindR (dbl_to_signed 64 r) (\<lambda>b.
     bindR (rem64 a b) (\<lambda>m. Inr (TDouble (dbl_of_int m))))))"

definition double_sin :: "prim_env \<Rightarrow> val list \<Rightarrow> val res" where
  "double_sin E args = bindR (double_arg args 0) (\<lambda>v. Inr (TDouble (e_sin E v)))"

definition double_cos :: "prim_env \<Rightarrow> val list \<Rightarrow> val res" where
  "double_cos E args = bindR (double_arg args 0) (\<lambda>v. Inr (TDouble (e_cos E v)))"

definition double_equal :: "val list \<Rightarrow> val res" where
  "double_equal = double_op (\<lambda>l r. Inr (TBool (dbl_eq l r)))"

definition double_unequal :: "val list \<Rightarrow> val res" where
  "double_unequal = double_op (\<lambda>l r. Inr (TBool (\<not> dbl_eq l r)))"

definition double_lowerthan :: "val list \<Rightarrow> val res" where
  "double_lowerthan = double_op (\<lambda>l r. Inr (TBool (dbl_lt l r)))"

definition double_lowerequal :: "val list \<Rightarrow> val res" where
  "double_lowerequal = double_op (\<lambda>l r. Inr (TBool (dbl_le l r)))"

definition double_greaterthan :: "val list \<Rightarrow> val res" where
  "double_greaterthan = double_op (\<lambda>l r. Inr (TBool (dbl_lt r l)))"

definition double_greaterequal :: "val list \<Rightarrow> val res" where
  "double_greaterequal = double_op (\<lambda>l r. Inr (TBool (dbl_le r l)))"

definition double_min :: "val list \<Rightarrow> val res" where
  "double_min args = double_op (\<lambda>l r. Inr (if dbl_lt l r then args ! 0 else args ! 1)) args"

definition double_max :: "val list \<Rightarrow> val res" where
  "double_max args = double_op (\<lambda>l r. Inr (if dbl_lt r l then args ! 0 else args ! 1)) args"

definition double_asstring :: "val list \<Rightarrow> val vmop" where
  "double_asstring args =
     bindS (liftS (double_arg args 0)) (\<lambda>v. bindS (AllocateString (print_double v)) (\<lambda>a. retS (TObj a)))"

definition double_asinteger :: "val list \<Rightarrow> val res" where
  "double_asinteger args = bindR (double_arg args 0) (\<lambda>v. bindR (d2i32 v) (\<lambda>i. Inr (TInt i)))"

definition double_round :: "val list \<Rightarrow> val res" where
  "double_round args = bindR (double_arg args 0) (\<lambda>v. bindR (llround v) (\<lambda>i. Inr (TInt (word_of_int i))))"

definition double_sqrt :: "val list \<Rightarrow> val res" where
  "double_sqrt args = bindR (double_arg args 0) (\<lambda>v. Inr (TDouble (dbl_sqrt v)))"

definition double_positiveinfinity :: "val list \<Rightarrow> val res" where
  "double_positiveinfinity args = Inr (TDouble (word_of_int inf_bits))"

text \<open>\<open>std::stod\<close> throws when it parses nothing or the value is out of range; nothing catches it.\<close>

definition double_fromstring :: "prim_env \<Rightarrow> val list \<Rightarrow> val vmop" where
  "double_fromstring E args =
     bindS (liftS (GetArg args 1)) (\<lambda>tv.
     bindS (GetStringContentFromSOMString tv) (\<lambda>str.
     case e_stod E str of None \<Rightarrow> failS (Aborted ''stod'') | Some d \<Rightarrow> retS (TDouble d)))"

subsection \<open>Division\<close>

lemma trem_eq: "trem a b = (if a < 0 then - (\<bar>a\<bar> mod \<bar>b\<bar>) else \<bar>a\<bar> mod \<bar>b\<bar>)"
proof -
  have "tdiv a b * b = (if a < 0 then - (\<bar>a\<bar> div \<bar>b\<bar> * \<bar>b\<bar>) else \<bar>a\<bar> div \<bar>b\<bar> * \<bar>b\<bar>)"
    by (simp add: tdiv_def)
  moreover have "\<bar>a\<bar> mod \<bar>b\<bar> = \<bar>a\<bar> - \<bar>a\<bar> div \<bar>b\<bar> * \<bar>b\<bar>" by (simp add: minus_div_mult_eq_mod)
  ultimately show ?thesis unfolding trem_def by (cases "a < 0") (simp_all only: if_True if_False, linarith+)
qed

lemma trem_bound: "b \<noteq> 0 \<Longrightarrow> \<bar>trem a b\<bar> < \<bar>b\<bar>"
  by (simp add: trem_eq)

lemma trem_sign: "trem a b \<noteq> 0 \<Longrightarrow> (trem a b < 0) = (a < 0)"
proof -
  assume t: "trem a b \<noteq> 0"
  have "0 \<le> \<bar>a\<bar> mod \<bar>b\<bar>" by (cases "b = 0") (simp_all only: abs_zero mod_by_0 abs_ge_zero pos_mod_sign zero_less_abs_iff, simp_all)
  moreover have "trem a b = - (\<bar>a\<bar> mod \<bar>b\<bar>)" if "a < 0" unfolding trem_eq using that by (simp only: if_True)
  moreover have "trem a b = \<bar>a\<bar> mod \<bar>b\<bar>" if "\<not> a < 0" unfolding trem_eq using that by (simp only: if_False)
  ultimately show "(trem a b < 0) = (a < 0)" using t by (cases "a < 0") linarith+
qed

text \<open>Adjusting the truncated remainder to the sign of the divisor gives the remainder of floor division.\<close>

lemma mod_from_trem:
  assumes "b \<noteq> 0"
  shows "a mod b = (if trem a b \<noteq> 0 \<and> (trem a b < 0) \<noteq> (b < 0) then trem a b + b else trem a b)"
proof -
  let ?t = "trem a b"
  have "a = ?t + tdiv a b * b" by (simp add: trem_def)
  then have am: "a mod b = ?t mod b" by (metis mod_mult_self1)
  note tb = trem_bound [OF assms, of a]
  consider "?t = 0" | "0 < ?t" "0 < b" | "?t < 0" "b < 0" | "?t \<noteq> 0" "(?t < 0) \<noteq> (b < 0)"
    using assms by linarith
  then show ?thesis
  proof cases
    case 4
    have "(?t + b) mod b = ?t + b"
    proof (cases "0 < b")
      case True
      then show ?thesis using 4 tb by (intro mod_pos_pos_trivial) auto
    next
      case False
      then show ?thesis using 4 tb assms by (intro mod_neg_neg_trivial) auto
    qed
    then show ?thesis using 4 am by simp
  qed (use am tb in \<open>auto simp: mod_pos_pos_trivial mod_neg_neg_trivial\<close>)
qed

lemma sint_range: "- (2 ^ 31) \<le> sint (i :: u32) \<and> sint i < 2 ^ 31"
  using sint_ge [of i] sint_lt [of i] by simp

lemma sint_of_int: "- (2 ^ 31) \<le> k \<Longrightarrow> k < 2 ^ 31 \<Longrightarrow> sint (word_of_int k :: u32) = k"
  by (simp add: sint_sbintrunc' signed_take_bit_int_eq_self)

lemma sint_eq_0 [simp]: "sint (i :: u32) = 0 \<longleftrightarrow> i = 0"
  by (rule signed_eq_0_iff)

definition div_ok :: "u32 \<Rightarrow> u32 \<Rightarrow> bool" where
  "div_ok l r \<longleftrightarrow> r \<noteq> 0 \<and> \<not> (sint l = - (2 ^ 31) \<and> sint r = - 1)"

lemma tdiv_range:
  assumes "div_ok l r"
  shows "- (2 ^ 31) \<le> tdiv (sint l) (sint r) \<and> tdiv (sint l) (sint r) < 2 ^ 31"
proof -
  have r: "sint r \<noteq> 0" using assms by (simp add: div_ok_def)
  then have "1 \<le> \<bar>sint r\<bar>" by linarith
  then have le: "\<bar>sint l\<bar> div \<bar>sint r\<bar> \<le> \<bar>sint l\<bar>" "0 \<le> \<bar>sint l\<bar> div \<bar>sint r\<bar>"
    using r zdiv_mono2 [of "\<bar>sint l\<bar>" 1 "\<bar>sint r\<bar>"] by (simp_all add: pos_imp_zdiv_nonneg_iff)
  show ?thesis
  proof (cases "sint l = - (2 ^ 31) \<and> sint r < 0")
    case True
    then have "2 \<le> \<bar>sint r\<bar>" using assms by (auto simp: div_ok_def)
    then have "\<bar>sint l\<bar> div \<bar>sint r\<bar> \<le> \<bar>sint l\<bar> div 2" by (intro zdiv_mono2) auto
    then show ?thesis using True le by (simp add: tdiv_def)
  next
    case False
    then show ?thesis using le sint_range [of l] by (auto simp: tdiv_def)
  qed
qed

lemma rem32_Inr:
  assumes "div_ok l r"
  shows "rem32 l r = Inr (word_of_int (trem (sint l) (sint r)))" "sint (word_of_int (trem (sint l) (sint r)) :: u32) = trem (sint l) (sint r)"
proof -
  show "rem32 l r = Inr (word_of_int (trem (sint l) (sint r)))" using assms by (auto simp: rem32_def div_ok_def)
  have "\<bar>trem (sint l) (sint r)\<bar> < \<bar>sint r\<bar>" using trem_bound assms by (simp add: div_ok_def)
  then show "sint (word_of_int (trem (sint l) (sint r)) :: u32) = trem (sint l) (sint r)"
    using sint_range [of r] by (intro sint_of_int) auto
qed

lemma percent32_mod:
  assumes "div_ok l r"
  shows "percent32 l r = Inr (word_of_int (sint l mod sint r))"
proof -
  let ?t = "trem (sint l) (sint r)"
  have r: "sint r \<noteq> 0" using assms by (simp add: div_ok_def)
  have "(word_of_int ?t :: u32) \<noteq> 0 \<longleftrightarrow> ?t \<noteq> 0" using rem32_Inr(2) [OF assms] by (metis sint_0 word_of_int_0)
  moreover have "word_of_int ?t + r = word_of_int (?t + sint r)" by (simp flip: wi_hom_add)
  ultimately show ?thesis
    using rem32_Inr [OF assms] by (simp add: percent32_def word_sless_alt mod_from_trem [OF r])
qed

text \<open>C17. The division primitives on integers, for a non-zero divisor (and not the smallest integer by
  -1): \<open>/\<close> truncates, \<open>rem:\<close> is the remainder that goes with it and has the sign of the dividend, \<open>%\<close> is
  the remainder of floor division and has the sign of the divisor. In the excluded cases the
  operations are undefined.\<close>

theorem integer_division:
  "if div_ok l r
   then (\<exists>q m p. integer_slash [TInt l, TInt r] = Inr (TInt q) \<and> integer_rem [TInt l, TInt r] = Inr (TInt m) \<and>
           integer_percent [TInt l, TInt r] = Inr (TInt p) \<and>
           sint l = sint q * sint r + sint m \<and> \<bar>sint m\<bar> < \<bar>sint r\<bar> \<and> sint m * sint l \<ge> 0 \<and>
           sint p = sint l mod sint r)
   else integer_slash [TInt l, TInt r] = Inl Undefined \<and> integer_rem [TInt l, TInt r] = Inl Undefined \<and>
        integer_percent [TInt l, TInt r] = Inl Undefined"
proof (cases "div_ok l r")
  case True
  let ?q = "tdiv (sint l) (sint r)" and ?t = "trem (sint l) (sint r)"
  have r: "sint r \<noteq> 0" using True by (simp add: div_ok_def)
  have q: "div32 l r = Inr (word_of_int ?q)" "sint (word_of_int ?q :: u32) = ?q"
    using True tdiv_range [OF True] sint_of_int by (auto simp: div32_def div_ok_def)
  have "l - word_of_int ?q * r = word_of_int (sint l - ?q * sint r)"
    by (simp flip: wi_hom_mult wi_hom_sub)
  then have m: "l - word_of_int ?q * r = word_of_int ?t" by (simp add: trem_def)
  have "\<bar>sint l mod sint r\<bar> < \<bar>sint r\<bar>" using r by (simp add: abs_mod_less)
  then have p: "sint (word_of_int (sint l mod sint r) :: u32) = sint l mod sint r"
    using sint_range [of r] by (intro sint_of_int) auto
  have sgn: "?t * sint l \<ge> 0"
    using trem_sign [of "sint l" "sint r"] by (cases "?t = 0") (auto simp: zero_le_mult_iff not_less)
  show ?thesis
    using True q m p sgn rem32_Inr(2) [OF True] percent32_mod [OF True] trem_bound [OF r, of "sint l"]
    by (simp add: integer_slash_def integer_rem_def integer_percent_def int_num_op_def int_arg_def as_int_def GetArg_def trem_def)
next
  case False
  then show ?thesis
    by (auto simp: integer_slash_def integer_rem_def integer_percent_def int_num_op_def int_arg_def as_int_def GetArg_def
        div32_def percent32_def rem32_def div_ok_def)
qed

subsection \<open>Conversions\<close>

lemma int_digits_all: "0 \<le> n \<Longrightarrow> list_all isdigit (int_digits n) \<and> int_digits n \<noteq> []"
proof (induction n rule: int_digits.induct)
  case (1 n)
  have d: "isdigit (char_of (48 + nat k))" if "0 \<le> k" "k < 10" for k
    using that by (simp add: isdigit_def ch_def)
  show ?case
  proof (cases "n < 10")
    case True
    then show ?thesis using d "1.prems" by (subst (1 2) int_digits.simps) simp
  next
    case False
    then show ?thesis using d [of "n mod 10"] "1.IH" by (subst (1 2) int_digits.simps) simp
  qed
qed

lemma int_digits_value:
  "0 \<le> n \<Longrightarrow> foldl (\<lambda>a c. a * 10 + (int (of_char c) - 48)) 0 (int_digits n) = n"
proof (induction n rule: int_digits.induct)
  case (1 n)
  show ?case
  proof (cases "n < 10")
    case True
    then show ?thesis using "1.prems" by (subst int_digits.simps) simp
  next
    case False
    then show ?thesis using "1.IH" by (subst int_digits.simps) simp
  qed
qed

lemma digit_not_space: "isdigit c \<Longrightarrow> \<not> isspace c \<and> c \<noteq> CHR ''-'' \<and> c \<noteq> CHR ''+'' \<and> c \<noteq> CHR 0x00"
  by (auto simp: isdigit_def isspace_def ch_def)

lemma strtoll_show_int: "strtoll (show_int i) = Some i"
proof -
  have sp: "\<not> isspace (CHR ''-'')" by (simp add: isspace_def ch_def)
  define ds where "ds = int_digits \<bar>i\<bar>"
  have ds: "list_all isdigit ds" "ds \<noteq> []" using int_digits_all [of "\<bar>i\<bar>"] by (simp_all add: ds_def)
  then obtain c cs where c: "ds = c # cs" "isdigit c" by (cases ds) auto
  have nul: "takeWhile (\<lambda>c. c \<noteq> CHR 0x00) ds = ds" and dig: "takeWhile isdigit ds = ds"
    using ds by (auto simp: takeWhile_eq_all_conv list_all_iff dest: digit_not_space)
  have v: "foldl (\<lambda>a c. a * 10 + (int (of_char c) - 48)) 0 ds = \<bar>i\<bar>" using int_digits_value by (simp add: ds_def)
  have "strtoll ds = Some \<bar>i\<bar>"
    unfolding strtoll_def nul using digit_not_space [OF c(2)] dig v ds(2) c(1) by (simp add: Let_def)
  moreover have "strtoll (CHR ''-'' # ds) = Some (- \<bar>i\<bar>)"
    unfolding strtoll_def using v ds(2) sp by (simp add: Let_def nul dig del: takeWhile_eq_all_conv)
  ultimately show ?thesis by (cases "i < 0") (simp_all add: show_int_def ds_def)
qed

lemma parse_show_int: "parse_integer (show_int (sint i)) = i"
  using sint_range [of i] by (simp add: parse_integer_def strtoll_show_int)

text \<open>C18. Printing an integer and reading the string back gives the integer, for every 32-bit integer:
  \<open>integer_asstring\<close> allocates one new string object and changes nothing else, and
  \<open>integer_fromstring\<close> of it returns the receiver.\<close>

theorem integer_string_roundtrip:
  "\<exists>a V'. integer_asstring [TInt i] V = Inr (TObj a, V') \<and> a = length (h_objs V) \<and>
          V' = V\<lparr>h_objs := h_objs V @ [\<lparr>o_hiddenClass = m_stringHiddenClass V, o_payload = StringData (show_int (sint i))\<rparr>]\<rparr> \<and>
          integer_fromstring [recv, TObj a] V' = Inr (TInt i, V')"
  by (simp add: integer_asstring_def integer_fromstring_def int_arg_def as_int_def GetArg_def AllocateString_def new_obj_def
      GetStringContentFromSOMString_def obj_of_def as_obj_def the_obj_def string_of_def parse_show_int bindS_app)

lemma i2d_facts:
  "dbl_trunc (i2d i) = Some (sint i)" "dbl_eq (i2d i) (i2d j) \<longleftrightarrow> i = j"
  "dbl_lt (i2d i) (i2d j) \<longleftrightarrow> sint i < sint j" "dbl_le (i2d i) (i2d j) \<longleftrightarrow> sint i \<le> sint j"
proof -
  have b: "\<bar>sint k\<bar> < 2 ^ 53" for k :: u32 using sint_range [of k] by auto
  have "sint i = sint j \<longleftrightarrow> i = j" by (simp add: signed_word_eqI inj_eq [OF inj_signed])
  with b [of i] b [of j] show "dbl_trunc (i2d i) = Some (sint i)" "dbl_eq (i2d i) (i2d j) \<longleftrightarrow> i = j"
    "dbl_lt (i2d i) (i2d j) \<longleftrightarrow> sint i < sint j" "dbl_le (i2d i) (i2d j) \<longleftrightarrow> sint i \<le> sint j"
    by (simp_all add: i2d_def dbl_trunc_of_int dbl_compare_of_int)
qed

text \<open>C19. Integers and doubles agree in conversions and comparisons: converting an integer to a double and back gives the integer;
  the six comparisons of integers are those of the signed numbers, and comparing an integer with the double of another one,
  from either side, or the doubles of two integers, gives the same answer.\<close>

theorem integer_double_agree:
  "integer_asdouble [TInt i] = Inr (TDouble (i2d i)) \<and> double_asinteger [TDouble (i2d i)] = Inr (TInt i) \<and>
   list_all (\<lambda>(p, q, r). p [TInt i, TInt j] = Inr (TBool (r (sint i) (sint j))) \<and>
                      p [TInt i, TDouble (i2d j)] = p [TInt i, TInt j] \<and>
                      q [TDouble (i2d i), TInt j] = p [TInt i, TInt j] \<and>
                      q [TDouble (i2d i), TDouble (i2d j)] = p [TInt i, TInt j])
     [(integer_equal, double_equal, (=)), (integer_unequal, double_unequal, (\<noteq>)),
      (integer_lowerthan, double_lowerthan, (<)), (integer_lowerequal, double_lowerequal, (\<le>)),
      (integer_greaterthan, double_greaterthan, (>)), (integer_greaterequal, double_greaterequal, (\<ge>))]"
proof -
  have "double_asinteger [TDouble (i2d i)] = Inr (TInt i)"
    using sint_range [of i]
    by (simp add: double_asinteger_def double_arg_def as_double_def GetArg_def d2i32_def dbl_to_signed_def i2d_facts)
  moreover have "i = j \<longleftrightarrow> sint i = sint j" by (auto intro: signed_word_eqI)
  ultimately show ?thesis
    by (simp add: integer_asdouble_def int_arg_def as_int_def GetArg_def int_num_op_def double_op_def double_arg_def
        as_double_def CoerceDouble_def integer_equal_def integer_unequal_def integer_lowerthan_def integer_lowerequal_def
        integer_greaterthan_def integer_greaterequal_def double_equal_def double_unequal_def double_lowerthan_def
        double_lowerequal_def double_greaterthan_def double_greaterequal_def i2d_facts word_sless_alt word_sle_eq)
qed

end
