(* ===== verification/PrimObjects.thy ===== *)
theory PrimObjects
  imports PrimNumbers
begin

section \<open>Primitives on objects, classes, blocks, the system, arrays and strings\<close>

text \<open>
  The remaining library functions of \<open>src/annotated/builtin_libs/som_primitives.cpp\<close>. A primitive
  either returns a value or calls a function: \<open>Call f args k\<close> is \<open>MakeInPlaceCall\<close> of function \<open>f\<close> with
  the return continuation \<open>k\<close>, which keeps the frame of the primitive (its arguments) when it needs
  them. \<open>run_kont\<close> runs a continuation on the returned value. A test assertion on the type of an
  argument whose failure leaves the behaviour undefined is part of \<open>Inl Undefined\<close>; the assertions on
  values keep the flag \<open>e_tb\<close>.
\<close>

datatype kont =
    TrivialReturnCont
  | block_whiletrue_evalbody val val
  | block_whiletrue_evalcond val val
  | block_whilefalse_evalbody val val
  | block_whilefalse_evalcond val val

datatype outcome = Ret val | Call nat "val list" kont

definition str_arg :: "val list \<Rightarrow> nat \<Rightarrow> string vmop" where
  "str_arg args i = bindS (liftS (GetArg args i)) GetStringContentFromSOMString"

definition obj_arg :: "val list \<Rightarrow> nat \<Rightarrow> (nat \<times> SOMObject) vmop" where
  "obj_arg args i =
     bindS (liftS (bindR (GetArg args i) as_obj)) (\<lambda>a. bindS (the_obj a) (\<lambda>x. retS (a, x)))"

definition arr_arg :: "val list \<Rightarrow> nat \<Rightarrow> val list vmop" where
  "arr_arg args i = bindS (liftS (GetArg args i)) array_content"

definition iarg :: "val list \<Rightarrow> nat \<Rightarrow> u32 vmop" where
  "iarg args i = liftS (int_arg args i)"

definition ret_obj :: "nat vmop \<Rightarrow> val vmop" where
  "ret_obj m = bindS m (\<lambda>a. retS (TObj a))"

subsection \<open>Objects\<close>

definition object_equalequal :: "val list \<Rightarrow> val res" where
  "object_equalequal args = bindR (GetArg args 0) (\<lambda>l. bindR (GetArg args 1) (\<lambda>r. Inr (TBool (l = r))))"

definition object_sizebytes :: "val list \<Rightarrow> val vmop" where
  "object_sizebytes args =
     bindS (liftS (GetArg args 0)) (\<lambda>tv.
     case tv of
       TObj a \<Rightarrow>
         bindS (the_obj a) (\<lambda>x.
         case o_payload x of
           ArrayData vs \<Rightarrow> retS (TInt (of_nat (length vs * 8 + 16)))
         | StringData s \<Rightarrow> retS (TInt (of_nat ((length s + 1 + 7) div 8 * 8 + 16)))
         | Fields _ \<Rightarrow> bindS (the_class (o_hiddenClass x)) (\<lambda>c. retS (TInt (of_nat (c_numFields c * 8 + 8)))))
     | TFun f \<Rightarrow> bindS (the_fun f) (\<lambda>fo. retS (TInt (of_nat (length (fo_upvalues fo) * 8 + 8))))
     | _ \<Rightarrow> retS (TInt 8))"

definition object_hashcode :: "prim_env \<Rightarrow> val list \<Rightarrow> val res" where
  "object_hashcode E args = bindR (GetArg args 0) (\<lambda>tv. Inr (TInt (ucast (e_HashPrimitiveTypes E (e_bits E tv)))))"

definition object_inspect :: "val list \<Rightarrow> val res" where
  "object_inspect args = Inr (TBool False)"

definition object_halt :: "val list \<Rightarrow> val res" where
  "object_halt args = Inr (TBool False)"

definition GetUniquedStringFromVM :: "prim_env \<Rightarrow> val \<Rightarrow> SOMUniquedString vmop" where
  "GetUniquedStringFromVM E meth =
     bindS (GetStringContentFromSOMString meth) (\<lambda>s. GetUniquedString (e_hash E) s)"

text \<open>\<open>SOMClass::GetMethod\<close> on a class of the heap; \<open>None\<close> is the null pointer.\<close>

definition class_method :: "nat \<Rightarrow> SOMUniquedString \<Rightarrow> nat option vmop" where
  "class_method cl name =
     bindS (the_class cl) (\<lambda>c.
     let p = GetMethod (of_nat (length (c_methodHt c) - 1)) (c_methodHt c) name
     in retS (if p = 0 then None else Some (ptr_fn p)))"

definition perform_in :: "prim_env \<Rightarrow> string \<Rightarrow> val \<Rightarrow> nat vmop \<Rightarrow> val list \<Rightarrow> outcome vmop" where
  "perform_in E msg meth cls args =
     bindS (GetUniquedStringFromVM E meth) (\<lambda>name.
     bindS cls (\<lambda>cl.
     bindS (class_method cl name) (\<lambda>fn.
     case fn of None \<Rightarrow> failS (Aborted msg) | Some f \<Rightarrow> retS (Call f args TrivialReturnCont))))"

definition GetClassFromClassObject :: "val \<Rightarrow> nat vmop" where
  "GetClassFromClassObject tv =
     bindS (obj_of tv) (\<lambda>x.
     bindS (liftS (get_field x 0)) (\<lambda>v. case v of TRaw c \<Rightarrow> retS c | _ \<Rightarrow> failS Undefined))"

definition object_perform :: "prim_env \<Rightarrow> val list \<Rightarrow> outcome vmop" where
  "object_perform E args =
     bindS (liftS (GetArg args 0)) (\<lambda>self.
     bindS (liftS (GetArg args 1)) (\<lambda>meth.
     perform_in E ''Object>>perform: Cannot invoke non-existent method'' meth (GetSOMClassOfAny self) [self]))"

definition object_perform_in_superclass :: "prim_env \<Rightarrow> val list \<Rightarrow> outcome vmop" where
  "object_perform_in_superclass E args =
     bindS (liftS (GetArg args 0)) (\<lambda>self.
     bindS (liftS (GetArg args 1)) (\<lambda>meth.
     bindS (liftS (GetArg args 2)) (\<lambda>sc.
     perform_in E ''Object>>perform:inSuperclass: Cannot invoke non-existent method'' meth
       (GetClassFromClassObject sc) [self])))"

definition object_perform_with_args :: "prim_env \<Rightarrow> val list \<Rightarrow> outcome vmop" where
  "object_perform_with_args E args =
     bindS (liftS (GetArg args 0)) (\<lambda>self.
     bindS (liftS (GetArg args 1)) (\<lambda>meth.
     bindS (arr_arg args 2) (\<lambda>vs.
     perform_in E ''Object>>perform:withArguments: Cannot invoke non-existent method'' meth
       (GetSOMClassOfAny self) (self # vs))))"

definition object_perform_with_args_in_superclass :: "prim_env \<Rightarrow> val list \<Rightarrow> outcome vmop" where
  "object_perform_with_args_in_superclass E args =
     bindS (liftS (GetArg args 0)) (\<lambda>self.
     bindS (liftS (GetArg args 1)) (\<lambda>meth.
     bindS (arr_arg args 2) (\<lambda>vs.
     bindS (liftS (GetArg args 3)) (\<lambda>sc.
     perform_in E ''Object>>perform:withArguments:inSuperclass: Cannot invoke non-existent method'' meth
       (GetClassFromClassObject sc) (self # vs)))))"

definition object_instvarat :: "val list \<Rightarrow> val vmop" where
  "object_instvarat args =
     bindS (obj_arg args 0) (\<lambda>(a, x).
     bindS (iarg args 1) (\<lambda>i.
     let fieldIdx = sint (i - 1)
     in if fieldIdx < 0 then failS OutOfRange else liftS (get_field x (nat fieldIdx))))"

definition object_instvaratput :: "val list \<Rightarrow> val vmop" where
  "object_instvaratput args =
     bindS (obj_arg args 0) (\<lambda>(a, x).
     bindS (iarg args 1) (\<lambda>i.
     bindS (liftS (GetArg args 2)) (\<lambda>valToPut.
     let fieldIdx = sint (i - 1)
     in if fieldIdx < 0 then failS OutOfRange
        else bindS (liftS (put_field x (nat fieldIdx) valToPut)) (\<lambda>y.
             bindS (set_obj a y) (\<lambda>_. retS (TObj a))))))"

fun find_field :: "string \<Rightarrow> val list \<Rightarrow> nat \<Rightarrow> nat option vmop" where
  "find_field name [] i = retS None"
| "find_field name (f # fs) i =
     bindS (GetStringContentFromSOMString f) (\<lambda>fieldName.
     if name = fieldName then retS (Some i) else find_field name fs (Suc i))"

definition object_instvarnamed :: "val list \<Rightarrow> val vmop" where
  "object_instvarnamed args =
     bindS (obj_arg args 0) (\<lambda>(a, x).
     bindS (str_arg args 1) (\<lambda>name.
     bindS (the_class (o_hiddenClass x)) (\<lambda>cl.
     bindS (array_content (TObj (c_fields cl))) (\<lambda>fs.
     bindS (find_field name (take (c_numFields cl) fs) 0) (\<lambda>i.
     case i of
       None \<Rightarrow> failS (Aborted (''Invalid field name '' @ name @ '' passed to instVarNamed.''))
     | Some k \<Rightarrow> liftS (get_field x k))))))"

definition object_class :: "val list \<Rightarrow> val vmop" where
  "object_class args =
     bindS (liftS (GetArg args 0)) (\<lambda>tv.
     bindS (GetSOMClassOfAny tv) (\<lambda>cl.
     bindS (the_class cl) (\<lambda>c.
     case c_classObject c of None \<Rightarrow> failS Undefined | Some o1 \<Rightarrow> retS (TObj o1))))"

subsection \<open>Classes\<close>

definition class_arg :: "val list \<Rightarrow> (nat \<times> SOMClass) vmop" where
  "class_arg args =
     bindS (liftS (GetArg args 0)) (\<lambda>tv.
     bindS (GetClassFromClassObject tv) (\<lambda>cl. bindS (the_class cl) (\<lambda>c. retS (cl, c))))"

definition class_new :: "val list \<Rightarrow> val vmop" where
  "class_new args = bindS (class_arg args) (\<lambda>(cl, c). ret_obj (Instantiate cl))"

definition class_name :: "val list \<Rightarrow> val vmop" where
  "class_name args = bindS (class_arg args) (\<lambda>(cl, c). retS (TObj (c_name c)))"

definition class_superclass :: "val list \<Rightarrow> val vmop" where
  "class_superclass args =
     bindS (class_arg args) (\<lambda>(cl, c).
     case c_superClass c of
       None \<Rightarrow> retS TNil
     | Some s \<Rightarrow>
         bindS (the_class s) (\<lambda>sc.
         case c_classObject sc of None \<Rightarrow> failS Undefined | Some o1 \<Rightarrow> retS (TObj o1)))"

definition class_fields :: "val list \<Rightarrow> val vmop" where
  "class_fields args = bindS (class_arg args) (\<lambda>(cl, c). retS (TObj (c_fields c)))"

definition class_methods :: "val list \<Rightarrow> val vmop" where
  "class_methods args = bindS (class_arg args) (\<lambda>(cl, c). retS (TObj (c_methods c)))"

subsection \<open>Blocks\<close>

text \<open>\<open>*m_ptr\<close> of an upvalue: the stack slot while it is open, the value inside it afterwards.\<close>

definition read_upvalue :: "nat \<Rightarrow> val vmop" where
  "read_upvalue u =
     (\<lambda>V. if u < length (h_upvalues V)
          then case uv_ptr (h_upvalues V ! u) of
                 Some i \<Rightarrow> if i < length (v_stack V) then Inr (v_stack V ! i, V) else Inl Undefined
               | None \<Rightarrow> Inr (uv_tv (h_upvalues V ! u), V)
          else Inl Undefined)"

text \<open>The captured \<open>self\<close> of a block: its first upvalue, by value or through an \<open>Upvalue\<close>.\<close>

definition block_self :: "bool \<Rightarrow> FunctionObject \<Rightarrow> val vmop" where
  "block_self imm fo =
     (case fo_upvalues fo of
        UvImm v # _ \<Rightarrow> if imm then retS v else failS Undefined
      | UvRef u # _ \<Rightarrow> if imm then failS Undefined else read_upvalue u
      | _ \<Rightarrow> failS Undefined)"

definition fun_arg :: "val list \<Rightarrow> nat \<Rightarrow> (nat \<times> FunctionObject) vmop" where
  "fun_arg args i =
     bindS (liftS (GetArg args i)) (\<lambda>v.
     case v of TFun f \<Rightarrow> bindS (the_fun f) (\<lambda>fo. retS (f, fo)) | _ \<Rightarrow> failS Undefined)"

definition block_eval ::
  "prim_env \<Rightarrow> SOMDetailEntityType \<Rightarrow> SOMDetailEntityType \<Rightarrow> val list \<Rightarrow> val list \<Rightarrow> outcome vmop" where
  "block_eval E ty immTy args xs =
     bindS (fun_arg args 0) (\<lambda>(f, fo).
     bindS (liftS (TestAssert (e_tb E) (fo_type fo = ty \<or> fo_type fo = immTy))) (\<lambda>_.
     bindS (block_self (fo_type fo = immTy) fo) (\<lambda>self. retS (Call f (self # xs) TrivialReturnCont))))"

definition block1_eval :: "prim_env \<Rightarrow> val list \<Rightarrow> outcome vmop" where
  "block1_eval E args = block_eval E SOM_BlockNoArg SOM_BlockNoArgImmSelf args []"

definition block2_eval :: "prim_env \<Rightarrow> val list \<Rightarrow> outcome vmop" where
  "block2_eval E args =
     bindS (liftS (GetArg args 1)) (\<lambda>a. block_eval E SOM_BlockOneArg SOM_BlockOneArgImmSelf args [a])"

definition block3_eval :: "prim_env \<Rightarrow> val list \<Rightarrow> outcome vmop" where
  "block3_eval E args =
     bindS (liftS (GetArg args 1)) (\<lambda>a. bindS (liftS (GetArg args 2)) (\<lambda>b.
     block_eval E SOM_BlockTwoArgs SOM_BlockTwoArgsImmSelf args [a, b]))"

text \<open>The ordinal of an entity type in the enum.\<close>

definition entity_ord :: "SOMDetailEntityType \<Rightarrow> nat" where
  "entity_ord t = (case t of SOM_Object \<Rightarrow> 0 | SOM_Method \<Rightarrow> 1 | SOM_BlockNoArg \<Rightarrow> 2 | SOM_BlockNoArgImmSelf \<Rightarrow> 3
     | SOM_BlockOneArg \<Rightarrow> 4 | SOM_BlockOneArgImmSelf \<Rightarrow> 5 | SOM_BlockTwoArgs \<Rightarrow> 6 | SOM_BlockTwoArgsImmSelf \<Rightarrow> 7
     | SOM_Array \<Rightarrow> 8 | SOM_String \<Rightarrow> 9)"

text \<open>
  \<open>SetupStackForBlockNoArgCall\<close>: the function and the arguments of the call, \<open>nil\<close> for each declared
  argument. Types below \<open>SOM_BlockNoArg\<close> would underflow the count.
\<close>

definition SetupStackForBlockNoArgCall :: "val \<Rightarrow> (nat \<times> val list) vmop" where
  "SetupStackForBlockNoArgCall func =
     bindS (fun_arg [func] 0) (\<lambda>(f, fo).
     let t = entity_ord (fo_type fo)
     in if t < 2 then failS Undefined
        else bindS (block_self (t mod 2 = 1) fo) (\<lambda>self.
             retS (f, take ((t - 2) div 2 + 1) [self, TNil, TNil])))"

definition call_block :: "val \<Rightarrow> kont \<Rightarrow> outcome vmop" where
  "call_block b k = bindS (SetupStackForBlockNoArgCall b) (\<lambda>(f, args). retS (Call f args k))"

definition block_whiletrue :: "val list \<Rightarrow> outcome vmop" where
  "block_whiletrue args =
     bindS (liftS (GetArg args 0)) (\<lambda>c. bindS (liftS (GetArg args 1)) (\<lambda>b. call_block c (block_whiletrue_evalbody c b)))"

definition block_whilefalse :: "val list \<Rightarrow> outcome vmop" where
  "block_whilefalse args =
     bindS (liftS (GetArg args 0)) (\<lambda>c. bindS (liftS (GetArg args 1)) (\<lambda>b. call_block c (block_whilefalse_evalbody c b)))"

definition run_kont :: "kont \<Rightarrow> val \<Rightarrow> outcome vmop" where
  "run_kont k retVal =
     (case k of
        TrivialReturnCont \<Rightarrow> retS (Ret retVal)
      | block_whiletrue_evalbody c b \<Rightarrow>
          if retVal = TBool True then call_block b (block_whiletrue_evalcond c b) else retS (Ret TNil)
      | block_whiletrue_evalcond c b \<Rightarrow> call_block c (block_whiletrue_evalbody c b)
      | block_whilefalse_evalbody c b \<Rightarrow>
          if retVal = TBool False then call_block b (block_whilefalse_evalcond c b) else retS (Ret TNil)
      | block_whilefalse_evalcond c b \<Rightarrow> call_block c (block_whilefalse_evalbody c b))"

subsection \<open>Methods\<close>

definition method_signature :: "val list \<Rightarrow> val vmop" where
  "method_signature args = bindS (obj_arg args 0) (\<lambda>(a, x). liftS (get_field x 1))"

definition method_holder :: "val list \<Rightarrow> val vmop" where
  "method_holder args = bindS (obj_arg args 0) (\<lambda>(a, x). liftS (get_field x 0))"

definition method_invoke_on_with :: "val list \<Rightarrow> outcome vmop" where
  "method_invoke_on_with args =
     bindS (obj_arg args 0) (\<lambda>(m, x).
     bindS (liftS (GetArg args 1)) (\<lambda>self.
     bindS (arr_arg args 2) (\<lambda>vs.
     bindS (liftS (get_field x 2)) (\<lambda>func.
     case func of TFun f \<Rightarrow> retS (Call f (self # vs) TrivialReturnCont) | _ \<Rightarrow> failS Undefined))))"

subsection \<open>The system\<close>

text \<open>\<open>SafeIntegerCast<uint16_t>\<close> of the slot keeps the low 16 bits outside debug builds.\<close>

definition system_global :: "prim_env \<Rightarrow> val list \<Rightarrow> val vmop" where
  "system_global E args =
     bindS (str_arg args 1) (\<lambda>globalName.
     bindS (GetSlotForGlobalNoCreate (e_hash E) globalName) (\<lambda>slot.
     case slot of
       None \<Rightarrow> retS TNil
     | Some idx \<Rightarrow>
         bindS (VM_GetGlobal (idx mod 65536)) (\<lambda>r. retS (if r = TImpossible then TNil else r))))"

definition system_globalput :: "prim_env \<Rightarrow> val list \<Rightarrow> val vmop" where
  "system_globalput E args =
     bindS (liftS (GetArg args 0)) (\<lambda>self.
     bindS (str_arg args 1) (\<lambda>globalName.
     bindS (liftS (GetArg args 2)) (\<lambda>valToPut.
     bindS (GetSlotForGlobal (e_hash E) globalName) (\<lambda>slot.
     bindS (set_global slot valToPut) (\<lambda>_. retS self)))))"

definition system_hasglobal :: "prim_env \<Rightarrow> val list \<Rightarrow> val vmop" where
  "system_hasglobal E args =
     bindS (str_arg args 1) (\<lambda>globalName.
     bindS (GetSlotForGlobalNoCreate (e_hash E) globalName) (\<lambda>slot.
     case slot of
       None \<Rightarrow> retS (TBool False)
     | Some idx \<Rightarrow> bindS (VM_GetGlobal (idx mod 65536)) (\<lambda>r. retS (TBool (r \<noteq> TImpossible)))))"

definition system_load :: "prim_env \<Rightarrow> val list \<Rightarrow> val vmop" where
  "system_load E args =
     bindS (str_arg args 1) (\<lambda>className.
     bindS (e_SOMCompileFile E className) (\<lambda>cl.
     bindS (the_class cl) (\<lambda>c.
     case c_classObject c of None \<Rightarrow> failS Undefined | Some o1 \<Rightarrow> retS (TObj o1))))"

text \<open>The message and the stack trace a non-zero code prints before the process ends are not kept.\<close>

definition system_exit :: "prim_env \<Rightarrow> val list \<Rightarrow> val vmop" where
  "system_exit E args = bindS (iarg args 1) (\<lambda>err. failS (Exited (sint err)))"

definition put_stdout :: "string \<Rightarrow> unit vmop" where
  "put_stdout s = modS (\<lambda>V. V\<lparr>m_stdout := m_stdout V @ s\<rparr>)"

definition put_stderr :: "string \<Rightarrow> unit vmop" where
  "put_stderr s = modS (\<lambda>V. V\<lparr>m_stderr := m_stderr V @ s\<rparr>)"

definition system_printstacktrace :: "prim_env \<Rightarrow> val list \<Rightarrow> val vmop" where
  "system_printstacktrace E args =
     bindS (liftS (GetArg args 0)) (\<lambda>self. bindS (put_stdout (e_trace E)) (\<lambda>_. retS self))"

definition system_printstring :: "val list \<Rightarrow> val vmop" where
  "system_printstring args =
     bindS (liftS (GetArg args 0)) (\<lambda>self. bindS (str_arg args 1) (\<lambda>s. bindS (put_stdout s) (\<lambda>_. retS self)))"

definition system_printnewline :: "val list \<Rightarrow> val vmop" where
  "system_printnewline args =
     bindS (liftS (GetArg args 0)) (\<lambda>self. bindS (put_stdout [CHR 0x0A]) (\<lambda>_. retS self))"

definition system_errorprint :: "val list \<Rightarrow> val vmop" where
  "system_errorprint args =
     bindS (liftS (GetArg args 0)) (\<lambda>self. bindS (str_arg args 1) (\<lambda>s. bindS (put_stderr s) (\<lambda>_. retS self)))"

definition system_errorprintln :: "val list \<Rightarrow> val vmop" where
  "system_errorprintln args =
     bindS (liftS (GetArg args 0)) (\<lambda>self.
     bindS (str_arg args 1) (\<lambda>s. bindS (put_stderr (s @ [CHR 0x0A])) (\<lambda>_. retS self)))"

definition elapsed_times :: "prim_env \<Rightarrow> int \<Rightarrow> val res" where
  "elapsed_times E k = bindR (d2i32 (dbl_mul (e_elapsed E) (dbl_of_int k))) (\<lambda>i. Inr (TInt i))"

definition system_elapsed_milliseconds :: "prim_env \<Rightarrow> val list \<Rightarrow> val res" where
  "system_elapsed_milliseconds E args = elapsed_times E 1000"

definition system_elapsed_microseconds :: "prim_env \<Rightarrow> val list \<Rightarrow> val res" where
  "system_elapsed_microseconds E args = elapsed_times E 1000000"

definition system_fullgc :: "val list \<Rightarrow> val res" where
  "system_fullgc args = Inr (TBool True)"

definition system_loadfile :: "prim_env \<Rightarrow> val list \<Rightarrow> val vmop" where
  "system_loadfile E args =
     bindS (str_arg args 1) (\<lambda>fileName.
     case e_readFile E fileName of None \<Rightarrow> retS TNil | Some contents \<Rightarrow> ret_obj (AllocateString contents))"

subsection \<open>Arrays\<close>

text \<open>The bounds check of \<open>at:\<close> and \<open>at:put:\<close>: 1-based, against the length.\<close>

definition index_ok :: "u32 \<Rightarrow> nat \<Rightarrow> bool" where
  "index_ok idx len \<longleftrightarrow> \<not> (sint idx \<le> 0 \<or> sint idx > int len)"

definition array_at :: "val list \<Rightarrow> val vmop" where
  "array_at args =
     bindS (iarg args 1) (\<lambda>idx.
     bindS (arr_arg args 0) (\<lambda>vs.
     if \<not> index_ok idx (length vs) then failS (Aborted ''Array access out of bound'')
     else retS (vs ! (nat (sint idx) - 1))))"

definition array_at_put :: "val list \<Rightarrow> val vmop" where
  "array_at_put args =
     bindS (iarg args 1) (\<lambda>idx.
     bindS (liftS (GetArg args 2)) (\<lambda>valToPut.
     bindS (obj_arg args 0) (\<lambda>(a, x).
     bindS (liftS (array_of x)) (\<lambda>vs.
     if \<not> index_ok idx (length vs) then failS (Aborted ''Array write out of bound'')
     else bindS (set_obj a (x\<lparr>o_payload := ArrayData (vs[nat (sint idx) - 1 := valToPut])\<rparr>)) (\<lambda>_. retS (TObj a))))))"

definition array_length :: "val list \<Rightarrow> val vmop" where
  "array_length args = bindS (arr_arg args 0) (\<lambda>vs. retS (TInt (of_nat (length vs))))"

definition array_new :: "val list \<Rightarrow> val vmop" where
  "array_new args =
     bindS (iarg args 1) (\<lambda>len.
     if len <s 0 then failS (Aborted ''Cannot create array of negative length'')
     else ret_obj (AllocateArray (nat (sint len))))"

definition array_copy :: "val list \<Rightarrow> val vmop" where
  "array_copy args = bindS (obj_arg args 0) (\<lambda>(a, x). ret_obj (ShallowCopyArray a))"

subsection \<open>Strings\<close>

definition string_concatenate :: "val list \<Rightarrow> val vmop" where
  "string_concatenate args =
     bindS (obj_arg args 0) (\<lambda>(a, _). bindS (obj_arg args 1) (\<lambda>(b, _). ret_obj (DoStringConcat a b)))"

definition string_assymbol :: "prim_env \<Rightarrow> val list \<Rightarrow> val vmop" where
  "string_assymbol E args =
     bindS (str_arg args 0) (\<lambda>s. bindS (InternV (e_hash E) s) (\<lambda>ord. ret_obj (GetInternedSymbol ord)))"

text \<open>\<open>char\<close> is signed, so a character above 127 is sign-extended before it is added.\<close>

definition char_u64 :: "char \<Rightarrow> u64" where
  "char_u64 c = scast (of_nat (of_char c) :: u8)"

definition string_hash :: "string \<Rightarrow> u64" where
  "string_hash s = foldl (\<lambda>h c. (push_bit 5 h + h) + char_u64 c) 5381 s"

definition string_hashcode :: "val list \<Rightarrow> val vmop" where
  "string_hashcode args = bindS (str_arg args 0) (\<lambda>s. retS (TInt (ucast (string_hash s))))"

definition string_length :: "val list \<Rightarrow> val vmop" where
  "string_length args = bindS (str_arg args 0) (\<lambda>s. retS (TInt (of_nat (length s))))"

definition string_equal :: "val list \<Rightarrow> val vmop" where
  "string_equal args =
     bindS (liftS (GetArg args 0)) (\<lambda>lhs.
     bindS (liftS (GetArg args 1)) (\<lambda>rhs.
     bindS (GetStringContentFromSOMString lhs) (\<lambda>l.
     if lhs = rhs then retS (TBool True)
     else case rhs of
            TObj b \<Rightarrow>
              bindS (the_obj b) (\<lambda>x.
              case o_payload x of
                StringData r \<Rightarrow> retS (TBool (length r = length l \<and> l = r))
              | _ \<Rightarrow> retS (TBool False))
          | _ \<Rightarrow> retS (TBool False))))"

text \<open>
  \<open>substr\<close> throws (and ends the process) when the start lies behind the string; the count is a
  \<open>size_t\<close>, so a negative one reaches to the end of the string.
\<close>

definition substr :: "string \<Rightarrow> int \<Rightarrow> int \<Rightarrow> string res" where
  "substr s pos cnt =
     (let p = pos mod 2 ^ 64; n = cnt mod 2 ^ 64
      in if int (length s) < p then Inl (Aborted ''out_of_range'')
         else Inr (take (nat n) (drop (nat p) s)))"

definition string_primsubstring :: "prim_env \<Rightarrow> val list \<Rightarrow> val vmop" where
  "string_primsubstring E args =
     bindS (iarg args 1) (\<lambda>start.
     bindS (iarg args 2) (\<lambda>endv.
     bindS (str_arg args 0) (\<lambda>str.
     bindS (liftS (TestAssert (e_tb E)
              (1 \<le> sint start \<and> sint start \<le> sint (endv + 1) \<and> sint endv \<le> int (length str)))) (\<lambda>_.
     bindS (liftS (substr str (sint (start - 1)) (sint (endv - start + 1)))) (\<lambda>r. ret_obj (AllocateString r))))))"

definition string_charat :: "val list \<Rightarrow> val vmop" where
  "string_charat args =
     bindS (iarg args 1) (\<lambda>idx.
     bindS (str_arg args 0) (\<lambda>str.
     if \<not> index_ok idx (length str) then failS (Aborted ''String charAt out of bound'')
     else ret_obj (AllocateString [str ! (nat (sint idx) - 1)])))"

definition string_all :: "(char \<Rightarrow> bool) \<Rightarrow> val list \<Rightarrow> val vmop" where
  "string_all p args = bindS (str_arg args 0) (\<lambda>s. retS (TBool (s \<noteq> [] \<and> list_all p s)))"

definition string_iswhitespace :: "val list \<Rightarrow> val vmop" where
  "string_iswhitespace = string_all isspace"

definition string_isletters :: "val list \<Rightarrow> val vmop" where
  "string_isletters = string_all isalpha"

definition string_isdigits :: "val list \<Rightarrow> val vmop" where
  "string_isdigits = string_all isdigit"

definition symbol_asstring :: "prim_env \<Rightarrow> val list \<Rightarrow> val vmop" where
  "symbol_asstring E args =
     bindS (str_arg args 0) (\<lambda>s. bindS (InternV (e_hash E) s) (\<lambda>ord. ret_obj (GetInternedString ord)))"

definition unimplemented_primitive :: "FunctionObject \<Rightarrow> val vmop" where
  "unimplemented_primitive f =
     (case fo_upvalues f of
        [UvImm str] \<Rightarrow>
          bindS (GetStringContentFromSOMString str) (\<lambda>s. failS (Aborted (''Unimplemented primitive '' @ s @ ''!'')))
      | _ \<Rightarrow> failS Undefined)"

text \<open>An environment for concrete runs.\<close>

definition demo_prims :: prim_env where
  "demo_prims = \<lparr>e_tb = True, e_hash = (\<lambda>_. 0), e_sin = id, e_cos = id, e_stod = (\<lambda>_. None), e_rand = 4, e_elapsed = 0,
     e_readFile = (\<lambda>_. None), e_bits = (\<lambda>_. 0), e_HashPrimitiveTypes = id, e_trace = [],
     e_SOMCompileFile = (\<lambda>_. failS OutOfFuel)\<rparr>"

subsection \<open>Arrays: reading and writing\<close>

lemmas prim_simps = obj_arg_def arr_arg_def str_arg_def iarg_def int_arg_def as_int_def GetArg_def
  array_content_def obj_of_def as_obj_def the_obj_def array_of_def string_of_def ret_obj_def
  GetStringContentFromSOMString_def bindS_app

lemma index_ok_nat: "index_ok i n \<longleftrightarrow> 1 \<le> sint i \<and> sint i \<le> int n"
  by (auto simp: index_ok_def)

text \<open>C20. Arrays are 1-based and bounds-checked: writing through \<open>at:put:\<close> replaces exactly the addressed
  element and nothing else in the heap, \<open>at:\<close> afterwards returns the new value at that index and the
  old ones elsewhere, the length does not change, and an index outside \<open>1..length\<close> aborts both
  operations without a change.\<close>

theorem array_put_then_at:
  assumes "a < length (h_objs V)" and "o_payload (h_objs V ! a) = ArrayData vs"
  shows "if sint i < 1 \<or> int (length vs) < sint i
         then array_at_put [TObj a, TInt i, v] V = Inl (Aborted ''Array write out of bound'') \<and>
              array_at [TObj a, TInt i] V = Inl (Aborted ''Array access out of bound'')
         else \<exists>V'. array_at_put [TObj a, TInt i, v] V = Inr (TObj a, V') \<and>
                length (h_objs V') = length (h_objs V) \<and>
                (\<forall>b. b \<noteq> a \<longrightarrow> b < length (h_objs V) \<longrightarrow> h_objs V' ! b = h_objs V ! b) \<and>
                array_length [TObj a] V' = Inr (TInt (of_nat (length vs)), V') \<and>
                (\<forall>j. array_at [TObj a, TInt j] V' =
                       (if sint j < 1 \<or> int (length vs) < sint j then Inl (Aborted ''Array access out of bound'')
                        else if j = i then Inr (v, V')
                        else Inr (vs ! (nat (sint j) - 1), V')))"
proof (cases "index_ok i (length vs)")
  case False
  then show ?thesis using assms by (auto simp: array_at_put_def array_at_def prim_simps index_ok_nat)
next
  case ok: True
  let ?V = "V\<lparr>h_objs := (h_objs V)[a := (h_objs V ! a)\<lparr>o_payload := ArrayData (vs[nat (sint i) - 1 := v])\<rparr>]\<rparr>"
  have put: "array_at_put [TObj a, TInt i, v] V = Inr (TObj a, ?V)"
    using assms ok by (simp add: array_at_put_def prim_simps set_obj_def)
  have ne: "nat (sint j) - 1 \<noteq> nat (sint i) - 1" if "j \<noteq> i" "index_ok j (length vs)" for j
  proof -
    have "sint j \<noteq> sint i" using that(1) by (auto intro: signed_word_eqI)
    then show ?thesis using that(2) ok unfolding index_ok_nat by linarith
  qed
  have "array_at [TObj a, TInt j] ?V =
          (if sint j < 1 \<or> int (length vs) < sint j then Inl (Aborted ''Array access out of bound'')
           else if j = i then Inr (v, ?V) else Inr (vs ! (nat (sint j) - 1), ?V))" for j
    using assms ok ne [of j] by (auto simp: array_at_def prim_simps index_ok_nat)
  moreover have "\<not> (sint i < 1 \<or> int (length vs) < sint i)" using ok by (simp add: index_ok_nat)
  ultimately show ?thesis
    using put assms by (simp only: if_False) (intro exI [of _ ?V]; simp add: array_length_def prim_simps)
qed

theorem array_put_then_at_witness:
  "\<exists>V'. array_at_put [TObj 0, TInt 2, TNil]
          (empty_vm\<lparr>h_objs := [\<lparr>o_hiddenClass = 0, o_payload = ArrayData [TInt 7, TInt 8]\<rparr>]\<rparr>) = Inr (TObj 0, V') \<and>
        array_at [TObj 0, TInt 2] V' = Inr (TNil, V') \<and> array_at [TObj 0, TInt 1] V' = Inr (TInt 7, V')"
proof -
  let ?V = "empty_vm\<lparr>h_objs := [\<lparr>o_hiddenClass = 0, o_payload = ArrayData [TInt 7, TInt 8]\<rparr>]\<rparr>"
  have "0 < length (h_objs ?V)" "o_payload (h_objs ?V ! 0) = ArrayData [TInt 7, TInt 8]" by simp_all
  from array_put_then_at [OF this, of 2 TNil] show ?thesis by auto
qed

subsection \<open>Strings and symbols\<close>

text \<open>C21. For every string and every split point, concatenating the substring up to the point with the
  substring after it gives a string equal to the original: \<open>primSubstringFrom:to:\<close> takes exactly the
  characters from the start to the end index, both included, in every build.\<close>

theorem substring_concatenate:
  assumes "a < length (h_objs V)" and "o_payload (h_objs V ! a) = StringData s"
    and "k \<le> length s" and "length s < 2 ^ 31 - 1"
  shows "\<exists>p V1 q V2 r V3.
           string_primsubstring E [TObj a, TInt 1, TInt (of_nat k)] V = Inr (TObj p, V1) \<and>
           string_primsubstring E [TObj a, TInt (of_nat (k + 1)), TInt (of_nat (length s))] V1 = Inr (TObj q, V2) \<and>
           string_concatenate [TObj p, TObj q] V2 = Inr (TObj r, V3) \<and>
           string_equal [TObj r, TObj a] V3 = Inr (TBool True, V3) \<and>
           o_payload (h_objs V3 ! p) = StringData (take k s) \<and> take (length (h_objs V)) (h_objs V3) = h_objs V"
proof -
  have si: "sint (of_nat n :: u32) = int n" if "n < 2 ^ 31" for n
    using sint_of_int [of "int n"] that by simp
  let ?n = "length (h_objs V)"
  let ?str = "\<lambda>x. \<lparr>o_hiddenClass = m_stringHiddenClass V, o_payload = StringData x\<rparr>"
  let ?V1 = "V\<lparr>h_objs := h_objs V @ [?str (take k s)]\<rparr>"
  let ?V2 = "V\<lparr>h_objs := h_objs V @ [?str (take k s), ?str (drop k s)]\<rparr>"
  let ?V3 = "V\<lparr>h_objs := h_objs V @ [?str (take k s), ?str (drop k s), ?str s]\<rparr>"
  have k: "k < 2 ^ 31" "k + 1 < 2 ^ 31" "length s < 2 ^ 31" "length s + 1 < 2 ^ 31" using assms(3,4) by simp_all
  have e1: "sint (of_nat k + 1 :: u32) = int k + 1" "sint (of_nat (length s) + 1 :: u32) = int (length s) + 1"
    using si [OF k(2)] si [OF k(4)] by (simp_all add: add.commute)
  have "of_nat (length s) - of_nat (k + 1) + 1 = (of_nat (length s - k) :: u32)"
    using assms(3) by (simp add: of_nat_diff)
  then have e2: "sint (of_nat (length s) - of_nat (k + 1) + 1 :: u32) = int (length s - k)"
    using si [of "length s - k"] k(3) by simp
  have 1: "string_primsubstring E [TObj a, TInt 1, TInt (of_nat k)] V = Inr (TObj ?n, ?V1)"
    using assms k si [OF k(1)] e1
    by (simp add: string_primsubstring_def prim_simps TestAssert_def substr_def Let_def AllocateString_def new_obj_def)
  have "sint (1 + of_nat k :: u32) = 1 + int k" using e1 by (simp add: add.commute)
  then have 2: "string_primsubstring E [TObj a, TInt (of_nat (k + 1)), TInt (of_nat (length s))] ?V1 = Inr (TObj (Suc ?n), ?V2)"
    using assms k si [OF k(1)] si [OF k(2)] si [OF k(3)] e1 e2
    by (simp add: string_primsubstring_def prim_simps TestAssert_def substr_def Let_def AllocateString_def new_obj_def nth_append)
  have 3: "string_concatenate [TObj ?n, TObj (Suc ?n)] ?V2 = Inr (TObj (Suc (Suc ?n)), ?V3)"
    by (simp add: string_concatenate_def prim_simps DoStringConcat_def new_obj_def nth_append)
  have 4: "string_equal [TObj (Suc (Suc ?n)), TObj a] ?V3 = Inr (TBool True, ?V3)"
    using assms by (simp add: string_equal_def prim_simps nth_append)
  show ?thesis
    by (intro exI conjI, rule 1, rule 2, rule 3, rule 4) (simp_all add: nth_append)
qed

theorem substring_concatenate_witness:
  "\<exists>p V1 q V2 r V3.
     string_primsubstring demo_prims [TObj 0, TInt 1, TInt (of_nat 2)]
       (empty_vm\<lparr>h_objs := [\<lparr>o_hiddenClass = 0, o_payload = StringData ''abc''\<rparr>]\<rparr>) = Inr (TObj p, V1) \<and>
     string_primsubstring demo_prims [TObj 0, TInt (of_nat (2 + 1)), TInt (of_nat 3)] V1 = Inr (TObj q, V2) \<and>
     string_concatenate [TObj p, TObj q] V2 = Inr (TObj r, V3) \<and>
     string_equal [TObj r, TObj 0] V3 = Inr (TBool True, V3)"
proof -
  let ?V = "empty_vm\<lparr>h_objs := [\<lparr>o_hiddenClass = 0, o_payload = StringData ''abc''\<rparr>]\<rparr>"
  have len: "length ''abc'' = 3" by simp
  have "0 < length (h_objs ?V)" "o_payload (h_objs ?V ! 0) = StringData ''abc''" "2 \<le> length ''abc''"
    "length ''abc'' < 2 ^ 31 - 1" by simp_all
  from substring_concatenate [OF this, of demo_prims, unfolded len] show ?thesis by blast
qed

lemma symbols_ok_intern:
  assumes "symbols_ok V"
  shows "symbols_ok (V\<lparr>m_interner := snd (InternString H s (m_interner V))\<rparr>)"
proof -
  have "symbol_at (V\<lparr>m_interner := x\<rparr>) = symbol_at V" "symbol_object (V\<lparr>m_interner := x\<rparr>) = symbol_object V" for x
    by (auto simp: symbol_at_def symbol_object_def fun_eq_iff)
  then show ?thesis using assms InternString_keeps by (fastforce simp: symbols_ok_def)
qed

lemma string_assymbol_step:
  assumes "symbols_ok V" and "interner_ok (e_hash E) (m_interner V)"
    and "a < length (h_objs V)" and "o_payload (h_objs V ! a) = StringData s"
  obtains p V' ord where "string_assymbol E [TObj a] V = Inr (TObj p, V')" "symbols_ok V'"
    "interner_ok (e_hash E) (m_interner V')" "p < length (h_objs V')" "h_objs V' ! p = symbol_object V s"
    "take (length (h_objs V)) (h_objs V') = h_objs V" "m_map (m_interner V') s = Some ord" "symbol_at V' ord = Some p"
    "m_symbolClass V' = m_symbolClass V"
proof -
  obtain ord I where i: "InternString (e_hash E) s (m_interner V) = (ord, I)" by fastforce
  let ?V = "V\<lparr>m_interner := I\<rparr>"
  have ok: "symbols_ok ?V" "interner_ok (e_hash E) I" and get: "Get (m_interner ?V) ord = Some s"
    using symbols_ok_intern [OF assms(1), of "e_hash E" s] InternString_ok [OF assms(2), of s]
      InternString_get [OF assms(2), of s] i by simp_all
  obtain p V' where st: "GetInternedSymbol ord ?V = Inr (p, V')" "symbols_ok V'" "symbol_at V' = (symbol_at ?V)(ord \<mapsto> p)"
    "p < length (h_objs V')" "h_objs V' ! p = symbol_object ?V s" "take (length (h_objs ?V)) (h_objs V') = h_objs ?V"
    "m_interner V' = m_interner ?V" "m_symbolClass V' = m_symbolClass ?V"
    using GetInternedSymbol_step [OF ok(1) get] by metis
  have "m_map (m_interner V') s = Some ord" using st(7) ok(2) get by (simp add: interner_ok_map)
  with st ok i assms(3,4) that [of p V' ord] show ?thesis
    by (simp add: string_assymbol_def prim_simps InternV_def symbol_object_def)
qed

lemma string_assymbol_again:
  assumes "interner_ok (e_hash E) (m_interner V)" and "a < length (h_objs V)" and "o_payload (h_objs V ! a) = StringData s"
    and "m_map (m_interner V) s = Some ord" and "symbol_at V ord = Some p"
  shows "string_assymbol E [TObj a] V = Inr (TObj p, V)"
proof -
  have "Get (m_interner V) ord = Some s" using assms(1,4) by (simp add: interner_ok_map)
  with assms show ?thesis
    by (simp add: string_assymbol_def prim_simps InternV_def InternString_known GetInternedSymbol_def symbol_at_def grow_def
        split: if_splits)
qed

text \<open>C22. Symbols are unique: turning a string into a symbol gives a symbol object with the same
  characters, and two strings give the same object (identity, \<open>==\<close>) exactly when their characters are
  equal; the symbol of a symbol is itself.\<close>

theorem string_assymbol_unique:
  assumes "symbols_ok V" and "interner_ok (e_hash E) (m_interner V)"
    and "a < length (h_objs V)" and "o_payload (h_objs V ! a) = StringData s"
    and "b < length (h_objs V)" and "o_payload (h_objs V ! b) = StringData t"
  shows "\<exists>p V1 q V2. string_assymbol E [TObj a] V = Inr (TObj p, V1) \<and> string_assymbol E [TObj b] V1 = Inr (TObj q, V2) \<and>
           h_objs V2 ! p = symbol_object V s \<and> h_objs V2 ! q = symbol_object V t \<and>
           object_equalequal [TObj p, TObj q] = Inr (TBool (s = t)) \<and>
           (\<exists>V3. string_assymbol E [TObj q] V2 = Inr (TObj q, V3))"
proof -
  obtain p V1 ord where 1: "string_assymbol E [TObj a] V = Inr (TObj p, V1)" "symbols_ok V1"
    "interner_ok (e_hash E) (m_interner V1)" "p < length (h_objs V1)" "h_objs V1 ! p = symbol_object V s"
    "take (length (h_objs V)) (h_objs V1) = h_objs V" "m_symbolClass V1 = m_symbolClass V"
    "m_map (m_interner V1) s = Some ord" "symbol_at V1 ord = Some p"
    using string_assymbol_step [OF assms(1-4)] by metis
  have b: "b < length (h_objs V1)" "o_payload (h_objs V1 ! b) = StringData t"
    using assms(5,6) 1(6) by (metis length_take min_less_iff_conj, metis nth_take)
  obtain q V2 ord' where 2: "string_assymbol E [TObj b] V1 = Inr (TObj q, V2)" "symbols_ok V2"
    "interner_ok (e_hash E) (m_interner V2)" "q < length (h_objs V2)" "h_objs V2 ! q = symbol_object V1 t"
    "take (length (h_objs V1)) (h_objs V2) = h_objs V1" "m_map (m_interner V2) t = Some ord'" "symbol_at V2 ord' = Some q"
    using string_assymbol_step [OF 1(2,3) b] by metis
  have p2: "h_objs V2 ! p = symbol_object V s" using 1(4,5) 2(6) by (metis nth_take)
  have q2: "h_objs V2 ! q = symbol_object V t" using 2(5) 1(7) by (simp add: symbol_object_def)
  have "o_payload (h_objs V2 ! q) = StringData t" using q2 by (simp add: symbol_object_def)
  note again = string_assymbol_again [OF 2(3,4) this 2(7,8)]
  have eq: "p = q \<longleftrightarrow> s = t"
  proof
    assume "s = t"
    then show "p = q" using string_assymbol_again [OF 1(3) b, of ord p] 1(8,9) 2(1) by simp
  qed (use p2 q2 in \<open>auto simp: symbol_object_def\<close>)
  show ?thesis using 1(1) 2(1) p2 q2 eq again by (auto simp: object_equalequal_def GetArg_def)
qed

theorem string_assymbol_unique_witness:
  "\<exists>p V1 q V2.
     string_assymbol demo_prims [TObj 0] (empty_vm\<lparr>h_objs := [\<lparr>o_hiddenClass = 0, o_payload = StringData ''x''\<rparr>]\<rparr>) = Inr (TObj p, V1) \<and>
     string_assymbol demo_prims [TObj 0] V1 = Inr (TObj q, V2) \<and> object_equalequal [TObj p, TObj q] = Inr (TBool True)"
proof -
  let ?V = "empty_vm\<lparr>h_objs := [\<lparr>o_hiddenClass = 0, o_payload = StringData ''x''\<rparr>]\<rparr>"
  have "symbols_ok ?V" by (simp add: symbols_ok_def symbol_at_def empty_vm_def)
  moreover have "interner_ok (e_hash demo_prims) (m_interner ?V)" by (simp add: empty_vm_def interner_ok_empty)
  moreover have "0 < length (h_objs ?V)" "o_payload (h_objs ?V ! 0) = StringData ''x''" by simp_all
  ultimately show ?thesis using string_assymbol_unique [of ?V demo_prims 0 "''x''" 0 "''x''"] by auto
qed

subsection \<open>The while loops\<close>

text \<open>
  \<open>run_outcome call n\<close> drives a primitive to its result: \<open>call\<close> runs a function of the heap (the
  interpreter), and \<open>n\<close> bounds the number of calls. \<open>while_loop\<close> is the loop the continuations are
  meant to implement: evaluate the condition block, and while it answers \<open>pol\<close> evaluate the body.
\<close>

fun run_outcome :: "(nat \<Rightarrow> val list \<Rightarrow> val vmop) \<Rightarrow> nat \<Rightarrow> outcome \<Rightarrow> val vmop" where
  "run_outcome call 0 oc = failS OutOfFuel"
| "run_outcome call (Suc n) (Ret v) = retS v"
| "run_outcome call (Suc n) (Call f args k) =
     bindS (call f args) (\<lambda>r. bindS (run_kont k r) (run_outcome call n))"

definition eval_block :: "(nat \<Rightarrow> val list \<Rightarrow> val vmop) \<Rightarrow> val \<Rightarrow> val vmop" where
  "eval_block call b = bindS (SetupStackForBlockNoArgCall b) (\<lambda>(f, args). call f args)"

fun while_loop :: "(nat \<Rightarrow> val list \<Rightarrow> val vmop) \<Rightarrow> bool \<Rightarrow> val \<Rightarrow> val \<Rightarrow> nat \<Rightarrow> val vmop" where
  "while_loop call pol c b 0 = bindS (SetupStackForBlockNoArgCall c) (\<lambda>_. failS OutOfFuel)"
| "while_loop call pol c b (Suc n) =
     bindS (eval_block call c) (\<lambda>r.
     if r = TBool pol then bindS (eval_block call b) (\<lambda>_. while_loop call pol c b n) else retS TNil)"

lemma bindS_retS [simp]: "bindS (retS x) f = f x"
  by (rule ext) (simp add: bindS_def)

lemma bindS_cong: "m = m' \<Longrightarrow> (\<And>x. f x = f' x) \<Longrightarrow> bindS m f = bindS m' f'"
  by presburger

lemma run_call_block:
  "bindS (call_block b k) (run_outcome call (Suc n)) =
     bindS (eval_block call b) (\<lambda>r. bindS (run_kont k r) (run_outcome call n))"
  unfolding call_block_def eval_block_def bindS_assoc
  by (rule bindS_cong [OF refl]) (simp add: split_def)

lemma whiletrue_loop:
  "bindS (call_block c (block_whiletrue_evalbody c b)) (run_outcome call (2 * n)) = while_loop call True c b n"
proof (induction n)
  case 0
  show ?case by (simp add: call_block_def bindS_assoc split_def failS_def)
next
  case (Suc n)
  have "bindS (run_kont (block_whiletrue_evalbody c b) r) (run_outcome call (Suc (2 * n))) =
        (if r = TBool True then bindS (eval_block call b) (\<lambda>_. while_loop call True c b n) else retS TNil)" for r
    by (simp add: run_kont_def run_call_block Suc.IH) (simp add: retS_def)
  then show ?case by (simp add: run_call_block)
qed

lemma whilefalse_loop:
  "bindS (call_block c (block_whilefalse_evalbody c b)) (run_outcome call (2 * n)) = while_loop call False c b n"
proof (induction n)
  case 0
  show ?case by (simp add: call_block_def bindS_assoc split_def failS_def)
next
  case (Suc n)
  have "bindS (run_kont (block_whilefalse_evalbody c b) r) (run_outcome call (Suc (2 * n))) =
        (if r = TBool False then bindS (eval_block call b) (\<lambda>_. while_loop call False c b n) else retS TNil)" for r
    by (simp add: run_kont_def run_call_block Suc.IH) (simp add: retS_def)
  then show ?case by (simp add: run_call_block)
qed

text \<open>C23. The continuations of \<open>whileTrue:\<close> and \<open>whileFalse:\<close> implement the loop: for every number of
  iterations and every behaviour of the called blocks (values, heap effects and errors), running the
  primitive with two calls per iteration is exactly the loop that evaluates the condition block and,
  as long as it answers true (false), the body block, and finally answers nil.\<close>

theorem block_while_refines:
  "bindS (block_whiletrue [c, b]) (run_outcome call (2 * n)) = while_loop call True c b n \<and>
   bindS (block_whilefalse [c, b]) (run_outcome call (2 * n)) = while_loop call False c b n"
proof -
  have arg: "liftS (GetArg [c, b] 0) = retS c" "liftS (GetArg [c, b] 1) = retS b"
    by (rule ext, simp add: GetArg_def)+
  show ?thesis
    unfolding block_whiletrue_def block_whilefalse_def arg bindS_retS
    by (simp only: whiletrue_loop whilefalse_loop)
qed

end
