(* ===== verification/PrimTable.thy ===== *)
theory PrimTable
  imports PrimObjects
begin

section \<open>The table of primitives\<close>

text \<open>
  \<open>SOMPrimitivesContainer\<close> of \<open>src/runtime/som_primitives_container.cpp\<close>: which library function
  implements a method declared \<open>primitive\<close>, and the function object made for it. A function pointer is
  modelled by the library function itself, \<open>primfun\<close>. The container keeps, for each side, class and
  selector, an element with the pointer and the function object once it exists; \<open>m_execs\<close> are the
  \<open>ExecutableCode\<close> objects created for C functions, in order of creation.
\<close>

type_synonym primfun = "prim_env \<Rightarrow> val list \<Rightarrow> outcome vmop"

type_synonym prim_entry = "string \<times> string \<times> bool \<times> primfun"

definition ret_val :: "val vmop \<Rightarrow> outcome vmop" where
  "ret_val m = bindS m (\<lambda>v. retS (Ret v))"

abbreviation resf :: "(val list \<Rightarrow> val res) \<Rightarrow> primfun" where
  "resf f \<equiv> (\<lambda>_ args. ret_val (liftS (f args)))"

abbreviation resfE :: "(prim_env \<Rightarrow> val list \<Rightarrow> val res) \<Rightarrow> primfun" where
  "resfE f \<equiv> (\<lambda>E args. ret_val (liftS (f E args)))"

abbreviation opf :: "(val list \<Rightarrow> val vmop) \<Rightarrow> primfun" where
  "opf f \<equiv> (\<lambda>_ args. ret_val (f args))"

abbreviation opfE :: "(prim_env \<Rightarrow> val list \<Rightarrow> val vmop) \<Rightarrow> primfun" where
  "opfE f \<equiv> (\<lambda>E args. ret_val (f E args))"

subsection \<open>The entries, in the order of the constructor\<close>

definition Integer_primitives :: "prim_entry list" where
  "Integer_primitives =
     [(''Integer'', ''+'', False, resf integer_add),
      (''Integer'', ''-'', False, resf integer_minus),
      (''Integer'', ''*'', False, resf integer_star),
      (''Integer'', ''rem:'', False, resf integer_rem),
      (''Integer'', ''bitXor:'', False, resf integer_bitwisexor),
      (''Integer'', ''<<'', False, resf integer_leftshift),
      (''Integer'', ''>>>'', False, resf integer_unsignedrightshift),
      (''Integer'', ''/'', False, resf integer_slash),
      (''Integer'', ''//'', False, resf integer_slashslash),
      (''Integer'', ''%'', False, resf integer_percent),
      (''Integer'', ''&'', False, resf integer_and),
      (''Integer'', ''='', False, resf integer_equal),
      (''Integer'', ''=='', False, resf integer_equalequal),
      (''Integer'', ''<'', False, resf integer_lowerthan),
      (''Integer'', ''asString'', False, opf integer_asstring),
      (''Integer'', ''asDouble'', False, resf integer_asdouble),
      (''Integer'', ''as32BitSignedValue'', False, resf integer_as32bitsigned),
      (''Integer'', ''as32BitUnsignedValue'', False, resf integer_as32bitunsigned),
      (''Integer'', ''sqrt'', False, resf integer_sqrt),
      (''Integer'', ''atRandom'', False, resfE integer_atrandom),
      (''Integer'', ''fromString:'', True, opf integer_fromstring),
      (''Integer'', ''<='', False, resf integer_lowerequal),
      (''Integer'', ''>'', False, resf integer_greaterthan),
      (''Integer'', ''>='', False, resf integer_greaterequal),
      (''Integer'', ''<>'', False, resf integer_unequal),
      (''Integer'', ''~='', False, resf integer_unequal),
      (''Integer'', ''abs'', False, resf integer_abs),
      (''Integer'', ''min:'', False, resf integer_min),
      (''Integer'', ''max:'', False, resf integer_max),
      (''Integer'', ''to:'', False, opf integer_range)]"

definition Double_primitives :: "prim_entry list" where
  "Double_primitives =
     [(''Double'', ''+'', False, resf double_add),
      (''Double'', ''-'', False, resf double_sub),
      (''Double'', ''*'', False, resf double_star),
      (''Double'', ''cos'', False, resfE double_cos),
      (''Double'', ''sin'', False, resfE double_sin),
      (''Double'', ''//'', False, resf double_slashslash),
      (''Double'', ''%'', False, resf double_percent),
      (''Double'', ''='', False, resf double_equal),
      (''Double'', ''<'', False, resf double_lowerthan),
      (''Double'', ''asString'', False, opf double_asstring),
      (''Double'', ''sqrt'', False, resf double_sqrt),
      (''Double'', ''round'', False, resf double_round),
      (''Double'', ''asInteger'', False, resf double_asinteger),
      (''Double'', ''PositiveInfinity'', True, resf double_positiveinfinity),
      (''Double'', ''fromString:'', True, opfE double_fromstring),
      (''Double'', ''<='', False, resf double_lowerequal),
      (''Double'', ''>'', False, resf double_greaterthan),
      (''Double'', ''>='', False, resf double_greaterequal),
      (''Double'', ''<>'', False, resf double_unequal),
      (''Double'', ''~='', False, resf double_unequal),
      (''Double'', ''min:'', False, resf double_min),
      (''Double'', ''max:'', False, resf double_max)]"

definition Object_primitives :: "prim_entry list" where
  "Object_primitives =
     [(''Object'', ''=='', False, resf object_equalequal),
      (''Object'', ''objectSize'', False, opf object_sizebytes),
      (''Object'', ''hashcode'', False, resfE object_hashcode),
      (''Object'', ''inspect'', False, resf object_inspect),
      (''Object'', ''halt'', False, resf object_halt),
      (''Object'', ''perform:'', False, object_perform),
      (''Object'', ''perform:withArguments:'', False, object_perform_with_args),
      (''Object'', ''perform:inSuperclass:'', False, object_perform_in_superclass),
      (''Object'', ''perform:withArguments:inSuperclass:'', False, object_perform_with_args_in_superclass),
      (''Object'', ''instVarAt:'', False, opf object_instvarat),
      (''Object'', ''instVarAt:put:'', False, opf object_instvaratput),
      (''Object'', ''instVarNamed:'', False, opf object_instvarnamed),
      (''Object'', ''class'', False, opf object_class),
      (''Class'', ''new'', False, opf class_new),
      (''Class'', ''name'', False, opf class_name),
      (''Class'', ''superclass'', False, opf class_superclass),
      (''Class'', ''fields'', False, opf class_fields),
      (''Class'', ''methods'', False, opf class_methods)]"

definition Block_primitives :: "prim_entry list" where
  "Block_primitives =
     [(''Block1'', ''value'', False, block1_eval),
      (''Block2'', ''value:'', False, block2_eval),
      (''Block3'', ''value:with:'', False, block3_eval),
      (''Block'', ''whileTrue:'', False, (\<lambda>_. block_whiletrue)),
      (''Block'', ''whileFalse:'', False, (\<lambda>_. block_whilefalse)),
      (''Method'', ''signature'', False, opf method_signature),
      (''Method'', ''holder'', False, opf method_holder),
      (''Method'', ''invokeOn:with:'', False, (\<lambda>_. method_invoke_on_with)),
      (''Primitive'', ''signature'', False, opf method_signature),
      (''Primitive'', ''holder'', False, opf method_holder),
      (''Primitive'', ''invokeOn:with:'', False, (\<lambda>_. method_invoke_on_with))]"

definition System_primitives :: "prim_entry list" where
  "System_primitives =
     [(''System'', ''global:'', False, opfE system_global),
      (''System'', ''global:put:'', False, opfE system_globalput),
      (''System'', ''hasGlobal:'', False, opfE system_hasglobal),
      (''System'', ''load:'', False, opfE system_load),
      (''System'', ''exit:'', False, opfE system_exit),
      (''System'', ''printStackTrace'', False, opfE system_printstacktrace),
      (''System'', ''printString:'', False, opf system_printstring),
      (''System'', ''printNewline'', False, opf system_printnewline),
      (''System'', ''errorPrint:'', False, opf system_errorprint),
      (''System'', ''errorPrintln:'', False, opf system_errorprintln),
      (''System'', ''time'', False, resfE system_elapsed_milliseconds),
      (''System'', ''ticks'', False, resfE system_elapsed_microseconds),
      (''System'', ''fullGC'', False, resf system_fullgc),
      (''System'', ''loadFile:'', False, opfE system_loadfile)]"

definition Array_primitives :: "prim_entry list" where
  "Array_primitives =
     [(''Array'', ''new:'', True, opf array_new),
      (''Array'', ''at:'', False, opf array_at),
      (''Array'', ''at:put:'', False, opf array_at_put),
      (''Array'', ''length'', False, opf array_length),
      (''Array'', ''copy'', False, opf array_copy),
      (''String'', ''concatenate:'', False, opf string_concatenate),
      (''String'', ''asSymbol'', False, opfE string_assymbol),
      (''String'', ''hashcode'', False, opf string_hashcode),
      (''String'', ''length'', False, opf string_length),
      (''String'', ''='', False, opf string_equal),
      (''String'', ''primSubstringFrom:to:'', False, opfE string_primsubstring),
      (''String'', ''isWhiteSpace'', False, opf string_iswhitespace),
      (''String'', ''isLetters'', False, opf string_isletters),
      (''String'', ''isDigits'', False, opf string_isdigits),
      (''String'', ''charAt:'', False, opf string_charat),
      (''Symbol'', ''asString'', False, opfE symbol_asstring)]"

definition primitive_entries :: "prim_entry list" where
  "primitive_entries = Integer_primitives @ Double_primitives @ Object_primitives @ Block_primitives @
                       System_primitives @ Array_primitives"

subsection \<open>The container\<close>

record Element =
  m_implPtr :: "primfun option"
  m_fnObj :: "nat option"

record Primitives =
  m_primMap :: "bool \<times> string \<times> string \<Rightarrow> Element"
  m_execs :: "primfun list"

definition no_element :: Element where
  "no_element = \<lparr>m_implPtr = None, m_fnObj = None\<rparr>"

definition Add :: "bool \<Rightarrow> prim_entry \<Rightarrow> Primitives \<Rightarrow> Primitives res" where
  "Add tb e P =
     (case e of (className, methName, isClassSide, func) \<Rightarrow>
        let key = (isClassSide, className, methName); it = m_primMap P key
        in bindR (TestAssert tb (m_implPtr it = None \<and> m_fnObj it = None)) (\<lambda>_.
           Inr (P\<lparr>m_primMap := (m_primMap P)(key := it\<lparr>m_implPtr := Some func\<rparr>)\<rparr>)))"

fun add_all :: "bool \<Rightarrow> prim_entry list \<Rightarrow> Primitives \<Rightarrow> Primitives res" where
  "add_all tb [] P = Inr P"
| "add_all tb (e # es) P = bindR (Add tb e P) (add_all tb es)"

definition SOMPrimitivesContainer :: "bool \<Rightarrow> Primitives res" where
  "SOMPrimitivesContainer tb = add_all tb primitive_entries \<lparr>m_primMap = (\<lambda>_. no_element), m_execs = []\<rparr>"

text \<open>\<open>FunctionObject::CreateCFunc\<close> on a new \<open>ExecutableCode\<close>; upvalues are filled in by the caller.\<close>

definition CreateCFunc :: "primfun \<Rightarrow> upval list \<Rightarrow> Primitives \<Rightarrow> (nat \<times> Primitives) vmop" where
  "CreateCFunc func uvs P =
     (\<lambda>V. Inr ((length (h_funs V), P\<lparr>m_execs := m_execs P @ [func]\<rparr>),
               V\<lparr>h_funs := h_funs V @ [\<lparr>fo_type = SOM_Method, fo_lookup = SOM_NormalMethod,
                                        fo_executable = length (m_execs P), fo_upvalues = uvs\<rparr>]\<rparr>))"

text \<open>
  \<open>GetUnimplementedPrimitive\<close>: the function reports the description kept in its upvalue when it is
  called. The upvalue is part of the new function object, so the model hands the function the object.
\<close>

definition GetUnimplementedPrimitive :: "string \<Rightarrow> string \<Rightarrow> bool \<Rightarrow> Primitives \<Rightarrow> (nat \<times> Primitives) vmop" where
  "GetUnimplementedPrimitive className methName isClassSide P =
     bindS (AllocateString (className @ ''.'' @ methName @ (if isClassSide then '' (classSide)'' else '' (instanceSide)''))) (\<lambda>str.
     CreateCFunc (\<lambda>_ _. ret_val (unimplemented_primitive
                    \<lparr>fo_type = SOM_Method, fo_lookup = SOM_NormalMethod, fo_executable = length (m_execs P),
                     fo_upvalues = [UvImm (TObj str)]\<rparr>))
       [UvImm (TObj str)] P)"

definition InitFnObj :: "bool \<Rightarrow> bool \<times> string \<times> string \<Rightarrow> Primitives \<Rightarrow> (nat \<times> Primitives) vmop" where
  "InitFnObj tb key P =
     (let it = m_primMap P key in
      case m_implPtr it of
        None \<Rightarrow> failS Undefined
      | Some func \<Rightarrow>
          bindS (liftS (TestAssert tb (m_fnObj it = None))) (\<lambda>_.
          bindS (CreateCFunc func [] P) (\<lambda>(f, Q).
          retS (f, Q\<lparr>m_primMap := (m_primMap Q)(key := it\<lparr>m_fnObj := Some f\<rparr>)\<rparr>))))"

definition GetPrimitive :: "bool \<Rightarrow> string \<Rightarrow> string \<Rightarrow> bool \<Rightarrow> Primitives \<Rightarrow> (nat \<times> Primitives) vmop" where
  "GetPrimitive tb className methName isClassSide P =
     (let key = (isClassSide, className, methName); it = m_primMap P key in
      case m_implPtr it of
        None \<Rightarrow> GetUnimplementedPrimitive className methName isClassSide P
      | Some _ \<Rightarrow> (case m_fnObj it of None \<Rightarrow> InitFnObj tb key P | Some f \<Rightarrow> retS (f, P)))"

text \<open>Calling a function object that wraps a library function.\<close>

definition call_primitive :: "prim_env \<Rightarrow> Primitives \<Rightarrow> nat \<Rightarrow> val list \<Rightarrow> outcome vmop" where
  "call_primitive E P f args =
     bindS (the_fun f) (\<lambda>fo.
     if fo_executable fo < length (m_execs P) then (m_execs P ! fo_executable fo) E args else failS Undefined)"

text \<open>The table as a lookup by class, selector and side.\<close>

definition find_primitive :: "string \<Rightarrow> string \<Rightarrow> bool \<Rightarrow> primfun option" where
  "find_primitive className methName isClassSide =
     map_of (map (\<lambda>(c, m, s, f). ((s, c, m), f)) primitive_entries) (isClassSide, className, methName)"

subsection \<open>The container holds the table\<close>

definition prims_ok :: "Primitives \<Rightarrow> VM \<Rightarrow> bool" where
  "prims_ok P V \<longleftrightarrow>
     (\<forall>s c m. m_implPtr (m_primMap P (s, c, m)) = find_primitive c m s) \<and>
     (\<forall>key f. m_fnObj (m_primMap P key) = Some f \<longrightarrow> m_implPtr (m_primMap P key) \<noteq> None \<and> f < length (h_funs V) \<and>
        fo_executable (h_funs V ! f) < length (m_execs P) \<and>
        m_execs P ! fo_executable (h_funs V ! f) = the (m_implPtr (m_primMap P key)))"

definition entry_key :: "prim_entry \<Rightarrow> bool \<times> string \<times> string" where
  "entry_key e = (case e of (c, m, s, f) \<Rightarrow> (s, c, m))"

text \<open>The keys of the table, written out to be compared by evaluation.\<close>

definition primitive_keys :: "(bool \<times> string \<times> string) list" where
  "primitive_keys =
     [(False, ''Integer'', ''+''), (False, ''Integer'', ''-''), (False, ''Integer'', ''*''),
      (False, ''Integer'', ''rem:''), (False, ''Integer'', ''bitXor:''), (False, ''Integer'', ''<<''),
      (False, ''Integer'', ''>>>''), (False, ''Integer'', ''/''), (False, ''Integer'', ''//''),
      (False, ''Integer'', ''%''), (False, ''Integer'', ''&''), (False, ''Integer'', ''=''),
      (False, ''Integer'', ''==''), (False, ''Integer'', ''<''), (False, ''Integer'', ''asString''),
      (False, ''Integer'', ''asDouble''), (False, ''Integer'', ''as32BitSignedValue''),
      (False, ''Integer'', ''as32BitUnsignedValue''), (False, ''Integer'', ''sqrt''),
      (False, ''Integer'', ''atRandom''), (True, ''Integer'', ''fromString:''), (False, ''Integer'', ''<=''),
      (False, ''Integer'', ''>''), (False, ''Integer'', ''>=''), (False, ''Integer'', ''<>''),
      (False, ''Integer'', ''~=''), (False, ''Integer'', ''abs''), (False, ''Integer'', ''min:''),
      (False, ''Integer'', ''max:''), (False, ''Integer'', ''to:''), (False, ''Double'', ''+''),
      (False, ''Double'', ''-''), (False, ''Double'', ''*''), (False, ''Double'', ''cos''),
      (False, ''Double'', ''sin''), (False, ''Double'', ''//''), (False, ''Double'', ''%''),
      (False, ''Double'', ''=''), (False, ''Double'', ''<''), (False, ''Double'', ''asString''),
      (False, ''Double'', ''sqrt''), (False, ''Double'', ''round''), (False, ''Double'', ''asInteger''),
      (True, ''Double'', ''PositiveInfinity''), (True, ''Double'', ''fromString:''), (False, ''Double'', ''<=''),
      (False, ''Double'', ''>''), (False, ''Double'', ''>=''), (False, ''Double'', ''<>''),
      (False, ''Double'', ''~=''), (False, ''Double'', ''min:''), (False, ''Double'', ''max:''),
      (False, ''Object'', ''==''), (False, ''Object'', ''objectSize''), (False, ''Object'', ''hashcode''),
      (False, ''Object'', ''inspect''), (False, ''Object'', ''halt''), (False, ''Object'', ''perform:''),
      (False, ''Object'', ''perform:withArguments:''), (False, ''Object'', ''perform:inSuperclass:''),
      (False, ''Object'', ''perform:withArguments:inSuperclass:''), (False, ''Object'', ''instVarAt:''),
      (False, ''Object'', ''instVarAt:put:''), (False, ''Object'', ''instVarNamed:''),
      (False, ''Object'', ''class''), (False, ''Class'', ''new''), (False, ''Class'', ''name''),
      (False, ''Class'', ''superclass''), (False, ''Class'', ''fields''), (False, ''Class'', ''methods''),
      (False, ''Block1'', ''value''), (False, ''Block2'', ''value:''), (False, ''Block3'', ''value:with:''),
      (False, ''Block'', ''whileTrue:''), (False, ''Block'', ''whileFalse:''), (False, ''Method'', ''signature''),
      (False, ''Method'', ''holder''), (False, ''Method'', ''invokeOn:with:''),
      (False, ''Primitive'', ''signature''), (False, ''Primitive'', ''holder''),
      (False, ''Primitive'', ''invokeOn:with:''), (False, ''System'', ''global:''),
      (False, ''System'', ''global:put:''), (False, ''System'', ''hasGlobal:''), (False, ''System'', ''load:''),
      (False, ''System'', ''exit:''), (False, ''System'', ''printStackTrace''),
      (False, ''System'', ''printString:''), (False, ''System'', ''printNewline''),
      (False, ''System'', ''errorPrint:''), (False, ''System'', ''errorPrintln:''), (False, ''System'', ''time''),
      (False, ''System'', ''ticks''), (False, ''System'', ''fullGC''), (False, ''System'', ''loadFile:''),
      (True, ''Array'', ''new:''), (False, ''Array'', ''at:''), (False, ''Array'', ''at:put:''),
      (False, ''Array'', ''length''), (False, ''Array'', ''copy''), (False, ''String'', ''concatenate:''),
      (False, ''String'', ''asSymbol''), (False, ''String'', ''hashcode''), (False, ''String'', ''length''),
      (False, ''String'', ''=''), (False, ''String'', ''primSubstringFrom:to:''),
      (False, ''String'', ''isWhiteSpace''), (False, ''String'', ''isLetters''),
      (False, ''String'', ''isDigits''), (False, ''String'', ''charAt:''), (False, ''Symbol'', ''asString'')]"

lemmas primitives_defs = Integer_primitives_def Double_primitives_def Object_primitives_def Block_primitives_def
  System_primitives_def Array_primitives_def primitive_entries_def

lemma map_entry_key: "map entry_key primitive_entries = primitive_keys"
  unfolding primitives_defs primitive_keys_def by (simp add: entry_key_def)

lemma primitive_keys_distinct: "distinct primitive_keys"
  by code_simp

lemma entry_keys_distinct: "distinct (map entry_key primitive_entries)"
  unfolding map_entry_key by (rule primitive_keys_distinct)

lemma add_all_run:
  assumes "distinct (map entry_key es)" and "\<And>e. e \<in> set es \<Longrightarrow> m_primMap P (entry_key e) = no_element"
  shows "\<exists>Q. add_all tb es P = Inr Q \<and> m_execs Q = m_execs P \<and>
           (\<forall>k. m_primMap Q k = (m_primMap P k)\<lparr>m_implPtr :=
              case map_of (map (\<lambda>(c, m, s, f). ((s, c, m), f)) es) k of None \<Rightarrow> m_implPtr (m_primMap P k) | Some f \<Rightarrow> Some f\<rparr>)"
  using assms
proof (induction es arbitrary: P)
  case (Cons e es)
  obtain c m s f where e: "e = (c, m, s, f)" by (cases e)
  let ?P = "P\<lparr>m_primMap := (m_primMap P)((s, c, m) := no_element\<lparr>m_implPtr := Some f\<rparr>)\<rparr>"
  have add: "Add tb e P = Inr ?P"
    using Cons.prems(2) [of e] by (simp add: Add_def e entry_key_def Let_def) (simp add: no_element_def TestAssert_def)
  have "distinct (map entry_key es)" "\<And>e. e \<in> set es \<Longrightarrow> m_primMap ?P (entry_key e) = no_element"
    using Cons.prems by (auto simp: e) (force simp: entry_key_def)
  from Cons.IH [OF this] obtain Q where Q: "add_all tb es ?P = Inr Q" "m_execs Q = m_execs P"
    "\<And>k. m_primMap Q k = (m_primMap ?P k)\<lparr>m_implPtr :=
       case map_of (map (\<lambda>(c, m, s, f). ((s, c, m), f)) es) k of None \<Rightarrow> m_implPtr (m_primMap ?P k) | Some f \<Rightarrow> Some f\<rparr>" by auto
  have "(s, c, m) \<notin> fst ` set (map (\<lambda>(c, m, s, f). ((s, c, m), f)) es)"
    using Cons.prems(1) by (force simp: e entry_key_def)
  then have "map_of (map (\<lambda>(c, m, s, f). ((s, c, m), f)) es) (s, c, m) = None" by (simp add: map_of_eq_None_iff)
  with Q Cons.prems(2) [of e] add show ?case
    by (auto simp: e entry_key_def no_element_def split: option.splits)
qed auto

lemma SOMPrimitivesContainer_ok: "\<exists>P. SOMPrimitivesContainer tb = Inr P \<and> prims_ok P V"
proof -
  let ?P = "\<lparr>m_primMap = (\<lambda>_. no_element), m_execs = []\<rparr>"
  have "\<And>e. e \<in> set primitive_entries \<Longrightarrow> m_primMap ?P (entry_key e) = no_element" by simp
  note run = add_all_run [OF entry_keys_distinct this, of tb, simplified Primitives.simps]
  obtain Q where "add_all tb primitive_entries ?P = Inr Q"
    and "\<forall>k. m_primMap Q k = no_element\<lparr>m_implPtr := case map_of (map (\<lambda>(c, m, s, f). ((s, c, m), f)) primitive_entries) k of
            None \<Rightarrow> m_implPtr no_element | Some f \<Rightarrow> Some f\<rparr>"
    using run by blast
  then show ?thesis
    by (auto simp: SOMPrimitivesContainer_def prims_ok_def find_primitive_def no_element_def split: option.splits)
qed

lemma CreateCFunc_step:
  "CreateCFunc func uvs P V = Inr ((f, Q), V') \<Longrightarrow>
     f = length (h_funs V) \<and> m_primMap Q = m_primMap P \<and> m_execs Q = m_execs P @ [func] \<and>
     h_funs V' = h_funs V @ [\<lparr>fo_type = SOM_Method, fo_lookup = SOM_NormalMethod, fo_executable = length (m_execs P), fo_upvalues = uvs\<rparr>]"
  by (auto simp: CreateCFunc_def)

lemma prims_ok_extend:
  assumes "prims_ok P V" and "m_primMap Q = m_primMap P" and "m_execs Q = m_execs P @ es" and "h_funs V' = h_funs V @ fs"
  shows "prims_ok Q V'"
  using assms unfolding prims_ok_def by (fastforce simp: nth_append)

definition side_text :: "bool \<Rightarrow> string" where
  "side_text isClassSide = (if isClassSide then '' (classSide)'' else '' (instanceSide)'')"

lemma GetPrimitive_known:
  assumes ok: "prims_ok P V" and func: "find_primitive c m s = Some func"
  obtains f Q V' where "GetPrimitive tb c m s P V = Inr ((f, Q), V')" "prims_ok Q V'"
    "take (length (h_funs V)) (h_funs V') = h_funs V" "call_primitive E Q f args V' = func E args V'"
    "GetPrimitive tb c m s Q V' = Inr ((f, Q), V')"
proof (cases "m_fnObj (m_primMap P (s, c, m))")
  case None
  let ?P = "P\<lparr>m_execs := m_execs P @ [func]\<rparr>"
  let ?Q = "?P\<lparr>m_primMap := (m_primMap P)((s, c, m) := (m_primMap P (s, c, m))\<lparr>m_fnObj := Some (length (h_funs V))\<rparr>)\<rparr>"
  let ?fo = "\<lparr>fo_type = SOM_Method, fo_lookup = SOM_NormalMethod, fo_executable = length (m_execs P), fo_upvalues = []\<rparr>"
  let ?V = "V\<lparr>h_funs := h_funs V @ [?fo]\<rparr>"
  have impl: "m_implPtr (m_primMap P (s, c, m)) = Some func" using ok func by (simp add: prims_ok_def)
  have "prims_ok ?P ?V" using ok by (rule prims_ok_extend) simp_all
  then have "prims_ok ?Q ?V" using impl func by (auto simp: prims_ok_def)
  then show ?thesis
    using None impl that [of "length (h_funs V)" ?Q ?V]
    by (simp add: GetPrimitive_def InitFnObj_def CreateCFunc_def call_primitive_def the_fun_def TestAssert_def bindS_app Let_def)
next
  case (Some f)
  then have impl: "m_implPtr (m_primMap P (s, c, m)) = Some func" "f < length (h_funs V)"
    "fo_executable (h_funs V ! f) < length (m_execs P)" "m_execs P ! fo_executable (h_funs V ! f) = func"
    using ok func unfolding prims_ok_def by (metis, metis, metis, metis option.sel)
  then show ?thesis
    using Some ok that [of f P V] by (simp add: GetPrimitive_def call_primitive_def the_fun_def bindS_app Let_def)
qed

lemma GetPrimitive_unknown:
  assumes ok: "prims_ok P V" and none: "find_primitive c m s = None"
  obtains f Q V' where "GetPrimitive tb c m s P V = Inr ((f, Q), V')" "prims_ok Q V'"
    "take (length (h_funs V)) (h_funs V') = h_funs V"
    "call_primitive E Q f args V' = Inl (Aborted (''Unimplemented primitive '' @ (c @ ''.'' @ m @ side_text s) @ ''!''))"
proof -
  let ?str = "\<lparr>o_hiddenClass = m_stringHiddenClass V, o_payload = StringData (c @ ''.'' @ m @ side_text s)\<rparr>"
  let ?fo = "\<lparr>fo_type = SOM_Method, fo_lookup = SOM_NormalMethod, fo_executable = length (m_execs P),
              fo_upvalues = [UvImm (TObj (length (h_objs V)))]\<rparr>"
  let ?Q = "P\<lparr>m_execs := m_execs P @ [\<lambda>_ _. ret_val (unimplemented_primitive ?fo)]\<rparr>"
  let ?V = "V\<lparr>h_objs := h_objs V @ [?str], h_funs := h_funs V @ [?fo]\<rparr>"
  have "m_implPtr (m_primMap P (s, c, m)) = None" using ok none by (simp add: prims_ok_def)
  then have get: "GetPrimitive tb c m s P V = Inr ((length (h_funs V), ?Q), ?V)"
    by (simp add: GetPrimitive_def GetUnimplementedPrimitive_def AllocateString_def new_obj_def CreateCFunc_def bindS_app Let_def
        side_text_def)
  have "prims_ok ?Q ?V" using ok by (rule prims_ok_extend) simp_all
  moreover have "call_primitive E ?Q (length (h_funs V)) args ?V =
      Inl (Aborted (''Unimplemented primitive '' @ (c @ ''.'' @ m @ side_text s) @ ''!''))"
    by (simp add: call_primitive_def the_fun_def bindS_app ret_val_def unimplemented_primitive_def prim_simps)
  ultimately show ?thesis using get that by force
qed

text \<open>C25. The table of primitives has no duplicate: the constructor passes its assertions in every build.
  From then on, in every state, asking for a primitive gives a function object that runs exactly the
  library function registered for that class, selector and side; asking again gives the same object
  and allocates nothing; and for a primitive that is not registered the object aborts with a message
  that names it. No existing function object is changed.\<close>

theorem GetPrimitive_correct:
  "(\<exists>P. SOMPrimitivesContainer tb = Inr P \<and> prims_ok P V) \<and>
   (prims_ok P W \<longrightarrow>
     (\<exists>f Q W'. GetPrimitive tb c m s P W = Inr ((f, Q), W') \<and> prims_ok Q W' \<and>
        take (length (h_funs W)) (h_funs W') = h_funs W \<and>
        (case find_primitive c m s of
           Some func \<Rightarrow> call_primitive E Q f args W' = func E args W' \<and> GetPrimitive tb c m s Q W' = Inr ((f, Q), W')
         | None \<Rightarrow> call_primitive E Q f args W' =
             Inl (Aborted (''Unimplemented primitive '' @ (c @ ''.'' @ m @ side_text s) @ ''!'')))))"
proof (intro conjI impI)
  show "\<exists>P. SOMPrimitivesContainer tb = Inr P \<and> prims_ok P V" by (rule SOMPrimitivesContainer_ok)
next
  assume ok: "prims_ok P W"
  show "\<exists>f Q W'. GetPrimitive tb c m s P W = Inr ((f, Q), W') \<and> prims_ok Q W' \<and>
        take (length (h_funs W)) (h_funs W') = h_funs W \<and>
        (case find_primitive c m s of
           Some func \<Rightarrow> call_primitive E Q f args W' = func E args W' \<and> GetPrimitive tb c m s Q W' = Inr ((f, Q), W')
         | None \<Rightarrow> call_primitive E Q f args W' =
             Inl (Aborted (''Unimplemented primitive '' @ (c @ ''.'' @ m @ side_text s) @ ''!'')))"
  proof (cases "find_primitive c m s")
    case None
    show ?thesis by (rule GetPrimitive_unknown [OF ok None, of tb E args]) (use None in force)
  next
    case (Some func)
    show ?thesis by (rule GetPrimitive_known [OF ok Some, of tb E args]) (use Some in force)
  qed
qed

theorem GetPrimitive_correct_witness:
  "\<exists>P f Q V'. SOMPrimitivesContainer True = Inr P \<and>
     GetPrimitive True ''Integer'' ''+'' False P empty_vm = Inr ((f, Q), V') \<and> GetPrimitive True ''Integer'' ''+'' False Q V' = Inr ((f, Q), V')"
proof -
  obtain P where P: "SOMPrimitivesContainer True = Inr P" "prims_ok P empty_vm"
    using GetPrimitive_correct [of True empty_vm] by blast
  have "find_primitive ''Integer'' ''+'' False \<noteq> None"
    by (simp add: find_primitive_def primitive_entries_def Integer_primitives_def)
  with GetPrimitive_correct [of True empty_vm P empty_vm "''Integer''" "''+''" False demo_prims "[]"] P show ?thesis
    by fastforce
qed

end
