(* ===== verification/Selectors.thy ===== *)
theory Selectors
  imports VMState
begin

section \<open>Start-up of the VM: the selectors it knows\<close>

text \<open>
  \<open>VM::InitializeVMGlobalData\<close> of \<open>src/runtime/vm.cpp\<close> and the three selector classes of
  \<open>src/runtime/vm.h\<close>. The VM interns the selectors the compiler and the bytecodes treat specially in a
  fixed order, so that a class of selectors is a range of ordinals; release assertions check that the
  ordinals follow one another. The pointers to the system classes, which the function sets to null,
  have no value before the bootstrap assigns them; the model leaves them as they are. The root
  coroutine and the output streams are not part of the model's state.
\<close>

definition set_str :: "(string \<Rightarrow> u64) \<Rightarrow> StrMember \<Rightarrow> string \<Rightarrow> unit vmop" where
  "set_str H m s = bindS (GetUniquedString H s) (\<lambda>u. modS (\<lambda>V. V\<lparr>m_str := (m_str V)(m := u)\<rparr>))"

definition set_id :: "(string \<Rightarrow> u64) \<Rightarrow> CtlMember \<Rightarrow> string \<Rightarrow> unit vmop" where
  "set_id H m s = bindS (InternV H s) (\<lambda>i. modS (\<lambda>V. V\<lparr>m_stringIdFor := (m_stringIdFor V)(m := i)\<rparr>))"

text \<open>Members set one after the other, without and with the assertion on the previous one.\<close>

fun set_strs :: "(string \<Rightarrow> u64) \<Rightarrow> (StrMember \<times> string) list \<Rightarrow> unit vmop" where
  "set_strs H [] = retS ()"
| "set_strs H ((m, s) # xs) = bindS (set_str H m s) (\<lambda>_. set_strs H xs)"

definition id_follows :: "StrMember \<Rightarrow> u32 \<Rightarrow> StrMember \<Rightarrow> unit vmop" where
  "id_follows p d m = (\<lambda>V. liftS (ReleaseAssert (us_id (m_str V m) = us_id (m_str V p) + d)) V)"

fun set_strs_after :: "(string \<Rightarrow> u64) \<Rightarrow> StrMember \<Rightarrow> (StrMember \<times> string) list \<Rightarrow> unit vmop" where
  "set_strs_after H p [] = retS ()"
| "set_strs_after H p ((m, s) # xs) =
     bindS (set_str H m s) (\<lambda>_. bindS (id_follows p 1 m) (\<lambda>_. set_strs_after H m xs))"

definition ctl_follows :: "CtlMember \<Rightarrow> nat \<Rightarrow> CtlMember \<Rightarrow> unit vmop" where
  "ctl_follows p d m = (\<lambda>V. liftS (ReleaseAssert (m_stringIdFor V m = m_stringIdFor V p + d)) V)"

fun set_ids_after :: "(string \<Rightarrow> u64) \<Rightarrow> CtlMember \<Rightarrow> (CtlMember \<times> string) list \<Rightarrow> unit vmop" where
  "set_ids_after H p [] = retS ()"
| "set_ids_after H p ((m, s) # xs) =
     bindS (set_id H m s) (\<lambda>_. bindS (ctl_follows p 1 m) (\<lambda>_. set_ids_after H m xs))"

definition handler_names :: "(StrMember \<times> string) list" where
  "handler_names =
     [(unknownGlobalHandler, ''unknownGlobal:''), (doesNotUnderstandHandler, ''doesNotUnderstand:arguments:''),
      (escapedBlockHandler, ''escapedBlock:'')]"

definition arith_names :: "(StrMember \<times> string) list" where
  "arith_names =
     [(strOperatorMinus, ''-''), (strOperatorStar, ''*''), (strOperatorSlashSlash, ''//''), (strOperatorPercent, ''%''),
      (strOperatorAnd, ''&''), (strOperatorEqual, ''=''), (strOperatorLessThan, ''<''), (strOperatorLessEqual, ''<=''),
      (strOperatorGreaterThan, ''>''), (strOperatorGreaterEqual, ''>=''), (strOperatorUnequal, ''<>''),
      (strOperatorTildeUnequal, ''~=''), (strOperatorLeftShift, ''<<''), (strOperatorRightShift, ''>>>''),
      (strOperatorBitwiseXor, ''bitXor:''), (strOperatorSlash, ''/''), (strOperatorEqualEqual, ''=='')]"

definition control_names :: "(CtlMember \<times> string) list" where
  "control_names =
     [(stringIdForWhileFalse, ''whileFalse:''), (stringIdForIfTrueIfFalse, ''ifTrue:ifFalse:''),
      (stringIdForIfFalseIfTrue, ''ifFalse:ifTrue:''), (stringIdForIfNilIfNotNil, ''ifNil:ifNotNil:''),
      (stringIdForIfNotNilIfNil, ''ifNotNil:ifNil:''), (stringIdForIfTrue, ''ifTrue:''), (stringIdForIfFalse, ''ifFalse:''),
      (stringIdForIfNil, ''ifNil:''), (stringIdForIfNotNil, ''ifNotNil:''), (stringIdForOperatorAnd, ''&&''),
      (stringIdForOperatorOr, ''||''), (stringIdForMethodAnd, ''and:''), (stringIdForMethodOr, ''or:''),
      (stringIdForToDo, ''to:do:''), (stringIdForDowntoDo, ''downTo:do:'')]"

definition logical_names :: "(StrMember \<times> string) list" where
  "logical_names =
     [(strOperatorLogicalAnd, ''&&''), (strOperatorLogicalOr, ''||''), (strOperatorKeywordAnd, ''and:''),
      (strOperatorKeywordOr, ''or:'')]"

definition misc_names :: "(StrMember \<times> string) list" where
  "misc_names = [(strOperatorValueColon, ''value:''), (strOperatorAtColon, ''at:''), (strOperatorCharAtColon, ''charAt:'')]"

definition unary_names :: "(StrMember \<times> string) list" where
  "unary_names =
     [(strOperatorSqrt, ''sqrt''), (strOperatorIsNil, ''isNil''), (strOperatorNotNil, ''notNil''), (strOperatorValue, ''value''),
      (strOperatorNot, ''not''), (strOperatorLength, ''length'')]"

definition ternary_names :: "(StrMember \<times> string) list" where
  "ternary_names = [(strOperatorAtPut, ''at:put:''), (strOperatorValueWith, ''value:with:'')]"

definition InitializeVMGlobalData :: "(string \<Rightarrow> u64) \<Rightarrow> unit vmop" where
  "InitializeVMGlobalData H =
     bindS (modS (\<lambda>V. V\<lparr>m_metaclassClassLoaded := False, m_cachedSingleCharStrings := Map.empty\<rparr>)) (\<lambda>_.
     bindS (set_strs H handler_names) (\<lambda>_.
     bindS (set_str H strOperatorPlus ''+'') (\<lambda>_.
     bindS (set_strs_after H strOperatorPlus arith_names) (\<lambda>_.
     bindS (id_follows strOperatorPlus 17 strOperatorEqualEqual) (\<lambda>_.
     bindS (set_id H stringIdForWhileTrue ''whileTrue:'') (\<lambda>_.
     bindS (set_ids_after H stringIdForWhileTrue control_names) (\<lambda>_.
     bindS (ctl_follows stringIdForWhileTrue 15 stringIdForDowntoDo) (\<lambda>_.
     bindS (set_strs H logical_names) (\<lambda>_.
     bindS (set_strs H misc_names) (\<lambda>_.
     bindS (set_str H strOperatorAbs ''abs'') (\<lambda>_.
     bindS (set_strs_after H strOperatorAbs unary_names) (\<lambda>_.
     set_strs H ternary_names))))))))))))"

definition IsSelectorArithmeticOperator :: "VM \<Rightarrow> nat \<Rightarrow> bool" where
  "IsSelectorArithmeticOperator V ord \<longleftrightarrow>
     unat (us_id (m_str V strOperatorPlus)) \<le> ord \<and> ord \<le> unat (us_id (m_str V strOperatorEqualEqual))"

definition IsSelectorInlinableControlFlow :: "VM \<Rightarrow> nat \<Rightarrow> bool" where
  "IsSelectorInlinableControlFlow V ord \<longleftrightarrow>
     m_stringIdFor V stringIdForWhileTrue \<le> ord \<and> ord \<le> m_stringIdFor V stringIdForDowntoDo"

definition IsSelectorSpecializableUnaryOperator :: "VM \<Rightarrow> nat \<Rightarrow> bool" where
  "IsSelectorSpecializableUnaryOperator V ord \<longleftrightarrow>
     unat (us_id (m_str V strOperatorAbs)) \<le> ord \<and> ord \<le> unat (us_id (m_str V strOperatorLength))"

subsection \<open>One step of the start-up\<close>

text \<open>The strings an interner has seen, in the order of their ordinals.\<close>

definition seen :: "StringInterner \<Rightarrow> string list" where
  "seen I = map fst (m_list I)"

lemma Get_seen: "Get I k = Some s \<longleftrightarrow> k < length (seen I) \<and> seen I ! k = s"
  by (auto simp: Get_def seen_def)

lemma interner_ok_fresh: "interner_ok H I \<Longrightarrow> s \<notin> set (seen I) \<Longrightarrow> m_map I s = None"
  by (metis Get_seen interner_ok_map nth_mem option.exhaust)

lemma interner_ok_distinct: "interner_ok H I \<Longrightarrow> distinct (seen I)"
  unfolding distinct_conv_nth by (metis Get_seen si.get_inj)

text \<open>
  What the start-up depends on: the strings seen so far and the members set so far. \<open>runs H v m w\<close>
  says that \<open>m\<close> takes every state with the view \<open>v\<close> to a state with the view \<open>w\<close>, without an error.
\<close>

record view =
  w_seen :: "string list"
  w_str :: "StrMember \<Rightarrow> SOMUniquedString"
  w_ids :: "CtlMember \<Rightarrow> nat"

definition has_view :: "(string \<Rightarrow> u64) \<Rightarrow> view \<Rightarrow> VM \<Rightarrow> bool" where
  "has_view H v V \<longleftrightarrow> interner_ok H (m_interner V) \<and> seen (m_interner V) = w_seen v \<and>
     m_str V = w_str v \<and> m_stringIdFor V = w_ids v"

definition runs :: "(string \<Rightarrow> u64) \<Rightarrow> view \<Rightarrow> unit vmop \<Rightarrow> view \<Rightarrow> bool" where
  "runs H v m w \<longleftrightarrow> (\<forall>V. has_view H v V \<longrightarrow> (\<exists>V'. m V = Inr ((), V') \<and> has_view H w V'))"

lemma runsI: "(\<And>V. has_view H v V \<Longrightarrow> \<exists>V'. m V = Inr ((), V') \<and> has_view H w V') \<Longrightarrow> runs H v m w"
  by (simp add: runs_def)

lemma runsE:
  assumes "runs H v m w" and "has_view H v V"
  obtains V' where "m V = Inr ((), V')" "has_view H w V'"
  using assms by (auto simp: runs_def)

lemma runs_retS: "runs H v (retS ()) v"
  by (simp add: runs_def)

lemma runs_bindS: "runs H v m w \<Longrightarrow> runs H w k x \<Longrightarrow> runs H v (bindS m (\<lambda>_. k)) x"
  by (rule runsI) (auto elim!: runsE)

definition uniqued :: "(string \<Rightarrow> u64) \<Rightarrow> nat \<Rightarrow> string \<Rightarrow> SOMUniquedString" where
  "uniqued H k s = \<lparr>us_id = of_nat k, us_hash = ucast (H s)\<rparr>"

definition add_str :: "(string \<Rightarrow> u64) \<Rightarrow> StrMember \<times> string \<Rightarrow> view \<Rightarrow> view" where
  "add_str H x v = v\<lparr>w_seen := w_seen v @ [snd x], w_str := (w_str v)(fst x := uniqued H (length (w_seen v)) (snd x))\<rparr>"

definition add_id :: "CtlMember \<times> string \<Rightarrow> view \<Rightarrow> view" where
  "add_id x v = v\<lparr>w_seen := w_seen v @ [snd x], w_ids := (w_ids v)(fst x := length (w_seen v))\<rparr>"

lemma w_seen_add [simp]: "w_seen (add_str H x v) = w_seen v @ [snd x]" "w_seen (add_id y v) = w_seen v @ [snd y]"
  by (simp_all add: add_str_def add_id_def)

lemma w_members_add [simp]:
  "w_str (add_str H x v) = (w_str v)(fst x := uniqued H (length (w_seen v)) (snd x))" "w_ids (add_str H x v) = w_ids v"
  "w_ids (add_id y v) = (w_ids v)(fst y := length (w_seen v))" "w_str (add_id y v) = w_str v"
  "us_id (uniqued H k s) = of_nat k"
  by (simp_all add: add_str_def add_id_def uniqued_def)

lemma w_seen_folds [simp]:
  "w_seen (fold (add_str H) xs v) = w_seen v @ map snd xs" "w_seen (fold add_id ys v) = w_seen v @ map snd ys"
  by (induction xs arbitrary: v, simp_all, induction ys arbitrary: v, simp_all)

lemma runs_set_str:
  assumes "distinct (w_seen v @ [s])"
  shows "runs H v (set_str H m s) (add_str H (m, s) v)"
proof (rule runsI)
  fix V assume v: "has_view H v V"
  then have ok: "interner_ok H (m_interner V)" and new: "m_map (m_interner V) s = None"
    using assms interner_ok_fresh by (auto simp: has_view_def)
  have len: "length (w_seen v) = length (m_list (m_interner V))" using v by (auto simp: has_view_def seen_def dest: sym)
  have "GetHash (snd (InternString H s (m_interner V))) (length (m_list (m_interner V))) = Some (H s)"
    by (simp add: InternString_new [OF new] GetHash_def)
  then show "\<exists>V'. set_str H m s V = Inr ((), V') \<and> has_view H (add_str H (m, s) v) V'"
    using v InternString_ok [OF ok, of s] InternString_new [OF new, of H]
    by (auto simp: set_str_def GetUniquedString_def InternV_def has_view_def add_str_def uniqued_def seen_def len)
qed

lemma runs_set_id:
  assumes "distinct (w_seen v @ [s])"
  shows "runs H v (set_id H m s) (add_id (m, s) v)"
proof (rule runsI)
  fix V assume v: "has_view H v V"
  then have ok: "interner_ok H (m_interner V)" and new: "m_map (m_interner V) s = None"
    using assms interner_ok_fresh by (auto simp: has_view_def)
  have len: "length (w_seen v) = length (m_list (m_interner V))" using v by (auto simp: has_view_def seen_def dest: sym)
  show "\<exists>V'. set_id H m s V = Inr ((), V') \<and> has_view H (add_id (m, s) v) V'"
    using v InternString_ok [OF ok, of s] InternString_new [OF new, of H]
    by (auto simp: set_id_def InternV_def has_view_def add_id_def seen_def len)
qed

lemma runs_set_str_known:
  assumes "k < length (w_seen v)" and "w_seen v ! k = s"
  shows "runs H v (set_str H m s) (v\<lparr>w_str := (w_str v)(m := uniqued H k s)\<rparr>)"
proof (rule runsI)
  fix V assume v: "has_view H v V"
  then have ok: "interner_ok H (m_interner V)" and k: "Get (m_interner V) k = Some s"
    using assms by (auto simp: has_view_def Get_seen)
  show "\<exists>V'. set_str H m s V = Inr ((), V') \<and> has_view H (v\<lparr>w_str := (w_str v)(m := uniqued H k s)\<rparr>) V'"
    using v si.intern_again [OF k ok] interner_ok_hash [OF ok k]
    by (auto simp: set_str_def GetUniquedString_def InternV_def has_view_def uniqued_def)
qed

lemma runs_id_follows: "us_id (w_str v m) = us_id (w_str v p) + d \<Longrightarrow> runs H v (id_follows p d m) v"
  by (rule runsI) (auto simp: id_follows_def ReleaseAssert_def has_view_def)

lemma runs_ctl_follows: "w_ids v m = w_ids v p + d \<Longrightarrow> runs H v (ctl_follows p d m) v"
  by (rule runsI) (auto simp: ctl_follows_def ReleaseAssert_def has_view_def)

lemma runs_set_strs:
  "distinct (w_seen v @ map snd xs) \<Longrightarrow> runs H v (set_strs H xs) (fold (add_str H) xs v)"
proof (induction xs arbitrary: v)
  case Nil
  show ?case by (simp add: runs_def)
next
  case (Cons x xs)
  obtain m s where x: "x = (m, s)" by fastforce
  have "runs H v (set_str H m s) (add_str H x v)" using Cons.prems runs_set_str [of v s H m] by (auto simp: x)
  moreover have "runs H (add_str H x v) (set_strs H xs) (fold (add_str H) (x # xs) v)"
    using Cons.IH [of "add_str H x v"] Cons.prems by (auto simp: x)
  ultimately show ?case by (simp add: x runs_bindS)
qed

lemma runs_set_strs_after:
  "distinct (w_seen v @ map snd xs) \<Longrightarrow> distinct (p # map fst xs) \<Longrightarrow>
   us_id (w_str v p) + 1 = of_nat (length (w_seen v)) \<Longrightarrow> runs H v (set_strs_after H p xs) (fold (add_str H) xs v)"
proof (induction xs arbitrary: v p)
  case Nil
  show ?case by (simp add: runs_def)
next
  case (Cons x xs)
  obtain m s where x: "x = (m, s)" by fastforce
  let ?v = "add_str H x v"
  have "runs H v (set_str H m s) ?v" using Cons.prems(1) runs_set_str [of v s H m] by (auto simp: x)
  moreover have "runs H ?v (id_follows p 1 m) ?v"
    using Cons.prems(2,3) by (intro runs_id_follows) (auto simp: x)
  moreover have "runs H ?v (set_strs_after H m xs) (fold (add_str H) (x # xs) v)"
    using Cons.IH [of ?v m] Cons.prems(1,2) by (auto simp: x)
  ultimately show ?case by (simp add: x runs_bindS)
qed

lemma runs_set_ids_after:
  "distinct (w_seen v @ map snd xs) \<Longrightarrow> distinct (p # map fst xs) \<Longrightarrow>
   w_ids v p + 1 = length (w_seen v) \<Longrightarrow> runs H v (set_ids_after H p xs) (fold add_id xs v)"
proof (induction xs arbitrary: v p)
  case Nil
  show ?case by (simp add: runs_def)
next
  case (Cons x xs)
  obtain m s where x: "x = (m, s)" by fastforce
  let ?v = "add_id x v"
  have "runs H v (set_id H m s) ?v" using Cons.prems(1) runs_set_id [of v s H m] by (auto simp: x)
  moreover have "runs H ?v (ctl_follows p 1 m) ?v"
    using Cons.prems(2,3) by (intro runs_ctl_follows) (auto simp: x)
  moreover have "runs H ?v (set_ids_after H m xs) (fold add_id (x # xs) v)"
    using Cons.IH [of ?v m] Cons.prems(1,2) by (auto simp: x)
  ultimately show ?case by (simp add: x runs_bindS)
qed

subsection \<open>The whole start-up\<close>

text \<open>The three classes of selectors, and all of them in the order of their ordinals.\<close>

definition arith_selectors :: "string list" where
  "arith_selectors = ''+'' # map snd arith_names"

definition control_selectors :: "string list" where
  "control_selectors = ''whileTrue:'' # map snd control_names"

definition unary_selectors :: "string list" where
  "unary_selectors = ''abs'' # map snd unary_names"

definition all_selectors :: "string list" where
  "all_selectors = map snd handler_names @ arith_selectors @ control_selectors @ map snd misc_names @
                   unary_selectors @ map snd ternary_names"

lemmas name_defs = handler_names_def arith_names_def control_names_def logical_names_def misc_names_def unary_names_def
  ternary_names_def arith_selectors_def control_selectors_def unary_selectors_def all_selectors_def

lemma all_selectors_distinct: "distinct all_selectors"
  by code_simp

lemma selectors_prefix: "all_selectors = xs @ ys \<Longrightarrow> distinct xs"
  using all_selectors_distinct by (metis distinct_append)

lemma names_distinct:
  "distinct (strOperatorPlus # map fst arith_names)" "distinct (strOperatorAbs # map fst unary_names)"
  "distinct (stringIdForWhileTrue # map fst control_names)"
  by (simp_all add: name_defs)

text \<open>The view after each group of the start-up.\<close>

definition w0 :: "VM \<Rightarrow> view" where
  "w0 V = \<lparr>w_seen = [], w_str = m_str V, w_ids = m_stringIdFor V\<rparr>"

definition w1 :: "(string \<Rightarrow> u64) \<Rightarrow> VM \<Rightarrow> view" where
  "w1 H V = fold (add_str H) (handler_names @ (strOperatorPlus, ''+'') # arith_names) (w0 V)"

definition w2 :: "(string \<Rightarrow> u64) \<Rightarrow> VM \<Rightarrow> view" where
  "w2 H V = fold add_id ((stringIdForWhileTrue, ''whileTrue:'') # control_names) (w1 H V)"

definition w3 :: "(string \<Rightarrow> u64) \<Rightarrow> VM \<Rightarrow> view" where
  "w3 H V = (w2 H V)\<lparr>w_str := (w_str (w2 H V))(strOperatorLogicalAnd := uniqued H 31 ''&&'',
     strOperatorLogicalOr := uniqued H 32 ''||'', strOperatorKeywordAnd := uniqued H 33 ''and:'',
     strOperatorKeywordOr := uniqued H 34 ''or:'')\<rparr>"

definition w4 :: "(string \<Rightarrow> u64) \<Rightarrow> VM \<Rightarrow> view" where
  "w4 H V = fold (add_str H) (misc_names @ (strOperatorAbs, ''abs'') # unary_names @ ternary_names) (w3 H V)"

lemma seen_views:
  "w_seen (w0 V) = []" "w_seen (w1 H V) = map snd handler_names @ arith_selectors"
  "w_seen (w2 H V) = map snd handler_names @ arith_selectors @ control_selectors"
  "w_seen (w3 H V) = map snd handler_names @ arith_selectors @ control_selectors" "w_seen (w4 H V) = all_selectors"
  by (simp_all add: w0_def w1_def w2_def w3_def w4_def arith_selectors_def control_selectors_def unary_selectors_def
      all_selectors_def)

lemma ids_w1: "us_id (w_str (w1 H V) strOperatorPlus) = 3" "us_id (w_str (w1 H V) strOperatorEqualEqual) = 20"
  by (simp_all add: w1_def w0_def name_defs)

lemma ids_w2: "w_ids (w2 H V) stringIdForWhileTrue = 21" "w_ids (w2 H V) stringIdForDowntoDo = 36"
  by (simp_all add: w2_def seen_views name_defs)

lemma ids_w4:
  "us_id (w_str (w4 H V) strOperatorPlus) = 3" "us_id (w_str (w4 H V) strOperatorEqualEqual) = 20"
  "us_id (w_str (w4 H V) strOperatorAbs) = 40" "us_id (w_str (w4 H V) strOperatorLength) = 46"
  "w_ids (w4 H V) stringIdForWhileTrue = 21" "w_ids (w4 H V) stringIdForDowntoDo = 36"
  using ids_w1 [of H V] ids_w2 [of H V]
  by (simp_all add: w4_def seen_views) (simp_all add: w3_def w2_def name_defs)

lemma start_up_runs:
  "runs H (w0 V)
     (bindS (set_strs H handler_names) (\<lambda>_. bindS (set_str H strOperatorPlus ''+'') (\<lambda>_.
      bindS (set_strs_after H strOperatorPlus arith_names) (\<lambda>_. id_follows strOperatorPlus 17 strOperatorEqualEqual)))) (w1 H V)"
  (is ?arith)
  "runs H (w1 H V)
     (bindS (set_id H stringIdForWhileTrue ''whileTrue:'') (\<lambda>_. bindS (set_ids_after H stringIdForWhileTrue control_names) (\<lambda>_.
      ctl_follows stringIdForWhileTrue 15 stringIdForDowntoDo))) (w2 H V)" (is ?control)
  "runs H (w3 H V)
     (bindS (set_strs H misc_names) (\<lambda>_. bindS (set_str H strOperatorAbs ''abs'') (\<lambda>_.
      bindS (set_strs_after H strOperatorAbs unary_names) (\<lambda>_. set_strs H ternary_names)))) (w4 H V)" (is ?unary)
proof -
  note seen = seen_views all_selectors_def arith_selectors_def control_selectors_def unary_selectors_def
  let ?a = "fold (add_str H) handler_names (w0 V)" let ?b = "add_str H (strOperatorPlus, ''+'') ?a"
  have w1: "w1 H V = fold (add_str H) arith_names ?b" by (simp add: w1_def)
  show ?arith
  proof (intro runs_bindS)
    show "runs H (w0 V) (set_strs H handler_names) ?a"
      by (intro runs_set_strs selectors_prefix) (simp add: seen)
    show "runs H ?a (set_str H strOperatorPlus ''+'') ?b"
      by (intro runs_set_str selectors_prefix) (simp add: seen)
    show "runs H ?b (set_strs_after H strOperatorPlus arith_names) (w1 H V)"
      unfolding w1 by (intro runs_set_strs_after names_distinct selectors_prefix) (simp_all add: seen)
    show "runs H (w1 H V) (id_follows strOperatorPlus 17 strOperatorEqualEqual) (w1 H V)"
      by (intro runs_id_follows) (simp add: ids_w1)
  qed
  let ?c = "add_id (stringIdForWhileTrue, ''whileTrue:'') (w1 H V)"
  have w2: "w2 H V = fold add_id control_names ?c" by (simp add: w2_def)
  show ?control
  proof (intro runs_bindS)
    show "runs H (w1 H V) (set_id H stringIdForWhileTrue ''whileTrue:'') ?c"
      by (intro runs_set_id selectors_prefix) (simp add: seen)
    show "runs H ?c (set_ids_after H stringIdForWhileTrue control_names) (w2 H V)"
      unfolding w2 by (intro runs_set_ids_after names_distinct selectors_prefix) (simp_all add: seen)
    show "runs H (w2 H V) (ctl_follows stringIdForWhileTrue 15 stringIdForDowntoDo) (w2 H V)"
      by (intro runs_ctl_follows) (simp add: ids_w2)
  qed
  let ?e = "fold (add_str H) misc_names (w3 H V)" let ?f = "add_str H (strOperatorAbs, ''abs'') ?e"
  let ?g = "fold (add_str H) unary_names ?f"
  have w4: "w4 H V = fold (add_str H) ternary_names ?g" by (simp add: w4_def)
  show ?unary
  proof (intro runs_bindS)
    show "runs H (w3 H V) (set_strs H misc_names) ?e"
      by (intro runs_set_strs selectors_prefix) (simp add: seen)
    show "runs H ?e (set_str H strOperatorAbs ''abs'') ?f"
      by (intro runs_set_str selectors_prefix) (simp add: seen)
    show "runs H ?f (set_strs_after H strOperatorAbs unary_names) ?g"
      by (intro runs_set_strs_after names_distinct selectors_prefix) (simp_all add: seen)
    show "runs H ?g (set_strs H ternary_names) (w4 H V)"
      unfolding w4 by (intro runs_set_strs selectors_prefix) (simp add: seen)
  qed
qed

lemma logical_runs: "runs H (w2 H V) (set_strs H logical_names) (w3 H V)"
proof -
  have n: "k < 37 \<Longrightarrow> k < length (w_seen (w2 H V))" for k by (simp add: seen_views name_defs)
  have s: "w_seen (w2 H V) ! 31 = ''&&''" "w_seen (w2 H V) ! 32 = ''||''" "w_seen (w2 H V) ! 33 = ''and:''"
    "w_seen (w2 H V) ! 34 = ''or:''" by (simp_all add: seen_views name_defs)
  show ?thesis unfolding logical_names_def set_strs.simps w3_def
    by (rule runs_bindS [OF runs_set_str_known [OF n s(1)]], simp,
        rule runs_bindS [OF runs_set_str_known, of 32], use n s in simp, use s in simp,
        rule runs_bindS [OF runs_set_str_known, of 33], use n s in simp, use s in simp,
        rule runs_bindS [OF runs_set_str_known, of 34], use n s in simp, use s in simp)
      (simp add: runs_def)
qed

lemma InitializeVMGlobalData_view:
  assumes "m_interner V = empty_interner"
  obtains V' where "InitializeVMGlobalData H V = Inr ((), V')" "has_view H (w4 H V) V'"
proof -
  let ?V = "V\<lparr>m_metaclassClassLoaded := False, m_cachedSingleCharStrings := Map.empty\<rparr>"
  have v: "has_view H (w0 V) ?V"
    using assms interner_ok_empty [of H] by (simp add: has_view_def w0_def seen_def) (simp add: empty_interner_def)
  note steps = runs_bindS [OF start_up_runs(1) runs_bindS [OF start_up_runs(2) runs_bindS [OF logical_runs start_up_runs(3)]]]
  obtain V' where run: "bindS (bindS (set_strs H handler_names) (\<lambda>_. bindS (set_str H strOperatorPlus ''+'') (\<lambda>_.
      bindS (set_strs_after H strOperatorPlus arith_names) (\<lambda>_. id_follows strOperatorPlus 17 strOperatorEqualEqual))))
     (\<lambda>_. bindS (bindS (set_id H stringIdForWhileTrue ''whileTrue:'') (\<lambda>_. bindS (set_ids_after H stringIdForWhileTrue control_names) (\<lambda>_.
      ctl_follows stringIdForWhileTrue 15 stringIdForDowntoDo))) (\<lambda>_. bindS (set_strs H logical_names)
     (\<lambda>_. bindS (set_strs H misc_names) (\<lambda>_. bindS (set_str H strOperatorAbs ''abs'') (\<lambda>_.
      bindS (set_strs_after H strOperatorAbs unary_names) (\<lambda>_. set_strs H ternary_names)))))) ?V = Inr ((), V')"
    and w: "has_view H (w4 H V) V'"
    by (rule runsE [OF steps v])
  have "InitializeVMGlobalData H V = Inr ((), V')"
    using run unfolding bindS_assoc by (simp add: InitializeVMGlobalData_def)
  then show thesis using w that by blast
qed

text \<open>The members and the selectors they are meant to hold.\<close>

definition member_names :: "(StrMember \<times> string) list" where
  "member_names = handler_names @ (strOperatorPlus, ''+'') # arith_names @ logical_names @ misc_names @
                  (strOperatorAbs, ''abs'') # unary_names @ ternary_names"

definition ctl_member_names :: "(CtlMember \<times> string) list" where
  "ctl_member_names = (stringIdForWhileTrue, ''whileTrue:'') # control_names"

definition member_ords :: "nat list" where
  "member_ords = [0, 1, 2, 3, 4, 5, 6, 7, 8, 9, 10, 11, 12, 13, 14, 15, 16, 17, 18, 19, 20, 31, 32, 33, 34,
                  37, 38, 39, 40, 41, 42, 43, 44, 45, 46, 47, 48]"

lemma member_ords_ok:
  "list_all2 (\<lambda>(m, s) k. w_str (w4 H V) m = uniqued H k s \<and> k < length all_selectors \<and> all_selectors ! k = s)
     member_names member_ords"
  by (simp add: w4_def seen_views member_names_def member_ords_def)
    (simp add: w3_def w2_def w1_def w0_def name_defs numeral_eq_Suc)

lemma ctl_ords_ok:
  "list_all (\<lambda>(m, s). w_ids (w4 H V) m < length all_selectors \<and> all_selectors ! (w_ids (w4 H V) m) = s) ctl_member_names"
  by (simp add: w4_def seen_views ctl_member_names_def) (simp add: w3_def w2_def seen_views name_defs)

text \<open>An index into a list without repetitions lies in a range exactly when the element there does.\<close>

lemma distinct_range:
  assumes "distinct L" and "k < length L" and "L = xs @ ys @ zs"
  shows "L ! k \<in> set ys \<longleftrightarrow> length xs \<le> k \<and> k < length xs + length ys"
  using assms by (auto simp: nth_append not_less dest: nth_mem)

lemma selector_ranges:
  assumes "interner_ok H I" and "seen I = all_selectors @ zs" and "Get I k = Some s"
  shows "s \<in> set arith_selectors \<longleftrightarrow> 3 \<le> k \<and> k \<le> 20"
    and "s \<in> set control_selectors \<longleftrightarrow> 21 \<le> k \<and> k \<le> 36"
    and "s \<in> set unary_selectors \<longleftrightarrow> 40 \<le> k \<and> k \<le> 46"
proof -
  have k: "k < length (seen I)" "seen I ! k = s" using assms(3) by (auto simp: Get_seen)
  have len: "length arith_selectors = 18" "length control_selectors = 16" "length unary_selectors = 7"
    "length handler_names = 3" "length misc_names = 3" by (simp_all add: name_defs)
  note range = distinct_range [OF interner_ok_distinct [OF assms(1)] k(1), unfolded k(2)]
  have "seen I = map snd handler_names @ arith_selectors @ (control_selectors @ map snd misc_names @ unary_selectors @
      map snd ternary_names @ zs)"
    "seen I = (map snd handler_names @ arith_selectors) @ control_selectors @ (map snd misc_names @ unary_selectors @
      map snd ternary_names @ zs)"
    "seen I = (map snd handler_names @ arith_selectors @ control_selectors @ map snd misc_names) @ unary_selectors @
      (map snd ternary_names @ zs)" by (simp_all only: assms(2) all_selectors_def append_assoc)
  from this [THEN range] show "s \<in> set arith_selectors \<longleftrightarrow> 3 \<le> k \<and> k \<le> 20"
    "s \<in> set control_selectors \<longleftrightarrow> 21 \<le> k \<and> k \<le> 36" "s \<in> set unary_selectors \<longleftrightarrow> 40 \<le> k \<and> k \<le> 46"
    by (simp_all only: len length_append length_map) arith+
qed

text \<open>C24. After the start-up on an empty interner no release assertion has failed and every member holds
  the selector it is named after; and in every later state, whatever else has been interned, the
  range checks on ordinals that the compiler uses decide exactly whether a selector is one of the
  arithmetic operators, of the inlinable control-flow messages, or of the specialised unary messages.\<close>

theorem InitializeVMGlobalData_selectors:
  assumes "m_interner V = empty_interner"
  shows "\<exists>V'. InitializeVMGlobalData H V = Inr ((), V') \<and> interner_ok H (m_interner V') \<and>
    (\<forall>(m, s) \<in> set member_names. \<exists>k. Get (m_interner V') k = Some s \<and> m_str V' m = uniqued H k s) \<and>
    (\<forall>(m, s) \<in> set ctl_member_names. Get (m_interner V') (m_stringIdFor V' m) = Some s) \<and>
    (\<forall>W k s. m_str W = m_str V' \<and> m_stringIdFor W = m_stringIdFor V' \<and> interner_ok H (m_interner W) \<and>
       (\<exists>zs. m_list (m_interner W) = m_list (m_interner V') @ zs) \<and> Get (m_interner W) k = Some s \<longrightarrow>
       (IsSelectorArithmeticOperator W k \<longleftrightarrow> s \<in> set arith_selectors) \<and>
       (IsSelectorInlinableControlFlow W k \<longleftrightarrow> s \<in> set control_selectors) \<and>
       (IsSelectorSpecializableUnaryOperator W k \<longleftrightarrow> s \<in> set unary_selectors))"
proof -
  obtain V' where run: "InitializeVMGlobalData H V = Inr ((), V')" and v: "has_view H (w4 H V) V'"
    using InitializeVMGlobalData_view [OF assms] by metis
  have seen: "seen (m_interner V') = all_selectors" and ok: "interner_ok H (m_interner V')"
    and str: "m_str V' = w_str (w4 H V)" and ids: "m_stringIdFor V' = w_ids (w4 H V)"
    using v by (auto simp: has_view_def seen_views)
  have 1: "\<forall>(m, s) \<in> set member_names. \<exists>k. Get (m_interner V') k = Some s \<and> m_str V' m = uniqued H k s"
    using member_ords_ok [of H V] unfolding list_all2_conv_all_nth set_conv_nth
    by (fastforce simp: Get_seen seen str)
  have 2: "\<forall>(m, s) \<in> set ctl_member_names. Get (m_interner V') (m_stringIdFor V' m) = Some s"
    using ctl_ords_ok [of H V] unfolding list_all_iff by (fastforce simp: Get_seen seen ids)
  have 3: "(IsSelectorArithmeticOperator W k \<longleftrightarrow> s \<in> set arith_selectors) \<and>
      (IsSelectorInlinableControlFlow W k \<longleftrightarrow> s \<in> set control_selectors) \<and>
      (IsSelectorSpecializableUnaryOperator W k \<longleftrightarrow> s \<in> set unary_selectors)"
    if "m_str W = m_str V'" "m_stringIdFor W = m_stringIdFor V'" "interner_ok H (m_interner W)"
      "m_list (m_interner W) = m_list (m_interner V') @ zs" "Get (m_interner W) k = Some s" for W k s zs
  proof -
    have "seen (m_interner W) = all_selectors @ map fst zs" using that(4) seen by (simp add: seen_def)
    from selector_ranges [OF that(3) this that(5)] that(1,2) show ?thesis
      by (simp add: IsSelectorArithmeticOperator_def IsSelectorInlinableControlFlow_def
          IsSelectorSpecializableUnaryOperator_def str ids ids_w4)
  qed
  from run ok 1 2 3 show ?thesis by blast
qed

theorem InitializeVMGlobalData_selectors_witness:
  "\<exists>V'. InitializeVMGlobalData (\<lambda>_. 0) empty_vm = Inr ((), V') \<and>
        (\<exists>k. Get (m_interner V') k = Some ''doesNotUnderstand:arguments:'')"
proof -
  have "m_interner empty_vm = empty_interner" by (simp add: empty_vm_def)
  from InitializeVMGlobalData_selectors [OF this, of "\<lambda>_. 0"] show ?thesis
    by (fastforce simp: member_names_def handler_names_def)
qed

end
