(* ===== verification/Dispatch.thy ===== *)
theory Dispatch
  imports PrimTable Selectors
begin

section \<open>Message sends\<close>

text \<open>
  The bytecodes that send messages and their shared helpers: \<open>som_call_utils.h\<close>, \<open>som_call.cpp\<close>,
  \<open>som_self_call.cpp\<close>, \<open>som_super_call.cpp\<close>, \<open>som_global_get.cpp\<close> and \<open>som_field.cpp\<close> under
  \<open>src/annotated/bytecodes\<close>. A bytecode ends by returning a value or by a call whose continuation
  returns the callee's value, an \<open>outcome\<close>. The arguments of a call, which the code passes as a range of
  stack slots, are a list that starts with the receiver.

  Each call site has an inline cache, \<open>icache\<close>: a partial map from the hidden class of the receiver to
  the result of the lookup, filled by \<open>ic->Effect\<close>. The generated code that implements the cache may
  refuse a new entry (it keeps a limited number); \<open>adm\<close> is that decision.
\<close>

type_synonym icache = "nat \<rightharpoonup> SOMMethodLookupResultKind \<times> nat"

subsection \<open>Method lookup\<close>

text \<open>\<open>m_upvalues[0].m_value\<close> of a trivial method: a field or global index.\<close>

definition raw_upvalue :: "FunctionObject \<Rightarrow> nat vmop" where
  "raw_upvalue fo = (case fo_upvalues fo of [UvRaw i] \<Rightarrow> retS i | _ \<Rightarrow> failS Undefined)"

text \<open>
  The body of the inline cache: what is found and whether it is cached. The second component of the
  result is a function, or the index kept in a trivial method.
\<close>

definition lookup_in :: "nat \<Rightarrow> SOMUniquedString \<Rightarrow> (bool \<times> SOMMethodLookupResultKind \<times> nat) vmop" where
  "lookup_in hc meth =
     bindS (class_method hc meth) (\<lambda>f.
     case f of
       None \<Rightarrow> retS (False, SOM_MethodNotFound, 0)
     | Some fn \<Rightarrow>
         bindS (the_fun fn) (\<lambda>fo.
         let c_funcTy = fo_lookup fo in
         bindS (if c_funcTy = SOM_GlobalReturn
                then bindS (raw_upvalue fo) (\<lambda>i. bindS (VM_GetGlobal i) (\<lambda>r. retS (r = TImpossible)))
                else retS False) (\<lambda>undefined_global.
         if undefined_global then retS (False, SOM_NormalMethod, fn)
         else if c_funcTy = SOM_GlobalReturn \<or> c_funcTy = SOM_Getter \<or> c_funcTy = SOM_Setter
         then bindS (raw_upvalue fo) (\<lambda>c_result. retS (True, c_funcTy, c_result))
         else retS (True, c_funcTy, fn))))"

text \<open>The source asks the cache first. An entry is recorded for objects only, so the hidden class of a function is never a key, and the model decides functions before it.\<close>

definition LookupObjectMethodImpl ::
  "(icache \<Rightarrow> bool) \<Rightarrow> nat option \<Rightarrow> icache \<Rightarrow> val \<Rightarrow> SOMUniquedString \<Rightarrow> ((SOMMethodLookupResultKind \<times> nat) \<times> icache) vmop"
where
  "LookupObjectMethodImpl adm superClass ic base meth =
     (case base of
        TObj a \<Rightarrow>
          bindS (the_obj a) (\<lambda>x.
          case ic (o_hiddenClass x) of
            Some r \<Rightarrow> retS (r, ic)
          | None \<Rightarrow>
              bindS (lookup_in (case superClass of Some c \<Rightarrow> c | None \<Rightarrow> o_hiddenClass x) meth) (\<lambda>(effect, r).
              retS (r, if effect \<and> adm ic then ic(o_hiddenClass x \<mapsto> r) else ic)))
      | TFun f \<Rightarrow> bindS (the_fun f) (\<lambda>_. retS ((SOM_CallBaseNotObject, 0), ic))
      | _ \<Rightarrow> failS Undefined)"

definition LookupMethodGeneralImpl :: "val \<Rightarrow> SOMUniquedString \<Rightarrow> nat option vmop" where
  "LookupMethodGeneralImpl self meth = bindS (GetSOMClassOfAny self) (\<lambda>cl. class_method cl meth)"

text \<open>A missing handler is a null function pointer: an assertion in test builds, undefined otherwise.\<close>

definition HandleMethodNotFoundImpl :: "prim_env \<Rightarrow> val \<Rightarrow> SOMUniquedString \<Rightarrow> val list \<Rightarrow> outcome vmop" where
  "HandleMethodNotFoundImpl E self meth args =
     bindS (GetSOMClassOfAny self) (\<lambda>cl.
     bindS (getS (\<lambda>V. m_str V doesNotUnderstandHandler)) (\<lambda>dnu.
     bindS (class_method cl dnu) (\<lambda>handler.
     bindS (liftS (TestAssert (e_tb E) (handler \<noteq> None))) (\<lambda>_.
     bindS (GetInternedSymbol (unat (us_id meth))) (\<lambda>fnName.
     bindS (AllocateArray (length args)) (\<lambda>arr.
     bindS (FillArray arr args) (\<lambda>_.
     case handler of
       None \<Rightarrow> failS Undefined
     | Some h \<Rightarrow> retS (Call h [self, TObj fnName, TObj arr] TrivialReturnCont))))))))"

definition ExecuteTrivialMethodExceptSetter :: "nat \<Rightarrow> val \<Rightarrow> SOMMethodLookupResultKind \<Rightarrow> val vmop" where
  "ExecuteTrivialMethodExceptSetter fn self triviality =
     (case triviality of
        SOM_LiteralReturn \<Rightarrow>
          bindS (the_fun fn) (\<lambda>fo. case fo_upvalues fo of [UvImm v] \<Rightarrow> retS v | _ \<Rightarrow> failS Undefined)
      | SOM_GlobalReturn \<Rightarrow> VM_GetGlobal fn
      | SOM_SelfReturn \<Rightarrow> retS self
      | SOM_Getter \<Rightarrow> bindS (obj_of self) (\<lambda>o1. liftS (get_field o1 fn))
      | _ \<Rightarrow> failS Undefined)"

definition ExecuteSetterTrivialMethod :: "nat \<Rightarrow> val \<Rightarrow> val \<Rightarrow> val vmop" where
  "ExecuteSetterTrivialMethod fn self arg =
     bindS (liftS (as_obj self)) (\<lambda>a.
     bindS (the_obj a) (\<lambda>o1.
     bindS (liftS (put_field o1 fn arg)) (\<lambda>o2.
     bindS (set_obj a o2) (\<lambda>_. retS self))))"

subsection \<open>The call bytecodes\<close>

definition CallMethodNotFoundSlowPath :: "prim_env \<Rightarrow> val list \<Rightarrow> SOMUniquedString \<Rightarrow> outcome vmop" where
  "CallMethodNotFoundSlowPath E args meth =
     bindS (liftS (GetArg args 0)) (\<lambda>self. HandleMethodNotFoundImpl E self meth (tl args))"

definition CallBaseNotObjectSlowPath :: "prim_env \<Rightarrow> val list \<Rightarrow> SOMUniquedString \<Rightarrow> outcome vmop" where
  "CallBaseNotObjectSlowPath E args meth =
     bindS (liftS (GetArg args 0)) (\<lambda>self.
     bindS (LookupMethodGeneralImpl self meth) (\<lambda>f.
     case f of
       None \<Rightarrow> CallMethodNotFoundSlowPath E args meth
     | Some fn \<Rightarrow> retS (Call fn args TrivialReturnCont)))"

text \<open>
  The switch on the result of the lookup, which the call bytecodes share. \<open>not_found\<close> and \<open>not_object\<close>
  are the two slow paths.
\<close>

definition finish_call ::
  "outcome vmop \<Rightarrow> outcome vmop \<Rightarrow> val list \<Rightarrow> SOMMethodLookupResultKind \<times> nat \<Rightarrow> outcome vmop" where
  "finish_call not_found not_object args r =
     (case r of (fnKind, fn) \<Rightarrow>
      bindS (liftS (GetArg args 0)) (\<lambda>self.
      case fnKind of
        SOM_MethodNotFound \<Rightarrow> not_found
      | SOM_CallBaseNotObject \<Rightarrow> not_object
      | SOM_NormalMethod \<Rightarrow> retS (Call fn args TrivialReturnCont)
      | SOM_Setter \<Rightarrow> bindS (liftS (GetArg args 1)) (\<lambda>a. ret_val (ExecuteSetterTrivialMethod fn self a))
      | _ \<Rightarrow> ret_val (ExecuteTrivialMethodExceptSetter fn self fnKind)))"

definition is_heap_entity :: "val \<Rightarrow> bool" where
  "is_heap_entity v = (case v of TObj _ \<Rightarrow> True | TFun _ \<Rightarrow> True | _ \<Rightarrow> False)"

definition CallImpl ::
  "(icache \<Rightarrow> bool) \<Rightarrow> prim_env \<Rightarrow> icache \<Rightarrow> val list \<Rightarrow> SOMUniquedString \<Rightarrow> (outcome \<times> icache) vmop" where
  "CallImpl adm E ic args meth =
     bindS (liftS (GetArg args 0)) (\<lambda>self.
     if is_heap_entity self
     then bindS (LookupObjectMethodImpl adm None ic self meth) (\<lambda>(r, ic').
          bindS (finish_call (CallMethodNotFoundSlowPath E args meth) (CallBaseNotObjectSlowPath E args meth) args r) (\<lambda>oc.
          retS (oc, ic')))
     else bindS (CallBaseNotObjectSlowPath E args meth) (\<lambda>oc. retS (oc, ic)))"

text \<open>The receiver of a self or super call is stored into its stack slot only when a method is called.\<close>

definition SelfCallImpl ::
  "(icache \<Rightarrow> bool) \<Rightarrow> prim_env \<Rightarrow> icache \<Rightarrow> val \<Rightarrow> val list \<Rightarrow> SOMUniquedString \<Rightarrow> (outcome \<times> icache) vmop" where
  "SelfCallImpl adm E ic self rest_args meth =
     bindS (LookupObjectMethodImpl adm None ic self meth) (\<lambda>(r, ic').
     bindS (finish_call (HandleMethodNotFoundImpl E self meth rest_args) (failS Undefined) (self # rest_args) r) (\<lambda>oc.
     retS (oc, ic')))"

definition SuperCallImpl ::
  "(icache \<Rightarrow> bool) \<Rightarrow> prim_env \<Rightarrow> icache \<Rightarrow> nat \<Rightarrow> val \<Rightarrow> val list \<Rightarrow> SOMUniquedString \<Rightarrow> (outcome \<times> icache) vmop" where
  "SuperCallImpl adm E ic superClass self rest_args meth =
     bindS (LookupObjectMethodImpl adm (Some superClass) ic self meth) (\<lambda>(r, ic').
     bindS (finish_call (HandleMethodNotFoundImpl E self meth rest_args) (failS Undefined) (self # rest_args) r) (\<lambda>oc.
     retS (oc, ic')))"

subsection \<open>Globals and fields\<close>

definition UnknownGlobalSlowPath :: "prim_env \<Rightarrow> val \<Rightarrow> nat \<Rightarrow> outcome vmop" where
  "UnknownGlobalSlowPath E self index =
     bindS (GetSOMClassOfAny self) (\<lambda>cl.
     bindS (getS (\<lambda>V. m_str V unknownGlobalHandler)) (\<lambda>ug.
     bindS (class_method cl ug) (\<lambda>func.
     bindS (liftS (TestAssert (e_tb E) (func \<noteq> None))) (\<lambda>_.
     bindS (getS m_globalStringIdWithIndex) (\<lambda>ids.
     if length ids \<le> index then failS (if e_tb E then TestAssertFailed else OutOfRange)
     else bindS (GetInternedSymbol (ids ! index)) (\<lambda>globalName.
          case func of
            None \<Rightarrow> failS Undefined
          | Some f \<Rightarrow> retS (Call f [self, TObj globalName] TrivialReturnCont)))))))"

definition GlobalGetImpl :: "prim_env \<Rightarrow> val \<Rightarrow> nat \<Rightarrow> outcome vmop" where
  "GlobalGetImpl E self index =
     bindS (VM_GetGlobal index) (\<lambda>v. if v = TImpossible then UnknownGlobalSlowPath E self index else retS (Ret v))"

definition GetFieldImpl :: "val \<Rightarrow> nat \<Rightarrow> val vmop" where
  "GetFieldImpl base index = bindS (obj_of base) (\<lambda>o1. liftS (get_field o1 index))"

definition PutFieldImpl :: "val \<Rightarrow> nat \<Rightarrow> val \<Rightarrow> unit vmop" where
  "PutFieldImpl base index v =
     bindS (liftS (as_obj base)) (\<lambda>a.
     bindS (the_obj a) (\<lambda>o1.
     bindS (liftS (put_field o1 index v)) (\<lambda>o2. set_obj a o2)))"

subsection \<open>Inline caches\<close>

text \<open>
  What an inline cache needs of the lookup it caches: the lookup only reads the state, and a result
  that may be cached stays the same in every extension of the state. \<open>coherent\<close> says that the entries
  of a cache are what the lookup would find now.
\<close>

locale inline_cache =
  fixes find :: "'k \<Rightarrow> ('s, bool \<times> 'r) op"
    and ext :: "'s \<Rightarrow> 's \<Rightarrow> bool"
  assumes find_reads: "find k s = Inr (x, s') \<Longrightarrow> s' = s"
    and find_stable: "find k s = Inr ((True, r), s) \<Longrightarrow> ext s s' \<Longrightarrow> find k s' = Inr ((True, r), s')"
begin

definition coherent :: "'s \<Rightarrow> ('k \<rightharpoonup> 'r) \<Rightarrow> bool" where
  "coherent s ic \<longleftrightarrow> (\<forall>k r. ic k = Some r \<longrightarrow> find k s = Inr ((True, r), s))"

definition cached :: "(('k \<rightharpoonup> 'r) \<Rightarrow> bool) \<Rightarrow> ('k \<rightharpoonup> 'r) \<Rightarrow> 'k \<Rightarrow> ('s, 'r \<times> ('k \<rightharpoonup> 'r)) op" where
  "cached adm ic k =
     (case ic k of
        Some r \<Rightarrow> retS (r, ic)
      | None \<Rightarrow> bindS (find k) (\<lambda>(effect, r). retS (r, if effect \<and> adm ic then ic(k \<mapsto> r) else ic)))"

lemma coherent_empty: "coherent s Map.empty"
  by (simp add: coherent_def)

lemma coherent_ext: "coherent s ic \<Longrightarrow> ext s s' \<Longrightarrow> coherent s' ic"
  unfolding coherent_def using find_stable by blast

lemma cached_InrD:
  assumes "coherent s ic" and "cached adm ic k s = Inr ((r, ic'), s')"
  shows "s' = s \<and> coherent s ic' \<and> (\<exists>eff. find k s = Inr ((eff, r), s))"
proof (cases "ic k")
  case None
  with assms(2) obtain eff where f: "find k s = Inr ((eff, r), s')"
    and ic': "ic' = (if eff \<and> adm ic then ic(k \<mapsto> r) else ic)"
    by (auto simp: cached_def elim!: bindS_InrE)
  with find_reads [OF f] assms(1) show ?thesis by (auto simp: coherent_def)
next
  case (Some x)
  with assms show ?thesis by (auto simp: cached_def coherent_def)
qed

lemma cached_InlD:
  assumes "cached adm ic k s = Inl e"
  shows "find k s = Inl e"
proof (cases "find k s")
  case (Inr x)
  obtain eff r s' where "x = ((eff, r), s')" by (metis surj_pair)
  with Inr assms show ?thesis by (cases "ic k") (simp_all add: cached_def)
next
  case (Inl e')
  with assms show ?thesis by (cases "ic k") (simp_all add: cached_def)
qed

text \<open>The value a cached lookup gives does not depend on the cache.\<close>

lemma cached_value:
  assumes "coherent s ic"
  shows "bindS (cached adm ic k) (\<lambda>(r, _). g r) s = bindS (find k) (\<lambda>(_, r). g r) s"
proof (cases "cached adm ic k s")
  case (Inl e)
  with cached_InlD [OF this] show ?thesis by simp
next
  case (Inr x)
  obtain r ic' s' where x: "x = ((r, ic'), s')" by (metis surj_pair)
  from cached_InrD [OF assms Inr [unfolded x]] Inr x show ?thesis by auto
qed

end

text \<open>The extensions of the state that execution produces: classes and functions are added but do not
  change, and a global that has a value keeps having one.\<close>

definition code_extends :: "VM \<Rightarrow> VM \<Rightarrow> bool" where
  "code_extends V W \<longleftrightarrow>
     (\<forall>c < length (h_classes V). c < length (h_classes W) \<and> c_methodHt (h_classes W ! c) = c_methodHt (h_classes V ! c)) \<and>
     (\<forall>f < length (h_funs V). f < length (h_funs W) \<and> h_funs W ! f = h_funs V ! f) \<and>
     (\<forall>i < length (m_globalsVec V). i < length (m_globalsVec W) \<and>
        (m_globalsVec V ! i \<noteq> TImpossible \<longrightarrow> m_globalsVec W ! i \<noteq> TImpossible))"

lemma keeps_raw_upvalue [keeps_intros]: "keeps f (raw_upvalue fo)"
  unfolding raw_upvalue_def by (auto simp: keeps_def split: list.splits upval.splits)

lemma keeps_VM_GetGlobal [keeps_intros]: "keeps f (VM_GetGlobal i)"
  by (auto simp: keeps_def VM_GetGlobal_def split: if_splits)

lemma keeps_class_method [keeps_intros]: "keeps f (class_method c m)"
  unfolding class_method_def Let_def by (intro keeps_intros)

lemma keeps_lookup_in: "keeps f (lookup_in c m)"
  unfolding lookup_in_def Let_def by (intro keeps_intros)

lemma class_method_state: "class_method c m V = Inr (x, V') \<Longrightarrow> V' = V"
  using keepsD [OF keeps_class_method [where f = id]] by fastforce

lemma lookup_in_stable:
  assumes "lookup_in hc meth V = Inr ((True, r), V)" and "code_extends V W"
  shows "lookup_in hc meth W = Inr ((True, r), W)"
proof -
  obtain y V1 where y1: "class_method hc meth V = Inr (y, V1)"
    by (rule bindS_InrE [OF assms(1) [unfolded lookup_in_def]])
  then have y: "class_method hc meth V = Inr (y, V)" using class_method_state by blast
  with assms(1) obtain fn where "y = Some fn" by (cases y) (simp_all add: lookup_in_def)
  with y have fn: "class_method hc meth V = Inr (Some fn, V)" by simp
  have hc: "class_method hc meth W = Inr (Some fn, W)"
    using fn assms(2) by (auto simp: class_method_def code_extends_def the_class_def Let_def split: if_splits elim!: bindS_InrE)
  from assms(1) fn obtain fo where fo: "the_fun fn V = Inr (fo, V)" by (auto simp: lookup_in_def the_fun_def elim!: bindS_InrE split: if_splits)
  then have fo': "the_fun fn W = Inr (fo, W)" using assms(2) by (auto simp: the_fun_def code_extends_def split: if_splits)
  show ?thesis
    using assms fn fo hc fo'
    by (auto simp: lookup_in_def Let_def raw_upvalue_def VM_GetGlobal_def code_extends_def
        elim!: bindS_InrE split: if_splits list.splits upval.splits)
qed

interpretation mc: inline_cache "\<lambda>hc. lookup_in (case superClass of Some c \<Rightarrow> c | None \<Rightarrow> hc) meth" code_extends
  for superClass meth
proof unfold_locales
  fix hc V x V' assume "lookup_in (case superClass of Some c \<Rightarrow> c | None \<Rightarrow> hc) meth V = Inr (x, V')"
  then show "V' = V" using keepsD [OF keeps_lookup_in [where f = id]] by fastforce
qed (rule lookup_in_stable)

lemma LookupObjectMethodImpl_cached:
  "LookupObjectMethodImpl adm sc ic (TObj a) meth = bindS (the_obj a) (\<lambda>x. mc.cached sc meth adm ic (o_hiddenClass x))"
  by (simp add: LookupObjectMethodImpl_def mc.cached_def)

definition ic_coherent :: "nat option \<Rightarrow> SOMUniquedString \<Rightarrow> VM \<Rightarrow> icache \<Rightarrow> bool" where
  "ic_coherent sc meth V ic \<longleftrightarrow>
     (\<forall>hc r. ic hc = Some r \<longrightarrow> lookup_in (case sc of Some c \<Rightarrow> c | None \<Rightarrow> hc) meth V = Inr ((True, r), V))"

lemma ic_coherent_mc: "mc.coherent sc meth V ic = ic_coherent sc meth V ic"
  by (simp add: ic_coherent_def mc.coherent_def)

lemmas coherent_rules = mc.cached_value [unfolded ic_coherent_mc] mc.cached_InrD [unfolded ic_coherent_mc]
  mc.coherent_empty [unfolded ic_coherent_mc] mc.coherent_ext [unfolded ic_coherent_mc]

text \<open>With a coherent cache the lookup gives what it gives with an empty one, and keeps the cache coherent.\<close>

lemma LookupObjectMethodImpl_value:
  assumes "ic_coherent sc meth V ic"
  shows "bindS (LookupObjectMethodImpl adm sc ic base meth) (\<lambda>(r, _). g r) V =
         bindS (LookupObjectMethodImpl adm' sc Map.empty base meth) (\<lambda>(r, _). g r) V"
proof (cases base)
  case (TObj a)
  show ?thesis
  proof (cases "the_obj a V")
    case (Inr x)
    then obtain y where y: "the_obj a V = Inr (y, V)" by (auto simp: the_obj_def split: if_splits)
    have "bindS (mc.cached sc meth adm ic hc) (\<lambda>(r, _). g r) V = bindS (mc.cached sc meth adm' Map.empty hc) (\<lambda>(r, _). g r) V" for hc
      by (simp only: coherent_rules(1) [OF assms] coherent_rules(1) [OF coherent_rules(3)])
    then show ?thesis unfolding TObj LookupObjectMethodImpl_cached bindS_assoc using y by simp
  qed (simp add: TObj LookupObjectMethodImpl_cached)
qed (simp_all add: LookupObjectMethodImpl_def bindS_app the_fun_def)

lemma LookupObjectMethodImpl_coherent:
  assumes "ic_coherent sc meth V ic" and "LookupObjectMethodImpl adm sc ic base meth V = Inr ((r, ic'), V')"
  shows "V' = V \<and> ic_coherent sc meth V ic'"
proof (cases base)
  case (TObj a)
  with assms(2) obtain x where "the_obj a V = Inr (x, V)" "mc.cached sc meth adm ic (o_hiddenClass x) V = Inr ((r, ic'), V')"
    by (auto simp: LookupObjectMethodImpl_cached the_obj_def elim!: bindS_InrE split: if_splits)
  then show ?thesis using coherent_rules(2) [OF assms(1)] by blast
qed (use assms in \<open>auto simp: LookupObjectMethodImpl_def the_fun_def elim!: bindS_InrE split: if_splits\<close>)

text \<open>The part of the state that lookups read; sends do not change it.\<close>

definition code :: "VM \<Rightarrow> SOMClass list \<times> FunctionObject list \<times> val list" where
  "code V = (h_classes V, h_funs V, m_globalsVec V)"

lemma code_frame [simp]: "code (V\<lparr>h_objs := x\<rparr>) = code V" "code (V\<lparr>m_internedSymbolObjects := y\<rparr>) = code V"
  by (simp_all add: code_def)

lemma code_extends_code: "code W = code V \<Longrightarrow> code_extends V W"
  by (simp add: code_def code_extends_def)

lemma code_extends_trans: "code_extends U V \<Longrightarrow> code_extends V W \<Longrightarrow> code_extends U W"
  by (simp add: code_extends_def)

lemma keeps_GetSOMClassOfAny [keeps_intros]: "keeps f (GetSOMClassOfAny v)"
  unfolding GetSOMClassOfAny_def
  by (cases v) (auto intro!: keeps_intros split: SOMDetailEntityType.splits simp: keeps_basic)

lemma keeps_obj_of [keeps_intros]: "keeps f (obj_of v)"
  unfolding obj_of_def by (intro keeps_intros)

lemma keeps_ret_val [keeps_intros]: "keeps f m \<Longrightarrow> keeps f (ret_val m)"
  unfolding ret_val_def by (intro keeps_intros)

lemma keeps_HandleMethodNotFoundImpl [keeps_intros]: "keeps code (HandleMethodNotFoundImpl E self meth args)"
  unfolding HandleMethodNotFoundImpl_def by (intro keeps_intros code_frame)

lemma keeps_literal_return: "keeps f (case uvs of [UvImm v] \<Rightarrow> retS v | _ \<Rightarrow> failS Undefined)"
  by (auto simp: keeps_basic split: list.splits upval.splits)

lemma keeps_trivial [keeps_intros]: "keeps f (ExecuteTrivialMethodExceptSetter fn self k)"
  unfolding ExecuteTrivialMethodExceptSetter_def
  by (cases k) (auto intro!: keeps_intros keeps_literal_return simp: keeps_basic)

lemma keeps_setter [keeps_intros]: "keeps code (ExecuteSetterTrivialMethod fn self a)"
  unfolding ExecuteSetterTrivialMethod_def by (intro keeps_intros code_frame)

lemma keeps_slow_paths [keeps_intros]:
  "keeps code (CallMethodNotFoundSlowPath E args meth)" "keeps code (CallBaseNotObjectSlowPath E args meth)"
  unfolding CallMethodNotFoundSlowPath_def CallBaseNotObjectSlowPath_def LookupMethodGeneralImpl_def
  by (intro keeps_intros)+

lemma keeps_finish_call [keeps_intros]:
  "keeps code m \<Longrightarrow> keeps code n \<Longrightarrow> keeps code (finish_call m n args r)"
  unfolding finish_call_def split_def
  by (cases "fst r") (auto intro!: keeps_intros simp: keeps_basic)

text \<open>A send, run up to its outcome.\<close>

lemma cached_send_coherent:
  assumes "ic_coherent sc meth V ic" and "keeps code m" and "keeps code n" and "code_extends W W'"
    and "bindS (LookupObjectMethodImpl adm sc ic self meth) (\<lambda>(r, ic'). bindS (finish_call m n args r) (\<lambda>oc. retS (oc, ic'))) V
           = Inr ((oc, ic'), W)"
  shows "ic_coherent sc meth W' ic'"
proof -
  obtain r V1 where 1: "LookupObjectMethodImpl adm sc ic self meth V = Inr ((r, ic'), V1)" "finish_call m n args r V1 = Inr (oc, W)"
    using assms(5) by (auto elim!: bindS_InrE split: prod.splits)
  from LookupObjectMethodImpl_coherent [OF assms(1) 1(1)] have c: "V1 = V" "ic_coherent sc meth V ic'" by simp_all
  have "code W = code V" using keepsD [OF keeps_finish_call [OF assms(2,3)] 1(2)] c(1) by simp
  then have "code_extends V W'" using assms(4) code_extends_code code_extends_trans by blast
  then show ?thesis using coherent_rules(4) [OF c(2)] by blast
qed

lemma cached_send_value:
  assumes "ic_coherent sc meth V ic"
  shows "bindS (bindS (LookupObjectMethodImpl adm sc ic self meth) (\<lambda>(r, ic'). bindS (g r) (\<lambda>oc. retS (oc, ic')))) (\<lambda>(oc, _). retS oc) V =
         bindS (bindS (LookupObjectMethodImpl adm' sc Map.empty self meth) (\<lambda>(r, ic'). bindS (g r) (\<lambda>oc. retS (oc, ic')))) (\<lambda>(oc, _). retS oc) V"
proof -
  have "bindS (bindS (LookupObjectMethodImpl adm sc ic self meth) (\<lambda>(r, ic'). bindS (g r) (\<lambda>oc. retS (oc, ic')))) (\<lambda>(oc, _). retS oc) =
        bindS (LookupObjectMethodImpl adm sc ic self meth) (\<lambda>(r, _). bindS (g r) retS)" for adm ic
    unfolding bindS_assoc split_def by simp (simp add: retS_def [abs_def])
  then show ?thesis using LookupObjectMethodImpl_value [OF assms, of adm self "\<lambda>r. bindS (g r) retS" adm'] by simp
qed

lemma CallImpl_coherent:
  assumes c: "ic_coherent None meth V ic" and run: "CallImpl adm E ic args meth V = Inr ((oc, ic'), W)"
    and ext: "code_extends W W'"
  shows "ic_coherent None meth W' ic'"
proof -
  from run obtain self where a: "GetArg args 0 = Inr self" by (auto simp: CallImpl_def liftS_Inr elim!: bindS_InrE)
  show ?thesis
  proof (cases "is_heap_entity self")
    case True
    with run a show ?thesis
      unfolding CallImpl_def by (intro cached_send_coherent [OF c _ _ ext]) (auto intro: keeps_intros)
  next
    case False
    with run a have "CallBaseNotObjectSlowPath E args meth V = Inr (oc, W)" "ic' = ic"
      by (auto simp: CallImpl_def elim!: bindS_InrE)
    moreover from this(1) have "code W = code V" using keepsD [OF keeps_slow_paths(2)] by blast
    ultimately show ?thesis using coherent_rules(4) [OF c] ext code_extends_code code_extends_trans by blast
  qed
qed

text \<open>C26. Inline caches are transparent. With any cache whose entries agree with the current tables, a
  send (to an arbitrary receiver, to self or to super) has the same outcome, the same effect and the
  same error as with an empty cache, whatever entries the cache has refused before; and the cache it
  leaves agrees with the tables in every later state, as long as classes and functions are only
  added and globals that have a value keep one.\<close>

theorem inline_cache_transparent:
  "(ic_coherent None meth V ic \<longrightarrow>
     bindS (CallImpl adm E ic args meth) (\<lambda>(oc, _). retS oc) V = bindS (CallImpl adm' E Map.empty args meth) (\<lambda>(oc, _). retS oc) V \<and>
     bindS (SelfCallImpl adm E ic self args meth) (\<lambda>(oc, _). retS oc) V =
       bindS (SelfCallImpl adm' E Map.empty self args meth) (\<lambda>(oc, _). retS oc) V \<and>
     (\<forall>oc ic' W W'. (CallImpl adm E ic args meth V = Inr ((oc, ic'), W) \<or> SelfCallImpl adm E ic self args meth V = Inr ((oc, ic'), W)) \<longrightarrow>
        code_extends W W' \<longrightarrow> ic_coherent None meth W' ic')) \<and>
   (ic_coherent (Some sc) meth V ic \<longrightarrow>
     bindS (SuperCallImpl adm E ic sc self args meth) (\<lambda>(oc, _). retS oc) V =
       bindS (SuperCallImpl adm' E Map.empty sc self args meth) (\<lambda>(oc, _). retS oc) V \<and>
     (\<forall>oc ic' W W'. SuperCallImpl adm E ic sc self args meth V = Inr ((oc, ic'), W) \<longrightarrow> code_extends W W' \<longrightarrow>
        ic_coherent (Some sc) meth W' ic')) \<and>
   ic_coherent None meth V Map.empty \<and> ic_coherent (Some sc) meth V Map.empty"
proof (intro conjI impI allI)
  assume c: "ic_coherent None meth V ic"
  show "bindS (SelfCallImpl adm E ic self args meth) (\<lambda>(oc, _). retS oc) V =
       bindS (SelfCallImpl adm' E Map.empty self args meth) (\<lambda>(oc, _). retS oc) V"
    unfolding SelfCallImpl_def by (rule cached_send_value [OF c])
  show "bindS (CallImpl adm E ic args meth) (\<lambda>(oc, _). retS oc) V = bindS (CallImpl adm' E Map.empty args meth) (\<lambda>(oc, _). retS oc) V"
    using cached_send_value [OF c, of adm _ _ adm'] by (auto simp: CallImpl_def GetArg_def bindS_assoc)
  fix oc ic' W W' assume run: "CallImpl adm E ic args meth V = Inr ((oc, ic'), W) \<or> SelfCallImpl adm E ic self args meth V = Inr ((oc, ic'), W)"
    and ext: "code_extends W W'"
  from run show "ic_coherent None meth W' ic'"
  proof
    assume "SelfCallImpl adm E ic self args meth V = Inr ((oc, ic'), W)"
    then show ?thesis
      unfolding SelfCallImpl_def by (intro cached_send_coherent [OF c _ _ ext]) (auto intro: keeps_intros)
  next
    assume "CallImpl adm E ic args meth V = Inr ((oc, ic'), W)"
    then show ?thesis by (rule CallImpl_coherent [OF c _ ext])
  qed
next
  assume c: "ic_coherent (Some sc) meth V ic"
  show "bindS (SuperCallImpl adm E ic sc self args meth) (\<lambda>(oc, _). retS oc) V =
       bindS (SuperCallImpl adm' E Map.empty sc self args meth) (\<lambda>(oc, _). retS oc) V"
    unfolding SuperCallImpl_def by (rule cached_send_value [OF c])
  fix oc ic' W W' assume "SuperCallImpl adm E ic sc self args meth V = Inr ((oc, ic'), W)" and ext: "code_extends W W'"
  then show "ic_coherent (Some sc) meth W' ic'"
    unfolding SuperCallImpl_def by (intro cached_send_coherent [OF c _ _ ext]) (auto intro: keeps_intros)
qed (rule coherent_rules(3))+

text \<open>A state with one object whose class answers one selector with a method that returns the receiver.\<close>

definition call_vm :: VM where
  "call_vm = empty_vm\<lparr>
     h_objs := [\<lparr>o_hiddenClass = 0, o_payload = Fields []\<rparr>],
     h_classes := [\<lparr>c_superClass = None, c_classObject = None, c_name = 0, c_fields = 0, c_methods = 0, c_numFields = 0,
                    c_methodHt = [mk_entry 0 (fn_ptr 0)]\<rparr>],
     h_funs := [\<lparr>fo_type = SOM_Method, fo_lookup = SOM_SelfReturn, fo_executable = 0, fo_upvalues = []\<rparr>]\<rparr>"

theorem inline_cache_transparent_witness:
  "bindS (CallImpl (\<lambda>_. True) demo_prims [0 \<mapsto> (SOM_SelfReturn, 0)] [TObj 0] \<lparr>us_id = 0, us_hash = 0\<rparr>) (\<lambda>(oc, _). retS oc) call_vm =
     bindS (CallImpl (\<lambda>_. False) demo_prims Map.empty [TObj 0] \<lparr>us_id = 0, us_hash = 0\<rparr>) (\<lambda>(oc, _). retS oc) call_vm"
proof -
  have "ic_coherent None \<lparr>us_id = 0, us_hash = 0\<rparr> call_vm [0 \<mapsto> (SOM_SelfReturn, 0)]"
    by (simp add: ic_coherent_def)
      (simp add: lookup_in_def class_method_def the_class_def the_fun_def GetMethod_def call_vm_def mk_entry_def
        fn_ptr_def ptr_fn_def bindS_app)
  then show ?thesis
    using inline_cache_transparent [of "\<lparr>us_id = 0, us_hash = 0\<rparr>" call_vm "[0 \<mapsto> (SOM_SelfReturn, 0)]" "\<lambda>_. True" demo_prims "[TObj 0]" "\<lambda>_. False"] by simp
qed

end
