(* ===== verification/Operators.thy ===== *)
theory Operators
  imports Dispatch
begin

section \<open>The specialised operators\<close>

text \<open>
  \<open>som_binary_operators.cpp\<close>, \<open>som_unary_operators.cpp\<close> and \<open>som_ternary_operators.cpp\<close> under
  \<open>src/annotated/bytecodes\<close>: the bytecodes for the selectors that most often operate on numbers,
  booleans, strings, arrays and blocks. Each tries a fast path and falls back to a message send. A fast
  path that may fall through gives an option: \<open>None\<close> is the \<open>break\<close> that leads to the slow path.
  An access with an unchecked type (\<open>As\<close>) is \<open>Inl Undefined\<close>, as in theory \<open>PrimNumbers\<close>.
\<close>

subsection \<open>Binary operators: slow path\<close>

datatype BinOpKind =
    BO_Plus | BO_Minus | BO_Star | BO_SlashSlash | BO_Percent | BO_And | BO_Equal | BO_LessThan | BO_LessEqual
  | BO_GreaterThan | BO_GreaterEqual | BO_Unequal | BO_TildeUnequal | BO_LeftShift | BO_RightShift | BO_BitwiseXor
  | BO_Slash | BO_LogicalAnd | BO_LogicalOr | BO_KeywordAnd | BO_KeywordOr | BO_ValueColon | BO_AtColon | BO_CharAtColon

fun GetLookupKeyForBinaryOperator :: "BinOpKind \<Rightarrow> StrMember" where
  "GetLookupKeyForBinaryOperator BO_Plus = strOperatorPlus"
| "GetLookupKeyForBinaryOperator BO_Minus = strOperatorMinus"
| "GetLookupKeyForBinaryOperator BO_Star = strOperatorStar"
| "GetLookupKeyForBinaryOperator BO_SlashSlash = strOperatorSlashSlash"
| "GetLookupKeyForBinaryOperator BO_Percent = strOperatorPercent"
| "GetLookupKeyForBinaryOperator BO_And = strOperatorAnd"
| "GetLookupKeyForBinaryOperator BO_Equal = strOperatorEqual"
| "GetLookupKeyForBinaryOperator BO_LessThan = strOperatorLessThan"
| "GetLookupKeyForBinaryOperator BO_LessEqual = strOperatorLessEqual"
| "GetLookupKeyForBinaryOperator BO_GreaterThan = strOperatorGreaterThan"
| "GetLookupKeyForBinaryOperator BO_GreaterEqual = strOperatorGreaterEqual"
| "GetLookupKeyForBinaryOperator BO_Unequal = strOperatorUnequal"
| "GetLookupKeyForBinaryOperator BO_TildeUnequal = strOperatorTildeUnequal"
| "GetLookupKeyForBinaryOperator BO_LeftShift = strOperatorLeftShift"
| "GetLookupKeyForBinaryOperator BO_RightShift = strOperatorRightShift"
| "GetLookupKeyForBinaryOperator BO_BitwiseXor = strOperatorBitwiseXor"
| "GetLookupKeyForBinaryOperator BO_Slash = strOperatorSlash"
| "GetLookupKeyForBinaryOperator BO_LogicalAnd = strOperatorLogicalAnd"
| "GetLookupKeyForBinaryOperator BO_LogicalOr = strOperatorLogicalOr"
| "GetLookupKeyForBinaryOperator BO_KeywordAnd = strOperatorKeywordAnd"
| "GetLookupKeyForBinaryOperator BO_KeywordOr = strOperatorKeywordOr"
| "GetLookupKeyForBinaryOperator BO_ValueColon = strOperatorValueColon"
| "GetLookupKeyForBinaryOperator BO_AtColon = strOperatorAtColon"
| "GetLookupKeyForBinaryOperator BO_CharAtColon = strOperatorCharAtColon"

definition BinOpCallMethodNotFoundSlowPath :: "prim_env \<Rightarrow> val \<Rightarrow> val \<Rightarrow> SOMUniquedString \<Rightarrow> outcome vmop" where
  "BinOpCallMethodNotFoundSlowPath E lhs rhs meth = HandleMethodNotFoundImpl E lhs meth [rhs]"

text \<open>\<open>OpGeneralSlowPath\<close> of the three arities: look the selector up and call the method.\<close>

definition op_slow_path :: "prim_env \<Rightarrow> StrMember \<Rightarrow> val \<Rightarrow> val list \<Rightarrow> outcome vmop" where
  "op_slow_path E key self args =
     bindS (GetSOMClassOfAny self) (\<lambda>cl.
     bindS (getS (\<lambda>V. m_str V key)) (\<lambda>meth.
     bindS (class_method cl meth) (\<lambda>f.
     case f of
       None \<Rightarrow> HandleMethodNotFoundImpl E self meth args
     | Some fn \<Rightarrow> retS (Call fn (self # args) TrivialReturnCont))))"

definition BinOpGeneralSlowPath :: "prim_env \<Rightarrow> BinOpKind \<Rightarrow> val \<Rightarrow> val \<Rightarrow> outcome vmop" where
  "BinOpGeneralSlowPath E kind lhs rhs = op_slow_path E (GetLookupKeyForBinaryOperator kind) lhs [rhs]"

subsection \<open>Arithmetic\<close>

definition DoSOMIntegerPercent :: "u32 \<Rightarrow> u32 \<Rightarrow> u32 res" where
  "DoSOMIntegerPercent lhs rhs =
     bindR (rem32 lhs rhs) (\<lambda>result.
     Inr (if result \<noteq> 0 \<and> (result <s 0) \<noteq> (rhs <s 0) then result + rhs else result))"

abbreviation ret_int :: "u32 res \<Rightarrow> val option res" where
  "ret_int r \<equiv> bindR r (\<lambda>i. Inr (Some (TInt i)))"

fun DoIntegerIntegerArithOp :: "BinOpKind \<Rightarrow> u32 \<Rightarrow> u32 \<Rightarrow> val option res" where
  "DoIntegerIntegerArithOp BO_Plus l r = Inr (Some (TInt (l + r)))"
| "DoIntegerIntegerArithOp BO_Minus l r = Inr (Some (TInt (l - r)))"
| "DoIntegerIntegerArithOp BO_Star l r = Inr (Some (TInt (l * r)))"
| "DoIntegerIntegerArithOp BO_SlashSlash l r = Inr (Some (TDouble (dbl_div (i2d l) (i2d r))))"
| "DoIntegerIntegerArithOp BO_Percent l r = ret_int (DoSOMIntegerPercent l r)"
| "DoIntegerIntegerArithOp BO_And l r = Inr (Some (TInt (l AND r)))"
| "DoIntegerIntegerArithOp BO_Equal l r = Inr (Some (TBool (l = r)))"
| "DoIntegerIntegerArithOp BO_LessThan l r = Inr (Some (TBool (l <s r)))"
| "DoIntegerIntegerArithOp BO_LessEqual l r = Inr (Some (TBool (l \<le>s r)))"
| "DoIntegerIntegerArithOp BO_GreaterThan l r = Inr (Some (TBool (r <s l)))"
| "DoIntegerIntegerArithOp BO_GreaterEqual l r = Inr (Some (TBool (r \<le>s l)))"
| "DoIntegerIntegerArithOp BO_Unequal l r = Inr (Some (TBool (l \<noteq> r)))"
| "DoIntegerIntegerArithOp BO_TildeUnequal l r = Inr (Some (TBool (l \<noteq> r)))"
| "DoIntegerIntegerArithOp BO_LeftShift l r = (if unat r < 32 then Inr (Some (TInt (push_bit (unat r) l))) else Inl Undefined)"
| "DoIntegerIntegerArithOp BO_RightShift l r = (if unat r < 32 then Inr (Some (TInt (signed_drop_bit (unat r) l))) else Inl Undefined)"
| "DoIntegerIntegerArithOp BO_BitwiseXor l r = Inr (Some (TInt (l XOR r)))"
| "DoIntegerIntegerArithOp BO_Slash l r = ret_int (div32 l r)"
| "DoIntegerIntegerArithOp _ l r = Inr None"

fun DoIntegerDoubleArithOp :: "BinOpKind \<Rightarrow> u32 \<Rightarrow> dbl \<Rightarrow> val option res" where
  "DoIntegerDoubleArithOp BO_Plus l r = Inr (Some (TDouble (dbl_add (i2d l) r)))"
| "DoIntegerDoubleArithOp BO_Minus l r = Inr (Some (TDouble (dbl_sub (i2d l) r)))"
| "DoIntegerDoubleArithOp BO_Star l r = Inr (Some (TDouble (dbl_mul (i2d l) r)))"
| "DoIntegerDoubleArithOp BO_SlashSlash l r = Inr (Some (TDouble (dbl_div (i2d l) r)))"
| "DoIntegerDoubleArithOp BO_Percent l r = ret_int (bindR (d2i32 r) (DoSOMIntegerPercent l))"
| "DoIntegerDoubleArithOp BO_Equal l r = Inr (Some (TBool (dbl_eq (i2d l) r)))"
| "DoIntegerDoubleArithOp BO_LessThan l r = Inr (Some (TBool (dbl_lt (i2d l) r)))"
| "DoIntegerDoubleArithOp BO_LessEqual l r = Inr (Some (TBool (dbl_le (i2d l) r)))"
| "DoIntegerDoubleArithOp BO_GreaterThan l r = Inr (Some (TBool (dbl_lt r (i2d l))))"
| "DoIntegerDoubleArithOp BO_GreaterEqual l r = Inr (Some (TBool (dbl_le r (i2d l))))"
| "DoIntegerDoubleArithOp BO_Unequal l r = Inr (Some (TBool (\<not> dbl_eq (i2d l) r)))"
| "DoIntegerDoubleArithOp BO_TildeUnequal l r = Inr (Some (TBool (\<not> dbl_eq (i2d l) r)))"
| "DoIntegerDoubleArithOp BO_Slash l r = ret_int (bindR (d2i32 r) (div32 l))"
| "DoIntegerDoubleArithOp _ l r = Inr None"

fun DoDoubleDoubleArithOp :: "BinOpKind \<Rightarrow> dbl \<Rightarrow> dbl \<Rightarrow> val option res" where
  "DoDoubleDoubleArithOp BO_Plus l r = Inr (Some (TDouble (dbl_add l r)))"
| "DoDoubleDoubleArithOp BO_Minus l r = Inr (Some (TDouble (dbl_sub l r)))"
| "DoDoubleDoubleArithOp BO_Star l r = Inr (Some (TDouble (dbl_mul l r)))"
| "DoDoubleDoubleArithOp BO_SlashSlash l r = Inr (Some (TDouble (dbl_div l r)))"
| "DoDoubleDoubleArithOp BO_Percent l r =
     bindR (dbl_to_signed 64 l) (\<lambda>a. bindR (dbl_to_signed 64 r) (\<lambda>b.
     bindR (rem64 a b) (\<lambda>m. Inr (Some (TDouble (dbl_of_int m))))))"
| "DoDoubleDoubleArithOp BO_Equal l r = Inr (Some (TBool (dbl_eq l r)))"
| "DoDoubleDoubleArithOp BO_LessThan l r = Inr (Some (TBool (dbl_lt l r)))"
| "DoDoubleDoubleArithOp BO_LessEqual l r = Inr (Some (TBool (dbl_le l r)))"
| "DoDoubleDoubleArithOp BO_GreaterThan l r = Inr (Some (TBool (dbl_lt r l)))"
| "DoDoubleDoubleArithOp BO_GreaterEqual l r = Inr (Some (TBool (dbl_le r l)))"
| "DoDoubleDoubleArithOp BO_Unequal l r = Inr (Some (TBool (\<not> dbl_eq l r)))"
| "DoDoubleDoubleArithOp BO_TildeUnequal l r = Inr (Some (TBool (\<not> dbl_eq l r)))"
| "DoDoubleDoubleArithOp _ l r = Inr None"

definition DoIntegerArithOp :: "BinOpKind \<Rightarrow> u32 \<Rightarrow> val \<Rightarrow> val option res" where
  "DoIntegerArithOp kind lhs rhs =
     (case rhs of
        TInt r \<Rightarrow> DoIntegerIntegerArithOp kind lhs r
      | TDouble d \<Rightarrow> DoIntegerDoubleArithOp kind lhs d
      | _ \<Rightarrow> if kind = BO_Equal then Inr (Some (TBool False)) else Inl Undefined)"

definition DoDoubleArithOp :: "BinOpKind \<Rightarrow> dbl \<Rightarrow> val \<Rightarrow> val option res" where
  "DoDoubleArithOp kind lhs rhs =
     (case rhs of
        TDouble d \<Rightarrow> DoDoubleDoubleArithOp kind lhs d
      | TInt r \<Rightarrow> DoDoubleDoubleArithOp kind lhs (i2d r)
      | _ \<Rightarrow> Inl Undefined)"

text \<open>The string case of \<open>=\<close>: identity, then type, length, the one-character shortcut and \<open>memcmp\<close>.\<close>

definition string_equal_fast :: "val \<Rightarrow> string \<Rightarrow> val \<Rightarrow> val vmop" where
  "string_equal_fast lhs l rhs =
     (if lhs = rhs then retS (TBool True)
      else case rhs of
             TObj b \<Rightarrow>
               bindS (the_obj b) (\<lambda>y.
               case o_payload y of
                 StringData r \<Rightarrow>
                   retS (TBool (if length r \<noteq> length l then False
                                else if length r = 1 then l ! 0 = r ! 0 else l = r))
               | _ \<Rightarrow> retS (TBool False))
           | _ \<Rightarrow> retS (TBool False))"

definition lift_fast :: "val option res \<Rightarrow> val option vmop" where
  "lift_fast r = liftS r"

definition integer_only :: "BinOpKind \<Rightarrow> bool" where
  "integer_only kind \<longleftrightarrow> kind \<in> {BO_And, BO_LeftShift, BO_RightShift, BO_BitwiseXor, BO_Slash}"

definition arith_fast_path :: "BinOpKind \<Rightarrow> val \<Rightarrow> val \<Rightarrow> val option vmop" where
  "arith_fast_path kind lhs rhs =
     (case lhs of
        TInt l \<Rightarrow> lift_fast (DoIntegerArithOp kind l rhs)
      | TDouble d \<Rightarrow> if integer_only kind then retS None else lift_fast (DoDoubleArithOp kind d rhs)
      | TObj a \<Rightarrow>
          if kind = BO_Equal
          then bindS (the_obj a) (\<lambda>x.
               case o_payload x of
                 StringData l \<Rightarrow> bindS (string_equal_fast lhs l rhs) (\<lambda>v. retS (Some v))
               | _ \<Rightarrow> retS None)
          else retS None
      | _ \<Rightarrow> retS None)"

definition ArithBinOpImpl :: "prim_env \<Rightarrow> BinOpKind \<Rightarrow> val \<Rightarrow> val \<Rightarrow> outcome vmop" where
  "ArithBinOpImpl E kind lhs rhs =
     bindS (arith_fast_path kind lhs rhs) (\<lambda>r.
     case r of Some v \<Rightarrow> retS (Ret v) | None \<Rightarrow> BinOpGeneralSlowPath E kind lhs rhs)"

definition OperatorEqualEqualImpl :: "val \<Rightarrow> val \<Rightarrow> val" where
  "OperatorEqualEqualImpl lhs rhs = TBool (lhs = rhs)"

definition BooleanBinOpImpl :: "prim_env \<Rightarrow> BinOpKind \<Rightarrow> val \<Rightarrow> val \<Rightarrow> outcome vmop" where
  "BooleanBinOpImpl E kind lhs rhs =
     (case lhs of
        TBool b \<Rightarrow>
          if is_heap_entity rhs then BinOpGeneralSlowPath E kind lhs rhs
          else if kind = BO_LogicalAnd \<or> kind = BO_KeywordAnd
          then retS (Ret (if b then rhs else lhs))
          else retS (Ret (if \<not> b then rhs else lhs))
      | _ \<Rightarrow> BinOpGeneralSlowPath E kind lhs rhs)"

subsection \<open>Elements of arrays and strings, and blocks\<close>

text \<open>The bounds check, done in unsigned arithmetic so that 0 and negative indices wrap to large ones.\<close>

definition out_of_range :: "u32 \<Rightarrow> nat \<Rightarrow> bool" where
  "out_of_range idx len \<longleftrightarrow> unat (idx - 1) \<ge> len"

definition ArrayAtOutOfRangeSlowPath :: "'a vmop" where
  "ArrayAtOutOfRangeSlowPath = failS (Aborted ''Array access out of bound'')"

definition StringCharAtOutOfRangeSlowPath :: "'a vmop" where
  "StringCharAtOutOfRangeSlowPath = failS (Aborted ''String charAt out of bound'')"

definition InitSingleCharStringSlowPath :: "prim_env \<Rightarrow> char \<Rightarrow> val vmop" where
  "InitSingleCharStringSlowPath E cc =
     bindS (getS (\<lambda>V. m_cachedSingleCharStrings V (of_char cc))) (\<lambda>c.
     bindS (liftS (TestAssert (e_tb E) (c = None))) (\<lambda>_.
     bindS (AllocateString [cc]) (\<lambda>r.
     bindS (modS (\<lambda>V. V\<lparr>m_cachedSingleCharStrings := (m_cachedSingleCharStrings V)(of_char cc \<mapsto> r)\<rparr>)) (\<lambda>_.
     retS (TObj r)))))"

text \<open>A block applied to arguments, when its kind is one of the two given.\<close>

definition block_fast :: "SOMDetailEntityType \<Rightarrow> SOMDetailEntityType \<Rightarrow> val \<Rightarrow> val list \<Rightarrow> outcome option vmop" where
  "block_fast ty immTy v args =
     (case v of
        TFun f \<Rightarrow>
          bindS (the_fun f) (\<lambda>fo.
          if fo_type fo = ty \<or> fo_type fo = immTy
          then bindS (block_self (fo_type fo = immTy) fo) (\<lambda>self. retS (Some (Call f (self # args) TrivialReturnCont)))
          else retS None)
      | _ \<Rightarrow> retS None)"

definition at_fast :: "val \<Rightarrow> val \<Rightarrow> outcome option vmop" where
  "at_fast lhs rhs =
     (case lhs of
        TObj a \<Rightarrow>
          bindS (the_obj a) (\<lambda>x.
          case o_payload x of
            ArrayData vs \<Rightarrow>
              bindS (liftS (as_int rhs)) (\<lambda>idx.
              if out_of_range idx (length vs) then ArrayAtOutOfRangeSlowPath
              else retS (Some (Ret (vs ! unat (idx - 1)))))
          | _ \<Rightarrow> retS None)
      | _ \<Rightarrow> retS None)"

definition charAt_fast :: "prim_env \<Rightarrow> val \<Rightarrow> val \<Rightarrow> outcome option vmop" where
  "charAt_fast E lhs rhs =
     (case lhs of
        TObj a \<Rightarrow>
          bindS (the_obj a) (\<lambda>x.
          case o_payload x of
            StringData s \<Rightarrow>
              bindS (liftS (as_int rhs)) (\<lambda>idx.
              if out_of_range idx (length s) then StringCharAtOutOfRangeSlowPath
              else let cc = s ! unat (idx - 1)
                   in bindS (getS (\<lambda>V. m_cachedSingleCharStrings V (of_char cc))) (\<lambda>c.
                      bindS (case c of Some r \<Rightarrow> retS (TObj r) | None \<Rightarrow> InitSingleCharStringSlowPath E cc) (\<lambda>v.
                      retS (Some (Ret v)))))
          | _ \<Rightarrow> retS None)
      | _ \<Rightarrow> retS None)"

text \<open>The general part of the \<open>Misc\<close> operators: a cached lookup on the class of a heap entity.\<close>

definition misc_send ::
  "(icache \<Rightarrow> bool) \<Rightarrow> prim_env \<Rightarrow> icache \<Rightarrow> StrMember \<Rightarrow> val \<Rightarrow> val list \<Rightarrow> (outcome \<times> icache) vmop" where
  "misc_send adm E ic key self args =
     bindS (getS (\<lambda>V. m_str V key)) (\<lambda>meth.
     bindS (LookupObjectMethodImpl adm None ic self meth) (\<lambda>(r, ic').
     bindS (finish_call (HandleMethodNotFoundImpl E self meth args) (op_slow_path E key self args) (self # args) r) (\<lambda>oc.
     retS (oc, ic'))))"

definition MiscBinOpImpl ::
  "(icache \<Rightarrow> bool) \<Rightarrow> prim_env \<Rightarrow> icache \<Rightarrow> BinOpKind \<Rightarrow> val \<Rightarrow> val \<Rightarrow> (outcome \<times> icache) vmop" where
  "MiscBinOpImpl adm E ic kind lhs rhs =
     (if is_heap_entity lhs
      then bindS (if kind = BO_ValueColon then block_fast SOM_BlockOneArg SOM_BlockOneArgImmSelf lhs [rhs]
                  else if kind = BO_AtColon then at_fast lhs rhs
                  else charAt_fast E lhs rhs) (\<lambda>r.
           case r of
             Some oc \<Rightarrow> retS (oc, ic)
           | None \<Rightarrow> misc_send adm E ic (GetLookupKeyForBinaryOperator kind) lhs [rhs])
      else bindS (BinOpGeneralSlowPath E kind lhs rhs) (\<lambda>oc. retS (oc, ic)))"

subsection \<open>Unary operators\<close>

datatype UnaryOpKind = UO_Abs | UO_Sqrt | UO_Value | UO_Not | UO_Length

fun GetLookupKeyForUnaryOperator :: "UnaryOpKind \<Rightarrow> StrMember" where
  "GetLookupKeyForUnaryOperator UO_Abs = strOperatorAbs"
| "GetLookupKeyForUnaryOperator UO_Sqrt = strOperatorSqrt"
| "GetLookupKeyForUnaryOperator UO_Value = strOperatorValue"
| "GetLookupKeyForUnaryOperator UO_Not = strOperatorNot"
| "GetLookupKeyForUnaryOperator UO_Length = strOperatorLength"

definition UnaryOpCallMethodNotFoundSlowPath :: "prim_env \<Rightarrow> val \<Rightarrow> SOMUniquedString \<Rightarrow> outcome vmop" where
  "UnaryOpCallMethodNotFoundSlowPath E v meth = HandleMethodNotFoundImpl E v meth []"

definition UnaryOpGeneralSlowPath :: "prim_env \<Rightarrow> UnaryOpKind \<Rightarrow> val \<Rightarrow> outcome vmop" where
  "UnaryOpGeneralSlowPath E kind v = op_slow_path E (GetLookupKeyForUnaryOperator kind) v []"

definition ArithUnaryOpImpl :: "prim_env \<Rightarrow> UnaryOpKind \<Rightarrow> val \<Rightarrow> outcome vmop" where
  "ArithUnaryOpImpl E kind v =
     (if kind = UO_Abs
      then (case v of
              TInt i \<Rightarrow> retS (Ret (TInt (if i <s 0 then - i else i)))
            | TDouble d \<Rightarrow> retS (Ret (TDouble (if dbl_lt d 0 then dbl_sub 0 d else d)))
            | _ \<Rightarrow> UnaryOpGeneralSlowPath E kind v)
      else (case v of
              TDouble d \<Rightarrow> retS (Ret (TDouble (dbl_sqrt d)))
            | TInt i \<Rightarrow>
                let r = dbl_sqrt (i2d i)
                in if dbl_integral r then bindS (liftS (d2i32 r)) (\<lambda>j. retS (Ret (TInt j))) else retS (Ret (TDouble r))
            | _ \<Rightarrow> UnaryOpGeneralSlowPath E kind v))"

definition IsNilNotNilOpImpl :: "bool \<Rightarrow> val \<Rightarrow> val" where
  "IsNilNotNilOpImpl forIsNil v = TBool ((v = TNil) = forIsNil)"

definition length_fast :: "val \<Rightarrow> outcome option vmop" where
  "length_fast v =
     (case v of
        TObj a \<Rightarrow>
          bindS (the_obj a) (\<lambda>x.
          case o_payload x of
            ArrayData vs \<Rightarrow> retS (Some (Ret (TInt (of_nat (length vs)))))
          | StringData s \<Rightarrow> retS (Some (Ret (TInt (of_nat (length s)))))
          | Fields _ \<Rightarrow> retS None)
      | _ \<Rightarrow> retS None)"

definition MiscUnaryOpImpl :: "(icache \<Rightarrow> bool) \<Rightarrow> prim_env \<Rightarrow> icache \<Rightarrow> UnaryOpKind \<Rightarrow> val \<Rightarrow> (outcome \<times> icache) vmop" where
  "MiscUnaryOpImpl adm E ic kind v =
     (case (kind, v) of
        (UO_Not, TBool b) \<Rightarrow> retS (Ret (TBool (\<not> b)), ic)
      | _ \<Rightarrow>
          if is_heap_entity v
          then bindS (if kind = UO_Value then block_fast SOM_BlockNoArg SOM_BlockNoArgImmSelf v []
                      else if kind = UO_Length then length_fast v else retS None) (\<lambda>r.
               case r of
                 Some oc \<Rightarrow> retS (oc, ic)
               | None \<Rightarrow> misc_send adm E ic (GetLookupKeyForUnaryOperator kind) v [])
          else if kind = UO_Value then retS (Ret v, ic)
          else bindS (UnaryOpGeneralSlowPath E kind v) (\<lambda>oc. retS (oc, ic)))"

subsection \<open>Ternary operators\<close>

datatype TernaryOpKind = TO_AtPut | TO_ValueWith

fun GetLookupKeyForTernaryOperator :: "TernaryOpKind \<Rightarrow> StrMember" where
  "GetLookupKeyForTernaryOperator TO_AtPut = strOperatorAtPut"
| "GetLookupKeyForTernaryOperator TO_ValueWith = strOperatorValueWith"

definition TernaryOpCallMethodNotFoundSlowPath :: "prim_env \<Rightarrow> val \<Rightarrow> val \<Rightarrow> val \<Rightarrow> SOMUniquedString \<Rightarrow> outcome vmop" where
  "TernaryOpCallMethodNotFoundSlowPath E v arg1 arg2 meth = HandleMethodNotFoundImpl E v meth [arg1, arg2]"

definition TernaryOpGeneralSlowPath :: "prim_env \<Rightarrow> TernaryOpKind \<Rightarrow> val \<Rightarrow> val \<Rightarrow> val \<Rightarrow> outcome vmop" where
  "TernaryOpGeneralSlowPath E kind v arg1 arg2 = op_slow_path E (GetLookupKeyForTernaryOperator kind) v [arg1, arg2]"

definition ArrayWriteOutOfBoundSlowPath :: "'a vmop" where
  "ArrayWriteOutOfBoundSlowPath = failS (Aborted ''Array write out of bound'')"

definition at_put_fast :: "val \<Rightarrow> val \<Rightarrow> val \<Rightarrow> outcome option vmop" where
  "at_put_fast v arg1 arg2 =
     (case v of
        TObj a \<Rightarrow>
          bindS (the_obj a) (\<lambda>x.
          case o_payload x of
            ArrayData vs \<Rightarrow>
              bindS (liftS (as_int arg1)) (\<lambda>idx.
              if out_of_range idx (length vs) then ArrayWriteOutOfBoundSlowPath
              else bindS (set_obj a (x\<lparr>o_payload := ArrayData (vs[unat (idx - 1) := arg2])\<rparr>)) (\<lambda>_. retS (Some (Ret v))))
          | _ \<Rightarrow> retS None)
      | _ \<Rightarrow> retS None)"

definition MiscTernaryOpImpl :: "prim_env \<Rightarrow> TernaryOpKind \<Rightarrow> val \<Rightarrow> val \<Rightarrow> val \<Rightarrow> outcome vmop" where
  "MiscTernaryOpImpl E kind v arg1 arg2 =
     bindS (if kind = TO_AtPut then at_put_fast v arg1 arg2
            else block_fast SOM_BlockTwoArgs SOM_BlockTwoArgsImmSelf v [arg1, arg2]) (\<lambda>r.
     case r of Some oc \<Rightarrow> retS oc | None \<Rightarrow> TernaryOpGeneralSlowPath E kind v arg1 arg2)"

subsection \<open>The fast paths are the primitives\<close>

text \<open>The arithmetic operators and their selectors.\<close>

definition arith_kinds :: "(BinOpKind \<times> string) list" where
  "arith_kinds =
     [(BO_Plus, ''+''), (BO_Minus, ''-''), (BO_Star, ''*''), (BO_SlashSlash, ''//''), (BO_Percent, ''%''), (BO_And, ''&''),
      (BO_Equal, ''=''), (BO_LessThan, ''<''), (BO_LessEqual, ''<=''), (BO_GreaterThan, ''>''), (BO_GreaterEqual, ''>=''),
      (BO_Unequal, ''<>''), (BO_TildeUnequal, ''~=''), (BO_LeftShift, ''<<''), (BO_RightShift, ''>>>''),
      (BO_BitwiseXor, ''bitXor:''), (BO_Slash, ''/'')]"

fun integer_prim :: "BinOpKind \<Rightarrow> val list \<Rightarrow> val res" where
  "integer_prim BO_Plus = integer_add" | "integer_prim BO_Minus = integer_minus" | "integer_prim BO_Star = integer_star"
| "integer_prim BO_SlashSlash = integer_slashslash" | "integer_prim BO_Percent = integer_percent"
| "integer_prim BO_And = integer_and" | "integer_prim BO_Equal = integer_equal" | "integer_prim BO_LessThan = integer_lowerthan"
| "integer_prim BO_LessEqual = integer_lowerequal" | "integer_prim BO_GreaterThan = integer_greaterthan"
| "integer_prim BO_GreaterEqual = integer_greaterequal" | "integer_prim BO_Unequal = integer_unequal"
| "integer_prim BO_TildeUnequal = integer_unequal" | "integer_prim BO_LeftShift = integer_leftshift"
| "integer_prim BO_RightShift = integer_unsignedrightshift" | "integer_prim BO_BitwiseXor = integer_bitwisexor"
| "integer_prim BO_Slash = integer_slash" | "integer_prim _ = (\<lambda>_. Inl Undefined)"

fun double_prim :: "BinOpKind \<Rightarrow> (val list \<Rightarrow> val res) option" where
  "double_prim BO_Plus = Some double_add" | "double_prim BO_Minus = Some double_sub" | "double_prim BO_Star = Some double_star"
| "double_prim BO_SlashSlash = Some double_slashslash" | "double_prim BO_Percent = Some double_percent"
| "double_prim BO_Equal = Some double_equal" | "double_prim BO_LessThan = Some double_lowerthan"
| "double_prim BO_LessEqual = Some double_lowerequal" | "double_prim BO_GreaterThan = Some double_greaterthan"
| "double_prim BO_GreaterEqual = Some double_greaterequal" | "double_prim BO_Unequal = Some double_unequal"
| "double_prim BO_TildeUnequal = Some double_unequal" | "double_prim _ = None"

lemma find_integer_prim:
  "list_all (\<lambda>(kind, sel). find_primitive ''Integer'' sel False = Some (resf (integer_prim kind))) arith_kinds"
  by (simp add: arith_kinds_def find_primitive_def primitive_entries_def Integer_primitives_def)

lemma find_double_prim:
  "list_all (\<lambda>(kind, sel). find_primitive ''Double'' sel False = map_option (\<lambda>p. resf p) (double_prim kind)) arith_kinds"
proof -
  have skip: "map_of (map (\<lambda>(c, m, s, f). ((s, c, m), f)) xs) (False, ''Double'', sel) = None"
    if "\<forall>x \<in> set xs. fst x \<noteq> ''Double''" for xs :: "prim_entry list" and sel
    using that by (force simp: map_of_eq_None_iff)
  have "\<forall>x \<in> set Integer_primitives. fst x \<noteq> ''Double''" "\<forall>x \<in> set Object_primitives. fst x \<noteq> ''Double''"
    "\<forall>x \<in> set Block_primitives. fst x \<noteq> ''Double''" "\<forall>x \<in> set System_primitives. fst x \<noteq> ''Double''"
    "\<forall>x \<in> set Array_primitives. fst x \<noteq> ''Double''"
    by (simp_all add: primitives_defs)
  note none = this [THEN skip]
  have "find_primitive ''Double'' sel False = map_of (map (\<lambda>(c, m, s, f). ((s, c, m), f)) Double_primitives) (False, ''Double'', sel)" for sel
    by (simp add: find_primitive_def primitive_entries_def none map_add_def split: option.splits)
  then show ?thesis by (simp add: arith_kinds_def Double_primitives_def)
qed

lemma find_string_equal: "find_primitive ''String'' ''='' False = Some (opf string_equal)"
  by (simp add: find_primitive_def primitives_defs)

lemma bindR_Some: "bindR r (\<lambda>x. Inr (Some (f x))) = map_sum id Some (bindR r (\<lambda>x. Inr (f x)))"
  by (cases r) simp_all

lemma map_sum_bindR: "map_sum id g (bindR r f) = bindR r (\<lambda>x. map_sum id g (f x))"
  by (cases r) simp_all

lemma DoSOMIntegerPercent_eq: "DoSOMIntegerPercent = percent32"
  by (simp add: fun_eq_iff DoSOMIntegerPercent_def percent32_def)

lemmas number_prim_defs = integer_add_def integer_minus_def integer_star_def integer_slashslash_def integer_percent_def
  integer_and_def integer_equal_def integer_lowerthan_def integer_lowerequal_def integer_greaterthan_def
  integer_greaterequal_def integer_unequal_def integer_leftshift_def integer_unsignedrightshift_def
  integer_bitwisexor_def integer_slash_def int_num_op_def int_int_op_def int_arg_def as_int_def GetArg_def
  double_add_def double_sub_def double_star_def double_slashslash_def double_percent_def double_equal_def
  double_lowerthan_def double_lowerequal_def double_greaterthan_def double_greaterequal_def double_unequal_def
  double_op_def double_arg_def as_double_def CoerceDouble_def

definition int_int_only :: "BinOpKind \<Rightarrow> bool" where
  "int_int_only kind \<longleftrightarrow> kind \<in> {BO_And, BO_LeftShift, BO_RightShift, BO_BitwiseXor}"

lemma DoIntegerArithOp_prim:
  assumes "kind \<in> fst ` set arith_kinds"
  shows "DoIntegerArithOp kind l rhs =
     (if int_int_only kind \<and> (\<exists>d. rhs = TDouble d) then Inr None else map_sum id Some (integer_prim kind [TInt l, rhs]))"
  using assms
  by (cases kind; cases rhs)
    (simp_all add: arith_kinds_def int_int_only_def DoIntegerArithOp_def number_prim_defs DoSOMIntegerPercent_eq map_sum_bindR
      bindR_assoc)

lemma DoDoubleArithOp_prim:
  assumes "double_prim kind = Some p"
  shows "DoDoubleArithOp kind d rhs = map_sum id Some (p [TDouble d, rhs])"
  using assms
  by (cases kind; cases rhs) (auto simp: DoDoubleArithOp_def number_prim_defs map_sum_bindR)

lemma op_slow_path_no_Ret: "op_slow_path E key self args V \<noteq> Inr (Ret v, V')"
  by (auto simp: op_slow_path_def HandleMethodNotFoundImpl_def elim!: bindS_InrE split: option.splits)

lemma string_equal_fast_prim:
  assumes "a < length (h_objs V)" and "o_payload (h_objs V ! a) = StringData l"
  shows "string_equal_fast (TObj a) l rhs V = string_equal [TObj a, rhs] V"
proof -
  have one: "length r = Suc 0 \<Longrightarrow> length l = Suc 0 \<Longrightarrow> l ! 0 = r ! 0 \<longleftrightarrow> l = r" for r :: string
    by (auto simp: length_Suc_conv)
  show ?thesis
    using assms one
    by (cases rhs) (auto simp: string_equal_fast_def string_equal_def prim_simps split: payload.splits)
qed

text \<open>C27. The arithmetic bytecodes agree with the standard library. For every arithmetic operator on an integer
  or double receiver, with any argument and in any state, the bytecode returns a value exactly when
  the primitive registered for the selector in class Integer or Double does, and it is the same
  value; an operator that class Double does not have as a primitive is sent as a message. On a string,
  \<open>=\<close> behaves as the primitive of class String.\<close>

theorem arith_operators_are_primitives:
  assumes "(kind, sel) \<in> set arith_kinds"
  shows "(\<exists>p. find_primitive ''Integer'' sel False = Some p \<and>
            (ArithBinOpImpl E kind (TInt l) rhs V = Inr (Ret v, V') \<longleftrightarrow> p E [TInt l, rhs] V = Inr (Ret v, V'))) \<and>
         (case find_primitive ''Double'' sel False of
            Some q \<Rightarrow> ArithBinOpImpl E kind (TDouble d) rhs V = q E [TDouble d, rhs] V
          | None \<Rightarrow> ArithBinOpImpl E kind (TDouble d) rhs V = BinOpGeneralSlowPath E kind (TDouble d) rhs V) \<and>
         (\<exists>q. find_primitive ''String'' ''='' False = Some q \<and>
            (a < length (h_objs V) \<and> (\<exists>s. o_payload (h_objs V ! a) = StringData s) \<longrightarrow>
             ArithBinOpImpl E BO_Equal (TObj a) rhs V = q E [TObj a, rhs] V))"
proof (intro conjI)
  have k: "kind \<in> fst ` set arith_kinds" using assms by force
  have int: "find_primitive ''Integer'' sel False = Some (resf (integer_prim kind))"
    and dbl: "find_primitive ''Double'' sel False = map_option (\<lambda>p. resf p) (double_prim kind)"
    using find_integer_prim find_double_prim assms by (auto simp: list_all_iff)
  have "ArithBinOpImpl E kind (TInt l) rhs V = Inr (Ret v, V') \<longleftrightarrow> resf (integer_prim kind) E [TInt l, rhs] V = Inr (Ret v, V')"
  proof (cases "int_int_only kind \<and> (\<exists>d. rhs = TDouble d)")
    case True
    then have "ArithBinOpImpl E kind (TInt l) rhs = BinOpGeneralSlowPath E kind (TInt l) rhs"
      by (intro ext) (simp add: ArithBinOpImpl_def arith_fast_path_def DoIntegerArithOp_prim [OF k] lift_fast_def)
    moreover have "integer_prim kind [TInt l, rhs] = Inl Undefined"
      using True by (auto simp: int_int_only_def number_prim_defs)
    ultimately show ?thesis by (simp add: BinOpGeneralSlowPath_def op_slow_path_no_Ret ret_val_def)
  next
    case False
    then have "DoIntegerArithOp kind l rhs = map_sum id Some (integer_prim kind [TInt l, rhs])"
      by (simp only: DoIntegerArithOp_prim [OF k] if_False)
    then show ?thesis
      by (cases "integer_prim kind [TInt l, rhs]")
        (simp_all add: ArithBinOpImpl_def arith_fast_path_def lift_fast_def ret_val_def)
  qed
  with int show "\<exists>p. find_primitive ''Integer'' sel False = Some p \<and>
      (ArithBinOpImpl E kind (TInt l) rhs V = Inr (Ret v, V') \<longleftrightarrow> p E [TInt l, rhs] V = Inr (Ret v, V'))" by simp
  show "case find_primitive ''Double'' sel False of
      Some q \<Rightarrow> ArithBinOpImpl E kind (TDouble d) rhs V = q E [TDouble d, rhs] V
    | None \<Rightarrow> ArithBinOpImpl E kind (TDouble d) rhs V = BinOpGeneralSlowPath E kind (TDouble d) rhs V"
  proof (cases "double_prim kind")
    case None
    then have "integer_only kind" using k by (cases kind) (simp_all add: integer_only_def arith_kinds_def)
    with None dbl show ?thesis by (simp add: ArithBinOpImpl_def arith_fast_path_def)
  next
    case (Some p)
    then have "\<not> integer_only kind" by (cases kind) (simp_all add: integer_only_def)
    with Some dbl DoDoubleArithOp_prim [OF Some, of d rhs] show ?thesis
      by (cases "p [TDouble d, rhs]") (simp_all add: ArithBinOpImpl_def arith_fast_path_def lift_fast_def ret_val_def)
  qed
  show "\<exists>q. find_primitive ''String'' ''='' False = Some q \<and>
      (a < length (h_objs V) \<and> (\<exists>s. o_payload (h_objs V ! a) = StringData s) \<longrightarrow>
       ArithBinOpImpl E BO_Equal (TObj a) rhs V = q E [TObj a, rhs] V)"
    by (auto simp: find_string_equal ArithBinOpImpl_def arith_fast_path_def the_obj_def bindS_app string_equal_fast_prim ret_val_def
        bindR_assoc split_def)
qed

theorem arith_operators_are_primitives_witness:
  "ArithBinOpImpl demo_prims BO_Percent (TInt (- 7)) (TInt 3) empty_vm = Inr (Ret (TInt 2), empty_vm)"
proof -
  have k: "(BO_Percent, ''%'') \<in> set arith_kinds" by (simp add: arith_kinds_def)
  have find: "find_primitive ''Integer'' ''%'' False = Some (resf integer_percent)"
    using find_integer_prim by (simp add: arith_kinds_def)
  have "integer_percent [TInt (- 7), TInt 3] = Inr (TInt 2)" by code_simp
  with arith_operators_are_primitives [OF k, of demo_prims "- 7" "TInt 3" empty_vm "TInt 2" empty_vm] find show ?thesis
    by (auto simp: ret_val_def)
qed

subsection \<open>Arrays and strings\<close>

lemma unat_minus_one: "int (unat (idx - 1)) = (sint idx - 1) mod 2 ^ 32" for idx :: u32
proof -
  have "word_of_int (sint idx - 1) = idx - 1" by simp
  moreover have "uint (word_of_int (sint idx - 1) :: u32) = (sint idx - 1) mod 2 ^ 32"
    by (simp only: uint_word_of_int take_bit_eq_mod) simp
  ultimately show ?thesis by simp
qed

lemma out_of_range_index_ok:
  assumes "n < 2 ^ 31"
  shows "out_of_range idx n \<longleftrightarrow> \<not> index_ok idx n" and "index_ok idx n \<Longrightarrow> unat (idx - 1) = nat (sint idx) - 1"
proof -
  note r = sint_range [of idx]
  have pos: "unat (idx - 1) = nat (sint idx - 1)" if "1 \<le> sint idx"
    using that r unat_minus_one [of idx] by (simp flip: nat_uint_eq)
  have neg: "n \<le> unat (idx - 1)" if "sint idx \<le> 0"
  proof -
    have "(sint idx - 1) mod 2 ^ 32 = (sint idx - 1 + 2 ^ 32) mod 2 ^ 32" by (rule mod_add_self2 [symmetric])
    also have "\<dots> = sint idx - 1 + 2 ^ 32" using that r by (intro mod_pos_pos_trivial) simp_all
    finally have "int n \<le> int (unat (idx - 1))" using r assms unat_minus_one [of idx] by simp
    then show ?thesis by (simp only: of_nat_le_iff)
  qed
  show "out_of_range idx n \<longleftrightarrow> \<not> index_ok idx n"
  proof (cases "1 \<le> sint idx")
    case True
    with pos show ?thesis by (auto simp: out_of_range_def index_ok_def)
  next
    case False
    with neg show ?thesis by (auto simp: out_of_range_def index_ok_def)
  qed
  show "unat (idx - 1) = nat (sint idx) - 1" if "index_ok idx n"
    using pos that by (simp add: index_ok_def nat_diff_distrib)
qed

text \<open>The strings kept for single characters: each has exactly that character.\<close>

definition char_cache_ok :: "VM \<Rightarrow> bool" where
  "char_cache_ok V \<longleftrightarrow> (\<forall>c a. m_cachedSingleCharStrings V (of_char c) = Some a \<longrightarrow>
     a < length (h_objs V) \<and> o_payload (h_objs V ! a) = StringData [c])"



end
