(* ===== verification/Branches.thy ===== *)
theory Branches
  imports PrimNumbers
begin

section \<open>Branches and the inlined for loop\<close>

text \<open>
  \<open>src/annotated/bytecodes/som_branch.cpp\<close>. A conditional branch gives whether it is taken, and the
  value it writes to its output slot, if it has one. The two for-loop bytecodes work on three
  consecutive stack slots: the counter, the limit, and the copy of the counter the body sees. \<open>tb\<close> is
  the build flavour of their assertions on the type of the limit.
\<close>

definition BranchIfTrueOrFalseImpl :: "bool \<Rightarrow> val \<Rightarrow> bool" where
  "BranchIfTrueOrFalseImpl ifTrue cond = (if ifTrue then cond = TBool True else cond = TBool False)"

definition CopyAndBranchIfTrueOrFalseImpl :: "bool \<Rightarrow> val \<Rightarrow> bool \<times> val" where
  "CopyAndBranchIfTrueOrFalseImpl ifTrue cond = ((if ifTrue then cond = TBool True else cond = TBool False), cond)"

definition StoreNilAndBranchIfTrueOrFalseImpl :: "bool \<Rightarrow> val \<Rightarrow> bool \<times> val" where
  "StoreNilAndBranchIfTrueOrFalseImpl ifTrue cond = ((if ifTrue then cond = TBool True else cond = TBool False), TNil)"

definition BranchIfNilOrNotNilImpl :: "bool \<Rightarrow> val \<Rightarrow> bool" where
  "BranchIfNilOrNotNilImpl ifNot cond = (if ifNot then \<not> (cond = TNil) else cond = TNil)"

definition CopyAndBranchIfNilOrNotNilImpl :: "bool \<Rightarrow> val \<Rightarrow> bool \<times> val" where
  "CopyAndBranchIfNilOrNotNilImpl ifNot cond = ((if ifNot then \<not> (cond = TNil) else cond = TNil), cond)"

subsection \<open>The for loop\<close>

definition in_limit :: "bool \<Rightarrow> u32 \<Rightarrow> u32 \<Rightarrow> bool" where
  "in_limit forDownto v limit = (if forDownto then limit \<le>s v else v \<le>s limit)"

definition in_limit_d :: "bool \<Rightarrow> dbl \<Rightarrow> dbl \<Rightarrow> bool" where
  "in_limit_d forDownto v limit = (if forDownto then dbl_le limit v else dbl_le v limit)"

definition is_int :: "val \<Rightarrow> bool" where
  "is_int v = (case v of TInt _ \<Rightarrow> True | _ \<Rightarrow> False)"

definition is_double :: "val \<Rightarrow> bool" where
  "is_double v = (case v of TDouble _ \<Rightarrow> True | _ \<Rightarrow> False)"

text \<open>Branches when the body must \<^emph>\<open>not\<close> be executed; the output slot gets the start value.\<close>

definition CheckForLoopStartCondImpl :: "bool \<Rightarrow> bool \<Rightarrow> val \<Rightarrow> val \<Rightarrow> (bool \<times> val) res" where
  "CheckForLoopStartCondImpl tb forDownto v limit =
     (case v of
        TInt i \<Rightarrow>
          bindR (TestAssert tb (is_int limit)) (\<lambda>_.
          bindR (as_int limit) (\<lambda>l. Inr (\<not> in_limit forDownto i l, v)))
      | _ \<Rightarrow>
          bindR (TestAssert tb (is_double limit)) (\<lambda>_.
          bindR (as_double v) (\<lambda>d.
          bindR (as_double limit) (\<lambda>l. Inr (\<not> in_limit_d forDownto d l, v)))))"

text \<open>Branches back when the body must be executed again; \<open>base\<close> is the index of the counter. The counter is a signed
  32-bit integer: stepping it beyond the largest or the smallest integer is undefined behaviour.\<close>

definition ForLoopStepImpl :: "bool \<Rightarrow> bool \<Rightarrow> val list \<Rightarrow> nat \<Rightarrow> (bool \<times> val list) res" where
  "ForLoopStepImpl tb forDownto st base =
     (if length st \<le> base + 2 then Inl OutOfRange else
      let v = st ! base; limit = st ! (base + 1) in
      case v of
        TInt i \<Rightarrow>
          bindR (TestAssert tb (is_int limit)) (\<lambda>_.
          if (if forDownto then sint i = - (2 ^ 31) else sint i = 2 ^ 31 - 1) then Inl Undefined else
          let nxt = (if forDownto then i - 1 else i + 1); st' = st[base := TInt nxt, base + 2 := TInt nxt]
          in bindR (as_int limit) (\<lambda>l. Inr (in_limit forDownto nxt l, st')))
      | _ \<Rightarrow>
          bindR (TestAssert tb (is_double limit)) (\<lambda>_.
          bindR (as_double v) (\<lambda>d.
          let nxt = (if forDownto then dbl_sub d (dbl_of_int 1) else dbl_add d (dbl_of_int 1)); st' = st[base := TDouble nxt, base + 2 := TDouble nxt]
          in bindR (as_double limit) (\<lambda>l. Inr (in_limit_d forDownto nxt l, st')))))"

text \<open>
  The loop the compiler emits around them: the start value and the limit are in the first two slots;
  the check copies the start value to the third; after every execution of the body (which sees the
  third slot) the step decides whether to branch back. \<open>for_iterations\<close> collects what the body sees, with the error that
  ends the loop, if one does; a body may change its own slot, so the step must not depend on it (\<open>body\<close> is what it leaves there).
\<close>

fun for_body :: "bool \<Rightarrow> bool \<Rightarrow> (val \<Rightarrow> val) \<Rightarrow> nat \<Rightarrow> val list \<Rightarrow> val list \<times> vm_error option" where
  "for_body tb forDownto body 0 st = ([], Some OutOfFuel)"
| "for_body tb forDownto body (Suc n) st =
     (let seen = st ! 2 in
      case ForLoopStepImpl tb forDownto (st[2 := body seen]) 0 of
        Inl err \<Rightarrow> ([seen], Some err)
      | Inr (again, st') \<Rightarrow> if again then map_prod ((#) seen) id (for_body tb forDownto body n st') else ([seen], None))"

definition for_iterations :: "bool \<Rightarrow> bool \<Rightarrow> (val \<Rightarrow> val) \<Rightarrow> nat \<Rightarrow> val \<Rightarrow> val \<Rightarrow> val list \<times> vm_error option" where
  "for_iterations tb forDownto body n start limit =
     (case CheckForLoopStartCondImpl tb forDownto start limit of
        Inl err \<Rightarrow> ([], Some err)
      | Inr (skip, v) \<Rightarrow> if skip then ([], None) else for_body tb forDownto body n [start, limit, v])"

lemma sint_step:
  "sint (i :: u32) < 2 ^ 31 - 1 \<Longrightarrow> sint (i + 1) = sint i + 1"
  "- (2 ^ 31) < sint (i :: u32) \<Longrightarrow> sint (i - 1) = sint i - 1"
proof -
  have w: "word_of_int (sint i) = i" by simp
  show "sint (i + 1) = sint i + 1" if "sint i < 2 ^ 31 - 1"
    using sint_of_int [of "sint i + 1"] sint_range [of i] that by simp
  show "sint (i - 1) = sint i - 1" if "- (2 ^ 31) < sint i"
    using sint_of_int [of "sint i - 1"] sint_range [of i] that by simp
qed

lemmas for_step_simps = ForLoopStepImpl_def is_int_def as_int_def in_limit_def word_sle_eq TestAssert_def Let_def

lemma for_body_up:
  assumes "sint i \<le> sint l" and "n > nat (sint l - sint i)"
  shows "for_body tb False body n [TInt i, TInt l, TInt i] =
           (map (\<lambda>k. TInt (word_of_int k)) [sint i .. sint l], if sint l = 2 ^ 31 - 1 then Some Undefined else None)"
  using assms
proof (induction n arbitrary: i)
  case (Suc n)
  have upto: "[sint i .. sint l] = sint i # [sint i + 1 .. sint l]" using Suc.prems(1) by (simp add: upto_rec1)
  show ?case
  proof (cases "sint i = sint l")
    case True
    then have "i = l" by (rule signed_word_eqI)
    then show ?thesis using upto sint_step(1) [of i] sint_range [of i] by (auto simp: for_step_simps)
  next
    case False
    then have step: "sint (i + 1) = sint i + 1" "sint i < 2 ^ 31 - 1"
      using Suc.prems sint_range [of l] by (auto intro!: sint_step)
    then have "for_body tb False body n [TInt (i + 1), TInt l, TInt (i + 1)] =
        (map (\<lambda>k. TInt (word_of_int k)) [sint i + 1 .. sint l], if sint l = 2 ^ 31 - 1 then Some Undefined else None)"
      using Suc.IH [of "i + 1"] Suc.prems False by simp
    then show ?thesis using False Suc.prems(1) upto step by (simp add: for_step_simps)
  qed
qed simp

lemma for_body_down:
  assumes "sint l \<le> sint i" and "n > nat (sint i - sint l)"
  shows "for_body tb True body n [TInt i, TInt l, TInt i] =
           (map (\<lambda>k. TInt (word_of_int k)) (rev [sint l .. sint i]), if sint l = - (2 ^ 31) then Some Undefined else None)"
  using assms
proof (induction n arbitrary: i)
  case (Suc n)
  have upto: "[sint l .. sint i] = [sint l .. sint i - 1] @ [sint i]" using Suc.prems(1) by (simp add: upto_rec2)
  show ?case
  proof (cases "sint i = sint l")
    case True
    then have "i = l" by (rule signed_word_eqI)
    then show ?thesis using upto sint_step(2) [of i] sint_range [of i] by (auto simp: for_step_simps)
  next
    case False
    then have step: "sint (i - 1) = sint i - 1" "- (2 ^ 31) < sint i"
      using Suc.prems sint_range [of l] by (auto intro!: sint_step)
    then have "for_body tb True body n [TInt (i - 1), TInt l, TInt (i - 1)] =
        (map (\<lambda>k. TInt (word_of_int k)) (rev [sint l .. sint i - 1]), if sint l = - (2 ^ 31) then Some Undefined else None)"
      using Suc.IH [of "i - 1"] Suc.prems False by simp
    then show ?thesis using False Suc.prems(1) upto step by (simp add: for_step_simps)
  qed
qed simp

text \<open>C29. The body of the inlined \<open>to:do:\<close> and \<open>downTo:do:\<close> loops over integers sees exactly the integers from the start to the
  limit, in order, even if it assigns to its own copy of the counter, and the loop then ends; it is skipped when the start is
  already beyond the limit. The one exception is the end of a loop \<open>to:do:\<close> to the largest integer or \<open>downTo:do:\<close> the
  smallest: after the body has seen the limit, stepping the counter overflows, which is undefined behaviour.\<close>

theorem for_loop_iterations:
  "(n > nat (sint l - sint i) \<longrightarrow>
      for_iterations tb False body n (TInt i) (TInt l) =
        (map (\<lambda>k. TInt (word_of_int k)) [sint i .. sint l], if sint l = 2 ^ 31 - 1 then Some Undefined else None)) \<and>
   (n > nat (sint i - sint l) \<longrightarrow>
      for_iterations tb True body n (TInt i) (TInt l) =
        (map (\<lambda>k. TInt (word_of_int k)) (rev [sint l .. sint i]), if sint l = - (2 ^ 31) then Some Undefined else None))"
proof -
  have "sint i \<le> sint l" if "sint l = 2 ^ 31 - 1" using that sint_range [of i] by simp
  moreover have "sint l \<le> sint i" if "sint l = - (2 ^ 31)" using that sint_range [of i] by simp
  ultimately show ?thesis
    using for_body_up [of i l n tb body] for_body_down [of l i n tb body]
    by (auto simp: for_iterations_def CheckForLoopStartCondImpl_def for_step_simps)
qed

theorem for_loop_iterations_witness:
  "for_iterations True False (\<lambda>_. TNil) 9 (TInt 2) (TInt 4) = ([TInt 2, TInt 3, TInt 4], None)"
proof -
  have "[2 .. 4 :: int] = [2, 3, 4]" by (simp add: upto_rec1)
  with for_loop_iterations [of 4 2 9 True "\<lambda>_. TNil"] show ?thesis by simp
qed

end
