(* ===== verification/Upvalues.thy ===== *)
theory Upvalues
  imports PrimObjects
begin

section \<open>Upvalues and closures\<close>

text \<open>
  \<open>class Upvalue\<close>, \<open>CoroutineRuntimeContext::CloseUpvalues\<close> and \<open>FunctionObject::CreateAndFillUpvalues\<close> of
  \<open>src/runtime/runtime_utils.h\<close> and \<open>runtime_utils.cpp\<close>, and the bytecodes of \<open>upvalue_bytecodes.cpp\<close> and
  \<open>new_closure.cpp\<close>. A variable that is captured and assigned lives in an \<open>Upvalue\<close>: while the frame that
  declares it is active the upvalue points into the stack, afterwards it owns the value. The open
  upvalues of a coroutine are linked from the highest stack slot to the lowest, \<open>m_upvalueList\<close> is the
  head.

  The walks along the list take the number of upvalues as fuel; the theorems show that this is enough
  for every list the operations build. The debug-only assertions on the order of the list are part of
  the invariant \<open>upvalues_ok\<close>. An upvalue that was never closed has no value of its own, written
  \<open>TImpossible\<close>.
\<close>

subsection \<open>Creating\<close>

definition the_upvalue :: "nat \<Rightarrow> Upvalue vmop" where
  "the_upvalue u = (\<lambda>V. if u < length (h_upvalues V) then Inr (h_upvalues V ! u, V) else Inl Undefined)"

definition set_upvalue :: "nat \<Rightarrow> Upvalue \<Rightarrow> unit vmop" where
  "set_upvalue u x = modS (\<lambda>V. V\<lparr>h_upvalues := (h_upvalues V)[u := x]\<rparr>)"

text \<open>The stack slot an open upvalue points to.\<close>

definition slot_of :: "Upvalue \<Rightarrow> nat vmop" where
  "slot_of c = (case uv_ptr c of Some i \<Rightarrow> retS i | None \<Rightarrow> failS Undefined)"

definition CreateUpvalueImpl :: "nat option \<Rightarrow> nat \<Rightarrow> bool \<Rightarrow> nat vmop" where
  "CreateUpvalueImpl prv dst isImmutable =
     (\<lambda>V. Inr (length (h_upvalues V),
               V\<lparr>h_upvalues := h_upvalues V @ [\<lparr>uv_ptr = Some dst, uv_tv = TImpossible, uv_prev = prv, uv_isClosed = False,
                                                 uv_isImmutable = isImmutable\<rparr>]\<rparr>))"

definition CreateClosed :: "val \<Rightarrow> nat vmop" where
  "CreateClosed v =
     (\<lambda>V. Inr (length (h_upvalues V),
               V\<lparr>h_upvalues := h_upvalues V @ [\<lparr>uv_ptr = None, uv_tv = v, uv_prev = None, uv_isClosed = True,
                                                 uv_isImmutable = False\<rparr>]\<rparr>))"

definition insert_before :: "nat \<Rightarrow> nat option \<Rightarrow> nat \<Rightarrow> bool \<Rightarrow> nat vmop" where
  "insert_before cur prv dst isImmutable =
     bindS (CreateUpvalueImpl prv dst isImmutable) (\<lambda>newNode.
     bindS (the_upvalue cur) (\<lambda>c.
     bindS (set_upvalue cur (c\<lparr>uv_prev := Some newNode\<rparr>)) (\<lambda>_. retS newNode)))"

fun create_walk :: "nat \<Rightarrow> nat \<Rightarrow> nat \<Rightarrow> bool \<Rightarrow> nat vmop" where
  "create_walk 0 cur dst isImmutable = failS OutOfFuel"
| "create_walk (Suc n) cur dst isImmutable =
     bindS (the_upvalue cur) (\<lambda>c.
     bindS (slot_of c) (\<lambda>curVal.
     if curVal = dst then retS cur
     else case uv_prev c of
            None \<Rightarrow> insert_before cur None dst isImmutable
          | Some prv \<Rightarrow>
              bindS (the_upvalue prv) (\<lambda>pc.
              bindS (slot_of pc) (\<lambda>prevVal.
              if prevVal < dst then insert_before cur (Some prv) dst isImmutable
              else create_walk n prv dst isImmutable))))"

definition Upvalue_Create :: "nat \<Rightarrow> bool \<Rightarrow> nat vmop" where
  "Upvalue_Create dst isImmutable =
     bindS (getS m_upvalueList) (\<lambda>head.
     bindS (case head of
              None \<Rightarrow> retS True
            | Some h \<Rightarrow> bindS (the_upvalue h) (\<lambda>c. bindS (slot_of c) (\<lambda>i. retS (i < dst)))) (\<lambda>as_first.
     if as_first
     then bindS (CreateUpvalueImpl head dst isImmutable) (\<lambda>newNode.
          bindS (modS (\<lambda>V. V\<lparr>m_upvalueList := Some newNode\<rparr>)) (\<lambda>_. retS newNode))
     else bindS (getS (\<lambda>V. length (h_upvalues V))) (\<lambda>n. create_walk n (the head) dst isImmutable)))"

subsection \<open>Closing\<close>

definition Upvalue_Close :: "nat \<Rightarrow> unit vmop" where
  "Upvalue_Close u =
     bindS (the_upvalue u) (\<lambda>c.
     bindS (slot_of c) (\<lambda>i.
     bindS (getS v_stack) (\<lambda>st.
     if length st \<le> i then failS Undefined
     else set_upvalue u (c\<lparr>uv_tv := st ! i, uv_ptr := None, uv_isClosed := True\<rparr>))))"

fun close_walk :: "nat \<Rightarrow> nat option \<Rightarrow> nat \<Rightarrow> nat option vmop" where
  "close_walk n None base = retS None"
| "close_walk 0 (Some u) base = failS OutOfFuel"
| "close_walk (Suc n) (Some u) base =
     bindS (the_upvalue u) (\<lambda>c.
     bindS (slot_of c) (\<lambda>i.
     if i < base then retS (Some u)
     else bindS (Upvalue_Close u) (\<lambda>_. close_walk n (uv_prev c) base)))"

definition CloseUpvalues :: "nat \<Rightarrow> unit vmop" where
  "CloseUpvalues base =
     bindS (getS m_upvalueList) (\<lambda>head.
     bindS (getS (\<lambda>V. length (h_upvalues V))) (\<lambda>n.
     bindS (close_walk n head base) (\<lambda>cur. modS (\<lambda>V. V\<lparr>m_upvalueList := cur\<rparr>))))"

subsection \<open>Closures\<close>

record UpvalueMetadata =
  um_isParentLocal :: bool
  um_isImmutable :: bool
  um_slot :: nat

text \<open>What a new function object takes from its \<open>CodeBlock\<close>.\<close>

record CodeBlock =
  cb_executable :: nat
  cb_fnKind :: SOMDetailEntityType
  cb_trivialFnType :: SOMMethodLookupResultKind
  cb_trivialFnInfo :: upval
  cb_upvalueInfo :: "UpvalueMetadata list"

definition needExtraUpvalueDueToTrivialFn :: "CodeBlock \<Rightarrow> bool" where
  "needExtraUpvalueDueToTrivialFn cb \<longleftrightarrow>
     cb_trivialFnType cb \<in> {SOM_LiteralReturn, SOM_GlobalReturn, SOM_Getter, SOM_Setter}"

definition fill_upvalue :: "nat \<Rightarrow> FunctionObject \<Rightarrow> nat \<Rightarrow> nat \<Rightarrow> UpvalueMetadata \<Rightarrow> upval vmop" where
  "fill_upvalue fbase parent selfOrdinal r uvmt =
     (if um_isParentLocal uvmt
      then if um_isImmutable uvmt
           then if um_slot uvmt = selfOrdinal then retS (UvImm (TFun r))
                else bindS (getS v_stack) (\<lambda>st.
                     if length st \<le> fbase + um_slot uvmt then failS Undefined else retS (UvImm (st ! (fbase + um_slot uvmt))))
           else bindS (Upvalue_Create (fbase + um_slot uvmt) (um_isImmutable uvmt)) (\<lambda>u. retS (UvRef u))
      else if um_slot uvmt < length (fo_upvalues parent) then retS (fo_upvalues parent ! um_slot uvmt) else failS Undefined)"

fun fill_upvalues :: "nat \<Rightarrow> FunctionObject \<Rightarrow> nat \<Rightarrow> nat \<Rightarrow> UpvalueMetadata list \<Rightarrow> upval list vmop" where
  "fill_upvalues fbase parent selfOrdinal r [] = retS []"
| "fill_upvalues fbase parent selfOrdinal r (m # ms) =
     bindS (fill_upvalue fbase parent selfOrdinal r m) (\<lambda>x.
     bindS (fill_upvalues fbase parent selfOrdinal r ms) (\<lambda>xs. retS (x # xs)))"

text \<open>
  \<open>FunctionObject::Create\<close>. The number of upvalues is stored in eight bits, and the array is allocated for that number: with
  more than 255 upvalues the writes that follow are outside the object (\<open>Assert\<close> catches it only in a debug build).
\<close>

definition FunctionObject_Create :: "bool \<Rightarrow> CodeBlock \<Rightarrow> nat vmop" where
  "FunctionObject_Create tb cb =
     bindS (liftS (TestAssert tb (needExtraUpvalueDueToTrivialFn cb \<longrightarrow> cb_upvalueInfo cb = []))) (\<lambda>_.
     if 255 < length (cb_upvalueInfo cb) + (if needExtraUpvalueDueToTrivialFn cb then 1 else 0) then failS Undefined else
     bindS (getS (\<lambda>V. length (h_funs V))) (\<lambda>r.
     bindS (modS (\<lambda>V. V\<lparr>h_funs := h_funs V @ [\<lparr>fo_type = cb_fnKind cb, fo_lookup = cb_trivialFnType cb,
              fo_executable = cb_executable cb, fo_upvalues = []\<rparr>]\<rparr>)) (\<lambda>_.
     retS r)))"

definition CreateAndFillUpvalues :: "bool \<Rightarrow> CodeBlock \<Rightarrow> nat \<Rightarrow> nat \<Rightarrow> nat \<Rightarrow> nat vmop" where
  "CreateAndFillUpvalues tb cb fbase parent selfOrdinal =
     bindS (the_fun parent) (\<lambda>p.
     bindS (FunctionObject_Create tb cb) (\<lambda>r.
     bindS (fill_upvalues fbase p selfOrdinal r (cb_upvalueInfo cb)) (\<lambda>uvs.
     bindS (modS (\<lambda>V. V\<lparr>h_funs := (h_funs V)[r := (h_funs V ! r)\<lparr>fo_upvalues :=
              uvs @ (if needExtraUpvalueDueToTrivialFn cb then [cb_trivialFnInfo cb] else [])\<rparr>]\<rparr>)) (\<lambda>_.
     retS r))))"

subsection \<open>The bytecodes\<close>

text \<open>\<open>fo\<close> is the function object of the running frame.\<close>

definition MutableUpvalueGetImpl :: "FunctionObject \<Rightarrow> nat \<Rightarrow> val vmop" where
  "MutableUpvalueGetImpl fo ord =
     (if ord < length (fo_upvalues fo) then case fo_upvalues fo ! ord of UvRef u \<Rightarrow> read_upvalue u | _ \<Rightarrow> failS Undefined
      else failS Undefined)"

definition ImmutableUpvalueGetImpl :: "FunctionObject \<Rightarrow> nat \<Rightarrow> val vmop" where
  "ImmutableUpvalueGetImpl fo ord =
     (if ord < length (fo_upvalues fo) then case fo_upvalues fo ! ord of UvImm v \<Rightarrow> retS v | _ \<Rightarrow> failS Undefined
      else failS Undefined)"

definition write_upvalue :: "nat \<Rightarrow> val \<Rightarrow> unit vmop" where
  "write_upvalue u v =
     bindS (the_upvalue u) (\<lambda>c.
     case uv_ptr c of
       None \<Rightarrow> set_upvalue u (c\<lparr>uv_tv := v\<rparr>)
     | Some i \<Rightarrow>
         bindS (getS v_stack) (\<lambda>st.
         if length st \<le> i then failS Undefined else modS (\<lambda>V. V\<lparr>v_stack := (v_stack V)[i := v]\<rparr>)))"

definition UpvalueSetImpl :: "FunctionObject \<Rightarrow> nat \<Rightarrow> val \<Rightarrow> unit vmop" where
  "UpvalueSetImpl fo ord valueToPut =
     (if ord < length (fo_upvalues fo) then case fo_upvalues fo ! ord of UvRef u \<Rightarrow> write_upvalue u valueToPut | _ \<Rightarrow> failS Undefined
      else failS Undefined)"

text \<open>Whether the bytecode branches is a template parameter; the effect is the same.\<close>

definition UpvalueCloseImpl :: "bool \<Rightarrow> nat \<Rightarrow> bool vmop" where
  "UpvalueCloseImpl shouldBranch base = bindS (CloseUpvalues base) (\<lambda>_. retS shouldBranch)"

definition NewClosureImpl :: "bool \<Rightarrow> CodeBlock \<Rightarrow> nat \<Rightarrow> nat \<Rightarrow> nat \<Rightarrow> val vmop" where
  "NewClosureImpl tb cb fbase parent outputSlot =
     bindS (CreateAndFillUpvalues tb cb fbase parent outputSlot) (\<lambda>f. retS (TFun f))"

fun fill_nils :: "nat \<Rightarrow> nat \<Rightarrow> val list \<Rightarrow> val list" where
  "fill_nils 0 base st = st"
| "fill_nils (Suc n) base st = fill_nils n (Suc base) (st[base := TNil])"

definition RangeFillNilsImpl :: "nat \<Rightarrow> nat \<Rightarrow> unit vmop" where
  "RangeFillNilsImpl base numToPut =
     (\<lambda>V. if length (v_stack V) < base + numToPut then Inl Undefined
          else Inr ((), V\<lparr>v_stack := fill_nils numToPut base (v_stack V)\<rparr>))"

subsection \<open>The list of open upvalues\<close>

text \<open>
  \<open>uv_chain U h us\<close>: following \<open>uv_prev\<close> from \<open>h\<close> visits the upvalues \<open>us\<close>. A state is well formed when the
  list starts at \<open>m_upvalueList\<close>, its stack slots strictly descend and it holds exactly the open upvalues.
\<close>

fun uv_chain :: "Upvalue list \<Rightarrow> nat option \<Rightarrow> nat list \<Rightarrow> bool" where
  "uv_chain U h [] \<longleftrightarrow> h = None"
| "uv_chain U h (u # us) \<longleftrightarrow> h = Some u \<and> u < length U \<and> uv_chain U (uv_prev (U ! u)) us"

definition uv_slot :: "Upvalue list \<Rightarrow> nat \<Rightarrow> nat" where
  "uv_slot U u = the (uv_ptr (U ! u))"

definition is_open :: "Upvalue list \<Rightarrow> nat \<Rightarrow> bool" where
  "is_open U u \<longleftrightarrow> u < length U \<and> uv_ptr (U ! u) \<noteq> None"

abbreviation uv_desc :: "Upvalue list \<Rightarrow> nat list \<Rightarrow> bool" where
  "uv_desc U us \<equiv> sorted_wrt (\<lambda>u w. uv_slot U w < uv_slot U u) us"

definition uv_list :: "VM \<Rightarrow> nat list \<Rightarrow> bool" where
  "uv_list V us \<longleftrightarrow> uv_chain (h_upvalues V) (m_upvalueList V) us \<and> uv_desc (h_upvalues V) us \<and>
     set us = Collect (is_open (h_upvalues V)) \<and>
     (\<forall>c\<in>set (h_upvalues V). uv_isClosed c \<longleftrightarrow> uv_ptr c = None) \<and>
     (\<forall>u\<in>set us. uv_slot (h_upvalues V) u < length (v_stack V))"

definition upvalues_ok :: "VM \<Rightarrow> bool" where
  "upvalues_ok V \<longleftrightarrow> (\<exists>us. uv_list V us)"

text \<open>The variables a program sees through its upvalues.\<close>

definition uv_store :: "VM \<Rightarrow> nat \<rightharpoonup> val" where
  "uv_store V u = (case read_upvalue u V of Inl _ \<Rightarrow> None | Inr (v, _) \<Rightarrow> Some v)"

lemma uv_slot_Some: "uv_ptr (U ! u) = Some i \<Longrightarrow> uv_slot U u = i"
  by (simp add: uv_slot_def)

lemma is_open_ptr: "is_open U u \<Longrightarrow> uv_ptr (U ! u) = Some (uv_slot U u)"
  by (auto simp: is_open_def uv_slot_def)

lemma uv_chain_head: "uv_chain U h us \<Longrightarrow> h = (if us = [] then None else Some (hd us))"
  by (cases us) auto

lemma uv_chain_less: "uv_chain U h us \<Longrightarrow> u \<in> set us \<Longrightarrow> u < length U"
  by (induction us arbitrary: h) auto

lemma uv_chain_cong:
  "uv_chain U h us \<Longrightarrow> (\<And>u. u \<in> set us \<Longrightarrow> u < length U' \<and> uv_prev (U' ! u) = uv_prev (U ! u)) \<Longrightarrow> uv_chain U' h us"
  by (induction us arbitrary: h) auto

lemma uv_desc_distinct: "uv_desc U us \<Longrightarrow> distinct us"
  by (induction us) auto

lemma uv_desc_cong:
  "uv_desc U us \<Longrightarrow> (\<And>u. u \<in> set us \<Longrightarrow> uv_ptr (U' ! u) = uv_ptr (U ! u)) \<Longrightarrow> uv_desc U' us"
  by (induction us) (auto simp: uv_slot_def)

lemma uv_desc_inj: "uv_desc U us \<Longrightarrow> u \<in> set us \<Longrightarrow> w \<in> set us \<Longrightarrow> uv_slot U u = uv_slot U w \<Longrightarrow> u = w"
  by (induction us) auto

lemma the_upvalue_app [simp]: "u < length (h_upvalues V) \<Longrightarrow> the_upvalue u V = Inr (h_upvalues V ! u, V)"
  by (simp add: the_upvalue_def)

lemma slot_of_app [simp]: "uv_ptr c = Some i \<Longrightarrow> slot_of c V = Inr (i, V)"
  by (simp add: slot_of_def)

subsection \<open>Creating an upvalue\<close>

text \<open>The heap after a new upvalue \<open>new\<close> is linked below \<open>c\<close>.\<close>

definition link_below :: "Upvalue list \<Rightarrow> nat \<Rightarrow> Upvalue \<Rightarrow> Upvalue list" where
  "link_below U c new = (U @ [new])[c := (U ! c)\<lparr>uv_prev := Some (length U)\<rparr>]"

definition open_upvalue :: "nat option \<Rightarrow> nat \<Rightarrow> bool \<Rightarrow> Upvalue" where
  "open_upvalue prv dst imm = \<lparr>uv_ptr = Some dst, uv_tv = TImpossible, uv_prev = prv, uv_isClosed = False, uv_isImmutable = imm\<rparr>"

lemma open_upvalue_sel [simp]:
  "uv_ptr (open_upvalue p d i) = Some d" "uv_prev (open_upvalue p d i) = p" "uv_isClosed (open_upvalue p d i) = False"
  by (simp_all add: open_upvalue_def)

lemma link_below_nth:
  "c < length U \<Longrightarrow> u < length U \<Longrightarrow>
     link_below U c n ! u = (if u = c then (U ! c)\<lparr>uv_prev := Some (length U)\<rparr> else U ! u)"
  "c < length U \<Longrightarrow> link_below U c n ! length U = n"
  "length (link_below U c n) = Suc (length U)"
  by (auto simp: link_below_def nth_list_update nth_append)

lemma uv_chain_link_below:
  assumes "uv_chain U h (xs @ c # ys)" "distinct (xs @ c # ys)" "uv_prev n = uv_prev (U ! c)"
  shows "uv_chain (link_below U c n) h (xs @ c # length U # ys)"
  using assms
proof (induction xs arbitrary: h)
  case Nil
  then have "uv_chain U (uv_prev (U ! c)) ys" "c < length U" by auto
  moreover have "u < length U" if "u \<in> set ys" for u
    using that \<open>uv_chain U (uv_prev (U ! c)) ys\<close> by (rule uv_chain_less [rotated])
  ultimately have "uv_chain (link_below U c n) (uv_prev (U ! c)) ys"
    using Nil by (elim uv_chain_cong) (auto simp: link_below_nth less_SucI)
  then show ?case using Nil by (auto simp: link_below_nth)
next
  case (Cons x xs)
  have "c < length U" using Cons.prems(1) by (rule uv_chain_less) simp
  then show ?case using Cons by (auto simp: link_below_nth)
qed

lemma insert_before_run:
  "cur < length (h_upvalues V) \<Longrightarrow>
     insert_before cur prv dst imm V =
     Inr (length (h_upvalues V), V\<lparr>h_upvalues := link_below (h_upvalues V) cur (open_upvalue prv dst imm)\<rparr>)"
  by (simp add: insert_before_def CreateUpvalueImpl_def set_upvalue_def bindS_app the_upvalue_def retS_def modS_def
        link_below_def open_upvalue_def nth_append)

text \<open>The walk finds the upvalue of the slot, or the place where it belongs.\<close>

lemma create_walk_run:
  assumes "uv_chain (h_upvalues V) (Some cur) us" "uv_desc (h_upvalues V) us"
    "\<And>u. u \<in> set us \<Longrightarrow> is_open (h_upvalues V) u" "length us \<le> n" "dst \<le> uv_slot (h_upvalues V) cur"
  shows "(\<exists>u\<in>set us. uv_slot (h_upvalues V) u = dst \<and> create_walk n cur dst imm V = Inr (u, V)) \<or>
    (\<exists>xs c ys. us = xs @ c # ys \<and> (\<forall>x\<in>set (xs @ [c]). dst < uv_slot (h_upvalues V) x) \<and>
       (\<forall>y\<in>set ys. uv_slot (h_upvalues V) y < dst) \<and>
       create_walk n cur dst imm V = Inr (length (h_upvalues V),
         V\<lparr>h_upvalues := link_below (h_upvalues V) c (open_upvalue (uv_prev (h_upvalues V ! c)) dst imm)\<rparr>))"
  using assms
proof (induction us arbitrary: cur n)
  case Nil
  then show ?case by simp
next
  case (Cons u us)
  let ?U = "h_upvalues V"
  obtain n' where n: "n = Suc n'" using Cons.prems(4) by (cases n) auto
  have cur: "u = cur" "cur < length ?U" "uv_chain ?U (uv_prev (?U ! cur)) us" using Cons.prems(1) by auto
  have ptr: "uv_ptr (?U ! cur) = Some (uv_slot ?U cur)" using Cons.prems(3) cur by (auto intro: is_open_ptr)
  consider "uv_slot ?U cur = dst" | "uv_slot ?U cur \<noteq> dst" "us = []" | p ps where "uv_slot ?U cur \<noteq> dst" "us = p # ps"
    by (cases us) auto
  then show ?case
  proof cases
    case 1
    then show ?thesis using cur ptr n by auto
  next
    case 2
    then have "create_walk n cur dst imm V = Inr (length ?U,
        V\<lparr>h_upvalues := link_below ?U cur (open_upvalue (uv_prev (?U ! cur)) dst imm)\<rparr>)"
      using cur ptr n by (auto simp: insert_before_run)
    moreover have "u # us = [] @ cur # []" using 2 cur by simp
    ultimately show ?thesis using 2 Cons.prems(5) cur(1) by (intro disjI2 exI [of _ "[]"] exI [of _ cur]) auto
  next
    case 3
    then have p: "uv_prev (?U ! cur) = Some p" "p < length ?U" "uv_ptr (?U ! p) = Some (uv_slot ?U p)"
      using cur Cons.prems(3) by (auto intro: is_open_ptr)
    show ?thesis
    proof (cases "uv_slot ?U p < dst")
      case True
      then have "create_walk n cur dst imm V = Inr (length ?U,
          V\<lparr>h_upvalues := link_below ?U cur (open_upvalue (uv_prev (?U ! cur)) dst imm)\<rparr>)"
        using cur ptr n p 3 by (auto simp: insert_before_run)
      moreover have "\<forall>y\<in>set us. uv_slot ?U y < dst" using True Cons.prems(2) 3 by auto
      ultimately show ?thesis using 3 Cons.prems(5) cur(1) by (intro disjI2 exI [of _ "[]"] exI [of _ cur] exI [of _ us]) auto
    next
      case False
      then have walk: "create_walk n cur dst imm V = create_walk n' p dst imm V"
        using cur ptr n p 3 by auto
      have "(\<exists>u\<in>set us. uv_slot ?U u = dst \<and> create_walk n' p dst imm V = Inr (u, V)) \<or>
        (\<exists>xs c ys. us = xs @ c # ys \<and> (\<forall>x\<in>set (xs @ [c]). dst < uv_slot ?U x) \<and> (\<forall>y\<in>set ys. uv_slot ?U y < dst) \<and>
         create_walk n' p dst imm V = Inr (length ?U,
           V\<lparr>h_upvalues := link_below ?U c (open_upvalue (uv_prev (?U ! c)) dst imm)\<rparr>))"
        by (rule Cons.IH) (use cur p Cons.prems False n in auto)
      then show ?thesis
      proof (elim disjE exE conjE)
        fix xs c ys
        assume "us = xs @ c # ys" "\<forall>x\<in>set (xs @ [c]). dst < uv_slot ?U x" "\<forall>y\<in>set ys. uv_slot ?U y < dst"
          "create_walk n' p dst imm V = Inr (length ?U,
             V\<lparr>h_upvalues := link_below ?U c (open_upvalue (uv_prev (?U ! c)) dst imm)\<rparr>)"
        then show ?thesis using walk 3 Cons.prems(5) cur(1)
          by (intro disjI2 exI [of _ "u # xs"] exI [of _ c] exI [of _ ys]) auto
      qed (use walk in auto)
    qed
  qed
qed

text \<open>What a heap with a new open upvalue keeps of the old one: everything but links.\<close>

definition extends_uv :: "Upvalue list \<Rightarrow> Upvalue list \<Rightarrow> nat \<Rightarrow> bool \<Rightarrow> bool" where
  "extends_uv U U' dst imm \<longleftrightarrow> length U' = Suc (length U) \<and>
     (\<forall>w<length U. U' ! w = (U ! w)\<lparr>uv_prev := uv_prev (U' ! w)\<rparr>) \<and>
     U' ! length U = open_upvalue (uv_prev (U' ! length U)) dst imm"

lemma extends_uv_nth:
  assumes "extends_uv U U' dst imm"
  shows "w < length U \<Longrightarrow> uv_ptr (U' ! w) = uv_ptr (U ! w)" "w < length U \<Longrightarrow> uv_isClosed (U' ! w) = uv_isClosed (U ! w)"
    "w < length U \<Longrightarrow> uv_tv (U' ! w) = uv_tv (U ! w)" "length U' = Suc (length U)"
    "uv_ptr (U' ! length U) = Some dst" "uv_isClosed (U' ! length U) = False"
proof -
  have w: "U' ! w = (U ! w)\<lparr>uv_prev := uv_prev (U' ! w)\<rparr>" if "w < length U"
    using assms that by (simp add: extends_uv_def)
  have l: "U' ! length U = open_upvalue (uv_prev (U' ! length U)) dst imm" "length U' = Suc (length U)"
    using assms by (simp_all add: extends_uv_def)
  show "w < length U \<Longrightarrow> uv_ptr (U' ! w) = uv_ptr (U ! w)" using w [THEN arg_cong, of uv_ptr] by simp
  show "w < length U \<Longrightarrow> uv_isClosed (U' ! w) = uv_isClosed (U ! w)" using w [THEN arg_cong, of uv_isClosed] by simp
  show "w < length U \<Longrightarrow> uv_tv (U' ! w) = uv_tv (U ! w)" using w [THEN arg_cong, of uv_tv] by simp
  show "length U' = Suc (length U)" by (rule l)
  show "uv_ptr (U' ! length U) = Some dst" by (subst l) simp
  show "uv_isClosed (U' ! length U) = False" by (subst l) simp
qed

lemma extends_uv_link_below: "c < length U \<Longrightarrow> extends_uv U (link_below U c (open_upvalue p dst imm)) dst imm"
  by (simp add: extends_uv_def link_below_nth)

lemma extends_uv_append: "extends_uv U (U @ [open_upvalue p dst imm]) dst imm"
  by (simp add: extends_uv_def nth_append)

lemma is_open_extends:
  "extends_uv U U' dst imm \<Longrightarrow> is_open U' u \<longleftrightarrow> u = length U \<or> is_open U u"
  by (cases "u < length U") (auto simp: is_open_def extends_uv_nth less_Suc_eq)

lemma uv_slot_extends:
  "extends_uv U U' dst imm \<Longrightarrow> u < length U \<Longrightarrow> uv_slot U' u = uv_slot U u"
  "extends_uv U U' dst imm \<Longrightarrow> uv_slot U' (length U) = dst"
  by (simp_all add: uv_slot_def extends_uv_nth)

lemma uv_list_extends:
  assumes ok: "uv_list V (xs @ ys)" and ext: "extends_uv (h_upvalues V) (h_upvalues V') dst imm"
    and chain: "uv_chain (h_upvalues V') (m_upvalueList V') (xs @ length (h_upvalues V) # ys)"
    and hi: "\<forall>x\<in>set xs. dst < uv_slot (h_upvalues V) x" and lo: "\<forall>y\<in>set ys. uv_slot (h_upvalues V) y < dst"
    and st: "dst < length (v_stack V)" "v_stack V' = v_stack V"
  shows "uv_list V' (xs @ length (h_upvalues V) # ys)"
proof -
  let ?U = "h_upvalues V" and ?U' = "h_upvalues V'"
  have us: "set (xs @ ys) = Collect (is_open ?U)" and desc: "uv_desc ?U (xs @ ys)" using ok by (auto simp: uv_list_def)
  have less: "u < length ?U" if "u \<in> set xs \<union> set ys" for u using that us by (auto simp: is_open_def)
  have slot: "uv_slot ?U' u = uv_slot ?U u" if "u \<in> set xs \<union> set ys" for u
    using less [OF that] by (rule uv_slot_extends [OF ext])
  have "uv_desc ?U' (xs @ ys)"
    using desc by (rule uv_desc_cong) (use less in \<open>auto simp: extends_uv_nth [OF ext]\<close>)
  then have desc': "uv_desc ?U' (xs @ length ?U # ys)"
    using hi lo slot by (simp add: sorted_wrt_append uv_slot_extends(2) [OF ext])
  have "set (xs @ length ?U # ys) = Collect (is_open ?U')"
    using us by (simp add: set_eq_iff is_open_extends [OF ext])
  moreover have "uv_isClosed c \<longleftrightarrow> uv_ptr c = None" if c: "c \<in> set ?U'" for c
  proof -
    obtain i where i: "i < Suc (length ?U)" "c = ?U' ! i"
      using c extends_uv_nth(4) [OF ext] by (auto simp: in_set_conv_nth)
    have "\<forall>c\<in>set ?U. uv_isClosed c \<longleftrightarrow> uv_ptr c = None" using ok by (simp add: uv_list_def)
    then show ?thesis using i by (cases "i = length ?U") (simp_all add: extends_uv_nth [OF ext])
  qed
  moreover have "uv_slot ?U u < length (v_stack V)" if "u \<in> set xs \<union> set ys" for u
    using ok that by (simp add: uv_list_def)
  then have "uv_slot ?U' u < length (v_stack V')" if "u \<in> set (xs @ length ?U # ys)" for u
    using that st slot [of u] by (cases "u = length ?U") (auto simp: uv_slot_extends(2) [OF ext])
  ultimately show ?thesis using chain desc' unfolding uv_list_def by blast
qed

lemma uv_list_length: "uv_list V us \<Longrightarrow> length us \<le> length (h_upvalues V)"
proof -
  assume "uv_list V us"
  then have "set us \<subseteq> {..<length (h_upvalues V)}" "distinct us"
    using uv_chain_less uv_desc_distinct by (auto simp: uv_list_def)
  then show ?thesis using card_mono [of "{..<length (h_upvalues V)}" "set us"] by (simp add: distinct_card)
qed

lemma uv_list_slot:
  "uv_list V us \<Longrightarrow> u \<in> set us \<Longrightarrow> u < length (h_upvalues V) \<and> uv_ptr (h_upvalues V ! u) = Some (uv_slot (h_upvalues V) u)"
  using is_open_ptr [of "h_upvalues V" u] by (auto simp: uv_list_def is_open_def)

text \<open>The two outcomes: the open upvalue of the slot is shared, or a new one is linked in.\<close>

definition create_shares :: "VM \<Rightarrow> nat \<Rightarrow> (nat \<times> VM) res \<Rightarrow> bool" where
  "create_shares V dst r \<longleftrightarrow> (\<exists>u. is_open (h_upvalues V) u \<and> uv_slot (h_upvalues V) u = dst \<and> r = Inr (u, V))"

definition create_links :: "VM \<Rightarrow> nat \<Rightarrow> bool \<Rightarrow> (nat \<times> VM) res \<Rightarrow> bool" where
  "create_links V dst imm r \<longleftrightarrow> (\<exists>V'. (\<forall>u. is_open (h_upvalues V) u \<longrightarrow> uv_slot (h_upvalues V) u \<noteq> dst) \<and>
     r = Inr (length (h_upvalues V), V') \<and> upvalues_ok V' \<and> extends_uv (h_upvalues V) (h_upvalues V') dst imm \<and>
     V' = V\<lparr>h_upvalues := h_upvalues V', m_upvalueList := m_upvalueList V'\<rparr>)"

lemma create_linksI:
  assumes "r = Inr (length (h_upvalues V), V')" "uv_list V' (xs @ length (h_upvalues V) # ys)" "uv_list V (xs @ ys)"
    "extends_uv (h_upvalues V) (h_upvalues V') dst imm"
    "\<forall>x\<in>set xs. dst < uv_slot (h_upvalues V) x" "\<forall>y\<in>set ys. uv_slot (h_upvalues V) y < dst"
    "V' = V\<lparr>h_upvalues := h_upvalues V', m_upvalueList := m_upvalueList V'\<rparr>"
  shows "create_links V dst imm r"
proof -
  have us: "set xs \<union> set ys = Collect (is_open (h_upvalues V))" using assms(3) by (simp add: uv_list_def)
  have "uv_slot (h_upvalues V) u \<noteq> dst" if "is_open (h_upvalues V) u" for u
  proof -
    have "u \<in> set xs \<or> u \<in> set ys" using that us by blast
    then show ?thesis using assms(5,6) by auto
  qed
  then show ?thesis using assms(1,2,4,7) unfolding create_links_def upvalues_ok_def by blast
qed

lemma Upvalue_Create_first:
  assumes ok: "uv_list V us" and dst: "dst < length (v_stack V)"
    and first: "us = [] \<or> uv_slot (h_upvalues V) (hd us) < dst"
  shows "create_links V dst imm (Upvalue_Create dst imm V)"
proof (rule create_linksI)
  let ?U = "h_upvalues V"
  let ?V = "V\<lparr>h_upvalues := ?U @ [open_upvalue (m_upvalueList V) dst imm], m_upvalueList := Some (length ?U)\<rparr>"
  have ch: "uv_chain ?U (m_upvalueList V) us" and desc: "uv_desc ?U us" using ok by (simp_all add: uv_list_def)
  have hd: "us \<noteq> [] \<Longrightarrow> hd us < length ?U \<and> uv_ptr (?U ! hd us) = Some (uv_slot ?U (hd us))"
    using uv_list_slot [OF ok, of "hd us"] by simp
  show "Upvalue_Create dst imm V = Inr (length ?U, ?V)"
    using first hd uv_chain_head [OF ch]
    by (auto simp: Upvalue_Create_def CreateUpvalueImpl_def open_upvalue_def bindS_app)
  show lo: "\<forall>y\<in>set us. uv_slot ?U y < dst" using first desc by (cases us) auto
  show "uv_list ?V ([] @ length ?U # us)"
  proof (rule uv_list_extends)
    show "uv_list V ([] @ us)" using ok by simp
    show "uv_chain (h_upvalues ?V) (m_upvalueList ?V) ([] @ length ?U # us)"
      using uv_chain_cong [OF ch, of "?U @ [open_upvalue (m_upvalueList V) dst imm]"] uv_chain_less [OF ch]
      by (auto simp: nth_append less_SucI)
  qed (use lo dst extends_uv_append in auto)
qed (use ok extends_uv_append in auto)

lemma Upvalue_Create_walk:
  assumes ok: "uv_list V us" and dst: "dst < length (v_stack V)"
    and first: "us \<noteq> []" "dst \<le> uv_slot (h_upvalues V) (hd us)"
  shows "create_shares V dst (Upvalue_Create dst imm V) \<or> create_links V dst imm (Upvalue_Create dst imm V)"
proof -
  let ?U = "h_upvalues V"
  have ch: "uv_chain ?U (m_upvalueList V) us" and desc: "uv_desc ?U us" and us: "set us = Collect (is_open ?U)"
    using ok by (simp_all add: uv_list_def)
  have hd: "hd us < length ?U" "uv_ptr (?U ! hd us) = Some (uv_slot ?U (hd us))" "m_upvalueList V = Some (hd us)"
    using uv_list_slot [OF ok, of "hd us"] uv_chain_head [OF ch] first by simp_all
  have run: "Upvalue_Create dst imm V = create_walk (length ?U) (hd us) dst imm V"
    using hd first by (simp add: Upvalue_Create_def bindS_app)
  have "(\<exists>u\<in>set us. uv_slot ?U u = dst \<and> create_walk (length ?U) (hd us) dst imm V = Inr (u, V)) \<or>
    (\<exists>xs c ys. us = xs @ c # ys \<and> (\<forall>x\<in>set (xs @ [c]). dst < uv_slot ?U x) \<and> (\<forall>y\<in>set ys. uv_slot ?U y < dst) \<and>
     create_walk (length ?U) (hd us) dst imm V = Inr (length ?U,
       V\<lparr>h_upvalues := link_below ?U c (open_upvalue (uv_prev (?U ! c)) dst imm)\<rparr>))"
    by (rule create_walk_run) (use ch hd desc us uv_list_length [OF ok] first in auto)
  then show ?thesis
  proof (elim disjE bexE exE conjE)
    fix u
    assume "u \<in> set us" "uv_slot ?U u = dst" "create_walk (length ?U) (hd us) dst imm V = Inr (u, V)"
    then show ?thesis using us run unfolding create_shares_def by auto
  next
    fix xs c ys
    assume w: "us = xs @ c # ys" "\<forall>x\<in>set (xs @ [c]). dst < uv_slot ?U x" "\<forall>y\<in>set ys. uv_slot ?U y < dst"
      and walk: "create_walk (length ?U) (hd us) dst imm V = Inr (length ?U,
         V\<lparr>h_upvalues := link_below ?U c (open_upvalue (uv_prev (?U ! c)) dst imm)\<rparr>)"
    let ?V = "V\<lparr>h_upvalues := link_below ?U c (open_upvalue (uv_prev (?U ! c)) dst imm)\<rparr>"
    have ext: "extends_uv ?U (h_upvalues ?V) dst imm"
      using uv_chain_less [OF ch, of c] w by (simp add: extends_uv_link_below)
    have "uv_chain (h_upvalues ?V) (m_upvalueList ?V) ((xs @ [c]) @ length ?U # ys)"
      using uv_chain_link_below [of ?U "m_upvalueList V" xs c ys] ch w uv_desc_distinct [OF desc] by simp
    then have "uv_list ?V ((xs @ [c]) @ length ?U # ys)"
      using ok w ext dst by (intro uv_list_extends) auto
    then have "create_links V dst imm (Upvalue_Create dst imm V)"
      using ok w ext run walk by (intro create_linksI [of _ V ?V "xs @ [c]" ys]) simp_all
    then show ?thesis ..
  qed
qed

lemma Upvalue_Create_run:
  assumes "upvalues_ok V" "dst < length (v_stack V)"
  shows "create_shares V dst (Upvalue_Create dst imm V) \<or> create_links V dst imm (Upvalue_Create dst imm V)"
  using assms Upvalue_Create_first Upvalue_Create_walk unfolding upvalues_ok_def by (metis not_le)

subsection \<open>Closing the upvalues of a frame\<close>

text \<open>The reference: every open upvalue at or above \<open>base\<close> takes the value of its slot.\<close>

definition close_from :: "val list \<Rightarrow> nat \<Rightarrow> Upvalue \<Rightarrow> Upvalue" where
  "close_from st base c = (case uv_ptr c of
     None \<Rightarrow> c
   | Some i \<Rightarrow> if base \<le> i then c\<lparr>uv_tv := st ! i, uv_ptr := None, uv_isClosed := True\<rparr> else c)"

abbreviation kept_uvs :: "Upvalue list \<Rightarrow> nat \<Rightarrow> nat list \<Rightarrow> nat list" where
  "kept_uvs U base us \<equiv> dropWhile (\<lambda>u. base \<le> uv_slot U u) us"

lemma close_from_low: "uv_ptr c = Some i \<Longrightarrow> i < base \<Longrightarrow> close_from st base c = c"
  by (simp add: close_from_def)

lemma close_from_closed: "uv_ptr c = None \<Longrightarrow> close_from st base c = c"
  by (simp add: close_from_def)

lemma Upvalue_Close_run:
  "u < length (h_upvalues V) \<Longrightarrow> uv_ptr (h_upvalues V ! u) = Some i \<Longrightarrow> base \<le> i \<Longrightarrow> i < length (v_stack V) \<Longrightarrow>
     Upvalue_Close u V = Inr ((), V\<lparr>h_upvalues := (h_upvalues V)[u := close_from (v_stack V) base (h_upvalues V ! u)]\<rparr>)"
  by (simp add: Upvalue_Close_def close_from_def set_upvalue_def bindS_app)

lemma close_walk_run:
  assumes "uv_chain (h_upvalues V) h us" "uv_desc (h_upvalues V) us" "length us \<le> n"
    "\<And>u. u \<in> set us \<Longrightarrow> is_open (h_upvalues V) u \<and> uv_slot (h_upvalues V) u < length (v_stack V)"
  shows "\<exists>U'. length U' = length (h_upvalues V) \<and>
    (\<forall>u<length U'. U' ! u = (if u \<in> set us then close_from (v_stack V) base (h_upvalues V ! u) else h_upvalues V ! u)) \<and>
    close_walk n h base V = Inr (case kept_uvs (h_upvalues V) base us of [] \<Rightarrow> None | u # _ \<Rightarrow> Some u, V\<lparr>h_upvalues := U'\<rparr>)"
  using assms
proof (induction us arbitrary: h V n)
  case Nil
  then show ?case by (intro exI [of _ "h_upvalues V"]) simp
next
  case (Cons u us)
  let ?U = "h_upvalues V" and ?st = "v_stack V"
  obtain n' where n: "n = Suc n'" using Cons.prems(3) by (cases n) auto
  have u: "h = Some u" "u < length ?U" "uv_chain ?U (uv_prev (?U ! u)) us" "u \<notin> set us"
    using Cons.prems(1) uv_desc_distinct [OF Cons.prems(2)] by auto
  have ptr: "uv_ptr (?U ! u) = Some (uv_slot ?U u)" "uv_slot ?U u < length ?st" using Cons.prems(4) by (auto intro: is_open_ptr)
  show ?case
  proof (cases "base \<le> uv_slot ?U u")
    case False
    have "close_from ?st base (?U ! w) = ?U ! w" if "w \<in> set (u # us)" for w
    proof (rule close_from_low)
      show "uv_ptr (?U ! w) = Some (uv_slot ?U w)" using that Cons.prems(4) by (blast intro: is_open_ptr)
      show "uv_slot ?U w < base" using that Cons.prems(2) False by auto
    qed
    then show ?thesis using False u ptr n by (intro exI [of _ ?U]) (simp add: bindS_app)
  next
    case True
    define U1 where "U1 = ?U[u := close_from ?st base (?U ! u)]"
    let ?V1 = "V\<lparr>h_upvalues := U1\<rparr>"
    have same: "U1 ! w = ?U ! w" if "w \<noteq> u" for w using that by (simp add: U1_def)
    have us: "w \<noteq> u" if "w \<in> set us" for w using that u by auto
    have slot: "uv_slot U1 w = uv_slot ?U w" if "w \<in> set us" for w using same [OF us [OF that]] by (simp add: uv_slot_def)
    have run: "close_walk n h base V = close_walk n' (uv_prev (?U ! u)) base ?V1"
      using True u ptr n Upvalue_Close_run [OF u(2) ptr(1) True ptr(2)] by (simp add: U1_def bindS_app)
    have IH: "\<exists>U'. length U' = length (h_upvalues ?V1) \<and>
      (\<forall>w<length U'. U' ! w = (if w \<in> set us then close_from (v_stack ?V1) base (h_upvalues ?V1 ! w) else h_upvalues ?V1 ! w)) \<and>
      close_walk n' (uv_prev (?U ! u)) base ?V1 =
        Inr (case kept_uvs (h_upvalues ?V1) base us of [] \<Rightarrow> None | u # _ \<Rightarrow> Some u, ?V1\<lparr>h_upvalues := U'\<rparr>)"
    proof (rule Cons.IH)
      show "uv_chain (h_upvalues ?V1) (uv_prev (?U ! u)) us"
        using uv_chain_less [OF u(3)] same us by (intro uv_chain_cong [OF u(3)]) (auto simp: U1_def nth_list_update u)
      show "uv_desc (h_upvalues ?V1) us"
        using uv_desc_cong [of ?U us U1] Cons.prems(2) same us by simp
      show "is_open (h_upvalues ?V1) w \<and> uv_slot (h_upvalues ?V1) w < length (v_stack ?V1)" if "w \<in> set us" for w
        using Cons.prems(4) [of w] that same [OF us [OF that]] slot [OF that] by (auto simp: is_open_def U1_def)
    qed (use Cons.prems(3) n in simp)
    have kept: "kept_uvs U1 base us = kept_uvs ?U base us"
      using slot by (intro dropWhile_cong) auto
    from IH obtain U' where U': "length U' = length U1"
      "\<forall>w<length U'. U' ! w = (if w \<in> set us then close_from ?st base (U1 ! w) else U1 ! w)"
      "close_walk n' (uv_prev (?U ! u)) base ?V1 =
        Inr (case kept_uvs U1 base us of [] \<Rightarrow> None | u # _ \<Rightarrow> Some u, ?V1\<lparr>h_upvalues := U'\<rparr>)" by auto
    have "\<forall>w<length U'. U' ! w = (if w \<in> set (u # us) then close_from ?st base (?U ! w) else ?U ! w)"
      using U'(1,2) u(2,4) by (auto simp: U1_def nth_list_update)
    then show ?thesis using U' run kept True by (intro exI [of _ U']) (simp add: U1_def)
  qed
qed

lemma CloseUpvalues_run:
  assumes ok: "uv_list V us"
  shows "CloseUpvalues base V = Inr ((), V\<lparr>h_upvalues := map (close_from (v_stack V) base) (h_upvalues V),
     m_upvalueList := case kept_uvs (h_upvalues V) base us of [] \<Rightarrow> None | u # _ \<Rightarrow> Some u\<rparr>)"
proof -
  let ?U = "h_upvalues V"
  have us: "set us = Collect (is_open ?U)" using ok by (simp add: uv_list_def)
  have "\<exists>U'. length U' = length ?U \<and>
    (\<forall>u<length U'. U' ! u = (if u \<in> set us then close_from (v_stack V) base (?U ! u) else ?U ! u)) \<and>
    close_walk (length ?U) (m_upvalueList V) base V =
      Inr (case kept_uvs ?U base us of [] \<Rightarrow> None | u # _ \<Rightarrow> Some u, V\<lparr>h_upvalues := U'\<rparr>)"
    by (rule close_walk_run) (use ok uv_list_length [OF ok] in \<open>auto simp: uv_list_def\<close>)
  then obtain U' where U': "length U' = length ?U"
      "\<And>u. u < length U' \<Longrightarrow> U' ! u = (if u \<in> set us then close_from (v_stack V) base (?U ! u) else ?U ! u)"
    and run: "close_walk (length ?U) (m_upvalueList V) base V =
      Inr (case kept_uvs ?U base us of [] \<Rightarrow> None | u # _ \<Rightarrow> Some u, V\<lparr>h_upvalues := U'\<rparr>)" by blast
  have "U' = map (close_from (v_stack V) base) ?U"
    using U' us by (intro nth_equalityI) (auto simp: is_open_def close_from_closed)
  then show ?thesis using run by (simp add: CloseUpvalues_def bindS_app)
qed

lemma is_open_close_from: "is_open (map (close_from st base) U) u \<longleftrightarrow> is_open U u \<and> uv_slot U u < base"
  by (cases "u < length U") (auto simp: is_open_def close_from_def uv_slot_def split: option.splits)

lemma close_from_nth_slot: "u < length U \<Longrightarrow> is_open U u \<Longrightarrow> uv_slot U u < base \<Longrightarrow>
    uv_slot (map (close_from st base) U) u = uv_slot U u"
  by (auto simp: is_open_def close_from_def uv_slot_def split: option.splits)

lemma kept_uvs_set:
  "uv_desc U us \<Longrightarrow> set (kept_uvs U base us) = {u \<in> set us. uv_slot U u < base}"
  by (induction us) force+

lemma uv_chain_suffix: "uv_chain U h us \<Longrightarrow> us = xs @ ys \<Longrightarrow> uv_chain U (case ys of [] \<Rightarrow> None | y # _ \<Rightarrow> Some y) ys"
  by (induction xs arbitrary: us h) (auto split: list.splits)

lemma uv_list_close:
  assumes ok: "uv_list V us"
  shows "uv_list (V\<lparr>h_upvalues := map (close_from (v_stack V) base) (h_upvalues V),
     m_upvalueList := case kept_uvs (h_upvalues V) base us of [] \<Rightarrow> None | u # _ \<Rightarrow> Some u\<rparr>) (kept_uvs (h_upvalues V) base us)"
proof -
  let ?U = "h_upvalues V" and ?U' = "map (close_from (v_stack V) base) (h_upvalues V)" and ?ks = "kept_uvs (h_upvalues V) base us"
  have ch: "uv_chain ?U (m_upvalueList V) us" and desc: "uv_desc ?U us" and us: "set us = Collect (is_open ?U)"
    and cl: "\<forall>c\<in>set ?U. uv_isClosed c \<longleftrightarrow> uv_ptr c = None" and st: "\<forall>u\<in>set us. uv_slot ?U u < length (v_stack V)"
    using ok by (simp_all add: uv_list_def)
  have ks: "set ?ks = {u \<in> set us. uv_slot ?U u < base}" by (rule kept_uvs_set [OF desc])
  have kept: "u < length ?U" "uv_ptr (?U' ! u) = uv_ptr (?U ! u)" "uv_prev (?U' ! u) = uv_prev (?U ! u)" if "u \<in> set ?ks" for u
    using that ks uv_list_slot [OF ok, of u] by (auto simp: close_from_def)
  have "us = takeWhile (\<lambda>u. base \<le> uv_slot ?U u) us @ ?ks" by simp
  from uv_chain_suffix [OF ch this] have "uv_chain ?U (case ?ks of [] \<Rightarrow> None | u # _ \<Rightarrow> Some u) ?ks" .
  then have chain: "uv_chain ?U' (case ?ks of [] \<Rightarrow> None | u # _ \<Rightarrow> Some u) ?ks"
    by (rule uv_chain_cong) (use kept in simp)
  have "uv_desc ?U (takeWhile (\<lambda>u. base \<le> uv_slot ?U u) us @ ?ks)" using desc by simp
  then have "uv_desc ?U ?ks" unfolding sorted_wrt_append by (elim conjE)
  then have desc': "uv_desc ?U' ?ks" by (rule uv_desc_cong) (use kept in simp)
  have set': "set ?ks = Collect (is_open ?U')"
    using ks us by (simp add: set_eq_iff is_open_close_from)
  have "uv_isClosed c \<longleftrightarrow> uv_ptr c = None" if "c \<in> set ?U'" for c
    using that cl by (auto simp: close_from_def split: option.splits if_splits)
  moreover have "uv_slot ?U' u < length (v_stack V)" if "u \<in> set ?ks" for u
    using that kept(2) [OF that] st ks by (simp add: uv_slot_def)
  ultimately show ?thesis using chain desc' set' by (simp add: uv_list_def)
qed

subsection \<open>The variables seen through upvalues\<close>

lemma uv_store_open: "is_open (h_upvalues V) u \<Longrightarrow> uv_slot (h_upvalues V) u < length (v_stack V) \<Longrightarrow>
    uv_store V u = Some (v_stack V ! uv_slot (h_upvalues V) u)"
  by (auto simp: uv_store_def read_upvalue_def is_open_def uv_slot_def)

lemma uv_store_closed: "u < length (h_upvalues V) \<Longrightarrow> uv_ptr (h_upvalues V ! u) = None \<Longrightarrow>
    uv_store V u = Some (uv_tv (h_upvalues V ! u))"
  by (simp add: uv_store_def read_upvalue_def)

lemma uv_store_none: "length (h_upvalues V) \<le> u \<Longrightarrow> uv_store V u = None"
  by (simp add: uv_store_def read_upvalue_def)

lemma upvalues_ok_slot: "upvalues_ok V \<Longrightarrow> is_open (h_upvalues V) u \<Longrightarrow> uv_slot (h_upvalues V) u < length (v_stack V)"
  by (auto simp: upvalues_ok_def uv_list_def)

lemma upvalues_ok_inj:
  "upvalues_ok V \<Longrightarrow> is_open (h_upvalues V) u \<Longrightarrow> is_open (h_upvalues V) w \<Longrightarrow>
     uv_slot (h_upvalues V) u = uv_slot (h_upvalues V) w \<Longrightarrow> u = w"
  unfolding upvalues_ok_def uv_list_def by (metis mem_Collect_eq uv_desc_inj)

text \<open>The store in one formula.\<close>

lemma uv_store_eq:
  assumes "upvalues_ok V"
  shows "uv_store V u = (if is_open (h_upvalues V) u then Some (v_stack V ! uv_slot (h_upvalues V) u)
     else if u < length (h_upvalues V) then Some (uv_tv (h_upvalues V ! u)) else None)"
  using upvalues_ok_slot [OF assms] uv_store_open uv_store_closed uv_store_none [of V u]
  by (auto simp: is_open_def not_less)

lemma upvalues_ok_stack_cong:
  "upvalues_ok V \<Longrightarrow> h_upvalues V' = h_upvalues V \<Longrightarrow> m_upvalueList V' = m_upvalueList V \<Longrightarrow>
     length (v_stack V') = length (v_stack V) \<Longrightarrow> upvalues_ok V'"
  by (simp add: upvalues_ok_def uv_list_def)

lemma create_shares_store:
  assumes "create_shares V dst r" "upvalues_ok V"
  obtains u where "r = Inr (u, V)" "is_open (h_upvalues V) u" "uv_slot (h_upvalues V) u = dst"
    "uv_store V u = Some (v_stack V ! dst)"
  using assms by (auto simp: create_shares_def uv_store_eq)

lemma create_links_store:
  assumes links: "create_links V dst imm r" and ok: "upvalues_ok V"
  obtains V' where "r = Inr (length (h_upvalues V), V')" "upvalues_ok V'" "is_open (h_upvalues V') (length (h_upvalues V))"
    "uv_slot (h_upvalues V') (length (h_upvalues V)) = dst" "v_stack V' = v_stack V" "h_funs V' = h_funs V"
    "uv_store V' = (uv_store V)(length (h_upvalues V) \<mapsto> v_stack V ! dst)" "uv_store V (length (h_upvalues V)) = None"
proof -
  obtain V' where V': "r = Inr (length (h_upvalues V), V')" "upvalues_ok V'"
    and ext: "extends_uv (h_upvalues V) (h_upvalues V') dst imm"
    and eq: "V' = V\<lparr>h_upvalues := h_upvalues V', m_upvalueList := m_upvalueList V'\<rparr>"
    using links unfolding create_links_def by blast
  have st: "v_stack V' = v_stack V" "h_funs V' = h_funs V" using arg_cong [OF eq, of v_stack] arg_cong [OF eq, of h_funs] by simp_all
  have "uv_store V' u = ((uv_store V)(length (h_upvalues V) \<mapsto> v_stack V ! dst)) u" for u
  proof (cases "u < length (h_upvalues V)")
    case True
    then show ?thesis
      using ok V'(2) st by (simp add: uv_store_eq is_open_extends [OF ext] uv_slot_extends [OF ext] extends_uv_nth [OF ext])
  next
    case False
    then show ?thesis
      using ok V'(2) st
      by (auto simp: uv_store_eq is_open_extends [OF ext] uv_slot_extends [OF ext] extends_uv_nth [OF ext] is_open_def)
  qed
  then have "uv_store V' = (uv_store V)(length (h_upvalues V) \<mapsto> v_stack V ! dst)" by (simp add: fun_eq_iff)
  then show ?thesis
    using V' st that uv_store_none [of V "length (h_upvalues V)"] is_open_extends [OF ext] uv_slot_extends(2) [OF ext] by simp
qed

text \<open>
  C30. \<open>Upvalue::Create\<close> always returns an open upvalue of the slot, in a list that is still sorted and holds
  exactly the open upvalues. When the slot has one already it is shared and nothing changes; otherwise the
  new upvalue sees the slot and every other upvalue keeps its value. Creating it again returns the same one.
\<close>

theorem Upvalue_Create_correct:
  assumes "upvalues_ok V" "dst < length (v_stack V)"
  shows "\<exists>u V'. Upvalue_Create dst imm V = Inr (u, V') \<and> upvalues_ok V' \<and> v_stack V' = v_stack V \<and>
     uv_ptr (h_upvalues V' ! u) = Some dst \<and>
     (if \<exists>w. is_open (h_upvalues V) w \<and> uv_slot (h_upvalues V) w = dst then V' = V \<and> uv_store V u = Some (v_stack V ! dst)
      else uv_store V u = None \<and> uv_store V' = (uv_store V)(u \<mapsto> v_stack V ! dst)) \<and>
     Upvalue_Create dst imm' V' = Inr (u, V')"
proof -
  have again: "Upvalue_Create dst imm' W = Inr (u, W)"
    if W: "upvalues_ok W" "is_open (h_upvalues W) u" "uv_slot (h_upvalues W) u = dst" for W u
  proof -
    have "dst < length (v_stack W)" using upvalues_ok_slot [OF W(1,2)] W(3) by simp
    moreover have "\<not> create_links W dst imm' r" for r using W(2,3) unfolding create_links_def by blast
    ultimately have "create_shares W dst (Upvalue_Create dst imm' W)" using Upvalue_Create_run [OF W(1)] by blast
    then obtain w where w: "Upvalue_Create dst imm' W = Inr (w, W)" "is_open (h_upvalues W) w" "uv_slot (h_upvalues W) w = dst"
      using W(1) by (rule create_shares_store)
    then have "w = u" using upvalues_ok_inj [OF W(1) w(2) W(2)] W(3) by simp
    then show ?thesis using w(1) by simp
  qed
  from Upvalue_Create_run [OF assms, of imm] show ?thesis
  proof
    assume "create_shares V dst (Upvalue_Create dst imm V)"
    then obtain u where "Upvalue_Create dst imm V = Inr (u, V)" "is_open (h_upvalues V) u" "uv_slot (h_upvalues V) u = dst"
      "uv_store V u = Some (v_stack V ! dst)" using assms(1) by (rule create_shares_store)
    then show ?thesis using again [of V u] assms(1) is_open_ptr by (intro exI [of _ u] exI [of _ V]) auto
  next
    assume l: "create_links V dst imm (Upvalue_Create dst imm V)"
    have none: "\<not> (\<exists>w. is_open (h_upvalues V) w \<and> uv_slot (h_upvalues V) w = dst)" using l by (auto simp: create_links_def)
    from l assms(1) show ?thesis
    proof (rule create_links_store, goal_cases)
      case (1 V')
      then show ?case using none again [of V' "length (h_upvalues V)"] is_open_ptr [OF 1(3)]
        by (intro exI [of _ "length (h_upvalues V)"] exI [of _ V']) simp
    qed
  qed
qed

text \<open>Two open upvalues, of the slots 0 and 2.\<close>

definition uv_vm :: VM where
  "uv_vm = empty_vm\<lparr>v_stack := [TInt 5, TInt 6, TInt 7],
     h_upvalues := [\<lparr>uv_ptr = Some 0, uv_tv = TImpossible, uv_prev = None, uv_isClosed = False, uv_isImmutable = False\<rparr>,
       \<lparr>uv_ptr = Some 2, uv_tv = TImpossible, uv_prev = Some 0, uv_isClosed = False, uv_isImmutable = False\<rparr>],
     m_upvalueList := Some 1,
     h_funs := [\<lparr>fo_type = SOM_Method, fo_lookup = SOM_NormalMethod, fo_executable = 0, fo_upvalues = []\<rparr>]\<rparr>"

lemma uv_vm_ok: "upvalues_ok uv_vm"
  unfolding upvalues_ok_def
proof
  show "uv_list uv_vm [1, 0]"
    by (auto simp: uv_list_def uv_vm_def uv_slot_def is_open_def less_Suc_eq)
qed

theorem Upvalue_Create_correct_witness:
  "\<exists>u V'. Upvalue_Create 1 False uv_vm = Inr (u, V') \<and> uv_ptr (h_upvalues V' ! u) = Some 1 \<and> Upvalue_Create 1 False V' = Inr (u, V')"
  using Upvalue_Create_correct [OF uv_vm_ok, of 1 False False] by (fastforce simp: uv_vm_def)

text \<open>
  C31. \<open>CloseUpvalues\<close> always returns. It closes exactly the upvalues at or above \<open>base\<close>, as the reference
  \<open>close_from\<close> says, and keeps the list sorted. Every upvalue then sees the value it saw before, whatever
  later happens to the stack at and above \<open>base\<close>.
\<close>

theorem CloseUpvalues_correct:
  assumes "upvalues_ok V" "base \<le> length (v_stack V)"
  shows "\<exists>V'. CloseUpvalues base V = Inr ((), V') \<and> upvalues_ok V' \<and>
     h_upvalues V' = map (close_from (v_stack V) base) (h_upvalues V) \<and> v_stack V' = v_stack V \<and>
     (\<forall>above. uv_store (V'\<lparr>v_stack := take base (v_stack V) @ above\<rparr>) = uv_store V)"
proof -
  obtain us where us: "uv_list V us" using assms(1) unfolding upvalues_ok_def by blast
  let ?U' = "map (close_from (v_stack V) base) (h_upvalues V)"
  let ?h = "case kept_uvs (h_upvalues V) base us of [] \<Rightarrow> None | u # _ \<Rightarrow> Some u"
  let ?V' = "V\<lparr>h_upvalues := ?U', m_upvalueList := ?h\<rparr>"
  have ok': "upvalues_ok ?V'" using uv_list_close [OF us, of base] unfolding upvalues_ok_def by blast
  have "uv_store (?V'\<lparr>v_stack := take base (v_stack V) @ above\<rparr>) u = uv_store V u" for above u
  proof (cases "is_open ?U' u")
    case True
    then have u: "is_open (h_upvalues V) u" "uv_slot (h_upvalues V) u < base" "u < length (h_upvalues V)"
      by (simp_all add: is_open_close_from) (simp add: is_open_def)
    then have "uv_slot ?U' u = uv_slot (h_upvalues V) u" by (simp add: close_from_nth_slot)
    then show ?thesis using u True assms by (simp add: uv_store_open uv_store_eq nth_append)
  next
    case False
    then show ?thesis
      using assms(1) by (cases "u < length (h_upvalues V)")
        (auto simp: uv_store_eq uv_store_none uv_store_closed is_open_def close_from_def uv_slot_def split: option.splits if_splits)
  qed
  then show ?thesis using CloseUpvalues_run [OF us, of base] ok' by (intro exI [of _ ?V']) (auto simp: fun_eq_iff)
qed

theorem CloseUpvalues_correct_witness:
  "\<exists>V'. CloseUpvalues 1 uv_vm = Inr ((), V') \<and> uv_store (V'\<lparr>v_stack := [TInt 5, TNil, TNil]\<rparr>) 1 = Some (TInt 7)"
proof -
  have "1 \<le> length (v_stack uv_vm)" "uv_store uv_vm 1 = Some (TInt 7)" "take 1 (v_stack uv_vm) @ [TNil, TNil] = [TInt 5, TNil, TNil]"
    by (simp_all add: uv_vm_def uv_store_def read_upvalue_def)
  with CloseUpvalues_correct [OF uv_vm_ok, of 1] show ?thesis by metis
qed

lemma write_upvalue_correct:
  assumes "upvalues_ok V" "u < length (h_upvalues V)"
  shows "\<exists>V'. write_upvalue u v V = Inr ((), V') \<and> upvalues_ok V' \<and> uv_store V' = (uv_store V)(u \<mapsto> v)"
proof (cases "uv_ptr (h_upvalues V ! u)")
  case None
  let ?V = "V\<lparr>h_upvalues := (h_upvalues V)[u := (h_upvalues V ! u)\<lparr>uv_tv := v\<rparr>]\<rparr>"
  have run: "write_upvalue u v V = Inr ((), ?V)"
    using assms None by (simp add: write_upvalue_def bindS_app set_upvalue_def)
  obtain us where us: "uv_list V us" using assms(1) unfolding upvalues_ok_def by blast
  then have ch: "uv_chain (h_upvalues V) (m_upvalueList ?V) us" by (simp add: uv_list_def)
  have op: "is_open (h_upvalues ?V) w = is_open (h_upvalues V) w" "uv_slot (h_upvalues ?V) w = uv_slot (h_upvalues V) w"
    "uv_prev (h_upvalues ?V ! w) = uv_prev (h_upvalues V ! w)" for w
    using None by (cases "w = u"; simp add: is_open_def uv_slot_def assms(2))+
  have "uv_list ?V us"
    unfolding uv_list_def
  proof (intro conjI ballI)
    show "uv_chain (h_upvalues ?V) (m_upvalueList ?V) us"
      using ch by (rule uv_chain_cong [where U = "h_upvalues V"]) (use uv_chain_less [OF ch] op(3) in simp_all)
    fix c assume "c \<in> set (h_upvalues ?V)"
    then have "c = (h_upvalues V ! u)\<lparr>uv_tv := v\<rparr> \<or> c \<in> set (h_upvalues V)"
      using set_update_subset_insert [of "h_upvalues V" u] by auto
    then show "uv_isClosed c \<longleftrightarrow> uv_ptr c = None" using us assms(2) by (auto simp: uv_list_def)
  qed (use us op in \<open>auto simp: uv_list_def\<close>)
  then have ok': "upvalues_ok ?V" unfolding upvalues_ok_def by blast
  moreover have "uv_store ?V = (uv_store V)(u \<mapsto> v)"
    using uv_store_eq [OF ok'] uv_store_eq [OF assms(1)] op None assms(2) by (auto simp: fun_eq_iff is_open_def nth_list_update)
  ultimately show ?thesis using run by blast
next
  case (Some i)
  let ?V = "V\<lparr>v_stack := (v_stack V)[i := v]\<rparr>"
  have u: "is_open (h_upvalues V) u" "uv_slot (h_upvalues V) u = i" using Some assms(2) by (simp_all add: is_open_def uv_slot_def)
  then have i: "i < length (v_stack V)" using upvalues_ok_slot [OF assms(1)] by blast
  have run: "write_upvalue u v V = Inr ((), ?V)"
    using assms Some i by (simp add: write_upvalue_def bindS_app)
  have ok': "upvalues_ok ?V" using assms(1) by (rule upvalues_ok_stack_cong) simp_all
  moreover have "uv_store ?V w = ((uv_store V)(u \<mapsto> v)) w" for w
    using u i upvalues_ok_inj [OF assms(1), of u w] upvalues_ok_slot [OF assms(1), of w]
    by (cases "w = u") (auto simp: uv_store_eq [OF ok'] uv_store_eq [OF assms(1)] nth_list_update)
  then have "uv_store ?V = (uv_store V)(u \<mapsto> v)" by (rule ext)
  ultimately show ?thesis using run by blast
qed

lemma read_upvalue_store: "uv_store V u = Some v \<Longrightarrow> read_upvalue u V = Inr (v, V)"
  by (auto simp: uv_store_def read_upvalue_def split: if_splits option.splits)

lemma uv_store_Some: "upvalues_ok V \<Longrightarrow> u < length (h_upvalues V) \<Longrightarrow> \<exists>v. uv_store V u = Some v"
  by (simp add: uv_store_eq)

text \<open>
  C32. Assigning a captured variable always returns. Every closure that captured the same variable reads the new
  value, and every other captured variable reads as before: two upvalues never share a stack slot.
\<close>

theorem UpvalueSet_correct:
  assumes "upvalues_ok V" "u < length (h_upvalues V)" "ord < length (fo_upvalues fo)" "fo_upvalues fo ! ord = UvRef u"
  shows "\<exists>V'. UpvalueSetImpl fo ord v V = Inr ((), V') \<and> upvalues_ok V' \<and> uv_store V' = (uv_store V)(u \<mapsto> v) \<and>
    (\<forall>fo' ord' w. ord' < length (fo_upvalues fo') \<and> fo_upvalues fo' ! ord' = UvRef w \<and> w < length (h_upvalues V) \<longrightarrow>
       MutableUpvalueGetImpl fo' ord' V' = Inr (if w = u then v else the (uv_store V w), V'))"
proof -
  obtain V' where V': "write_upvalue u v V = Inr ((), V')" "upvalues_ok V'" "uv_store V' = (uv_store V)(u \<mapsto> v)"
    using write_upvalue_correct [OF assms(1,2)] by blast
  have "read_upvalue w V' = Inr (if w = u then v else the (uv_store V w), V')" if "w < length (h_upvalues V)" for w
    using uv_store_Some [OF assms(1) that] V'(3) by (intro read_upvalue_store) auto
  then show ?thesis using V' assms(3,4) by (intro exI [of _ V']) (simp add: UpvalueSetImpl_def MutableUpvalueGetImpl_def)
qed

theorem UpvalueSet_correct_witness:
  "\<exists>V'. UpvalueSetImpl \<lparr>fo_type = SOM_BlockNoArg, fo_lookup = SOM_NormalMethod, fo_executable = 0, fo_upvalues = [UvRef 1]\<rparr> 0 TNil uv_vm =
     Inr ((), V') \<and> uv_store V' 0 = Some (TInt 5)"
proof -
  have "1 < length (h_upvalues uv_vm)" "uv_store uv_vm 0 = Some (TInt 5)"
    by (simp_all add: uv_vm_def uv_store_def read_upvalue_def)
  with UpvalueSet_correct [OF uv_vm_ok, of 1 0 "\<lparr>fo_type = SOM_BlockNoArg, fo_lookup = SOM_NormalMethod, fo_executable = 0, fo_upvalues = [UvRef 1]\<rparr>" TNil]
  show ?thesis by auto
qed

subsection \<open>Filling the upvalues of a closure\<close>

text \<open>What a closure created in the frame at \<open>fbase\<close> has to capture for one entry of its metadata.\<close>

definition captures :: "VM \<Rightarrow> nat \<Rightarrow> FunctionObject \<Rightarrow> nat \<Rightarrow> nat \<Rightarrow> UpvalueMetadata \<Rightarrow> upval \<Rightarrow> bool" where
  "captures V fbase p self r m x \<longleftrightarrow>
     (if \<not> um_isParentLocal m then x = fo_upvalues p ! um_slot m
      else if um_isImmutable m then x = UvImm (if um_slot m = self then TFun r else v_stack V ! (fbase + um_slot m))
      else case x of UvRef u \<Rightarrow> is_open (h_upvalues V) u \<and> uv_slot (h_upvalues V) u = fbase + um_slot m | _ \<Rightarrow> False)"

definition meta_ok :: "VM \<Rightarrow> nat \<Rightarrow> FunctionObject \<Rightarrow> UpvalueMetadata \<Rightarrow> bool" where
  "meta_ok V fbase p m \<longleftrightarrow>
     (if um_isParentLocal m then fbase + um_slot m < length (v_stack V) else um_slot m < length (fo_upvalues p))"

lemma meta_ok_cong: "v_stack V' = v_stack V \<Longrightarrow> meta_ok V' = meta_ok V"
  by (simp add: meta_ok_def fun_eq_iff)

definition uv_grows :: "VM \<Rightarrow> VM \<Rightarrow> bool" where
  "uv_grows V V' \<longleftrightarrow> upvalues_ok V' \<and> v_stack V' = v_stack V \<and> h_funs V' = h_funs V \<and> uv_store V \<subseteq>\<^sub>m uv_store V' \<and>
     (\<forall>u. is_open (h_upvalues V) u \<longrightarrow> is_open (h_upvalues V') u \<and> uv_slot (h_upvalues V') u = uv_slot (h_upvalues V) u)"

lemma uv_grows_refl: "upvalues_ok V \<Longrightarrow> uv_grows V V"
  by (simp add: uv_grows_def)

lemma uv_grows_trans: "uv_grows V V' \<Longrightarrow> uv_grows V' V'' \<Longrightarrow> uv_grows V V''"
  unfolding uv_grows_def by (auto intro: map_le_trans)

lemma captures_grows: "captures V fbase p self r m x \<Longrightarrow> uv_grows V V' \<Longrightarrow> captures V' fbase p self r m x"
  by (auto simp: captures_def uv_grows_def split: if_splits upval.splits)

lemma captures_cong: "v_stack V' = v_stack V \<Longrightarrow> h_upvalues V' = h_upvalues V \<Longrightarrow> captures V' = captures V"
  by (intro HOL.ext) (simp add: captures_def split: upval.split)

lemma Upvalue_Create_grows:
  assumes ok: "upvalues_ok V" and dst: "dst < length (v_stack V)"
  obtains u V' where "Upvalue_Create dst imm V = Inr (u, V')" "uv_grows V V'" "is_open (h_upvalues V') u" "uv_slot (h_upvalues V') u = dst"
proof (cases "create_shares V dst (Upvalue_Create dst imm V)")
  case True
  then show ?thesis using ok by (rule create_shares_store) (rule that; use uv_grows_refl [OF ok] in simp)
next
  case False
  then have l: "create_links V dst imm (Upvalue_Create dst imm V)" using Upvalue_Create_run [OF ok dst] by blast
  from l ok show ?thesis
  proof (rule create_links_store, goal_cases)
    case (1 V')
    have ext: "extends_uv (h_upvalues V) (h_upvalues V') dst imm" using l 1(1) by (auto simp: create_links_def)
    have "uv_grows V V'"
      using 1 is_open_extends [OF ext] uv_slot_extends(1) [OF ext] by (auto simp: uv_grows_def is_open_def map_le_def)
    with 1(1) show ?case using 1(3,4) by (rule that)
  qed
qed

lemma fill_upvalue_run:
  assumes "upvalues_ok V" "meta_ok V fbase p m"
  shows "\<exists>x V'. fill_upvalue fbase p self r m V = Inr (x, V') \<and> uv_grows V V' \<and> captures V' fbase p self r m x"
proof (cases "um_isParentLocal m \<and> \<not> um_isImmutable m")
  case True
  then have "fbase + um_slot m < length (v_stack V)" using assms(2) by (simp add: meta_ok_def)
  with assms(1) obtain u V' where "Upvalue_Create (fbase + um_slot m) (um_isImmutable m) V = Inr (u, V')" "uv_grows V V'"
    "is_open (h_upvalues V') u" "uv_slot (h_upvalues V') u = fbase + um_slot m" by (rule Upvalue_Create_grows)
  then show ?thesis using True by (auto simp: fill_upvalue_def bindS_app captures_def)
next
  case False
  then show ?thesis using assms uv_grows_refl [OF assms(1)]
    by (auto simp: fill_upvalue_def meta_ok_def captures_def bindS_app)
qed

lemma fill_upvalues_run:
  assumes "upvalues_ok V" "list_all (meta_ok V fbase p) ms"
  shows "\<exists>xs V'. fill_upvalues fbase p self r ms V = Inr (xs, V') \<and> uv_grows V V' \<and> list_all2 (captures V' fbase p self r) ms xs"
  using assms
proof (induction ms arbitrary: V)
  case Nil
  then show ?case by (simp add: uv_grows_refl)
next
  case (Cons m ms)
  from fill_upvalue_run [of V fbase p m self r] Cons.prems obtain x V1
    where x: "fill_upvalue fbase p self r m V = Inr (x, V1)" "uv_grows V V1" "captures V1 fbase p self r m x" by auto
  have "list_all (meta_ok V1 fbase p) ms" using Cons.prems x(2) by (simp add: uv_grows_def meta_ok_cong [of V1 V])
  then obtain xs V' where xs: "fill_upvalues fbase p self r ms V1 = Inr (xs, V')" "uv_grows V1 V'"
    "list_all2 (captures V' fbase p self r) ms xs" using Cons.IH [of V1] x(2) by (auto simp: uv_grows_def)
  then have "fill_upvalues fbase p self r (m # ms) V = Inr (x # xs, V')" using x by (simp add: bindS_app)
  moreover have "captures V' fbase p self r m x" by (rule captures_grows [OF x(3) xs(2)])
  ultimately show ?case using uv_grows_trans [OF x(2) xs(2)] xs(3) by auto
qed

text \<open>
  C33. A closure is created with exactly the variables its metadata names: a local that is never assigned is
  copied (the closure itself, when it is its own local), an assigned local is captured by the one open upvalue
  of its slot, and an outer variable is taken over from the parent. The variables of all other closures
  keep their values. This holds for up to 255 captured variables; the eight bits of the count do not hold more, and the
  behaviour is then undefined.
\<close>

theorem CreateAndFillUpvalues_correct:
  assumes "upvalues_ok V" "parent < length (h_funs V)" "list_all (meta_ok V fbase (h_funs V ! parent)) (cb_upvalueInfo cb)"
    "needExtraUpvalueDueToTrivialFn cb \<longrightarrow> cb_upvalueInfo cb = []"
  shows "if 255 < length (cb_upvalueInfo cb) then CreateAndFillUpvalues tb cb fbase parent self V = Inl Undefined
     else \<exists>xs V'. CreateAndFillUpvalues tb cb fbase parent self V = Inr (length (h_funs V), V') \<and>
       h_funs V' = h_funs V @ [\<lparr>fo_type = cb_fnKind cb, fo_lookup = cb_trivialFnType cb, fo_executable = cb_executable cb,
          fo_upvalues = xs @ (if needExtraUpvalueDueToTrivialFn cb then [cb_trivialFnInfo cb] else [])\<rparr>] \<and>
       list_all2 (captures V' fbase (h_funs V ! parent) self (length (h_funs V))) (cb_upvalueInfo cb) xs \<and>
       upvalues_ok V' \<and> v_stack V' = v_stack V \<and> uv_store V \<subseteq>\<^sub>m uv_store V'"
proof (cases "255 < length (cb_upvalueInfo cb)")
  case True
  then show ?thesis using assms(2,4)
    by (simp add: CreateAndFillUpvalues_def FunctionObject_Create_def TestAssert_def liftS_def the_fun_def bindS_app)
next
  case False
  let ?p = "h_funs V ! parent" and ?r = "length (h_funs V)"
  let ?f = "\<lparr>fo_type = cb_fnKind cb, fo_lookup = cb_trivialFnType cb, fo_executable = cb_executable cb, fo_upvalues = []\<rparr>"
  let ?V1 = "V\<lparr>h_funs := h_funs V @ [?f]\<rparr>"
  have ok1: "upvalues_ok ?V1" using assms(1) by (rule upvalues_ok_stack_cong) simp_all
  have store1: "uv_store ?V1 = uv_store V" by (simp add: fun_eq_iff uv_store_eq [OF ok1] uv_store_eq [OF assms(1)])
  have "list_all (meta_ok ?V1 fbase ?p) (cb_upvalueInfo cb)" using assms(3) by (simp add: meta_ok_cong [of ?V1 V])
  then obtain xs V2 where xs: "fill_upvalues fbase ?p self ?r (cb_upvalueInfo cb) ?V1 = Inr (xs, V2)" "uv_grows ?V1 V2"
    "list_all2 (captures V2 fbase ?p self ?r) (cb_upvalueInfo cb) xs" using fill_upvalues_run [OF ok1] by blast
  define uvs where "uvs = xs @ (if needExtraUpvalueDueToTrivialFn cb then [cb_trivialFnInfo cb] else [])"
  define V' where "V' = V2\<lparr>h_funs := (h_funs V2)[?r := (h_funs V2 ! ?r)\<lparr>fo_upvalues := uvs\<rparr>]\<rparr>"
  have V2: "upvalues_ok V2" "v_stack V2 = v_stack V" "h_funs V2 = h_funs V @ [?f]" "uv_store V \<subseteq>\<^sub>m uv_store V2"
    using xs(2) store1 by (simp_all add: uv_grows_def)
  have ok': "upvalues_ok V'" using V2(1) by (rule upvalues_ok_stack_cong) (simp_all add: V'_def)
  have "uv_store V' = uv_store V2" by (simp add: fun_eq_iff uv_store_eq [OF ok'] uv_store_eq [OF V2(1)]) (simp add: V'_def)
  moreover have "CreateAndFillUpvalues tb cb fbase parent self V = Inr (?r, V')"
    using assms(2,4) xs(1) False
    by (auto simp: CreateAndFillUpvalues_def FunctionObject_Create_def TestAssert_def liftS_def the_fun_def bindS_app V'_def uvs_def)
  moreover have "h_funs V' = h_funs V @ [?f\<lparr>fo_upvalues := uvs\<rparr>]" using V2(3) by (simp add: V'_def nth_append list_update_append)
  moreover have "captures V' = captures V2" by (rule captures_cong) (simp_all add: V'_def)
  ultimately show ?thesis using xs(3) ok' V2(2,4) False
    by (simp only: if_False) (intro exI [of _ xs] exI [of _ V']; simp add: uvs_def; simp add: V'_def)
qed

theorem CreateAndFillUpvalues_correct_witness:
  "\<exists>xs V'. CreateAndFillUpvalues True \<lparr>cb_executable = 4, cb_fnKind = SOM_BlockNoArg, cb_trivialFnType = SOM_NormalMethod,
       cb_trivialFnInfo = UvRaw 0, cb_upvalueInfo = [\<lparr>um_isParentLocal = True, um_isImmutable = False, um_slot = 1\<rparr>]\<rparr> 1 0 9 uv_vm =
       Inr (1, V') \<and> fo_upvalues (h_funs V' ! 1) = xs \<and> length xs = 1 \<and> upvalues_ok V'"
proof -
  let ?m = "\<lparr>um_isParentLocal = True, um_isImmutable = False, um_slot = 1\<rparr>"
  let ?cb = "\<lparr>cb_executable = 4, cb_fnKind = SOM_BlockNoArg, cb_trivialFnType = SOM_NormalMethod, cb_trivialFnInfo = UvRaw 0, cb_upvalueInfo = [?m]\<rparr>"
  have h: "length (h_funs uv_vm) = 1" "list_all (meta_ok uv_vm 1 (h_funs uv_vm ! 0)) (cb_upvalueInfo ?cb)"
    "\<not> needExtraUpvalueDueToTrivialFn ?cb"
    by (simp_all add: uv_vm_def meta_ok_def needExtraUpvalueDueToTrivialFn_def)
  then obtain xs V' where "CreateAndFillUpvalues True ?cb 1 0 9 uv_vm = Inr (1, V')"
    "h_funs V' = h_funs uv_vm @ [\<lparr>fo_type = SOM_BlockNoArg, fo_lookup = SOM_NormalMethod, fo_executable = 4, fo_upvalues = xs\<rparr>]"
    "list_all2 (captures V' 1 (h_funs uv_vm ! 0) 9 1) [?m] xs" "upvalues_ok V'"
    using CreateAndFillUpvalues_correct [OF uv_vm_ok, of 0 1 ?cb True 9] by auto
  then show ?thesis using h(1) list_all2_lengthD by (intro exI [of _ xs] exI [of _ V']) (fastforce simp: nth_append)
qed

end
