(* ===== verification/SortingNetwork.thy ===== *)
theory SortingNetwork
  imports "HOL-Library.Multiset" Prelude
begin

section \<open>Sorting networks\<close>

text \<open>
  \<open>src/drt/sorting_network.h\<close>: arrays of up to 16 numbers are sorted by a fixed sequence of compare-and-exchange
  steps taken from the tables \<open>x_data\<close>. The array is a list, its element type any linear order (for the
  floating-point instances: numbers other than NaN, for which the C++ comparison is one).

  That the tables sort is proved in three steps: a network commutes with monotone functions (the zero-one
  principle), the possible outputs on inputs of zeros and ones are over-approximated by sets of bit vectors
  held in tries, one per group of wires that have been compared, and the over-approximation of every
  table is computed.
\<close>

subsection \<open>The program\<close>

text \<open>\<open>DoCmp\<close> on the elements at \<open>i\<close> and \<open>j\<close>.\<close>

definition DoCmp :: "bool \<Rightarrow> nat \<Rightarrow> nat \<Rightarrow> 'a::linorder list \<Rightarrow> 'a list" where
  "DoCmp forAscend i j a =
     (let c = (if forAscend then a ! i \<le> a ! j else a ! j \<le> a ! i);
          tmp = a ! i;
          a1 = a[i := if c then a ! i else a ! j]
      in a1[j := if c then a ! j else tmp])"

fun RunImpl :: "bool \<Rightarrow> nat list \<Rightarrow> 'a::linorder list \<Rightarrow> 'a list" where
  "RunImpl forAscend (i # j # v) a = RunImpl forAscend v (DoCmp forAscend i j a)"
| "RunImpl forAscend v a = a"

definition x_data :: "nat list list" where
  "x_data = [
    [0,1],
    [0,2,
     0,1,
     1,2],
    [0,2,1,3,
     0,1,2,3,
     1,2],
    [0,3,1,4,
     0,2,1,3,
     0,1,2,4,
     1,2,3,4,
     2,3],
    [0,5,1,3,2,4,
     1,2,3,4,
     0,3,2,5,
     0,1,2,3,4,5,
     1,2,3,4],
    [0,6,2,3,4,5,
     0,2,1,4,3,6,
     0,1,2,5,3,4,
     1,2,4,6,
     2,3,4,5,
     1,2,3,4,5,6],
    [0,2,1,3,4,6,5,7,
     0,4,1,5,2,6,3,7,
     0,1,2,3,4,5,6,7,
     2,4,3,5,
     1,4,3,6,
     1,2,3,4,5,6],
    [0,3,1,7,2,5,4,8,
     0,7,2,4,3,8,5,6,
     0,2,1,3,4,5,7,8,
     1,4,3,6,5,7,
     0,1,2,4,3,5,6,8,
     2,3,4,5,6,7,
     1,2,3,4,5,6],
    [0,8,1,9,2,7,3,5,4,6,
     0,2,1,4,5,8,7,9,
     0,3,2,4,5,7,6,9,
     0,1,3,6,8,9,
     1,5,2,3,4,8,6,7,
     1,2,3,5,4,6,7,8,
     2,3,4,5,6,7,
     3,4,5,6],
    [0,9,1,6,2,4,3,7,5,8,
     0,1,3,5,4,10,6,9,7,8,
     1,3,2,5,4,7,8,10,
     0,4,1,2,3,7,5,9,6,8,
     0,1,2,6,4,5,7,8,9,10,
     2,4,3,6,5,7,8,9,
     1,2,3,4,5,6,7,8,
     2,3,4,5,6,7],
    [0,8,1,7,2,6,3,11,4,10,5,9,
     0,1,2,5,3,4,6,9,7,8,10,11,
     0,2,1,6,5,10,9,11,
     0,3,1,2,4,6,5,7,8,11,9,10,
     1,4,3,5,6,8,7,10,
     1,3,2,5,6,9,8,10,
     2,3,4,5,6,7,8,9,
     4,6,5,7,
     3,4,5,6,7,8],
    [0,12,1,10,2,9,3,7,5,11,6,8,
     1,6,2,3,4,11,7,9,8,10,
     0,4,1,2,3,6,7,8,9,10,11,12,
     4,6,5,9,8,11,10,12,
     0,5,3,8,4,7,6,11,9,10,
     0,1,2,5,6,9,7,8,10,11,
     1,3,2,4,5,6,9,10,
     1,2,3,4,5,7,6,8,
     2,3,4,5,6,7,8,9,
     3,4,5,6],
    [0,1,2,3,4,5,6,7,8,9,10,11,12,13,
     0,2,1,3,4,8,5,9,10,12,11,13,
     0,4,1,2,3,7,5,8,6,10,9,13,11,12,
     0,6,1,5,3,9,4,10,7,13,8,12,
     2,10,3,11,4,6,7,9,
     1,3,2,8,5,11,6,7,10,12,
     1,4,2,6,3,5,7,11,8,10,9,12,
     2,4,3,6,5,8,7,10,9,11,
     3,4,5,6,7,8,9,10,
     6,7],
    [1,2,3,10,4,14,5,8,6,13,7,12,9,11,
     0,14,1,5,2,8,3,7,6,9,10,12,11,13,
     0,7,1,6,2,9,4,10,5,11,8,13,12,14,
     0,6,2,4,3,5,7,11,8,10,9,12,13,14,
     0,3,1,2,4,7,5,9,6,8,10,11,12,13,
     0,1,2,3,4,6,7,9,10,12,11,13,
     1,2,3,5,8,10,11,12,
     3,4,5,6,7,8,9,10,
     2,3,4,5,6,7,8,9,10,11,
     5,6,7,8],
    [0,13,1,12,2,15,3,14,4,8,5,6,7,11,9,10,
     0,5,1,7,2,9,3,4,6,13,8,14,10,15,11,12,
     0,1,2,3,4,5,6,8,7,9,10,11,12,13,14,15,
     0,2,1,3,4,10,5,11,6,7,8,9,12,14,13,15,
     1,2,3,12,4,6,5,7,8,10,9,11,13,14,
     1,4,2,6,5,8,7,10,9,13,11,14,
     2,4,3,6,9,12,11,13,
     3,5,6,8,7,9,10,12,
     3,4,5,6,7,8,9,10,11,12,
     6,7,8,9]]"

definition x_maxLength :: nat where
  "x_maxLength = length x_data + 1"

definition RunWrapper :: "bool \<Rightarrow> nat \<Rightarrow> 'a::linorder list \<Rightarrow> 'a list" where
  "RunWrapper forAscend N a = (if 2 \<le> N then RunImpl forAscend (x_data ! (N - 2)) a else a)"

text \<open>The first \<open>N\<close> elements are copied to a temporary array, sorted there and copied back.\<close>

definition SortImpl :: "bool \<Rightarrow> nat \<Rightarrow> 'a::linorder list \<Rightarrow> 'a list" where
  "SortImpl forAscend N a = RunWrapper forAscend N (take N a) @ drop N a"

definition SortAscend :: "nat \<Rightarrow> 'a::linorder list \<Rightarrow> 'a list" where
  "SortAscend N a = SortImpl True N a"

definition SortDescend :: "nat \<Rightarrow> 'a::linorder list \<Rightarrow> 'a list" where
  "SortDescend N a = SortImpl False N a"

subsection \<open>The zero-one principle\<close>

text \<open>Every table entry is a wire of the network, and no step compares a wire with itself.\<close>

fun wires_ok :: "nat \<Rightarrow> nat list \<Rightarrow> bool" where
  "wires_ok N (i # j # v) \<longleftrightarrow> i < N \<and> j < N \<and> i \<noteq> j \<and> wires_ok N v"
| "wires_ok N [] \<longleftrightarrow> True"
| "wires_ok N [i] \<longleftrightarrow> False"

lemma length_DoCmp [simp]: "length (DoCmp asc i j a) = length a"
  by (simp add: DoCmp_def Let_def)

lemma length_RunImpl [simp]: "length (RunImpl asc v a) = length a"
  by (induction asc v a rule: RunImpl.induct) simp_all

lemma mset_DoCmp: "i < length a \<Longrightarrow> j < length a \<Longrightarrow> mset (DoCmp asc i j a) = mset a"
  by (simp add: DoCmp_def Let_def mset_swap list_update_id)

lemma mset_RunImpl: "wires_ok (length a) v \<Longrightarrow> mset (RunImpl asc v a) = mset a"
  by (induction asc v a rule: RunImpl.induct) (simp_all add: mset_DoCmp)

text \<open>The order a network establishes, and the functions to truth values that follow it.\<close>

definition below :: "bool \<Rightarrow> 'a::linorder \<Rightarrow> 'a \<Rightarrow> bool" where
  "below asc x y \<longleftrightarrow> (if asc then x \<le> y else y \<le> x)"

definition follows :: "bool \<Rightarrow> ('a::linorder \<Rightarrow> bool) \<Rightarrow> bool" where
  "follows asc f \<longleftrightarrow> (\<forall>x y. below asc x y \<longrightarrow> f x \<longrightarrow> f y)"

lemma below_total: "below asc x y \<or> below asc y x"
  by (auto simp: below_def)

lemma below_trans: "below asc x y \<Longrightarrow> below asc y z \<Longrightarrow> below asc x z"
  by (auto simp: below_def split: if_splits)

lemma follows_below: "follows asc (below asc y)"
  by (auto simp: follows_def intro: below_trans)

lemma DoCmp_below:
  "DoCmp asc i j a = (if below asc (a ! i) (a ! j) then a else a[i := a ! j, j := a ! i])"
  by (simp add: DoCmp_def below_def Let_def)

lemma DoCmp_map:
  assumes "follows asc f" "i < length a" "j < length a"
  shows "DoCmp True i j (map f a) = map f (DoCmp asc i j a)"
proof (cases "f (a ! i) = f (a ! j)")
  case True
  have "map f (a[i := a ! j, j := a ! i]) = (map f a)[i := f (a ! j), j := f (a ! i)]" by (simp add: map_update)
  also have "\<dots> = map f a" using True assms by (simp add: list_eq_iff_nth_eq nth_list_update)
  finally show ?thesis using assms True by (simp add: DoCmp_below below_def)
next
  case False
  then have "below True (f (a ! i)) (f (a ! j)) = below asc (a ! i) (a ! j)"
    using assms(1) below_total [of asc "a ! i" "a ! j"] by (auto simp: follows_def below_def)
  then show ?thesis using assms by (simp add: DoCmp_below map_update)
qed

lemma RunImpl_map:
  "follows asc f \<Longrightarrow> wires_ok (length a) v \<Longrightarrow> RunImpl True v (map f a) = map f (RunImpl asc v a)"
  by (induction asc v a rule: RunImpl.induct) (simp_all add: DoCmp_map)

lemma zero_one:
  assumes wires: "wires_ok N v" and zo: "\<And>b :: bool list. length b = N \<Longrightarrow> sorted (RunImpl True v b)"
    and len: "length a = N"
  shows "sorted_wrt (below asc) (RunImpl asc v a)"
  unfolding sorted_wrt_iff_nth_less
proof (intro allI impI)
  let ?r = "RunImpl asc v a"
  fix i j
  assume ij: "i < j" "j < length ?r"
  have "sorted (RunImpl True v (map (below asc (?r ! i)) a))" using zo len by simp
  then have "sorted (map (below asc (?r ! i)) ?r)" using RunImpl_map [OF follows_below [of asc "?r ! i"], of a v] wires len by simp
  then have "below asc (?r ! i) (?r ! i) \<le> below asc (?r ! i) (?r ! j)"
    using ij sorted_nth_mono [of "map (below asc (?r ! i)) ?r" i j] by simp
  then show "below asc (?r ! i) (?r ! j)" by (simp add: below_def split: if_splits)
qed

subsection \<open>Sets of bit vectors\<close>

text \<open>A set of bit vectors as a trie; the flag of a node says that the vector ends here.\<close>

datatype bset = E | B bool bset bset

fun member :: "bset \<Rightarrow> bool list \<Rightarrow> bool" where
  "member E x = False"
| "member (B e f t) [] = e"
| "member (B e f t) (b # x) = member (if b then t else f) x"

fun node :: "bset \<Rightarrow> bset \<Rightarrow> bset" where
  "node E E = E"
| "node f t = B False f t"

fun union :: "bset \<Rightarrow> bset \<Rightarrow> bset" where
  "union E u = u"
| "union u E = u"
| "union (B e f t) (B e' f' t') = B (e \<or> e') (union f f') (union t t')"

fun product :: "bset \<Rightarrow> bset \<Rightarrow> bset" where
  "product E u = E"
| "product (B e f t) u = (if e then union u else id) (node (product f u) (product t u))"

text \<open>The vectors with bit \<open>b\<close> at \<open>q\<close>, there changed to \<open>c\<close>.\<close>

fun change :: "nat \<Rightarrow> bool \<Rightarrow> bool \<Rightarrow> bset \<Rightarrow> bset" where
  "change q b c E = E"
| "change 0 b c (B e f t) = (if c then node E (if b then t else f) else node (if b then t else f) E)"
| "change (Suc q) b c (B e f t) = node (change q b c f) (change q b c t)"

text \<open>A step on the bits \<open>p < q\<close>; \<open>up\<close> says that the smaller bit goes to \<open>p\<close>.\<close>

fun cmp_set :: "bool \<Rightarrow> nat \<Rightarrow> nat \<Rightarrow> bset \<Rightarrow> bset" where
  "cmp_set up p q E = E"
| "cmp_set up p 0 (B e f t) = E"
| "cmp_set up 0 (Suc q) (B e f t) =
     (if up then node (union f (change q False True t)) (change q True True t)
      else node (change q False False f) (union t (change q True False f)))"
| "cmp_set up (Suc p) (Suc q) (B e f t) = node (cmp_set up p q f) (cmp_set up p q t)"

lemma member_node [simp]: "member (node f t) x \<longleftrightarrow> (case x of [] \<Rightarrow> False | b # y \<Rightarrow> member (if b then t else f) y)"
  by (cases f; cases t; cases x) simp_all

lemma member_union [simp]: "member (union u w) x \<longleftrightarrow> member u x \<or> member w x"
  by (induction u w arbitrary: x rule: union.induct) (case_tac x; simp)+

lemma member_product: "member u x \<Longrightarrow> member w y \<Longrightarrow> member (product u w) (x @ y)"
  by (induction u x rule: member.induct) (auto simp: split: if_splits)

lemma member_change: "member u x \<Longrightarrow> q < length x \<Longrightarrow> x ! q = b \<Longrightarrow> member (change q b c u) (x[q := c])"
proof (induction q b c u arbitrary: x rule: change.induct)
  case (2 b c e f t)
  then show ?case by (cases x) auto
next
  case (3 q b c e f t)
  then show ?case by (cases x) (auto split: if_splits)
qed simp

lemma member_keep: "member u x \<Longrightarrow> q < length x \<Longrightarrow> x ! q = b \<Longrightarrow> member (change q b b u) x"
  using member_change [of u x q b b] list_update_id [of x q] by simp

lemma member_cmp_set:
  "member u x \<Longrightarrow> p < q \<Longrightarrow> q < length x \<Longrightarrow>
     member (cmp_set up p q u) (if up then DoCmp True p q x else DoCmp True q p x)"
proof (induction up p q u arbitrary: x rule: cmp_set.induct)
  case (3 up q e f t)
  then obtain b y where x: "x = b # y" "member (if b then t else f) y" "q < length y" by (cases x) auto
  show ?case
    using x member_change [of "if b then t else f" y q] member_keep [of "if b then t else f" y q]
    by (cases b; cases "y ! q"; cases up) (simp_all add: DoCmp_below below_def)
next
  case (4 up p q e f t)
  then obtain b y where x: "x = b # y" "member (if b then t else f) y" "q < length y" by (cases x) auto
  then show ?case using 4(1,2) [of y] 4(4) by (cases b; cases up) (auto simp: DoCmp_below)
qed simp_all

subsection \<open>The outputs of a network\<close>

text \<open>
  A group is a list of wires with the vectors their values can form; wires of different groups have not been
  compared yet. A step merges the groups of its wires.
\<close>

type_synonym group = "nat list \<times> bset"

fun merge :: "group list \<Rightarrow> group" where
  "merge [] = ([], B True E E)"
| "merge ((ws, u) # gs) = (case merge gs of (ws', u') \<Rightarrow> (ws @ ws', product u u'))"

fun position :: "nat \<Rightarrow> nat list \<Rightarrow> nat" where
  "position i [] = 0"
| "position i (w # ws) = (if w = i then 0 else Suc (position i ws))"

definition cmp_group :: "nat \<Rightarrow> nat \<Rightarrow> group \<Rightarrow> group list" where
  "cmp_group i j g = (case g of (ws, u) \<Rightarrow>
     if distinct ws \<and> i \<in> set ws \<and> j \<in> set ws
     then let p = position i ws; q = position j ws in
       [(ws, if p < q then cmp_set True p q u else cmp_set False q p u)]
     else [])"

definition touches :: "nat \<Rightarrow> nat \<Rightarrow> group \<Rightarrow> bool" where
  "touches i j g \<longleftrightarrow> i \<in> set (fst g) \<or> j \<in> set (fst g)"

fun outputs :: "nat list \<Rightarrow> group list \<Rightarrow> group list" where
  "outputs (i # j # v) gs =
     outputs v (cmp_group i j (merge (filter (touches i j) gs)) @ filter (\<lambda>g. \<not> touches i j g) gs)"
| "outputs v gs = gs"

definition fits :: "bool list \<Rightarrow> group list \<Rightarrow> bool" where
  "fits x gs \<longleftrightarrow> (\<forall>(ws, u)\<in>set gs. member u (map ((!) x) ws) \<and> (\<forall>w\<in>set ws. w < length x))"

lemma fits_Cons [simp]: "fits x ((ws, u) # gs) \<longleftrightarrow> member u (map ((!) x) ws) \<and> (\<forall>w\<in>set ws. w < length x) \<and> fits x gs"
  by (auto simp: fits_def)

lemma fits_append: "fits x (gs @ hs) \<longleftrightarrow> fits x gs \<and> fits x hs"
  by (auto simp: fits_def)

lemma fits_Nil [simp]: "fits x []"
  by (simp add: fits_def)

lemma fits_filter: "fits x gs \<Longrightarrow> fits x (filter P gs)"
  by (auto simp: fits_def)

lemma fits_merge: "fits x gs \<Longrightarrow> fits x [merge gs]"
  by (induction gs rule: merge.induct) (auto split: prod.splits intro: member_product)

lemma position_less: "i \<in> set ws \<Longrightarrow> position i ws < length ws"
  by (induction ws) auto

lemma nth_position: "i \<in> set ws \<Longrightarrow> ws ! position i ws = i"
  by (induction ws) auto

lemma map_DoCmp:
  assumes "distinct ws" "i \<in> set ws" "j \<in> set ws" "i \<noteq> j" "\<forall>w\<in>set ws. w < length x"
  shows "map ((!) (DoCmp True i j x)) ws = DoCmp True (position i ws) (position j ws) (map ((!) x) ws)"
proof (rule nth_equalityI)
  fix k
  assume "k < length (map ((!) (DoCmp True i j x)) ws)"
  then have k: "k < length ws" by simp
  have pos: "position i ws < length ws" "position j ws < length ws" "ws ! position i ws = i" "ws ! position j ws = j"
    using assms position_less nth_position by auto
  have "ws ! k < length x" using assms(5) k by simp
  moreover have "ws ! k = i \<longleftrightarrow> k = position i ws" "ws ! k = j \<longleftrightarrow> k = position j ws"
    using assms(1) k pos by (metis nth_eq_iff_index_eq)+
  ultimately show "map ((!) (DoCmp True i j x)) ws ! k = DoCmp True (position i ws) (position j ws) (map ((!) x) ws) ! k"
    using k pos assms(4,5) by (auto simp: DoCmp_below nth_list_update)
qed simp

lemma fits_cmp_group:
  assumes "fits x [g]" "i \<noteq> j"
  shows "fits (DoCmp True i j x) (cmp_group i j g)"
proof -
  obtain ws u where g: "g = (ws, u)" by (cases g)
  show ?thesis
  proof (cases "distinct ws \<and> i \<in> set ws \<and> j \<in> set ws")
    case True
    have p: "position i ws < length ws" "position j ws < length ws" "position i ws \<noteq> position j ws"
      using True position_less nth_position assms(2) by (auto, metis)
    have "member u (map ((!) x) ws)" "\<forall>w\<in>set ws. w < length x" using assms(1) g by simp_all
    then show ?thesis
      using True p g map_DoCmp [of ws i j x] assms(2)
        member_cmp_set [of u "map ((!) x) ws" "position i ws" "position j ws" True]
        member_cmp_set [of u "map ((!) x) ws" "position j ws" "position i ws" False]
      by (cases "position i ws < position j ws") (simp_all add: cmp_group_def Let_def)
  next
    case False
    then show ?thesis by (auto simp: g cmp_group_def)
  qed
qed

lemma fits_untouched:
  assumes "fits x gs" "\<forall>g\<in>set gs. \<not> touches i j g"
  shows "fits (DoCmp True i j x) gs"
  unfolding fits_def
proof (clarify, intro conjI)
  fix ws u
  assume g: "(ws, u) \<in> set gs"
  then have "i \<notin> set ws" "j \<notin> set ws" using assms(2) by (auto simp: touches_def)
  then have "DoCmp True i j x ! w = x ! w" if "w \<in> set ws" for w
    using that by (cases "w = i"; cases "w = j") (simp_all add: DoCmp_below)
  then have eq: "map ((!) (DoCmp True i j x)) ws = map ((!) x) ws" by simp
  show "member u (map ((!) (DoCmp True i j x)) ws)" "\<forall>w\<in>set ws. w < length (DoCmp True i j x)"
    unfolding eq using assms(1) g by (auto simp: fits_def)
qed

lemma fits_outputs:
  "fits x gs \<Longrightarrow> wires_ok N v \<Longrightarrow> fits (RunImpl True v x) (outputs v gs)"
proof (induction v gs arbitrary: x rule: outputs.induct)
  case (1 i j v gs)
  have "fits (DoCmp True i j x) (cmp_group i j (merge (filter (touches i j) gs)) @ filter (\<lambda>g. \<not> touches i j g) gs)"
    unfolding fits_append
  proof
    show "fits (DoCmp True i j x) (cmp_group i j (merge (filter (touches i j) gs)))"
      using 1(2,3) by (intro fits_cmp_group fits_merge fits_filter) simp_all
    show "fits (DoCmp True i j x) (filter (\<lambda>g. \<not> touches i j g) gs)"
      using 1(2) by (intro fits_untouched fits_filter) simp_all
  qed
  then show ?case using 1 by simp
qed simp_all

text \<open>All vectors of a set, and the test that a network of \<open>N\<close> wires sorts.\<close>

fun vectors :: "bset \<Rightarrow> bool list list" where
  "vectors E = []"
| "vectors (B e f t) = (if e then [[]] else []) @ map ((#) False) (vectors f) @ map ((#) True) (vectors t)"

fun ascending :: "bool list \<Rightarrow> bool" where
  "ascending (a # b # x) \<longleftrightarrow> (a \<longrightarrow> b) \<and> ascending (b # x)"
| "ascending x \<longleftrightarrow> True"

definition start :: "nat \<Rightarrow> group list" where
  "start N = map (\<lambda>i. ([i], B False (B True E E) (B True E E))) [0..<N]"

definition sorts :: "nat \<Rightarrow> nat list \<Rightarrow> bool" where
  "sorts N v \<longleftrightarrow> wires_ok N v \<and>
     (case outputs v (start N) of
        [(ws, u)] \<Rightarrow> list_all (\<lambda>x. ascending (map (\<lambda>i. x ! position i ws) [0..<N])) (vectors u) \<and> list_all (\<lambda>i. i \<in> set ws) [0..<N]
      | _ \<Rightarrow> False)"

lemma member_vectors: "member u x \<Longrightarrow> x \<in> set (vectors u)"
  by (induction u x rule: member.induct) (auto split: if_splits)

lemma ascending_sorted: "ascending x \<longleftrightarrow> sorted x"
  by (induction x rule: ascending.induct) (auto simp: le_bool_def)

lemma fits_start: "length x = N \<Longrightarrow> fits x (start N)"
  by (auto simp: fits_def start_def)

lemma single_cases:
  obtains "xs = []" | x y where "xs = [(x, y)]" | a b r where "xs = a # b # r"
  by (cases xs; cases "tl xs"; cases "hd xs") auto

lemma sorts_sorted:
  assumes "sorts N v" "length (x :: bool list) = N"
  shows "sorted (RunImpl True v x)"
proof -
  let ?r = "RunImpl True v x"
  obtain ws u where out: "outputs v (start N) = [(ws, u)]" and ok: "wires_ok N v"
    and asc: "\<forall>y\<in>set (vectors u). ascending (map (\<lambda>i. y ! position i ws) [0..<N])" and ws: "\<forall>i<N. i \<in> set ws"
    using assms(1) by (cases "outputs v (start N)" rule: single_cases) (auto simp: sorts_def list_all_iff)
  have "fits ?r [(ws, u)]" using fits_outputs [OF fits_start [OF assms(2)] ok] out by simp
  then have "ascending (map (\<lambda>i. map ((!) ?r) ws ! position i ws) [0..<N])" using asc member_vectors by auto
  moreover have "map (\<lambda>i. map ((!) ?r) ws ! position i ws) [0..<N] = ?r"
    using ws assms(2) by (intro nth_equalityI) (simp_all add: position_less nth_position)
  ultimately show ?thesis by (simp add: ascending_sorted)
qed


subsection \<open>The tables sort\<close>

lemma sorts_to_13: "list_all (\<lambda>N. sorts N (x_data ! (N - 2))) [2..<14]"
  by code_simp

lemma sorts_14_15: "sorts 14 (x_data ! 12)" "sorts 15 (x_data ! 13)"
  by code_simp+

lemma sorts_16: "sorts 16 (x_data ! 14)"
  by code_simp

lemma x_data_sorts:
  assumes "2 \<le> N" "N \<le> x_maxLength"
  shows "sorts N (x_data ! (N - 2))"
proof -
  have "N < 14 \<or> N = 14 \<or> N = 15 \<or> N = 16" using assms(2) by (auto simp: x_maxLength_def x_data_def)
  moreover have "sorts N (x_data ! (N - 2))" if "N < 14"
    using sorts_to_13 that assms(1) unfolding list_all_iff by (metis atLeastLessThan_iff set_upt)
  ultimately show ?thesis using sorts_14_15 sorts_16 by auto
qed

lemma RunWrapper_sorts:
  assumes "length a = N" "N \<le> x_maxLength"
  shows "sorted_wrt (below asc) (RunWrapper asc N a) \<and> mset (RunWrapper asc N a) = mset a"
proof (cases "2 \<le> N")
  case True
  have s: "sorts N (x_data ! (N - 2))" using True assms(2) by (rule x_data_sorts)
  then have w: "wires_ok N (x_data ! (N - 2))" by (simp add: sorts_def)
  show ?thesis using True zero_one [OF w sorts_sorted [OF s] assms(1)] mset_RunImpl [of a] w assms(1)
    by (simp add: RunWrapper_def)
next
  case False
  then show ?thesis using assms(1) by (cases a; cases "tl a") (auto simp: RunWrapper_def)
qed

text \<open>
  C34. For every length that has a table, \<open>SortAscend\<close> and \<open>SortDescend\<close> sort the first elements of the array, in
  ascending and in descending order, and leave the others alone.
\<close>

theorem sorting_network_sorts:
  assumes "N \<le> x_maxLength" "N \<le> length a"
  shows "SortAscend N a = sort (take N a) @ drop N a \<and> SortDescend N a = rev (sort (take N a)) @ drop N a"
proof
  note len = length_take [of N a, unfolded min_absorb2 [OF assms(2)]]
  have up: "sorted (RunWrapper True N (take N a))" "mset (RunWrapper True N (take N a)) = mset (take N a)"
    using RunWrapper_sorts [OF len assms(1), of True] by (simp_all add: below_def [abs_def])
  then show "SortAscend N a = sort (take N a) @ drop N a"
    by (simp add: SortAscend_def SortImpl_def properties_for_sort)
  have down: "sorted (rev (RunWrapper False N (take N a)))" "mset (RunWrapper False N (take N a)) = mset (take N a)"
    using RunWrapper_sorts [OF len assms(1), of False] by (simp_all add: below_def [abs_def] sorted_wrt_rev)
  then have "sort (take N a) = rev (RunWrapper False N (take N a))" by (intro properties_for_sort) simp_all
  then show "SortDescend N a = rev (sort (take N a)) @ drop N a" by (simp add: SortDescend_def SortImpl_def)
qed

theorem sorting_network_sorts_witness: "SortDescend 4 [3, 1, 4, 1, 5 :: int] = [4, 3, 1, 1, 5]"
  using sorting_network_sorts [of 4 "[3, 1, 4, 1, 5 :: int]"] by (simp add: x_maxLength_def x_data_def insort_key.simps)

end
