(* ===== verification/SpdsList.thy ===== *)
theory SpdsList
  imports Prelude
begin

section \<open>Circular doubly-linked lists\<close>

text \<open>
  \<open>SpdsDoublyLinkedList\<close> and \<open>SpdsDoublyLinkedListNode\<close> of \<open>src/runtime/spds_doubly_linked_list.h\<close>: an intrusive
  circular list with an anchor. The memory maps each node address to its two links; the null link is \<open>None\<close>.
  Several lists share one memory, so the results also say which nodes keep their links.
\<close>

subsection \<open>The program\<close>

record 'n dnode =
  m_prevNode :: "'n option"
  m_nextNode :: "'n option"

type_synonym 'n dmem = "'n \<Rightarrow> 'n dnode"

definition unlinked :: "'n dnode" where
  "unlinked = \<lparr>m_prevNode = None, m_nextNode = None\<rparr>"

definition IsOnDoublyLinkedList :: "'n dmem \<Rightarrow> 'n \<Rightarrow> bool" where
  "IsOnDoublyLinkedList H n \<longleftrightarrow> m_prevNode (H n) \<noteq> None"

definition set_prev :: "'n \<Rightarrow> 'n option \<Rightarrow> 'n dmem \<Rightarrow> 'n dmem" where
  "set_prev n p H = H(n := (H n)\<lparr>m_prevNode := p\<rparr>)"

definition set_next :: "'n \<Rightarrow> 'n option \<Rightarrow> 'n dmem \<Rightarrow> 'n dmem" where
  "set_next n p H = H(n := (H n)\<lparr>m_nextNode := p\<rparr>)"

definition RemoveFromDoublyLinkedList :: "'n \<Rightarrow> 'n dmem \<Rightarrow> 'n dmem res" where
  "RemoveFromDoublyLinkedList n H =
     (case (m_prevNode (H n), m_nextNode (H n)) of
        (Some prv, Some nxt) \<Rightarrow>
          Inr (set_next n None (set_prev n None (set_next prv (Some nxt) (set_prev nxt (Some prv) H))))
      | _ \<Rightarrow> Inl Undefined)"

definition SpdsDoublyLinkedList :: "'n \<Rightarrow> 'n dmem \<Rightarrow> 'n dmem" where
  "SpdsDoublyLinkedList anchor H = set_next anchor (Some anchor) (set_prev anchor (Some anchor) H)"

definition IsEmpty :: "'n \<Rightarrow> 'n dmem \<Rightarrow> bool" where
  "IsEmpty anchor H \<longleftrightarrow> m_prevNode (H anchor) = Some anchor"

definition InsertAtHead :: "'n \<Rightarrow> 'n \<Rightarrow> 'n dmem \<Rightarrow> 'n dmem res" where
  "InsertAtHead anchor p H =
     (case m_nextNode (H anchor) of
        Some head \<Rightarrow>
          Inr (set_next anchor (Some p) (set_prev head (Some p) (set_next p (Some head) (set_prev p (Some anchor) H))))
      | None \<Rightarrow> Inl Undefined)"

text \<open>The iteration from \<open>begin()\<close> to \<open>end()\<close>, the anchor; the fuel bounds the number of elements.\<close>

fun elements_from :: "nat \<Rightarrow> 'n \<Rightarrow> 'n dmem \<Rightarrow> 'n option \<Rightarrow> 'n list res" where
  "elements_from fuel anchor H None = Inl Undefined"
| "elements_from fuel anchor H (Some n) =
     (if n = anchor then Inr []
      else case fuel of
             0 \<Rightarrow> Inl OutOfFuel
           | Suc k \<Rightarrow> bindR (elements_from k anchor H (m_nextNode (H n))) (\<lambda>ns. Inr (n # ns)))"

definition elements :: "nat \<Rightarrow> 'n \<Rightarrow> 'n dmem \<Rightarrow> 'n list res" where
  "elements fuel anchor H = elements_from fuel anchor H (m_nextNode (H anchor))"

subsection \<open>The list a memory holds\<close>

fun links :: "'n dmem \<Rightarrow> 'n list \<Rightarrow> bool" where
  "links H (x # y # zs) \<longleftrightarrow> m_nextNode (H x) = Some y \<and> m_prevNode (H y) = Some x \<and> links H (y # zs)"
| "links H xs \<longleftrightarrow> True"

definition dll :: "'n dmem \<Rightarrow> 'n \<Rightarrow> 'n list \<Rightarrow> bool" where
  "dll H a xs \<longleftrightarrow> distinct (a # xs) \<and> links H (a # xs @ [a])"

lemmas dmem_defs = set_prev_def set_next_def

lemma links_append:
  "links H (xs @ x # y # zs) \<longleftrightarrow> links H (xs @ [x]) \<and> m_nextNode (H x) = Some y \<and> m_prevNode (H y) = Some x \<and> links H (y # zs)"
  by (induction xs rule: induct_list012) auto

lemma links_cong:
  "(\<And>x. x \<in> set (butlast xs) \<Longrightarrow> m_nextNode (H' x) = m_nextNode (H x)) \<Longrightarrow>
   (\<And>x. x \<in> set (tl xs) \<Longrightarrow> m_prevNode (H' x) = m_prevNode (H x)) \<Longrightarrow> links H' xs = links H xs"
  by (induction H xs rule: links.induct) (auto split: if_splits)

lemma dll_cong: "(\<And>x. x \<in> set (a # xs) \<Longrightarrow> H' x = H x) \<Longrightarrow> dll H' a xs = dll H a xs"
  unfolding dll_def by (intro conj_cong links_cong refl) (auto dest: in_set_butlastD)

lemma dll_empty: "dll (SpdsDoublyLinkedList a H) a []"
  by (simp add: dll_def SpdsDoublyLinkedList_def dmem_defs)

lemma links_mid: "links H (us @ x # y # vs) \<Longrightarrow> m_nextNode (H x) = Some y \<and> m_prevNode (H y) = Some x"
  by (simp add: links_append)

text \<open>The neighbours of a node, and the lists on both sides of it.\<close>

lemma dll_split:
  assumes "dll H a (us @ n # vs)"
  obtains xs x y ys where "a # us = xs @ [x]" "vs @ [a] = y # ys" "links H (xs @ [x])" "links H (y # ys)"
    "m_prevNode (H n) = Some x" "m_nextNode (H n) = Some y" "x \<in> set (a # us)" "y \<in> set (a # vs)"
proof -
  obtain xs x where x: "a # us = xs @ [x]" by (cases "a # us" rule: rev_cases) auto
  obtain y ys where y: "vs @ [a] = y # ys" by (cases "vs @ [a]") auto
  have "a # (us @ n # vs) @ [a] = xs @ x # n # y # ys"
    using arg_cong [OF x, of "\<lambda>l. l @ n # vs @ [a]"] y by simp
  then have l: "links H (xs @ x # n # y # ys)" using assms unfolding dll_def by simp
  have "x \<in> set (a # us)" unfolding x by simp
  moreover have "y \<in> set (vs @ [a])" unfolding y by simp
  then have "y \<in> set (a # vs)" by auto
  moreover have "links H (xs @ [x])" "links H (n # y # ys)" "m_prevNode (H n) = Some x"
    using l by (simp_all add: links_append)
  ultimately show thesis using x y that [of xs x y ys] by auto
qed

lemma dll_IsOn: "dll H a xs \<Longrightarrow> n \<in> set xs \<Longrightarrow> IsOnDoublyLinkedList H n"
  by (auto simp: IsOnDoublyLinkedList_def dest!: split_list elim: dll_split)

lemma dll_IsEmpty: "dll H a xs \<Longrightarrow> IsEmpty a H \<longleftrightarrow> xs = []"
proof (cases xs rule: rev_cases)
  case (snoc ys y)
  assume "dll H a xs"
  then have "links H ((a # ys) @ y # [a])" "a \<noteq> y" using snoc by (auto simp: dll_def)
  then show ?thesis using links_mid [of H "a # ys" y a "[]"] snoc by (simp add: IsEmpty_def)
qed (simp add: dll_def IsEmpty_def)

lemma InsertAtHead_dll:
  assumes "dll H a xs" "p \<notin> set (a # xs)"
  obtains H' where "InsertAtHead a p H = Inr H'" "dll H' a (p # xs)" "\<And>n. n \<notin> set (a # p # xs) \<Longrightarrow> H' n = H n"
proof -
  obtain y zs where yz: "xs @ [a] = y # zs" by (cases "xs @ [a]") auto
  have l: "links H (a # y # zs)" using assms(1) yz by (simp_all add: dll_def)
  have d: "distinct (xs @ [a])" using assms(1) by (simp add: dll_def)
  have y: "y \<in> set (xs @ [a])" unfolding yz by simp
  have tl: "y \<notin> set zs" "set zs \<subseteq> set (xs @ [a])" using d unfolding yz by auto
  have bl: "set (butlast (y # zs)) = set xs" unfolding yz [symmetric] by simp
  let ?H = "set_next a (Some p) (set_prev y (Some p) (set_next p (Some y) (set_prev p (Some a) H)))"
  have "links ?H (y # zs) = links H (y # zs)"
  proof (rule links_cong)
    fix x assume "x \<in> set (butlast (y # zs))"
    then have "x \<noteq> a" "x \<noteq> p" using bl d assms(2) by auto
    then show "m_nextNode (?H x) = m_nextNode (H x)" by (simp add: dmem_defs)
  next
    fix x assume "x \<in> set (tl (y # zs))"
    then have "x \<noteq> y" "x \<noteq> p" using tl(1,2) assms(2) by auto
    then show "m_prevNode (?H x) = m_prevNode (H x)" by (simp add: dmem_defs)
  qed
  moreover have "p \<noteq> y" "p \<noteq> a" using y assms(2) by auto
  ultimately have "links ?H (a # p # y # zs)" using l by (simp add: dmem_defs)
  moreover have "distinct (a # p # xs)" using d assms(2) by auto
  ultimately have "dll ?H a (p # xs)" unfolding dll_def using yz by simp
  moreover have "InsertAtHead a p H = Inr ?H" using l by (simp add: InsertAtHead_def)
  moreover have "?H n = H n" if "n \<notin> set (a # p # xs)" for n using that y by (auto simp: dmem_defs)
  ultimately show thesis using that by blast
qed

lemma Remove_dll:
  assumes dll: "dll H a (us @ n # vs)"
  obtains H' where "RemoveFromDoublyLinkedList n H = Inr H'" "dll H' a (us @ vs)" "H' n = unlinked"
    "\<And>m. m \<notin> set (a # us @ n # vs) \<Longrightarrow> H' m = H m"
  using dll
proof (rule dll_split)
  fix xs x y ys
  assume x: "a # us = xs @ [x]" and y: "vs @ [a] = y # ys" and l: "links H (xs @ [x])" "links H (y # ys)"
    and n: "m_prevNode (H n) = Some x" "m_nextNode (H n) = Some y" and xy: "x \<in> set (a # us)" "y \<in> set (a # vs)"
  have d: "distinct (a # us @ n # vs)" using dll by (simp add: dll_def)
  let ?H = "set_next n None (set_prev n None (set_next x (Some y) (set_prev y (Some x) H)))"
  have H: "m_nextNode (?H z) = (if z = n then None else if z = x then Some y else m_nextNode (H z))"
    "m_prevNode (?H z) = (if z = n then None else if z = y then Some x else m_prevNode (H z))" for z
    by (auto simp: dmem_defs)
  have x': "distinct (xs @ [x])" "n \<notin> set (xs @ [x])" "set (tl (xs @ [x])) = set us" using d unfolding x [symmetric] by auto
  have y': "distinct (y # ys)" "n \<notin> set (y # ys)" "set (butlast (y # ys)) = set vs" using d unfolding y [symmetric] by auto
  have "links ?H (xs @ [x]) = links H (xs @ [x])"
    by (rule links_cong; unfold H) (use x' xy(2) d in auto)
  moreover have "links ?H (y # ys) = links H (y # ys)"
    by (rule links_cong; unfold H) (use y' xy(1) d in auto)
  moreover have "x \<noteq> n" "y \<noteq> n" using xy d by auto
  ultimately have "links ?H (xs @ x # y # ys)" using l by (simp add: links_append H)
  moreover have "a # (us @ vs) @ [a] = xs @ x # y # ys" using arg_cong [OF x, of "\<lambda>l. l @ vs @ [a]"] y by simp
  ultimately have "dll ?H a (us @ vs)" using d by (simp add: dll_def)
  moreover have "RemoveFromDoublyLinkedList n H = Inr ?H" using n by (simp add: RemoveFromDoublyLinkedList_def)
  moreover have "?H n = unlinked" by (simp add: dmem_defs unlinked_def)
  moreover have "?H m = H m" if "m \<notin> set (a # us @ n # vs)" for m using that xy by (auto simp: dmem_defs)
  ultimately show thesis using that by blast
qed

lemma elements_from_links:
  "links H (xs @ [a]) \<Longrightarrow> a \<notin> set xs \<Longrightarrow> length xs \<le> fuel \<Longrightarrow> elements_from fuel a H (Some (hd (xs @ [a]))) = Inr xs"
proof (induction xs arbitrary: fuel)
  case (Cons x xs)
  obtain k where k: "fuel = Suc k" "length xs \<le> k" using Cons.prems(3) by (cases fuel) auto
  have "links H (xs @ [a])" "m_nextNode (H x) = Some (hd (xs @ [a]))" using Cons.prems(1) by (cases xs; simp)+
  then show ?case using Cons.IH [of k] Cons.prems(2) k by auto
qed simp

lemma elements_dll: "dll H a xs \<Longrightarrow> length xs \<le> fuel \<Longrightarrow> elements fuel a H = Inr xs"
proof -
  assume d: "dll H a xs" and f: "length xs \<le> fuel"
  have "links H (xs @ [a])" "m_nextNode (H a) = Some (hd (xs @ [a]))" "a \<notin> set xs" using d by (cases xs; simp add: dll_def)+
  then show ?thesis using elements_from_links [OF _ _ f] by (simp add: elements_def)
qed

subsection \<open>A family of lists in one memory\<close>

text \<open>
  What a client with several lists relies on: insertion and removal change one list and touch no node outside it.
\<close>

locale intrusive_lists =
  fixes holds :: "('n \<Rightarrow> 'd) \<Rightarrow> 'n \<Rightarrow> 'n list \<Rightarrow> bool"
    and ins :: "'n \<Rightarrow> 'n \<Rightarrow> ('n \<Rightarrow> 'd) \<Rightarrow> ('n \<Rightarrow> 'd) res"
    and del :: "'n \<Rightarrow> ('n \<Rightarrow> 'd) \<Rightarrow> ('n \<Rightarrow> 'd) res"
    and off :: 'd
  assumes holds_distinct: "holds m a xs \<Longrightarrow> distinct (a # xs)"
    and holds_cong: "(\<And>n. n \<in> set (a # xs) \<Longrightarrow> m' n = m n) \<Longrightarrow> holds m' a xs = holds m a xs"
    and ins_law: "holds m a xs \<Longrightarrow> p \<notin> set (a # xs) \<Longrightarrow>
      \<exists>m'. ins a p m = Inr m' \<and> holds m' a (p # xs) \<and> (\<forall>n. n \<notin> set (a # p # xs) \<longrightarrow> m' n = m n)"
    and del_law: "holds m a (us @ p # vs) \<Longrightarrow>
      \<exists>m'. del p m = Inr m' \<and> holds m' a (us @ vs) \<and> m' p = off \<and> (\<forall>n. n \<notin> set (a # us @ p # vs) \<longrightarrow> m' n = m n)"
begin

text \<open>\<open>L\<close> gives the elements of the list of each anchor in \<open>A\<close>.\<close>

definition family :: "('n \<Rightarrow> 'd) \<Rightarrow> 'n set \<Rightarrow> ('n \<Rightarrow> 'n list) \<Rightarrow> bool" where
  "family m A L \<longleftrightarrow> (\<forall>a\<in>A. holds m a (L a) \<and> set (L a) \<inter> A = {}) \<and>
     (\<forall>a\<in>A. \<forall>b\<in>A. a \<noteq> b \<longrightarrow> set (L a) \<inter> set (L b) = {})"

lemma family_cong: "(\<And>a. a \<in> A \<Longrightarrow> L' a = L a) \<Longrightarrow> family m A L' = family m A L"
  by (simp add: family_def)

lemma family_frame:
  "family m A L \<Longrightarrow> (\<And>n. n \<in> A \<Longrightarrow> m' n = m n) \<Longrightarrow> (\<And>a n. a \<in> A \<Longrightarrow> n \<in> set (L a) \<Longrightarrow> m' n = m n) \<Longrightarrow> family m' A L"
  using holds_cong [of _ "L _" m' m] unfolding family_def by (metis set_ConsD)

lemma family_others:
  assumes fam: "family m A L" and a: "a \<in> A" and h: "holds m' a xs" and xs: "set xs \<inter> A = {}"
    and dis: "\<And>b. b \<in> A \<Longrightarrow> b \<noteq> a \<Longrightarrow> set xs \<inter> set (L b) = {}"
    and fr: "\<And>n b. b \<in> A \<Longrightarrow> b \<noteq> a \<Longrightarrow> n \<in> set (b # L b) \<Longrightarrow> m' n = m n"
  shows "family m' A (L(a := xs))"
proof -
  have "holds m' b (L b)" if "b \<in> A" "b \<noteq> a" for b
    using fam that holds_cong [of b "L b" m' m] fr [OF that] by (auto simp: family_def)
  then show ?thesis using fam a h xs dis by (auto simp: family_def)
qed

lemma family_insert:
  assumes fam: "family m A L" and a: "a \<in> A" and p: "p \<notin> A" "\<And>b. b \<in> A \<Longrightarrow> p \<notin> set (L b)"
  shows "\<exists>m'. ins a p m = Inr m' \<and> family m' A (L(a := p # L a)) \<and> (\<forall>n. n \<notin> set (a # p # L a) \<longrightarrow> m' n = m n)"
proof -
  have "holds m a (L a)" "p \<notin> set (a # L a)" using fam a p by (auto simp: family_def)
  then obtain m' where m': "ins a p m = Inr m'" "holds m' a (p # L a)" "\<forall>n. n \<notin> set (a # p # L a) \<longrightarrow> m' n = m n"
    using ins_law by blast
  have "family m' A (L(a := p # L a))"
    using fam a m'(2)
  proof (rule family_others)
    show "set (p # L a) \<inter> A = {}" using fam a p(1) by (auto simp: family_def)
    fix b assume b: "b \<in> A" "b \<noteq> a"
    then have d: "set (L a) \<inter> set (L b) = {}" "a \<notin> set (L b)" "b \<notin> set (L a)" using fam a by (auto simp: family_def)
    then show "set (p # L a) \<inter> set (L b) = {}" using p b by auto
    show "m' n = m n" if "n \<in> set (b # L b)" for n
    proof -
      have "n \<noteq> a" "n \<noteq> p" "n \<notin> set (L a)" using that p b d by auto
      then show ?thesis using m'(3) by simp
    qed
  qed
  then show ?thesis using m' by blast
qed

lemma family_delete:
  assumes fam: "family m A L" and a: "a \<in> A" and p: "p \<in> set (L a)"
  shows "\<exists>m'. del p m = Inr m' \<and> family m' A (L(a := remove1 p (L a))) \<and> m' p = off \<and> (\<forall>n. n \<notin> set (a # L a) \<longrightarrow> m' n = m n)"
proof -
  obtain us vs where uv: "L a = us @ p # vs" "p \<notin> set us" using p by (meson split_list_first)
  have h: "holds m a (us @ p # vs)" using fam a uv(1) by (auto simp: family_def)
  then obtain m' where m': "del p m = Inr m'" "holds m' a (us @ vs)" "m' p = off" "\<forall>n. n \<notin> set (a # us @ p # vs) \<longrightarrow> m' n = m n"
    using del_law by blast
  have "family m' A (L(a := us @ vs))"
    using fam a m'(2)
  proof (rule family_others)
    have "set (L a) \<inter> A = {}" using fam a by (simp add: family_def)
    then show "set (us @ vs) \<inter> A = {}" using uv(1) by auto
    fix b assume b: "b \<in> A" "b \<noteq> a"
    then have d: "set (L a) \<inter> set (L b) = {}" "a \<notin> set (L b)" "b \<notin> set (L a)" using fam a by (auto simp: family_def)
    then show "set (us @ vs) \<inter> set (L b) = {}" using uv(1) by auto
    show "m' n = m n" if "n \<in> set (b # L b)" for n
    proof -
      have "n \<noteq> a" "n \<notin> set (L a)" using that b d by auto
      then show ?thesis using m'(4) uv(1) by simp
    qed
  qed
  moreover have "remove1 p (L a) = us @ vs" using uv by (simp add: remove1_append)
  ultimately show ?thesis using m' uv(1) by auto
qed

end

interpretation dl: intrusive_lists dll InsertAtHead RemoveFromDoublyLinkedList unlinked
proof (unfold_locales, goal_cases)
  case (1 m a xs)
  then show ?case by (simp add: dll_def)
next
  case (2 a xs m' m)
  then show ?case by (rule dll_cong)
next
  case (3 m a xs p)
  then show ?case by (rule InsertAtHead_dll) blast
next
  case (4 m a us p vs)
  then show ?case by (rule Remove_dll) blast
qed

end
