(* ===== verification/InterpCallIc.thy ===== *)
theory InterpCallIc
  imports SpdsList
begin

section \<open>Call inline caches of the interpreter\<close>

text \<open>
  Each call bytecode with an inline cache holds, next to the cached code pointer, a node that links all
  caches of one code block (\<open>ExecutableCode::InterpreterCallIcAnchor\<close> in \<open>src/runtime/runtime_utils.h\<close> and the
  snippet \<open>UpdateInterpreterCallIcDoublyLink\<close> under \<open>src/annotated/deegen_common_snippets\<close>). The links are 32-bit
  offsets between addresses: the previous node of \<open>p\<close> is \<open>p + m_prevOffset\<close>, the next one \<open>p - m_nextOffset\<close>, and a
  node on no list has offsets zero. The results show that this encoding implements the lists of theory
  \<open>SpdsList\<close> as long as all nodes lie in a window of 2 GB.

  Addresses are integers; the nodes do not overlap.
\<close>

subsection \<open>The program\<close>

type_synonym i32 = "32 word"

record ic_mem =
  m_prevOffset :: "int \<Rightarrow> i32"
  m_nextOffset :: "int \<Rightarrow> i32"
  ic_codePtr :: "int \<Rightarrow> u64"

definition ic_prev :: "ic_mem \<Rightarrow> int \<Rightarrow> int" where
  "ic_prev M p = p + sint (m_prevOffset M p)"

definition ic_next :: "ic_mem \<Rightarrow> int \<Rightarrow> int" where
  "ic_next M p = p - sint (m_nextOffset M p)"

definition store_prev :: "int \<Rightarrow> i32 \<Rightarrow> ic_mem \<Rightarrow> ic_mem" where
  "store_prev p d M = M\<lparr>m_prevOffset := (m_prevOffset M)(p := d)\<rparr>"

definition store_next :: "int \<Rightarrow> i32 \<Rightarrow> ic_mem \<Rightarrow> ic_mem" where
  "store_next p d M = M\<lparr>m_nextOffset := (m_nextOffset M)(p := d)\<rparr>"

text \<open>The distance of two addresses, cut to 32 bits.\<close>

definition offset :: "int \<Rightarrow> int \<Rightarrow> i32" where
  "offset p q = word_of_int (p - q)"

text \<open>\<open>cbAnchor\<close> is the anchor of the callee, \<open>doublyLink\<close> the node of the call site.\<close>

definition UpdateInterpreterCallIcDoublyLink :: "int \<Rightarrow> int \<Rightarrow> ic_mem \<Rightarrow> ic_mem" where
  "UpdateInterpreterCallIcDoublyLink cbAnchor doublyLink M =
     (let prv = ic_prev M doublyLink; nxt = ic_next M doublyLink;
          diff = offset prv nxt;
          M1 = store_prev nxt diff (store_next prv diff M);
          cbAnchorNext = ic_next M1 cbAnchor;
          diff1 = offset cbAnchor doublyLink;
          M2 = store_prev doublyLink diff1 (store_next cbAnchor diff1 M1);
          diff2 = offset doublyLink cbAnchorNext
      in store_prev cbAnchorNext diff2 (store_next doublyLink diff2 M2))"

text \<open>The walk of \<open>CodeBlock::UpdateBestEntryPoint\<close> over the list; the fuel bounds its length.\<close>

fun update_ics :: "nat \<Rightarrow> int \<Rightarrow> u64 \<Rightarrow> int \<Rightarrow> ic_mem \<Rightarrow> ic_mem res" where
  "update_ics fuel endAnchor newEntryPoint curAnchor M =
     (let cur = ic_next M curAnchor in
      if cur = endAnchor then Inr M
      else case fuel of
             0 \<Rightarrow> Inl OutOfFuel
           | Suc k \<Rightarrow> update_ics k endAnchor newEntryPoint cur (M\<lparr>ic_codePtr := (ic_codePtr M)(cur := newEntryPoint)\<rparr>))"

declare update_ics.simps [simp del]

subsection \<open>Offsets as links\<close>

definition ic_links :: "ic_mem \<Rightarrow> int dmem" where
  "ic_links M p = \<lparr>m_prevNode = Some (ic_prev M p), m_nextNode = Some (ic_next M p)\<rparr>"

definition near :: "int \<Rightarrow> int \<Rightarrow> bool" where
  "near p q \<longleftrightarrow> - (2 ^ 31) \<le> p - q \<and> p - q < 2 ^ 31"

lemma sint_i32: "- (2 ^ 31) \<le> k \<Longrightarrow> k < 2 ^ 31 \<Longrightarrow> sint (word_of_int k :: i32) = k"
  by (simp add: sint_sbintrunc' signed_take_bit_int_eq_self)

lemma sint_near: "near p q \<Longrightarrow> sint (offset p q) = p - q"
  unfolding near_def offset_def by (rule sint_i32) simp_all

lemma ic_links_store_prev: "near q p \<Longrightarrow> ic_links (store_prev p (offset q p) M) = set_prev p (Some q) (ic_links M)"
  by (auto simp: fun_eq_iff ic_links_def store_prev_def set_prev_def ic_prev_def ic_next_def sint_near)

lemma ic_links_store_next: "near p q \<Longrightarrow> ic_links (store_next p (offset p q) M) = set_next p (Some q) (ic_links M)"
  by (auto simp: fun_eq_iff ic_links_def store_next_def set_next_def ic_prev_def ic_next_def sint_near)

lemma ic_links_sel [simp]: "m_prevNode (ic_links M p) = Some (ic_prev M p)" "m_nextNode (ic_links M p) = Some (ic_next M p)"
  by (simp_all add: ic_links_def)

text \<open>The snippet on links: the node leaves its list and becomes the head of the callee's.\<close>

lemma UpdateInterpreterCallIcDoublyLink_links:
  assumes "near (ic_prev M n) (ic_next M n)" "near a n" "near n h"
    "h = (if ic_prev M n = a then ic_next M n else ic_next M a)"
  shows "ic_links (UpdateInterpreterCallIcDoublyLink a n M) =
    set_prev h (Some n) (set_next n (Some h) (set_prev n (Some a) (set_next a (Some n)
      (set_prev (ic_next M n) (Some (ic_prev M n)) (set_next (ic_prev M n) (Some (ic_next M n)) (ic_links M))))))"
proof -
  let ?prv = "ic_prev M n" and ?nxt = "ic_next M n"
  define M1 where "M1 = store_prev ?nxt (offset ?prv ?nxt) (store_next ?prv (offset ?prv ?nxt) M)"
  have l1: "ic_links M1 = set_prev ?nxt (Some ?prv) (set_next ?prv (Some ?nxt) (ic_links M))"
    using assms(1) by (simp add: M1_def ic_links_store_prev ic_links_store_next)
  have "Some (ic_next M1 a) = m_nextNode (ic_links M1 a)" by simp
  also have "\<dots> = Some h" unfolding l1 assms(4) by (simp add: dmem_defs)
  finally have h: "ic_next M1 a = h" by simp
  have "UpdateInterpreterCallIcDoublyLink a n M =
      store_prev h (offset n h) (store_next n (offset n h)
        (store_prev n (offset a n) (store_next a (offset a n) M1)))"
    by (simp add: UpdateInterpreterCallIcDoublyLink_def Let_def h flip: M1_def)
  then show ?thesis using assms(2,3) l1 by (simp add: ic_links_store_prev ic_links_store_next)
qed

text \<open>
  The lists of the anchors \<open>A\<close>; a node on no list points to itself. All nodes lie in the window from \<open>lo\<close>.
\<close>

definition ic_lists :: "ic_mem \<Rightarrow> int set \<Rightarrow> (int \<Rightarrow> int list) \<Rightarrow> bool" where
  "ic_lists M A L \<longleftrightarrow> dl.family (ic_links M) A L"

definition in_window :: "int \<Rightarrow> int set \<Rightarrow> (int \<Rightarrow> int list) \<Rightarrow> bool" where
  "in_window lo A L \<longleftrightarrow> (\<forall>a\<in>A. \<forall>n\<in>set (a # L a). lo \<le> n \<and> n < lo + 2 ^ 31)"

definition off_list :: "ic_mem \<Rightarrow> int \<Rightarrow> bool" where
  "off_list M n \<longleftrightarrow> ic_prev M n = n \<and> ic_next M n = n"

lemma near_window: "lo \<le> p \<and> p < lo + 2 ^ 31 \<Longrightarrow> lo \<le> q \<and> q < lo + 2 ^ 31 \<Longrightarrow> near p q"
  by (auto simp: near_def)

lemma in_windowD: "in_window lo A L \<Longrightarrow> a \<in> A \<Longrightarrow> n \<in> set (a # L a) \<Longrightarrow> lo \<le> n \<and> n < lo + 2 ^ 31"
  unfolding in_window_def by blast

lemma near_refl: "near p p"
  by (simp add: near_def)

lemma dll_next_in: "dll H a xs \<Longrightarrow> \<exists>h. m_nextNode (H a) = Some h \<and> h \<in> set (a # xs)"
  by (cases xs) (auto simp: dll_def)

lemma ic_next_in: "ic_lists M A L \<Longrightarrow> a \<in> A \<Longrightarrow> ic_next M a \<in> set (a # L a)"
  using dll_next_in [of "ic_links M" a "L a"] by (auto simp: ic_lists_def dl.family_def)

lemma dll_neighbours_in:
  assumes "dll H a xs" "n \<in> set xs"
  obtains x y where "m_prevNode (H n) = Some x" "m_nextNode (H n) = Some y" "x \<in> set (a # xs)" "y \<in> set (a # xs)"
proof -
  obtain us vs where xs: "xs = us @ n # vs" using assms(2) by (meson split_list)
  with assms(1) have "dll H a (us @ n # vs)" by simp
  then show thesis
  proof (rule dll_split)
    fix ws x y ys
    assume "m_prevNode (H n) = Some x" "m_nextNode (H n) = Some y" "x \<in> set (a # us)" "y \<in> set (a # vs)"
    then show thesis using that [of x y] xs by auto
  qed
qed

lemma insert_free:
  assumes lists: "ic_lists M A L" and a: "a \<in> A" and n: "n \<notin> A" "\<And>b. b \<in> A \<Longrightarrow> n \<notin> set (L b)" "off_list M n"
    and win: "in_window lo A L" "lo \<le> n \<and> n < lo + 2 ^ 31"
  shows "ic_lists (UpdateInterpreterCallIcDoublyLink a n M) A (L(a := n # L a))"
proof -
  let ?h = "ic_next M a"
  have "a \<noteq> n" using a n(1) by auto
  have h: "?h \<in> set (a # L a)" using lists a by (rule ic_next_in)
  have near: "near (ic_prev M n) (ic_next M n)" "near a n" "near n ?h"
    using n(3) win(2) in_windowD [OF win(1) a] h near_window [of lo] by (simp_all add: off_list_def near_refl)
  have "ic_links (UpdateInterpreterCallIcDoublyLink a n M) = set_next a (Some n) (set_prev ?h (Some n) (set_next n (Some ?h) (set_prev n (Some a) (ic_links M))))"
  proof -
    have "?h = (if ic_prev M n = a then ic_next M n else ic_next M a)" using n(3) \<open>a \<noteq> n\<close> by (auto simp: off_list_def)
    note eq = UpdateInterpreterCallIcDoublyLink_links [OF near this]
    have "set_prev (ic_next M n) (Some (ic_prev M n)) (set_next (ic_prev M n) (Some (ic_next M n)) (ic_links M)) = ic_links M"
      using n(3) by (auto simp: dmem_defs ic_links_def fun_eq_iff off_list_def)
    then show ?thesis unfolding eq by (rule ssubst) (use \<open>a \<noteq> n\<close> in \<open>auto simp: dmem_defs fun_eq_iff\<close>)
  qed
  moreover have "InsertAtHead a n (ic_links M) = Inr (set_next a (Some n) (set_prev ?h (Some n) (set_next n (Some ?h) (set_prev n (Some a) (ic_links M)))))"
    by (simp add: InsertAtHead_def)
  moreover have "\<exists>m'. InsertAtHead a n (ic_links M) = Inr m' \<and> dl.family m' A (L(a := n # L a)) \<and>
      (\<forall>k. k \<notin> set (a # n # L a) \<longrightarrow> m' k = ic_links M k)"
    using lists a n(1,2) unfolding ic_lists_def by (rule dl.family_insert)
  ultimately show ?thesis unfolding ic_lists_def by auto
qed

lemma insert_linked:
  assumes lists: "ic_lists M A L" and a: "a \<in> A" and b: "b \<in> A" "n \<in> set (L b)" and win: "in_window lo A L"
  shows "ic_lists (UpdateInterpreterCallIcDoublyLink a n M) A
    (let L1 = L(b := remove1 n (L b)) in L1(a := n # L1 a))"
proof -
  let ?prv = "ic_prev M n" and ?nxt = "ic_next M n" and ?L1 = "L(b := remove1 n (L b))"
  let ?m1 = "set_next n None (set_prev n None (set_next ?prv (Some ?nxt) (set_prev ?nxt (Some ?prv) (ic_links M))))"
  have fam: "dl.family (ic_links M) A L" using lists by (simp add: ic_lists_def)
  have nA: "n \<notin> A" and dll: "dll (ic_links M) b (L b)" using fam b by (auto simp: dl.family_def)
  have pn: "?prv \<in> set (b # L b)" "?nxt \<in> set (b # L b)" using dll_neighbours_in [OF dll b(2)] by auto
  have del: "RemoveFromDoublyLinkedList n (ic_links M) = Inr ?m1" by (simp add: RemoveFromDoublyLinkedList_def)
  then have fam1: "dl.family ?m1 A ?L1" using dl.family_delete [OF fam b] by auto
  have notin: "n \<notin> set (?L1 c)" if "c \<in> A" for c
  proof (cases "c = b")
    case True
    then show ?thesis using dl.holds_distinct [OF dll] by simp
  next
    case False
    then have "set (L b) \<inter> set (L c) = {}" using fam b(1) that by (simp add: dl.family_def)
    then show ?thesis using False b(2) by auto
  qed
  have "\<exists>h. m_nextNode (?m1 a) = Some h \<and> h \<in> set (a # ?L1 a)"
    using fam1 a by (intro dll_next_in) (auto simp: dl.family_def)
  then obtain h where h: "m_nextNode (?m1 a) = Some h" "h \<in> set (a # ?L1 a)" by blast
  have "a \<noteq> n" using a nA by auto
  have hw: "h \<in> set (a # L a) \<union> set (b # L b)" "h \<noteq> n" using h(2) notin [OF a] \<open>a \<noteq> n\<close> by (auto split: if_splits dest: notin_set_remove1)
  have hv: "h = (if ?prv = a then ?nxt else ic_next M a)" using h(1) \<open>a \<noteq> n\<close> by (auto simp: dmem_defs split: if_splits)
  have near: "near ?prv ?nxt" "near a n" "near n h"
    using in_windowD [OF win a] in_windowD [OF win b(1)] b(2) pn hw(1) near_window [of lo] by auto
  let ?m2 = "set_next a (Some n) (set_prev h (Some n) (set_next n (Some h) (set_prev n (Some a) ?m1)))"
  have "ic_links (UpdateInterpreterCallIcDoublyLink a n M) = ?m2"
    unfolding UpdateInterpreterCallIcDoublyLink_links [OF near hv]
    using \<open>a \<noteq> n\<close> hw(2) by (auto simp: dmem_defs fun_eq_iff)
  moreover have "InsertAtHead a n ?m1 = Inr ?m2" using h(1) by (simp add: InsertAtHead_def)
  moreover have "\<exists>m'. InsertAtHead a n ?m1 = Inr m' \<and> dl.family m' A (?L1(a := n # ?L1 a)) \<and>
      (\<forall>k. k \<notin> set (a # n # ?L1 a) \<longrightarrow> m' k = ?m1 k)"
    using fam1 a nA notin by (rule dl.family_insert)
  ultimately show ?thesis unfolding ic_lists_def Let_def by auto
qed

lemma ic_lists_elsewhere: "ic_lists M A L \<Longrightarrow> b \<in> A \<Longrightarrow> n \<in> set (L b) \<Longrightarrow> c \<in> A \<Longrightarrow> c \<noteq> b \<Longrightarrow> n \<notin> set (L c)"
proof -
  assume "ic_lists M A L" "b \<in> A" "n \<in> set (L b)" "c \<in> A" "c \<noteq> b"
  then have "set (L b) \<inter> set (L c) = {}" by (simp add: ic_lists_def dl.family_def)
  then show ?thesis using \<open>n \<in> set (L b)\<close> by auto
qed

text \<open>
  C37. When an inline cache of the interpreter gets a new target, its node leaves the list it was on and becomes the
  head of the list of the new callee; all other lists keep their elements and order. The 32-bit offsets lose
  nothing as long as the nodes lie in a window of 2 GB.
\<close>

theorem UpdateInterpreterCallIcDoublyLink_correct:
  assumes lists: "ic_lists M A L" and a: "a \<in> A" and n: "n \<notin> A" and win: "in_window lo A L" "lo \<le> n \<and> n < lo + 2 ^ 31"
    and link: "(\<exists>b\<in>A. n \<in> set (L b)) \<or> off_list M n"
  shows "ic_lists (UpdateInterpreterCallIcDoublyLink a n M) A (\<lambda>b. if b = a then n # remove1 n (L a) else remove1 n (L b)) \<and>
     ic_codePtr (UpdateInterpreterCallIcDoublyLink a n M) = ic_codePtr M"
proof
  show "ic_lists (UpdateInterpreterCallIcDoublyLink a n M) A (\<lambda>b. if b = a then n # remove1 n (L a) else remove1 n (L b))"
  proof (cases "\<exists>b\<in>A. n \<in> set (L b)")
    case True
    then obtain b where b: "b \<in> A" "n \<in> set (L b)" by blast
    have "remove1 n (L c) = L c" if "c \<in> A" "c \<noteq> b" for c
      using ic_lists_elsewhere [OF lists b that] by (rule remove1_idem)
    then have "ic_lists M' A (\<lambda>c. if c = a then n # remove1 n (L a) else remove1 n (L c)) =
        ic_lists M' A (let L1 = L(b := remove1 n (L b)) in L1(a := n # L1 a))" for M'
      unfolding ic_lists_def Let_def using a by (intro dl.family_cong) auto
    then show ?thesis using insert_linked [OF lists a b win(1)] by simp
  next
    case False
    then have "ic_lists M' A (\<lambda>c. if c = a then n # remove1 n (L a) else remove1 n (L c)) = ic_lists M' A (L(a := n # L a))" for M'
      unfolding ic_lists_def using a by (intro dl.family_cong) (auto simp: remove1_idem)
    then show ?thesis using insert_free [OF lists a n _ _ win] False link by auto
  qed
qed (simp add: UpdateInterpreterCallIcDoublyLink_def Let_def store_prev_def store_next_def)

definition demo_ics :: ic_mem where
  "demo_ics = \<lparr>m_prevOffset = (\<lambda>_. 0), m_nextOffset = (\<lambda>_. 0), ic_codePtr = (\<lambda>_. 0)\<rparr>"

lemma demo_ics_lists: "ic_lists demo_ics {0, 64} (\<lambda>_. [])"
  by (simp add: ic_lists_def dl.family_def dll_def demo_ics_def ic_links_def ic_prev_def ic_next_def)

theorem UpdateInterpreterCallIcDoublyLink_correct_witness:
  "ic_lists (UpdateInterpreterCallIcDoublyLink 64 1000 demo_ics) {0, 64} (\<lambda>b. if b = 64 then [1000] else [])"
proof -
  have "(\<lambda>b :: int. if b = 64 then 1000 # remove1 1000 [] else remove1 1000 []) = (\<lambda>b. if b = 64 then [1000 :: int] else [])" by auto
  then show ?thesis
    using UpdateInterpreterCallIcDoublyLink_correct [OF demo_ics_lists, of 64 1000 0]
    by (simp add: in_window_def off_list_def ic_prev_def ic_next_def demo_ics_def)
qed

text \<open>The walk of \<open>UpdateBestEntryPoint\<close> writes the new code pointer to every cache on the list.\<close>

lemma ic_links_codePtr [simp]: "ic_links (M\<lparr>ic_codePtr := f\<rparr>) = ic_links M" "ic_next (M\<lparr>ic_codePtr := f\<rparr>) = ic_next M"
  by (simp_all add: fun_eq_iff ic_links_def ic_prev_def ic_next_def)

lemma update_ics_links:
  "links (ic_links M) (cur # ys @ [a]) \<Longrightarrow> a \<notin> set ys \<Longrightarrow> length ys \<le> fuel \<Longrightarrow>
     update_ics fuel a v cur M = Inr (M\<lparr>ic_codePtr := (\<lambda>p. if p \<in> set ys then v else ic_codePtr M p)\<rparr>)"
proof (induction ys arbitrary: cur fuel M)
  case Nil
  then show ?case by (subst update_ics.simps) (simp add: Let_def)
next
  case (Cons y ys)
  obtain k where k: "fuel = Suc k" "length ys \<le> k" using Cons.prems(3) by (cases fuel) auto
  let ?M = "M\<lparr>ic_codePtr := (ic_codePtr M)(y := v)\<rparr>"
  have y: "ic_next M cur = y" "y \<noteq> a" using Cons.prems(1,2) by auto
  have "update_ics k a v y ?M = Inr (?M\<lparr>ic_codePtr := (\<lambda>p. if p \<in> set ys then v else ic_codePtr ?M p)\<rparr>)"
    by (rule Cons.IH) (use Cons.prems k in auto)
  moreover have "(\<lambda>p. if p \<in> set ys then v else ic_codePtr ?M p) = (\<lambda>p. if p \<in> set (y # ys) then v else ic_codePtr M p)" by auto
  ultimately show ?case using y k by (subst update_ics.simps) (simp add: Let_def)
qed

lemma update_ics_run:
  "ic_lists M A L \<Longrightarrow> a \<in> A \<Longrightarrow> length (L a) \<le> fuel \<Longrightarrow>
     update_ics fuel a v a M = Inr (M\<lparr>ic_codePtr := (\<lambda>p. if p \<in> set (L a) then v else ic_codePtr M p)\<rparr>)"
  by (rule update_ics_links) (auto simp: ic_lists_def dl.family_def dll_def)

end
