(* ===== verification/JitCallIc.thy ===== *)
theory JitCallIc
  imports InterpCallIc
begin

section \<open>Call inline caches of the JIT\<close>

text \<open>
  \<open>JitCallInlineCacheEntry\<close> and \<open>JitCallInlineCacheSite\<close> of \<open>src/runtime/runtime_utils.h\<close> and \<open>runtime_utils.cpp\<close>.
  A call site in JIT code owns a singly-linked list of entries, each caching one call target: in direct-call
  mode a function object, in closure-call mode a code block. Each code block links all entries that jump to
  it, so that \<open>CodeBlock::UpdateBestEntryPoint\<close> can patch their jumps when the block gets better code.

  Function objects and code blocks are numbers. The parameters \<open>jit_env\<close> are the (constant) code of a function
  object, whether a piece of code is a bytecode function, the hash function of the bloom filter, the
  generated table of IC traits and the address of the anchor for the caches of the interpreter. The allocators return an unused entry \<open>e\<close> and an unused region \<open>r\<close> of JIT memory,
  which are arguments. Of the memory of a region the model has the values at the places the traits
  name. The assertions inside \<open>#ifndef NDEBUG\<close> are not part of the program; they are among the results.
\<close>

subsection \<open>The program\<close>

datatype naddr = Anchor nat | Entry nat

datatype entity = EFun nat | ECode nat

record JitCallInlineCacheEntry =
  m_callSiteNextNode :: "nat option"
  m_entity :: entity
  m_taggedPtr :: u64

record JitCallInlineCacheTraits =
  m_isDirectCallMode :: bool
  m_codePtrPatchRecords :: "bool list"

record jit_env =
  jx_executable :: "nat \<Rightarrow> nat"
  jx_isBytecodeFunction :: "nat \<Rightarrow> bool"
  jx_hash :: "nat \<Rightarrow> u64"
  jx_trait :: "nat \<Rightarrow> JitCallInlineCacheTraits"
  jx_icAnchor :: "nat \<Rightarrow> int"

record JitState =
  js_nodes :: "naddr dmem"
  js_entries :: "nat \<rightharpoonup> JitCallInlineCacheEntry"
  js_regions :: "u64 \<rightharpoonup> u64 list"
  js_bestEntryPoint :: "nat \<Rightarrow> u64"
  js_ics :: ic_mem

type_synonym 'a jitop = "(JitState, 'a) op"

definition GetIcTraitKind :: "JitCallInlineCacheEntry \<Rightarrow> nat" where
  "GetIcTraitKind x = unat (drop_bit 48 (m_taggedPtr x))"

definition GetIcTrait :: "jit_env \<Rightarrow> JitCallInlineCacheEntry \<Rightarrow> JitCallInlineCacheTraits" where
  "GetIcTrait E x = jx_trait E (GetIcTraitKind x)"

definition GetJitRegionStart :: "JitCallInlineCacheEntry \<Rightarrow> u64" where
  "GetJitRegionStart x = and (m_taggedPtr x) (2 ^ 48 - 1)"

definition GetTargetExecutableCode :: "jit_env \<Rightarrow> JitCallInlineCacheEntry \<Rightarrow> nat" where
  "GetTargetExecutableCode E x = (case m_entity x of EFun f \<Rightarrow> jx_executable E f | ECode c \<Rightarrow> c)"

definition the_entry :: "nat \<Rightarrow> JitCallInlineCacheEntry jitop" where
  "the_entry e = (\<lambda>S. case js_entries S e of Some x \<Rightarrow> Inr (x, S) | None \<Rightarrow> Inl Undefined)"

definition on_nodes :: "(naddr dmem \<Rightarrow> naddr dmem res) \<Rightarrow> unit jitop" where
  "on_nodes f = (\<lambda>S. bindR (f (js_nodes S)) (\<lambda>H. Inr ((), S\<lparr>js_nodes := H\<rparr>)))"

definition Entry_Create :: "jit_env \<Rightarrow> nat \<times> u64 \<Rightarrow> nat \<Rightarrow> nat option \<Rightarrow> entity \<Rightarrow> nat \<Rightarrow> nat jitop" where
  "Entry_Create E al targetExecutableCode callSiteNextNode ent icTraitKind =
     (case al of (e, r) \<Rightarrow>
     bindS (modS (\<lambda>S. S\<lparr>js_nodes := (js_nodes S)(Entry e := unlinked),
         js_entries := (js_entries S)(e \<mapsto> \<lparr>m_callSiteNextNode = callSiteNextNode, m_entity = ent,
           m_taggedPtr = or r (push_bit 48 (of_nat icTraitKind))\<rparr>),
         js_regions := (js_regions S)(r \<mapsto> [])\<rparr>)) (\<lambda>_.
     bindS (if jx_isBytecodeFunction E targetExecutableCode
            then on_nodes (InsertAtHead (Anchor targetExecutableCode) (Entry e)) else retS ()) (\<lambda>_.
     retS e)))"

definition Entry_Destroy :: "nat \<Rightarrow> unit jitop" where
  "Entry_Destroy e =
     bindS (the_entry e) (\<lambda>x.
     bindS (getS (\<lambda>S. IsOnDoublyLinkedList (js_nodes S) (Entry e))) (\<lambda>on.
     bindS (if on then on_nodes (RemoveFromDoublyLinkedList (Entry e)) else retS ()) (\<lambda>_.
     modS (\<lambda>S. S\<lparr>js_regions := (js_regions S)(GetJitRegionStart x := None), js_entries := (js_entries S)(e := None)\<rparr>))))"

text \<open>Patching the target of an entry.\<close>

definition patch :: "u64 \<Rightarrow> bool \<Rightarrow> u64 \<Rightarrow> u64" where
  "patch diff is64 v = (if is64 then v + diff else ucast ((ucast v :: u32) + ucast diff))"

definition UpdateTargetFunctionCodePtr :: "jit_env \<Rightarrow> nat \<Rightarrow> u64 \<Rightarrow> unit jitop" where
  "UpdateTargetFunctionCodePtr E e diff =
     bindS (the_entry e) (\<lambda>x.
     modS (\<lambda>S. S\<lparr>js_regions := (js_regions S)(GetJitRegionStart x :=
        map_option (map2 (patch diff) (m_codePtrPatchRecords (GetIcTrait E x))) (js_regions S (GetJitRegionStart x)))\<rparr>))"

fun update_entries :: "jit_env \<Rightarrow> u64 \<Rightarrow> naddr list \<Rightarrow> unit jitop" where
  "update_entries E diff [] = retS ()"
| "update_entries E diff (n # ns) =
     bindS (case n of Entry e \<Rightarrow> UpdateTargetFunctionCodePtr E e diff | Anchor _ \<Rightarrow> failS Undefined) (\<lambda>_. update_entries E diff ns)"

definition UpdateBestEntryPoint :: "jit_env \<Rightarrow> nat \<Rightarrow> nat \<Rightarrow> u64 \<Rightarrow> unit jitop" where
  "UpdateBestEntryPoint E fuel c newEntryPoint =
     bindS (getS js_ics) (\<lambda>M.
     bindS (liftS (update_ics fuel (jx_icAnchor E c) newEntryPoint (jx_icAnchor E c) M)) (\<lambda>M'.
     bindS (modS (\<lambda>S. S\<lparr>js_ics := M'\<rparr>)) (\<lambda>_.
     bindS (getS (\<lambda>S. newEntryPoint - js_bestEntryPoint S c)) (\<lambda>diff.
     bindS (getS js_nodes) (\<lambda>H.
     bindS (liftS (elements fuel (Anchor c) H)) (\<lambda>ns.
     bindS (update_entries E diff ns) (\<lambda>_.
     modS (\<lambda>S. S\<lparr>js_bestEntryPoint := (js_bestEntryPoint S)(c := newEntryPoint)\<rparr>))))))))"

subsection \<open>Call sites\<close>

definition x_maxEntries :: nat where
  "x_maxEntries = 3"

datatype Mode = DirectCall | ClosureCall | ClosureCallWithMoreThanOneTargetObserved

record JitCallInlineCacheSite =
  m_linkedListHead :: "nat option"
  m_numEntries :: u8
  m_mode :: Mode
  m_bloomFilter :: u16

definition new_site :: JitCallInlineCacheSite where
  "new_site = \<lparr>m_linkedListHead = None, m_numEntries = 0, m_mode = DirectCall, m_bloomFilter = 0\<rparr>"

definition ObservedNoTarget :: "JitCallInlineCacheSite \<Rightarrow> bool" where
  "ObservedNoTarget site \<longleftrightarrow> m_numEntries site = 0"

definition ObservedExactlyOneTarget :: "JitCallInlineCacheSite \<Rightarrow> bool" where
  "ObservedExactlyOneTarget site \<longleftrightarrow>
     m_numEntries site = 1 \<and> m_mode site \<noteq> ClosureCallWithMoreThanOneTargetObserved"

definition bloomFilterMask :: "u64 \<Rightarrow> u16" where
  "bloomFilterMask hashValue64 =
     or (push_bit (unat (and hashValue64 15)) 1) (push_bit (unat (and (drop_bit 8 hashValue64) 15)) 1)"

text \<open>The search for an entry with the same code, and the invalidation of all entries.\<close>

fun find_target :: "nat \<Rightarrow> jit_env \<Rightarrow> nat option \<Rightarrow> nat \<Rightarrow> bool jitop" where
  "find_target n E None targetEc = retS False"
| "find_target 0 E (Some e) targetEc = failS OutOfFuel"
| "find_target (Suc n) E (Some e) targetEc =
     bindS (the_entry e) (\<lambda>x.
     if GetTargetExecutableCode E x = targetEc then retS True else find_target n E (m_callSiteNextNode x) targetEc)"

fun destroy_all :: "nat \<Rightarrow> nat option \<Rightarrow> unit jitop" where
  "destroy_all n None = retS ()"
| "destroy_all 0 (Some e) = failS OutOfFuel"
| "destroy_all (Suc n) (Some e) =
     bindS (the_entry e) (\<lambda>x. bindS (Entry_Destroy e) (\<lambda>_. destroy_all n (m_callSiteNextNode x)))"

text \<open>The result is the site, whether it went to closure-call mode, and the address to populate.\<close>

definition InsertInDirectCallMode ::
  "jit_env \<Rightarrow> nat \<times> u64 \<Rightarrow> JitCallInlineCacheSite \<Rightarrow> nat \<Rightarrow> nat \<Rightarrow> (JitCallInlineCacheSite \<times> bool \<times> u64) jitop" where
  "InsertInDirectCallMode E al site dcIcTraitKind f =
     (let targetEc = jx_executable E f;
          msk = bloomFilterMask (jx_hash E targetEc) in
      bindS (if and (m_bloomFilter site) msk = msk
             then find_target x_maxEntries E (m_linkedListHead site) targetEc else retS False) (\<lambda>shouldTransitToCCMode.
      if \<not> shouldTransitToCCMode
      then bindS (Entry_Create E al targetEc (m_linkedListHead site) (EFun f) dcIcTraitKind) (\<lambda>newEntry.
           bindS (the_entry newEntry) (\<lambda>x.
           retS (site\<lparr>m_bloomFilter := or (m_bloomFilter site) msk, m_numEntries := m_numEntries site + 1,
                      m_linkedListHead := Some newEntry\<rparr>, False, GetJitRegionStart x)))
      else bindS (destroy_all x_maxEntries (m_linkedListHead site)) (\<lambda>_.
           bindS (Entry_Create E al targetEc None (ECode targetEc) (dcIcTraitKind + 1)) (\<lambda>entry.
           bindS (the_entry entry) (\<lambda>x.
           retS (site\<lparr>m_linkedListHead := Some entry,
                      m_mode := if 1 < m_numEntries site then ClosureCallWithMoreThanOneTargetObserved else ClosureCall,
                      m_numEntries := 1, m_bloomFilter := 0\<rparr>, True, GetJitRegionStart x))))))"

definition InsertInClosureCallMode ::
  "jit_env \<Rightarrow> nat \<times> u64 \<Rightarrow> JitCallInlineCacheSite \<Rightarrow> nat \<Rightarrow> nat \<Rightarrow> (JitCallInlineCacheSite \<times> u64) jitop" where
  "InsertInClosureCallMode E al site dcIcTraitKind f =
     (let targetEc = jx_executable E f in
      bindS (Entry_Create E al targetEc (m_linkedListHead site) (ECode targetEc) (dcIcTraitKind + 1)) (\<lambda>entry.
      bindS (the_entry entry) (\<lambda>x.
      retS (site\<lparr>m_linkedListHead := Some entry, m_numEntries := m_numEntries site + 1\<rparr>, GetJitRegionStart x))))"

subsection \<open>The registry of entries\<close>

text \<open>
  Every live entry that caches a bytecode function is on the list of that code block, exactly once, and every
  other entry is on no list; every live entry owns its region of JIT memory.
\<close>

definition anchors :: "jit_env \<Rightarrow> naddr set" where
  "anchors E = Anchor ` {c. jx_isBytecodeFunction E c}"

definition caching :: "jit_env \<Rightarrow> JitState \<Rightarrow> nat \<Rightarrow> nat set" where
  "caching E S c = {e. \<exists>x. js_entries S e = Some x \<and> GetTargetExecutableCode E x = c}"

definition registry :: "jit_env \<Rightarrow> JitState \<Rightarrow> (naddr \<Rightarrow> naddr list) \<Rightarrow> bool" where
  "registry E S L \<longleftrightarrow> dl.family (js_nodes S) (anchors E) L \<and>
     (\<forall>c. jx_isBytecodeFunction E c \<longrightarrow> set (L (Anchor c)) = Entry ` caching E S c) \<and>
     (\<forall>e x. js_entries S e = Some x \<and> \<not> jx_isBytecodeFunction E (GetTargetExecutableCode E x) \<longrightarrow> js_nodes S (Entry e) = unlinked) \<and>
     (\<forall>e x. js_entries S e = Some x \<longrightarrow> js_regions S (GetJitRegionStart x) \<noteq> None) \<and>
     (\<forall>e e' x x'. js_entries S e = Some x \<and> js_entries S e' = Some x' \<and> GetJitRegionStart x = GetJitRegionStart x' \<longrightarrow> e = e')"

definition registry_ok :: "jit_env \<Rightarrow> JitState \<Rightarrow> bool" where
  "registry_ok E S \<longleftrightarrow> (\<exists>L. registry E S L)"

lemma naddr_simps [simp]: "Entry e \<notin> anchors E" "Anchor c \<in> anchors E \<longleftrightarrow> jx_isBytecodeFunction E c"
  by (auto simp: anchors_def)

lemma in_caching: "e \<in> caching E S c \<longleftrightarrow> (\<exists>x. js_entries S e = Some x \<and> GetTargetExecutableCode E x = c)"
  by (simp add: caching_def)

lemma and_low48: "and w (2 ^ 48 - 1) = take_bit 48 (w :: u64)"
  by (simp only: take_bit_eq_mask mask_eq_exp_minus_1)

lemma tagged_ptr:
  fixes r :: u64
  assumes "r < 2 ^ 48" "k < 2 ^ 16"
  shows "GetJitRegionStart \<lparr>m_callSiteNextNode = n, m_entity = t, m_taggedPtr = or r (push_bit 48 (of_nat k))\<rparr> = r"
    "GetIcTraitKind \<lparr>m_callSiteNextNode = n, m_entity = t, m_taggedPtr = or r (push_bit 48 (of_nat k))\<rparr> = k"
proof -
  have "unat r < 2 ^ 48" using assms(1) by (simp add: word_less_nat_alt)
  then have r: "take_bit 48 r = r" by (simp add: word_unat_eq_iff unsigned_take_bit_eq take_bit_nat_eq_self)
  then have "drop_bit 48 r = 0" by (metis drop_bit_take_bit take_bit_0 diff_self_eq_0)
  moreover have "drop_bit 48 (push_bit 48 (of_nat k :: u64)) = of_nat k"
  proof (rule bit_word_eqI)
    fix i assume "i < LENGTH(64)"
    have "take_bit 16 (of_nat k :: u64) = of_nat k" 
      using assms(2) by (simp add: word_unat_eq_iff unsigned_take_bit_eq unsigned_of_nat take_bit_nat_eq_self)
    then have "bit (of_nat k :: u64) i \<Longrightarrow> i < 16" by (metis bit_take_bit_iff)
    then show "bit (drop_bit 48 (push_bit 48 (of_nat k :: u64))) i = bit (of_nat k :: u64) i"
      by (auto simp: bit_drop_bit_eq bit_push_bit_iff)
  qed
  ultimately show "GetIcTraitKind \<lparr>m_callSiteNextNode = n, m_entity = t, m_taggedPtr = or r (push_bit 48 (of_nat k))\<rparr> = k"
    using assms(2) by (simp add: GetIcTraitKind_def drop_bit_or unsigned_of_nat take_bit_nat_eq_self)
  show "GetJitRegionStart \<lparr>m_callSiteNextNode = n, m_entity = t, m_taggedPtr = or r (push_bit 48 (of_nat k))\<rparr> = r"
    using r by (simp add: GetJitRegionStart_def and_low48 take_bit_or take_bit_push_bit del: power_numeral)
qed

text \<open>The entry an allocation with arguments \<open>al\<close>, next node, entity and kind creates.\<close>

definition new_entry :: "nat \<times> u64 \<Rightarrow> nat option \<Rightarrow> entity \<Rightarrow> nat \<Rightarrow> JitCallInlineCacheEntry" where
  "new_entry al n t k = \<lparr>m_callSiteNextNode = n, m_entity = t, m_taggedPtr = or (snd al) (push_bit 48 (of_nat k))\<rparr>"

definition alloc_ok :: "nat \<times> u64 \<Rightarrow> JitState \<Rightarrow> bool" where
  "alloc_ok al S \<longleftrightarrow> js_entries S (fst al) = None \<and> snd al < 2 ^ 48 \<and>
     (\<forall>e x. js_entries S e = Some x \<longrightarrow> GetJitRegionStart x \<noteq> snd al)"

lemma new_entry_sel [simp]:
  "m_callSiteNextNode (new_entry al n t k) = n" "m_entity (new_entry al n t k) = t"
  by (simp_all add: new_entry_def)

lemma new_entry_region: "snd al < 2 ^ 48 \<Longrightarrow> k < 2 ^ 16 \<Longrightarrow> GetJitRegionStart (new_entry al n t k) = snd al"
  unfolding new_entry_def by (rule tagged_ptr)

lemma registry_add:
  assumes reg: "registry E S L" and al: "alloc_ok al S" and k: "k < 2 ^ 16"
    and S': "js_entries S' = (js_entries S)(fst al \<mapsto> new_entry al n t k)" "js_regions S' = (js_regions S)(snd al \<mapsto> [])"
    and c: "c = GetTargetExecutableCode E (new_entry al n t k)"
    and nodes: "if jx_isBytecodeFunction E c then dl.family (js_nodes S') (anchors E) L' \<and> L' = L(Anchor c := Entry (fst al) # L (Anchor c))
       else dl.family (js_nodes S') (anchors E) L' \<and> L' = L \<and> js_nodes S' (Entry (fst al)) = unlinked"
    and frame: "\<And>e x. js_entries S e = Some x \<Longrightarrow> \<not> jx_isBytecodeFunction E (GetTargetExecutableCode E x) \<Longrightarrow> js_nodes S' (Entry e) = js_nodes S (Entry e)"
  shows "registry E S' L'"
  unfolding registry_def
proof (intro conjI allI impI)
  have fresh: "js_entries S (fst al) = None" using al by (simp add: alloc_ok_def)
  have caching': "caching E S' d = (if d = c then insert (fst al) (caching E S d) else caching E S d)" for d
    using fresh c by (auto simp: caching_def S')
  show "dl.family (js_nodes S') (anchors E) L'" using nodes by (auto split: if_splits)
  show "set (L' (Anchor d)) = Entry ` caching E S' d" if d: "jx_isBytecodeFunction E d" for d
  proof -
    have "set (L (Anchor d)) = Entry ` caching E S d" using reg d by (simp add: registry_def)
    then show ?thesis using nodes d by (auto simp: caching' split: if_splits)
  qed
  fix e x
  show "js_nodes S' (Entry e) = unlinked"
    if "js_entries S' e = Some x \<and> \<not> jx_isBytecodeFunction E (GetTargetExecutableCode E x)"
  proof (cases "e = fst al")
    case True
    then show ?thesis using that nodes c by (auto simp: S')
  next
    case False
    then have "js_entries S e = Some x" using that by (simp add: S')
    then show ?thesis using that frame [of e x] reg by (auto simp: registry_def)
  qed
  show "js_regions S' (GetJitRegionStart x) \<noteq> None" if "js_entries S' e = Some x"
    using that reg al k by (cases "e = fst al") (auto simp: S' registry_def alloc_ok_def new_entry_region)
  fix e' x'
  show "e = e'" if h: "js_entries S' e = Some x \<and> js_entries S' e' = Some x' \<and> GetJitRegionStart x = GetJitRegionStart x'"
  proof (cases "e = fst al \<or> e' = fst al")
    case True
    then show ?thesis using h al k new_entry_region [of al k n t] unfolding S' alloc_ok_def by (auto split: if_splits)
  next
    case False
    then show ?thesis using h reg unfolding S' registry_def by auto
  qed
qed

text \<open>What the creation and the destruction of an entry leave.\<close>

lemma Entry_Create_run:
  assumes reg: "registry_ok E S" and al: "alloc_ok al S" and k: "k < 2 ^ 16" and c: "c = GetTargetExecutableCode E (new_entry al n t k)"
  obtains S' where "Entry_Create E al c n t k S = Inr (fst al, S')" "registry_ok E S'"
    "js_entries S' = (js_entries S)(fst al \<mapsto> new_entry al n t k)" "js_regions S' = (js_regions S)(snd al \<mapsto> [])"
    "js_bestEntryPoint S' = js_bestEntryPoint S" "js_ics S' = js_ics S"
proof -
  obtain L where L: "registry E S L" using reg unfolding registry_ok_def by blast
  obtain e r where er: "al = (e, r)" by (cases al)
  let ?S = "S\<lparr>js_nodes := (js_nodes S)(Entry e := unlinked), js_entries := (js_entries S)(e \<mapsto> new_entry al n t k),
      js_regions := (js_regions S)(r \<mapsto> [])\<rparr>"
  have notin: "Entry e \<notin> set (L a)" if "a \<in> anchors E" for a
    using that L al er by (auto simp: anchors_def registry_def caching_def alloc_ok_def)
  have fam: "dl.family (js_nodes ?S) (anchors E) L"
  proof (rule dl.family_frame)
    show "dl.family (js_nodes S) (anchors E) L" using L by (simp add: registry_def)
  qed (use notin in \<open>auto simp: anchors_def\<close>)
  show thesis
  proof (cases "jx_isBytecodeFunction E c")
    case True
    have "\<exists>H'. InsertAtHead (Anchor c) (Entry e) (js_nodes ?S) = Inr H' \<and>
        dl.family H' (anchors E) (L(Anchor c := Entry e # L (Anchor c))) \<and>
        (\<forall>m. m \<notin> set (Anchor c # Entry e # L (Anchor c)) \<longrightarrow> H' m = js_nodes ?S m)"
      by (rule dl.family_insert) (use fam True notin in auto)
    then obtain H' where H': "InsertAtHead (Anchor c) (Entry e) (js_nodes ?S) = Inr H'"
      "dl.family H' (anchors E) (L(Anchor c := Entry e # L (Anchor c)))"
      "\<forall>m. m \<notin> set (Anchor c # Entry e # L (Anchor c)) \<longrightarrow> H' m = js_nodes ?S m" by blast
    let ?S' = "?S\<lparr>js_nodes := H'\<rparr>"
    have "registry E ?S' (L(Anchor c := Entry e # L (Anchor c)))"
    proof (rule registry_add [OF L al k _ _ c])
      fix e' x
      assume x: "js_entries S e' = Some x" "\<not> jx_isBytecodeFunction E (GetTargetExecutableCode E x)"
      then have "e' \<notin> caching E S c" "e' \<noteq> e" using True al er by (auto simp: caching_def alloc_ok_def)
      then have "Entry e' \<notin> set (Anchor c # Entry e # L (Anchor c))" using L True by (auto simp: registry_def)
      then show "js_nodes ?S' (Entry e') = js_nodes S (Entry e')" using H'(3) by simp
    qed (use True H' er in simp_all)
    moreover have "Entry_Create E al c n t k S = Inr (e, ?S')"
      using True H'(1) er by (simp add: Entry_Create_def on_nodes_def bindS_app new_entry_def)
    ultimately show thesis using er that unfolding registry_ok_def by fastforce
  next
    case False
    have "registry E ?S L"
      by (rule registry_add [OF L al k _ _ c]) (use False fam er al in \<open>auto simp: alloc_ok_def\<close>)
    moreover have "Entry_Create E al c n t k S = Inr (e, ?S)"
      using False er by (simp add: Entry_Create_def bindS_app new_entry_def)
    ultimately show thesis using er that unfolding registry_ok_def by fastforce
  qed
qed

lemma registry_del:
  assumes reg: "registry E S L" and x: "js_entries S e = Some x"
    and S': "js_entries S' = (js_entries S)(e := None)" "js_regions S' = (js_regions S)(GetJitRegionStart x := None)"
    and c: "c = GetTargetExecutableCode E x"
    and fam: "dl.family (js_nodes S') (anchors E) L'"
    and nodes: "if jx_isBytecodeFunction E c then L' = L(Anchor c := remove1 (Entry e) (L (Anchor c))) else L' = L"
    and frame: "\<And>e x. js_entries S e = Some x \<Longrightarrow> \<not> jx_isBytecodeFunction E (GetTargetExecutableCode E x) \<Longrightarrow> js_nodes S' (Entry e) = js_nodes S (Entry e)"
  shows "registry E S' L'"
  unfolding registry_def
proof (intro conjI allI impI)
  have caching': "caching E S' d = caching E S d - {e}" for d by (auto simp: caching_def S')
  have dist: "distinct (L (Anchor d))" if "jx_isBytecodeFunction E d" for d
  proof -
    have "dll (js_nodes S) (Anchor d) (L (Anchor d))" using reg that by (simp add: registry_def dl.family_def)
    then show ?thesis by (simp add: dll_def)
  qed
  show "set (L' (Anchor d)) = Entry ` caching E S' d" if d: "jx_isBytecodeFunction E d" for d
  proof -
    have "set (L (Anchor d)) = Entry ` caching E S d" using reg d by (simp add: registry_def)
    moreover have "d \<noteq> c \<Longrightarrow> e \<notin> caching E S d" using x c by (auto simp: caching_def)
    ultimately show ?thesis using nodes d dist [OF d] by (cases "d = c") (auto simp: caching' set_remove1_eq split: if_splits)
  qed
  fix e' y
  show "js_nodes S' (Entry e') = unlinked"
    if "js_entries S' e' = Some y \<and> \<not> jx_isBytecodeFunction E (GetTargetExecutableCode E y)"
    using that frame [of e' y] reg by (auto simp: S' registry_def split: if_splits)
  show "js_regions S' (GetJitRegionStart y) \<noteq> None" if "js_entries S' e' = Some y"
  proof -
    have y: "js_entries S e' = Some y" "e' \<noteq> e" using that by (auto simp: S' split: if_splits)
    then have "GetJitRegionStart y \<noteq> GetJitRegionStart x" "js_regions S (GetJitRegionStart y) \<noteq> None"
      using reg x unfolding registry_def by blast+
    then show ?thesis by (simp add: S')
  qed
  fix e'' z
  show "e' = e''" if "js_entries S' e' = Some y \<and> js_entries S' e'' = Some z \<and> GetJitRegionStart y = GetJitRegionStart z"
    using that reg unfolding registry_def S' by (auto split: if_splits)
qed (rule fam)

lemma Entry_Destroy_run:
  assumes reg: "registry_ok E S" and x: "js_entries S e = Some x"
  obtains S' where "Entry_Destroy e S = Inr ((), S')" "registry_ok E S'" "js_entries S' = (js_entries S)(e := None)"
    "js_regions S' = (js_regions S)(GetJitRegionStart x := None)" "js_bestEntryPoint S' = js_bestEntryPoint S"
proof -
  obtain L where L: "registry E S L" using reg unfolding registry_ok_def by blast
  let ?c = "GetTargetExecutableCode E x"
  let ?fin = "\<lambda>S. S\<lparr>js_regions := (js_regions S)(GetJitRegionStart x := None), js_entries := (js_entries S)(e := None)\<rparr>"
  show thesis
  proof (cases "jx_isBytecodeFunction E ?c")
    case True
    have mem: "Entry e \<in> set (L (Anchor ?c))" using L True x by (auto simp: registry_def caching_def)
    have fam: "dl.family (js_nodes S) (anchors E) L" using L by (simp add: registry_def)
    then have on: "IsOnDoublyLinkedList (js_nodes S) (Entry e)"
      using mem True by (intro dll_IsOn [of _ "Anchor ?c" "L (Anchor ?c)"]) (auto simp: dl.family_def)
    obtain H' where H': "RemoveFromDoublyLinkedList (Entry e) (js_nodes S) = Inr H'"
      "dl.family H' (anchors E) (L(Anchor ?c := remove1 (Entry e) (L (Anchor ?c))))"
      "\<forall>n. n \<notin> set (Anchor ?c # L (Anchor ?c)) \<longrightarrow> H' n = js_nodes S n"
      using dl.family_delete [OF fam _ mem] True by auto
    have "registry E (?fin (S\<lparr>js_nodes := H'\<rparr>)) (L(Anchor ?c := remove1 (Entry e) (L (Anchor ?c))))"
    proof (rule registry_del [OF L x _ _ refl])
      fix e' y
      assume y: "js_entries S e' = Some y" "\<not> jx_isBytecodeFunction E (GetTargetExecutableCode E y)"
      then have "e' \<notin> caching E S ?c" using True by (auto simp: caching_def)
      then have "Entry e' \<notin> set (Anchor ?c # L (Anchor ?c))" using L True by (auto simp: registry_def)
      then show "js_nodes (?fin (S\<lparr>js_nodes := H'\<rparr>)) (Entry e') = js_nodes S (Entry e')" using H'(3) by simp
    qed (use True H'(2) in auto)
    moreover have "Entry_Destroy e S = Inr ((), ?fin (S\<lparr>js_nodes := H'\<rparr>))"
      using on H'(1) x by (simp add: Entry_Destroy_def the_entry_def on_nodes_def bindS_app)
    ultimately show thesis using that unfolding registry_ok_def by fastforce
  next
    case False
    then have "js_nodes S (Entry e) = unlinked" using L x by (auto simp: registry_def)
    then have "Entry_Destroy e S = Inr ((), ?fin S)"
      using x by (simp add: Entry_Destroy_def the_entry_def IsOnDoublyLinkedList_def unlinked_def bindS_app)
    moreover have "registry E (?fin S) L"
      by (rule registry_del [OF L x _ _ refl]) (use False L in \<open>simp_all add: registry_def\<close>)
    ultimately show thesis using that unfolding registry_ok_def by fastforce
  qed
qed

subsection \<open>Better code for a code block\<close>

text \<open>
  The value at a patched place: an offset the code generator chose plus the entry point of the target, in 64 or
  in the low 32 bits. \<open>jumps_ok\<close>: every entry that caches a bytecode function jumps to its best entry point.
\<close>

definition jump_value :: "u64 \<Rightarrow> bool \<Rightarrow> u64 \<Rightarrow> u64" where
  "jump_value target is64 off = (if is64 then off + target else ucast (ucast (off + target) :: u32))"

definition jumps_ok :: "jit_env \<Rightarrow> (nat \<Rightarrow> u64 list) \<Rightarrow> JitState \<Rightarrow> bool" where
  "jumps_ok E offs S \<longleftrightarrow> (\<forall>e x. js_entries S e = Some x \<and> jx_isBytecodeFunction E (GetTargetExecutableCode E x) \<longrightarrow>
     js_regions S (GetJitRegionStart x) =
       Some (map2 (jump_value (js_bestEntryPoint S (GetTargetExecutableCode E x))) (m_codePtrPatchRecords (GetIcTrait E x)) (offs e)))"

lemma jumps_okD:
  "jumps_ok E offs S \<Longrightarrow> js_entries S e = Some x \<Longrightarrow> jx_isBytecodeFunction E (GetTargetExecutableCode E x) \<Longrightarrow>
     js_regions S (GetJitRegionStart x) =
       Some (map2 (jump_value (js_bestEntryPoint S (GetTargetExecutableCode E x))) (m_codePtrPatchRecords (GetIcTrait E x)) (offs e))"
  unfolding jumps_ok_def by blast

lemma take_bit_add32: "take_bit 32 (take_bit 64 a + take_bit 64 b) = take_bit 32 (a + b :: int)"
  using take_bit_add [of 32 "take_bit 64 a" "take_bit 64 b"] take_bit_add [of 32 a b] by simp

lemma ucast_add32: "ucast (a + b :: u64) = (ucast a + ucast b :: u32)"
  by transfer (simp add: take_bit_add32)

lemma patch_jump_value: "patch (new - old) is64 (jump_value old is64 off) = jump_value new is64 off"
proof (cases is64)
  case False
  have "(ucast (ucast (ucast (off + old) :: u32) :: u64) :: u32) = ucast (off + old)"
    by transfer (simp add: take_bit_eq_mod)
  then have "patch (new - old) is64 (jump_value old is64 off) = ucast (ucast (off + old + (new - old)) :: u32)"
    using False by (simp add: patch_def jump_value_def flip: ucast_add32)
  then show ?thesis using False by (simp add: jump_value_def)
qed (simp add: patch_def jump_value_def)

lemma map2_patch: "map2 (patch (new - old)) recs (map2 (jump_value old) recs offs) = map2 (jump_value new) recs offs"
  by (induction recs offs rule: list_induct2') (simp_all add: patch_jump_value)

lemma registry_elements:
  assumes reg: "registry_ok E S" and c: "jx_isBytecodeFunction E c" and fuel: "card (caching E S c) \<le> fuel"
  obtains L es where "registry E S L" "distinct es" "set es = caching E S c"
    "elements fuel (Anchor c) (js_nodes S) = Inr (map Entry es)"
proof -
  obtain L where L: "registry E S L" using reg unfolding registry_ok_def by blast
  have dll: "dll (js_nodes S) (Anchor c) (L (Anchor c))" and set: "set (L (Anchor c)) = Entry ` caching E S c"
    using L c by (simp_all add: registry_def dl.family_def)
  have "\<exists>es. L (Anchor c) = map Entry es" using set by (intro ex_map_conv [THEN iffD2]) auto
  then obtain es where es: "L (Anchor c) = map Entry es" ..
  then have "Entry ` set es = Entry ` caching E S c" using set by simp
  then have eq: "set es = caching E S c" by (simp add: inj_image_eq_iff inj_def)
  have d: "distinct es" using dll es by (simp add: dll_def distinct_map)
  then have "length es \<le> fuel" using fuel eq by (metis distinct_card)
  then show thesis using that [OF L d eq] elements_dll [OF dll] es by simp
qed

lemma update_entries_run:
  assumes "distinct es" "\<And>e. e \<in> set es \<Longrightarrow> \<exists>x. js_entries S e = Some x"
    "\<And>e e' x x'. js_entries S e = Some x \<Longrightarrow> js_entries S e' = Some x' \<Longrightarrow> GetJitRegionStart x = GetJitRegionStart x' \<Longrightarrow> e = e'"
  shows "\<exists>R. update_entries E diff (map Entry es) S = Inr ((), S\<lparr>js_regions := R\<rparr>) \<and>
    (\<forall>e x. js_entries S e = Some x \<longrightarrow> R (GetJitRegionStart x) =
      (if e \<in> set es then map_option (map2 (patch diff) (m_codePtrPatchRecords (GetIcTrait E x))) (js_regions S (GetJitRegionStart x))
       else js_regions S (GetJitRegionStart x)))"
  using assms
proof (induction es arbitrary: S)
  case Nil
  then show ?case by (intro exI [of _ "js_regions S"]) simp
next
  case (Cons e es)
  obtain x where x: "js_entries S e = Some x" using Cons.prems(2) by auto
  let ?v = "map_option (map2 (patch diff) (m_codePtrPatchRecords (GetIcTrait E x))) (js_regions S (GetJitRegionStart x))"
  let ?S = "S\<lparr>js_regions := (js_regions S)(GetJitRegionStart x := ?v)\<rparr>"
  have "\<exists>R. update_entries E diff (map Entry es) ?S = Inr ((), ?S\<lparr>js_regions := R\<rparr>) \<and>
    (\<forall>e x. js_entries ?S e = Some x \<longrightarrow> R (GetJitRegionStart x) =
      (if e \<in> set es then map_option (map2 (patch diff) (m_codePtrPatchRecords (GetIcTrait E x))) (js_regions ?S (GetJitRegionStart x))
       else js_regions ?S (GetJitRegionStart x)))"
  proof (rule Cons.IH)
    show "\<exists>x. js_entries ?S e' = Some x" if "e' \<in> set es" for e' using Cons.prems(2) that by simp
    show "e' = e''" if "js_entries ?S e' = Some y" "js_entries ?S e'' = Some z" "GetJitRegionStart y = GetJitRegionStart z" for e' e'' y z
      using Cons.prems(3) [of e' y e'' z] that by simp
  qed (use Cons.prems(1) in simp)
  then obtain R where R: "update_entries E diff (map Entry es) ?S = Inr ((), ?S\<lparr>js_regions := R\<rparr>)"
    "\<And>e x. js_entries S e = Some x \<Longrightarrow> R (GetJitRegionStart x) =
      (if e \<in> set es then map_option (map2 (patch diff) (m_codePtrPatchRecords (GetIcTrait E x))) (js_regions ?S (GetJitRegionStart x))
       else js_regions ?S (GetJitRegionStart x))" by auto
  have "update_entries E diff (map Entry (e # es)) S = Inr ((), S\<lparr>js_regions := R\<rparr>)"
    using x R(1) by (simp add: UpdateTargetFunctionCodePtr_def the_entry_def bindS_app)
  moreover have "R (GetJitRegionStart y) = (if e' \<in> set (e # es)
      then map_option (map2 (patch diff) (m_codePtrPatchRecords (GetIcTrait E y))) (js_regions S (GetJitRegionStart y))
      else js_regions S (GetJitRegionStart y))" if y: "js_entries S e' = Some y" for e' y
  proof (cases "e' = e")
    case True
    then have "y = x" "e' \<notin> set es" using x y Cons.prems(1) by auto
    then show ?thesis using R(2) [OF y] True by simp
  next
    case False
    then have "GetJitRegionStart y \<noteq> GetJitRegionStart x" using Cons.prems(3) [OF y x] by blast
    then show ?thesis using R(2) [OF y] False by simp
  qed
  ultimately show ?case by blast
qed

text \<open>
  C36. When a code block gets a new entry point, the walks over its lists end. Every call inline cache that caches this
  block then jumps to the new entry point, the caches of the interpreter on the list of the block and the caches
  of the JIT at whatever site; all others keep their targets.
\<close>

theorem UpdateBestEntryPoint_correct:
  assumes reg: "registry_ok E S" and c: "jx_isBytecodeFunction E c" and fuel: "card (caching E S c) \<le> fuel"
    and jumps: "jumps_ok E offs S"
    and ics: "ic_lists (js_ics S) A K" "jx_icAnchor E c \<in> A" "length (K (jx_icAnchor E c)) \<le> fuel"
  shows "\<exists>S'. UpdateBestEntryPoint E fuel c newEntryPoint S = Inr ((), S') \<and> registry_ok E S' \<and> jumps_ok E offs S' \<and>
     js_entries S' = js_entries S \<and> js_bestEntryPoint S' = (js_bestEntryPoint S)(c := newEntryPoint) \<and>
     ic_lists (js_ics S') A K \<and>
     (\<forall>p. ic_codePtr (js_ics S') p = (if p \<in> set (K (jx_icAnchor E c)) then newEntryPoint else ic_codePtr (js_ics S) p))"
proof -
  let ?M = "(js_ics S)\<lparr>ic_codePtr := (\<lambda>p. if p \<in> set (K (jx_icAnchor E c)) then newEntryPoint else ic_codePtr (js_ics S) p)\<rparr>"
  let ?T = "S\<lparr>js_ics := ?M\<rparr>" and ?diff = "newEntryPoint - js_bestEntryPoint S c"
  have ic: "update_ics fuel (jx_icAnchor E c) newEntryPoint (jx_icAnchor E c) (js_ics S) = Inr ?M" using ics by (rule update_ics_run)
  have lists: "ic_lists ?M A K" using ics(1) by (simp add: ic_lists_def)
  obtain L es where L: "registry E S L" and es: "distinct es" "set es = caching E S c"
    and el: "elements fuel (Anchor c) (js_nodes S) = Inr (map Entry es)" using registry_elements [OF reg c fuel] .
  have "\<exists>R. update_entries E ?diff (map Entry es) ?T = Inr ((), ?T\<lparr>js_regions := R\<rparr>) \<and>
    (\<forall>e x. js_entries ?T e = Some x \<longrightarrow> R (GetJitRegionStart x) =
      (if e \<in> set es then map_option (map2 (patch ?diff) (m_codePtrPatchRecords (GetIcTrait E x))) (js_regions ?T (GetJitRegionStart x))
       else js_regions ?T (GetJitRegionStart x)))"
    by (rule update_entries_run) (use es L in \<open>auto simp: caching_def registry_def\<close>)
  then obtain R where run: "update_entries E ?diff (map Entry es) ?T = Inr ((), ?T\<lparr>js_regions := R\<rparr>)"
    and R: "\<And>e x. js_entries S e = Some x \<Longrightarrow> R (GetJitRegionStart x) =
      (if e \<in> set es then map_option (map2 (patch ?diff) (m_codePtrPatchRecords (GetIcTrait E x))) (js_regions S (GetJitRegionStart x))
       else js_regions S (GetJitRegionStart x))" by auto
  let ?S = "?T\<lparr>js_regions := R, js_bestEntryPoint := (js_bestEntryPoint S)(c := newEntryPoint)\<rparr>"
  have "R (GetJitRegionStart x) \<noteq> None" if "js_entries S e = Some x" for e x
    using R [OF that] L that by (auto simp: registry_def)
  then have "registry E ?S L" using L by (auto simp: registry_def caching_def)
  moreover have "jumps_ok E offs ?S"
    using jumps R es(2) by (auto simp: jumps_ok_def caching_def map2_patch)
  moreover have "UpdateBestEntryPoint E fuel c newEntryPoint S = Inr ((), ?S)"
    using ic el run by (simp add: UpdateBestEntryPoint_def bindS_app)
  ultimately show ?thesis using lists unfolding registry_ok_def by (intro exI [of _ ?S]) auto
qed

subsection \<open>The entries of a call site\<close>

fun site_chain :: "JitState \<Rightarrow> nat option \<Rightarrow> nat list \<Rightarrow> bool" where
  "site_chain S h [] \<longleftrightarrow> h = None"
| "site_chain S h (e # es) \<longleftrightarrow> h = Some e \<and> (case js_entries S e of None \<Rightarrow> False | Some x \<Rightarrow> site_chain S (m_callSiteNextNode x) es)"

definition target_of :: "jit_env \<Rightarrow> JitState \<Rightarrow> nat \<Rightarrow> nat" where
  "target_of E S e = GetTargetExecutableCode E (the (js_entries S e))"

definition targets :: "jit_env \<Rightarrow> JitState \<Rightarrow> nat list \<Rightarrow> nat list" where
  "targets E S es = map (target_of E S) es"

text \<open>
  A site owns the entries \<open>es\<close>: they cache distinct code, their number fits, in direct-call mode each caches a
  function object and the bloom filter contains the mask of its code, otherwise each caches its code.
\<close>

definition site_ok :: "jit_env \<Rightarrow> JitState \<Rightarrow> JitCallInlineCacheSite \<Rightarrow> nat list \<Rightarrow> bool" where
  "site_ok E S site es \<longleftrightarrow> site_chain S (m_linkedListHead site) es \<and> distinct (targets E S es) \<and>
     m_numEntries site = of_nat (length es) \<and> length es \<le> x_maxEntries \<and>
     (if m_mode site = DirectCall
      then \<forall>e\<in>set es. (\<exists>f. m_entity (the (js_entries S e)) = EFun f) \<and>
             and (m_bloomFilter site) (bloomFilterMask (jx_hash E (target_of E S e))) = bloomFilterMask (jx_hash E (target_of E S e))
      else \<forall>e\<in>set es. m_entity (the (js_entries S e)) = ECode (target_of E S e))"

lemma site_chain_live: "site_chain S h es \<Longrightarrow> e \<in> set es \<Longrightarrow> \<exists>x. js_entries S e = Some x"
  by (induction es arbitrary: h) (auto split: option.splits)

lemma site_chain_cong:
  "site_chain S h es \<Longrightarrow> (\<And>e. e \<in> set es \<Longrightarrow> js_entries S' e = js_entries S e) \<Longrightarrow> site_chain S' h es"
  by (induction es arbitrary: h) (auto split: option.splits)

lemma targets_cong: "(\<And>e. e \<in> set es \<Longrightarrow> js_entries S' e = js_entries S e) \<Longrightarrow> targets E S' es = targets E S es"
  by (simp add: targets_def target_of_def)

lemma find_target_run:
  "site_chain S h es \<Longrightarrow> length es \<le> n \<Longrightarrow> find_target n E h c S = Inr (c \<in> set (targets E S es), S)"
proof (induction es arbitrary: h n)
  case (Cons e es)
  then obtain x k where x: "js_entries S e = Some x" "h = Some e" "site_chain S (m_callSiteNextNode x) es" "n = Suc k"
    by (cases n) (auto split: option.splits)
  then show ?case using Cons by (auto simp: the_entry_def targets_def target_of_def bindS_app)
qed (simp add: targets_def)

lemma destroy_all_run:
  assumes "registry_ok E S" "site_chain S h es" "distinct es" "length es \<le> n"
  shows "\<exists>S'. destroy_all n h S = Inr ((), S') \<and> registry_ok E S' \<and> js_entries S' = js_entries S |` (- set es) \<and>
     js_bestEntryPoint S' = js_bestEntryPoint S"
  using assms
proof (induction es arbitrary: h n S)
  case Nil
  then show ?case by (auto simp: restrict_map_def)
next
  case (Cons e es)
  then obtain x k where x: "js_entries S e = Some x" "h = Some e" "site_chain S (m_callSiteNextNode x) es" "n = Suc k" "length es \<le> k"
    by (cases n) (auto split: option.splits)
  obtain S1 where S1: "Entry_Destroy e S = Inr ((), S1)" "registry_ok E S1" "js_entries S1 = (js_entries S)(e := None)"
    "js_bestEntryPoint S1 = js_bestEntryPoint S" using Entry_Destroy_run [OF Cons.prems(1) x(1)] .
  have "site_chain S1 (m_callSiteNextNode x) es"
    using x(3) by (rule site_chain_cong) (use Cons.prems(3) S1(3) in auto)
  then obtain S' where S': "destroy_all k (m_callSiteNextNode x) S1 = Inr ((), S')" "registry_ok E S'"
    "js_entries S' = js_entries S1 |` (- set es)" "js_bestEntryPoint S' = js_bestEntryPoint S1"
    using Cons.IH [OF S1(2) _ _ x(5)] Cons.prems(3) by auto
  have "js_entries S' = js_entries S |` (- set (e # es))" using S'(3) S1(3) by (auto simp: restrict_map_def fun_eq_iff)
  moreover have "destroy_all n h S = Inr ((), S')" using x S1(1) S'(1) by (simp add: the_entry_def bindS_app)
  ultimately show ?case using S' S1 by auto
qed

lemma site_ok_distinct: "site_ok E S site es \<Longrightarrow> distinct es"
  by (auto simp: site_ok_def targets_def distinct_map)

text \<open>The bloom filter never hides an entry with the same code.\<close>

lemma bloom_decides:
  assumes "site_ok E S site es" "m_mode site = DirectCall" "c \<in> set (targets E S es)"
  shows "and (m_bloomFilter site) (bloomFilterMask (jx_hash E c)) = bloomFilterMask (jx_hash E c)"
  using assms by (auto simp: site_ok_def targets_def)

lemma should_transit:
  assumes "site_ok E S site es" "m_mode site = DirectCall"
  shows "(if and (m_bloomFilter site) (bloomFilterMask (jx_hash E c)) = bloomFilterMask (jx_hash E c)
     then find_target x_maxEntries E (m_linkedListHead site) c else retS False) S = Inr (c \<in> set (targets E S es), S)"
  using assms find_target_run [of S "m_linkedListHead site" es x_maxEntries E c] bloom_decides [OF assms]
  by (auto simp: site_ok_def)

lemma and_or_mono: "and b m = m \<Longrightarrow> and (or b k) m = (m :: u16)"
  by (simp add: bit_eq_iff bit_and_iff bit_or_iff) blast

lemma and_or_self: "and (or b m) m = (m :: u16)"
  by (simp add: bit_eq_iff bit_and_iff bit_or_iff)

text \<open>Adding an entry in front keeps a site well formed.\<close>

lemma site_ok_push:
  assumes ok: "site_ok E S site es" and len: "length es < x_maxEntries" and e: "e \<notin> set es"
    and S': "js_entries S' = (js_entries S)(e \<mapsto> x)" and x: "m_callSiteNextNode x = m_linkedListHead site"
    and c: "c = GetTargetExecutableCode E x" "c \<notin> set (targets E S es)"
    and mode: "if m_mode site = DirectCall then \<exists>f. m_entity x = EFun f else m_entity x = ECode c"
    and site': "m_linkedListHead site' = Some e" "m_numEntries site' = m_numEntries site + 1" "m_mode site' = m_mode site"
      "m_mode site = DirectCall \<Longrightarrow> m_bloomFilter site' = or (m_bloomFilter site) (bloomFilterMask (jx_hash E c))"
  shows "site_ok E S' site' (e # es)"
proof -
  have same: "js_entries S' w = js_entries S w" if "w \<in> set es" for w using that e by (auto simp: S')
  have t: "target_of E S' e = c" "targets E S' es = targets E S es" "\<And>w. w \<in> set es \<Longrightarrow> target_of E S' w = target_of E S w"
    using targets_cong [of es S' S E] same c(1) by (simp_all add: target_of_def S')
  have "distinct (targets E S' es)" unfolding t(2) using ok by (simp add: site_ok_def)
  then have d: "distinct (map (target_of E S') es)" by (simp add: targets_def)
  have "site_chain S (m_linkedListHead site) es" using ok by (simp add: site_ok_def)
  then have "site_chain S' (m_linkedListHead site) es" by (rule site_chain_cong) (rule same)
  then show ?thesis
    using ok len c(2) mode same t d x site' unfolding site_ok_def
    by (auto simp: S' targets_def and_or_mono and_or_self)
qed

lemma numEntries_gt_1: "n \<le> x_maxEntries \<Longrightarrow> 1 < (of_nat n :: u8) \<longleftrightarrow> 1 < n"
  by (simp add: x_maxEntries_def word_less_nat_alt unsigned_of_nat take_bit_nat_eq_self)

text \<open>
  C35. A missed call in direct-call mode. The decision taken behind the bloom filter is the one a search of all
  entries would take. A target with new code is cached in front of the others; a target whose code is
  cached already sends the site to closure-call mode, where all old entries are destroyed and one entry
  for the code remains. Site and registry stay well formed, and no entry of another site is touched.
\<close>

theorem InsertInDirectCallMode_correct:
  assumes reg: "registry_ok E S" and ok: "site_ok E S site es" and mode: "m_mode site = DirectCall" and len: "length es < x_maxEntries"
    and k: "dcIcTraitKind + 1 < 2 ^ 16" and tr: "transit \<longleftrightarrow> jx_executable E f \<in> set (targets E S es)"
    and al: "alloc_ok al (S\<lparr>js_entries := js_entries S |` (- (if transit then set es else {}))\<rparr>)"
  shows "\<exists>site' S'. InsertInDirectCallMode E al site dcIcTraitKind f S = Inr ((site', transit, snd al), S') \<and>
     registry_ok E S' \<and> site_ok E S' site' (if transit then [fst al] else fst al # es) \<and>
     m_mode site' = (if \<not> transit then DirectCall else if 1 < length es then ClosureCallWithMoreThanOneTargetObserved else ClosureCall) \<and>
     (\<forall>e. e \<notin> set es \<and> e \<noteq> fst al \<longrightarrow> js_entries S' e = js_entries S e)"
proof -
  let ?c = "jx_executable E f"
  note dec = should_transit [OF ok mode, of ?c, folded tr]
  have ch: "site_chain S (m_linkedListHead site) es" and le: "length es \<le> x_maxEntries" and num: "m_numEntries site = of_nat (length es)"
    using ok by (simp_all add: site_ok_def)
  show ?thesis
  proof (cases transit)
    case False
    then have al': "alloc_ok al S" using al by (simp add: alloc_ok_def restrict_map_def)
    let ?x = "new_entry al (m_linkedListHead site) (EFun f) dcIcTraitKind"
    have c: "?c = GetTargetExecutableCode E ?x" by (simp add: GetTargetExecutableCode_def)
    obtain S' where S': "Entry_Create E al ?c (m_linkedListHead site) (EFun f) dcIcTraitKind S = Inr (fst al, S')" "registry_ok E S'"
      "js_entries S' = (js_entries S)(fst al \<mapsto> ?x)" using Entry_Create_run [OF reg al' _ c] k by auto
    let ?site = "site\<lparr>m_bloomFilter := or (m_bloomFilter site) (bloomFilterMask (jx_hash E ?c)), m_numEntries := m_numEntries site + 1,
                      m_linkedListHead := Some (fst al)\<rparr>"
    have "InsertInDirectCallMode E al site dcIcTraitKind f S = Inr ((?site, False, snd al), S')"
      using dec False S'(1,3) al' k
      by (simp add: InsertInDirectCallMode_def Let_def the_entry_def new_entry_region alloc_ok_def bindS_app)
    moreover have "fst al \<notin> set es" using al' site_chain_live [OF ch, of "fst al"] by (auto simp: alloc_ok_def)
    then have "site_ok E S' ?site (fst al # es)"
      by (rule site_ok_push [OF ok len _ S'(3) _ c]) (use False tr mode in auto)
    ultimately show ?thesis using S' False mode by auto
  next
    case True
    obtain S1 where S1: "destroy_all x_maxEntries (m_linkedListHead site) S = Inr ((), S1)" "registry_ok E S1"
      "js_entries S1 = js_entries S |` (- set es)"
      using destroy_all_run [OF reg ch site_ok_distinct [OF ok] le] by blast
    have al': "alloc_ok al S1" using al True S1(3) by (simp add: alloc_ok_def)
    let ?x = "new_entry al None (ECode ?c) (dcIcTraitKind + 1)"
    have c: "?c = GetTargetExecutableCode E ?x" by (simp add: GetTargetExecutableCode_def)
    obtain S' where S': "Entry_Create E al ?c None (ECode ?c) (dcIcTraitKind + 1) S1 = Inr (fst al, S')" "registry_ok E S'"
      "js_entries S' = (js_entries S1)(fst al \<mapsto> ?x)" using Entry_Create_run [OF S1(2) al' k c] by auto
    let ?site = "site\<lparr>m_linkedListHead := Some (fst al),
        m_mode := if 1 < m_numEntries site then ClosureCallWithMoreThanOneTargetObserved else ClosureCall, m_numEntries := 1, m_bloomFilter := 0\<rparr>"
    have "InsertInDirectCallMode E al site dcIcTraitKind f S = Inr ((?site, True, snd al), S')"
      using dec True S1(1) S'(1,3) al' k
      by (simp add: InsertInDirectCallMode_def Let_def the_entry_def new_entry_region alloc_ok_def bindS_app)
    moreover have "site_ok E S' ?site [fst al]"
      by (simp add: site_ok_def S'(3) targets_def target_of_def x_maxEntries_def GetTargetExecutableCode_def)
    moreover have "js_entries S' e = js_entries S e" if "e \<notin> set es" "e \<noteq> fst al" for e
      using that by (simp add: S'(3) S1(3))
    ultimately show ?thesis using S' True numEntries_gt_1 [OF le] num by auto
  qed
qed

text \<open>In closure-call mode a missed target, whose code is not cached, is added in front.\<close>

lemma InsertInClosureCallMode_run:
  assumes reg: "registry_ok E S" and ok: "site_ok E S site es" and mode: "m_mode site \<noteq> DirectCall" and len: "length es < x_maxEntries"
    and k: "dcIcTraitKind + 1 < 2 ^ 16" and miss: "jx_executable E f \<notin> set (targets E S es)" and al: "alloc_ok al S"
  shows "\<exists>site' S'. InsertInClosureCallMode E al site dcIcTraitKind f S = Inr ((site', snd al), S') \<and>
     registry_ok E S' \<and> site_ok E S' site' (fst al # es) \<and> m_mode site' = m_mode site \<and> (\<forall>e. e \<noteq> fst al \<longrightarrow> js_entries S' e = js_entries S e)"
proof -
  let ?c = "jx_executable E f"
  let ?x = "new_entry al (m_linkedListHead site) (ECode ?c) (dcIcTraitKind + 1)"
  have c: "?c = GetTargetExecutableCode E ?x" by (simp add: GetTargetExecutableCode_def)
  obtain S' where S': "Entry_Create E al ?c (m_linkedListHead site) (ECode ?c) (dcIcTraitKind + 1) S = Inr (fst al, S')" "registry_ok E S'"
    "js_entries S' = (js_entries S)(fst al \<mapsto> ?x)" using Entry_Create_run [OF reg al k c] by auto
  let ?site = "site\<lparr>m_linkedListHead := Some (fst al), m_numEntries := m_numEntries site + 1\<rparr>"
  have "site_chain S (m_linkedListHead site) es" using ok by (simp add: site_ok_def)
  then have "fst al \<notin> set es" using al site_chain_live [of S _ es "fst al"] by (auto simp: alloc_ok_def)
  then have "site_ok E S' ?site (fst al # es)"
    by (rule site_ok_push [OF ok len _ S'(3) _ c]) (use mode miss in auto)
  moreover have "InsertInClosureCallMode E al site dcIcTraitKind f S = Inr ((?site, snd al), S')"
    using S'(1,3) al k by (simp add: InsertInClosureCallMode_def Let_def the_entry_def new_entry_region alloc_ok_def bindS_app)
  ultimately show ?thesis using S' by auto
qed

lemma registry_ok_regions:
  "registry_ok E S \<Longrightarrow> (\<And>e x. js_entries S e = Some x \<Longrightarrow> R (GetJitRegionStart x) \<noteq> None) \<Longrightarrow> registry_ok E (S\<lparr>js_regions := R\<rparr>)"
proof -
  assume "registry_ok E S" and R: "\<And>e x. js_entries S e = Some x \<Longrightarrow> R (GetJitRegionStart x) \<noteq> None"
  then obtain L where "registry E S L" unfolding registry_ok_def by blast
  then have "registry E (S\<lparr>js_regions := R\<rparr>) L" using R by (simp add: registry_def caching_def)
  then show ?thesis unfolding registry_ok_def by blast
qed

text \<open>Functions \<open>2 * c\<close> and \<open>2 * c + 1\<close> share the code \<open>c\<close>; nothing is cached yet.\<close>

definition demo_jit :: jit_env where
  "demo_jit = \<lparr>jx_executable = (\<lambda>f. f div 2), jx_isBytecodeFunction = (\<lambda>_. True), jx_hash = of_nat,
     jx_trait = (\<lambda>k. \<lparr>m_isDirectCallMode = even k, m_codePtrPatchRecords = [True]\<rparr>), jx_icAnchor = (\<lambda>c. 64 * int c)\<rparr>"

definition empty_jit :: JitState where
  "empty_jit = \<lparr>js_nodes = (\<lambda>n. case n of Anchor c \<Rightarrow> \<lparr>m_prevNode = Some (Anchor c), m_nextNode = Some (Anchor c)\<rparr> | Entry _ \<Rightarrow> unlinked),
     js_entries = Map.empty, js_regions = Map.empty, js_bestEntryPoint = (\<lambda>_. 1000), js_ics = demo_ics\<rparr>"

lemma empty_jit_ok: "registry_ok demo_jit empty_jit"
  unfolding registry_ok_def
proof
  show "registry demo_jit empty_jit (\<lambda>_. [])"
    by (auto simp: registry_def dl.family_def dll_def anchors_def caching_def empty_jit_def)
qed

theorem InsertInDirectCallMode_correct_witness:
  "\<exists>site1 S1 site2 S2. InsertInDirectCallMode demo_jit (7, 4096) new_site 0 2 empty_jit = Inr ((site1, False, 4096), S1) \<and>
     InsertInDirectCallMode demo_jit (7, 8192) site1 0 3 S1 = Inr ((site2, True, 8192), S2) \<and> m_mode site2 = ClosureCall"
proof -
  have "site_ok demo_jit empty_jit new_site []" by (simp add: site_ok_def new_site_def targets_def x_maxEntries_def)
  from InsertInDirectCallMode_correct [OF empty_jit_ok this, of 0 False 2 "(7, 4096)"]
  obtain site1 S1 where 1: "InsertInDirectCallMode demo_jit (7, 4096) new_site 0 2 empty_jit = Inr ((site1, False, 4096), S1)"
    "registry_ok demo_jit S1" "site_ok demo_jit S1 site1 [7]" "m_mode site1 = DirectCall" "\<forall>e. e \<noteq> 7 \<longrightarrow> js_entries S1 e = None"
    by (auto simp: new_site_def x_maxEntries_def targets_def alloc_ok_def empty_jit_def)
  have t: "targets demo_jit S1 [7] = [1]"
  proof -
    have "S1 = snd (projr (InsertInDirectCallMode demo_jit (7, 4096) new_site 0 2 empty_jit))" using 1(1) by simp
    also have "js_entries \<dots> 7 = Some (new_entry (7, 4096) None (EFun 2) 0)"
      by (simp add: InsertInDirectCallMode_def Entry_Create_def new_site_def bindS_app the_entry_def on_nodes_def InsertAtHead_def
          new_entry_def demo_jit_def empty_jit_def Let_def bloomFilterMask_def x_maxEntries_def)
    finally show ?thesis by (simp add: targets_def target_of_def GetTargetExecutableCode_def demo_jit_def)
  qed
  have "alloc_ok (7, 8192) (S1\<lparr>js_entries := js_entries S1 |` (- set [7])\<rparr>)"
    using 1(5) by (auto simp: alloc_ok_def restrict_map_def split: if_splits)
  then show ?thesis
    using InsertInDirectCallMode_correct [OF 1(2,3,4), of 0 True 3 "(7, 8192)"] 1(1) t
    by (auto simp: x_maxEntries_def demo_jit_def)
qed

theorem UpdateBestEntryPoint_correct_witness:
  "\<exists>S S'. registry_ok demo_jit S \<and> js_regions S 4096 = Some [1100] \<and>
     UpdateBestEntryPoint demo_jit 1 1 5000 S = Inr ((), S') \<and> js_regions S' 4096 = Some [5100]"
proof -
  have "alloc_ok (7, 4096) empty_jit" by (simp add: alloc_ok_def empty_jit_def)
  then obtain S1 where S1: "registry_ok demo_jit S1" "js_entries S1 = [7 \<mapsto> new_entry (7, 4096) None (EFun 2) 0]"
    "js_bestEntryPoint S1 = (\<lambda>_. 1000)" "js_ics S1 = demo_ics"
    using Entry_Create_run [OF empty_jit_ok, of "(7, 4096)" 0 1 None "EFun 2"]
    by (auto simp: GetTargetExecutableCode_def demo_jit_def empty_jit_def)
  let ?S = "S1\<lparr>js_regions := [4096 \<mapsto> [1100]]\<rparr>" and ?x = "new_entry (7, 4096) None (EFun 2) 0"
  have r: "GetJitRegionStart ?x = 4096" "GetTargetExecutableCode demo_jit ?x = 1" "GetIcTraitKind ?x = 0"
    using tagged_ptr [of 4096 0 None "EFun 2"] by (simp_all add: new_entry_def GetTargetExecutableCode_def demo_jit_def)
  have reg: "registry_ok demo_jit ?S"
    using S1(1) by (rule registry_ok_regions) (use r(1) in \<open>simp add: S1(2) split: if_splits\<close>)
  have jumps: "jumps_ok demo_jit (\<lambda>_. [100]) ?S"
    using r S1(3) by (auto simp: jumps_ok_def S1(2) GetIcTrait_def demo_jit_def jump_value_def split: if_splits)
  have "caching demo_jit ?S 1 = {7}" using r(2) by (auto simp: caching_def S1(2) split: if_splits)
  then obtain S' where S': "UpdateBestEntryPoint demo_jit 1 1 5000 ?S = Inr ((), S')" "jumps_ok demo_jit (\<lambda>_. [100]) S'"
    "js_entries S' = js_entries ?S" "js_bestEntryPoint S' = (js_bestEntryPoint ?S)(1 := 5000)"
    using UpdateBestEntryPoint_correct [OF reg _ _ jumps, of 1 1 "{0, 64}" "\<lambda>_. []" 5000] demo_ics_lists S1(4) by (auto simp: demo_jit_def)
  have "js_entries S' 7 = Some ?x" "jx_isBytecodeFunction demo_jit (GetTargetExecutableCode demo_jit ?x)"
    using S'(3) by (simp_all add: S1(2)) (simp add: demo_jit_def)
  from jumps_okD [OF S'(2) this] have "js_regions S' 4096 = Some (map2 (jump_value 5000) (m_codePtrPatchRecords (GetIcTrait demo_jit ?x)) [100])"
    using S'(4) r(1,2) by simp
  moreover have "m_codePtrPatchRecords (GetIcTrait demo_jit ?x) = [True]" by (simp add: GetIcTrait_def demo_jit_def)
  ultimately have "js_regions S' 4096 = Some [5100]" by (simp add: jump_value_def)
  then show ?thesis using reg S'(1) by (intro exI [of _ ?S] exI [of _ S']) simp
qed

end
