(* ===== verification/Memory.thy ===== *)
theory Memory
  imports Prelude
begin

unbundle bit_operations_syntax

section \<open>The memory of a VM: address range, user heap and system heap\<close>

text \<open>
  A VM reserves 18 GB of addresses around a base that is a multiple of 32 GB (comment above class
  \<open>VM\<close> in \<open>src/runtime/vm.h\<close>):

  \<^verbatim>\<open>[ 12GB user heap ] [ 2GB padding ] [ 2GB short-pointer data structures ] [ 2GB system heap ]\<close>

  The base stands between the last two parts. \<open>VM::Create\<close> and \<open>VM::Destroy\<close> (\<open>src/runtime/vm.cpp\<close>)
  make and release the range; \<open>AllocFromUserHeap\<close> moves a pointer down from \<open>-4GB\<close>,
  \<open>AllocFromSystemHeap\<close> moves one up from the end of the VM struct, and \<open>BumpUserHeap\<close> and
  \<open>BumpSystemHeap\<close> map more pages. The short-pointer part is in theory \<open>SpdsPages\<close>.

  The operating system is a parameter: the addresses that it reserves, and whether a mapping
  succeeds (which may depend on what is mapped already). \<open>sizeof(VM)\<close> and \<open>sizeof(CoroutineRuntimeContext)\<close> are parameters too. The \<open>int64_t\<close>
  pointers of the user heap are integers: they stay far from the ends of the type. A message of
  \<open>VM_FAIL_IF\<close> is its format string.
\<close>

subsection \<open>Constants and rounding\<close>

definition x_pageSize :: nat where "x_pageSize = 4096"
definition x_vmLayoutLength :: u64 where "x_vmLayoutLength = 18 * 2 ^ 30"
definition x_vmLayoutAlignment :: u64 where "x_vmLayoutAlignment = 32 * 2 ^ 30"
definition x_vmLayoutAlignmentOffset :: u64 where "x_vmLayoutAlignmentOffset = 16 * 2 ^ 30"
definition x_vmBaseOffset :: u64 where "x_vmBaseOffset = 16 * 2 ^ 30"
definition x_vmUserHeapSize :: u64 where "x_vmUserHeapSize = 12 * 2 ^ 30"

definition RoundUpToMultipleOf :: "'a::len word \<Rightarrow> 'a word \<Rightarrow> 'a word" where
  "RoundUpToMultipleOf mult val = (val + mult - 1) div mult * mult"

text \<open>The second component is true when the addition wraps.\<close>

definition AddWithOverflowCheck :: "u32 \<Rightarrow> u32 \<Rightarrow> u32 \<times> bool" where
  "AddWithOverflowCheck a b = (a + b, unat a + unat b \<ge> 2 ^ 32)"

subsection \<open>The two bump allocators\<close>

text \<open>\<open>mapped\<close> lists the address ranges mapped so far, as offsets from the VM base.\<close>

record VMHeap =
  m_userHeapPtrLimit :: int
  m_userHeapCurPtr :: int
  m_systemHeapPtrLimit :: u32
  m_systemHeapCurPtr :: u32
  mapped :: "(int \<times> int) list"

type_synonym os_mmap = "(int \<times> int) list \<Rightarrow> int \<Rightarrow> int \<Rightarrow> bool"

definition InitializeVMBase :: "u64 \<Rightarrow> VMHeap" where
  "InitializeVMBase sz =
    \<lparr>m_userHeapPtrLimit = - uint (x_vmBaseOffset - x_vmUserHeapSize),
     m_userHeapCurPtr = - uint (x_vmBaseOffset - x_vmUserHeapSize),
     m_systemHeapPtrLimit = ucast (RoundUpToMultipleOf (of_nat x_pageSize) sz),
     m_systemHeapCurPtr = ucast sz,
     mapped = [(0, uint (RoundUpToMultipleOf (of_nat x_pageSize) sz))]\<rparr>"

definition user_limit_msg :: string where
  "user_limit_msg = ''Resource limit exceeded: user heap overflowed %dGB memory limit.''"
definition system_limit_msg :: string where
  "system_limit_msg = ''Resource limit exceeded: system heap overflowed 2GB memory limit.''"
definition system_wrap_msg :: string where
  "system_wrap_msg = ''Resource limit exceeded: system heap overflowed 4GB memory limit.''"
definition oom_msg :: string where
  "oom_msg = ''Out of Memory: Allocation of length %llu failed''"

definition BumpUserHeap :: "os_mmap \<Rightarrow> (VMHeap, unit) op" where
  "BumpUserHeap mm s =
    (if m_userHeapCurPtr s < - uint x_vmBaseOffset then Inl (Aborted user_limit_msg)
     else let newHeapLimit = m_userHeapCurPtr s AND NOT (65536 - 1);
              lengthToAllocate = m_userHeapPtrLimit s - newHeapLimit
          in if \<not> mm (mapped s) newHeapLimit lengthToAllocate then Inl (Aborted oom_msg)
             else Inr ((), s\<lparr>m_userHeapPtrLimit := newHeapLimit,
                             mapped := (newHeapLimit, newHeapLimit + lengthToAllocate) # mapped s\<rparr>))"

definition BumpSystemHeap :: "os_mmap \<Rightarrow> (VMHeap, unit) op" where
  "BumpSystemHeap mm s =
    (if m_systemHeapCurPtr s > 2147483647 - 65536 then Inl (Aborted system_limit_msg)
     else let newHeapLimit = RoundUpToMultipleOf 65536 (m_systemHeapCurPtr s);
              lengthToAllocate = newHeapLimit - m_systemHeapPtrLimit s
          in if \<not> mm (mapped s) (uint (m_systemHeapPtrLimit s)) (uint lengthToAllocate) then Inl (Aborted oom_msg)
             else Inr ((), s\<lparr>m_systemHeapPtrLimit := newHeapLimit,
                             mapped := (uint (m_systemHeapPtrLimit s), uint (m_systemHeapPtrLimit s) + uint lengthToAllocate) # mapped s\<rparr>))"

definition AllocFromUserHeap :: "os_mmap \<Rightarrow> u32 \<Rightarrow> (VMHeap, int) op" where
  "AllocFromUserHeap mm len =
    bindS (modS (\<lambda>s. s\<lparr>m_userHeapCurPtr := m_userHeapCurPtr s - uint len\<rparr>)) (\<lambda>_.
    bindS (\<lambda>s. if m_userHeapCurPtr s < m_userHeapPtrLimit s then BumpUserHeap mm s else Inr ((), s)) (\<lambda>_.
    getS m_userHeapCurPtr))"

definition AllocFromSystemHeap :: "os_mmap \<Rightarrow> u32 \<Rightarrow> (VMHeap, u32) op" where
  "AllocFromSystemHeap mm len =
    bindS (getS m_systemHeapCurPtr) (\<lambda>result.
    bindS (case AddWithOverflowCheck result len of (c, overflow) \<Rightarrow>
             if overflow then failS (Aborted system_wrap_msg) else modS (\<lambda>s. s\<lparr>m_systemHeapCurPtr := c\<rparr>)) (\<lambda>_.
    bindS (\<lambda>s. if m_systemHeapCurPtr s > m_systemHeapPtrLimit s then BumpSystemHeap mm s else Inr ((), s)) (\<lambda>_.
    retS result)))"

subsection \<open>Creating and destroying a VM\<close>

text \<open>
  The calls to \<open>mmap\<close> and \<open>munmap\<close> that succeed are the state, in order; \<open>do_syscall\<close> is their effect on
  the set of addresses in use.
\<close>

datatype syscall =
    MmapReserve u64 u64
  | MmapFixed u64 u64
  | Munmap u64 u64

definition span :: "u64 \<Rightarrow> u64 \<Rightarrow> nat set" where
  "span a len = {unat a..<unat a + unat len}"

fun do_syscall :: "nat set \<Rightarrow> syscall \<Rightarrow> nat set" where
  "do_syscall S (MmapReserve a len) = S \<union> span a len"
| "do_syscall S (MmapFixed a len) = S \<union> span a len"
| "do_syscall S (Munmap a len) = S - span a len"

text \<open>
  The operating system: where a range of some length is reserved (\<open>None\<close> is \<open>MAP_FAILED\<close>), whether a
  mapping at a fixed address and whether an unmapping succeeds, after the calls made so far.
\<close>

record os =
  os_reserve :: "syscall list \<Rightarrow> u64 \<Rightarrow> u64 option"
  os_map :: "syscall list \<Rightarrow> u64 \<Rightarrow> u64 \<Rightarrow> bool"
  os_unmap :: "syscall list \<Rightarrow> u64 \<Rightarrow> u64 \<Rightarrow> bool"

definition mmap_reserve :: "os \<Rightarrow> u64 \<Rightarrow> (syscall list, u64 option) op" where
  "mmap_reserve os len cs = (case os_reserve os cs len of
      None \<Rightarrow> Inr (None, cs)
    | Some a \<Rightarrow> Inr (Some a, cs @ [MmapReserve a len]))"

definition mmap_fixed :: "os \<Rightarrow> u64 \<Rightarrow> u64 \<Rightarrow> (syscall list, bool) op" where
  "mmap_fixed os a len cs = Inr (if os_map os cs a len then (True, cs @ [MmapFixed a len]) else (False, cs))"

text \<open>A failing \<open>munmap\<close> is only logged.\<close>

definition munmap :: "os \<Rightarrow> u64 \<Rightarrow> u64 \<Rightarrow> (syscall list, unit) op" where
  "munmap os a len cs = Inr ((), if os_unmap os cs a len then cs @ [Munmap a len] else cs)"

text \<open>\<open>AllocFromUserHeap\<close> of the VM at address \<open>vm\<close>, whose mappings are at offsets from that address.\<close>

definition user_alloc :: "os \<Rightarrow> u64 \<Rightarrow> u32 \<Rightarrow> VMHeap \<Rightarrow> (syscall list, VMHeap) op" where
  "user_alloc os vm len h cs =
    (case AllocFromUserHeap (\<lambda>_ a n. os_map os cs (vm + word_of_int a) (word_of_int n)) len h of
       Inl err \<Rightarrow> Inl err
     | Inr (_, h') \<Rightarrow> Inr (h', cs @ map (\<lambda>(lo, hi). MmapFixed (vm + word_of_int lo) (word_of_int (hi - lo)))
                                  (take (length (mapped h') - length (mapped h)) (mapped h'))))"

definition x_stackOverflowProtectionAreaSize :: u64 where "x_stackOverflowProtectionAreaSize = 65536"

definition reserve_msg :: string where
  "reserve_msg = ''Failed to reserve address range of length %llu''"

text \<open>\<open>CoroutineRuntimeContext::Create\<close>: the object comes from the user heap, its stack from the operating system.
  The result is \<open>m_stackBegin\<close>; \<open>csz\<close> is \<open>sizeof(CoroutineRuntimeContext)\<close>.\<close>

definition CoroutineRuntimeContext_Create :: "os \<Rightarrow> u64 \<Rightarrow> u32 \<Rightarrow> u64 \<Rightarrow> VMHeap \<Rightarrow> (syscall list, VMHeap \<times> u64) op" where
  "CoroutineRuntimeContext_Create os vm csz numStackSlots h =
    bindS (user_alloc os vm csz h) (\<lambda>h'.
    let bytesToAllocate = RoundUpToMultipleOf (of_nat x_pageSize) (numStackSlots * 8)
    in bindS (mmap_reserve os (bytesToAllocate + x_stackOverflowProtectionAreaSize * 2)) (\<lambda>r. case r of
         None \<Rightarrow> failS (Aborted reserve_msg)
       | Some stackAreaWithOverflowProtection \<Rightarrow>
           let stackArea = stackAreaWithOverflowProtection + x_stackOverflowProtectionAreaSize
           in bindS (mmap_fixed os stackArea bytesToAllocate) (\<lambda>ok.
              if \<not> ok then failS (Aborted oom_msg) else retS (h', stackArea))))"

text \<open>What the struct of a VM says about its memory.\<close>

record VMObject =
  vm_self :: u64
  vm_heap :: VMHeap
  vm_rootStackBegin :: u64

definition CreateRootCoroutine :: "os \<Rightarrow> u64 \<Rightarrow> u32 \<Rightarrow> VMHeap \<Rightarrow> (syscall list, VMHeap \<times> u64) op" where
  "CreateRootCoroutine os vm csz h = CoroutineRuntimeContext_Create os vm csz 65536 h"

text \<open>\<open>Initialize\<close>: the heap pointers, and the root coroutine at the end of \<open>InitializeVMGlobalData\<close> (whose symbols are in theory
  \<open>Selectors\<close>). It returns true unless it aborts.\<close>

definition VM_Initialize :: "os \<Rightarrow> u64 \<Rightarrow> u64 \<Rightarrow> u32 \<Rightarrow> (syscall list, bool \<times> VMObject) op" where
  "VM_Initialize os vm sz csz =
    bindS (CreateRootCoroutine os vm csz (InitializeVMBase sz)) (\<lambda>(h, st).
    retS (True, \<lparr>vm_self = vm, vm_heap = h, vm_rootStackBegin = st\<rparr>))"

definition x_mmapLength :: u64 where "x_mmapLength = x_vmLayoutLength + x_vmLayoutAlignment * 2"

text \<open>\<open>VM::Create\<close>; the clean-up of the \<open>Auto\<close> blocks runs when \<open>success\<close> is still false. \<open>sz\<close> is \<open>sizeof(VM)\<close>.\<close>

definition VM_Create :: "os \<Rightarrow> u64 \<Rightarrow> u32 \<Rightarrow> (syscall list, VMObject option) op" where
  "VM_Create os sz csz =
    bindS (mmap_reserve os x_mmapLength) (\<lambda>r. case r of
      None \<Rightarrow> retS None
    | Some ptr \<Rightarrow>
        let alignedPtr = RoundUpToMultipleOf x_vmLayoutAlignment ptr;
            vmRangeStart = alignedPtr + x_vmLayoutAlignmentOffset;
            vmRangeEnd = vmRangeStart + x_vmLayoutLength;
            originalMapEnd = ptr + x_mmapLength;
            vmVoid = vmRangeStart + x_vmBaseOffset;
            sizeToMap = RoundUpToMultipleOf (of_nat x_pageSize) sz;
            cleanup = bindS (munmap os vmRangeStart x_vmLayoutLength) (\<lambda>_. retS None)
        in bindS (if vmRangeStart > ptr then munmap os ptr (vmRangeStart - ptr) else retS ()) (\<lambda>_.
           bindS (if originalMapEnd > vmRangeEnd then munmap os vmRangeEnd (originalMapEnd - vmRangeEnd) else retS ()) (\<lambda>_.
           bindS (mmap_fixed os vmVoid sizeToMap) (\<lambda>ok.
           if \<not> ok then cleanup
           else bindS (VM_Initialize os vmVoid sz csz) (\<lambda>(success, v).
                if \<not> success then cleanup else retS (Some v))))))"

text \<open>\<open>VM::Destroy\<close>; \<open>Cleanup\<close> does nothing.\<close>

definition VM_Destroy :: "os \<Rightarrow> u64 \<Rightarrow> (syscall list, unit) op" where
  "VM_Destroy os vm = munmap os (vm - x_vmBaseOffset) x_vmLayoutLength"

subsection \<open>Rounding, in integers\<close>

lemma RoundUp_unat:
  assumes "0 < unat mult" "unat val + unat mult \<le> 2 ^ LENGTH('a)"
  shows "unat (RoundUpToMultipleOf mult (val :: 'a::len word)) = (unat val + unat mult - 1) div unat mult * unat mult"
proof -
  have "unat (val + mult - 1) = unat val + unat mult - 1"
  proof -
    have "of_nat (unat val + unat mult - 1) = (val + mult - 1 :: 'a word)" using assms(1) by (simp add: of_nat_diff)
    moreover have "unat val + unat mult - 1 < 2 ^ LENGTH('a)" using assms by linarith
    then have "unat (of_nat (unat val + unat mult - 1) :: 'a word) = unat val + unat mult - 1"
      by (simp only: unsigned_of_nat take_bit_nat_eq_self of_nat_id)
    ultimately show ?thesis by (simp only:)
  qed
  then have d: "unat ((val + mult - 1) div mult) = (unat val + unat mult - 1) div unat mult"
    by (simp add: unat_div)
  have le: "(unat val + unat mult - 1) div unat mult * unat mult \<le> unat val + unat mult - 1"
    by (rule div_times_less_eq_dividend)
  then have "(unat val + unat mult - 1) div unat mult * unat mult < 2 ^ LENGTH('a)" using assms by linarith
  then have "unat ((val + mult - 1) div mult) * unat mult < 2 ^ LENGTH('a)" unfolding d .
  then have "unat ((val + mult - 1) div mult * mult) = unat ((val + mult - 1) div mult) * unat mult"
    by (simp only: unat_mult_lem)
  then show ?thesis unfolding RoundUpToMultipleOf_def d .
qed

lemma round_up_bounds:
  assumes "0 < (m :: nat)"
  shows "n \<le> (n + m - 1) div m * m" "(n + m - 1) div m * m < n + m"
proof -
  have "(n + m - 1) div m * m + (n + m - 1) mod m = n + m - 1" by (rule div_mult_mod_eq)
  moreover have "(n + m - 1) mod m < m" using assms by simp
  ultimately show "n \<le> (n + m - 1) div m * m" "(n + m - 1) div m * m < n + m" using assms by linarith+
qed

lemma round_down_64k: "(x :: int) AND NOT (65536 - 1) = 65536 * (x div 65536)"
proof -
  have "x AND NOT (mask 16) = push_bit 16 (drop_bit 16 x)"
    by (rule bit_eqI) (auto simp: bit_simps)
  then show ?thesis by (simp add: mask_eq_exp_minus_1 push_bit_eq_mult drop_bit_eq_div)
qed


lemma unat_add_fits: "unat a + unat b < 2 ^ LENGTH('a) \<Longrightarrow> unat (a + b :: 'a::len word) = unat a + unat b"
  by (simp only: unat_add_lem)

lemmas layout_consts = x_vmLayoutLength_def x_vmLayoutAlignment_def x_vmLayoutAlignmentOffset_def x_vmBaseOffset_def
  x_vmUserHeapSize_def x_mmapLength_def x_pageSize_def

subsection \<open>The address range\<close>

text \<open>Where \<open>VM::Create\<close> cuts the reserved addresses, in natural numbers.\<close>

lemma create_layout:
  fixes ptr :: u64
  defines "A \<equiv> RoundUpToMultipleOf x_vmLayoutAlignment ptr"
  defines "S \<equiv> A + x_vmLayoutAlignmentOffset"
  assumes room: "unat ptr + unat x_mmapLength < 2 ^ 64"
  shows "unat S = unat A + 2 ^ 34" and "unat A mod 2 ^ 35 = 0" and "unat ptr \<le> unat A" and "unat A < unat ptr + 2 ^ 35"
    and "unat (S + x_vmLayoutLength) = unat A + 2 ^ 34 + 18 * 2 ^ 30"
    and "unat (S + x_vmBaseOffset) = unat A + 2 ^ 35"
    and "unat (ptr + x_mmapLength) = unat ptr + 82 * 2 ^ 30"
proof -
  have p: "unat ptr + 82 * 2 ^ 30 < 2 ^ 64" using room by (simp add: layout_consts)
  have A: "unat A = (unat ptr + 2 ^ 35 - 1) div 2 ^ 35 * 2 ^ 35"
    unfolding A_def using p by (subst RoundUp_unat) (simp_all add: layout_consts)
  show ge: "unat ptr \<le> unat A" and lt: "unat A < unat ptr + 2 ^ 35"
    unfolding A by (rule round_up_bounds, simp)+
  show "unat A mod 2 ^ 35 = 0" unfolding A by simp
  show S: "unat S = unat A + 2 ^ 34"
    unfolding S_def using p lt by (subst unat_add_fits) (simp_all add: layout_consts)
  show "unat (S + x_vmLayoutLength) = unat A + 2 ^ 34 + 18 * 2 ^ 30"
    using p lt S by (subst unat_add_fits) (simp_all add: layout_consts)
  show "unat (S + x_vmBaseOffset) = unat A + 2 ^ 35"
    using p lt S by (subst unat_add_fits) (simp_all add: layout_consts)
  show "unat (ptr + x_mmapLength) = unat ptr + 82 * 2 ^ 30"
    using p by (subst unat_add_fits) (simp_all add: layout_consts)
qed

lemma span_diff: "a \<le> b \<Longrightarrow> span a (b - a) = {unat a..<unat b}"
  by (simp add: span_def unat_sub word_le_nat_alt)

text \<open>After the cut, exactly the 18 GB around the base are left of what was reserved.\<close>

lemma create_cut:
  fixes ptr :: u64
  defines "S \<equiv> RoundUpToMultipleOf x_vmLayoutAlignment ptr + x_vmLayoutAlignmentOffset"
  assumes room: "unat ptr + unat x_mmapLength < 2 ^ 64" and disj: "M \<inter> span ptr x_mmapLength = {}"
  shows "foldl do_syscall M
     ([MmapReserve ptr x_mmapLength]
       @ (if S > ptr then [Munmap ptr (S - ptr)] else [])
       @ (if ptr + x_mmapLength > S + x_vmLayoutLength
          then [Munmap (S + x_vmLayoutLength) (ptr + x_mmapLength - (S + x_vmLayoutLength))] else []))
     = M \<union> span S x_vmLayoutLength" and "M \<inter> span S x_vmLayoutLength = {}"
proof -
  note lay = create_layout [OF room, folded S_def]
  have lt: "ptr < S" "S + x_vmLayoutLength < ptr + x_mmapLength"
    using lay by (simp_all add: word_less_nat_alt)
  have sp: "span ptr (S - ptr) = {unat ptr..<unat S}"
    "span (S + x_vmLayoutLength) (ptr + x_mmapLength - (S + x_vmLayoutLength)) = {unat S + 18 * 2 ^ 30..<unat ptr + 82 * 2 ^ 30}"
    "span ptr x_mmapLength = {unat ptr..<unat ptr + 82 * 2 ^ 30}" "span S x_vmLayoutLength = {unat S..<unat S + 18 * 2 ^ 30}"
    using lt lay by (simp_all add: span_diff) (simp_all add: span_def layout_consts)
  have le: "unat ptr \<le> unat S" "unat S + 18 * 2 ^ 30 \<le> unat ptr + 82 * 2 ^ 30" using lay by simp_all
  show "M \<inter> span S x_vmLayoutLength = {}" using disj le unfolding sp by fastforce
  have "M \<union> {unat ptr..<unat ptr + 82 * 2 ^ 30} - {unat ptr..<unat S} - {unat S + 18 * 2 ^ 30..<unat ptr + 82 * 2 ^ 30}
    = M \<union> {unat S..<unat S + 18 * 2 ^ 30}"
    using disj le unfolding sp by fastforce
  then show "foldl do_syscall M
     ([MmapReserve ptr x_mmapLength]
       @ (if S > ptr then [Munmap ptr (S - ptr)] else [])
       @ (if ptr + x_mmapLength > S + x_vmLayoutLength
          then [Munmap (S + x_vmLayoutLength) (ptr + x_mmapLength - (S + x_vmLayoutLength))] else []))
     = M \<union> span S x_vmLayoutLength" using lt by (simp add: sp)
qed

subsection \<open>Sequences of allocations\<close>

text \<open>
  \<open>alloc_all\<close> serves a list of requests and records the block that each one gets, as a pair of offsets from the VM
  base.
\<close>

datatype heap_request = UserReq u32 | SystemReq u32

fun request_length :: "heap_request \<Rightarrow> u32" where
  "request_length (UserReq len) = len"
| "request_length (SystemReq len) = len"

fun serve :: "os_mmap \<Rightarrow> heap_request \<Rightarrow> (VMHeap, int) op" where
  "serve mm (UserReq len) = AllocFromUserHeap mm len"
| "serve mm (SystemReq len) = bindS (AllocFromSystemHeap mm len) (\<lambda>p. retS (uint p))"

fun alloc_all :: "os_mmap \<Rightarrow> heap_request list \<Rightarrow> (VMHeap, (int \<times> int) list) op" where
  "alloc_all mm [] = retS []"
| "alloc_all mm (r # rs) =
    bindS (serve mm r) (\<lambda>p. bindS (alloc_all mm rs) (\<lambda>bs. retS ((p, p + uint (request_length r)) # bs)))"

definition good_request :: "heap_request \<Rightarrow> bool" where
  "good_request r \<longleftrightarrow> 0 < request_length r \<and> 8 dvd uint (request_length r)"

fun user_total :: "heap_request list \<Rightarrow> int" where
  "user_total [] = 0"
| "user_total (UserReq len # rs) = uint len + user_total rs"
| "user_total (SystemReq len # rs) = user_total rs"

fun system_total :: "heap_request list \<Rightarrow> int" where
  "system_total [] = 0"
| "system_total (UserReq len # rs) = system_total rs"
| "system_total (SystemReq len # rs) = uint len + system_total rs"

text \<open>The user heap lies between \<open>-16GB\<close> and \<open>-4GB\<close>; the system heap ends 64 KB below 2 GB.\<close>

abbreviation user_bottom :: int where "user_bottom \<equiv> - 17179869184"
abbreviation user_top :: int where "user_top \<equiv> - 4294967296"
abbreviation system_top :: int where "system_top \<equiv> 2147418112"

definition is_mapped :: "(int \<times> int) list \<Rightarrow> int \<Rightarrow> int \<Rightarrow> bool" where
  "is_mapped ms lo hi \<longleftrightarrow> (\<forall>a. lo \<le> a \<and> a < hi \<longrightarrow> (\<exists>(l, h) \<in> set ms. l \<le> a \<and> a < h))"

text \<open>The well-formed states of the two allocators.\<close>

definition heaps_ok :: "u64 \<Rightarrow> VMHeap \<Rightarrow> bool" where
  "heaps_ok sz s \<longleftrightarrow>
    user_bottom \<le> m_userHeapPtrLimit s \<and> m_userHeapPtrLimit s \<le> m_userHeapCurPtr s \<and> m_userHeapCurPtr s \<le> user_top
    \<and> 8 dvd m_userHeapCurPtr s \<and> is_mapped (mapped s) (m_userHeapPtrLimit s) user_top
    \<and> uint sz \<le> uint (m_systemHeapCurPtr s) \<and> m_systemHeapCurPtr s \<le> m_systemHeapPtrLimit s
    \<and> uint (m_systemHeapPtrLimit s) \<le> system_top
    \<and> 8 dvd uint (m_systemHeapCurPtr s) \<and> is_mapped (mapped s) 0 (uint (m_systemHeapPtrLimit s))"

lemma is_mapped_mono: "is_mapped ms lo hi \<Longrightarrow> set ms \<subseteq> set ms' \<Longrightarrow> lo \<le> lo' \<Longrightarrow> hi' \<le> hi \<Longrightarrow> is_mapped ms' lo' hi'"
  unfolding is_mapped_def by (meson order.strict_trans2 order_trans subsetD)

lemma is_mapped_Cons: "is_mapped ms lo hi \<Longrightarrow> is_mapped (m # ms) lo hi"
  by (erule is_mapped_mono) auto

lemma is_mapped_below: "is_mapped ms mid hi \<Longrightarrow> is_mapped ((lo, mid) # ms) lo hi"
  unfolding is_mapped_def by (metis (mono_tags, lifting) case_prodI list.set_intros linorder_not_le)

lemma is_mapped_above: "is_mapped ms lo mid \<Longrightarrow> is_mapped ((mid, hi) # ms) lo hi"
  unfolding is_mapped_def by (metis (mono_tags, lifting) case_prodI list.set_intros linorder_not_le)


lemma BumpUserHeap_run:
  assumes lim: "user_bottom \<le> m_userHeapCurPtr s" "m_userHeapCurPtr s < m_userHeapPtrLimit s"
  shows "BumpUserHeap mm s = Inl (Aborted oom_msg) \<and> (\<exists>ms a len. \<not> mm ms a len)
    \<or> (\<exists>n. BumpUserHeap mm s = Inr ((), s\<lparr>m_userHeapPtrLimit := n, mapped := (n, m_userHeapPtrLimit s) # mapped s\<rparr>)
        \<and> user_bottom \<le> n \<and> n \<le> m_userHeapCurPtr s)"
proof -
  let ?n = "65536 * (m_userHeapCurPtr s div 65536)"
  have "user_bottom div 65536 \<le> m_userHeapCurPtr s div 65536" using lim(1) by (rule zdiv_mono1) simp
  then have "user_bottom \<le> ?n" by simp
  moreover have "?n \<le> m_userHeapCurPtr s" by simp
  ultimately show ?thesis
    using lim(1) unfolding BumpUserHeap_def round_down_64k by (auto simp: Let_def layout_consts)
qed

lemma BumpSystemHeap_run:
  assumes lim: "uint (m_systemHeapCurPtr s) < system_top" "m_systemHeapPtrLimit s < m_systemHeapCurPtr s"
  shows "BumpSystemHeap mm s = Inl (Aborted oom_msg) \<and> (\<exists>ms a len. \<not> mm ms a len)
    \<or> (\<exists>n. BumpSystemHeap mm s = Inr ((), s\<lparr>m_systemHeapPtrLimit := n, mapped := (uint (m_systemHeapPtrLimit s), uint n) # mapped s\<rparr>)
        \<and> m_systemHeapCurPtr s \<le> n \<and> uint n \<le> system_top)"
proof -
  let ?c = "unat (m_systemHeapCurPtr s)" and ?n = "RoundUpToMultipleOf 65536 (m_systemHeapCurPtr s)"
  have "int ?c < system_top" using lim(1) by (simp only: uint_nat)
  then have c: "?c < 2147418112" by linarith
  have n: "unat ?n = (?c + 65536 - 1) div 65536 * 65536" using c by (subst RoundUp_unat) simp_all
  have le: "m_systemHeapCurPtr s \<le> ?n"
    unfolding word_le_nat_alt n by (rule round_up_bounds) simp
  have "(?c + 65536 - 1) div 65536 * 65536 < ?c + 65536" by (rule round_up_bounds) simp
  then have "(?c + 65536 - 1) div 65536 \<le> 32767" using c by linarith
  then have "unat ?n \<le> 2147418112" unfolding n by simp
  then have top: "uint ?n \<le> system_top" by (simp only: uint_nat)
  have "m_systemHeapPtrLimit s \<le> ?n" using le lim(2) by (meson le_less order_trans)
  then have "uint (m_systemHeapPtrLimit s) + uint (?n - m_systemHeapPtrLimit s) = uint ?n"
    by (simp only: uint_nat unat_sub word_le_nat_alt of_nat_diff)
  moreover have "\<not> 2147483647 - 65536 < m_systemHeapCurPtr s"
    using c by (simp add: word_less_nat_alt)
  ultimately show ?thesis using le top unfolding BumpSystemHeap_def by (auto simp: Let_def)
qed

text \<open>What one request does, on every outcome.\<close>

definition served :: "u64 \<Rightarrow> os_mmap \<Rightarrow> heap_request \<Rightarrow> VMHeap \<Rightarrow> (int \<times> VMHeap) res \<Rightarrow> bool" where
  "served sz mm r s res \<longleftrightarrow> (case res of
      Inl e \<Rightarrow> e = Aborted oom_msg \<and> (\<exists>ms a len. \<not> mm ms a len)
        \<or> e = Aborted user_limit_msg \<and> m_userHeapCurPtr s - user_total [r] < user_bottom
        \<or> e \<in> {Aborted system_limit_msg, Aborted system_wrap_msg}
          \<and> uint (m_systemHeapCurPtr s) + system_total [r] \<ge> system_top
    | Inr (p, s') \<Rightarrow> heaps_ok sz s' \<and> set (mapped s) \<subseteq> set (mapped s')
        \<and> m_userHeapCurPtr s' = m_userHeapCurPtr s - user_total [r]
        \<and> uint (m_systemHeapCurPtr s') = uint (m_systemHeapCurPtr s) + system_total [r]
        \<and> (case r of UserReq _ \<Rightarrow> p = m_userHeapCurPtr s' | SystemReq _ \<Rightarrow> p = uint (m_systemHeapCurPtr s)))"

lemma AllocFromUserHeap_served:
  assumes ok: "heaps_ok sz s" and len: "good_request (UserReq len)"
  shows "served sz mm (UserReq len) s (AllocFromUserHeap mm len s)"
proof -
  let ?s = "s\<lparr>m_userHeapCurPtr := m_userHeapCurPtr s - uint len\<rparr>"
  have pos: "0 < uint len" and dvd: "8 dvd m_userHeapCurPtr s - uint len"
    using len ok by (simp_all add: good_request_def heaps_ok_def word_less_def)
  consider "m_userHeapPtrLimit s \<le> m_userHeapCurPtr s - uint len" | "m_userHeapCurPtr s - uint len < user_bottom"
    | "user_bottom \<le> m_userHeapCurPtr ?s" "m_userHeapCurPtr ?s < m_userHeapPtrLimit ?s" by fastforce
  then show ?thesis
  proof cases
    case 1
    then have "AllocFromUserHeap mm len s = Inr (m_userHeapCurPtr s - uint len, ?s)" by (simp add: AllocFromUserHeap_def bindS_app)
    then show ?thesis using ok 1 pos dvd by (simp add: served_def heaps_ok_def)
  next
    case 2
    then have "AllocFromUserHeap mm len s = Inl (Aborted user_limit_msg)"
      using ok by (simp add: AllocFromUserHeap_def BumpUserHeap_def bindS_app heaps_ok_def layout_consts)
    then show ?thesis using 2 by (simp add: served_def)
  next
    case 3
    from BumpUserHeap_run [OF 3, of mm] show ?thesis
    proof (elim disjE exE conjE)
      fix n assume n: "BumpUserHeap mm ?s = Inr ((), ?s\<lparr>m_userHeapPtrLimit := n, mapped := (n, m_userHeapPtrLimit ?s) # mapped ?s\<rparr>)"
        "user_bottom \<le> n" "n \<le> m_userHeapCurPtr ?s"
      then show ?thesis using ok 3 pos dvd
        by (auto simp: AllocFromUserHeap_def bindS_app served_def heaps_ok_def intro: is_mapped_below is_mapped_Cons)
    qed (use 3 in \<open>auto simp: AllocFromUserHeap_def bindS_app served_def\<close>)
  qed
qed

lemma AllocFromSystemHeap_served:
  assumes ok: "heaps_ok sz s" and len: "good_request (SystemReq len)"
  shows "served sz mm (SystemReq len) s (serve mm (SystemReq len) s)"
proof (cases "unat (m_systemHeapCurPtr s) + unat len \<ge> 2 ^ 32")
  case True
  then have "int (unat (m_systemHeapCurPtr s) + unat len) \<ge> int (2 ^ 32)" by (simp only: of_nat_le_iff)
  then have "uint (m_systemHeapCurPtr s) + uint len \<ge> 2 ^ 32" by (simp only: uint_nat of_nat_add of_nat_power of_nat_numeral)
  then show ?thesis using True by (simp add: served_def AllocFromSystemHeap_def AddWithOverflowCheck_def bindS_app)
next
  case False
  let ?c = "m_systemHeapCurPtr s + len"
  let ?s = "s\<lparr>m_systemHeapCurPtr := ?c\<rparr>"
  have c: "uint ?c = uint (m_systemHeapCurPtr s) + uint len"
    using False unat_add_fits [of "m_systemHeapCurPtr s" len] by (simp only: uint_nat not_le len_bit0 len_num1) simp
  have dvd: "8 dvd uint ?c" and ge: "uint sz \<le> uint ?c"
    using len ok unsigned_greater_eq [of len] by (auto simp: good_request_def heaps_ok_def c intro: add_increasing2)
  have run: "serve mm (SystemReq len) s = bindR (if ?c > m_systemHeapPtrLimit s then BumpSystemHeap mm ?s else Inr ((), ?s))
      (\<lambda>(_, s'). Inr (uint (m_systemHeapCurPtr s), s'))"
    using False by (auto simp: AllocFromSystemHeap_def AddWithOverflowCheck_def bindS_app bindR_def split: sum.split)
  consider "?c \<le> m_systemHeapPtrLimit s" | "m_systemHeapPtrLimit s < ?c" "uint ?c \<ge> system_top"
    | "uint (m_systemHeapCurPtr ?s) < system_top" "m_systemHeapPtrLimit ?s < m_systemHeapCurPtr ?s" by fastforce
  then show ?thesis
  proof cases
    case 1
    then have "\<not> m_systemHeapPtrLimit s < ?c" by (simp only: not_less)
    then show ?thesis using 1 ok c dvd ge unfolding run by (simp add: served_def heaps_ok_def)
  next
    case 2
    then have "BumpSystemHeap mm ?s = Inl (Aborted system_limit_msg)" by (simp add: BumpSystemHeap_def word_less_def)
    then show ?thesis using 2 c unfolding run by (simp add: served_def)
  next
    case 3
    from BumpSystemHeap_run [OF 3, of mm] show ?thesis
    proof (elim disjE exE conjE)
      fix n assume "BumpSystemHeap mm ?s = Inr ((), ?s\<lparr>m_systemHeapPtrLimit := n, mapped := (uint (m_systemHeapPtrLimit ?s), uint n) # mapped ?s\<rparr>)"
        "m_systemHeapCurPtr ?s \<le> n" "uint n \<le> system_top"
      then show ?thesis using ok 3 c dvd ge unfolding run
        by (auto simp: served_def heaps_ok_def intro: is_mapped_above is_mapped_Cons)
    qed (use 3 in \<open>unfold run, auto simp: served_def\<close>)
  qed
qed


text \<open>A run of requests: the blocks lie between the old and the new pointers, each apart from the others.\<close>

definition apart :: "int \<times> int \<Rightarrow> int \<times> int \<Rightarrow> bool" where
  "apart b c \<longleftrightarrow> snd b \<le> fst c \<or> snd c \<le> fst b"

definition window :: "VMHeap \<Rightarrow> VMHeap \<Rightarrow> heap_request \<Rightarrow> int \<times> int \<Rightarrow> bool" where
  "window s s' r b \<longleftrightarrow> snd b = fst b + uint (request_length r) \<and> 8 dvd fst b \<and> (case r of
      UserReq _ \<Rightarrow> m_userHeapCurPtr s' \<le> fst b \<and> snd b \<le> m_userHeapCurPtr s
    | SystemReq _ \<Rightarrow> uint (m_systemHeapCurPtr s) \<le> fst b \<and> snd b \<le> uint (m_systemHeapCurPtr s'))"

lemma totals_nonneg: "0 \<le> user_total rs" "0 \<le> system_total rs"
  by (induction rs rule: user_total.induct) simp_all

lemma totals_Cons: "user_total (r # rs) = user_total [r] + user_total rs" "system_total (r # rs) = system_total [r] + system_total rs"
  by (cases r; simp)+

lemma serve_served: "heaps_ok sz s \<Longrightarrow> good_request r \<Longrightarrow> served sz mm r s (serve mm r s)"
  using AllocFromUserHeap_served AllocFromSystemHeap_served by (cases r) auto

definition all_served :: "u64 \<Rightarrow> os_mmap \<Rightarrow> heap_request list \<Rightarrow> VMHeap \<Rightarrow> ((int \<times> int) list \<times> VMHeap) res \<Rightarrow> bool" where
  "all_served sz mm rs s res \<longleftrightarrow> (case res of
      Inl e \<Rightarrow> e = Aborted oom_msg \<and> (\<exists>ms a len. \<not> mm ms a len)
        \<or> e = Aborted user_limit_msg \<and> m_userHeapCurPtr s - user_total rs < user_bottom
        \<or> e \<in> {Aborted system_limit_msg, Aborted system_wrap_msg}
          \<and> uint (m_systemHeapCurPtr s) + system_total rs \<ge> system_top
    | Inr (bs, s') \<Rightarrow> heaps_ok sz s' \<and> set (mapped s) \<subseteq> set (mapped s')
        \<and> m_userHeapCurPtr s' = m_userHeapCurPtr s - user_total rs
        \<and> uint (m_systemHeapCurPtr s') = uint (m_systemHeapCurPtr s) + system_total rs
        \<and> list_all2 (window s s') rs bs \<and> sorted_wrt apart bs)"

lemma window_served:
  assumes "served sz mm r s (Inr (p, s'))" "good_request r" "heaps_ok sz s"
  shows "window s s' r (p, p + uint (request_length r))"
  using assms by (cases r) (auto simp: served_def window_def heaps_ok_def)

lemma window_mono:
  assumes w: "window s t r b" and "m_userHeapCurPtr s \<le> m_userHeapCurPtr s0" "m_userHeapCurPtr t0 \<le> m_userHeapCurPtr t"
    and "uint (m_systemHeapCurPtr s0) \<le> uint (m_systemHeapCurPtr s)" "uint (m_systemHeapCurPtr t) \<le> uint (m_systemHeapCurPtr t0)"
  shows "window s0 t0 r b"
  using assms by (auto simp: window_def split: heap_request.splits)

text \<open>A block served before \<open>t\<close> and one served after it do not overlap.\<close>

lemma windows_apart:
  assumes "window s t r b" "window t u r' c" "heaps_ok sz s" "heaps_ok sz t"
  shows "apart b c"
proof -
  have "m_userHeapCurPtr s \<le> uint (m_systemHeapCurPtr t)" "m_userHeapCurPtr t \<le> uint (m_systemHeapCurPtr s)"
    using assms(3,4) by (auto simp: heaps_ok_def intro: order_trans [of _ 0])
  then show ?thesis using assms(1,2) by (auto simp: apart_def window_def split: heap_request.splits)
qed

lemma alloc_all_served:
  "heaps_ok sz s \<Longrightarrow> \<forall>r \<in> set rs. good_request r \<Longrightarrow> all_served sz mm rs s (alloc_all mm rs s)"
proof (induction rs arbitrary: s)
  case Nil
  then show ?case by (simp add: all_served_def)
next
  case (Cons r rs)
  have one: "served sz mm r s (serve mm r s)" using Cons.prems by (simp add: serve_served)
  note tot = totals_Cons [of r rs] totals_nonneg [of "[r]"] totals_nonneg [of rs]
  show ?case
  proof (cases "serve mm r s")
    case (Inl e)
    then show ?thesis using one tot by (auto simp: served_def all_served_def)
  next
    case (Inr pt)
    obtain p t where run: "serve mm r s = Inr (p, t)" using Inr by (cases pt) auto
    have t: "heaps_ok sz t" "set (mapped s) \<subseteq> set (mapped t)" "m_userHeapCurPtr t = m_userHeapCurPtr s - user_total [r]"
      "uint (m_systemHeapCurPtr t) = uint (m_systemHeapCurPtr s) + system_total [r]"
      using one by (simp_all add: run served_def)
    have w: "window s t r (p, p + uint (request_length r))"
      using window_served [of sz mm r s p t] one Cons.prems by (simp add: run)
    have later: "all_served sz mm rs t (alloc_all mm rs t)" using Cons t(1) by simp
    show ?thesis
    proof (cases "alloc_all mm rs t")
      case (Inl e)
      then show ?thesis using later t tot by (auto simp: all_served_def run)
    next
      case (Inr bu)
      obtain bs u where run': "alloc_all mm rs t = Inr (bs, u)" using Inr by (cases bu) auto
      have u: "heaps_ok sz u" "set (mapped t) \<subseteq> set (mapped u)" "m_userHeapCurPtr u = m_userHeapCurPtr t - user_total rs"
        "uint (m_systemHeapCurPtr u) = uint (m_systemHeapCurPtr t) + system_total rs"
        "list_all2 (window t u) rs bs" "sorted_wrt apart bs"
        using later by (simp_all add: run' all_served_def)
      have "window s u r (p, p + uint (request_length r))"
        using w by (rule window_mono) (use t u tot in simp_all)
      moreover have "list_all2 (window s u) rs bs"
        using u(5) by (rule list_all2_mono) (erule window_mono, use t u tot in simp_all)
      moreover have "\<forall>c \<in> set bs. apart (p, p + uint (request_length r)) c"
        using windows_apart [OF w _ Cons.prems(1) t(1)] u(5) by (metis in_set_conv_nth list_all2_conv_all_nth)
      ultimately show ?thesis using t u tot by (auto simp: all_served_def run run')
    qed
  qed
qed

lemma InitializeVMBase_ok:
  assumes sz: "8 dvd uint sz" "uint sz \<le> system_top"
  shows "heaps_ok sz (InitializeVMBase sz)" and "m_userHeapCurPtr (InitializeVMBase sz) = user_top"
    and "uint (m_systemHeapCurPtr (InitializeVMBase sz)) = uint sz"
proof -
  let ?p = "RoundUpToMultipleOf 4096 sz"
  have s: "unat sz \<le> 2147418112" using sz(2) by (simp only: uint_nat)
  then have p: "unat ?p = (unat sz + 4096 - 1) div 4096 * 4096"
    by (subst RoundUp_unat) (simp_all add: x_pageSize_def)
  have "(unat sz + 4096 - 1) div 4096 * 4096 < unat sz + 4096" "unat sz \<le> unat ?p"
    unfolding p by (rule round_up_bounds, simp)+
  moreover from this have "(unat sz + 4096 - 1) div 4096 \<le> 524272" using s by linarith
  ultimately have p_le: "unat sz \<le> unat ?p" "unat ?p \<le> 2147418112" unfolding p by simp_all
  have u: "unat (ucast sz :: u32) = unat sz" "unat (ucast ?p :: u32) = unat ?p"
    using s p_le by (simp_all add: unsigned_ucast_eq take_bit_nat_eq_self)
  then have i: "uint (ucast sz :: u32) = uint sz" "uint (ucast ?p :: u32) = uint ?p" by (simp_all only: uint_nat)
  have top: "uint ?p \<le> system_top" using p_le(2) by (simp only: uint_nat)
  have "is_mapped [(0, uint ?p)] 0 (uint ?p)" "is_mapped [(0, uint ?p)] user_top user_top" by (auto simp: is_mapped_def)
  then show "heaps_ok sz (InitializeVMBase sz)"
    using sz p_le u by (simp add: heaps_ok_def InitializeVMBase_def i top word_le_nat_alt layout_consts)
  show "uint (m_systemHeapCurPtr (InitializeVMBase sz)) = uint sz" by (simp add: InitializeVMBase_def i)
qed (simp add: InitializeVMBase_def layout_consts)

text \<open>
  C39. A VM serves any sequence of requests for blocks whose sizes are positive multiples of 8. If the
  run goes through, the blocks are as long as requested, begin at multiples of 8, do not overlap each
  other, lie in the part of the range meant for them (system blocks after the VM struct) and every byte of
  them is mapped; the requests for the user heap sum to 12 GB at most. If it stops, then with the out-of-memory message
  after a mapping the operating system refused, or with a message on the resource limit that the
  requests do exceed; the system heap may give up within 64 KB of 2 GB.
\<close>

theorem heap_allocations_correct:
  assumes sz: "8 dvd uint sz" "uint sz \<le> system_top" and good: "\<forall>r \<in> set rs. good_request r"
  shows "case alloc_all mm rs (InitializeVMBase sz) of
      Inr (bs, s) \<Rightarrow> sorted_wrt apart bs \<and> user_total rs \<le> 12 * 2 ^ 30 \<and> uint sz + system_total rs \<le> system_top
        \<and> list_all2 (\<lambda>r b. snd b = fst b + uint (request_length r) \<and> 8 dvd fst b \<and> is_mapped (mapped s) (fst b) (snd b)
            \<and> (case r of UserReq _ \<Rightarrow> user_bottom \<le> fst b \<and> snd b \<le> user_top
               | SystemReq _ \<Rightarrow> uint sz \<le> fst b \<and> snd b \<le> system_top)) rs bs
    | Inl e \<Rightarrow> e = Aborted oom_msg \<and> (\<exists>ms a len. \<not> mm ms a len)
        \<or> e = Aborted user_limit_msg \<and> user_total rs > 12 * 2 ^ 30
        \<or> e \<in> {Aborted system_limit_msg, Aborted system_wrap_msg} \<and> uint sz + system_total rs \<ge> system_top"
proof -
  let ?s = "InitializeVMBase sz"
  note init = InitializeVMBase_ok [OF sz]
  have run: "all_served sz mm rs ?s (alloc_all mm rs ?s)" using init(1) good by (rule alloc_all_served)
  have block: "snd b = fst b + uint (request_length r) \<and> 8 dvd fst b \<and> is_mapped (mapped s) (fst b) (snd b)
      \<and> (case r of UserReq _ \<Rightarrow> user_bottom \<le> fst b \<and> snd b \<le> user_top
         | SystemReq _ \<Rightarrow> uint sz \<le> fst b \<and> snd b \<le> system_top)"
    if w: "window ?s s r b" and ok: "heaps_ok sz s" for s r b
  proof (cases r)
    case (UserReq len)
    have "is_mapped (mapped s) (fst b) (snd b)"
      by (rule is_mapped_mono [of "mapped s" "m_userHeapPtrLimit s" user_top])
        (use w ok init(2) in \<open>auto simp: UserReq window_def heaps_ok_def\<close>)
    then show ?thesis using w ok init(2) by (simp add: UserReq window_def heaps_ok_def)
  next
    case (SystemReq len)
    have "is_mapped (mapped s) (fst b) (snd b)"
      by (rule is_mapped_mono [of "mapped s" 0 "uint (m_systemHeapPtrLimit s)"])
        (use w ok init(3) in \<open>auto simp: SystemReq window_def heaps_ok_def word_le_def intro: order_trans [of 0]\<close>)
    then show ?thesis using w ok init(3) by (simp add: SystemReq window_def heaps_ok_def word_le_def)
  qed
  show ?thesis
  proof (cases "alloc_all mm rs ?s")
    case (Inl e)
    then show ?thesis using run init by (auto simp: all_served_def)
  next
    case (Inr bs)
    then show ?thesis using run init block
      by (auto simp: all_served_def heaps_ok_def word_le_def elim: list_all2_mono)
  qed
qed

theorem heap_allocations_correct_witness:
  "\<exists>s. alloc_all (\<lambda>_ _ _. True) [UserReq 16, SystemReq 8, UserReq 8] (InitializeVMBase 8192)
      = Inr ([(user_top - 16, user_top), (8192, 8200), (user_top - 24, user_top - 16)], s)
    \<and> is_mapped (mapped s) (user_top - 24) (user_top - 16)"
proof -
  let ?rs = "[UserReq 16, SystemReq 8, UserReq 8]"
  obtain s where run: "alloc_all (\<lambda>_ _ _. True) ?rs (InitializeVMBase 8192)
      = Inr ([(user_top - 16, user_top), (8192, 8200), (user_top - 24, user_top - 16)], s)"
    by (simp add: AllocFromUserHeap_def AllocFromSystemHeap_def AddWithOverflowCheck_def BumpUserHeap_def BumpSystemHeap_def
        InitializeVMBase_def RoundUpToMultipleOf_def layout_consts bindS_app round_down_64k Let_def)
  have "\<forall>r \<in> set ?rs. good_request r" by (simp add: good_request_def)
  then show ?thesis using run heap_allocations_correct [of 8192 ?rs "\<lambda>_ _ _. True"] by (simp add: run)
qed

subsection \<open>Creating and destroying a VM\<close>

text \<open>The assumptions on the operating system: unmapping a range succeeds, and a reserved range is not in use.\<close>

definition os_ok :: "nat set \<Rightarrow> os \<Rightarrow> bool" where
  "os_ok M os \<longleftrightarrow> (\<forall>cs a n. os_unmap os cs a n) \<and>
     (\<forall>cs n a. os_reserve os cs n = Some a \<longrightarrow> unat a + unat n < 2 ^ 64 \<and> foldl do_syscall M cs \<inter> span a n = {})"

lemma user_alloc_run:
  assumes "0 < csz"
  shows "user_alloc os vm csz (InitializeVMBase sz) cs = Inl (Aborted oom_msg) \<and> (\<exists>a n. \<not> os_map os cs a n)
    \<or> (\<exists>h n. user_alloc os vm csz (InitializeVMBase sz) cs = Inr (h, cs @ [MmapFixed (vm + word_of_int n) (word_of_int (user_top - n))])
        \<and> user_bottom \<le> n \<and> n \<le> user_top)"
proof -
  let ?mm = "\<lambda>_ a n. os_map os cs (vm + word_of_int a) (word_of_int n)"
  let ?s = "(InitializeVMBase sz)\<lparr>m_userHeapCurPtr := user_top - uint csz\<rparr>"
  have csz: "0 < uint csz" "uint csz < 2 ^ 32" using assms uint_lt2p [of csz] by (simp_all add: word_less_def)
  then have lim: "user_bottom \<le> m_userHeapCurPtr ?s" "m_userHeapCurPtr ?s < m_userHeapPtrLimit ?s"
    by (simp_all add: InitializeVMBase_def layout_consts)
  from BumpUserHeap_run [OF this, of ?mm] show ?thesis
  proof (elim disjE exE conjE)
    fix n assume n: "BumpUserHeap ?mm ?s = Inr ((), ?s\<lparr>m_userHeapPtrLimit := n, mapped := (n, m_userHeapPtrLimit ?s) # mapped ?s\<rparr>)"
      "user_bottom \<le> n" "n \<le> m_userHeapCurPtr ?s"
    have "n \<le> user_top" using n(3) csz(1) by simp
    moreover have "user_alloc os vm csz (InitializeVMBase sz) cs =
        Inr (?s\<lparr>m_userHeapPtrLimit := n, mapped := (n, user_top) # mapped ?s\<rparr>, cs @ [MmapFixed (vm + word_of_int n) (word_of_int (user_top - n))])"
      using n(1) csz(1) by (simp add: user_alloc_def AllocFromUserHeap_def bindS_app InitializeVMBase_def layout_consts)
    ultimately show ?thesis using n(2) by blast
  qed (use csz in \<open>auto simp: user_alloc_def AllocFromUserHeap_def bindS_app InitializeVMBase_def layout_consts\<close>)
qed

text \<open>A mapping at an offset of the user heap lies in the range of the VM.\<close>

lemma user_span:
  assumes "user_bottom \<le> n" "n \<le> user_top" and "2 ^ 34 \<le> unat (vm :: u64)"
  shows "span (vm + word_of_int n) (word_of_int (user_top - n)) \<subseteq> {unat vm - 16 * 2 ^ 30..<unat vm + 2 * 2 ^ 30}"
proof -
  have "int (2 ^ 34) \<le> int (unat vm)" using assms(3) by (simp only: of_nat_le_iff)
  then have "2 ^ 34 \<le> uint vm" by (simp only: uint_nat of_nat_power of_nat_numeral)
  moreover have "uint vm < 2 ^ 64" using uint_lt2p [of vm] by simp
  ultimately have vm: "2 ^ 34 \<le> uint vm" "uint vm < 2 ^ 64" .
  have "vm + word_of_int n = word_of_int (uint vm + n)" by simp
  then have "uint (vm + word_of_int n) = uint vm + n"
    using assms(1,2) vm by (simp only: uint_word_of_int) (simp add: mod_pos_pos_trivial)
  then have a: "int (unat (vm + word_of_int n)) = int (unat vm) + n" by (simp only: uint_nat)
  have "uint (word_of_int (user_top - n) :: u64) = user_top - n"
    using assms(1,2) by (simp only: uint_word_of_int) (simp add: mod_pos_pos_trivial)
  then have b: "int (unat (word_of_int (user_top - n) :: u64)) = user_top - n" by (simp only: uint_nat)
  have "unat vm \<le> x + 17179869184 \<and> x < unat vm"
    if "unat (vm + word_of_int n) \<le> x" "x < unat (vm + word_of_int n) + unat (word_of_int (user_top - n) :: u64)" for x
    using a b that assms(1) by linarith
  then have "x \<in> {unat vm - 16 * 2 ^ 30..<unat vm + 2 * 2 ^ 30}"
    if "unat (vm + word_of_int n) \<le> x" "x < unat (vm + word_of_int n) + unat (word_of_int (user_top - n) :: u64)" for x
    using that by fastforce
  then show ?thesis unfolding span_def by (meson atLeastLessThan_iff subsetI)
qed

lemma stack_bytes: "RoundUpToMultipleOf (of_nat x_pageSize) 524288 = (524288 :: u64)"
  by (simp add: RoundUpToMultipleOf_def x_pageSize_def)

text \<open>The initialisation maps a part of the user heap and the stack of the root coroutine, or aborts.\<close>

lemma VM_Initialize_run:
  assumes os: "os_ok M os" and csz: "0 < csz" and vm: "2 ^ 34 \<le> unat vm"
    and cs: "foldl do_syscall M cs = M \<union> R" "R = {unat vm - 16 * 2 ^ 30..<unat vm + 2 * 2 ^ 30}"
  shows "case VM_Initialize os vm sz csz cs of
      Inl err \<Rightarrow> (err = Aborted oom_msg \<and> (\<exists>cs a n. \<not> os_map os cs a n)) \<or> (err = Aborted reserve_msg \<and> (\<exists>cs. os_reserve os cs 655360 = None))
    | Inr ((ok, v), cs') \<Rightarrow> ok \<and> vm_self v = vm \<and> set cs \<subseteq> set cs' \<and>
        (\<exists>area. vm_rootStackBegin v = area + 65536 \<and> unat area + 655360 < 2 ^ 64 \<and>
           (M \<union> R) \<inter> span area 655360 = {} \<and> foldl do_syscall M cs' = M \<union> R \<union> span area 655360)"
proof -
  have res: "unat a + unat n < 2 ^ 64 \<and> foldl do_syscall M cs \<inter> span a n = {}" if "os_reserve os cs n = Some a" for cs n a
    using os that by (simp add: os_ok_def)
  show ?thesis
    using user_alloc_run [OF csz, of os vm sz cs]
  proof (elim disjE exE conjE)
    fix h n assume h: "user_alloc os vm csz (InitializeVMBase sz) cs = Inr (h, cs @ [MmapFixed (vm + word_of_int n) (word_of_int (user_top - n))])"
      and n: "user_bottom \<le> n" "n \<le> user_top"
    define cs1 where "cs1 = cs @ [MmapFixed (vm + word_of_int n) (word_of_int (user_top - n))]"
    have cs1: "foldl do_syscall M cs1 = M \<union> R" using user_span [OF n vm] cs by (auto simp: cs1_def)
    note run = VM_Initialize_def CreateRootCoroutine_def CoroutineRuntimeContext_Create_def bindS_app h [folded cs1_def] Let_def
      stack_bytes x_stackOverflowProtectionAreaSize_def mmap_reserve_def mmap_fixed_def
    show ?thesis
    proof (cases "os_reserve os cs1 655360")
      case None
      then show ?thesis by (auto simp: run)
    next
      case (Some area)
      have area: "unat area + 655360 < 2 ^ 64" "(M \<union> R) \<inter> span area 655360 = {}" using res [OF Some] cs1 by simp_all
      have "unat (area + 65536) = unat area + 65536" using area(1) by (subst unat_add_fits) simp_all
      then have "span (area + 65536) 524288 \<subseteq> span area 655360" by (auto simp: span_def)
      then show ?thesis using Some area cs1 by (auto simp: run cs1_def)
    qed
  qed (auto simp: VM_Initialize_def CreateRootCoroutine_def CoroutineRuntimeContext_Create_def bindS_app)
qed

text \<open>The steps of \<open>VM::Create\<close> after the reservation: the calls that cut the range, the struct, the initialisation.\<close>

definition cut_calls :: "u64 \<Rightarrow> u64 \<Rightarrow> syscall list" where
  "cut_calls ptr S = [MmapReserve ptr x_mmapLength]
       @ (if S > ptr then [Munmap ptr (S - ptr)] else [])
       @ (if ptr + x_mmapLength > S + x_vmLayoutLength
          then [Munmap (S + x_vmLayoutLength) (ptr + x_mmapLength - (S + x_vmLayoutLength))] else [])"

lemma VM_Create_run:
  assumes "os_reserve os [] x_mmapLength = Some ptr" and "\<And>cs a n. os_unmap os cs a n"
    and S_def: "S = RoundUpToMultipleOf x_vmLayoutAlignment ptr + x_vmLayoutAlignmentOffset" and vm_def: "vm = S + x_vmBaseOffset"
  shows "VM_Create os sz csz [] =
      (if os_map os (cut_calls ptr S) vm (RoundUpToMultipleOf 4096 sz)
       then bindS (VM_Initialize os vm sz csz) (\<lambda>(success, v).
              if \<not> success then bindS (munmap os S x_vmLayoutLength) (\<lambda>_. retS None) else retS (Some v))
              (cut_calls ptr S @ [MmapFixed vm (RoundUpToMultipleOf 4096 sz)])
       else Inr (None, cut_calls ptr S @ [Munmap S x_vmLayoutLength]))"
  unfolding VM_Create_def Let_def cut_calls_def vm_def S_def
  by (simp add: bindS_app mmap_reserve_def assms(1,2) munmap_def mmap_fixed_def x_pageSize_def)

text \<open>The struct is mapped inside the range that is left.\<close>

lemma struct_span:
  assumes "unat sz \<le> 2 ^ 31 - 4096"
  shows "span vm (RoundUpToMultipleOf 4096 sz) \<subseteq> {unat vm - 16 * 2 ^ 30..<unat (vm :: u64) + 2 * 2 ^ 30}"
proof -
  have "unat (RoundUpToMultipleOf 4096 sz) = (unat sz + 4096 - 1) div 4096 * 4096"
    using assms by (subst RoundUp_unat) simp_all
  then have "unat (RoundUpToMultipleOf 4096 sz) < unat sz + 4096" using round_up_bounds(2) [of 4096 "unat sz"] by simp
  then show ?thesis using assms by (auto simp: span_def)
qed

text \<open>What is left of the reservation.\<close>

lemma cut_range:
  assumes os: "os_ok M os" and ptr: "os_reserve os [] x_mmapLength = Some ptr"
    and S_def: "S = RoundUpToMultipleOf x_vmLayoutAlignment ptr + x_vmLayoutAlignmentOffset" and vm_def: "vm = S + x_vmBaseOffset"
    and R_def: "R = {unat vm - 16 * 2 ^ 30..<unat vm + 2 * 2 ^ 30}"
  shows "2 ^ 34 \<le> unat vm" and "unat vm mod 2 ^ 35 = 0" and "span S x_vmLayoutLength = R"
    and "foldl do_syscall M (cut_calls ptr S) = M \<union> R" and "M \<inter> R = {}"
proof -
  have r: "unat ptr + unat x_mmapLength < 2 ^ 64" "M \<inter> span ptr x_mmapLength = {}"
    using os ptr by (force simp: os_ok_def)+
  note lay = create_layout [OF r(1), folded S_def, folded vm_def] and cut = create_cut [OF r, folded S_def, folded cut_calls_def]
  have vm: "unat vm = unat S + 2 ^ 34" using lay by simp
  then show "2 ^ 34 \<le> unat vm" by simp
  show "unat vm mod 2 ^ 35 = 0" using lay by (simp add: mod_add_right_eq)
  show S: "span S x_vmLayoutLength = R"
    by (simp add: span_def vm layout_consts R_def) (simp add: add.commute)
  show "foldl do_syscall M (cut_calls ptr S) = M \<union> R" "M \<inter> R = {}" using cut S by simp_all
qed


text \<open>An operating system that grants everything: the first reservation at 4096, the stack at 1 TB.\<close>

definition demo_calls :: "syscall list" where
  "demo_calls = [MmapReserve 4096 x_mmapLength, Munmap 4096 (48 * 2 ^ 30 - 4096), Munmap (66 * 2 ^ 30) (16 * 2 ^ 30 + 4096),
     MmapFixed (64 * 2 ^ 30) 8192, MmapFixed (60 * 2 ^ 30 - 65536) 65536]"

definition demo_os :: os where
  "demo_os = \<lparr>os_reserve = (\<lambda>cs n. if cs = [] \<and> n = x_mmapLength then Some 4096 else if cs = demo_calls \<and> n = 655360 then Some (2 ^ 40) else None),
     os_map = (\<lambda>_ _ _. True), os_unmap = (\<lambda>_ _ _. True)\<rparr>"

lemma demo_os_ok: "os_ok {5} demo_os"
  by (auto simp: os_ok_def demo_os_def demo_calls_def span_def layout_consts split: if_splits)

lemma demo_alloc:
  "\<exists>h. user_alloc demo_os (64 * 2 ^ 30) 256 (InitializeVMBase 8192) cs = Inr (h, cs @ [MmapFixed (60 * 2 ^ 30 - 65536) 65536])"
  by (simp add: user_alloc_def AllocFromUserHeap_def BumpUserHeap_def round_down_64k InitializeVMBase_def demo_os_def bindS_app Let_def layout_consts)

lemma demo_vm_create: "\<exists>v calls. VM_Create demo_os 8192 256 [] = Inr (Some v, calls) \<and> vm_self v = 64 * 2 ^ 30 \<and> vm_rootStackBegin v = 2 ^ 40 + 65536"
proof -
  obtain h where "user_alloc demo_os (64 * 2 ^ 30) 256 (InitializeVMBase 8192) (take 4 demo_calls) = Inr (h, demo_calls)"
    using demo_alloc [of "take 4 demo_calls"] by (auto simp: demo_calls_def)
  then show ?thesis
    by (simp add: VM_Create_def bindS_app mmap_reserve_def munmap_def mmap_fixed_def VM_Initialize_def CreateRootCoroutine_def
        CoroutineRuntimeContext_Create_def Let_def demo_os_def demo_calls_def RoundUpToMultipleOf_def layout_consts
        x_stackOverflowProtectionAreaSize_def)
qed


end
