(* ===== verification/SpdsPages.thy ===== *)
theory SpdsPages
  imports Memory
begin

unbundle bit_operations_syntax

section \<open>Pages of the short-pointer region, shared between threads\<close>

text \<open>
  The 2 GB below the VM base hold short-pointer data structures, in pages of 4 KB
  (\<open>src/runtime/vm.h\<close>, \<open>src/runtime/vm.cpp\<close>). A page is named by the offset of its end, an \<open>int32_t\<close>.
  Free pages form a list linked through the last four bytes of each page; its head is a 64-bit word that also
  holds a 32-bit tag, which every successful exchange increments. Any thread may take and give back pages
  without a lock; when the list is empty, a thread maps more pages under a mutex.

  The model is a step relation in which threads interleave at the atomic accesses of the code: loads of the tagged
  head, loads and stores of a link, the compare-and-exchange (which may fail spuriously), the
  operations of the mutex, and the load and the update of the allocation limit. It is sequentially
  consistent. A thread that is not inside one of these functions may write anything into the pages it owns.

  Ghost parts, which no step reads to decide what to do: the pages each thread owns, the number of successful
  exchanges, the number at which a thread last read the head, and the list of pages that a thread is giving back.
\<close>

subsection \<open>Tagged heads\<close>

definition x_spdsAllocationPageSize :: u32 where "x_spdsAllocationPageSize = 4096"

definition head_of :: "u64 \<Rightarrow> u32" where "head_of taggedValue = ucast taggedValue"

definition tag_of :: "u64 \<Rightarrow> u32" where "tag_of taggedValue = ucast (drop_bit 32 taggedValue)"

definition tagged :: "u32 \<Rightarrow> u32 \<Rightarrow> u64" where
  "tagged tag page = or (push_bit 32 (ucast tag)) (ucast page)"

subsection \<open>State\<close>

text \<open>
  Where a thread stands. \<open>GetLoop\<close>, \<open>GetCas\<close>: in \<open>SpdsAllocateTryGetFreeListPage\<close>, with the tagged value
  and, at the exchange, the new head. \<open>PutLoop\<close>, \<open>PutCas\<close>: in \<open>SpdsPutAllocatedPagesToFreeList\<close>, with
  \<open>firstPage\<close>, \<open>lastPage\<close>, the tagged value, and the page to return afterwards when the call comes from
  \<open>SpdsAllocatePageSlowPathImpl\<close>. The others are the points of the slow path.
\<close>

datatype pc =
    Idle
  | GetLoop u64
  | GetCas u64 u32
  | PutLoop u32 u32 u64 "u32 option"
  | PutCas u32 u32 u64 "u32 option"
  | SlowTryLock
  | SlowBlink
  | SlowLocked
  | SlowLimit u32
  | SlowUnlock u32

record Spds =
  m_spdsPageFreeList :: u64
  m_spdsPageAllocLimit :: u32
  m_spdsAllocationMutex :: "nat option"
  page_link :: "u32 \<Rightarrow> u32"
  pcs :: "nat \<Rightarrow> pc"
  owned :: "nat \<Rightarrow> u32 set"
  giving :: "nat \<Rightarrow> u32 list"
  ops :: nat
  stamp :: "nat \<Rightarrow> nat"

definition initial_spds :: "(u32 \<Rightarrow> u32) \<Rightarrow> Spds" where
  "initial_spds mem = \<lparr>m_spdsPageFreeList = ucast x_spdsAllocationPageSize, m_spdsPageAllocLimit = - of_nat x_pageSize,
     m_spdsAllocationMutex = None, page_link = mem, pcs = (\<lambda>_. Idle), owned = (\<lambda>_. {}), giving = (\<lambda>_. []), ops = 0, stamp = (\<lambda>_. 0)\<rparr>"

definition goto :: "nat \<Rightarrow> pc \<Rightarrow> Spds \<Rightarrow> Spds" where
  "goto t c s = s\<lparr>pcs := (pcs s)(t := c)\<rparr>"

subsection \<open>Taking a page from the free list\<close>

text \<open>Both the first load and a failed exchange leave the current head in \<open>taggedValue\<close>.\<close>

definition read_head :: "nat \<Rightarrow> (u64 \<Rightarrow> pc) \<Rightarrow> Spds \<Rightarrow> Spds" where
  "read_head t k s = goto t (k (m_spdsPageFreeList s)) (s\<lparr>stamp := (stamp s)(t := ops s)\<rparr>)"

definition compare_exchange :: "u64 \<Rightarrow> u64 \<Rightarrow> Spds \<Rightarrow> Spds option" where
  "compare_exchange expected desired s = (if m_spdsPageFreeList s = expected
     then Some (s\<lparr>m_spdsPageFreeList := desired, ops := ops s + 1\<rparr>) else None)"

definition get_link :: "nat \<Rightarrow> u64 \<Rightarrow> Spds \<Rightarrow> Spds" where
  "get_link t taggedValue s =
    (let page = head_of taggedValue
     in if page = x_spdsAllocationPageSize then goto t SlowTryLock s
        else goto t (GetCas taggedValue (page_link s page)) s)"

definition get_exchange :: "nat \<Rightarrow> u64 \<Rightarrow> u32 \<Rightarrow> Spds \<Rightarrow> Spds option" where
  "get_exchange t taggedValue newHead s =
    map_option (\<lambda>s'. goto t Idle (s'\<lparr>owned := (owned s')(t := insert (head_of taggedValue) (owned s' t))\<rparr>))
      (compare_exchange taggedValue (tagged (tag_of taggedValue + 1) newHead) s)"

subsection \<open>Giving pages back\<close>

definition put_link :: "nat \<Rightarrow> u32 \<Rightarrow> u32 \<Rightarrow> u64 \<Rightarrow> u32 option \<Rightarrow> Spds \<Rightarrow> Spds" where
  "put_link t firstPage lastPage taggedValue k s =
    goto t (PutCas firstPage lastPage taggedValue k) (s\<lparr>page_link := (page_link s)(lastPage := head_of taggedValue)\<rparr>)"

definition after_put :: "u32 option \<Rightarrow> pc" where
  "after_put k = (case k of None \<Rightarrow> Idle | Some result \<Rightarrow> SlowUnlock result)"

definition put_exchange :: "nat \<Rightarrow> u32 \<Rightarrow> u64 \<Rightarrow> u32 option \<Rightarrow> Spds \<Rightarrow> Spds option" where
  "put_exchange t firstPage taggedValue k s =
    map_option (\<lambda>s'. goto t (after_put k) (s'\<lparr>owned := (owned s')(t := owned s' t - set (giving s' t))\<rparr>))
      (compare_exchange taggedValue (tagged (tag_of taggedValue + 1) firstPage) s)"

subsection \<open>Mapping more pages\<close>

definition SubWithOverflowCheck :: "u32 \<Rightarrow> u32 \<Rightarrow> u32 \<times> bool" where
  "SubWithOverflowCheck a b = (a - b, sint a - sint b < - (2 ^ 31) \<or> 2 ^ 31 \<le> sint a - sint b)"

definition lengthToAllocate :: "u32 \<Rightarrow> u32" where
  "lengthToAllocate limit =
    (if sint limit > - 65536 then (if limit = 0 then 4096 else - limit) else 65536)"

text \<open>The loop that links \<open>n\<close> pages, each to the next, starting at \<open>cur\<close>.\<close>

fun link_pages :: "nat \<Rightarrow> u32 \<Rightarrow> (u32 \<Rightarrow> u32) \<Rightarrow> u32 \<times> (u32 \<Rightarrow> u32)" where
  "link_pages 0 cur link = (cur, link)"
| "link_pages (Suc n) cur link =
    (let nxt = cur + x_spdsAllocationPageSize in link_pages n nxt (link(cur := nxt)))"

definition spds_limit_msg :: string where
  "spds_limit_msg = ''Resource limit exceeded: SPDS region overflowed 2GB memory limit.''"

text \<open>
  \<open>SpdsAllocatePageSlowPathImpl\<close> after it has read the limit: the new limit, the page to return, the memory with the new
  links, and the first and last page for the free list, if any. \<open>mm\<close> says whether the mapping succeeds.
\<close>

definition SlowPathImpl :: "(u32 \<Rightarrow> u32 \<Rightarrow> bool) \<Rightarrow> u32 \<Rightarrow> (u32 \<Rightarrow> u32) \<Rightarrow> (u32 \<times> u32 \<times> (u32 \<Rightarrow> u32) \<times> (u32 \<times> u32) option) res" where
  "SlowPathImpl mm limit link =
    (let len = lengthToAllocate limit; (newLimit, overflow) = SubWithOverflowCheck limit len
     in if overflow then Inl (Aborted spds_limit_msg)
        else if newLimit = - (2 ^ 31) then Inl (Aborted spds_limit_msg)
        else if \<not> mm newLimit len then Inl (Aborted oom_msg)
        else let result = newLimit + x_spdsAllocationPageSize;
                 numPages = unat (len div x_spdsAllocationPageSize)
             in if numPages > 1
                then let firstPage = result + x_spdsAllocationPageSize;
                         (lastPage, link') = link_pages (numPages - 2) firstPage link
                     in Inr (newLimit, result, link', Some (firstPage, lastPage))
                else Inr (newLimit, result, link, None))"

text \<open>The thread owns the \<open>n\<close> pages just above the new limit; it gives back all but the first (ghost).\<close>

definition pages_from :: "u32 \<Rightarrow> nat \<Rightarrow> u32 list" where
  "pages_from p n = map (\<lambda>i. p + of_nat i * x_spdsAllocationPageSize) [0..<n]"

definition slow_path_map :: "(u32 \<Rightarrow> u32 \<Rightarrow> bool) \<Rightarrow> nat \<Rightarrow> u32 \<Rightarrow> Spds \<Rightarrow> Spds res" where
  "slow_path_map mm t limit s =
    bindR (SlowPathImpl mm limit (page_link s)) (\<lambda>(newLimit, result, link', rest_pages).
      let n = unat (lengthToAllocate limit div x_spdsAllocationPageSize);
          s' = s\<lparr>m_spdsPageAllocLimit := newLimit, page_link := link',
                 owned := (owned s)(t := owned s t \<union> set (pages_from result n)),
                 giving := (giving s)(t := pages_from (result + x_spdsAllocationPageSize) (n - 1))\<rparr>
      in Inr (case rest_pages of None \<Rightarrow> goto t (SlowUnlock result) s'
              | Some (firstPage, lastPage) \<Rightarrow> read_head t (\<lambda>v. PutLoop firstPage lastPage v (Some result)) s'))"

subsection \<open>The steps\<close>

fun segment :: "(u32 \<Rightarrow> u32) \<Rightarrow> u32 list \<Rightarrow> bool" where
  "segment link (p # q # ps) \<longleftrightarrow> link p = q \<and> segment link (q # ps)"
| "segment link [p] \<longleftrightarrow> True"
| "segment link [] \<longleftrightarrow> False"

text \<open>
  The caller of \<open>SpdsPutAllocatedPagesToFreeList\<close> owns the pages it gives back and has linked them (rule
  \<open>put_start\<close>). A process whose mapping fails stops, so there is no step for that.
\<close>

inductive step :: "(u32 \<Rightarrow> u32 \<Rightarrow> bool) \<Rightarrow> Spds \<Rightarrow> Spds \<Rightarrow> bool" for mm where
  get_start: "pcs s t = Idle \<Longrightarrow> step mm s (read_head t GetLoop s)"
| get_link: "pcs s t = GetLoop v \<Longrightarrow> step mm s (get_link t v s)"
| get_exchange: "pcs s t = GetCas v n \<Longrightarrow> get_exchange t v n s = Some s' \<Longrightarrow> step mm s s'"
| get_retry: "pcs s t = GetCas v n \<Longrightarrow> step mm s (read_head t GetLoop s)"
| put_start: "pcs s t = Idle \<Longrightarrow> set pages \<subseteq> owned s t \<Longrightarrow> distinct pages \<Longrightarrow> segment (page_link s) pages
    \<Longrightarrow> step mm s (read_head t (\<lambda>v. PutLoop (hd pages) (last pages) v None) (s\<lparr>giving := (giving s)(t := pages)\<rparr>))"
| put_link: "pcs s t = PutLoop f l v k \<Longrightarrow> step mm s (put_link t f l v k s)"
| put_exchange: "pcs s t = PutCas f l v k \<Longrightarrow> put_exchange t f v k s = Some s' \<Longrightarrow> step mm s s'"
| put_retry: "pcs s t = PutCas f l v k \<Longrightarrow> step mm s (read_head t (\<lambda>v. PutLoop f l v k) s)"
| try_lock: "pcs s t = SlowTryLock \<Longrightarrow> m_spdsAllocationMutex s = None
    \<Longrightarrow> step mm s (goto t SlowLocked (s\<lparr>m_spdsAllocationMutex := Some t\<rparr>))"
| try_lock_fails: "pcs s t = SlowTryLock \<Longrightarrow> step mm s (goto t SlowBlink s)"
| blink_lock: "pcs s t = SlowBlink \<Longrightarrow> m_spdsAllocationMutex s = None \<Longrightarrow> step mm s (read_head t GetLoop s)"
| read_limit: "pcs s t = SlowLocked \<Longrightarrow> step mm s (goto t (SlowLimit (m_spdsPageAllocLimit s)) s)"
| map_pages: "pcs s t = SlowLimit limit \<Longrightarrow> slow_path_map mm t limit s = Inr s' \<Longrightarrow> step mm s s'"
| unlock: "pcs s t = SlowUnlock result \<Longrightarrow> step mm s (goto t Idle (s\<lparr>m_spdsAllocationMutex := None\<rparr>))"
| client_write: "pcs s t = Idle \<Longrightarrow> p \<in> owned s t \<Longrightarrow> step mm s (s\<lparr>page_link := (page_link s)(p := w)\<rparr>)"

text \<open>
  The tag has 32 bits. A state is \<open>fresh\<close> when no thread holds a tagged value that is 2^32 or more
  exchanges old; the runs considered go through fresh states.
\<close>

fun in_loop :: "pc \<Rightarrow> bool" where
  "in_loop (GetLoop v) \<longleftrightarrow> True"
| "in_loop (GetCas v n) \<longleftrightarrow> True"
| "in_loop (PutLoop f l v k) \<longleftrightarrow> True"
| "in_loop (PutCas f l v k) \<longleftrightarrow> True"
| "in_loop _ \<longleftrightarrow> False"

definition fresh :: "Spds \<Rightarrow> bool" where
  "fresh s \<longleftrightarrow> (\<forall>t. in_loop (pcs s t) \<longrightarrow> ops s < stamp s t + 2 ^ 32)"

inductive run :: "(u32 \<Rightarrow> u32 \<Rightarrow> bool) \<Rightarrow> Spds \<Rightarrow> bool" for mm where
  start: "run mm (initial_spds mem)"
| more_steps: "run mm s \<Longrightarrow> step mm s s' \<Longrightarrow> fresh s' \<Longrightarrow> run mm s'"


subsection \<open>Words and pages\<close>

lemma tagged_sel [simp]: "head_of (tagged tag page) = page" "tag_of (tagged tag page) = tag"
proof -
  show "head_of (tagged tag page) = page"
    unfolding head_of_def tagged_def by (rule bit_word_eqI) (auto simp: bit_simps)
  show "tag_of (tagged tag page) = tag"
    unfolding tag_of_def tagged_def by (rule bit_word_eqI) (auto simp: bit_simps dest: bit_imp_le_length)
qed

lemma tagged_initial [simp]: "head_of (ucast p) = p" "tag_of (ucast (p :: u32)) = 0"
proof -
  show "head_of (ucast p) = p" unfolding head_of_def by (rule bit_word_eqI) (auto simp: bit_simps)
  show "tag_of (ucast (p :: u32)) = 0"
    unfolding tag_of_def by (rule bit_word_eqI) (auto simp: bit_simps dest: bit_imp_le_length)
qed

text \<open>The ends of the pages mapped so far.\<close>

definition region :: "u32 \<Rightarrow> u32 set" where
  "region limit = {p. sint limit < sint p \<and> sint p \<le> - 4096 \<and> 4096 dvd sint p}"

lemma region_not_end: "x_spdsAllocationPageSize \<notin> region limit"
  by (simp add: region_def x_spdsAllocationPageSize_def)

lemma sint_shift:
  fixes p :: u32
  assumes "sint p + int n * 4096 < 2 ^ 31"
  shows "sint (p + of_nat n * x_spdsAllocationPageSize) = sint p + int n * 4096"
proof -
  have lo: "- (2 ^ 31) \<le> sint p" using sint_greater_eq [of p] by simp
  have "p + of_nat n * x_spdsAllocationPageSize = word_of_int (sint p + int n * 4096)"
    by (simp add: x_spdsAllocationPageSize_def)
  moreover have "sint (word_of_int k :: u32) = signed_take_bit 31 k" for k by (simp add: signed_of_int)
  ultimately have "sint (p + of_nat n * x_spdsAllocationPageSize) = signed_take_bit 31 (sint p + int n * 4096)"
    by (simp only:)
  also have "\<dots> = sint p + int n * 4096"
    using assms lo by (intro signed_take_bit_int_eq_self) simp_all
  finally show ?thesis .
qed

lemma pages_from_mem:
  assumes "sint p + int n * 4096 < 2 ^ 31"
  shows "q \<in> set (pages_from p n) \<longleftrightarrow> (\<exists>i < n. sint q = sint p + int i * 4096)"
proof -
  have "sint (p + of_nat i * x_spdsAllocationPageSize) = sint p + int i * 4096" if "i < n" for i
    using assms that by (intro sint_shift) simp
  moreover have "q = p + of_nat i * x_spdsAllocationPageSize \<longleftrightarrow> sint q = sint (p + of_nat i * x_spdsAllocationPageSize)" for i
    by (metis signed_word_eqI)
  ultimately show ?thesis unfolding pages_from_def by (auto simp: image_iff)
qed

lemma pages_from_distinct:
  assumes "sint p + int n * 4096 < 2 ^ 31"
  shows "distinct (pages_from p n)"
proof -
  have "inj_on (\<lambda>i. p + of_nat i * x_spdsAllocationPageSize) {0..<n}"
  proof (rule inj_onI)
    fix i j assume ij: "i \<in> {0..<n}" "j \<in> {0..<n}"
      and eq: "p + of_nat i * x_spdsAllocationPageSize = p + of_nat j * x_spdsAllocationPageSize"
    have "sint (p + of_nat i * x_spdsAllocationPageSize) = sint p + int i * 4096"
      "sint (p + of_nat j * x_spdsAllocationPageSize) = sint p + int j * 4096"
      using ij assms by (intro sint_shift, simp)+
    then have "sint p + int i * 4096 = sint p + int j * 4096" using eq by (simp only:)
    then show "i = j" by simp
  qed
  then show ?thesis by (simp add: pages_from_def distinct_map)
qed

lemma pages_from_Suc: "pages_from p (Suc n) = p # pages_from (p + x_spdsAllocationPageSize) n"
  unfolding pages_from_def by (simp add: map_upt_Suc del: upt_Suc) (simp add: algebra_simps)

lemma pages_from_0 [simp]: "pages_from p 0 = []"
  by (simp add: pages_from_def)

lemma segment_cong: "(\<And>p. p \<in> set (butlast ps) \<Longrightarrow> link' p = link p) \<Longrightarrow> segment link' ps = segment link ps"
  by (induction link ps rule: segment.induct) auto

text \<open>The loop of the slow path links exactly the pages from \<open>firstPage\<close> to \<open>lastPage\<close>.\<close>

lemma link_pages_run:
  assumes "distinct (pages_from cur (Suc n))"
  shows "\<exists>link'. link_pages n cur link = (last (pages_from cur (Suc n)), link') \<and> segment link' (pages_from cur (Suc n))
    \<and> (\<forall>q. q \<notin> set (pages_from cur (Suc n)) \<longrightarrow> link' q = link q)"
  using assms
proof (induction n arbitrary: cur link)
  case 0
  then show ?case by (simp add: pages_from_Suc)
next
  case (Suc n)
  let ?nxt = "cur + x_spdsAllocationPageSize"
  have split: "pages_from cur (Suc (Suc n)) = cur # pages_from ?nxt (Suc n)" by (rule pages_from_Suc)
  have d: "distinct (pages_from ?nxt (Suc n))" "cur \<notin> set (pages_from ?nxt (Suc n))" using Suc.prems by (simp_all add: split)
  obtain link' where l: "link_pages n ?nxt (link(cur := ?nxt)) = (last (pages_from ?nxt (Suc n)), link')"
    "segment link' (pages_from ?nxt (Suc n))" "\<forall>q. q \<notin> set (pages_from ?nxt (Suc n)) \<longrightarrow> link' q = (link(cur := ?nxt)) q"
    using Suc.IH [OF d(1), of "link(cur := ?nxt)"] by blast
  have "link' cur = ?nxt" using l(3) d(2) by simp
  then have "segment link' (cur # pages_from ?nxt (Suc n))" using l(2) by (simp add: pages_from_Suc)
  moreover have "last (cur # pages_from ?nxt (Suc n)) = last (pages_from ?nxt (Suc n))" by (simp add: pages_from_Suc)
  ultimately show ?case using l(1,3) unfolding split by (auto simp: Let_def)
qed

subsection \<open>The free list\<close>

fun chain :: "(u32 \<Rightarrow> u32) \<Rightarrow> u32 \<Rightarrow> u32 list \<Rightarrow> bool" where
  "chain link h [] \<longleftrightarrow> h = x_spdsAllocationPageSize"
| "chain link h (p # ps) \<longleftrightarrow> h = p \<and> h \<noteq> x_spdsAllocationPageSize \<and> chain link (link p) ps"

lemma chain_cong: "(\<And>p. p \<in> set ps \<Longrightarrow> link' p = link p) \<Longrightarrow> chain link' h ps = chain link h ps"
  by (induction ps arbitrary: h) auto

lemma chain_append:
  "segment link qs \<Longrightarrow> link (last qs) = h \<Longrightarrow> chain link h ps \<Longrightarrow> x_spdsAllocationPageSize \<notin> set qs \<Longrightarrow> chain link (hd qs) (qs @ ps)"
  by (induction link qs rule: segment.induct) auto

lemma segment_nonempty: "segment link qs \<Longrightarrow> qs \<noteq> []"
  by auto


lemma sint_32: "- (2 ^ 31) \<le> k \<Longrightarrow> k < 2 ^ 31 \<Longrightarrow> sint (word_of_int k :: u32) = k"
  by (simp add: signed_of_int signed_take_bit_int_eq_self)

lemma sint_diff_32: "- (2 ^ 31) \<le> sint a - sint b \<Longrightarrow> sint a - sint b < 2 ^ 31 \<Longrightarrow> sint (a - b :: u32) = sint a - sint b"
  using sint_32 [of "sint a - sint b"] by simp

text \<open>Between 4 KB and 64 KB are mapped, in whole pages.\<close>

lemma lengthToAllocate_pages:
  assumes "4096 dvd sint limit" "sint limit \<le> - 4096"
  obtains m where "0 < m" "m \<le> 16" "sint (lengthToAllocate limit) = int m * 4096"
    "unat (lengthToAllocate limit div x_spdsAllocationPageSize) = m"
proof (cases "sint limit > - 65536")
  case True
  obtain k where k: "sint limit = 4096 * k" using assms(1) by (elim dvdE)
  define m where "m = nat (- k)"
  have m: "0 < m" "m \<le> 16" "sint limit = - (int m * 4096)" using assms(2) True k by (simp_all add: m_def)
  have "limit = word_of_int (- (int m * 4096))" by (simp flip: m(3))
  then have neg: "- limit = word_of_nat (m * 4096)" by simp
  have len: "lengthToAllocate limit = word_of_nat (m * 4096)"
    using True assms(2) neg by (auto simp: lengthToAllocate_def)
  show thesis
  proof (rule that [OF m(1,2)])
    show "sint (lengthToAllocate limit) = int m * 4096"
      using sint_32 [of "int m * 4096"] m(2) unfolding len by simp
    have "unat (word_of_nat (m * 4096) :: u32) = m * 4096" using m(2) by (simp only: unsigned_of_nat) (simp add: take_bit_nat_eq_self)
    then show "unat (lengthToAllocate limit div x_spdsAllocationPageSize) = m"
      unfolding len by (simp only: unat_div) (simp add: x_spdsAllocationPageSize_def)
  qed
next
  case False
  show thesis by (rule that [of 16]) (use False in \<open>simp_all add: lengthToAllocate_def x_spdsAllocationPageSize_def\<close>)
qed

lemma region_grows:
  assumes "sint newLimit + int m * 4096 = sint limit" "4096 dvd sint limit" "sint limit \<le> - 4096" "0 < m"
  shows "set (pages_from (newLimit + x_spdsAllocationPageSize) m) = region newLimit - region limit"
    and "region limit \<subseteq> region newLimit" "4096 dvd sint newLimit"
proof -
  have start: "sint (newLimit + x_spdsAllocationPageSize) = sint newLimit + 4096"
    using sint_shift [of newLimit 1] assms by simp
  obtain k where k: "sint limit = 4096 * k" using assms(2) by (elim dvdE)
  have nk: "sint newLimit = 4096 * (k - int m)" using assms(1) k by simp
  then show "4096 dvd sint newLimit" by simp
  show "region limit \<subseteq> region newLimit" using assms(1) by (auto simp: region_def)
  show "set (pages_from (newLimit + x_spdsAllocationPageSize) m) = region newLimit - region limit"
  proof (rule set_eqI)
    fix q
    have "q \<in> set (pages_from (newLimit + x_spdsAllocationPageSize) m) \<longleftrightarrow> (\<exists>i<m. sint q = sint newLimit + 4096 + int i * 4096)"
      by (subst pages_from_mem) (use assms start in simp_all)
    also have "\<dots> \<longleftrightarrow> q \<in> region newLimit - region limit"
    proof
      assume "\<exists>i<m. sint q = sint newLimit + 4096 + int i * 4096"
      then obtain i where i: "i < m" "sint q = sint newLimit + 4096 + int i * 4096" by blast
      then have "sint q = 4096 * (k - int m + 1 + int i)" using nk by simp
      then show "q \<in> region newLimit - region limit" using i assms k nk by (auto simp: region_def)
    next
      assume q: "q \<in> region newLimit - region limit"
      then obtain j where j: "sint q = 4096 * j" by (auto simp: region_def)
      have "k - int m < j" "j \<le> k" using q j k nk by (auto simp: region_def)
      then show "\<exists>i<m. sint q = sint newLimit + 4096 + int i * 4096"
        using j nk by (intro exI [of _ "nat (j - (k - int m) - 1)"]) auto
    qed
    finally show "q \<in> set (pages_from (newLimit + x_spdsAllocationPageSize) m) \<longleftrightarrow> q \<in> region newLimit - region limit" .
  qed
qed


text \<open>
  What \<open>SpdsAllocatePageSlowPathImpl\<close> does when it does not stop the process, with the pages named by number.
\<close>

lemma SlowPathImpl_run:
  assumes lim: "4096 dvd sint limit" "sint limit \<le> - 4096"
    and run: "SlowPathImpl mm limit link = Inr (newLimit, result, link', more_pages)"
    and n: "n = unat (lengthToAllocate limit div x_spdsAllocationPageSize)"
    and tail: "tail = pages_from (result + x_spdsAllocationPageSize) (n - 1)"
  shows "4096 dvd sint newLimit" "sint newLimit \<le> - 4096"
    and "set (pages_from result n) = region newLimit - region limit" "region limit \<subseteq> region newLimit"
    and "set (pages_from result n) = insert result (set tail)" "result \<notin> set tail" "distinct tail"
    and "\<And>q. q \<notin> set tail \<Longrightarrow> link' q = link q"
    and "case more_pages of None \<Rightarrow> tail = [] | Some (f, l) \<Rightarrow> segment link' tail \<and> hd tail = f \<and> last tail = l"
proof -
  obtain m where m: "0 < m" "m \<le> 16" "sint (lengthToAllocate limit) = int m * 4096"
    "unat (lengthToAllocate limit div x_spdsAllocationPageSize) = m"
    using lengthToAllocate_pages [OF lim] .
  then have nm: "n = m" by (simp add: n)
  have newL: "newLimit = limit - lengthToAllocate limit" and res: "result = newLimit + x_spdsAllocationPageSize"
    and no_ov: "\<not> snd (SubWithOverflowCheck limit (lengthToAllocate limit))"
    using run by (auto simp: SlowPathImpl_def SubWithOverflowCheck_def Let_def split: if_splits prod.splits)
  have "sint newLimit = sint limit - sint (lengthToAllocate limit)"
    unfolding newL using no_ov by (intro sint_diff_32) (simp_all add: SubWithOverflowCheck_def)
  then have sum: "sint newLimit + int n * 4096 = sint limit" using m nm by simp
  note grow = region_grows [OF sum lim] 
  have npos: "0 < n" using m nm by simp
  show "4096 dvd sint newLimit" "sint newLimit \<le> - 4096" "region limit \<subseteq> region newLimit"
    "set (pages_from result n) = region newLimit - region limit"
    using grow npos sum lim by (simp_all add: res)
  have split: "pages_from result n = result # tail"
    using pages_from_Suc [of result "n - 1"] npos by (simp add: tail)
  then show "set (pages_from result n) = insert result (set tail)" by simp
  have "sint result = sint newLimit + 4096" using sint_shift [of newLimit 1] sum lim(2) npos by (simp add: res)
  then have "distinct (pages_from result n)" using sum lim(2) by (intro pages_from_distinct) simp
  then show "result \<notin> set tail" and d: "distinct tail" by (simp_all add: split)
  have body: "(if n > 1 then \<exists>lp. link_pages (n - 2) (result + x_spdsAllocationPageSize) link = (lp, link')
        \<and> more_pages = Some (result + x_spdsAllocationPageSize, lp) else link' = link \<and> more_pages = None)"
    using run m(4) by (auto simp: SlowPathImpl_def SubWithOverflowCheck_def Let_def nm split: if_splits prod.splits)
  have both: "(\<forall>q. q \<notin> set tail \<longrightarrow> link' q = link q)
    \<and> (case more_pages of None \<Rightarrow> tail = [] | Some (f, l) \<Rightarrow> segment link' tail \<and> hd tail = f \<and> last tail = l)"
  proof (cases "n > 1")
    case True
    then have "tail = pages_from (result + x_spdsAllocationPageSize) (Suc (n - 2))" by (simp add: tail numeral_2_eq_2 Suc_diff_Suc)
    moreover have "hd tail = result + x_spdsAllocationPageSize" using calculation by (simp add: pages_from_Suc)
    ultimately show ?thesis using body True link_pages_run [of "result + x_spdsAllocationPageSize" "n - 2" link] d by auto
  next
    case False
    then show ?thesis using body by (simp add: tail)
  qed
  then show "case more_pages of None \<Rightarrow> tail = [] | Some (f, l) \<Rightarrow> segment link' tail \<and> hd tail = f \<and> last tail = l" by blast
  show "link' q = link q" if "q \<notin> set tail" for q using both that by blast
qed

subsection \<open>The invariant\<close>

text \<open>
  A thread's copy of the head is current whenever no exchange has succeeded since it was read. \<open>at_ok\<close> is what holds
  of a thread at each point of the code.
\<close>

definition snap :: "Spds \<Rightarrow> nat \<Rightarrow> u64 \<Rightarrow> bool" where
  "snap s t v \<longleftrightarrow> stamp s t \<le> ops s \<and> tag_of v = of_nat (stamp s t) \<and> (stamp s t = ops s \<longrightarrow> v = m_spdsPageFreeList s)"

definition gives :: "Spds \<Rightarrow> nat \<Rightarrow> u32 \<Rightarrow> u32 \<Rightarrow> bool" where
  "gives s t f l \<longleftrightarrow> segment (page_link s) (giving s t) \<and> distinct (giving s t) \<and> set (giving s t) \<subseteq> owned s t
     \<and> hd (giving s t) = f \<and> last (giving s t) = l"

fun at_ok :: "Spds \<Rightarrow> nat \<Rightarrow> pc \<Rightarrow> bool" where
  "at_ok s t (GetLoop v) \<longleftrightarrow> snap s t v"
| "at_ok s t (GetCas v n) \<longleftrightarrow> snap s t v \<and> head_of v \<noteq> x_spdsAllocationPageSize
     \<and> (stamp s t = ops s \<longrightarrow> n = page_link s (head_of v))"
| "at_ok s t (PutLoop f l v k) \<longleftrightarrow> snap s t v \<and> gives s t f l \<and> (k \<noteq> None \<longrightarrow> m_spdsAllocationMutex s = Some t)"
| "at_ok s t (PutCas f l v k) \<longleftrightarrow> snap s t v \<and> gives s t f l \<and> (k \<noteq> None \<longrightarrow> m_spdsAllocationMutex s = Some t)
     \<and> page_link s l = head_of v"
| "at_ok s t SlowLocked \<longleftrightarrow> m_spdsAllocationMutex s = Some t"
| "at_ok s t (SlowLimit limit) \<longleftrightarrow> m_spdsAllocationMutex s = Some t \<and> limit = m_spdsPageAllocLimit s"
| "at_ok s t (SlowUnlock result) \<longleftrightarrow> m_spdsAllocationMutex s = Some t"
| "at_ok s t _ \<longleftrightarrow> True"

definition free_pages :: "Spds \<Rightarrow> u32 list \<Rightarrow> bool" where
  "free_pages s free \<longleftrightarrow> chain (page_link s) (head_of (m_spdsPageFreeList s)) free \<and> distinct free
     \<and> set free \<union> (\<Union>t. owned s t) = region (m_spdsPageAllocLimit s) \<and> (\<forall>t. set free \<inter> owned s t = {})"

definition spds_inv :: "Spds \<Rightarrow> bool" where
  "spds_inv s \<longleftrightarrow> (\<exists>free. free_pages s free) \<and> (\<forall>t u. t \<noteq> u \<longrightarrow> owned s t \<inter> owned s u = {}) \<and> (\<forall>t. at_ok s t (pcs s t))
     \<and> tag_of (m_spdsPageFreeList s) = of_nat (ops s)
     \<and> 4096 dvd sint (m_spdsPageAllocLimit s) \<and> sint (m_spdsPageAllocLimit s) \<le> - 4096"

text \<open>What a step of another thread leaves of the state that a thread relies on.\<close>

definition undisturbed :: "nat \<Rightarrow> Spds \<Rightarrow> Spds \<Rightarrow> bool" where
  "undisturbed u s s' \<longleftrightarrow> pcs s' u = pcs s u \<and> owned s' u = owned s u \<and> giving s' u = giving s u \<and> stamp s' u = stamp s u
     \<and> (\<forall>p \<in> owned s u. page_link s' p = page_link s p)
     \<and> (m_spdsAllocationMutex s = Some u \<longrightarrow> m_spdsAllocationMutex s' = Some u \<and> m_spdsPageAllocLimit s' = m_spdsPageAllocLimit s)
     \<and> (ops s' = ops s + 1 \<or> ops s' = ops s \<and> m_spdsPageFreeList s' = m_spdsPageFreeList s
        \<and> (head_of (m_spdsPageFreeList s) \<noteq> x_spdsAllocationPageSize
           \<longrightarrow> page_link s' (head_of (m_spdsPageFreeList s)) = page_link s (head_of (m_spdsPageFreeList s))))"

lemma snap_undisturbed: "undisturbed u s s' \<Longrightarrow> snap s u v \<Longrightarrow> snap s' u v"
  by (auto simp: undisturbed_def snap_def)

lemma gives_undisturbed:
  assumes "undisturbed u s s'" "gives s u f l"
  shows "gives s' u f l"
proof -
  have "\<forall>p \<in> set (giving s u). page_link s' p = page_link s p" using assms by (auto simp: undisturbed_def gives_def)
  then have "segment (page_link s') (giving s u) = segment (page_link s) (giving s u)"
    by (intro segment_cong) (auto dest: in_set_butlastD)
  then show ?thesis using assms by (simp add: undisturbed_def gives_def)
qed

lemma gives_last: "gives s t f l \<Longrightarrow> l \<in> owned s t"
  using segment_nonempty unfolding gives_def by (metis last_in_set subsetD)

lemma at_ok_undisturbed:
  assumes u: "undisturbed u s s'" and ok: "at_ok s u (pcs s u)"
  shows "at_ok s' u (pcs s' u)"
proof -
  have pc: "pcs s' u = pcs s u" and mutex: "m_spdsAllocationMutex s = Some u \<Longrightarrow> m_spdsAllocationMutex s' = Some u \<and> m_spdsPageAllocLimit s' = m_spdsPageAllocLimit s"
    using u by (auto simp: undisturbed_def)
  show ?thesis
  proof (cases "pcs s u")
    case (GetCas v n)
    then show ?thesis using ok u snap_undisturbed [OF u, of v] unfolding pc
      by (auto simp: undisturbed_def snap_def)
  next
    case (PutCas f l v k)
    then show ?thesis using ok mutex snap_undisturbed [OF u, of v] gives_undisturbed [OF u, of f l] gives_last [of s u f l] u
      unfolding pc by (auto simp: undisturbed_def)
  qed (use ok mutex snap_undisturbed [OF u] gives_undisturbed [OF u] in \<open>auto simp: pc\<close>)
qed


subsection \<open>Every step keeps the invariant\<close>

lemma chain_head: "chain link h ps \<Longrightarrow> h \<noteq> x_spdsAllocationPageSize \<Longrightarrow> \<exists>qs. ps = h # qs \<and> chain link (link h) qs"
  by (cases ps) auto

lemma spds_inv_stepI:
  assumes "spds_inv s" "\<And>u. u \<noteq> t \<Longrightarrow> undisturbed u s s'" "at_ok s' t (pcs s' t)" "free_pages s' free"
    and "\<And>u. u \<noteq> t \<Longrightarrow> owned s' t \<inter> owned s' u = {}" "tag_of (m_spdsPageFreeList s') = of_nat (ops s')"
    and "4096 dvd sint (m_spdsPageAllocLimit s')" "sint (m_spdsPageAllocLimit s') \<le> - 4096"
  shows "spds_inv s'"
proof -
  have "at_ok s' u (pcs s' u)" for u
    using assms(1,3) at_ok_undisturbed [OF assms(2), of u] by (cases "u = t") (auto simp: spds_inv_def)
  moreover have "owned s' u = owned s u" if "u \<noteq> t" for u using assms(2) [OF that] by (simp add: undisturbed_def)
  then have "owned s' u \<inter> owned s' v = {}" if "u \<noteq> v" for u v
    using that assms(1) assms(5) [of u] assms(5) [of v] by (cases "u = t"; cases "v = t") (auto simp: spds_inv_def)
  ultimately show ?thesis using assms(4,6,7,8) unfolding spds_inv_def by blast
qed

text \<open>A step that changes nothing but the thread's own control state, its pages and possibly the mutex.\<close>

lemma private_step:
  assumes inv: "spds_inv s" and same: "owned s' = owned s" "m_spdsPageFreeList s' = m_spdsPageFreeList s"
      "m_spdsPageAllocLimit s' = m_spdsPageAllocLimit s" "ops s' = ops s"
    and links: "\<And>p. p \<notin> owned s t \<Longrightarrow> page_link s' p = page_link s p"
    and others: "\<And>u. u \<noteq> t \<Longrightarrow> pcs s' u = pcs s u \<and> giving s' u = giving s u \<and> stamp s' u = stamp s u"
      "\<And>u. u \<noteq> t \<Longrightarrow> m_spdsAllocationMutex s = Some u \<Longrightarrow> m_spdsAllocationMutex s' = Some u"
    and own: "at_ok s' t (pcs s' t)"
  shows "spds_inv s'"
proof -
  obtain free where free: "free_pages s free" using inv by (auto simp: spds_inv_def)
  have on_free: "page_link s' p = page_link s p" if "p \<in> set free" for p
    using that free by (intro links) (auto simp: free_pages_def)
  then have "free_pages s' free" using free chain_cong [of free "page_link s'" "page_link s"] by (simp add: free_pages_def same)
  moreover have "undisturbed u s s'" if "u \<noteq> t" for u
  proof -
    have "page_link s' p = page_link s p" if "p \<in> owned s u" for p
      using that \<open>u \<noteq> t\<close> inv by (intro links) (auto simp: spds_inv_def)
    moreover have "page_link s' h = page_link s h" if "h = head_of (m_spdsPageFreeList s)" "h \<noteq> x_spdsAllocationPageSize" for h
      using that free chain_head [of "page_link s" h free] by (intro on_free) (auto simp: free_pages_def)
    ultimately show ?thesis using others that by (simp add: undisturbed_def same)
  qed
  ultimately show ?thesis using inv own by (intro spds_inv_stepI [of s t s' free]) (auto simp: spds_inv_def same)
qed

text \<open>An exchange that succeeds with a fresh value: no other has succeeded since the value was read.\<close>

lemma snap_current:
  assumes "spds_inv s" "fresh s" "in_loop (pcs s t)" "snap s t v" "m_spdsPageFreeList s = v"
  shows "stamp s t = ops s"
proof -
  have "of_nat (ops s) = (of_nat (stamp s t) :: u32)" using assms by (simp add: spds_inv_def snap_def)
  then have "unat (of_nat (ops s) :: u32) = unat (of_nat (stamp s t) :: u32)" by (simp only:)
  then have "ops s mod 2 ^ 32 = stamp s t mod 2 ^ 32"
    by (simp only: unsigned_of_nat of_nat_id) (simp add: take_bit_eq_mod)
  moreover have "stamp s t \<le> ops s" "ops s < stamp s t + 2 ^ 32" using assms by (simp_all add: snap_def fresh_def)
  then have "2 ^ 32 dvd ops s - stamp s t" "ops s - stamp s t < 2 ^ 32"
    using calculation by (simp_all add: mod_eq_dvd_iff_nat less_diff_conv2)
  then have "ops s - stamp s t = 0" using nat_dvd_not_less by blast
  with \<open>stamp s t \<le> ops s\<close> show ?thesis by simp
qed

lemma get_exchange_step:
  assumes inv: "spds_inv s" and fr: "fresh s" and pc: "pcs s t = GetCas v n" and run: "get_exchange t v n s = Some s'"
  shows "spds_inv s'"
proof -
  obtain free where free: "free_pages s free" using inv by (auto simp: spds_inv_def)
  have at_t: "at_ok s t (GetCas v n)" using inv pc unfolding spds_inv_def by metis
  have v: "m_spdsPageFreeList s = v"
    and s': "s' = goto t Idle (s\<lparr>m_spdsPageFreeList := tagged (tag_of v + 1) n, ops := ops s + 1,
        owned := (owned s)(t := insert (head_of v) (owned s t))\<rparr>)"
    using run by (auto simp: get_exchange_def compare_exchange_def split: if_splits)
  have cur: "stamp s t = ops s" using snap_current [OF inv fr, of t v] pc at_t v by simp
  obtain qs where qs: "free = head_of v # qs" "chain (page_link s) (page_link s (head_of v)) qs"
    using chain_head [of "page_link s" "head_of v" free] free at_t v by (auto simp: free_pages_def)
  have n: "n = page_link s (head_of v)" using at_t cur by simp
  have "free_pages s' qs"
    using free qs by (auto simp: free_pages_def s' goto_def n split: if_splits)
  moreover have "undisturbed u s s'" if "u \<noteq> t" for u using that by (simp add: undisturbed_def s' goto_def)
  moreover have "owned s' t \<inter> owned s' u = {}" if "u \<noteq> t" for u
    using that inv free qs by (auto simp: spds_inv_def free_pages_def s' goto_def)
  moreover have "at_ok s' t (pcs s' t)" by (simp add: s' goto_def)
  moreover have "tag_of (m_spdsPageFreeList s') = of_nat (ops s')" using inv v by (simp add: s' goto_def spds_inv_def add.commute)
  moreover have "m_spdsPageAllocLimit s' = m_spdsPageAllocLimit s" by (simp add: s' goto_def)
  ultimately show ?thesis using inv by (intro spds_inv_stepI [of s t s' qs]) (auto simp: spds_inv_def)
qed

lemma put_exchange_step:
  assumes inv: "spds_inv s" and fr: "fresh s" and pc: "pcs s t = PutCas f l v k" and run: "put_exchange t f v k s = Some s'"
  shows "spds_inv s'"
proof -
  obtain free where free: "free_pages s free" using inv by (auto simp: spds_inv_def)
  have at_t: "at_ok s t (PutCas f l v k)" using inv pc unfolding spds_inv_def by metis
  have v: "m_spdsPageFreeList s = v"
    and s': "s' = goto t (after_put k) (s\<lparr>m_spdsPageFreeList := tagged (tag_of v + 1) f, ops := ops s + 1,
        owned := (owned s)(t := owned s t - set (giving s t))\<rparr>)"
    using run by (auto simp: put_exchange_def compare_exchange_def split: if_splits)
  have g: "segment (page_link s) (giving s t)" "distinct (giving s t)" "set (giving s t) \<subseteq> owned s t" "hd (giving s t) = f"
    "page_link s (last (giving s t)) = head_of v" using at_t by (simp_all add: gives_def)
  have "x_spdsAllocationPageSize \<notin> set (giving s t)"
    using g(3) free region_not_end unfolding free_pages_def by blast
  then have "chain (page_link s) f (giving s t @ free)"
    using chain_append [OF g(1,5)] free v g(4) by (simp add: free_pages_def)
  moreover have "set (giving s t @ free) \<union> (\<Union>u. owned s' u) = region (m_spdsPageAllocLimit s')"
  proof -
    have "(\<Union>u. owned s u) = set (giving s t) \<union> (\<Union>u. owned s' u)" using g(3) by (auto simp: s' goto_def split: if_splits)
    then show ?thesis using free by (auto simp: free_pages_def s' goto_def)
  qed
  moreover have "set (giving s t @ free) \<inter> owned s' u = {}" for u
    using g(3) free inv by (cases "u = t") (auto simp: free_pages_def s' goto_def spds_inv_def)
  moreover have "distinct (giving s t @ free)" using g free by (auto simp: free_pages_def)
  ultimately have "free_pages s' (giving s t @ free)" by (simp add: free_pages_def s' goto_def)
  moreover have "undisturbed u s s'" if "u \<noteq> t" for u using that by (simp add: undisturbed_def s' goto_def)
  moreover have "owned s' t \<inter> owned s' u = {}" if "u \<noteq> t" for u using that inv by (auto simp: spds_inv_def s' goto_def)
  moreover have "at_ok s' t (pcs s' t)" using at_t by (auto simp: s' goto_def after_put_def split: option.split)
  moreover have "tag_of (m_spdsPageFreeList s') = of_nat (ops s')" using inv v by (simp add: s' goto_def spds_inv_def add.commute)
  moreover have "m_spdsPageAllocLimit s' = m_spdsPageAllocLimit s" by (simp add: s' goto_def)
  ultimately show ?thesis using inv by (intro spds_inv_stepI [of s t s' "giving s t @ free"]) (auto simp: spds_inv_def)
qed


lemma slow_path_map_run:
  assumes "slow_path_map mm t limit s = Inr s'"
  obtains newLimit result link' more_pages n tail
  where "SlowPathImpl mm limit (page_link s) = Inr (newLimit, result, link', more_pages)"
    and "n = unat (lengthToAllocate limit div x_spdsAllocationPageSize)"
    and "tail = pages_from (result + x_spdsAllocationPageSize) (n - 1)"
    and "m_spdsPageAllocLimit s' = newLimit" "page_link s' = link'" "m_spdsPageFreeList s' = m_spdsPageFreeList s"
      "owned s' = (owned s)(t := owned s t \<union> set (pages_from result n))" "giving s' = (giving s)(t := tail)"
      "ops s' = ops s" "m_spdsAllocationMutex s' = m_spdsAllocationMutex s"
    and "\<forall>u. u \<noteq> t \<longrightarrow> pcs s' u = pcs s u \<and> stamp s' u = stamp s u"
    and "case more_pages of None \<Rightarrow> pcs s' t = SlowUnlock result
         | Some (f, l) \<Rightarrow> pcs s' t = PutLoop f l (m_spdsPageFreeList s) (Some result) \<and> stamp s' t = ops s"
  using assms
  by (auto simp: slow_path_map_def Let_def goto_def read_head_def split: option.splits elim!: bindR_InrE)

lemma map_pages_step:
  assumes inv: "spds_inv s" and pc: "pcs s t = SlowLimit limit" and run: "slow_path_map mm t limit s = Inr s'"
  shows "spds_inv s'"
proof -
  obtain free where free: "free_pages s free" using inv by (auto simp: spds_inv_def)
  have "at_ok s t (SlowLimit limit)" using inv pc unfolding spds_inv_def by metis
  then have mutex: "m_spdsAllocationMutex s = Some t" and limit: "limit = m_spdsPageAllocLimit s" by simp_all
  have lim: "4096 dvd sint limit" "sint limit \<le> - 4096" and tag: "tag_of (m_spdsPageFreeList s) = of_nat (ops s)"
    using inv by (simp_all add: spds_inv_def limit)
  obtain newLimit result link' more_pages n tail
    where r: "SlowPathImpl mm limit (page_link s) = Inr (newLimit, result, link', more_pages)"
      "n = unat (lengthToAllocate limit div x_spdsAllocationPageSize)" "tail = pages_from (result + x_spdsAllocationPageSize) (n - 1)"
    and s': "m_spdsPageAllocLimit s' = newLimit" "page_link s' = link'" "m_spdsPageFreeList s' = m_spdsPageFreeList s"
      "owned s' = (owned s)(t := owned s t \<union> set (pages_from result n))" "giving s' = (giving s)(t := tail)"
      "ops s' = ops s" "m_spdsAllocationMutex s' = m_spdsAllocationMutex s"
      "\<forall>u. u \<noteq> t \<longrightarrow> pcs s' u = pcs s u \<and> stamp s' u = stamp s u"
    and own: "case more_pages of None \<Rightarrow> pcs s' t = SlowUnlock result
         | Some (f, l) \<Rightarrow> pcs s' t = PutLoop f l (m_spdsPageFreeList s) (Some result) \<and> stamp s' t = ops s"
    using slow_path_map_run [OF run] .
  note impl = SlowPathImpl_run [OF lim r]
  have old: "owned s u \<subseteq> region limit" "set free \<subseteq> region limit" for u using free by (auto simp: free_pages_def limit)
  have keep: "link' p = page_link s p" if "p \<in> region limit" for p using that impl(3,5,8) by blast
  have "link' p = page_link s p" if "p \<in> set free" for p using that keep old(2) by blast
  then have "chain link' (head_of (m_spdsPageFreeList s)) free"
    using free chain_cong [of free link' "page_link s"] by (simp add: free_pages_def)
  moreover have "set free \<union> (\<Union>u. owned s' u) = region newLimit"
  proof -
    have "(\<Union>u. owned s' u) = (\<Union>u. owned s u) \<union> set (pages_from result n)" by (auto simp: s' split: if_splits)
    then show ?thesis using free impl(3,4) by (auto simp: free_pages_def limit)
  qed
  moreover have "set free \<inter> owned s' u = {}" for u using free old(2) impl(3) by (auto simp: s' free_pages_def)
  ultimately have fp: "free_pages s' free" using free by (simp add: free_pages_def s')
  have "undisturbed u s s'" if "u \<noteq> t" for u
  proof -
    have "head_of (m_spdsPageFreeList s) \<in> region limit" if "head_of (m_spdsPageFreeList s) \<noteq> x_spdsAllocationPageSize"
      using that free old(2) chain_head [of "page_link s" _ free] by (fastforce simp: free_pages_def)
    then show ?thesis using that keep old(1) [of u] mutex by (auto simp: undisturbed_def s')
  qed
  moreover have "owned s' t \<inter> owned s' u = {}" if "u \<noteq> t" for u
  proof -
    have "owned s t \<inter> owned s u = {}" using that inv unfolding spds_inv_def by blast
    then show ?thesis using that old(1) [of u] impl(3) by (auto simp: s')
  qed
  moreover have "at_ok s' t (pcs s' t)"
    using own impl(5,7,9) mutex tag by (auto simp: s' snap_def gives_def split: option.splits prod.splits)
  ultimately show ?thesis using inv fp tag impl(1,2) by (intro spds_inv_stepI [of s t s' free]) (auto simp: s')
qed

lemma read_head_step:
  assumes inv: "spds_inv s" and k: "\<And>v. at_ok (s\<lparr>giving := g, stamp := (stamp s)(t := ops s)\<rparr>) t (k v) =
      (snap (s\<lparr>giving := g, stamp := (stamp s)(t := ops s)\<rparr>) t v \<and> P)" and P
    and g: "\<And>u. u \<noteq> t \<Longrightarrow> g u = giving s u"
  shows "spds_inv (read_head t k (s\<lparr>giving := g\<rparr>))"
proof -
  let ?s = "s\<lparr>giving := g, stamp := (stamp s)(t := ops s)\<rparr>" and ?v = "m_spdsPageFreeList s"
  let ?r = "read_head t k (s\<lparr>giving := g\<rparr>)"
  have "snap ?s t ?v" using inv by (simp add: snap_def spds_inv_def)
  then have ok: "at_ok ?s t (k ?v)" using k \<open>P\<close> by simp
  have "at_ok ?r t c = at_ok ?s t c" for c
    by (cases c) (simp_all add: read_head_def goto_def snap_def gives_def)
  then have "at_ok ?r t (pcs ?r t)" using ok by (simp add: read_head_def goto_def)
  show ?thesis
    by (rule private_step [OF inv, of _ t]) (use g \<open>at_ok ?r t (pcs ?r t)\<close> in \<open>auto simp: read_head_def goto_def\<close>)
qed


lemma put_link_step:
  assumes inv: "spds_inv s" and pc: "pcs s t = PutLoop f l v k"
  shows "spds_inv (put_link t f l v k s)"
proof -
  have at_t: "at_ok s t (PutLoop f l v k)" using inv pc unfolding spds_inv_def by metis
  then have g: "gives s t f l" by simp
  then have l: "l \<in> owned s t" by (rule gives_last)
  have "segment ((page_link s)(l := head_of v)) (giving s t) = segment (page_link s) (giving s t)"
  proof (rule segment_cong)
    fix p assume "p \<in> set (butlast (giving s t))"
    moreover have "distinct (butlast (giving s t) @ [last (giving s t)])"
      using g segment_nonempty by (metis append_butlast_last_id gives_def)
    ultimately have "p \<noteq> l" using g by (auto simp: gives_def)
    then show "((page_link s)(l := head_of v)) p = page_link s p" by simp
  qed
  then have "at_ok (put_link t f l v k s) t (PutCas f l v k)"
    using at_t by (simp add: put_link_def goto_def gives_def snap_def)
  then show ?thesis
    by (intro private_step [OF inv, of _ t]) (use l in \<open>auto simp: put_link_def goto_def\<close>)
qed

lemma get_link_step:
  assumes inv: "spds_inv s" and pc: "pcs s t = GetLoop v"
  shows "spds_inv (get_link t v s)"
proof -
  have "at_ok s t (GetLoop v)" using inv pc unfolding spds_inv_def by metis
  then have "snap s t v" by simp
  then show ?thesis
    by (intro private_step [OF inv, of _ t]) (auto simp: get_link_def goto_def snap_def Let_def)
qed

text \<open>A step into a point of the slow path: the mutex excludes every other thread that holds it.\<close>

lemma mutex_step:
  assumes inv: "spds_inv s"
    and "\<And>u. u \<noteq> t \<Longrightarrow> m_spdsAllocationMutex s = Some u \<Longrightarrow> m = Some u"
    and "at_ok (s\<lparr>m_spdsAllocationMutex := m\<rparr>) t c" "\<not> in_loop c"
  shows "spds_inv (goto t c (s\<lparr>m_spdsAllocationMutex := m\<rparr>))"
  by (rule private_step [OF inv, of _ t]) (use assms in \<open>cases c; auto simp: goto_def\<close>)+

lemma keep_mutex: "s\<lparr>m_spdsAllocationMutex := m_spdsAllocationMutex s\<rparr> = s"
  by simp

lemma step_inv: "step mm s s' \<Longrightarrow> fresh s \<Longrightarrow> spds_inv s \<Longrightarrow> spds_inv s'"
proof (induction rule: step.induct)
  case (get_start s t)
  then show ?case using read_head_step [of s t "giving s" GetLoop True] by simp
next
  case (get_retry s t v n)
  then show ?case using read_head_step [of s t "giving s" GetLoop True] by simp
next
  case (blink_lock s t)
  then show ?case using read_head_step [of s t "giving s" GetLoop True] by simp
next
  case (put_start s t pages)
  let ?g = "(giving s)(t := pages)"
  have "gives (s\<lparr>giving := ?g, stamp := (stamp s)(t := ops s)\<rparr>) t (hd pages) (last pages)"
    using put_start by (simp add: gives_def)
  then show ?case using put_start read_head_step [of s t ?g "\<lambda>v. PutLoop (hd pages) (last pages) v None" True] by simp
next
  case (put_retry s t f l v k)
  have "at_ok s t (PutCas f l v k)" using put_retry by (metis spds_inv_def)
  then have "gives (s\<lparr>stamp := (stamp s)(t := ops s)\<rparr>) t f l" "k \<noteq> None \<longrightarrow> m_spdsAllocationMutex s = Some t"
    by (simp_all add: gives_def)
  then show ?case using put_retry read_head_step [of s t "giving s" "\<lambda>v. PutLoop f l v k" True] by simp
next
  case (try_lock s t)
  then show ?case by (intro mutex_step) auto
next
  case (try_lock_fails s t)
  then show ?case using mutex_step [of s t "m_spdsAllocationMutex s" SlowBlink] by simp
next
  case (read_limit s t)
  have "at_ok s t SlowLocked" using read_limit by (metis spds_inv_def)
  then show ?case
    using read_limit mutex_step [of s t "m_spdsAllocationMutex s" "SlowLimit (m_spdsPageAllocLimit s)", unfolded keep_mutex] by simp
next
  case (unlock s t result)
  have "at_ok s t (SlowUnlock result)" using unlock by (metis spds_inv_def)
  then show ?case using unlock by (intro mutex_step) auto
next
  case (client_write s t p w)
  then show ?case by (intro private_step [OF client_write(4), of _ t]) auto
qed (blast intro: get_link_step get_exchange_step put_link_step put_exchange_step map_pages_step)+

lemma initial_inv: "spds_inv (initial_spds mem)" "fresh (initial_spds mem)"
proof -
  have "region (- 4096) = {}" by (auto simp: region_def)
  then have "free_pages (initial_spds mem) []"
    by (simp add: free_pages_def initial_spds_def x_pageSize_def)
  then show "spds_inv (initial_spds mem)"
    unfolding spds_inv_def by (intro conjI exI) (simp_all add: initial_spds_def x_pageSize_def)
  show "fresh (initial_spds mem)" by (simp add: fresh_def initial_spds_def)
qed

lemma run_inv: "run mm s \<Longrightarrow> spds_inv s \<and> fresh s"
  by (induction rule: run.induct) (auto simp: initial_inv intro: step_inv)


text \<open>
  C40. However the threads interleave, as long as no thread sleeps through 2^32 or more exchanges
  between reading the head of the free list and its exchange: the list is a finite chain without
  repetition, no page is both free and in the hands of a thread, no two threads hold the same page, and the pages on the
  list and in the hands of threads are exactly the pages mapped so far, so none is lost.
\<close>

theorem spds_pages_exclusive:
  assumes "run mm s"
  shows "\<exists>free. chain (page_link s) (head_of (m_spdsPageFreeList s)) free \<and> distinct free
    \<and> (\<forall>t. set free \<inter> owned s t = {}) \<and> (\<forall>t u. t \<noteq> u \<longrightarrow> owned s t \<inter> owned s u = {})
    \<and> set free \<union> (\<Union>t. owned s t) = {p. sint (m_spdsPageAllocLimit s) < sint p \<and> sint p \<le> - 4096 \<and> 4096 dvd sint p}"
proof -
  have "spds_inv s" using run_inv [OF assms] ..
  then show ?thesis unfolding spds_inv_def free_pages_def region_def by blast
qed

text \<open>A thread that finds the list empty and maps the first page.\<close>

lemma fresh_young: "ops s < 2 ^ 32 \<Longrightarrow> fresh s"
  by (simp add: fresh_def trans_less_add2)

lemma run_step: "run mm s \<Longrightarrow> step mm s s' \<Longrightarrow> ops s' < 2 ^ 32 \<Longrightarrow> run mm s'"
  by (rule run.more_steps) (simp_all add: fresh_young)

lemma first_page_run:
  "\<exists>s. run (\<lambda>_ _. True) s \<and> owned s 0 = {- 4096} \<and> pcs s 0 = Idle \<and> m_spdsPageAllocLimit s = - 8192"
proof -
  let ?mm = "\<lambda>_ _. True" and ?s0 = "initial_spds (\<lambda>_. 0)"
  let ?s1 = "read_head 0 GetLoop ?s0"
  let ?s2 = "get_link 0 4096 ?s1"
  let ?s3 = "goto 0 SlowLocked (?s2\<lparr>m_spdsAllocationMutex := Some 0\<rparr>)"
  let ?s4 = "goto 0 (SlowLimit (m_spdsPageAllocLimit ?s3)) ?s3"
  let ?s5 = "goto 0 (SlowUnlock (- 4096)) (?s4\<lparr>m_spdsPageAllocLimit := - 8192, owned := (owned ?s4)(0 := {- 4096}), giving := (giving ?s4)(0 := [])\<rparr>)"
  let ?s6 = "goto 0 Idle (?s5\<lparr>m_spdsAllocationMutex := None\<rparr>)"
  note defs = read_head_def goto_def get_link_def initial_spds_def x_pageSize_def x_spdsAllocationPageSize_def Let_def head_of_def
  have run1: "run ?mm ?s1" by (rule run_step [OF run.start step.get_start]) (simp_all add: defs)
  have run2: "run ?mm ?s2" by (rule run_step [OF run1 step.get_link]) (simp_all add: defs)
  have run3: "run ?mm ?s3" by (rule run_step [OF run2 step.try_lock]) (simp_all add: defs)
  have run4: "run ?mm ?s4" by (rule run_step [OF run3 step.read_limit]) (simp_all add: defs)
  have impl: "SlowPathImpl ?mm (- 4096) link = Inr (- 8192, - 4096, link, None)" for link
    by (simp add: SlowPathImpl_def lengthToAllocate_def SubWithOverflowCheck_def x_spdsAllocationPageSize_def)
  have map: "slow_path_map ?mm 0 (- 4096) ?s4 = Inr ?s5"
    by (simp add: slow_path_map_def impl lengthToAllocate_def pages_from_def defs)
  have run5: "run ?mm ?s5" by (rule run_step [OF run4 step.map_pages [OF _ map]]) (simp_all add: defs)
  have "run ?mm ?s6" by (rule run_step [OF run5 step.unlock]) (simp_all add: defs)
  then show ?thesis by (intro exI [of _ ?s6]) (simp add: defs)
qed

theorem spds_pages_exclusive_witness:
  "\<exists>s free. run (\<lambda>_ _. True) s \<and> owned s 0 = {- 4096} \<and> pcs s 0 = Idle
     \<and> chain (page_link s) (head_of (m_spdsPageFreeList s)) free \<and> - 4096 \<notin> set free \<and> (\<forall>t. t \<noteq> 0 \<longrightarrow> - 4096 \<notin> owned s t)"
proof -
  obtain s where s: "run (\<lambda>_ _. True) s" "owned s 0 = {- 4096}" "pcs s 0 = Idle" using first_page_run by blast
  obtain free where c: "chain (page_link s) (head_of (m_spdsPageFreeList s)) free" "\<forall>t. set free \<inter> owned s t = {}"
    "\<forall>t u. t \<noteq> u \<longrightarrow> owned s t \<inter> owned s u = {}" using spds_pages_exclusive [OF s(1)] by blast
  have "- 4096 \<notin> set free" using c(2) [THEN spec, of 0] s(2) by simp
  moreover have "- 4096 \<notin> owned s t" if "t \<noteq> 0" for t
    using c(3) [rule_format, of 0 t] that s(2) by simp
  ultimately show ?thesis using s c(1) by blast
qed

end
