(* ===== verification/CompileCtx.thy ===== *)
theory CompileCtx
  imports Ast Operators Upvalues
begin

section \<open>The compiler: contexts, the bytecode under construction and name resolution\<close>

text \<open>
  The first part of \<open>src/runtime/som_compile_file.cpp\<close>, which translates methods to bytecode.

  A method is compiled into one code block for itself and one for each of its blocks that is not inlined. The
  objects that the code allocates in an arena and refers to by pointers are the entries of lists in the state \<open>CS\<close>:
  a \<open>TranslationContext\<close> for each code block, a \<open>BlockTranslationContext\<close> for each block of the
  source (inlined or not) and a \<open>LocalVarInfo\<close> for each variable. The stack of variables of one name
  has its last element first.

  The bytecode builder is generated at build time from the bytecode definitions. The model keeps
  the bytecodes with their operands in a list, names positions by index, and takes the encoded
  length of a bytecode (\<open>ce_size\<close>) and the number of constants of a code (\<open>ce_numConstants\<close>) as parameters; \<open>SetBranchTarget\<close>
  (\<open>src/drt/bytecode_builder.h\<close>) accepts a branch when the distance in bytes fits 16 bits.
  Slots are natural numbers. The model is of the release build, without test assertions; what is undefined
  behaviour there is \<open>Inl Undefined\<close>.
\<close>

subsection \<open>Bytecodes\<close>

datatype loc_or_cst = Loc nat | Cst val

text \<open>
  One constructor per bytecode that the compiler emits, or one for a template and its parameters; the last argument is the
  output slot, where there is one. \<open>BC_NewClosure\<close> refers to the code block by the index of its context.
\<close>

datatype bytecode =
    BC_Mov loc_or_cst nat
  | BC_SOMArrayDup val nat
  | BC_UpvalueGetMutable u16 nat
  | BC_UpvalueGetImmutable u16 nat
  | BC_UpvaluePut u16 loc_or_cst
  | BC_UpvalueClose nat
  | BC_SOMGetField nat u16 nat
  | BC_SOMPutField nat u16 loc_or_cst
  | BC_SOMGlobalGet nat u16 nat
  | BC_Branch
  | BC_BranchLoopHint
  | BC_BranchIf bool nat
  | BC_StoreNilAndBranchIf bool nat nat
  | BC_CopyAndBranchIf bool nat nat
  | BC_BranchIfNil bool nat
  | BC_CopyAndBranchIfNil bool nat nat
  | BC_CheckForLoopStartCond bool nat nat nat
  | BC_ForLoopStep bool nat
  | BC_BinOp BinOpKind loc_or_cst loc_or_cst nat
  | BC_OperatorEqualEqual loc_or_cst loc_or_cst nat
  | BC_UnaryOp UnaryOpKind nat nat
  | BC_IsNil bool nat nat
  | BC_TernaryOp TernaryOpKind nat loc_or_cst loc_or_cst nat
  | BC_SOMCall nat SOMUniquedString u16 nat
  | BC_SOMSelfCall nat nat SOMUniquedString u16 nat
  | BC_SOMSuperCall nat nat nat SOMUniquedString u16 nat
  | BC_NewClosure nat nat
  | BC_RangeFillNils nat u16
  | BC_Ret nat
  | BC_SOMThrow nat

text \<open>A code under construction: the bytecodes and the targets of the branches set so far.\<close>

type_synonym bcode = "(bytecode \<times> nat option) list"

subsection \<open>Contexts\<close>

record LocalVarInfo =
  lv_bctx :: nat
  lv_slotOrd :: nat
  lv_isUsed :: bool
  lv_isWritten :: bool
  lv_isImmutable :: bool

definition NotifyUse :: "LocalVarInfo \<Rightarrow> LocalVarInfo" where
  "NotifyUse v = v\<lparr>lv_isUsed := True\<rparr>"

definition NotifyWrite :: "bool \<Rightarrow> LocalVarInfo \<Rightarrow> LocalVarInfo" where
  "NotifyWrite isInDefiningBlock v =
     (let v' = (if lv_isUsed v \<or> \<not> isInDefiningBlock then v\<lparr>lv_isImmutable := False\<rparr> else v)
      in v'\<lparr>lv_isWritten := True\<rparr>)"

text \<open>The code block that a context produces (\<open>UnlinkedCodeBlock\<close>), by the members the compiler writes.\<close>

record UnlinkedCodeBlock =
  ucb_parent :: "nat option"
  ucb_numFixedArguments :: nat
  ucb_fnKind :: SOMDetailEntityType
  ucb_trivialFnType :: SOMMethodLookupResultKind
  ucb_trivialFnInfo :: upval
  ucb_stackFrameNumSlots :: nat
  ucb_upvalueInfo :: "UpvalueMetadata list"
  ucb_bytecode :: bcode

definition UnlinkedCodeBlock_Create :: UnlinkedCodeBlock where
  "UnlinkedCodeBlock_Create = \<lparr>ucb_parent = None, ucb_numFixedArguments = 0, ucb_fnKind = SOM_Method,
     ucb_trivialFnType = SOM_NormalMethod, ucb_trivialFnInfo = UvRaw 0, ucb_stackFrameNumSlots = 0, ucb_upvalueInfo = [], ucb_bytecode = []\<rparr>"

record TranslationContext =
  tc_historyTopSlot :: nat
  tc_builder :: bcode
  tc_allUpvalueGetBytecodes :: "nat list"
  tc_resultUcb :: UnlinkedCodeBlock
  tc_resultBCtx :: nat

text \<open>\<open>None\<close> is the placeholder \<open>static_cast<uint32_t>(-1)\<close>.\<close>

record UVInfo =
  uvi_isParentLocal :: bool
  uvi_parentLocalSlot :: "nat option"
  uvi_parentUpvalueOrd :: "nat option"
  uvi_varInfo :: "nat option"

record BlockTranslationContext =
  bt_startSlot :: nat
  bt_lexicalParent :: "nat option"
  bt_owningContext :: nat
  bt_trueParent :: "nat option"
  bt_hasCapturedLocal :: bool
  bt_containsThrowableBlocks :: bool
  bt_blockMayThrow :: bool
  bt_returnValueMayBeDiscarded :: bool
  bt_returnValueSlot :: "nat option"
  bt_uvs :: "UVInfo list"
  bt_uvOrdMap :: "nat \<rightharpoonup> nat"

text \<open>The two constructors; \<open>owner\<close> is the context itself in the first.\<close>

definition new_bctx :: "nat \<Rightarrow> nat option \<Rightarrow> nat \<Rightarrow> nat option \<Rightarrow> BlockTranslationContext" where
  "new_bctx startSlot lexicalParent owningContext trueParent =
     \<lparr>bt_startSlot = startSlot, bt_lexicalParent = lexicalParent, bt_owningContext = owningContext, bt_trueParent = trueParent,
      bt_hasCapturedLocal = False, bt_containsThrowableBlocks = False, bt_blockMayThrow = False,
      bt_returnValueMayBeDiscarded = False, bt_returnValueSlot = None, bt_uvs = [], bt_uvOrdMap = Map.empty\<rparr>"

definition IsInlined :: "nat \<Rightarrow> BlockTranslationContext \<Rightarrow> bool" where
  "IsInlined b x \<longleftrightarrow> bt_owningContext x \<noteq> b"

definition IsInlinedIntoTopLevelMethod :: "BlockTranslationContext \<Rightarrow> bool" where
  "IsInlinedIntoTopLevelMethod x \<longleftrightarrow> bt_trueParent x = None"

definition IsTopLevelMethod :: "nat \<Rightarrow> BlockTranslationContext \<Rightarrow> bool" where
  "IsTopLevelMethod b x \<longleftrightarrow> bt_trueParent x = None \<and> bt_owningContext x = b"

definition MustEmitUpvalueCloseBeforeReturn :: "BlockTranslationContext \<Rightarrow> bool" where
  "MustEmitUpvalueCloseBeforeReturn x \<longleftrightarrow> bt_hasCapturedLocal x \<or> bt_containsThrowableBlocks x"

definition MustMutablyCaptureSelf :: "BlockTranslationContext \<Rightarrow> bool" where
  "MustMutablyCaptureSelf x \<longleftrightarrow> bt_containsThrowableBlocks x \<or> bt_blockMayThrow x"

subsection \<open>State\<close>

record CS =
  cs_vm :: VM
  cs_vars :: "LocalVarInfo list"
  cs_bctxs :: "BlockTranslationContext list"
  cs_ctxs :: "TranslationContext list"
  cs_localVarMap :: "string \<Rightarrow> nat list"

type_synonym 'a cop = "(CS, 'a) op"

text \<open>What does not change while one method is compiled.\<close>

record cenv =
  ce_hash :: "string \<Rightarrow> u64"
  ce_size :: "bytecode \<Rightarrow> nat"
  ce_numConstants :: "bcode \<Rightarrow> nat"
  ce_fieldMap :: "string \<rightharpoonup> nat"
  ce_isSelfObject :: bool
  ce_superClass :: "nat option"

definition liftV :: "'a vmop \<Rightarrow> 'a cop" where
  "liftV m = (\<lambda>s. bindR (m (cs_vm s)) (\<lambda>(x, V). Inr (x, s\<lparr>cs_vm := V\<rparr>)))"

definition get_var :: "nat \<Rightarrow> LocalVarInfo cop" where
  "get_var v = (\<lambda>s. if v < length (cs_vars s) then Inr (cs_vars s ! v, s) else Inl Undefined)"

definition upd_var :: "nat \<Rightarrow> (LocalVarInfo \<Rightarrow> LocalVarInfo) \<Rightarrow> unit cop" where
  "upd_var v f = modS (\<lambda>s. s\<lparr>cs_vars := (cs_vars s)[v := f (cs_vars s ! v)]\<rparr>)"

definition get_bctx :: "nat \<Rightarrow> BlockTranslationContext cop" where
  "get_bctx b = (\<lambda>s. if b < length (cs_bctxs s) then Inr (cs_bctxs s ! b, s) else Inl Undefined)"

definition upd_bctx :: "nat \<Rightarrow> (BlockTranslationContext \<Rightarrow> BlockTranslationContext) \<Rightarrow> unit cop" where
  "upd_bctx b f = modS (\<lambda>s. s\<lparr>cs_bctxs := (cs_bctxs s)[b := f (cs_bctxs s ! b)]\<rparr>)"

definition get_ctx :: "nat \<Rightarrow> TranslationContext cop" where
  "get_ctx c = (\<lambda>s. if c < length (cs_ctxs s) then Inr (cs_ctxs s ! c, s) else Inl Undefined)"

definition upd_ctx :: "nat \<Rightarrow> (TranslationContext \<Rightarrow> TranslationContext) \<Rightarrow> unit cop" where
  "upd_ctx c f = modS (\<lambda>s. s\<lparr>cs_ctxs := (cs_ctxs s)[c := f (cs_ctxs s ! c)]\<rparr>)"

definition UpdateTopSlot :: "nat \<Rightarrow> nat \<Rightarrow> unit cop" where
  "UpdateTopSlot c slot = upd_ctx c (\<lambda>t. t\<lparr>tc_historyTopSlot := max (tc_historyTopSlot t) slot\<rparr>)"

definition emit :: "nat \<Rightarrow> bytecode \<Rightarrow> unit cop" where
  "emit c bc = upd_ctx c (\<lambda>t. t\<lparr>tc_builder := tc_builder t @ [(bc, None)]\<rparr>)"

definition GetCurLength :: "nat \<Rightarrow> nat cop" where
  "GetCurLength c = bindS (get_ctx c) (\<lambda>t. retS (length (tc_builder t)))"

definition byte_pos :: "(bytecode \<Rightarrow> nat) \<Rightarrow> bcode \<Rightarrow> nat \<Rightarrow> int" where
  "byte_pos sz bcs i = int (sum_list (map (sz \<circ> fst) (take i bcs)))"

definition SetBranchTarget :: "cenv \<Rightarrow> nat \<Rightarrow> nat \<Rightarrow> nat \<Rightarrow> bool cop" where
  "SetBranchTarget E c bcPos destBcPos =
     bindS (get_ctx c) (\<lambda>t.
     let diff = byte_pos (ce_size E) (tc_builder t) destBcPos - byte_pos (ce_size E) (tc_builder t) bcPos
     in if diff < - 32768 \<or> diff > 32767 then retS False
        else bindS (upd_ctx c (\<lambda>t. t\<lparr>tc_builder := (tc_builder t)[bcPos := (fst (tc_builder t ! bcPos), Some destBcPos)]\<rparr>)) (\<lambda>_. retS True))"

text \<open>Every caller stops the process when the target is too far.\<close>

definition branch_to :: "cenv \<Rightarrow> nat \<Rightarrow> nat \<Rightarrow> nat \<Rightarrow> unit cop" where
  "branch_to E c bcPos destBcPos =
     bindS (SetBranchTarget E c bcPos destBcPos) (\<lambda>ok.
     if ok then retS ()
     else failS (Aborted ''[ERROR] Branch exceeded bytecode maximum branch distance, function is too long.''))"

subsection \<open>Upvalues of a block\<close>

text \<open>
  \<open>AddUpvalue\<close> walks up the chain of true parents, so the number of contexts is enough fuel (each parent is older than
  its child).
\<close>

definition push_uv :: "nat \<Rightarrow> nat \<Rightarrow> UVInfo \<Rightarrow> nat cop" where
  "push_uv b var uv =
     bindS (get_bctx b) (\<lambda>x.
     bindS (upd_bctx b (\<lambda>x. x\<lparr>bt_uvs := bt_uvs x @ [uv], bt_uvOrdMap := (bt_uvOrdMap x)(var \<mapsto> length (bt_uvs x))\<rparr>)) (\<lambda>_.
     retS (length (bt_uvs x))))"

fun AddUpvalue :: "nat \<Rightarrow> nat \<Rightarrow> nat \<Rightarrow> nat cop" where
  "AddUpvalue 0 b var = failS OutOfFuel"
| "AddUpvalue (Suc n) b var =
     bindS (get_var var) (\<lambda>v.
     bindS (upd_bctx (lv_bctx v) (\<lambda>x. x\<lparr>bt_hasCapturedLocal := True\<rparr>)) (\<lambda>_.
     bindS (get_bctx (lv_bctx v)) (\<lambda>d.
     bindS (get_bctx b) (\<lambda>x.
     case bt_uvOrdMap x var of
       Some ord \<Rightarrow> retS ord
     | None \<Rightarrow>
         (case bt_trueParent x of
            None \<Rightarrow> failS Undefined
          | Some p \<Rightarrow>
              if p = bt_owningContext d
              then push_uv b var \<lparr>uvi_isParentLocal = True, uvi_parentLocalSlot = Some (lv_slotOrd v), uvi_parentUpvalueOrd = None,
                                   uvi_varInfo = Some var\<rparr>
              else bindS (AddUpvalue n p var) (\<lambda>parentUvOrd.
                   push_uv b var \<lparr>uvi_isParentLocal = False, uvi_parentLocalSlot = None, uvi_parentUpvalueOrd = Some parentUvOrd,
                                   uvi_varInfo = Some var\<rparr>))))))"

subsection \<open>Resolution of names\<close>

datatype VarUseKind = VU_Local | VU_Upvalue | VU_Field | VU_Global | VU_FalseTrueNil

datatype VarResolveMode = ForRead | ForWrite | DryRun

type_synonym VarResolveResult = "VarUseKind \<times> nat"

definition GetTValueForFalseTrueNil :: "VarResolveResult \<Rightarrow> val" where
  "GetTValueForFalseTrueNil vr = (if snd vr = 0 then TBool False else if snd vr = 1 then TBool True else TNil)"

definition resolve_var :: "nat \<Rightarrow> nat \<Rightarrow> VarResolveMode \<Rightarrow> VarResolveResult cop" where
  "resolve_var b var mode =
     bindS (get_var var) (\<lambda>v0.
     bindS (if mode = ForRead then upd_var var NotifyUse
            else if mode = ForWrite then upd_var var (NotifyWrite (b = lv_bctx v0)) else retS ()) (\<lambda>_.
     bindS (get_bctx (lv_bctx v0)) (\<lambda>d.
     bindS (get_bctx b) (\<lambda>x.
     if bt_owningContext d \<noteq> bt_owningContext x
     then bindS (getS (\<lambda>s. length (cs_bctxs s))) (\<lambda>n.
          bindS (AddUpvalue n (bt_owningContext x) var) (\<lambda>uvOrd. retS (VU_Upvalue, uvOrd)))
     else retS (VU_Local, lv_slotOrd v0)))))"

definition resolve_global :: "cenv \<Rightarrow> string \<Rightarrow> VarResolveMode \<Rightarrow> VarResolveResult cop" where
  "resolve_global E varName mode =
     (if mode \<noteq> ForWrite
      then if varName = ''false'' then retS (VU_FalseTrueNil, 0)
           else if varName = ''true'' then retS (VU_FalseTrueNil, 1)
           else if varName = ''nil'' then retS (VU_FalseTrueNil, 2)
           else bindS (liftV (GetSlotForGlobal (ce_hash E) varName)) (\<lambda>slot. retS (VU_Global, slot))
      else failS (Aborted ''Write to undefined variable/field %s is not allowed!''))"

definition ResolveVariable :: "cenv \<Rightarrow> nat \<Rightarrow> string \<Rightarrow> VarResolveMode \<Rightarrow> VarResolveResult cop" where
  "ResolveVariable E b varName mode =
     (if varName = ''self'' \<or> varName = ''super''
      then if mode = ForWrite then failS (Aborted ''Write to 'self' or 'super' is not allowed!'') else retS (VU_Local, 0)
      else bindS (getS (\<lambda>s. cs_localVarMap s varName)) (\<lambda>vars.
           case vars of
             var # _ \<Rightarrow> resolve_var b var mode
           | [] \<Rightarrow> (case ce_fieldMap E varName of
                     Some ord \<Rightarrow> retS (VU_Field, ord)
                   | None \<Rightarrow> resolve_global E varName mode)))"

definition IsVariableResolvedTo :: "cenv \<Rightarrow> nat \<Rightarrow> VarUseKind set \<Rightarrow> string \<Rightarrow> bool cop" where
  "IsVariableResolvedTo E b kinds varName =
     bindS (ResolveVariable E b varName DryRun) (\<lambda>vr. retS (fst vr \<in> kinds))"

end
