(* ===== verification/Compile.thy ===== *)
theory Compile
  imports CompileCtx Selectors Branches
begin

section \<open>The compiler: translation of expressions, blocks and methods\<close>

text \<open>
  The second part of \<open>src/runtime/som_compile_file.cpp\<close>. The functions that call each other recursively take the
  translation of smaller expressions as their parameter \<open>cx\<close>; the flag of \<open>cx\<close> is the parameter \<open>isTopLevel\<close> of the
  functions for calls (true for a statement whose value is not used). \<open>CompileExpression\<close> ties the knot; its fuel bounds
  the nesting depth of expressions, so the size of the method is enough.

  A context is given by its number: \<open>c\<close> for the \<open>TranslationContext\<close>, \<open>b\<close> for the \<open>BlockTranslationContext\<close>.
\<close>

type_synonym compile_fn = "bool \<Rightarrow> nat \<Rightarrow> nat \<Rightarrow> AstExpr \<Rightarrow> nat \<Rightarrow> nat \<Rightarrow> unit cop"

definition x_numSlotsForStackFrameHeader :: nat where "x_numSlotsForStackFrameHeader = 4"

subsection \<open>Literals\<close>

definition CreateConstantNonArray :: "AstExpr \<Rightarrow> val vmop" where
  "CreateConstantNonArray node = (case node of
      AstDouble d \<Rightarrow> retS (TDouble d)
    | AstInteger i \<Rightarrow> retS (TInt i)
    | AstString ord \<Rightarrow> bindS (GetInternedString ord) (\<lambda>a. retS (TObj a))
    | AstSymbol ord \<Rightarrow> bindS (GetInternedSymbol ord) (\<lambda>a. retS (TObj a))
    | _ \<Rightarrow> failS Undefined)"

definition put_element :: "nat \<Rightarrow> nat \<Rightarrow> val \<Rightarrow> unit vmop" where
  "put_element r i v =
     bindS (the_obj r) (\<lambda>ro. bindS (liftS (array_of ro)) (\<lambda>vs. set_obj r (ro\<lparr>o_payload := ArrayData (vs[i := v])\<rparr>)))"

fun CreateConstantArray :: "AstExpr list \<Rightarrow> val vmop"
and put_constants :: "nat \<Rightarrow> nat \<Rightarrow> AstExpr list \<Rightarrow> unit vmop"
and CreateConstant :: "AstExpr \<Rightarrow> val vmop"
where
  "CreateConstantArray elements =
     bindS (AllocateArray (length elements)) (\<lambda>r.
     bindS (put_constants r 0 elements) (\<lambda>_. retS (TObj r)))"
| "put_constants r i [] = retS ()"
| "put_constants r i (e # es) =
     bindS (CreateConstant e) (\<lambda>v.
     bindS (put_element r i v) (\<lambda>_. put_constants r (i + 1) es))"
| "CreateConstant (AstArray elements) = CreateConstantArray elements"
| "CreateConstant e = CreateConstantNonArray e"

definition CompileAstLiteral :: "nat \<Rightarrow> AstExpr \<Rightarrow> nat \<Rightarrow> unit cop" where
  "CompileAstLiteral c node destSlot =
     bindS (UpdateTopSlot c destSlot) (\<lambda>_.
     case node of
       AstArray elements \<Rightarrow> bindS (liftV (CreateConstantArray elements)) (\<lambda>v. emit c (BC_SOMArrayDup v destSlot))
     | _ \<Rightarrow> bindS (liftV (CreateConstantNonArray node)) (\<lambda>v. emit c (BC_Mov (Cst v) destSlot)))"

subsection \<open>Variables\<close>

definition DetectTrivialLocalVarUse :: "cenv \<Rightarrow> nat \<Rightarrow> AstExpr \<Rightarrow> nat option cop" where
  "DetectTrivialLocalVarUse E b expr = (case expr of
      AstVariableUse name \<Rightarrow>
        bindS (IsVariableResolvedTo E b {VU_Local} name) (\<lambda>isLocal.
        if isLocal then bindS (ResolveVariable E b name ForRead) (\<lambda>vr. retS (Some (snd vr))) else retS None)
    | _ \<Rightarrow> retS None)"

definition DetectTrivialLocalVarOrConstantUse :: "cenv \<Rightarrow> nat \<Rightarrow> AstExpr \<Rightarrow> loc_or_cst option cop" where
  "DetectTrivialLocalVarOrConstantUse E b expr =
     (if IsNonArrayLiteral expr then bindS (liftV (CreateConstantNonArray expr)) (\<lambda>v. retS (Some (Cst v)))
      else case expr of
        AstVariableUse name \<Rightarrow>
          bindS (IsVariableResolvedTo E b {VU_Local, VU_FalseTrueNil} name) (\<lambda>trivial.
          if trivial
          then bindS (ResolveVariable E b name ForRead) (\<lambda>vr.
               retS (Some (if fst vr = VU_Local then Loc (snd vr) else Cst (GetTValueForFalseTrueNil vr))))
          else retS None)
      | _ \<Rightarrow> retS None)"

definition CompileVarUse :: "cenv \<Rightarrow> nat \<Rightarrow> nat \<Rightarrow> string \<Rightarrow> nat \<Rightarrow> unit cop" where
  "CompileVarUse E c b name destSlot =
     bindS (UpdateTopSlot c destSlot) (\<lambda>_.
     bindS (ResolveVariable E b name ForRead) (\<lambda>vr.
     case fst vr of
       VU_Local \<Rightarrow> emit c (BC_Mov (Loc (snd vr)) destSlot)
     | VU_Upvalue \<Rightarrow>
         bindS (upd_ctx c (\<lambda>t. t\<lparr>tc_allUpvalueGetBytecodes := tc_allUpvalueGetBytecodes t @ [length (tc_builder t)]\<rparr>)) (\<lambda>_.
         emit c (BC_UpvalueGetMutable (of_nat (snd vr)) destSlot))
     | VU_Field \<Rightarrow> emit c (BC_SOMGetField 0 (of_nat (snd vr)) destSlot)
     | VU_Global \<Rightarrow> emit c (BC_SOMGlobalGet 0 (of_nat (snd vr)) destSlot)
     | VU_FalseTrueNil \<Rightarrow> emit c (BC_Mov (Cst (GetTValueForFalseTrueNil vr)) destSlot)))"

definition EmitAssignValueToLhs :: "nat \<Rightarrow> VarResolveResult \<Rightarrow> loc_or_cst \<Rightarrow> unit cop" where
  "EmitAssignValueToLhs c vr valToPut = (case fst vr of
      VU_Local \<Rightarrow> emit c (BC_Mov valToPut (snd vr))
    | VU_Upvalue \<Rightarrow> emit c (BC_UpvaluePut (of_nat (snd vr)) valToPut)
    | VU_Field \<Rightarrow> emit c (BC_SOMPutField 0 (of_nat (snd vr)) valToPut)
    | _ \<Rightarrow> failS Undefined)"

fun assign_all :: "cenv \<Rightarrow> nat \<Rightarrow> nat \<Rightarrow> loc_or_cst \<Rightarrow> string list \<Rightarrow> unit cop" where
  "assign_all E c b valToPut [] = retS ()"
| "assign_all E c b valToPut (name # names) =
     bindS (ResolveVariable E b name ForWrite) (\<lambda>vr.
     bindS (EmitAssignValueToLhs c vr valToPut) (\<lambda>_. assign_all E c b valToPut names))"

definition CompileAssignation :: "cenv \<Rightarrow> compile_fn \<Rightarrow> nat \<Rightarrow> nat \<Rightarrow> string list \<Rightarrow> AstExpr \<Rightarrow> nat \<Rightarrow> nat \<Rightarrow> unit cop" where
  "CompileAssignation E cx c b lhs rhs clobberSlot destSlot =
     bindS (UpdateTopSlot c destSlot) (\<lambda>_.
     bindS (cx False c b rhs clobberSlot destSlot) (\<lambda>_. assign_all E c b (Loc destSlot) lhs))"

text \<open>The first variable on the left that is a local.\<close>

fun first_local :: "cenv \<Rightarrow> nat \<Rightarrow> nat \<Rightarrow> string list \<Rightarrow> nat option cop" where
  "first_local E b i [] = retS None"
| "first_local E b i (name # names) =
     bindS (IsVariableResolvedTo E b {VU_Local} name) (\<lambda>isLocal.
     if isLocal then retS (Some i) else first_local E b (i + 1) names)"

definition CompileTopLevelAssignation :: "cenv \<Rightarrow> compile_fn \<Rightarrow> nat \<Rightarrow> nat \<Rightarrow> string list \<Rightarrow> AstExpr \<Rightarrow> nat \<Rightarrow> unit cop" where
  "CompileTopLevelAssignation E cx c b lhs rhs clobberSlot =
     bindS (DetectTrivialLocalVarOrConstantUse E b rhs) (\<lambda>trivial.
     case trivial of
       Some v \<Rightarrow> assign_all E c b v lhs
     | None \<Rightarrow>
         bindS (first_local E b 0 lhs) (\<lambda>lhsLocalOrd.
         case lhsLocalOrd of
           Some i \<Rightarrow>
             bindS (ResolveVariable E b (lhs ! i) ForWrite) (\<lambda>vr.
             bindS (cx False c b rhs clobberSlot (snd vr)) (\<lambda>_.
             assign_all E c b (Loc (snd vr)) (take i lhs @ drop (i + 1) lhs)))
         | None \<Rightarrow> CompileAssignation E cx c b lhs rhs clobberSlot clobberSlot))"

subsection \<open>Operands\<close>

text \<open>
  An operand that is a variable in a slot (or a constant) is used in place; any other is computed into the next free slot.
  The result has the next free slot as its second part.
\<close>

definition operand_slot :: "cenv \<Rightarrow> compile_fn \<Rightarrow> nat \<Rightarrow> nat \<Rightarrow> AstExpr \<Rightarrow> nat \<Rightarrow> (nat \<times> nat) cop" where
  "operand_slot E cx c b expr curClobberSlot =
     bindS (DetectTrivialLocalVarUse E b expr) (\<lambda>trivial.
     case trivial of
       Some slot \<Rightarrow> retS (slot, curClobberSlot)
     | None \<Rightarrow> bindS (cx False c b expr curClobberSlot curClobberSlot) (\<lambda>_. retS (curClobberSlot, curClobberSlot + 1)))"

definition operand :: "cenv \<Rightarrow> compile_fn \<Rightarrow> nat \<Rightarrow> nat \<Rightarrow> AstExpr \<Rightarrow> nat \<Rightarrow> (loc_or_cst \<times> nat) cop" where
  "operand E cx c b expr curClobberSlot =
     bindS (DetectTrivialLocalVarOrConstantUse E b expr) (\<lambda>trivial.
     case trivial of
       Some v \<Rightarrow> retS (v, curClobberSlot)
     | None \<Rightarrow> bindS (cx False c b expr curClobberSlot curClobberSlot) (\<lambda>_. retS (Loc curClobberSlot, curClobberSlot + 1)))"

subsection \<open>Blocks\<close>

definition InstallLocalVariable :: "nat \<Rightarrow> string \<Rightarrow> nat \<Rightarrow> unit cop" where
  "InstallLocalVariable b name slot =
     modS (\<lambda>s. s\<lparr>cs_vars := cs_vars s @ [\<lparr>lv_bctx = b, lv_slotOrd = slot, lv_isUsed = False, lv_isWritten = False, lv_isImmutable = True\<rparr>],
                 cs_localVarMap := (cs_localVarMap s)(name := length (cs_vars s) # cs_localVarMap s name)\<rparr>)"

fun install_all :: "nat \<Rightarrow> string list \<Rightarrow> nat \<Rightarrow> nat cop" where
  "install_all b [] startSlot = retS startSlot"
| "install_all b (name # names) startSlot =
     bindS (InstallLocalVariable b name startSlot) (\<lambda>_. install_all b names (startSlot + 1))"

definition InstallLocalVariables :: "nat \<Rightarrow> nat \<Rightarrow> string list \<Rightarrow> string list \<Rightarrow> nat \<Rightarrow> nat cop" where
  "InstallLocalVariables c b params locals startSlot =
     bindS (install_all b params startSlot) (\<lambda>startSlot.
     bindS (if length locals > 0 then emit c (BC_RangeFillNils startSlot (of_nat (length locals))) else retS ()) (\<lambda>_.
     install_all b locals startSlot))"

definition UninstallLocalVariable :: "string \<Rightarrow> unit cop" where
  "UninstallLocalVariable name = (\<lambda>s. case cs_localVarMap s name of
      [] \<Rightarrow> Inl Undefined
    | var # vars \<Rightarrow> Inr ((), s\<lparr>cs_localVarMap := (cs_localVarMap s)(name := vars)\<rparr>))"

fun uninstall_all :: "string list \<Rightarrow> unit cop" where
  "uninstall_all [] = retS ()"
| "uninstall_all (name # names) = bindS (UninstallLocalVariable name) (\<lambda>_. uninstall_all names)"

definition UninstallLocalVariables :: "string list \<Rightarrow> string list \<Rightarrow> unit cop" where
  "UninstallLocalVariables params locals = bindS (uninstall_all (rev locals)) (\<lambda>_. uninstall_all (rev params))"

definition CompileReturn :: "compile_fn \<Rightarrow> nat \<Rightarrow> nat \<Rightarrow> AstExpr \<Rightarrow> nat \<Rightarrow> unit cop" where
  "CompileReturn cx c b node clobberSlot =
     bindS (cx False c b node clobberSlot clobberSlot) (\<lambda>_.
     bindS (get_bctx b) (\<lambda>x.
     bindS (if MustEmitUpvalueCloseBeforeReturn x then emit c (BC_UpvalueClose 0) else retS ()) (\<lambda>_.
     emit c (BC_Ret clobberSlot))))"

definition CompileThrow :: "compile_fn \<Rightarrow> nat \<Rightarrow> nat \<Rightarrow> AstExpr \<Rightarrow> nat \<Rightarrow> unit cop" where
  "CompileThrow cx c b node clobberSlot =
     bindS (upd_bctx b (\<lambda>x. x\<lparr>bt_blockMayThrow := True\<rparr>)) (\<lambda>_.
     bindS (cx False c b node clobberSlot clobberSlot) (\<lambda>_. emit c (BC_SOMThrow clobberSlot)))"

text \<open>The slot of the value of an inlined block; it is always set.\<close>

definition GetReturnValueSlotForInlinedBlock :: "BlockTranslationContext \<Rightarrow> nat res" where
  "GetReturnValueSlotForInlinedBlock x = (case bt_returnValueSlot x of None \<Rightarrow> Inl Undefined | Some slot \<Rightarrow> Inr slot)"

text \<open>Whether the last expression of an inlined block has no effect, so it can be left out when its value is not used.\<close>

definition no_effect :: "cenv \<Rightarrow> nat \<Rightarrow> AstExpr \<Rightarrow> bool cop" where
  "no_effect E b expr =
     (if IsLiteral expr then retS True
      else case expr of
        AstVariableUse name \<Rightarrow> bindS (IsVariableResolvedTo E b {VU_Global} name) (\<lambda>isGlobal. retS (\<not> isGlobal))
      | AstNestedBlock _ _ _ \<Rightarrow> retS True
      | _ \<Rightarrow> retS False)"

text \<open>The last statement of a block that is not a method: its value is the value of the block.\<close>

definition compile_block_value :: "cenv \<Rightarrow> compile_fn \<Rightarrow> nat \<Rightarrow> nat \<Rightarrow> AstExpr \<Rightarrow> nat \<Rightarrow> unit cop" where
  "compile_block_value E cx c b expr clobberSlot =
     bindS (get_bctx b) (\<lambda>x.
     if IsInlined b x
     then bindS (if MustEmitUpvalueCloseBeforeReturn x then emit c (BC_UpvalueClose (bt_startSlot x)) else retS ()) (\<lambda>_.
          bindS (if bt_returnValueMayBeDiscarded x then no_effect E b expr else retS False) (\<lambda>skip.
          if skip then retS ()
          else bindS (liftS (GetReturnValueSlotForInlinedBlock x)) (\<lambda>slot. cx False c b expr clobberSlot slot)))
     else CompileReturn cx c b expr clobberSlot)"

definition compile_statement :: "cenv \<Rightarrow> compile_fn \<Rightarrow> nat \<Rightarrow> nat \<Rightarrow> AstExpr \<Rightarrow> nat \<Rightarrow> unit cop" where
  "compile_statement E cx c b expr clobberSlot = (case expr of
      AstAssignation lhs rhs \<Rightarrow> CompileTopLevelAssignation E cx c b lhs rhs clobberSlot
    | _ \<Rightarrow> cx (IsCall expr) c b expr clobberSlot clobberSlot)"

fun compile_statements :: "cenv \<Rightarrow> compile_fn \<Rightarrow> nat \<Rightarrow> nat \<Rightarrow> nat \<Rightarrow> AstExpr list \<Rightarrow> unit cop" where
  "compile_statements E cx c b clobberSlot [] = retS ()"
| "compile_statements E cx c b clobberSlot (expr # exprs) =
     bindS (get_bctx b) (\<lambda>x.
     case expr of
       AstReturn retVal \<Rightarrow>
         if \<not> IsTopLevelMethod b x \<and> \<not> IsInlinedIntoTopLevelMethod x then CompileThrow cx c b retVal clobberSlot
         else CompileReturn cx c b retVal clobberSlot
     | _ \<Rightarrow>
         if exprs = [] \<and> \<not> IsTopLevelMethod b x then compile_block_value E cx c b expr clobberSlot
         else bindS (compile_statement E cx c b expr clobberSlot) (\<lambda>_.
              if exprs = []
              then bindS (get_bctx b) (\<lambda>x.
                   bindS (if MustEmitUpvalueCloseBeforeReturn x then emit c (BC_UpvalueClose 0) else retS ()) (\<lambda>_.
                   emit c (BC_Ret 0)))
              else compile_statements E cx c b clobberSlot exprs))"

definition compile_empty_body :: "nat \<Rightarrow> nat \<Rightarrow> unit cop" where
  "compile_empty_body c b =
     bindS (get_bctx b) (\<lambda>x.
     if \<not> IsTopLevelMethod b x
     then if IsInlined b x
          then if bt_returnValueMayBeDiscarded x then retS ()
               else bindS (liftS (GetReturnValueSlotForInlinedBlock x)) (\<lambda>slot. emit c (BC_Mov (Cst TNil) slot))
          else bindS (emit c (BC_Mov (Cst TNil) 0)) (\<lambda>_. emit c (BC_Ret 0))
     else emit c (BC_Ret 0))"

definition CompileBlockBody :: "cenv \<Rightarrow> compile_fn \<Rightarrow> nat \<Rightarrow> nat \<Rightarrow> AstExpr list \<Rightarrow> nat \<Rightarrow> unit cop" where
  "CompileBlockBody E cx c b body clobberSlot =
     (if body = [] then compile_empty_body c b else compile_statements E cx c b clobberSlot body)"

text \<open>A block that throws, or that creates blocks that do, makes its parent one that contains such blocks.\<close>

definition propagate_throws :: "nat \<Rightarrow> nat \<Rightarrow> unit cop" where
  "propagate_throws b newBCtx =
     bindS (get_bctx newBCtx) (\<lambda>x.
     if bt_blockMayThrow x \<or> bt_containsThrowableBlocks x
     then upd_bctx b (\<lambda>y. y\<lparr>bt_containsThrowableBlocks := True\<rparr>) else retS ())"

definition alloc_bctx :: "BlockTranslationContext \<Rightarrow> nat cop" where
  "alloc_bctx x = (\<lambda>s. Inr (length (cs_bctxs s), s\<lparr>cs_bctxs := cs_bctxs s @ [x]\<rparr>))"

definition InlineBlock ::
  "cenv \<Rightarrow> compile_fn \<Rightarrow> nat \<Rightarrow> nat \<Rightarrow> string list \<Rightarrow> string list \<Rightarrow> AstExpr list \<Rightarrow> nat \<Rightarrow> nat \<Rightarrow> bool \<Rightarrow> unit cop" where
  "InlineBlock E cx c b params locals body frameStartSlot destSlot mayDiscardReturnValue =
     bindS (UpdateTopSlot c destSlot) (\<lambda>_.
     bindS (UpdateTopSlot c frameStartSlot) (\<lambda>_.
     bindS (get_bctx b) (\<lambda>x.
     bindS (alloc_bctx ((new_bctx frameStartSlot (Some b) (bt_owningContext x) (bt_trueParent x))
              \<lparr>bt_returnValueMayBeDiscarded := mayDiscardReturnValue, bt_returnValueSlot := Some destSlot\<rparr>)) (\<lambda>newBCtx.
     bindS (InstallLocalVariables c newBCtx params locals frameStartSlot) (\<lambda>firstFreeSlot.
     bindS (UpdateTopSlot c firstFreeSlot) (\<lambda>_.
     bindS (CompileBlockBody E cx c newBCtx body firstFreeSlot) (\<lambda>_.
     bindS (UninstallLocalVariables params locals) (\<lambda>_. propagate_throws b newBCtx))))))))"

definition block_kind :: "nat \<Rightarrow> bool \<Rightarrow> SOMDetailEntityType" where
  "block_kind numParams selfMutable =
     (if numParams = 0 then if selfMutable then SOM_BlockNoArg else SOM_BlockNoArgImmSelf
      else if numParams = 1 then if selfMutable then SOM_BlockOneArg else SOM_BlockOneArgImmSelf
      else if selfMutable then SOM_BlockTwoArgs else SOM_BlockTwoArgsImmSelf)"

definition alloc_ctx :: "TranslationContext \<Rightarrow> nat cop" where
  "alloc_ctx t = (\<lambda>s. Inr (length (cs_ctxs s), s\<lparr>cs_ctxs := cs_ctxs s @ [t]\<rparr>))"

definition new_ctx :: "UnlinkedCodeBlock \<Rightarrow> nat \<Rightarrow> TranslationContext" where
  "new_ctx ucb bctx = \<lparr>tc_historyTopSlot = 0, tc_builder = [], tc_allUpvalueGetBytecodes = [], tc_resultUcb = ucb, tc_resultBCtx = bctx\<rparr>"

definition CompileNewBlock :: "cenv \<Rightarrow> compile_fn \<Rightarrow> nat \<Rightarrow> nat \<Rightarrow> string list \<Rightarrow> string list \<Rightarrow> AstExpr list \<Rightarrow> nat \<Rightarrow> unit cop" where
  "CompileNewBlock E cx c b params locals body destSlot =
     bindS (UpdateTopSlot c destSlot) (\<lambda>_.
     bindS (get_bctx b) (\<lambda>x.
     bindS (getS (\<lambda>s. length (cs_bctxs s))) (\<lambda>self.
     bindS (alloc_bctx ((new_bctx 0 (Some b) self (Some (bt_owningContext x)))
              \<lparr>bt_uvs := [\<lparr>uvi_isParentLocal = True, uvi_parentLocalSlot = Some 0, uvi_parentUpvalueOrd = None, uvi_varInfo = None\<rparr>]\<rparr>)) (\<lambda>newBCtx.
     bindS (alloc_ctx (new_ctx (UnlinkedCodeBlock_Create\<lparr>ucb_parent := Some c, ucb_numFixedArguments := length params + 1\<rparr>) newBCtx)) (\<lambda>newCtx.
     bindS (InstallLocalVariables newCtx newBCtx params locals 1) (\<lambda>firstFreeSlot.
     bindS (upd_ctx newCtx (\<lambda>t. t\<lparr>tc_historyTopSlot := firstFreeSlot\<rparr>)) (\<lambda>_.
     bindS (CompileBlockBody E cx newCtx newBCtx body firstFreeSlot) (\<lambda>_.
     bindS (UninstallLocalVariables params locals) (\<lambda>_.
     bindS (propagate_throws b newBCtx) (\<lambda>_.
     bindS (get_bctx newBCtx) (\<lambda>y.
     bindS (upd_ctx newCtx (\<lambda>t. t\<lparr>tc_resultUcb := (tc_resultUcb t)\<lparr>ucb_fnKind := block_kind (length params) (MustMutablyCaptureSelf y)\<rparr>\<rparr>)) (\<lambda>_.
     emit c (BC_NewClosure newCtx destSlot)))))))))))))"


subsection \<open>Message sends: control flow\<close>

datatype SOMReceiverKind = RK_Normal | RK_ObjectSelf | RK_Super

definition ReceiverIsSelf :: "AstExpr \<Rightarrow> bool" where
  "ReceiverIsSelf e \<longleftrightarrow> e = AstVariableUse ''self''"

definition ReceiverIsSuper :: "AstExpr \<Rightarrow> bool" where
  "ReceiverIsSuper e \<longleftrightarrow> e = AstVariableUse ''super''"

definition receiver_kind :: "cenv \<Rightarrow> AstExpr \<Rightarrow> SOMReceiverKind" where
  "receiver_kind E receiver =
     (if ReceiverIsSelf receiver \<and> ce_isSelfObject E then RK_ObjectSelf
      else if ReceiverIsSuper receiver then RK_Super else RK_Normal)"

definition is_ctl :: "VM \<Rightarrow> nat \<Rightarrow> CtlMember \<Rightarrow> bool" where
  "is_ctl V methId m \<longleftrightarrow> methId = m_stringIdFor V m"

definition is_str :: "VM \<Rightarrow> nat \<Rightarrow> StrMember \<Rightarrow> bool" where
  "is_str V selectorStringId m \<longleftrightarrow> selectorStringId = unat (us_id (m_str V m))"

text \<open>
  The functions below return whether they have translated the call. The branch that skips the block of a conditional,
  and whether its value then needs an explicit else branch: the result slot must not be
  written early when it is below the free slots.
\<close>

definition if_branch :: "VM \<Rightarrow> nat \<Rightarrow> bool \<Rightarrow> nat \<Rightarrow> nat \<Rightarrow> nat \<Rightarrow> bytecode \<times> bool" where
  "if_branch V methId isTopLevel condSlot clobberSlot destSlot =
     (if is_ctl V methId stringIdForIfFalse
      then if isTopLevel then (BC_BranchIf True condSlot, False)
           else if destSlot \<ge> clobberSlot then (BC_StoreNilAndBranchIf True condSlot destSlot, False)
           else (BC_BranchIf True condSlot, True)
      else if is_ctl V methId stringIdForIfTrue
      then if isTopLevel then (BC_BranchIf False condSlot, False)
           else if destSlot \<ge> clobberSlot then (BC_StoreNilAndBranchIf False condSlot destSlot, False)
           else (BC_BranchIf False condSlot, True)
      else if is_ctl V methId stringIdForIfNil
      then if condSlot = destSlot \<or> isTopLevel then (BC_BranchIfNil False condSlot, False)
           else if destSlot \<ge> clobberSlot then (BC_CopyAndBranchIfNil False condSlot destSlot, False)
           else (BC_BranchIfNil False condSlot, True)
      else if condSlot = destSlot \<or> isTopLevel then (BC_BranchIfNil True condSlot, False)
           else if destSlot \<ge> clobberSlot then (BC_CopyAndBranchIfNil True condSlot destSlot, False)
           else (BC_BranchIfNil True condSlot, True))"

definition andor_branch :: "VM \<Rightarrow> nat \<Rightarrow> bool \<Rightarrow> nat \<Rightarrow> nat \<Rightarrow> nat \<Rightarrow> bytecode \<times> bool" where
  "andor_branch V methId isTopLevel condSlot clobberSlot destSlot =
     (let taken = \<not> (is_ctl V methId stringIdForMethodAnd \<or> is_ctl V methId stringIdForOperatorAnd)
      in if condSlot = destSlot \<or> isTopLevel then (BC_BranchIf taken condSlot, False)
         else if destSlot \<ge> clobberSlot then (BC_CopyAndBranchIf taken condSlot destSlot, False)
         else (BC_BranchIf taken condSlot, True))"

text \<open>A conditional with one block: the branch, the inlined block, and the else branch where one is needed.\<close>

definition inline_conditional ::
  "cenv \<Rightarrow> compile_fn \<Rightarrow> nat \<Rightarrow> nat \<Rightarrow> string list \<Rightarrow> AstExpr list \<Rightarrow> bytecode \<times> bool \<Rightarrow> loc_or_cst \<Rightarrow> nat \<Rightarrow> nat \<Rightarrow> bool \<Rightarrow> unit cop" where
  "inline_conditional E cx c b locals body br elseVal clobberSlot destSlot isTopLevel =
     bindS (GetCurLength c) (\<lambda>branchBcLoc.
     bindS (emit c (fst br)) (\<lambda>_.
     bindS (InlineBlock E cx c b [] locals body clobberSlot destSlot isTopLevel) (\<lambda>_.
     if \<not> snd br
     then bindS (GetCurLength c) (\<lambda>here. branch_to E c branchBcLoc here)
     else bindS (GetCurLength c) (\<lambda>elseBrLoc.
          bindS (emit c BC_Branch) (\<lambda>_.
          bindS (GetCurLength c) (\<lambda>here.
          bindS (branch_to E c branchBcLoc here) (\<lambda>_.
          bindS (emit c (BC_Mov elseVal destSlot)) (\<lambda>_.
          bindS (GetCurLength c) (\<lambda>here2. branch_to E c elseBrLoc here2)))))))))"

definition try_if :: "cenv \<Rightarrow> compile_fn \<Rightarrow> nat \<Rightarrow> nat \<Rightarrow> AstExpr \<Rightarrow> nat \<Rightarrow> AstExpr list \<Rightarrow> nat \<Rightarrow> nat \<Rightarrow> bool \<Rightarrow> bool cop" where
  "try_if E cx c b receiver methId args clobberSlot destSlot isTopLevel =
     bindS (getS cs_vm) (\<lambda>V.
     if is_ctl V methId stringIdForIfTrue \<or> is_ctl V methId stringIdForIfFalse
        \<or> is_ctl V methId stringIdForIfNil \<or> is_ctl V methId stringIdForIfNotNil
     then case args of
            [] \<Rightarrow> failS Undefined
          | AstNestedBlock params locals body # _ \<Rightarrow>
              if params = []
              then bindS (operand_slot E cx c b receiver clobberSlot) (\<lambda>(condSlot, _).
                   let br = if_branch V methId isTopLevel condSlot clobberSlot destSlot;
                       elseVal = (if is_ctl V methId stringIdForIfFalse \<or> is_ctl V methId stringIdForIfTrue then Cst TNil else Loc condSlot)
                   in bindS (inline_conditional E cx c b locals body br elseVal clobberSlot destSlot isTopLevel) (\<lambda>_. retS True))
              else retS False
          | _ \<Rightarrow> retS False
     else retS False)"

definition try_if_else :: "cenv \<Rightarrow> compile_fn \<Rightarrow> nat \<Rightarrow> nat \<Rightarrow> AstExpr \<Rightarrow> nat \<Rightarrow> AstExpr list \<Rightarrow> nat \<Rightarrow> nat \<Rightarrow> bool \<Rightarrow> bool cop" where
  "try_if_else E cx c b receiver methId args clobberSlot destSlot isTopLevel =
     bindS (getS cs_vm) (\<lambda>V.
     if is_ctl V methId stringIdForIfTrueIfFalse \<or> is_ctl V methId stringIdForIfFalseIfTrue
        \<or> is_ctl V methId stringIdForIfNilIfNotNil \<or> is_ctl V methId stringIdForIfNotNilIfNil
     then case args of
            AstNestedBlock params1 locals1 body1 # AstNestedBlock params2 locals2 body2 # _ \<Rightarrow>
              if params1 = [] \<and> params2 = []
              then bindS (operand_slot E cx c b receiver clobberSlot) (\<lambda>(condSlot, _).
                   bindS (GetCurLength c) (\<lambda>branchBcLoc.
                   bindS (emit c (if is_ctl V methId stringIdForIfTrueIfFalse then BC_BranchIf False condSlot
                                  else if is_ctl V methId stringIdForIfFalseIfTrue then BC_BranchIf True condSlot
                                  else if is_ctl V methId stringIdForIfNilIfNotNil then BC_BranchIfNil False condSlot
                                  else BC_BranchIfNil True condSlot)) (\<lambda>_.
                   bindS (InlineBlock E cx c b [] locals1 body1 clobberSlot destSlot isTopLevel) (\<lambda>_.
                   bindS (GetCurLength c) (\<lambda>elseBranchBcLoc.
                   bindS (emit c BC_Branch) (\<lambda>_.
                   bindS (GetCurLength c) (\<lambda>here.
                   bindS (branch_to E c branchBcLoc here) (\<lambda>_.
                   bindS (InlineBlock E cx c b [] locals2 body2 clobberSlot destSlot False) (\<lambda>_.
                   bindS (GetCurLength c) (\<lambda>here2.
                   bindS (branch_to E c elseBranchBcLoc here2) (\<lambda>_. retS True)))))))))))
              else retS False
          | _ # _ # _ \<Rightarrow> retS False
          | _ \<Rightarrow> failS Undefined
     else retS False)"

definition try_and_or :: "cenv \<Rightarrow> compile_fn \<Rightarrow> nat \<Rightarrow> nat \<Rightarrow> AstExpr \<Rightarrow> nat \<Rightarrow> AstExpr list \<Rightarrow> nat \<Rightarrow> nat \<Rightarrow> bool \<Rightarrow> bool cop" where
  "try_and_or E cx c b receiver methId args clobberSlot destSlot isTopLevel =
     bindS (getS cs_vm) (\<lambda>V.
     if is_ctl V methId stringIdForMethodAnd \<or> is_ctl V methId stringIdForMethodOr
        \<or> is_ctl V methId stringIdForOperatorAnd \<or> is_ctl V methId stringIdForOperatorOr
     then case args of
            [] \<Rightarrow> failS Undefined
          | AstNestedBlock params locals body # _ \<Rightarrow>
              if params = []
              then bindS (operand_slot E cx c b receiver clobberSlot) (\<lambda>(condSlot, _).
                   bindS (inline_conditional E cx c b locals body
                            (andor_branch V methId isTopLevel condSlot clobberSlot destSlot) (Loc condSlot) clobberSlot destSlot isTopLevel) (\<lambda>_.
                   retS True))
              else retS False
          | _ \<Rightarrow> retS False
     else retS False)"

definition try_while :: "cenv \<Rightarrow> compile_fn \<Rightarrow> nat \<Rightarrow> nat \<Rightarrow> AstExpr \<Rightarrow> nat \<Rightarrow> AstExpr list \<Rightarrow> nat \<Rightarrow> nat \<Rightarrow> bool \<Rightarrow> bool cop" where
  "try_while E cx c b receiver methId args clobberSlot destSlot isTopLevel =
     bindS (getS cs_vm) (\<lambda>V.
     if is_ctl V methId stringIdForWhileTrue \<or> is_ctl V methId stringIdForWhileFalse
     then case (receiver, args) of
            (AstNestedBlock params1 locals1 body1, AstNestedBlock params2 locals2 body2 # _) \<Rightarrow>
              if params1 = [] \<and> params2 = []
              then bindS (GetCurLength c) (\<lambda>loopBeginOffset.
                   bindS (InlineBlock E cx c b [] locals1 body1 clobberSlot clobberSlot False) (\<lambda>_.
                   bindS (GetCurLength c) (\<lambda>checkCondOffset.
                   bindS (emit c (BC_BranchIf (\<not> is_ctl V methId stringIdForWhileTrue) clobberSlot)) (\<lambda>_.
                   bindS (InlineBlock E cx c b [] locals2 body2 clobberSlot clobberSlot True) (\<lambda>_.
                   bindS (GetCurLength c) (\<lambda>endBranchBcLoc.
                   bindS (emit c BC_BranchLoopHint) (\<lambda>_.
                   bindS (branch_to E c endBranchBcLoc loopBeginOffset) (\<lambda>_.
                   bindS (GetCurLength c) (\<lambda>here.
                   bindS (branch_to E c checkCondOffset here) (\<lambda>_.
                   bindS (if isTopLevel then retS () else emit c (BC_Mov (Cst TNil) destSlot)) (\<lambda>_. retS True)))))))))))
              else retS False
          | (AstNestedBlock _ _ _, []) \<Rightarrow> failS Undefined
          | _ \<Rightarrow> retS False
     else retS False)"

definition try_for :: "cenv \<Rightarrow> compile_fn \<Rightarrow> nat \<Rightarrow> nat \<Rightarrow> AstExpr \<Rightarrow> nat \<Rightarrow> AstExpr list \<Rightarrow> nat \<Rightarrow> nat \<Rightarrow> bool \<Rightarrow> bool cop" where
  "try_for E cx c b receiver methId args clobber0 destSlot isTopLevel =
     bindS (getS cs_vm) (\<lambda>V.
     if is_ctl V methId stringIdForToDo \<or> is_ctl V methId stringIdForDowntoDo
     then case args of
            limit # AstNestedBlock params locals body # _ \<Rightarrow>
              if length params = 1
              then bindS (cx False c b receiver clobber0 clobber0) (\<lambda>_.
                   bindS (if isTopLevel then retS () else emit c (BC_Mov (Loc clobber0) (clobber0 + 1))) (\<lambda>_.
                   let clobberSlot = (if isTopLevel then clobber0 else clobber0 + 1); isTo = is_ctl V methId stringIdForToDo
                   in bindS (cx False c b limit (clobberSlot + 1) (clobberSlot + 1)) (\<lambda>_.
                      bindS (UpdateTopSlot c (clobberSlot + 2)) (\<lambda>_.
                      bindS (GetCurLength c) (\<lambda>loopStartOffset.
                      bindS (emit c (BC_CheckForLoopStartCond isTo clobberSlot (clobberSlot + 1) (clobberSlot + 2))) (\<lambda>_.
                      bindS (GetCurLength c) (\<lambda>bodyStartOffset.
                      bindS (InlineBlock E cx c b params locals body (clobberSlot + 2) (clobberSlot + 2) True) (\<lambda>_.
                      bindS (GetCurLength c) (\<lambda>loopCheckOffset.
                      bindS (emit c (BC_ForLoopStep isTo clobberSlot)) (\<lambda>_.
                      bindS (branch_to E c loopCheckOffset bodyStartOffset) (\<lambda>_.
                      bindS (GetCurLength c) (\<lambda>here.
                      bindS (branch_to E c loopStartOffset here) (\<lambda>_.
                      bindS (if \<not> isTopLevel \<and> clobberSlot - 1 \<noteq> destSlot then emit c (BC_Mov (Loc (clobberSlot - 1)) destSlot) else retS ()) (\<lambda>_.
                      retS True))))))))))))))
              else retS False
          | _ # _ # _ \<Rightarrow> retS False
          | _ \<Rightarrow> failS Undefined
     else retS False)"


subsection \<open>Message sends: operators\<close>

text \<open>The arithmetic operators in the order in which the code tests for them; \<open>==\<close> is what remains.\<close>

definition arith_ops :: "(StrMember \<times> BinOpKind) list" where
  "arith_ops = [(strOperatorPlus, BO_Plus), (strOperatorMinus, BO_Minus), (strOperatorStar, BO_Star),
     (strOperatorSlashSlash, BO_SlashSlash), (strOperatorPercent, BO_Percent), (strOperatorAnd, BO_And), (strOperatorEqual, BO_Equal),
     (strOperatorLessThan, BO_LessThan), (strOperatorLessEqual, BO_LessEqual), (strOperatorGreaterThan, BO_GreaterThan),
     (strOperatorGreaterEqual, BO_GreaterEqual), (strOperatorUnequal, BO_Unequal), (strOperatorTildeUnequal, BO_TildeUnequal),
     (strOperatorLeftShift, BO_LeftShift), (strOperatorRightShift, BO_RightShift), (strOperatorBitwiseXor, BO_BitwiseXor),
     (strOperatorSlash, BO_Slash)]"

definition arith_bytecode :: "VM \<Rightarrow> nat \<Rightarrow> loc_or_cst \<Rightarrow> loc_or_cst \<Rightarrow> nat \<Rightarrow> bytecode" where
  "arith_bytecode V selectorStringId lhs rhs destSlot =
     (case find (\<lambda>(m, kind). is_str V selectorStringId m) arith_ops of
        Some (m, kind) \<Rightarrow> BC_BinOp kind lhs rhs destSlot
      | None \<Rightarrow> BC_OperatorEqualEqual lhs rhs destSlot)"

text \<open>A literal operand for which the fast path of the operator cannot apply.\<close>

definition useless_literal :: "VM \<Rightarrow> nat \<Rightarrow> AstExpr \<Rightarrow> bool" where
  "useless_literal V selectorStringId e \<longleftrightarrow> IsLiteral e \<and>
     (if is_str V selectorStringId strOperatorAnd \<or> is_str V selectorStringId strOperatorLeftShift
         \<or> is_str V selectorStringId strOperatorRightShift \<or> is_str V selectorStringId strOperatorBitwiseXor
      then (case e of AstInteger _ \<Rightarrow> False | _ \<Rightarrow> True)
      else if is_str V selectorStringId strOperatorEqual
      then (case e of AstInteger _ \<Rightarrow> False | AstDouble _ \<Rightarrow> False | AstString _ \<Rightarrow> False | AstSymbol _ \<Rightarrow> False | _ \<Rightarrow> True)
      else (case e of AstInteger _ \<Rightarrow> False | AstDouble _ \<Rightarrow> False | _ \<Rightarrow> True))"

definition is_false_true_nil :: "cenv \<Rightarrow> nat \<Rightarrow> AstExpr \<Rightarrow> bool cop" where
  "is_false_true_nil E b e = (case e of
      AstVariableUse name \<Rightarrow> IsVariableResolvedTo E b {VU_FalseTrueNil} name
    | _ \<Rightarrow> retS False)"

definition skip_arith :: "cenv \<Rightarrow> VM \<Rightarrow> nat \<Rightarrow> nat \<Rightarrow> AstExpr \<Rightarrow> AstExpr \<Rightarrow> bool cop" where
  "skip_arith E V b selectorStringId receiver arg =
     (if is_str V selectorStringId strOperatorEqualEqual then retS False
      else if useless_literal V selectorStringId receiver \<or> useless_literal V selectorStringId arg then retS True
      else bindS (is_false_true_nil E b receiver) (\<lambda>s1.
           bindS (is_false_true_nil E b arg) (\<lambda>s2. retS (s1 \<or> s2))))"

definition try_arith :: "cenv \<Rightarrow> compile_fn \<Rightarrow> nat \<Rightarrow> nat \<Rightarrow> AstExpr \<Rightarrow> nat \<Rightarrow> AstExpr list \<Rightarrow> nat \<Rightarrow> nat \<Rightarrow> bool cop" where
  "try_arith E cx c b receiver selectorStringId args clobberSlot destSlot =
     bindS (getS cs_vm) (\<lambda>V.
     if IsSelectorArithmeticOperator V selectorStringId
     then case args of
            [] \<Rightarrow> failS Undefined
          | arg # _ \<Rightarrow>
              bindS (skip_arith E V b selectorStringId receiver arg) (\<lambda>shouldSkip.
              if shouldSkip then retS False
              else bindS (operand E cx c b receiver clobberSlot) (\<lambda>(lhs, cur1).
                   bindS (operand E cx c b arg cur1) (\<lambda>(rhs, cur2).
                   bindS (UpdateTopSlot c cur2) (\<lambda>_.
                   bindS (emit c (arith_bytecode V selectorStringId lhs rhs destSlot)) (\<lambda>_. retS True)))))
     else retS False)"

definition logical_ops :: "(StrMember \<times> BinOpKind) list" where
  "logical_ops = [(strOperatorLogicalAnd, BO_LogicalAnd), (strOperatorKeywordAnd, BO_KeywordAnd),
     (strOperatorLogicalOr, BO_LogicalOr), (strOperatorKeywordOr, BO_KeywordOr)]"

definition misc_ops :: "(StrMember \<times> BinOpKind) list" where
  "misc_ops = [(strOperatorValueColon, BO_ValueColon), (strOperatorAtColon, BO_AtColon), (strOperatorCharAtColon, BO_CharAtColon)]"

text \<open>Only \<open>value:\<close>, \<open>at:\<close> and \<open>charAt:\<close> take a constant as their right operand.\<close>

definition try_misc_binary :: "cenv \<Rightarrow> compile_fn \<Rightarrow> nat \<Rightarrow> nat \<Rightarrow> AstExpr \<Rightarrow> nat \<Rightarrow> AstExpr list \<Rightarrow> nat \<Rightarrow> nat \<Rightarrow> bool cop" where
  "try_misc_binary E cx c b receiver selectorStringId args clobberSlot destSlot =
     (case args of
        [arg] \<Rightarrow>
          bindS (getS cs_vm) (\<lambda>V.
          case find (\<lambda>(m, kind). is_str V selectorStringId m) (logical_ops @ misc_ops) of
            None \<Rightarrow> retS False
          | Some (m, kind) \<Rightarrow>
              bindS (operand_slot E cx c b receiver clobberSlot) (\<lambda>(lhs, cur1).
              bindS (if (m, kind) \<in> set misc_ops then operand E cx c b arg cur1
                     else bindS (operand_slot E cx c b arg cur1) (\<lambda>(slot, cur). retS (Loc slot, cur))) (\<lambda>(rhs, cur2).
              bindS (UpdateTopSlot c cur2) (\<lambda>_.
              bindS (emit c (BC_BinOp kind (Loc lhs) rhs destSlot)) (\<lambda>_. retS True)))))
      | _ \<Rightarrow> retS False)"

definition unary_bytecode :: "VM \<Rightarrow> nat \<Rightarrow> nat \<Rightarrow> nat \<Rightarrow> bytecode" where
  "unary_bytecode V selectorStringId slot destSlot =
     (if is_str V selectorStringId strOperatorAbs then BC_UnaryOp UO_Abs slot destSlot
      else if is_str V selectorStringId strOperatorSqrt then BC_UnaryOp UO_Sqrt slot destSlot
      else if is_str V selectorStringId strOperatorIsNil then BC_IsNil True slot destSlot
      else if is_str V selectorStringId strOperatorNotNil then BC_IsNil False slot destSlot
      else if is_str V selectorStringId strOperatorValue then BC_UnaryOp UO_Value slot destSlot
      else if is_str V selectorStringId strOperatorNot then BC_UnaryOp UO_Not slot destSlot
      else BC_UnaryOp UO_Length slot destSlot)"

definition try_unary :: "cenv \<Rightarrow> compile_fn \<Rightarrow> nat \<Rightarrow> nat \<Rightarrow> AstExpr \<Rightarrow> nat \<Rightarrow> AstExpr list \<Rightarrow> nat \<Rightarrow> nat \<Rightarrow> bool cop" where
  "try_unary E cx c b receiver selectorStringId args clobberSlot destSlot =
     bindS (getS cs_vm) (\<lambda>V.
     if args = [] \<and> IsSelectorSpecializableUnaryOperator V selectorStringId
     then bindS (operand_slot E cx c b receiver clobberSlot) (\<lambda>(slot, _).
          bindS (emit c (unary_bytecode V selectorStringId slot destSlot)) (\<lambda>_. retS True))
     else retS False)"

definition try_ternary :: "cenv \<Rightarrow> compile_fn \<Rightarrow> nat \<Rightarrow> nat \<Rightarrow> AstExpr \<Rightarrow> nat \<Rightarrow> AstExpr list \<Rightarrow> nat \<Rightarrow> nat \<Rightarrow> bool cop" where
  "try_ternary E cx c b receiver selectorStringId args clobberSlot destSlot =
     (case args of
        [arg1, arg2] \<Rightarrow>
          bindS (getS cs_vm) (\<lambda>V.
          if is_str V selectorStringId strOperatorAtPut \<or> is_str V selectorStringId strOperatorValueWith
          then bindS (operand_slot E cx c b receiver clobberSlot) (\<lambda>(opSlot, cur1).
               bindS (operand E cx c b arg1 cur1) (\<lambda>(a1, cur2).
               bindS (operand E cx c b arg2 cur2) (\<lambda>(a2, cur3).
               bindS (UpdateTopSlot c cur3) (\<lambda>_.
               bindS (emit c (BC_TernaryOp (if is_str V selectorStringId strOperatorAtPut then TO_AtPut else TO_ValueWith) opSlot a1 a2 destSlot)) (\<lambda>_.
               retS True)))))
          else retS False)
      | _ \<Rightarrow> retS False)"

subsection \<open>Message sends: calls\<close>

fun compile_args :: "compile_fn \<Rightarrow> nat \<Rightarrow> nat \<Rightarrow> nat \<Rightarrow> AstExpr list \<Rightarrow> unit cop" where
  "compile_args cx c b curArgDest [] = retS ()"
| "compile_args cx c b curArgDest (arg # args) =
     bindS (cx False c b arg curArgDest curArgDest) (\<lambda>_. compile_args cx c b (curArgDest + 1) args)"

definition compile_call :: "cenv \<Rightarrow> compile_fn \<Rightarrow> nat \<Rightarrow> nat \<Rightarrow> AstExpr \<Rightarrow> nat \<Rightarrow> AstExpr list \<Rightarrow> nat \<Rightarrow> nat \<Rightarrow> unit cop" where
  "compile_call E cx c b receiver selectorStringId args clobberSlot destSlot =
     (let argBase = clobberSlot + x_numSlotsForStackFrameHeader; rcvKind = receiver_kind E receiver; numArgs = of_nat (length args + 1)
      in bindS (if rcvKind = RK_Normal then cx False c b receiver argBase argBase else retS ()) (\<lambda>_.
         bindS (compile_args cx c b (argBase + 1) args) (\<lambda>_.
         bindS (getS (\<lambda>s. GetHash (m_interner (cs_vm s)) selectorStringId)) (\<lambda>h.
         case h of
           None \<Rightarrow> failS OutOfRange
         | Some h \<Rightarrow>
             let meth = \<lparr>us_id = of_nat selectorStringId, us_hash = ucast h\<rparr>
             in if rcvKind = RK_Normal then emit c (BC_SOMCall clobberSlot meth numArgs destSlot)
                else if rcvKind = RK_ObjectSelf then emit c (BC_SOMSelfCall clobberSlot 0 meth numArgs destSlot)
                else case ce_superClass E of
                       None \<Rightarrow> failS Undefined
                     | Some superClass \<Rightarrow> emit c (BC_SOMSuperCall clobberSlot 0 superClass meth numArgs destSlot)))))"

text \<open>The attempts are made in order until one has translated the call.\<close>

fun first_success :: "bool cop list \<Rightarrow> bool cop" where
  "first_success [] = retS False"
| "first_success (m # ms) = bindS m (\<lambda>done. if done then retS True else first_success ms)"

definition call_attempts ::
  "cenv \<Rightarrow> compile_fn \<Rightarrow> VM \<Rightarrow> nat \<Rightarrow> nat \<Rightarrow> AstExpr \<Rightarrow> nat \<Rightarrow> AstExpr list \<Rightarrow> nat \<Rightarrow> nat \<Rightarrow> bool \<Rightarrow> bool cop list" where
  "call_attempts E cx V c b receiver selectorStringId args clobberSlot destSlot isTopLevel =
     (if receiver_kind E receiver = RK_Super then []
      else (if IsSelectorInlinableControlFlow V selectorStringId
            then [try_if E cx c b receiver selectorStringId args clobberSlot destSlot isTopLevel,
                  try_if_else E cx c b receiver selectorStringId args clobberSlot destSlot isTopLevel,
                  try_and_or E cx c b receiver selectorStringId args clobberSlot destSlot isTopLevel,
                  try_while E cx c b receiver selectorStringId args clobberSlot destSlot isTopLevel,
                  try_for E cx c b receiver selectorStringId args clobberSlot destSlot isTopLevel]
            else [])
           @ [try_arith E cx c b receiver selectorStringId args clobberSlot destSlot,
              try_misc_binary E cx c b receiver selectorStringId args clobberSlot destSlot,
              try_unary E cx c b receiver selectorStringId args clobberSlot destSlot,
              try_ternary E cx c b receiver selectorStringId args clobberSlot destSlot])"

definition CompileSOMCall :: "cenv \<Rightarrow> compile_fn \<Rightarrow> nat \<Rightarrow> nat \<Rightarrow> AstExpr \<Rightarrow> nat \<Rightarrow> AstExpr list \<Rightarrow> nat \<Rightarrow> nat \<Rightarrow> bool \<Rightarrow> unit cop" where
  "CompileSOMCall E cx c b receiver selectorStringId args clobberSlot destSlot isTopLevel =
     bindS (UpdateTopSlot c destSlot) (\<lambda>_.
     bindS (UpdateTopSlot c (clobberSlot + x_numSlotsForStackFrameHeader + length args)) (\<lambda>_.
     bindS (getS cs_vm) (\<lambda>V.
     bindS (first_success (call_attempts E cx V c b receiver selectorStringId args clobberSlot destSlot isTopLevel)) (\<lambda>done.
     if done then retS () else compile_call E cx c b receiver selectorStringId args clobberSlot destSlot))))"

subsection \<open>Expressions\<close>

text \<open>
  A return in the position of an expression is not produced by the parser. The flag \<open>isTopLevel\<close> matters for calls only.
\<close>

fun CompileExpression :: "cenv \<Rightarrow> nat \<Rightarrow> compile_fn" where
  "CompileExpression E 0 isTopLevel c b node clobberSlot destSlot = failS OutOfFuel"
| "CompileExpression E (Suc n) isTopLevel c b node clobberSlot destSlot = (case node of
      AstVariableUse name \<Rightarrow> CompileVarUse E c b name destSlot
    | AstAssignation lhs rhs \<Rightarrow> CompileAssignation E (CompileExpression E n) c b lhs rhs clobberSlot destSlot
    | AstNestedBlock params locals body \<Rightarrow> CompileNewBlock E (CompileExpression E n) c b params locals body destSlot
    | AstReturn _ \<Rightarrow> failS Undefined
    | AstUnaryCall selector receiver \<Rightarrow>
        CompileSOMCall E (CompileExpression E n) c b receiver selector [] clobberSlot destSlot isTopLevel
    | AstBinaryCall selector receiver argument \<Rightarrow>
        CompileSOMCall E (CompileExpression E n) c b receiver selector [argument] clobberSlot destSlot isTopLevel
    | AstKeywordCall selector receiver arguments \<Rightarrow>
        CompileSOMCall E (CompileExpression E n) c b receiver selector arguments clobberSlot destSlot isTopLevel
    | _ \<Rightarrow> CompileAstLiteral c node destSlot)"


subsection \<open>Methods\<close>

text \<open>
  A trivial method is recognised by its body; calls then run a shortcut instead of its code (theory \<open>Dispatch\<close>). The
  second component is the literal, or the index of the global or field.
\<close>

definition trivial_return :: "cenv \<Rightarrow> nat \<Rightarrow> AstExpr list \<Rightarrow> (SOMMethodLookupResultKind \<times> upval) cop" where
  "trivial_return E b body = (case body of
      [] \<Rightarrow> retS (SOM_SelfReturn, UvRaw 0)
    | [AstReturn val] \<Rightarrow>
        if IsNonArrayLiteral val
        then bindS (liftV (CreateConstantNonArray val)) (\<lambda>v. retS (SOM_LiteralReturn, UvImm v))
        else (case val of
                AstVariableUse name \<Rightarrow>
                  bindS (ResolveVariable E b name DryRun) (\<lambda>vr.
                  retS (case fst vr of
                          VU_Local \<Rightarrow> if name = ''self'' \<or> name = ''super'' then (SOM_SelfReturn, UvRaw 0) else (SOM_NormalMethod, UvRaw 0)
                        | VU_Field \<Rightarrow> (SOM_Getter, UvRaw (snd vr))
                        | VU_Global \<Rightarrow> (SOM_GlobalReturn, UvRaw (snd vr))
                        | VU_FalseTrueNil \<Rightarrow> (SOM_LiteralReturn, UvImm (GetTValueForFalseTrueNil vr))
                        | VU_Upvalue \<Rightarrow> (SOM_NormalMethod, UvRaw 0)))
              | _ \<Rightarrow> retS (SOM_NormalMethod, UvRaw 0))
    | _ \<Rightarrow> retS (SOM_NormalMethod, UvRaw 0))"

text \<open>The assignment of a body that may be a setter: it is alone or followed by \<open>^ self\<close>.\<close>

fun setter_stmt :: "AstExpr list \<Rightarrow> (string list \<times> AstExpr) option" where
  "setter_stmt [AstAssignation lhs rhs] = Some (lhs, rhs)"
| "setter_stmt [AstAssignation lhs rhs, AstReturn (AstVariableUse name)] =
     (if name = ''self'' \<or> name = ''super'' then Some (lhs, rhs) else None)"
| "setter_stmt _ = None"

definition trivial_setter :: "cenv \<Rightarrow> nat \<Rightarrow> string list \<Rightarrow> AstExpr list \<Rightarrow> nat option cop" where
  "trivial_setter E b params body = (case (params, setter_stmt body) of
      ([param], Some ([name], rhs)) \<Rightarrow>
        bindS (ResolveVariable E b name DryRun) (\<lambda>vr.
        retS (if fst vr = VU_Field \<and> rhs = AstVariableUse param then Some (snd vr) else None))
    | _ \<Rightarrow> retS None)"

definition triviality :: "cenv \<Rightarrow> nat \<Rightarrow> AstMethod \<Rightarrow> (SOMMethodLookupResultKind \<times> upval) cop" where
  "triviality E b meth =
     bindS (trivial_return E b (am_body meth)) (\<lambda>t.
     bindS (trivial_setter E b (am_params meth) (am_body meth)) (\<lambda>setter.
     retS (case setter of Some ord \<Rightarrow> (SOM_Setter, UvRaw ord) | None \<Rightarrow> t)))"

definition is_imm_self :: "SOMDetailEntityType \<Rightarrow> bool" where
  "is_imm_self k \<longleftrightarrow> k \<in> {SOM_BlockNoArgImmSelf, SOM_BlockOneArgImmSelf, SOM_BlockTwoArgsImmSelf}"

definition upvalue_metadata :: "LocalVarInfo list \<Rightarrow> UVInfo \<Rightarrow> UpvalueMetadata" where
  "upvalue_metadata vars info =
     \<lparr>um_isParentLocal = uvi_isParentLocal info, um_isImmutable = lv_isImmutable (vars ! the (uvi_varInfo info)),
      um_slot = the (if uvi_isParentLocal info then uvi_parentLocalSlot info else uvi_parentUpvalueOrd info)\<rparr>"

text \<open>The first upvalue is \<open>self\<close>.\<close>

definition upvalue_infos :: "SOMDetailEntityType \<Rightarrow> LocalVarInfo list \<Rightarrow> UVInfo list \<Rightarrow> UpvalueMetadata list" where
  "upvalue_infos kind vars uvs = (case uvs of
      [] \<Rightarrow> []
    | _ # infos \<Rightarrow> \<lparr>um_isParentLocal = True, um_isImmutable = is_imm_self kind, um_slot = 0\<rparr> # map (upvalue_metadata vars) infos)"

text \<open>A read of an upvalue that turned out to be immutable is replaced in place.\<close>

definition fix_upvalue_get :: "UpvalueMetadata list \<Rightarrow> nat \<Rightarrow> bcode \<Rightarrow> bcode res" where
  "fix_upvalue_get infos offset bcs =
     (if length bcs \<le> offset then Inl Undefined
      else case bcs ! offset of
        (BC_UpvalueGetMutable ord output, target) \<Rightarrow>
          if length infos \<le> unat ord then Inl Undefined
          else Inr (if um_isImmutable (infos ! unat ord) then bcs[offset := (BC_UpvalueGetImmutable ord output, target)] else bcs)
      | _ \<Rightarrow> Inl Undefined)"

fun fix_upvalue_gets :: "UpvalueMetadata list \<Rightarrow> nat list \<Rightarrow> bcode \<Rightarrow> bcode res" where
  "fix_upvalue_gets infos [] bcs = Inr bcs"
| "fix_upvalue_gets infos (offset # offsets) bcs = bindR (fix_upvalue_get infos offset bcs) (fix_upvalue_gets infos offsets)"

definition finish_code :: "cenv \<Rightarrow> LocalVarInfo list \<Rightarrow> BlockTranslationContext list \<Rightarrow> TranslationContext \<Rightarrow> UnlinkedCodeBlock res" where
  "finish_code E vars bctxs t =
     (let ucb = tc_resultUcb t; infos = upvalue_infos (ucb_fnKind ucb) vars (bt_uvs (bctxs ! tc_resultBCtx t))
      in bindR (fix_upvalue_gets infos (tc_allUpvalueGetBytecodes t) (tc_builder t)) (\<lambda>bcs.
         if ce_numConstants E bcs \<ge> 32767
         then Inl (Aborted ''[LOCKDOWN] Bytecode contains too many constants. Limit 32766, got %llu.'')
         else Inr (ucb\<lparr>ucb_stackFrameNumSlots := tc_historyTopSlot t + 1, ucb_upvalueInfo := infos, ucb_bytecode := bcs\<rparr>)))"

fun finish_codes :: "cenv \<Rightarrow> LocalVarInfo list \<Rightarrow> BlockTranslationContext list \<Rightarrow> TranslationContext list \<Rightarrow> UnlinkedCodeBlock list res" where
  "finish_codes E vars bctxs [] = Inr []"
| "finish_codes E vars bctxs (t # ts) =
     bindR (finish_code E vars bctxs t) (\<lambda>u. bindR (finish_codes E vars bctxs ts) (\<lambda>us. Inr (u # us)))"

definition method_fuel :: "AstMethod \<Rightarrow> nat" where
  "method_fuel meth = size_list size (am_body meth) + 1"

definition compile_method_body :: "cenv \<Rightarrow> AstMethod \<Rightarrow> unit cop" where
  "compile_method_body E meth =
     bindS (alloc_bctx (new_bctx 0 None 0 None)) (\<lambda>b.
     bindS (alloc_ctx (new_ctx UnlinkedCodeBlock_Create b)) (\<lambda>c.
     bindS (InstallLocalVariables c b (am_params meth) (am_locals meth) 1) (\<lambda>firstFreeSlot.
     bindS (upd_ctx c (\<lambda>t. t\<lparr>tc_historyTopSlot := firstFreeSlot\<rparr>)) (\<lambda>_.
     bindS (triviality E b meth) (\<lambda>(kind, info).
     bindS (if kind \<noteq> SOM_NormalMethod
            then upd_ctx c (\<lambda>t. t\<lparr>tc_resultUcb := (tc_resultUcb t)\<lparr>ucb_trivialFnType := kind, ucb_trivialFnInfo := info\<rparr>\<rparr>)
            else retS ()) (\<lambda>_.
     bindS (CompileBlockBody E (CompileExpression E (method_fuel meth)) c b (am_body meth) firstFreeSlot) (\<lambda>_.
     UninstallLocalVariables (am_params meth) (am_locals meth))))))))"

definition initial_cs :: "VM \<Rightarrow> CS" where
  "initial_cs V = \<lparr>cs_vm = V, cs_vars = [], cs_bctxs = [], cs_ctxs = [], cs_localVarMap = (\<lambda>_. [])\<rparr>"

text \<open>The code blocks of a method, its own first, and the state of the VM afterwards.\<close>

definition CompileMethod :: "cenv \<Rightarrow> AstMethod \<Rightarrow> UnlinkedCodeBlock list vmop" where
  "CompileMethod E meth V =
     bindR (compile_method_body E meth (initial_cs V)) (\<lambda>(_, s).
     bindR (finish_codes E (cs_vars s) (cs_bctxs s) (cs_ctxs s)) (\<lambda>ucbs. Inr (ucbs, cs_vm s)))"

text \<open>What \<open>CodeBlock::Create\<close> copies, and the function object that \<open>CompileMethod\<close> makes of the first code block.\<close>

definition CodeBlock_Create :: "nat \<Rightarrow> UnlinkedCodeBlock \<Rightarrow> CodeBlock" where
  "CodeBlock_Create executable ucb = \<lparr>cb_executable = executable, cb_fnKind = ucb_fnKind ucb, cb_trivialFnType = ucb_trivialFnType ucb,
     cb_trivialFnInfo = ucb_trivialFnInfo ucb, cb_upvalueInfo = ucb_upvalueInfo ucb\<rparr>"

definition compiled_method :: "CodeBlock \<Rightarrow> FunctionObject" where
  "compiled_method cb = \<lparr>fo_type = cb_fnKind cb, fo_lookup = cb_trivialFnType cb, fo_executable = cb_executable cb,
     fo_upvalues = (if needExtraUpvalueDueToTrivialFn cb then [cb_trivialFnInfo cb] else [])\<rparr>"

end
