(* ===== verification/CompileOk.thy ===== *)
theory CompileOk
  imports Compile
begin

section \<open>The compiler: what holds of the code it produces\<close>

text \<open>
  The invariant \<open>cs_ok\<close> of the contexts, and the relation \<open>translates c\<close> between the states before and after any part of
  the translation of the code of context \<open>c\<close>: contexts, variables, upvalues and bytecodes are only added, the code of
  other contexts does not change, and every context that was created in between is complete. The judgement \<open>tri\<close> says
  that a part of the compiler keeps all this, leaves no branch without its target and does not run out of
  fuel; its rules follow the structure of the code.
\<close>

subsection \<open>The invariant\<close>

definition topslot :: "CS \<Rightarrow> nat \<Rightarrow> nat" where
  "topslot s c = tc_historyTopSlot (cs_ctxs s ! c)"

definition owner :: "CS \<Rightarrow> nat \<Rightarrow> nat" where
  "owner s b = bt_owningContext (cs_bctxs s ! b)"

definition parent :: "CS \<Rightarrow> nat \<Rightarrow> nat option" where
  "parent s b = bt_trueParent (cs_bctxs s ! b)"

definition uvs :: "CS \<Rightarrow> nat \<Rightarrow> UVInfo list" where
  "uvs s b = bt_uvs (cs_bctxs s ! b)"

definition def_owner :: "CS \<Rightarrow> nat \<Rightarrow> nat" where
  "def_owner s v = owner s (lv_bctx (cs_vars s ! v))"

text \<open>The slots that a bytecode reads or writes are at most \<open>t\<close>.\<close>

fun cst_le :: "nat \<Rightarrow> loc_or_cst \<Rightarrow> bool" where
  "cst_le t (Loc k) \<longleftrightarrow> k \<le> t"
| "cst_le t (Cst v) \<longleftrightarrow> True"

fun slots_le :: "nat \<Rightarrow> bytecode \<Rightarrow> bool" where
  "slots_le t (BC_Mov a d) \<longleftrightarrow> cst_le t a \<and> d \<le> t"
| "slots_le t (BC_SOMArrayDup v d) \<longleftrightarrow> d \<le> t"
| "slots_le t (BC_UpvalueGetMutable ord d) \<longleftrightarrow> d \<le> t"
| "slots_le t (BC_UpvalueGetImmutable ord d) \<longleftrightarrow> d \<le> t"
| "slots_le t (BC_UpvaluePut ord a) \<longleftrightarrow> cst_le t a"
| "slots_le t (BC_UpvalueClose k) \<longleftrightarrow> k \<le> t"
| "slots_le t (BC_SOMGetField k i d) \<longleftrightarrow> k \<le> t \<and> d \<le> t"
| "slots_le t (BC_SOMPutField k i a) \<longleftrightarrow> k \<le> t \<and> cst_le t a"
| "slots_le t (BC_SOMGlobalGet k i d) \<longleftrightarrow> k \<le> t \<and> d \<le> t"
| "slots_le t BC_Branch \<longleftrightarrow> True"
| "slots_le t BC_BranchLoopHint \<longleftrightarrow> True"
| "slots_le t (BC_BranchIf f k) \<longleftrightarrow> k \<le> t"
| "slots_le t (BC_StoreNilAndBranchIf f k d) \<longleftrightarrow> k \<le> t \<and> d \<le> t"
| "slots_le t (BC_CopyAndBranchIf f k d) \<longleftrightarrow> k \<le> t \<and> d \<le> t"
| "slots_le t (BC_BranchIfNil f k) \<longleftrightarrow> k \<le> t"
| "slots_le t (BC_CopyAndBranchIfNil f k d) \<longleftrightarrow> k \<le> t \<and> d \<le> t"
| "slots_le t (BC_CheckForLoopStartCond f i j d) \<longleftrightarrow> i \<le> t \<and> j \<le> t \<and> d \<le> t"
| "slots_le t (BC_ForLoopStep f k) \<longleftrightarrow> k + 2 \<le> t"
| "slots_le t (BC_BinOp kind a a' d) \<longleftrightarrow> cst_le t a \<and> cst_le t a' \<and> d \<le> t"
| "slots_le t (BC_OperatorEqualEqual a a' d) \<longleftrightarrow> cst_le t a \<and> cst_le t a' \<and> d \<le> t"
| "slots_le t (BC_UnaryOp kind k d) \<longleftrightarrow> k \<le> t \<and> d \<le> t"
| "slots_le t (BC_IsNil f k d) \<longleftrightarrow> k \<le> t \<and> d \<le> t"
| "slots_le t (BC_TernaryOp kind k a a' d) \<longleftrightarrow> k \<le> t \<and> cst_le t a \<and> cst_le t a' \<and> d \<le> t"
| "slots_le t (BC_SOMCall k m n d) \<longleftrightarrow> k + x_numSlotsForStackFrameHeader + unat n \<le> t + 1 \<and> d \<le> t"
| "slots_le t (BC_SOMSelfCall k self m n d) \<longleftrightarrow> k + x_numSlotsForStackFrameHeader + unat n \<le> t + 1 \<and> self \<le> t \<and> d \<le> t"
| "slots_le t (BC_SOMSuperCall k self cl m n d) \<longleftrightarrow> k + x_numSlotsForStackFrameHeader + unat n \<le> t + 1 \<and> self \<le> t \<and> d \<le> t"
| "slots_le t (BC_NewClosure ucb d) \<longleftrightarrow> d \<le> t"
| "slots_le t (BC_RangeFillNils k n) \<longleftrightarrow> k + unat n \<le> t + 1"
| "slots_le t (BC_Ret k) \<longleftrightarrow> k \<le> t"
| "slots_le t (BC_SOMThrow k) \<longleftrightarrow> k \<le> t"

text \<open>The upvalue ordinal or the code block of a bytecode exists.\<close>

fun refs_lt :: "nat \<Rightarrow> nat \<Rightarrow> bytecode \<Rightarrow> bool" where
  "refs_lt nu nc (BC_UpvalueGetMutable ord d) \<longleftrightarrow> unat ord < nu"
| "refs_lt nu nc (BC_UpvalueGetImmutable ord d) \<longleftrightarrow> unat ord < nu"
| "refs_lt nu nc (BC_UpvaluePut ord a) \<longleftrightarrow> unat ord < nu"
| "refs_lt nu nc (BC_NewClosure ucb d) \<longleftrightarrow> ucb < nc"
| "refs_lt nu nc _ \<longleftrightarrow> True"

definition bc_ok :: "CS \<Rightarrow> nat \<Rightarrow> bytecode \<Rightarrow> bool" where
  "bc_ok s c bc \<longleftrightarrow> slots_le (topslot s c) bc \<and> refs_lt (length (uvs s (tc_resultBCtx (cs_ctxs s ! c)))) (length (cs_ctxs s)) bc"

text \<open>A context of a block: its owner, its true parent, which is the owner of an older context, and its slots.\<close>

definition bctx_ok :: "CS \<Rightarrow> nat \<Rightarrow> bool" where
  "bctx_ok s b \<longleftrightarrow> owner s b \<le> b \<and> owner s (owner s b) = owner s b \<and> parent s (owner s b) = parent s b
     \<and> (\<forall>p. parent s b = Some p \<longrightarrow> p < owner s b \<and> owner s p = p)
     \<and> (\<forall>c < length (cs_ctxs s). tc_resultBCtx (cs_ctxs s ! c) = owner s b \<longrightarrow>
          bt_startSlot (cs_bctxs s ! b) \<le> topslot s c \<and> (\<forall>r. bt_returnValueSlot (cs_bctxs s ! b) = Some r \<longrightarrow> r \<le> topslot s c))"

text \<open>
  The upvalue of a variable, in the function \<open>b\<close>: it is a local of the parent when that is where the variable is defined, and
  otherwise the parent's upvalue of the same variable.
\<close>

definition uv_ok :: "CS \<Rightarrow> nat \<Rightarrow> UVInfo \<Rightarrow> nat \<Rightarrow> bool" where
  "uv_ok s b uv v \<longleftrightarrow> v < length (cs_vars s) \<and> (\<exists>p. parent s b = Some p \<and>
     (if uvi_isParentLocal uv then p = def_owner s v \<and> uvi_parentLocalSlot uv = Some (lv_slotOrd (cs_vars s ! v))
      else p \<noteq> def_owner s v \<and> (\<exists>j. uvi_parentUpvalueOrd uv = Some j \<and> j < length (uvs s p) \<and> uvi_varInfo (uvs s p ! j) = Some v)))"

definition self_uv :: "UVInfo \<Rightarrow> bool" where
  "self_uv uv \<longleftrightarrow> uvi_isParentLocal uv \<and> uvi_parentLocalSlot uv = Some 0 \<and> uvi_varInfo uv = None"

definition uvs_ok :: "CS \<Rightarrow> nat \<Rightarrow> bool" where
  "uvs_ok s b \<longleftrightarrow> (parent s b = None \<or> owner s b \<noteq> b \<longrightarrow> uvs s b = [])
     \<and> (parent s b \<noteq> None \<and> owner s b = b \<longrightarrow> uvs s b \<noteq> [] \<and> self_uv (hd (uvs s b)))
     \<and> (\<forall>uv \<in> set (tl (uvs s b)). \<exists>v. uvi_varInfo uv = Some v \<and> uv_ok s b uv v)
     \<and> (\<forall>v i. bt_uvOrdMap (cs_bctxs s ! b) v = Some i \<longrightarrow> i < length (uvs s b) \<and> uvi_varInfo (uvs s b ! i) = Some v)"

definition var_ok :: "CS \<Rightarrow> nat \<Rightarrow> bool" where
  "var_ok s v \<longleftrightarrow> lv_bctx (cs_vars s ! v) < length (cs_bctxs s)
     \<and> (\<forall>c < length (cs_ctxs s). tc_resultBCtx (cs_ctxs s ! c) = def_owner s v \<longrightarrow> lv_slotOrd (cs_vars s ! v) \<le> topslot s c)"

definition get_ok :: "bcode \<Rightarrow> nat \<Rightarrow> bool" where
  "get_ok bcs off \<longleftrightarrow> off < length bcs \<and> (\<exists>ord d. fst (bcs ! off) = BC_UpvalueGetMutable ord d)"

text \<open>The code of a context: its bytecodes, the recorded reads of upvalues, which are all there are, and the targets of its branches.\<close>

fun is_get :: "bytecode \<Rightarrow> bool" where
  "is_get (BC_UpvalueGetMutable ord d) \<longleftrightarrow> True"
| "is_get (BC_UpvalueGetImmutable ord d) \<longleftrightarrow> True"
| "is_get _ \<longleftrightarrow> False"

definition code_ok :: "CS \<Rightarrow> nat \<Rightarrow> bool" where
  "code_ok s c \<longleftrightarrow> (let t = cs_ctxs s ! c in (\<forall>x \<in> set (tc_builder t). bc_ok s c (fst x))
     \<and> (\<forall>off \<in> set (tc_allUpvalueGetBytecodes t). get_ok (tc_builder t) off)
     \<and> (\<forall>i < length (tc_builder t). is_get (fst (tc_builder t ! i)) \<longrightarrow> i \<in> set (tc_allUpvalueGetBytecodes t))
     \<and> (\<forall>x \<in> set (tc_builder t). \<forall>d. snd x = Some d \<longrightarrow> d \<le> length (tc_builder t)))"

definition place_ok :: "CS \<Rightarrow> nat \<Rightarrow> bool" where
  "place_ok s c \<longleftrightarrow> (let t = cs_ctxs s ! c; w = tc_resultBCtx t in w < length (cs_bctxs s) \<and> owner s w = w
     \<and> (case parent s w of None \<Rightarrow> ucb_parent (tc_resultUcb t) = None
        | Some p \<Rightarrow> \<exists>c'. ucb_parent (tc_resultUcb t) = Some c' \<and> c' < length (cs_ctxs s) \<and> tc_resultBCtx (cs_ctxs s ! c') = p))"

definition cs_ok :: "CS \<Rightarrow> bool" where
  "cs_ok s \<longleftrightarrow> (\<forall>b < length (cs_bctxs s). bctx_ok s b \<and> uvs_ok s b) \<and> (\<forall>v < length (cs_vars s). var_ok s v)
     \<and> (\<forall>c < length (cs_ctxs s). place_ok s c \<and> code_ok s c) \<and> distinct (map tc_resultBCtx (cs_ctxs s))"

text \<open>Branches that have no target yet, and code that is complete.\<close>

fun is_branch :: "bytecode \<Rightarrow> bool" where
  "is_branch BC_Branch \<longleftrightarrow> True"
| "is_branch BC_BranchLoopHint \<longleftrightarrow> True"
| "is_branch (BC_BranchIf f k) \<longleftrightarrow> True"
| "is_branch (BC_StoreNilAndBranchIf f k d) \<longleftrightarrow> True"
| "is_branch (BC_CopyAndBranchIf f k d) \<longleftrightarrow> True"
| "is_branch (BC_BranchIfNil f k) \<longleftrightarrow> True"
| "is_branch (BC_CopyAndBranchIfNil f k d) \<longleftrightarrow> True"
| "is_branch (BC_CheckForLoopStartCond f i j d) \<longleftrightarrow> True"
| "is_branch (BC_ForLoopStep f k) \<longleftrightarrow> True"
| "is_branch _ \<longleftrightarrow> False"

fun is_exit :: "bytecode \<Rightarrow> bool" where
  "is_exit (BC_Ret k) \<longleftrightarrow> True"
| "is_exit (BC_SOMThrow k) \<longleftrightarrow> True"
| "is_exit _ \<longleftrightarrow> False"

definition pending :: "bcode \<Rightarrow> nat set" where
  "pending bcs = {i. i < length bcs \<and> is_branch (fst (bcs ! i)) \<and> snd (bcs ! i) = None}"

definition ends :: "bcode \<Rightarrow> bool" where
  "ends bcs \<longleftrightarrow> bcs \<noteq> [] \<and> is_exit (fst (last bcs)) \<and> (\<forall>x \<in> set bcs. \<forall>d. snd x = Some d \<longrightarrow> d < length bcs)"

definition code_of :: "CS \<Rightarrow> nat \<Rightarrow> bcode" where
  "code_of s c = tc_builder (cs_ctxs s ! c)"

subsection \<open>Steps\<close>

definition same_place :: "LocalVarInfo \<Rightarrow> LocalVarInfo \<Rightarrow> bool" where
  "same_place v v' \<longleftrightarrow> lv_bctx v' = lv_bctx v \<and> lv_slotOrd v' = lv_slotOrd v"

definition bctx_grows :: "BlockTranslationContext \<Rightarrow> BlockTranslationContext \<Rightarrow> bool" where
  "bctx_grows x x' \<longleftrightarrow> bt_startSlot x' = bt_startSlot x \<and> bt_owningContext x' = bt_owningContext x \<and> bt_trueParent x' = bt_trueParent x
     \<and> bt_returnValueSlot x' = bt_returnValueSlot x \<and> (\<exists>new. bt_uvs x' = bt_uvs x @ new)"

definition ctx_grows :: "TranslationContext \<Rightarrow> TranslationContext \<Rightarrow> bool" where
  "ctx_grows t t' \<longleftrightarrow> tc_resultBCtx t' = tc_resultBCtx t \<and> ucb_parent (tc_resultUcb t') = ucb_parent (tc_resultUcb t)
     \<and> ucb_trivialFnType (tc_resultUcb t') = ucb_trivialFnType (tc_resultUcb t) \<and> tc_historyTopSlot t \<le> tc_historyTopSlot t' \<and> length (tc_builder t) \<le> length (tc_builder t')"

definition grows :: "('a \<Rightarrow> 'a \<Rightarrow> bool) \<Rightarrow> 'a list \<Rightarrow> 'a list \<Rightarrow> bool" where
  "grows R xs ys \<longleftrightarrow> length xs \<le> length ys \<and> (\<forall>i < length xs. R (xs ! i) (ys ! i))"

definition extends :: "CS \<Rightarrow> CS \<Rightarrow> bool" where
  "extends s s' \<longleftrightarrow> grows same_place (cs_vars s) (cs_vars s') \<and> grows bctx_grows (cs_bctxs s) (cs_bctxs s')
     \<and> grows ctx_grows (cs_ctxs s) (cs_ctxs s')"

definition translates :: "nat \<Rightarrow> CS \<Rightarrow> CS \<Rightarrow> bool" where
  "translates c s s' \<longleftrightarrow> extends s s' \<and> (\<forall>c' < length (cs_ctxs s). c' \<noteq> c \<longrightarrow> code_of s' c' = code_of s c')
     \<and> (\<forall>c'. length (cs_ctxs s) \<le> c' \<longrightarrow> c' < length (cs_ctxs s') \<longrightarrow> ends (code_of s' c') \<and> pending (code_of s' c') = {})"

lemma grows_refl: "(\<And>x. R x x) \<Longrightarrow> grows R xs xs"
  by (simp add: grows_def)

lemma grows_trans: "(\<And>x y z. R x y \<Longrightarrow> R y z \<Longrightarrow> R x z) \<Longrightarrow> grows R xs ys \<Longrightarrow> grows R ys zs \<Longrightarrow> grows R xs zs"
  unfolding grows_def by (metis order.strict_trans2 order_trans)

lemma grows_append: "(\<And>x. R x x) \<Longrightarrow> grows R xs (xs @ ys)"
  by (simp add: grows_def nth_append)

lemma grows_update: "(\<And>x. R x x) \<Longrightarrow> R (xs ! i) y \<Longrightarrow> grows R xs (xs[i := y])"
  unfolding grows_def by (metis length_list_update nth_list_update_eq nth_list_update_neq order_refl)

lemma grow_rels_refl [simp]: "same_place v v" "bctx_grows x x" "ctx_grows t t"
  by (simp_all add: same_place_def bctx_grows_def ctx_grows_def)

lemma grow_rels_trans: "same_place u v \<Longrightarrow> same_place v w \<Longrightarrow> same_place u w"
  "bctx_grows x y \<Longrightarrow> bctx_grows y z \<Longrightarrow> bctx_grows x z" "ctx_grows p q \<Longrightarrow> ctx_grows q r \<Longrightarrow> ctx_grows p r"
  by (auto simp: same_place_def bctx_grows_def ctx_grows_def)

lemma extends_refl [simp]: "extends s s"
  by (simp add: extends_def grows_refl)

lemma extends_trans:
  assumes "extends s t" "extends t u"
  shows "extends s u"
proof -
  have "grows same_place (cs_vars s) (cs_vars u)" using assms grow_rels_trans(1) by (auto simp: extends_def intro: grows_trans)
  moreover have "grows bctx_grows (cs_bctxs s) (cs_bctxs u)" using assms grow_rels_trans(2) by (auto simp: extends_def intro: grows_trans)
  moreover have "grows ctx_grows (cs_ctxs s) (cs_ctxs u)" using assms grow_rels_trans(3) by (auto simp: extends_def intro: grows_trans)
  ultimately show ?thesis by (simp add: extends_def)
qed

text \<open>What an extension preserves.\<close>

lemma extends_facts:
  assumes "extends s s'"
  shows "b < length (cs_bctxs s) \<Longrightarrow> owner s' b = owner s b" "b < length (cs_bctxs s) \<Longrightarrow> parent s' b = parent s b"
    and "b < length (cs_bctxs s) \<Longrightarrow> \<exists>new. uvs s' b = uvs s b @ new"
    and "c < length (cs_ctxs s) \<Longrightarrow> topslot s c \<le> topslot s' c" "c < length (cs_ctxs s) \<Longrightarrow> tc_resultBCtx (cs_ctxs s' ! c) = tc_resultBCtx (cs_ctxs s ! c)"
    and "v < length (cs_vars s) \<Longrightarrow> lv_bctx (cs_vars s' ! v) = lv_bctx (cs_vars s ! v)"
    and "v < length (cs_vars s) \<Longrightarrow> lv_slotOrd (cs_vars s' ! v) = lv_slotOrd (cs_vars s ! v)"
    and "length (cs_bctxs s) \<le> length (cs_bctxs s')" "length (cs_ctxs s) \<le> length (cs_ctxs s')" "length (cs_vars s) \<le> length (cs_vars s')"
    and "c < length (cs_ctxs s) \<Longrightarrow> ucb_parent (tc_resultUcb (cs_ctxs s' ! c)) = ucb_parent (tc_resultUcb (cs_ctxs s ! c))"
    and "c < length (cs_ctxs s) \<Longrightarrow> length (code_of s c) \<le> length (code_of s' c)"
    and "b < length (cs_bctxs s) \<Longrightarrow> bt_startSlot (cs_bctxs s' ! b) = bt_startSlot (cs_bctxs s ! b)
           \<and> bt_returnValueSlot (cs_bctxs s' ! b) = bt_returnValueSlot (cs_bctxs s ! b)"
  using assms unfolding extends_def grows_def bctx_grows_def ctx_grows_def same_place_def owner_def parent_def uvs_def topslot_def code_of_def by auto

lemma step_refl [simp]: "translates c s s"
  by (simp add: translates_def)

lemma step_trans:
  assumes "translates c s t" "translates c t u" "c < length (cs_ctxs s)"
  shows "translates c s u"
proof -
  have e: "extends s u" using assms(1,2) extends_trans by (auto simp: translates_def)
  have l: "length (cs_ctxs s) \<le> length (cs_ctxs t)" using assms(1) extends_facts(9) by (auto simp: translates_def)
  have "code_of u c' = code_of s c'" if "c' < length (cs_ctxs s)" "c' \<noteq> c" for c'
    using assms(1,2) that l by (simp add: translates_def)
  moreover have "ends (code_of u c') \<and> pending (code_of u c') = {}" if c: "length (cs_ctxs s) \<le> c'" "c' < length (cs_ctxs u)" for c'
  proof (cases "c' < length (cs_ctxs t)")
    case True
    then have "code_of u c' = code_of t c'" using assms(2,3) c by (simp add: translates_def)
    then show ?thesis using assms(1) True c by (simp add: translates_def)
  next
    case False
    then show ?thesis using assms(2) c by (simp add: translates_def)
  qed
  ultimately show ?thesis using e by (simp add: translates_def)
qed

subsection \<open>The invariant of an extended state\<close>

lemma ok_at:
  assumes "cs_ok s"
  shows "b < length (cs_bctxs s) \<Longrightarrow> bctx_ok s b" "b < length (cs_bctxs s) \<Longrightarrow> uvs_ok s b" "v < length (cs_vars s) \<Longrightarrow> var_ok s v"
    and "c < length (cs_ctxs s) \<Longrightarrow> place_ok s c" "c < length (cs_ctxs s) \<Longrightarrow> code_ok s c"
  using assms by (simp_all add: cs_ok_def)

lemma ctx_unique:
  assumes "cs_ok s" "c < length (cs_ctxs s)" "c' < length (cs_ctxs s)" "tc_resultBCtx (cs_ctxs s ! c) = tc_resultBCtx (cs_ctxs s ! c')"
  shows "c = c'"
  using assms nth_eq_iff_index_eq [of "map tc_resultBCtx (cs_ctxs s)" c c'] by (simp add: cs_ok_def)

lemma owner_lt: "cs_ok s \<Longrightarrow> b < length (cs_bctxs s) \<Longrightarrow> owner s b < length (cs_bctxs s)"
  using ok_at(1) [of s b] by (simp add: bctx_ok_def)

lemma owner_owner: "cs_ok s \<Longrightarrow> b < length (cs_bctxs s) \<Longrightarrow> owner s (owner s b) = owner s b"
  using ok_at(1) [of s b] by (simp add: bctx_ok_def)

lemma parent_lt: "cs_ok s \<Longrightarrow> b < length (cs_bctxs s) \<Longrightarrow> parent s b = Some p \<Longrightarrow> p < b \<and> owner s p = p"
  using ok_at(1) [of s b] by (auto simp: bctx_ok_def)

lemma def_owner_lt: "cs_ok s \<Longrightarrow> v < length (cs_vars s) \<Longrightarrow> def_owner s v < length (cs_bctxs s)"
  using ok_at(3) [of s v] owner_lt [of s] by (simp add: var_ok_def def_owner_def)

lemma def_owner_extends: "extends s s' \<Longrightarrow> cs_ok s \<Longrightarrow> v < length (cs_vars s) \<Longrightarrow> def_owner s' v = def_owner s v"
  using extends_facts(1,6) [of s s'] ok_at(3) [of s v] by (simp add: def_owner_def var_ok_def)

text \<open>A new context belongs to a new block.\<close>

definition fresh_ctxs :: "CS \<Rightarrow> CS \<Rightarrow> bool" where
  "fresh_ctxs s s' \<longleftrightarrow> (\<forall>c. length (cs_ctxs s) \<le> c \<longrightarrow> c < length (cs_ctxs s') \<longrightarrow> length (cs_bctxs s) \<le> tc_resultBCtx (cs_ctxs s' ! c))"

lemma fresh_ctxs_same: "length (cs_ctxs s') = length (cs_ctxs s) \<Longrightarrow> fresh_ctxs s s'"
  by (simp add: fresh_ctxs_def)

lemma ctx_of_old:
  assumes "extends s s'" "fresh_ctxs s s'" "c < length (cs_ctxs s')" "tc_resultBCtx (cs_ctxs s' ! c) < length (cs_bctxs s)"
  shows "c < length (cs_ctxs s) \<and> tc_resultBCtx (cs_ctxs s' ! c) = tc_resultBCtx (cs_ctxs s ! c) \<and> topslot s c \<le> topslot s' c"
  using assms extends_facts(4,5) [OF assms(1)] by (metis fresh_ctxs_def not_le)

lemma bctx_ok_extends:
  assumes e: "extends s s'" and f: "fresh_ctxs s s'" and ok: "cs_ok s" and b: "b < length (cs_bctxs s)"
  shows "bctx_ok s' b"
proof -
  have bo: "bctx_ok s b" using ok b by (simp add: ok_at)
  have o: "owner s b < length (cs_bctxs s)" using owner_lt [OF ok b] .
  have eqs: "owner s' b = owner s b" "parent s' b = parent s b" "owner s' (owner s b) = owner s (owner s b)" "parent s' (owner s b) = parent s (owner s b)"
    using extends_facts(1,2) [OF e] b o by simp_all
  have "p < owner s b \<and> owner s' p = p" if "parent s b = Some p" for p
    using bo that extends_facts(1) [OF e, of p] b o by (auto simp: bctx_ok_def)
  moreover have "bt_startSlot (cs_bctxs s' ! b) \<le> topslot s' c \<and> (\<forall>r. bt_returnValueSlot (cs_bctxs s' ! b) = Some r \<longrightarrow> r \<le> topslot s' c)"
    if c: "c < length (cs_ctxs s')" "tc_resultBCtx (cs_ctxs s' ! c) = owner s b" for c
  proof -
    have old: "c < length (cs_ctxs s)" "tc_resultBCtx (cs_ctxs s ! c) = owner s b" "topslot s c \<le> topslot s' c"
      using ctx_of_old [OF e f c(1)] c(2) o by auto
    then have "bt_startSlot (cs_bctxs s ! b) \<le> topslot s c \<and> (\<forall>r. bt_returnValueSlot (cs_bctxs s ! b) = Some r \<longrightarrow> r \<le> topslot s c)"
      using bo by (simp add: bctx_ok_def)
    then show ?thesis using old(3) extends_facts(13) [OF e b] by (metis le_trans)
  qed
  ultimately show ?thesis using bo eqs by (simp add: bctx_ok_def)
qed

lemma var_ok_extends:
  assumes e: "extends s s'" and f: "fresh_ctxs s s'" and ok: "cs_ok s" and v: "v < length (cs_vars s)"
  shows "var_ok s' v"
proof -
  have vo: "var_ok s v" using ok v by (simp add: ok_at)
  have d: "def_owner s' v = def_owner s v" and dlt: "def_owner s v < length (cs_bctxs s)"
    using def_owner_extends [OF e ok v] def_owner_lt [OF ok v] by simp_all
  have "lv_slotOrd (cs_vars s' ! v) \<le> topslot s' c" if c: "c < length (cs_ctxs s')" "tc_resultBCtx (cs_ctxs s' ! c) = def_owner s v" for c
  proof -
    have old: "c < length (cs_ctxs s)" "tc_resultBCtx (cs_ctxs s ! c) = def_owner s v" "topslot s c \<le> topslot s' c"
      using ctx_of_old [OF e f c(1)] c(2) dlt by auto
    then have "lv_slotOrd (cs_vars s ! v) \<le> topslot s c" using vo by (simp add: var_ok_def)
    then show ?thesis using old(3) extends_facts(7) [OF e v] by simp
  qed
  then show ?thesis using vo extends_facts(6,8) [OF e] v d by (simp add: var_ok_def)
qed

lemma uv_ok_extends:
  assumes e: "extends s s'" and ok: "cs_ok s" and b: "b < length (cs_bctxs s)" and uv: "uv_ok s b uv v"
  shows "uv_ok s' b uv v"
proof -
  have v: "v < length (cs_vars s)" using uv by (simp add: uv_ok_def)
  have d: "def_owner s' v = def_owner s v" using def_owner_extends [OF e ok v] .
  have slot: "lv_slotOrd (cs_vars s' ! v) = lv_slotOrd (cs_vars s ! v)" "v < length (cs_vars s')" using extends_facts(7,10) [OF e] v by simp_all
  obtain p where p: "parent s b = Some p" using uv by (auto simp: uv_ok_def)
  then have "p < length (cs_bctxs s)" using parent_lt [OF ok b] b by auto
  then obtain new where "uvs s' p = uvs s p @ new" using extends_facts(3) [OF e] by blast
  then have "\<And>j. j < length (uvs s p) \<Longrightarrow> uvs s' p ! j = uvs s p ! j \<and> j < length (uvs s' p)" by (simp add: nth_append)
  then show ?thesis using uv p d slot extends_facts(2) [OF e b] unfolding uv_ok_def by (auto split: if_splits)
qed

lemma uvs_ok_extends:
  assumes e: "extends s s'" and ok: "cs_ok s" and b: "b < length (cs_bctxs s)"
    and same: "uvs s' b = uvs s b" "bt_uvOrdMap (cs_bctxs s' ! b) = bt_uvOrdMap (cs_bctxs s ! b)"
  shows "uvs_ok s' b"
  using ok_at(2) [OF ok b] uv_ok_extends [OF e ok b] same extends_facts(1,2) [OF e b] unfolding uvs_ok_def by metis

lemma place_ok_extends:
  assumes e: "extends s s'" and c: "c < length (cs_ctxs s)" and po: "place_ok s c"
  shows "place_ok s' c"
proof -
  have "tc_resultBCtx (cs_ctxs s ! c) < length (cs_bctxs s)" using po by (simp add: place_ok_def Let_def)
  then show ?thesis using po c extends_facts(1,2,5,8,9,11) [OF e] unfolding place_ok_def Let_def
    by (auto split: option.splits simp: order.strict_trans2)
qed

lemma cst_le_mono: "cst_le t a \<Longrightarrow> t \<le> t' \<Longrightarrow> cst_le t' a"
  by (cases a) auto

lemma slots_le_mono: "slots_le t bc \<Longrightarrow> t \<le> t' \<Longrightarrow> slots_le t' bc"
  by (cases bc) (auto elim: cst_le_mono)

lemma refs_lt_mono: "refs_lt nu nc bc \<Longrightarrow> nu \<le> nu' \<Longrightarrow> nc \<le> nc' \<Longrightarrow> refs_lt nu' nc' bc"
  by (cases bc) auto

lemma bc_ok_extends:
  assumes e: "extends s s'" and c: "c < length (cs_ctxs s)" and po: "place_ok s c" and bc: "bc_ok s c bc"
  shows "bc_ok s' c bc"
proof -
  have w: "tc_resultBCtx (cs_ctxs s ! c) < length (cs_bctxs s)" using po by (simp add: place_ok_def Let_def)
  have "length (uvs s (tc_resultBCtx (cs_ctxs s ! c))) \<le> length (uvs s' (tc_resultBCtx (cs_ctxs s ! c)))"
    using extends_facts(3) [OF e w] by auto
  then show ?thesis using bc extends_facts(4,5) [OF e c] extends_facts(9) [OF e]
    unfolding bc_ok_def by (auto elim: slots_le_mono refs_lt_mono)
qed

lemma code_ok_extends:
  assumes e: "extends s s'" and c: "c < length (cs_ctxs s)" and po: "place_ok s c" and co: "code_ok s c"
    and same: "code_of s' c = code_of s c" "tc_allUpvalueGetBytecodes (cs_ctxs s' ! c) = tc_allUpvalueGetBytecodes (cs_ctxs s ! c)"
  shows "code_ok s' c"
  using co bc_ok_extends [OF e c po] same unfolding code_ok_def code_of_def Let_def by auto

text \<open>An extended state is good when what is new in it is.\<close>

lemma cs_ok_extends:
  assumes e: "extends s s'" and f: "fresh_ctxs s s'" and ok: "cs_ok s"
    and newb: "\<And>b. length (cs_bctxs s) \<le> b \<Longrightarrow> b < length (cs_bctxs s') \<Longrightarrow> bctx_ok s' b \<and> uvs_ok s' b"
    and oldb: "\<And>b. b < length (cs_bctxs s) \<Longrightarrow>
       uvs s' b = uvs s b \<and> bt_uvOrdMap (cs_bctxs s' ! b) = bt_uvOrdMap (cs_bctxs s ! b) \<or> uvs_ok s' b"
    and newv: "\<And>v. length (cs_vars s) \<le> v \<Longrightarrow> v < length (cs_vars s') \<Longrightarrow> var_ok s' v"
    and newc: "\<And>c. length (cs_ctxs s) \<le> c \<Longrightarrow> c < length (cs_ctxs s') \<Longrightarrow> place_ok s' c \<and> code_ok s' c"
    and dist: "length (cs_ctxs s') = length (cs_ctxs s) \<or> distinct (map tc_resultBCtx (cs_ctxs s'))"
    and oldc: "\<And>c. c < length (cs_ctxs s) \<Longrightarrow>
       code_of s' c = code_of s c \<and> tc_allUpvalueGetBytecodes (cs_ctxs s' ! c) = tc_allUpvalueGetBytecodes (cs_ctxs s ! c) \<or> code_ok s' c"
  shows "cs_ok s'"
  unfolding cs_ok_def
proof (intro conjI allI impI)
  fix b assume b: "b < length (cs_bctxs s')"
  show "bctx_ok s' b" using newb b bctx_ok_extends [OF e f ok] by (meson not_le)
  show "uvs_ok s' b" using newb b oldb uvs_ok_extends [OF e ok] by (meson not_le)
next
  fix v assume v: "v < length (cs_vars s')"
  show "var_ok s' v" using newv v var_ok_extends [OF e f ok] by (meson not_le)
next
  fix c assume c: "c < length (cs_ctxs s')"
  show "place_ok s' c" using newc c place_ok_extends [OF e] ok_at(4) [OF ok] by (meson not_le)
  show "code_ok s' c" using newc c oldc code_ok_extends [OF e] ok_at(4,5) [OF ok] by (meson not_le)
next
  have "map tc_resultBCtx (cs_ctxs s') = map tc_resultBCtx (cs_ctxs s)" if l: "length (cs_ctxs s') = length (cs_ctxs s)"
    using extends_facts(5) [OF e] l by (intro nth_equalityI) simp_all
  then show "distinct (map tc_resultBCtx (cs_ctxs s'))" using dist ok by (auto simp: cs_ok_def)
qed

subsection \<open>The judgement\<close>

definition tri :: "nat \<Rightarrow> (CS \<Rightarrow> bool) \<Rightarrow> nat set \<Rightarrow> 'a cop \<Rightarrow> ('a \<Rightarrow> CS \<Rightarrow> bool) \<Rightarrow> ('a \<Rightarrow> nat set) \<Rightarrow> bool" where
  "tri c P I m Q J \<longleftrightarrow> (\<forall>s. cs_ok s \<longrightarrow> c < length (cs_ctxs s) \<longrightarrow> P s \<longrightarrow> m s \<noteq> Inl OutOfFuel \<and> (\<forall>x s'. m s = Inr (x, s') \<longrightarrow>
       cs_ok s' \<and> translates c s s' \<and> Q x s' \<and> pending (code_of s' c) \<subseteq> (pending (code_of s c) - I) \<union> J x))"

text \<open>A precondition that every part of the translation keeps.\<close>

definition stable :: "nat \<Rightarrow> (CS \<Rightarrow> bool) \<Rightarrow> bool" where
  "stable c P \<longleftrightarrow> (\<forall>s s'. cs_ok s \<longrightarrow> c < length (cs_ctxs s) \<longrightarrow> translates c s s' \<longrightarrow> P s \<longrightarrow> P s')"

named_theorems stables
named_theorems tris

lemma stable_True [stables]: "stable c (\<lambda>s. True)"
  by (simp add: stable_def)

lemma stable_conj [stables]: "stable c P \<Longrightarrow> stable c Q \<Longrightarrow> stable c (\<lambda>s. P s \<and> Q s)"
  by (auto simp: stable_def)

lemma stable_const [stables]: "stable c (\<lambda>s. k)"
  by (simp add: stable_def)

lemma stable_all [stables]: "(\<And>i. stable c (P i)) \<Longrightarrow> stable c (\<lambda>s. \<forall>i. P i s)"
  unfolding stable_def by blast

lemma stable_imp [stables]: "stable c P \<Longrightarrow> stable c (\<lambda>s. k \<longrightarrow> P s)"
  by (auto simp: stable_def)

lemma triI:
  assumes "\<And>s. cs_ok s \<Longrightarrow> c < length (cs_ctxs s) \<Longrightarrow> P s \<Longrightarrow> m s \<noteq> Inl OutOfFuel"
    and "\<And>s x s'. cs_ok s \<Longrightarrow> c < length (cs_ctxs s) \<Longrightarrow> P s \<Longrightarrow> m s = Inr (x, s') \<Longrightarrow>
       cs_ok s' \<and> translates c s s' \<and> Q x s' \<and> pending (code_of s' c) \<subseteq> (pending (code_of s c) - I) \<union> J x"
  shows "tri c P I m Q J"
  using assms unfolding tri_def by blast

lemma triD:
  assumes "tri c P I m Q J" "cs_ok s" "c < length (cs_ctxs s)" "P s" "m s = Inr (x, s')"
  shows "cs_ok s'" "translates c s s'" "Q x s'" "pending (code_of s' c) \<subseteq> (pending (code_of s c) - I) \<union> J x"
  using assms unfolding tri_def by blast+

lemma tri_fuel:
  assumes "tri c P I m Q J" "cs_ok s" "c < length (cs_ctxs s)" "P s"
  shows "m s \<noteq> Inl OutOfFuel"
  using assms unfolding tri_def by blast

lemma tri_weaken:
  assumes "tri c P I m Q J" "\<And>s. cs_ok s \<Longrightarrow> c < length (cs_ctxs s) \<Longrightarrow> P' s \<Longrightarrow> P s"
    and "\<And>x s. cs_ok s \<Longrightarrow> Q x s \<Longrightarrow> Q' x s" and "I' \<subseteq> I" and "\<And>x. J x \<subseteq> J' x"
  shows "tri c P' I' m Q' J'"
proof (rule triI)
  fix s assume s: "cs_ok s" "c < length (cs_ctxs s)" "P' s"
  then show "m s \<noteq> Inl OutOfFuel" using tri_fuel [OF assms(1)] assms(2) by blast
  fix x s' assume "m s = Inr (x, s')"
  note d = triD [OF assms(1) s(1,2) assms(2) [OF s] this]
  show "cs_ok s' \<and> translates c s s' \<and> Q' x s' \<and> pending (code_of s' c) \<subseteq> (pending (code_of s c) - I') \<union> J' x"
    using d assms(3) [OF d(1,3)] assms(4) assms(5) [of x] by blast
qed

lemma tri_pre:
  assumes "tri c P I m Q J" "\<And>s. cs_ok s \<Longrightarrow> c < length (cs_ctxs s) \<Longrightarrow> P' s \<Longrightarrow> P s"
  shows "tri c P' I m Q J"
  using assms by (rule tri_weaken) auto

lemma tri_frame:
  assumes "tri c P {} m Q (\<lambda>x. {})"
  shows "tri c P I m Q (\<lambda>x. I)"
  using assms unfolding tri_def by blast

lemma step_ctx_lt: "translates c s t \<Longrightarrow> c < length (cs_ctxs s) \<Longrightarrow> c < length (cs_ctxs t)"
  using extends_facts(9) [of s t] by (simp add: translates_def)

lemma tri_bind:
  assumes P: "stable c P" and m: "tri c P I m Q J" and f: "\<And>x. tri c (\<lambda>s. P s \<and> Q x s) (J x) (f x) R K"
  shows "tri c P I (bindS m f) R K"
proof (rule triI)
  fix s assume s: "cs_ok s" "c < length (cs_ctxs s)" "P s"
  have next_ok: "cs_ok t \<and> c < length (cs_ctxs t) \<and> P t \<and> Q x t" if "m s = Inr (x, t)" for x t
    using triD [OF m s that] step_ctx_lt [of c s t] P s by (auto simp: stable_def)
  show "bindS m f s \<noteq> Inl OutOfFuel"
  proof (cases "m s")
    case (Inl err)
    then show ?thesis using tri_fuel [OF m s] by simp
  next
    case (Inr r)
    then obtain x t where r: "m s = Inr (x, t)" by (cases r) auto
    then show ?thesis using next_ok [OF r] tri_fuel [OF f] by simp
  qed
  fix y u assume "bindS m f s = Inr (y, u)"
  then obtain x t where r: "m s = Inr (x, t)" "f x t = Inr (y, u)" by (auto elim: bindS_InrE)
  note n = next_ok [OF r(1)]
  note d = triD [OF m s r(1)] and g = triD [OF f _ _ _ r(2)]
  have "translates c s u" using step_trans [OF d(2) _ s(2)] g(2) n by blast
  then show "cs_ok u \<and> translates c s u \<and> R y u \<and> pending (code_of u c) \<subseteq> (pending (code_of s c) - I) \<union> K y"
    using g n d(4) by blast
qed

lemma tri_ret: "(\<And>s. cs_ok s \<Longrightarrow> c < length (cs_ctxs s) \<Longrightarrow> P s \<Longrightarrow> Q x s) \<Longrightarrow> I \<subseteq> J x \<Longrightarrow> tri c P I (retS x) Q J"
  by (auto simp: tri_def)

lemma tri_fail [tris]: "err \<noteq> OutOfFuel \<Longrightarrow> tri c P I (failS err) Q J"
  by (simp add: tri_def)

lemma tri_if: "(k \<Longrightarrow> tri c P I m Q J) \<Longrightarrow> (\<not> k \<Longrightarrow> tri c P I n Q J) \<Longrightarrow> tri c P I (if k then m else n) Q J"
  by simp

subsection \<open>Operations that do not change code, contexts or upvalues\<close>

definition quiet :: "CS \<Rightarrow> CS \<Rightarrow> bool" where
  "quiet s s' \<longleftrightarrow> extends s s' \<and> length (cs_vars s') = length (cs_vars s) \<and> length (cs_bctxs s') = length (cs_bctxs s)
     \<and> length (cs_ctxs s') = length (cs_ctxs s)
     \<and> (\<forall>b < length (cs_bctxs s). uvs s' b = uvs s b \<and> bt_uvOrdMap (cs_bctxs s' ! b) = bt_uvOrdMap (cs_bctxs s ! b))
     \<and> (\<forall>c < length (cs_ctxs s). code_of s' c = code_of s c
          \<and> tc_allUpvalueGetBytecodes (cs_ctxs s' ! c) = tc_allUpvalueGetBytecodes (cs_ctxs s ! c))"

lemma quiet_ok:
  assumes "quiet s s'" "cs_ok s"
  shows "cs_ok s'" "translates c s s'"
proof -
  show "cs_ok s'" using assms(1) by (intro cs_ok_extends [OF _ _ assms(2)]) (auto simp: quiet_def fresh_ctxs_same)
  show "translates c s s'" using assms(1) by (auto simp: quiet_def translates_def)
qed

lemma quiet_refl [simp]: "quiet s s"
  by (simp add: quiet_def)

lemma tri_quiet:
  assumes "\<And>s. m s \<noteq> Inl OutOfFuel"
    and "\<And>s x s'. cs_ok s \<Longrightarrow> c < length (cs_ctxs s) \<Longrightarrow> P s \<Longrightarrow> m s = Inr (x, s') \<Longrightarrow> quiet s s' \<and> Q x s'"
  shows "tri c P I m Q (\<lambda>x. I)"
proof (rule triI)
  fix s show "m s \<noteq> Inl OutOfFuel" by (rule assms(1))
next
  fix s x s' assume s: "cs_ok s" "c < length (cs_ctxs s)" "P s" "m s = Inr (x, s')"
  have q: "quiet s s'" "Q x s'" using assms(2) [OF s] by auto
  then have "code_of s' c = code_of s c" using s(2) by (simp add: quiet_def)
  then show "cs_ok s' \<and> translates c s s' \<and> Q x s' \<and> pending (code_of s' c) \<subseteq> (pending (code_of s c) - I) \<union> I"
    using quiet_ok [OF q(1) s(1)] q(2) by auto
qed

lemma quiet_vm [simp]: "quiet s (s\<lparr>cs_vm := V\<rparr>)"
  by (simp add: quiet_def extends_def grows_refl uvs_def code_of_def)

lemma quiet_map [simp]: "quiet s (s\<lparr>cs_localVarMap := M\<rparr>)"
  by (simp add: quiet_def extends_def grows_refl uvs_def code_of_def)

lemma quiet_var:
  assumes "same_place (cs_vars s ! v) x"
  shows "quiet s (s\<lparr>cs_vars := (cs_vars s)[v := x]\<rparr>)"
  using grows_update [of same_place "cs_vars s" v x] assms by (simp add: quiet_def extends_def grows_refl uvs_def code_of_def)

lemma list_update_keeps: "f y = f (xs ! i) \<Longrightarrow> f (xs[i := y] ! j) = f (xs ! j)"
  by (metis linorder_not_le list_update_beyond nth_list_update_eq nth_list_update_neq)

lemma quiet_bctx:
  assumes "bctx_grows (cs_bctxs s ! b) x" "bt_uvs x = bt_uvs (cs_bctxs s ! b)" "bt_uvOrdMap x = bt_uvOrdMap (cs_bctxs s ! b)"
  shows "quiet s (s\<lparr>cs_bctxs := (cs_bctxs s)[b := x]\<rparr>)"
  using grows_update [of bctx_grows "cs_bctxs s" b x] assms
  by (simp add: quiet_def extends_def grows_refl uvs_def code_of_def list_update_keeps [where f = bt_uvs] list_update_keeps [where f = bt_uvOrdMap])

lemma quiet_ctx:
  assumes "ctx_grows (cs_ctxs s ! c) t" "tc_builder t = tc_builder (cs_ctxs s ! c)"
    and "tc_allUpvalueGetBytecodes t = tc_allUpvalueGetBytecodes (cs_ctxs s ! c)"
  shows "quiet s (s\<lparr>cs_ctxs := (cs_ctxs s)[c := t]\<rparr>)"
  using grows_update [of ctx_grows "cs_ctxs s" c t] assms
  by (simp add: quiet_def extends_def grows_refl uvs_def code_of_def list_update_keeps [where f = tc_builder]
      list_update_keeps [where f = tc_allUpvalueGetBytecodes])

text \<open>What is known of a block after its context has been read; this part of it never changes.\<close>

definition bctx_at :: "nat \<Rightarrow> BlockTranslationContext \<Rightarrow> CS \<Rightarrow> bool" where
  "bctx_at b x s \<longleftrightarrow> b < length (cs_bctxs s) \<and> owner s b = bt_owningContext x \<and> parent s b = bt_trueParent x
     \<and> bt_startSlot (cs_bctxs s ! b) = bt_startSlot x \<and> bt_returnValueSlot (cs_bctxs s ! b) = bt_returnValueSlot x"

definition var_at :: "nat \<Rightarrow> LocalVarInfo \<Rightarrow> CS \<Rightarrow> bool" where
  "var_at v x s \<longleftrightarrow> v < length (cs_vars s) \<and> lv_bctx (cs_vars s ! v) = lv_bctx x \<and> lv_slotOrd (cs_vars s ! v) = lv_slotOrd x"

lemma stableI:
  assumes "\<And>s s'. cs_ok s \<Longrightarrow> c < length (cs_ctxs s) \<Longrightarrow> extends s s' \<Longrightarrow> P s \<Longrightarrow> P s'"
  shows "stable c P"
  using assms unfolding stable_def translates_def by blast

lemma stable_bctx_at [stables]: "stable c (bctx_at b x)"
proof (rule stableI)
  fix s s' assume e: "extends s s'" and "bctx_at b x s"
  then show "bctx_at b x s'" using extends_facts(1,2,13) [OF e, of b] extends_facts(8) [OF e] by (simp add: bctx_at_def)
qed

lemma stable_var_at [stables]: "stable c (var_at v x)"
proof (rule stableI)
  fix s s' assume e: "extends s s'" and "var_at v x s"
  then show "var_at v x s'" using extends_facts(6,7) [OF e, of v] extends_facts(10) [OF e] by (simp add: var_at_def)
qed

lemma tri_getS [tris]: "tri c P I (getS f) (\<lambda>x s. x = f s) (\<lambda>x. I)"
  by (rule tri_quiet) auto

lemma tri_get_ctx [tris]: "tri c P I (get_ctx c') (\<lambda>x s. True) (\<lambda>x. I)"
  by (rule tri_quiet) (auto simp: get_ctx_def split: if_splits)

lemma tri_get_bctx [tris]: "tri c P I (get_bctx b) (\<lambda>x s. bctx_at b x s) (\<lambda>x. I)"
  by (rule tri_quiet) (auto simp: get_bctx_def bctx_at_def owner_def parent_def split: if_splits)

lemma tri_get_var [tris]: "tri c P I (get_var v) (\<lambda>x s. var_at v x s) (\<lambda>x. I)"
  by (rule tri_quiet) (auto simp: get_var_def var_at_def split: if_splits)

lemma bindR_eq_Inl: "bindR m f = Inl err \<longleftrightarrow> m = Inl err \<or> (\<exists>x. m = Inr x \<and> f x = Inl err)"
  by (cases m) simp_all

text \<open>An operation of the VM that takes no fuel.\<close>

definition unfuelled :: "'a vmop \<Rightarrow> bool" where
  "unfuelled m \<longleftrightarrow> (\<forall>V. m V \<noteq> Inl OutOfFuel)"

lemma tri_liftV: "unfuelled m \<Longrightarrow> tri c P I (liftV m) (\<lambda>x s. True) (\<lambda>x. I)"
  by (rule tri_quiet) (auto simp: liftV_def unfuelled_def bindR_eq_Inl bindR_eq_Inr)

lemma tri_liftS: "r \<noteq> Inl OutOfFuel \<Longrightarrow> tri c P I (liftS r) (\<lambda>x s. r = Inr x) (\<lambda>x. I)"
  by (rule tri_quiet) (auto simp: liftS_def bindR_eq_Inl bindR_eq_Inr)

lemma tri_upd_var [tris]: "(\<And>x. same_place x (f x)) \<Longrightarrow> tri c P I (upd_var v f) (\<lambda>x s. True) (\<lambda>x. I)"
  by (rule tri_quiet) (auto simp: upd_var_def intro: quiet_var)

lemma tri_upd_bctx:
  assumes "\<And>x. bctx_grows x (f x) \<and> bt_uvs (f x) = bt_uvs x \<and> bt_uvOrdMap (f x) = bt_uvOrdMap x"
  shows "tri c P I (upd_bctx b f) (\<lambda>x s. True) (\<lambda>x. I)"
  using assms by (intro tri_quiet) (auto simp: upd_bctx_def intro: quiet_bctx)

lemma tri_upd_ctx:
  assumes "\<And>x. ctx_grows x (f x) \<and> tc_builder (f x) = tc_builder x \<and> tc_allUpvalueGetBytecodes (f x) = tc_allUpvalueGetBytecodes x"
  shows "tri c P I (upd_ctx c' f) (\<lambda>x s. True) (\<lambda>x. I)"
  using assms by (intro tri_quiet) (auto simp: upd_ctx_def intro: quiet_ctx)

definition slot_ok :: "nat \<Rightarrow> nat \<Rightarrow> CS \<Rightarrow> bool" where
  "slot_ok c k s \<longleftrightarrow> k \<le> topslot s c"

lemma stable_slot_ok [stables]: "stable c (slot_ok c k)"
proof (rule stableI)
  fix s s' assume e: "c < length (cs_ctxs s)" "extends s s'" and "slot_ok c k s"
  then show "slot_ok c k s'" using extends_facts(4) [OF e(2,1)] by (simp add: slot_ok_def)
qed

lemma tri_UpdateTopSlot [tris]: "tri c P I (UpdateTopSlot c k) (\<lambda>x s. slot_ok c k s) (\<lambda>x. I)"
proof (rule tri_quiet)
  fix s x s' assume s: "cs_ok s" "c < length (cs_ctxs s)" "UpdateTopSlot c k s = Inr (x, s')"
  then have "s' = s\<lparr>cs_ctxs := (cs_ctxs s)[c := (cs_ctxs s ! c)\<lparr>tc_historyTopSlot := max (tc_historyTopSlot (cs_ctxs s ! c)) k\<rparr>]\<rparr>"
    by (simp add: UpdateTopSlot_def upd_ctx_def)
  then show "quiet s s' \<and> slot_ok c k s'"
    using s(2) quiet_ctx [of s c "(cs_ctxs s ! c)\<lparr>tc_historyTopSlot := max (tc_historyTopSlot (cs_ctxs s ! c)) k\<rparr>"]
    by (simp add: slot_ok_def topslot_def ctx_grows_def)
qed (simp add: UpdateTopSlot_def upd_ctx_def)

subsection \<open>Operations that add code\<close>

text \<open>Changes of the code of one context.\<close>

lemma code_change_ok:
  assumes ok: "cs_ok s" and c: "c < length (cs_ctxs s)" and g: "ctx_grows (cs_ctxs s ! c) t"
    and s': "s' = s\<lparr>cs_ctxs := (cs_ctxs s)[c := t]\<rparr>" and code: "code_ok s' c"
  shows "cs_ok s' \<and> translates c s s'"
proof -
  have e: "extends s s'" using grows_update [of ctx_grows, OF grow_rels_refl(3) g] by (simp add: s' extends_def grows_refl)
  have "cs_ok s'"
    by (rule cs_ok_extends [OF e fresh_ctxs_same ok])
      (use code c in \<open>auto simp: s' uvs_def code_of_def nth_list_update\<close>)
  moreover have "translates c s s'" using e by (simp add: translates_def s' code_of_def)
  ultimately show ?thesis by simp
qed

text \<open>The facts on which the bytecodes of a context depend.\<close>

lemma bc_ok_ctx_update:
  assumes "c < length (cs_ctxs s)" "tc_historyTopSlot t = tc_historyTopSlot (cs_ctxs s ! c)" "tc_resultBCtx t = tc_resultBCtx (cs_ctxs s ! c)"
  shows "bc_ok (s\<lparr>cs_ctxs := (cs_ctxs s)[c := t]\<rparr>) c bc \<longleftrightarrow> bc_ok s c bc"
  using assms by (simp add: bc_ok_def topslot_def uvs_def)

lemma pending_append: "pending (bcs @ [(bc, None)]) = pending bcs \<union> (if is_branch bc then {length bcs} else {})"
  by (auto simp: pending_def nth_append less_Suc_eq)

lemma get_ok_fst: "map fst bcs' = map fst bcs \<Longrightarrow> get_ok bcs' off = get_ok bcs off"
  unfolding get_ok_def by (metis length_map nth_map)

lemma get_ok_append: "get_ok bcs off \<Longrightarrow> get_ok (bcs @ xs) off"
  by (auto simp: get_ok_def nth_append)

text \<open>Adding a bytecode, with the record of its position when it reads an upvalue.\<close>

lemma add_bytecode:
  assumes ok: "cs_ok s" and c: "c < length (cs_ctxs s)" and bc: "bc_ok s c bc"
    and offs: "set offs \<subseteq> set (tc_allUpvalueGetBytecodes (cs_ctxs s ! c)) \<union> {off. off = length (code_of s c) \<and> (\<exists>ord d. bc = BC_UpvalueGetMutable ord d)}"
    and all: "set (tc_allUpvalueGetBytecodes (cs_ctxs s ! c)) \<subseteq> set offs" "is_get bc \<Longrightarrow> length (code_of s c) \<in> set offs"
    and s': "s' = s\<lparr>cs_ctxs := (cs_ctxs s)[c := (cs_ctxs s ! c)\<lparr>tc_builder := code_of s c @ [(bc, None)], tc_allUpvalueGetBytecodes := offs\<rparr>]\<rparr>"
  shows "cs_ok s' \<and> translates c s s' \<and> code_of s' c = code_of s c @ [(bc, None)]"
proof -
  have co: "code_ok s c" using ok_at(5) [OF ok c] .
  have "code_ok s' c"
    unfolding code_ok_def Let_def
  proof (intro conjI ballI allI impI)
    fix x assume "x \<in> set (tc_builder (cs_ctxs s' ! c))"
    then have "fst x = bc \<or> bc_ok s c (fst x)" using co c by (auto simp: s' code_ok_def code_of_def Let_def)
    then show "bc_ok s' c (fst x)" using bc c by (auto simp: s' bc_ok_ctx_update)
  next
    fix off assume "off \<in> set (tc_allUpvalueGetBytecodes (cs_ctxs s' ! c))"
    then have "off \<in> set (tc_allUpvalueGetBytecodes (cs_ctxs s ! c)) \<or> off = length (code_of s c) \<and> (\<exists>ord d. bc = BC_UpvalueGetMutable ord d)"
      using offs c by (auto simp: s')
    then show "get_ok (tc_builder (cs_ctxs s' ! c)) off"
      using co c by (auto simp: s' code_ok_def code_of_def Let_def get_ok_append) (simp add: get_ok_def)
  next
    fix i assume i: "i < length (tc_builder (cs_ctxs s' ! c))" "is_get (fst (tc_builder (cs_ctxs s' ! c) ! i))"
    show "i \<in> set (tc_allUpvalueGetBytecodes (cs_ctxs s' ! c))"
    proof (cases "i < length (code_of s c)")
      case True
      then have "i \<in> set (tc_allUpvalueGetBytecodes (cs_ctxs s ! c))" using i co c by (simp add: s' code_ok_def code_of_def Let_def nth_append)
      then show ?thesis using all(1) c by (auto simp: s')
    next
      case False
      then have "i = length (code_of s c)" "is_get bc" using i c by (simp_all add: s' nth_append)
      then show ?thesis using all(2) c by (simp add: s')
    qed
  next
    fix x d assume "x \<in> set (tc_builder (cs_ctxs s' ! c))" "snd x = Some d"
    then have "d \<le> length (code_of s c)" using co c by (auto simp: s' code_ok_def code_of_def Let_def)
    then show "d \<le> length (tc_builder (cs_ctxs s' ! c))" using c by (simp add: s')
  qed
  moreover have "ctx_grows (cs_ctxs s ! c) ((cs_ctxs s ! c)\<lparr>tc_builder := code_of s c @ [(bc, None)], tc_allUpvalueGetBytecodes := offs\<rparr>)"
    by (simp add: ctx_grows_def code_of_def)
  ultimately show ?thesis using code_change_ok [OF ok c _ s'] c by (simp add: s' code_of_def)
qed

lemma ends_append: "is_exit bc \<Longrightarrow> \<forall>x \<in> set bcs. \<forall>d. snd x = Some d \<longrightarrow> d \<le> length bcs \<Longrightarrow> ends (bcs @ [(bc, None)])"
  by (fastforce simp: ends_def)

definition bc_at :: "nat \<Rightarrow> bytecode \<Rightarrow> CS \<Rightarrow> bool" where
  "bc_at c bc s \<longleftrightarrow> bc_ok s c bc"

lemma emit_run: "emit c bc s = Inr (x, s') \<longleftrightarrow>
   s' = s\<lparr>cs_ctxs := (cs_ctxs s)[c := (cs_ctxs s ! c)\<lparr>tc_builder := code_of s c @ [(bc, None)], tc_allUpvalueGetBytecodes := tc_allUpvalueGetBytecodes (cs_ctxs s ! c)\<rparr>]\<rparr>"
  by (auto simp: emit_def upd_ctx_def code_of_def)

lemma tri_emit_exit:
  assumes "\<And>s. cs_ok s \<Longrightarrow> c < length (cs_ctxs s) \<Longrightarrow> P s \<Longrightarrow> bc_ok s c bc" and "\<not> is_branch bc" and "\<not> is_get bc"
  shows "tri c P I (emit c bc) (\<lambda>x s. is_exit bc \<longrightarrow> ends (code_of s c)) (\<lambda>x. I)"
proof (rule triI)
  fix s x s' assume s: "cs_ok s" "c < length (cs_ctxs s)" "P s" and run: "emit c bc s = Inr (x, s')"
  have a: "cs_ok s' \<and> translates c s s' \<and> code_of s' c = code_of s c @ [(bc, None)]"
    by (rule add_bytecode [OF s(1,2) assms(1) [OF s]]) (use run assms(3) in \<open>auto simp: emit_run\<close>)
  moreover have "is_exit bc \<longrightarrow> ends (code_of s' c)"
    using a ok_at(5) [OF s(1,2)] by (auto simp: code_ok_def code_of_def Let_def intro!: ends_append)
  ultimately show "cs_ok s' \<and> translates c s s' \<and> (is_exit bc \<longrightarrow> ends (code_of s' c)) \<and> pending (code_of s' c) \<subseteq> (pending (code_of s c) - I) \<union> I"
    using assms(2) by (auto simp: pending_append)
qed (simp add: emit_def upd_ctx_def)

lemma tri_emit:
  assumes "\<And>s. cs_ok s \<Longrightarrow> c < length (cs_ctxs s) \<Longrightarrow> P s \<Longrightarrow> bc_ok s c bc" and "\<not> is_branch bc" and "\<not> is_get bc"
  shows "tri c P I (emit c bc) (\<lambda>x s. True) (\<lambda>x. I)"
  by (rule tri_weaken [OF tri_emit_exit [of c P, OF assms]]) auto

text \<open>A branch is emitted without its target, which is set later.\<close>

definition pos_ok :: "nat \<Rightarrow> nat \<Rightarrow> CS \<Rightarrow> bool" where
  "pos_ok c i s \<longleftrightarrow> i \<le> length (code_of s c)"

lemma stable_pos_ok [stables]: "stable c (pos_ok c i)"
proof (rule stableI)
  fix s s' assume e: "c < length (cs_ctxs s)" "extends s s'" and "pos_ok c i s"
  then show "pos_ok c i s'" using extends_facts(12) [OF e(2,1)] by (simp add: pos_ok_def)
qed

lemma tri_GetCurLength [tris]: "tri c P I (GetCurLength c) (\<lambda>i s. pos_ok c i s) (\<lambda>x. I)"
  by (rule tri_quiet) (auto simp: GetCurLength_def get_ctx_def pos_ok_def code_of_def bindS_def)

definition emit_branch :: "nat \<Rightarrow> bytecode \<Rightarrow> nat cop" where
  "emit_branch c bc = bindS (GetCurLength c) (\<lambda>loc. bindS (emit c bc) (\<lambda>_. retS loc))"

lemma emit_branch_eq: "bindS (GetCurLength c) (\<lambda>loc. bindS (emit c bc) (\<lambda>_. f loc)) = bindS (emit_branch c bc) f"
  by (rule ext) (simp add: emit_branch_def bindS_def bindR_assoc split_def)

lemma tri_emit_branch:
  assumes "\<And>s. cs_ok s \<Longrightarrow> c < length (cs_ctxs s) \<Longrightarrow> P s \<Longrightarrow> bc_ok s c bc" and "\<not> is_get bc"
  shows "tri c P I (emit_branch c bc) (\<lambda>x s. True) (\<lambda>loc. insert loc I)"
proof (rule triI)
  fix s x s' assume s: "cs_ok s" "c < length (cs_ctxs s)" "P s" and run: "emit_branch c bc s = Inr (x, s')"
  have em: "emit c bc s = Inr ((), s')" and x: "x = length (code_of s c)"
    using run s(2) by (auto simp: emit_branch_def GetCurLength_def get_ctx_def code_of_def bindS_def bindR_eq_Inr)
  have "cs_ok s' \<and> translates c s s' \<and> code_of s' c = code_of s c @ [(bc, None)]"
    by (rule add_bytecode [OF s(1,2) assms(1) [OF s]]) (use em assms(2) in \<open>auto simp: emit_run\<close>)
  then show "cs_ok s' \<and> translates c s s' \<and> True \<and> pending (code_of s' c) \<subseteq> (pending (code_of s c) - I) \<union> insert x I"
    using x by (auto simp: pending_append)
qed (auto simp: emit_branch_def GetCurLength_def get_ctx_def emit_def upd_ctx_def bindS_def)

lemma pending_update: "pending (bcs[i := (fst (bcs ! i), Some d)]) \<subseteq> pending bcs - {i}"
proof
  fix j assume j: "j \<in> pending (bcs[i := (fst (bcs ! i), Some d)])"
  then have "j \<noteq> i" by (auto simp: pending_def)
  then show "j \<in> pending bcs - {i}" using j by (auto simp: pending_def)
qed

lemma set_target_ok:
  assumes ok: "cs_ok s" and c: "c < length (cs_ctxs s)" and d: "pos_ok c d s"
    and s': "s' = s\<lparr>cs_ctxs := (cs_ctxs s)[c := (cs_ctxs s ! c)\<lparr>tc_builder := (code_of s c)[i := (fst (code_of s c ! i), Some d)]\<rparr>]\<rparr>"
  shows "cs_ok s' \<and> translates c s s' \<and> pending (code_of s' c) \<subseteq> pending (code_of s c) - {i}"
proof -
  have co: "code_ok s c" using ok_at(5) [OF ok c] .
  let ?bcs = "(code_of s c)[i := (fst (code_of s c ! i), Some d)]"
  have fsts: "map fst ?bcs = map fst (code_of s c)"
    by (rule nth_equalityI) (simp_all add: list_update_keeps [where f = fst])
  have "code_ok s' c"
    unfolding code_ok_def Let_def
  proof (intro conjI ballI allI impI)
    fix x assume "x \<in> set (tc_builder (cs_ctxs s' ! c))"
    then have "fst x \<in> set (map fst ?bcs)" using c by (simp add: s')
    then have "fst x \<in> fst ` set (code_of s c)" by (simp only: fsts set_map)
    then have "bc_ok s c (fst x)" using co by (auto simp: code_ok_def code_of_def Let_def)
    then show "bc_ok s' c (fst x)" using c by (simp add: s' bc_ok_ctx_update)
  next
    fix off assume "off \<in> set (tc_allUpvalueGetBytecodes (cs_ctxs s' ! c))"
    then have "get_ok (code_of s c) off" using co c by (simp add: s' code_ok_def code_of_def Let_def)
    then show "get_ok (tc_builder (cs_ctxs s' ! c)) off" using c get_ok_fst [OF fsts] by (simp add: s')
  next
    fix j assume j: "j < length (tc_builder (cs_ctxs s' ! c))" "is_get (fst (tc_builder (cs_ctxs s' ! c) ! j))"
    then have "j < length (code_of s c)" "is_get (fst (code_of s c ! j))" using c by (simp_all add: s' list_update_keeps [where f = fst])
    then show "j \<in> set (tc_allUpvalueGetBytecodes (cs_ctxs s' ! c))" using co c by (simp add: s' code_ok_def code_of_def Let_def)
  next
    fix x d' assume x: "x \<in> set (tc_builder (cs_ctxs s' ! c))" "snd x = Some d'"
    then have "x \<in> insert (fst (code_of s c ! i), Some d) (set (code_of s c))"
      using c set_update_subset_insert by (fastforce simp: s')
    then have "d' \<le> length (code_of s c)" using co d x(2) by (auto simp: code_ok_def code_of_def Let_def pos_ok_def)
    then show "d' \<le> length (tc_builder (cs_ctxs s' ! c))" using c by (simp add: s')
  qed
  moreover have "ctx_grows (cs_ctxs s ! c) ((cs_ctxs s ! c)\<lparr>tc_builder := ?bcs\<rparr>)" by (simp add: ctx_grows_def code_of_def)
  ultimately show ?thesis using code_change_ok [OF ok c _ s'] c pending_update by (simp add: s' code_of_def)
qed

lemma tri_branch_to [tris]:
  assumes "\<And>s. cs_ok s \<Longrightarrow> c < length (cs_ctxs s) \<Longrightarrow> P s \<Longrightarrow> pos_ok c d s"
  shows "tri c P I (branch_to E c i d) (\<lambda>x s. True) (\<lambda>x. I - {i})"
proof (rule triI)
  fix s assume s: "cs_ok s" "c < length (cs_ctxs s)" "P s"
  let ?s = "s\<lparr>cs_ctxs := (cs_ctxs s)[c := (cs_ctxs s ! c)\<lparr>tc_builder := (code_of s c)[i := (fst (code_of s c ! i), Some d)]\<rparr>]\<rparr>"
  have run: "branch_to E c i d s = Inr (x, s') \<Longrightarrow> s' = ?s" for x s'
    using s(2) by (auto simp: branch_to_def SetBranchTarget_def get_ctx_def upd_ctx_def code_of_def bindS_def Let_def split: if_splits)
  show "branch_to E c i d s \<noteq> Inl OutOfFuel"
    using s(2) by (auto simp: branch_to_def SetBranchTarget_def get_ctx_def upd_ctx_def bindS_def Let_def)
  fix x s' assume "branch_to E c i d s = Inr (x, s')"
  then show "cs_ok s' \<and> translates c s s' \<and> True \<and> pending (code_of s' c) \<subseteq> (pending (code_of s c) - I) \<union> (I - {i})"
    using set_target_ok [OF s(1,2) assms [OF s] refl, of i] run by auto
qed

subsection \<open>Upvalues and names\<close>

definition fn_at :: "nat \<Rightarrow> CS \<Rightarrow> bool" where
  "fn_at w s \<longleftrightarrow> w < length (cs_bctxs s) \<and> owner s w = w"

definition uv_at :: "nat \<Rightarrow> nat \<Rightarrow> nat \<Rightarrow> CS \<Rightarrow> bool" where
  "uv_at w v i s \<longleftrightarrow> w < length (cs_bctxs s) \<and> i < length (uvs s w) \<and> uvi_varInfo (uvs s w ! i) = Some v"

lemma stable_fn_at [stables]: "stable c (fn_at w)"
proof (rule stableI)
  fix s s' assume e: "extends s s'" and "fn_at w s"
  then show "fn_at w s'" using extends_facts(1) [OF e, of w] extends_facts(8) [OF e] by (simp add: fn_at_def)
qed

lemma stable_uv_at [stables]: "stable c (uv_at w v i)"
proof (rule stableI)
  fix s s' assume e: "extends s s'" and u: "uv_at w v i s"
  then have w: "w < length (cs_bctxs s)" by (simp add: uv_at_def)
  then show "uv_at w v i s'" using u extends_facts(3) [OF e w] extends_facts(8) [OF e] by (auto simp: uv_at_def nth_append)
qed

lemma push_uv_ok:
  assumes ok: "cs_ok s" and w: "fn_at w s" and p: "parent s w \<noteq> None" and uv: "uv_ok s w uv v" "uvi_varInfo uv = Some v"
    and s': "s' = s\<lparr>cs_bctxs := (cs_bctxs s)[w := (cs_bctxs s ! w)\<lparr>bt_uvs := uvs s w @ [uv], bt_uvOrdMap := (bt_uvOrdMap (cs_bctxs s ! w))(v \<mapsto> length (uvs s w))\<rparr>]\<rparr>"
  shows "cs_ok s' \<and> translates c s s' \<and> uv_at w v (length (uvs s w)) s' \<and> code_of s' c = code_of s c"
proof -
  have wl: "w < length (cs_bctxs s)" and ow: "owner s w = w" using w by (simp_all add: fn_at_def)
  have u: "uvs s' w = uvs s w @ [uv]" using wl by (simp add: s' uvs_def)
  have "bctx_grows (cs_bctxs s ! w) ((cs_bctxs s ! w)\<lparr>bt_uvs := uvs s w @ [uv], bt_uvOrdMap := (bt_uvOrdMap (cs_bctxs s ! w))(v \<mapsto> length (uvs s w))\<rparr>)"
    by (simp add: bctx_grows_def uvs_def)
  then have e: "extends s s'" using grows_update [of bctx_grows, OF grow_rels_refl(2)] by (simp add: s' extends_def grows_refl)
  have old: "uvs_ok s w" using ok_at(2) [OF ok wl] .
  then have ne: "uvs s w \<noteq> [] \<and> self_uv (hd (uvs s w))" using p ow by (simp add: uvs_ok_def)
  have om: "\<And>v i. bt_uvOrdMap (cs_bctxs s ! w) v = Some i \<Longrightarrow> i < length (uvs s w) \<and> uvi_varInfo (uvs s w ! i) = Some v"
    using old by (simp add: uvs_ok_def)
  have "uvs_ok s' w"
    unfolding uvs_ok_def
  proof (intro conjI)
    show "parent s' w = None \<or> owner s' w \<noteq> w \<longrightarrow> uvs s' w = []" using p ow extends_facts(1,2) [OF e wl] by auto
    show "parent s' w \<noteq> None \<and> owner s' w = w \<longrightarrow> uvs s' w \<noteq> [] \<and> self_uv (hd (uvs s' w))" using ne u by simp
    show "\<forall>u \<in> set (tl (uvs s' w)). \<exists>v. uvi_varInfo u = Some v \<and> uv_ok s' w u v"
      using old uv uv_ok_extends [OF e ok wl] ne u by (auto simp: uvs_ok_def)
    show "\<forall>v i. bt_uvOrdMap (cs_bctxs s' ! w) v = Some i \<longrightarrow> i < length (uvs s' w) \<and> uvi_varInfo (uvs s' w ! i) = Some v"
      using om uv(2) wl u by (fastforce simp: s' nth_append split: if_splits)
  qed
  then have old: "uvs s' b = uvs s b \<and> bt_uvOrdMap (cs_bctxs s' ! b) = bt_uvOrdMap (cs_bctxs s ! b) \<or> uvs_ok s' b" for b
    by (cases "b = w") (simp_all add: s' uvs_def)
  have "cs_ok s'"
    by (rule cs_ok_extends [OF e fresh_ctxs_same ok _ old]) (simp_all add: s' code_of_def)
  moreover have "translates c s s'" using e by (simp add: translates_def s' code_of_def)
  moreover have "uv_at w v (length (uvs s w)) s'" using u uv(2) wl by (simp add: uv_at_def s')
  ultimately show ?thesis by (simp add: s' code_of_def)
qed

lemma tri_push_uv:
  assumes "\<And>s. cs_ok s \<Longrightarrow> P s \<Longrightarrow> fn_at w s \<and> parent s w \<noteq> None \<and> uv_ok s w uv v" "uvi_varInfo uv = Some v"
  shows "tri c P I (push_uv w v uv) (\<lambda>i s. uv_at w v i s) (\<lambda>x. I)"
proof (rule triI)
  fix s x s' assume s: "cs_ok s" "c < length (cs_ctxs s)" "P s" and run: "push_uv w v uv s = Inr (x, s')"
  note a = assms(1) [OF s(1,3)]
  have x: "x = length (uvs s w)" and s': "s' = s\<lparr>cs_bctxs := (cs_bctxs s)[w := (cs_bctxs s ! w)\<lparr>bt_uvs := uvs s w @ [uv],
      bt_uvOrdMap := (bt_uvOrdMap (cs_bctxs s ! w))(v \<mapsto> length (uvs s w))\<rparr>]\<rparr>"
    using run a by (auto simp: push_uv_def get_bctx_def upd_bctx_def fn_at_def uvs_def bindS_def)
  then show "cs_ok s' \<and> translates c s s' \<and> uv_at w v x s' \<and> pending (code_of s' c) \<subseteq> (pending (code_of s c) - I) \<union> I"
    using push_uv_ok [OF s(1) _ _ _ assms(2) s', of c] a by auto
qed (auto simp: push_uv_def get_bctx_def upd_bctx_def bindS_def)

lemma bctx_at_parent: "bctx_at b x s \<Longrightarrow> bt_trueParent x = Some p \<Longrightarrow> parent s b = Some p"
  by (simp add: bctx_at_def)

lemma bctx_grows_flags [simp]:
  "bctx_grows x (x\<lparr>bt_hasCapturedLocal := f\<rparr>)" "bctx_grows x (x\<lparr>bt_blockMayThrow := f\<rparr>)" "bctx_grows x (x\<lparr>bt_containsThrowableBlocks := f\<rparr>)"
  by (simp_all add: bctx_grows_def)

text \<open>What is known after the context of a block has been read, the map of its upvalues included.\<close>

lemma tri_get_uvmap:
  assumes "stable c P" and "\<And>x. tri c (\<lambda>s. P s \<and> bctx_at b x s \<and> (\<forall>i. bt_uvOrdMap x v = Some i \<longrightarrow> uv_at b v i s)) I (f x) Q J"
  shows "tri c P I (bindS (get_bctx b) f) Q J"
proof (rule tri_bind [OF assms(1)])
  show "tri c P I (get_bctx b) (\<lambda>x s. bctx_at b x s \<and> (\<forall>i. bt_uvOrdMap x v = Some i \<longrightarrow> uv_at b v i s)) (\<lambda>x. I)"
  proof (rule tri_quiet)
    fix s x s' assume s: "cs_ok s" "get_bctx b s = Inr (x, s')"
    then have "b < length (cs_bctxs s)" "x = cs_bctxs s ! b" "s' = s" by (auto simp: get_bctx_def split: if_splits)
    then show "quiet s s' \<and> bctx_at b x s' \<and> (\<forall>i. bt_uvOrdMap x v = Some i \<longrightarrow> uv_at b v i s')"
      using ok_at(2) [OF s(1)] by (simp add: bctx_at_def owner_def parent_def uvs_ok_def uv_at_def)
  qed (auto simp: get_bctx_def)
qed (rule assms(2))

lemma def_owner_at: "var_at v x s \<Longrightarrow> bctx_at (lv_bctx x) d s \<Longrightarrow> def_owner s v = bt_owningContext d"
  by (simp add: var_at_def bctx_at_def def_owner_def)

lemma tri_push_new:
  assumes P: "stable c P" "\<And>s. P s \<Longrightarrow> fn_at w s \<and> var_at v x s \<and> bctx_at (lv_bctx x) d s \<and> parent s w = Some p"
    and m: "tri c (\<lambda>s. fn_at w s \<and> parent s w = Some p) I m (\<lambda>i s. uv_at p v i s) (\<lambda>x. I)"
  shows "tri c P I (if p = bt_owningContext d
       then push_uv w v \<lparr>uvi_isParentLocal = True, uvi_parentLocalSlot = Some (lv_slotOrd x), uvi_parentUpvalueOrd = None, uvi_varInfo = Some v\<rparr>
       else bindS m (\<lambda>parentUvOrd. push_uv w v
              \<lparr>uvi_isParentLocal = False, uvi_parentLocalSlot = None, uvi_parentUpvalueOrd = Some parentUvOrd, uvi_varInfo = Some v\<rparr>))
      (\<lambda>i s. uv_at w v i s) (\<lambda>x. I)"
proof (rule tri_if)
  assume p: "p = bt_owningContext d"
  have "uv_ok s w \<lparr>uvi_isParentLocal = True, uvi_parentLocalSlot = Some (lv_slotOrd x), uvi_parentUpvalueOrd = None, uvi_varInfo = Some v\<rparr> v" if "P s" for s
    using P(2) [OF that] p def_owner_at [of v x s d] by (simp add: uv_ok_def var_at_def)
  then show "tri c P I (push_uv w v \<lparr>uvi_isParentLocal = True, uvi_parentLocalSlot = Some (lv_slotOrd x), uvi_parentUpvalueOrd = None,
      uvi_varInfo = Some v\<rparr>) (\<lambda>i s. uv_at w v i s) (\<lambda>x. I)"
    using P(2) by (intro tri_push_uv) auto
next
  assume p: "p \<noteq> bt_owningContext d"
  have uv: "uv_ok s w \<lparr>uvi_isParentLocal = False, uvi_parentLocalSlot = None, uvi_parentUpvalueOrd = Some i, uvi_varInfo = Some v\<rparr> v"
    if "P s \<and> uv_at p v i s" for s i
    using P(2) [of s] that p def_owner_at [of v x s d] by (auto simp: uv_ok_def var_at_def uv_at_def)
  have m': "tri c P I m (\<lambda>i s. uv_at p v i s) (\<lambda>x. I)" using P(2) by (intro tri_pre [OF m]) auto
  show "tri c P I (bindS m (\<lambda>parentUvOrd. push_uv w v \<lparr>uvi_isParentLocal = False, uvi_parentLocalSlot = None,
      uvi_parentUpvalueOrd = Some parentUvOrd, uvi_varInfo = Some v\<rparr>)) (\<lambda>i s. uv_at w v i s) (\<lambda>x. I)"
    by (rule tri_bind [OF P(1) m'], rule tri_push_uv) (use P(2) uv in auto)
qed

lemma tri_AddUpvalue:
  "w < n \<Longrightarrow> tri c (fn_at w) I (AddUpvalue n w v) (\<lambda>i s. uv_at w v i s) (\<lambda>x. I)"
proof (induction n arbitrary: w)
  case (Suc n)
  have rec: "tri c (\<lambda>s. fn_at w s \<and> parent s w = Some p) I (AddUpvalue n p v) (\<lambda>i s. uv_at p v i s) (\<lambda>x. I)" for p
  proof (cases "p < n")
    case True
    show ?thesis by (rule tri_pre [OF Suc.IH [OF True]]) (use parent_lt in \<open>fastforce simp: fn_at_def\<close>)
  next
    case False
    have "\<not> (cs_ok s \<and> fn_at w s \<and> parent s w = Some p)" for s using parent_lt [of s w p] False Suc.prems by (auto simp: fn_at_def)
    then show ?thesis unfolding tri_def by blast
  qed
  show ?case
    unfolding AddUpvalue.simps
    apply (rule tri_bind [OF _ tri_get_var], intro stables)
    apply (rule tri_bind [OF _ tri_upd_bctx], intro stables, simp)
    apply (rule tri_bind [OF _ tri_get_bctx], intro stables)
    apply (rule tri_get_uvmap [where v = v], intro stables)
    subgoal for x _ d y
    proof (cases "bt_uvOrdMap y v")
      case None
      show ?thesis
      proof (cases "bt_trueParent y")
        case (Some p)
        show ?thesis unfolding None Some option.case
          by (rule tri_push_new [OF _ _ rec]) (intro stables | simp add: bctx_at_parent [OF _ Some])+
      qed (simp add: None tri_fail)
    qed (auto intro: tri_ret)
    done
qed simp

lemma tri_assume:
  assumes "\<And>s. cs_ok s \<Longrightarrow> c < length (cs_ctxs s) \<Longrightarrow> P s \<Longrightarrow> k" and "k \<Longrightarrow> tri c P I m Q J"
  shows "tri c P I m Q J"
  using assms unfolding tri_def by blast

text \<open>The block whose code is being translated belongs to the function of the context.\<close>

definition here :: "nat \<Rightarrow> nat \<Rightarrow> CS \<Rightarrow> bool" where
  "here c b s \<longleftrightarrow> b < length (cs_bctxs s) \<and> tc_resultBCtx (cs_ctxs s ! c) = owner s b"

lemma stable_here [stables]: "stable c (here c b)"
proof (rule stableI)
  fix s s' assume e: "c < length (cs_ctxs s)" "extends s s'" and "here c b s"
  then show "here c b s'" using extends_facts(1) [OF e(2), of b] extends_facts(5) [OF e(2,1)] extends_facts(8) [OF e(2)] by (simp add: here_def)
qed

definition vr_ok :: "nat \<Rightarrow> VarResolveResult \<Rightarrow> CS \<Rightarrow> bool" where
  "vr_ok c vr s \<longleftrightarrow> (fst vr = VU_Local \<longrightarrow> snd vr \<le> topslot s c) \<and> (fst vr = VU_Upvalue \<longrightarrow> snd vr < length (uvs s (tc_resultBCtx (cs_ctxs s ! c))))"

lemma stable_vr_ok [stables]: "stable c (vr_ok c vr)"
proof (rule stableI)
  fix s s' assume ok: "cs_ok s" and e: "c < length (cs_ctxs s)" "extends s s'" and v: "vr_ok c vr s"
  have w: "tc_resultBCtx (cs_ctxs s ! c) < length (cs_bctxs s)" using ok_at(4) [OF ok e(1)] by (simp add: place_ok_def Let_def)
  show "vr_ok c vr s'"
    using v extends_facts(4,5) [OF e(2,1)] extends_facts(3) [OF e(2) w] by (auto simp: vr_ok_def)
qed

lemma here_owner: "here c b s \<Longrightarrow> bctx_at b x s \<Longrightarrow> tc_resultBCtx (cs_ctxs s ! c) = bt_owningContext x"
  by (simp add: here_def bctx_at_def)

lemma same_place_notify [simp]: "same_place x (NotifyUse x)" "same_place x (NotifyWrite k x)"
  by (simp_all add: same_place_def NotifyUse_def NotifyWrite_def Let_def)

lemma tri_notify: "tri c P I (if k then upd_var v NotifyUse else if k' then upd_var v (NotifyWrite k'') else retS ()) (\<lambda>x s. True) (\<lambda>x. I)"
  by (simp add: tri_upd_var tri_ret)

lemma tri_bctx_count: 
  "tri c (\<lambda>s. P s \<and> bctx_at b x s) I (getS (\<lambda>s. length (cs_bctxs s))) (\<lambda>n s. bt_owningContext x < n) (\<lambda>x. I)"
  by (rule tri_quiet) (use owner_lt in \<open>fastforce simp: bctx_at_def\<close>)+

lemma local_slot_le:
  assumes ok: "cs_ok s" and c: "c < length (cs_ctxs s)" and h: "here c b s" "var_at v x s" "bctx_at (lv_bctx x) d s" "bctx_at b y s"
    and same: "bt_owningContext d = bt_owningContext y"
  shows "lv_slotOrd x \<le> topslot s c"
proof -
  have v: "var_ok s v" using ok_at(3) [OF ok] h(2) by (simp add: var_at_def)
  have "tc_resultBCtx (cs_ctxs s ! c) = def_owner s v" using here_owner [OF h(1,4)] def_owner_at [OF h(2,3)] same by simp
  then show ?thesis using v c h(2) by (simp add: var_ok_def var_at_def)
qed

lemma tri_resolve_var [tris]: "tri c (here c b) I (resolve_var b v mode) (vr_ok c) (\<lambda>x. I)"
  unfolding resolve_var_def
  apply (rule tri_bind [OF _ tri_get_var], intro stables)
  apply (rule tri_bind [OF _ tri_notify], intro stables)
  apply (rule tri_bind [OF _ tri_get_bctx], intro stables)
  apply (rule tri_bind [OF _ tri_get_bctx], intro stables)
  apply (rule tri_if)
  subgoal for v0 _ d x
    apply (rule tri_bind [OF _ tri_bctx_count], intro stables)
    subgoal for n
      apply (rule tri_assume [of c _ "bt_owningContext x < n"], simp)
      apply (rule tri_bind [OF _ tri_pre [OF tri_AddUpvalue]], intro stables, assumption)
       apply (use owner_lt owner_owner in \<open>fastforce simp: fn_at_def bctx_at_def\<close>)
      apply (rule tri_ret, auto simp: vr_ok_def uv_at_def here_owner)
      done
    done
  subgoal for v0 _ d x
    by (rule tri_ret) (auto simp: vr_ok_def intro: local_slot_le)
  done

subsection \<open>Constants and names\<close>

named_theorems unfuelleds

lemma unfuelled_basics [unfuelleds]:
  "unfuelled (retS x)" "unfuelled (getS f)" "unfuelled (modS g)" "err \<noteq> OutOfFuel \<Longrightarrow> unfuelled (failS err)"
  by (simp_all add: unfuelled_def)

lemma unfuelled_bind [unfuelleds]: "unfuelled m \<Longrightarrow> (\<And>x. unfuelled (f x)) \<Longrightarrow> unfuelled (bindS m f)"
  by (auto simp: unfuelled_def bindS_def bindR_eq_Inl)

lemma unfuelled_heap [unfuelleds]:
  "unfuelled (the_obj a)" "unfuelled (set_obj a x)" "unfuelled (new_obj x)" "unfuelled (InternV H str)" "unfuelled (liftS (array_of x))"
  by (auto simp: unfuelled_def the_obj_def set_obj_def new_obj_def InternV_def array_of_def liftS_def bindR_eq_Inl
      split: prod.splits payload.splits)

lemma unfuelled_alloc [unfuelleds]: "unfuelled (AllocateString str)" "unfuelled (AllocateArray n)"
  unfolding AllocateString_def AllocateArray_def by (intro unfuelleds)+

lemma unfuelled_option [unfuelleds]: "unfuelled m \<Longrightarrow> (\<And>x. unfuelled (f x)) \<Longrightarrow> unfuelled (case r of None \<Rightarrow> m | Some x \<Rightarrow> f x)"
  by (cases r) simp_all

lemma unfuelled_interned [unfuelleds]: "unfuelled (GetInternedString i)" "unfuelled (GetInternedSymbol i)"
  unfolding GetInternedString_def GetInternedSymbol_def by (intro unfuelleds; simp)+

lemma unfuelled_global [unfuelleds]: "unfuelled (GetSlotForGlobal H str)"
  unfolding GetSlotForGlobal_def by (intro unfuelleds) (simp add: unfuelled_def Let_def)

lemma unfuelled_constant [unfuelleds]: "unfuelled (CreateConstantNonArray e)"
  unfolding CreateConstantNonArray_def by (cases e) (simp_all, (intro unfuelleds; simp)+)

lemma unfuelled_array [unfuelleds]: "unfuelled (CreateConstantArray es)" "unfuelled (put_constants r i es)" "unfuelled (CreateConstant e)"
proof (induction es and r i es and e rule: CreateConstantArray_put_constants_CreateConstant.induct)
qed (simp_all add: put_element_def unfuelleds, simp add: unfuelled_def)

lemma tri_getS_any: "tri c P I (getS f) (\<lambda>x s. True) (\<lambda>x. I)"
  by (rule tri_quiet) auto

lemma tri_resolve_global: "tri c (\<lambda>s. True) I (resolve_global E varName mode) (vr_ok c) (\<lambda>x. I)"
  unfolding resolve_global_def
  apply (intro tri_if)
      apply (rule tri_ret; simp add: vr_ok_def)+
   apply (rule tri_bind [OF _ tri_liftV], intro stables, intro unfuelleds)
   apply (rule tri_ret; simp add: vr_ok_def)
  apply (simp add: tri_fail)
  done

lemma tri_ResolveVariable:
  assumes P: "stable c P" "\<And>s. P s \<Longrightarrow> here c b s"
  shows "tri c P I (ResolveVariable E b varName mode) (vr_ok c) (\<lambda>x. I)"
proof -
  have vars: "tri c P I (case vars of var # _ \<Rightarrow> resolve_var b var mode
      | [] \<Rightarrow> (case ce_fieldMap E varName of Some ord \<Rightarrow> retS (VU_Field, ord) | None \<Rightarrow> resolve_global E varName mode)) (vr_ok c) (\<lambda>x. I)" for vars
  proof (cases vars)
    case Nil
    then show ?thesis
      by (auto split: option.split intro!: tri_ret tri_pre [OF tri_resolve_global] simp: vr_ok_def)
  next
    case (Cons v vs)
    then show ?thesis using P(2) by (auto intro!: tri_pre [OF tri_resolve_var])
  qed
  show ?thesis
    unfolding ResolveVariable_def
    by (intro tri_if tri_fail, simp, (rule tri_ret; simp add: vr_ok_def), rule tri_bind [OF P(1) tri_getS_any], rule tri_pre [OF vars], simp)
qed

end
