(* ===== verification/CompileWf.thy ===== *)
theory CompileWf
  imports CompileOk
begin

section \<open>The compiler: every part keeps the invariant\<close>

text \<open>
  The judgement \<open>tri\<close> for each function of the compiler, in the order of the code. \<open>good N cx\<close> states it for the
  translation of the expressions smaller than \<open>N\<close>, and \<open>CompileExpression\<close> has it by induction on its fuel.
\<close>

subsection \<open>Rules\<close>

lemma tri_keep:
  assumes "stable c P" "\<And>s. cs_ok s \<Longrightarrow> c < length (cs_ctxs s) \<Longrightarrow> P s \<Longrightarrow> Q' s" "tri c P I m (\<lambda>x s. True) J"
  shows "tri c P I m (\<lambda>x. Q') J"
proof (rule triI)
  fix s assume s: "cs_ok s" "c < length (cs_ctxs s)" "P s"
  show "m s \<noteq> Inl OutOfFuel" using tri_fuel [OF assms(3) s] .
  fix x s' assume "m s = Inr (x, s')"
  note d = triD [OF assms(3) s this]
  have "P s'" using assms(1) s d(2) unfolding stable_def by blast
  then show "cs_ok s' \<and> translates c s s' \<and> Q' s' \<and> pending (code_of s' c) \<subseteq> (pending (code_of s c) - I) \<union> J x"
    using assms(2) [OF d(1) step_ctx_lt [OF d(2) s(2)]] d by simp
qed

lemma tri_skip: "tri c P I (retS x) (\<lambda>x s. True) (\<lambda>x. I)"
  by (rule tri_ret) auto

lemma tri_value: "tri c P I (retS x) (\<lambda>y s. y = x) (\<lambda>x. I)"
  by (rule tri_ret) auto

lemma tri_option:
  assumes "r = None \<Longrightarrow> tri c P I m Q J" "\<And>x. r = Some x \<Longrightarrow> tri c P I (f x) Q J"
  shows "tri c P I (case r of None \<Rightarrow> m | Some x \<Rightarrow> f x) Q J"
  using assms by (cases r) simp_all

lemma tri_pair:
  assumes "\<And>x y. r = (x, y) \<Longrightarrow> tri c P I (f x y) Q J"
  shows "tri c P I (case r of (x, y) \<Rightarrow> f x y) Q J"
  using assms by (cases r) simp

lemma tri_drop:
  assumes "tri c P I m Q J"
  shows "tri c P I m (\<lambda>x s. True) J"
  by (rule tri_weaken [OF assms]) auto

text \<open>An operand: a slot of the frame, or a constant.\<close>

definition opnd_ok :: "nat \<Rightarrow> loc_or_cst \<Rightarrow> CS \<Rightarrow> bool" where
  "opnd_ok c a s \<longleftrightarrow> cst_le (topslot s c) a"

lemma stable_opnd_ok [stables]: "stable c (opnd_ok c a)"
proof (rule stableI)
  fix s s' assume e: "c < length (cs_ctxs s)" "extends s s'" and "opnd_ok c a s"
  then show "opnd_ok c a s'" using extends_facts(4) [OF e(2,1)] by (auto simp: opnd_ok_def elim: cst_le_mono)
qed

lemma slot_ok_0 [simp]: "slot_ok c 0 s"
  by (simp add: slot_ok_def)

lemma opnd_ok_simps [simp]: "opnd_ok c (Loc k) s \<longleftrightarrow> slot_ok c k s" "opnd_ok c (Cst v) s"
  by (simp_all add: opnd_ok_def slot_ok_def)

lemma slot_ok_fold [simp]: "k \<le> topslot s c \<longleftrightarrow> slot_ok c k s" "cst_le (topslot s c) a \<longleftrightarrow> opnd_ok c a s"
  by (simp_all add: slot_ok_def opnd_ok_def)

lemma vr_ok_local: "vr_ok c vr s \<Longrightarrow> fst vr = VU_Local \<Longrightarrow> slot_ok c (snd vr) s"
  by (simp add: vr_ok_def)

lemma vr_ok_simps [simp]: "vr_ok c (VU_Local, k) s \<longleftrightarrow> slot_ok c k s"
  "vr_ok c (VU_Upvalue, k) s \<longleftrightarrow> k < length (uvs s (tc_resultBCtx (cs_ctxs s ! c)))"
  by (simp_all add: vr_ok_def)

lemma slot_ok_mono: "slot_ok c k s \<Longrightarrow> i \<le> k \<Longrightarrow> slot_ok c i s"
  unfolding slot_ok_def by (rule order_trans)

text \<open>Bytecodes that refer to slots only.\<close>

fun plain :: "bytecode \<Rightarrow> bool" where
  "plain (BC_UpvalueGetMutable ord d) \<longleftrightarrow> False"
| "plain (BC_UpvalueGetImmutable ord d) \<longleftrightarrow> False"
| "plain (BC_UpvaluePut ord a) \<longleftrightarrow> False"
| "plain (BC_NewClosure ucb d) \<longleftrightarrow> False"
| "plain _ \<longleftrightarrow> True"

lemma bc_ok_plain: "plain bc \<Longrightarrow> bc_ok s c bc \<longleftrightarrow> slots_le (topslot s c) bc"
  by (cases bc) (simp_all add: bc_ok_def)

lemma plain_not_get [simp]: "plain bc \<Longrightarrow> \<not> is_get bc"
  by (cases bc) simp_all

lemma tri_emit_plain:
  assumes "plain bc" "\<not> is_branch bc" "\<And>s. P s \<Longrightarrow> slots_le (topslot s c) bc"
  shows "tri c P I (emit c bc) (\<lambda>x s. True) (\<lambda>x. I)"
  using assms by (intro tri_emit) (simp_all add: bc_ok_plain)

lemma tri_branch_plain:
  assumes "plain bc" "\<And>s. P s \<Longrightarrow> slots_le (topslot s c) bc"
  shows "tri c P I (emit_branch c bc) (\<lambda>x s. True) (\<lambda>loc. insert loc I)"
  using assms by (intro tri_emit_branch) (simp_all add: bc_ok_plain)

subsection \<open>Literals and variables\<close>

lemma tri_IsVariableResolvedTo:
  assumes "stable c P" "\<And>s. P s \<Longrightarrow> here c b s"
  shows "tri c P I (IsVariableResolvedTo E b kinds varName) (\<lambda>x s. True) (\<lambda>x. I)"
  unfolding IsVariableResolvedTo_def by (rule tri_bind, rule assms, rule tri_ResolveVariable, rule assms, erule assms, rule tri_skip)

lemma tri_CompileAstLiteral:
  assumes "stable c P"
  shows "tri c P I (CompileAstLiteral c node destSlot) (\<lambda>x. slot_ok c destSlot) (\<lambda>x. I)"
proof -
  have lit: "tri c (\<lambda>s. P s \<and> slot_ok c destSlot s) I (bindS (liftV m) (\<lambda>v. emit c (bc v))) (\<lambda>x s. True) (\<lambda>x. I)"
    if "unfuelled m" "\<And>v. plain (bc v) \<and> \<not> is_branch (bc v)" "\<And>v s. slot_ok c destSlot s \<Longrightarrow> slots_le (topslot s c) (bc v)" for m :: "val vmop" and bc
    by (rule tri_bind [OF _ tri_liftV], intro stables assms, rule that, rule tri_emit_plain) (use that in auto)
  show ?thesis
    unfolding CompileAstLiteral_def
    by (rule tri_bind [OF assms tri_UpdateTopSlot], rule tri_keep, intro stables assms)
      (auto intro!: lit unfuelleds simp del: CreateConstantArray.simps split: AstExpr.split)
qed

text \<open>What a name resolves to does not depend on the mode, and resolving it does not change that.\<close>

definition var_kind :: "cenv \<Rightarrow> nat \<Rightarrow> string \<Rightarrow> CS \<Rightarrow> VarUseKind" where
  "var_kind E b varName s =
     (if varName = ''self'' \<or> varName = ''super'' then VU_Local
      else case cs_localVarMap s varName of
        v # _ \<Rightarrow> if def_owner s v \<noteq> owner s b then VU_Upvalue else VU_Local
      | [] \<Rightarrow> (case ce_fieldMap E varName of Some ord \<Rightarrow> VU_Field
             | None \<Rightarrow> if varName \<in> {''false'', ''true'', ''nil''} then VU_FalseTrueNil else VU_Global))"

lemma keeps_map_ops [keeps_intros]:
  "keeps cs_localVarMap (get_var v)" "keeps cs_localVarMap (get_bctx b)" "keeps cs_localVarMap (get_ctx b)"
  "keeps cs_localVarMap (upd_var v f)" "keeps cs_localVarMap (upd_bctx b g)" "keeps cs_localVarMap (upd_ctx c h)" "keeps cs_localVarMap (liftV m)"
  by (auto simp: keeps_def get_var_def get_bctx_def get_ctx_def upd_var_def upd_bctx_def upd_ctx_def liftV_def bindR_eq_Inr split: if_splits)

lemma keeps_list [keeps_intros]:
  "keeps f m \<Longrightarrow> (\<And>x xs. keeps f (k x xs)) \<Longrightarrow> keeps f (case ys of [] \<Rightarrow> m | x # xs \<Rightarrow> k x xs)"
  by (simp split: list.split)

lemma keeps_AddUpvalue [keeps_intros]: "keeps cs_localVarMap (AddUpvalue n b v)"
proof (induction n arbitrary: b)
  case (Suc n)
  show ?case unfolding AddUpvalue.simps push_uv_def by (intro keeps_intros Suc.IH)
qed (simp add: keeps_def)

lemma keeps_ResolveVariable [keeps_intros]: "keeps cs_localVarMap (ResolveVariable E b varName mode)"
  unfolding ResolveVariable_def resolve_var_def resolve_global_def by (intro keeps_intros)

lemma resolve_var_kind:
  assumes "resolve_var b v mode s = Inr (vr, s')"
  shows "fst vr = (if def_owner s v \<noteq> owner s b then VU_Upvalue else VU_Local)
     \<and> v < length (cs_vars s) \<and> lv_bctx (cs_vars s ! v) < length (cs_bctxs s)"
  using assms unfolding resolve_var_def
  by (auto simp: get_var_def upd_var_def get_bctx_def def_owner_def owner_def split: if_splits elim!: bindS_InrE)

lemma resolve_global_kind:
  assumes "resolve_global E varName mode s = Inr (vr, s')"
  shows "fst vr = (if varName \<in> {''false'', ''true'', ''nil''} then VU_FalseTrueNil else VU_Global)"
  using assms unfolding resolve_global_def by (auto split: if_splits elim!: bindS_InrE)

lemma ResolveVariable_run:
  assumes "ResolveVariable E b varName mode s = Inr (vr, s')" "\<not> (varName = ''self'' \<or> varName = ''super'')"
  shows "(case cs_localVarMap s varName of var # _ \<Rightarrow> resolve_var b var mode
      | [] \<Rightarrow> (case ce_fieldMap E varName of Some ord \<Rightarrow> retS (VU_Field, ord) | None \<Rightarrow> resolve_global E varName mode)) s = Inr (vr, s')"
  using assms(1) unfolding ResolveVariable_def if_not_P [OF assms(2)] by (simp add: bindS_def)

lemma ResolveVariable_kind:
  assumes run: "ResolveVariable E b varName mode s = Inr (vr, s')"
  shows "fst vr = var_kind E b varName s"
proof (cases "varName = ''self'' \<or> varName = ''super''")
  case True
  then show ?thesis using run unfolding ResolveVariable_def var_kind_def by (simp split: if_splits) auto
next
  case False
  note r = ResolveVariable_run [OF run False]
  show ?thesis
  proof (cases "cs_localVarMap s varName")
    case Nil
    then show ?thesis using r False resolve_global_kind [of E varName mode s vr s']
      by (cases "ce_fieldMap E varName") (auto simp: var_kind_def)
  next
    case (Cons v vs)
    then show ?thesis using r False resolve_var_kind [of b v mode s vr s'] by (simp add: var_kind_def)
  qed
qed

lemma var_kind_step:
  assumes ok: "cs_ok s" and e: "extends s s'" and b: "b < length (cs_bctxs s)" and run: "ResolveVariable E b varName mode s = Inr (vr, s')"
  shows "var_kind E b varName s' = var_kind E b varName s"
proof -
  have m: "cs_localVarMap s' = cs_localVarMap s" using keepsD [OF keeps_ResolveVariable run] .
  have "def_owner s' v = def_owner s v" if "cs_localVarMap s varName = v # vs" "\<not> (varName = ''self'' \<or> varName = ''super'')" for v vs
  proof -
    have "resolve_var b v mode s = Inr (vr, s')" using ResolveVariable_run [OF run that(2)] that(1) by simp
    then show ?thesis using resolve_var_kind def_owner_extends [OF e ok] by blast
  qed
  then show ?thesis using m extends_facts(1) [OF e b] unfolding var_kind_def by (auto split: list.splits)
qed

lemma tri_ResolveVariable_kind:
  assumes P: "stable c P" "\<And>s. P s \<Longrightarrow> here c b s"
  shows "tri c (\<lambda>s. P s \<and> k (var_kind E b varName s)) I (ResolveVariable E b varName mode)
     (\<lambda>vr s. vr_ok c vr s \<and> k (fst vr) \<and> fst vr = var_kind E b varName s) (\<lambda>x. I)"
proof (rule triI)
  fix s assume s: "cs_ok s" "c < length (cs_ctxs s)" "P s \<and> k (var_kind E b varName s)"
  note R = tri_ResolveVariable [OF P, where I = I and E = E and varName = varName and mode = mode]
  show "ResolveVariable E b varName mode s \<noteq> Inl OutOfFuel" using tri_fuel [OF R] s by blast
  fix vr s' assume run: "ResolveVariable E b varName mode s = Inr (vr, s')"
  note d = triD [OF R s(1,2) conjunct1 [OF s(3)] run]
  have "b < length (cs_bctxs s)" using P(2) s(3) by (simp add: here_def)
  then have "var_kind E b varName s' = var_kind E b varName s" using var_kind_step [OF s(1) _ _ run] d(2) by (simp add: translates_def)
  then show "cs_ok s' \<and> translates c s s' \<and> (vr_ok c vr s' \<and> k (fst vr) \<and> fst vr = var_kind E b varName s') \<and> pending (code_of s' c) \<subseteq> (pending (code_of s c) - I) \<union> I"
    using d ResolveVariable_kind [OF run] s(3) by simp
qed

lemma tri_bind_pre:
  assumes "stable c P" "\<And>s. P' s \<Longrightarrow> P s" "tri c P' I m Q J" "\<And>x. tri c (\<lambda>s. P s \<and> Q x s) (J x) (f x) R K"
  shows "tri c P' I (bindS m f) R K"
proof (rule triI)
  fix s assume s: "cs_ok s" "c < length (cs_ctxs s)" "P' s"
  have run: "m s = Inr (x, u) \<Longrightarrow> cs_ok u \<and> c < length (cs_ctxs u) \<and> P u \<and> Q x u" for x u
    using triD [OF assms(3) s] step_ctx_lt assms(1,2) s unfolding stable_def by blast
  show "bindS m f s \<noteq> Inl OutOfFuel"
    using tri_fuel [OF assms(3) s] run tri_fuel [OF assms(4)] by (auto simp: bindS_def bindR_eq_Inl)
  fix y u assume "bindS m f s = Inr (y, u)"
  then obtain x t where r: "m s = Inr (x, t)" "f x t = Inr (y, u)" by (auto elim: bindS_InrE)
  note d = triD [OF assms(3) s r(1)] and g = triD [OF assms(4) _ _ _ r(2)]
  have "translates c s u" using step_trans [OF d(2) _ s(2)] g(2) run [OF r(1)] by blast
  then show "cs_ok u \<and> translates c s u \<and> R y u \<and> pending (code_of u c) \<subseteq> (pending (code_of s c) - I) \<union> K y"
    using g run [OF r(1)] d(4) by blast
qed

lemma tri_IsVariableResolvedTo_kind:
  assumes P: "stable c P" "\<And>s. P s \<Longrightarrow> here c b s"
  shows "tri c P I (IsVariableResolvedTo E b kinds varName) (\<lambda>r s. r \<longrightarrow> var_kind E b varName s \<in> kinds) (\<lambda>x. I)"
proof -
  have R: "tri c P I (ResolveVariable E b varName DryRun) (\<lambda>vr s. fst vr = var_kind E b varName s) (\<lambda>x. I)"
    by (rule tri_weaken [OF tri_ResolveVariable_kind [OF P, where k = "\<lambda>_. True"]]) auto
  show ?thesis unfolding IsVariableResolvedTo_def by (rule tri_bind [OF P(1) R], rule tri_ret) auto
qed

lemma tri_DetectTrivialLocalVarUse:
  assumes P: "stable c P" "\<And>s. P s \<Longrightarrow> here c b s"
  shows "tri c P I (DetectTrivialLocalVarUse E b expr) (\<lambda>r s. \<forall>k. r = Some k \<longrightarrow> slot_ok c k s) (\<lambda>x. I)"
proof -
  have "tri c P I (bindS (IsVariableResolvedTo E b {VU_Local} name) (\<lambda>isLocal.
      if isLocal then bindS (ResolveVariable E b name ForRead) (\<lambda>vr. retS (Some (snd vr))) else retS None))
      (\<lambda>r s. \<forall>k. r = Some k \<longrightarrow> slot_ok c k s) (\<lambda>x. I)" for name
    apply (rule tri_bind [OF P(1) tri_IsVariableResolvedTo_kind [OF P]], assumption)
    apply (rule tri_if)
     apply (rule tri_bind_pre [OF P(1) _ tri_pre [OF tri_ResolveVariable_kind [OF P, where k = "\<lambda>k. k = VU_Local"]]])
       apply (auto intro!: tri_ret simp: vr_ok_local)
    done
  then show ?thesis unfolding DetectTrivialLocalVarUse_def by (auto split: AstExpr.split intro: tri_ret)
qed

lemma tri_DetectTrivialLocalVarOrConstantUse:
  assumes P: "stable c P" "\<And>s. P s \<Longrightarrow> here c b s"
  shows "tri c P I (DetectTrivialLocalVarOrConstantUse E b expr) (\<lambda>r s. \<forall>a. r = Some a \<longrightarrow> opnd_ok c a s) (\<lambda>x. I)"
proof -
  have lit: "tri c P I (bindS (liftV (CreateConstantNonArray expr)) (\<lambda>v. retS (Some (Cst v)))) (\<lambda>r s. \<forall>a. r = Some a \<longrightarrow> opnd_ok c a s) (\<lambda>x. I)"
    by (rule tri_bind [OF P(1) tri_liftV], rule unfuelleds, rule tri_ret) auto
  have var: "tri c P I (bindS (IsVariableResolvedTo E b {VU_Local, VU_FalseTrueNil} name) (\<lambda>trivial.
          if trivial
          then bindS (ResolveVariable E b name ForRead) (\<lambda>vr.
               retS (Some (if fst vr = VU_Local then Loc (snd vr) else Cst (GetTValueForFalseTrueNil vr))))
          else retS None)) (\<lambda>r s. \<forall>a. r = Some a \<longrightarrow> opnd_ok c a s) (\<lambda>x. I)" for name
    apply (rule tri_bind [OF P(1) tri_IsVariableResolvedTo [OF P]], assumption)
    apply (rule tri_if)
     apply (rule tri_bind [OF _ tri_ResolveVariable])
        apply (intro stables P, intro stables P, simp add: P)
     apply (auto intro!: tri_ret simp: vr_ok_local)
    done
  show ?thesis unfolding DetectTrivialLocalVarOrConstantUse_def using lit var by (auto split: AstExpr.split intro: tri_ret)
qed

lemma unat_of_nat_le: "unat (of_nat n :: 'a::len word) \<le> n"
  by (simp add: unsigned_of_nat)

lemma bc_ok_upvalue:
  assumes "k < length (uvs s (tc_resultBCtx (cs_ctxs s ! c)))"
  shows "slot_ok c d s \<Longrightarrow> bc_ok s c (BC_UpvalueGetMutable (of_nat k) d)" "opnd_ok c a s \<Longrightarrow> bc_ok s c (BC_UpvaluePut (of_nat k) a)"
  using assms unat_of_nat_le [of k, where 'a = 16] by (simp_all add: bc_ok_def)

lemma tri_emit_get:
  assumes bc: "\<And>s. P s \<Longrightarrow> bc_ok s c (BC_UpvalueGetMutable ord d)"
  shows "tri c P I (bindS (upd_ctx c (\<lambda>t. t\<lparr>tc_allUpvalueGetBytecodes := tc_allUpvalueGetBytecodes t @ [length (tc_builder t)]\<rparr>)) (\<lambda>_.
         emit c (BC_UpvalueGetMutable ord d))) (\<lambda>x s. True) (\<lambda>x. I)"
proof (rule triI)
  fix s x s' assume s: "cs_ok s" "c < length (cs_ctxs s)" "P s"
    and run: "bindS (upd_ctx c (\<lambda>t. t\<lparr>tc_allUpvalueGetBytecodes := tc_allUpvalueGetBytecodes t @ [length (tc_builder t)]\<rparr>)) (\<lambda>_.
         emit c (BC_UpvalueGetMutable ord d)) s = Inr (x, s')"
  have swap: "t\<lparr>tc_allUpvalueGetBytecodes := g, tc_builder := k\<rparr> = t\<lparr>tc_builder := k, tc_allUpvalueGetBytecodes := g\<rparr>" for t g k
    by simp
  have "s' = s\<lparr>cs_ctxs := (cs_ctxs s)[c := (cs_ctxs s ! c)\<lparr>tc_builder := code_of s c @ [(BC_UpvalueGetMutable ord d, None)],
      tc_allUpvalueGetBytecodes := tc_allUpvalueGetBytecodes (cs_ctxs s ! c) @ [length (code_of s c)]\<rparr>]\<rparr>"
    using run s(2) by (simp add: bindS_def upd_ctx_def emit_def code_of_def swap)
  then have "cs_ok s' \<and> translates c s s' \<and> code_of s' c = code_of s c @ [(BC_UpvalueGetMutable ord d, None)]"
    by (intro add_bytecode [OF s(1,2) bc [OF s(3)]]) auto
  then show "cs_ok s' \<and> translates c s s' \<and> True \<and> pending (code_of s' c) \<subseteq> (pending (code_of s c) - I) \<union> I"
    by (auto simp: pending_append)
qed (simp add: bindS_def upd_ctx_def emit_def)

lemma tri_CompileVarUse:
  assumes P: "stable c P" "\<And>s. P s \<Longrightarrow> here c b s"
  shows "tri c P I (CompileVarUse E c b name destSlot) (\<lambda>x. slot_ok c destSlot) (\<lambda>x. I)"
  unfolding CompileVarUse_def
  apply (rule tri_bind [OF P(1) tri_UpdateTopSlot], rule tri_keep, intro stables P, simp)
  apply (rule tri_bind [OF _ tri_ResolveVariable [where b = b]], (intro stables P)+, simp add: P)
  subgoal for _ vr
    by (cases "fst vr"; cases vr) (auto intro!: tri_emit_plain tri_emit_get bc_ok_upvalue)
  done

lemma tri_EmitAssignValueToLhs:
  assumes "\<And>s. P s \<Longrightarrow> vr_ok c vr s \<and> opnd_ok c a s"
  shows "tri c P I (EmitAssignValueToLhs c vr a) (\<lambda>x s. True) (\<lambda>x. I)"
  unfolding EmitAssignValueToLhs_def using assms
  by (cases "fst vr"; cases vr) (auto intro!: tri_emit bc_ok_upvalue tri_fail simp: bc_ok_plain)

lemma tri_assign_all:
  assumes P: "stable c P" "\<And>s. P s \<Longrightarrow> here c b s \<and> opnd_ok c a s"
  shows "tri c P I (assign_all E c b a names) (\<lambda>x s. True) (\<lambda>x. I)"
proof (induction names)
  case (Cons name names)
  show ?case unfolding assign_all.simps
    apply (rule tri_bind [OF P(1) tri_ResolveVariable [where b = b]], rule P, simp add: P)
    apply (rule tri_bind [OF _ tri_EmitAssignValueToLhs], intro stables P, simp add: P)
    apply (rule tri_pre [OF Cons.IH], simp)
    done
qed (unfold assign_all.simps, rule tri_skip)

lemma tri_first_local:
  assumes P: "stable c P" "\<And>s. P s \<Longrightarrow> here c b s"
  shows "tri c P I (first_local E b i names) (\<lambda>x s. True) (\<lambda>x. I)"
proof (induction names arbitrary: i)
  case (Cons name names)
  show ?case unfolding first_local.simps
    by (rule tri_bind [OF P(1) tri_IsVariableResolvedTo [where b = b]], rule P, simp add: P)
      (auto intro: tri_skip tri_pre [OF Cons.IH])
qed (unfold first_local.simps, rule tri_skip)

subsection \<open>Expressions inside expressions\<close>

definition good :: "nat \<Rightarrow> compile_fn \<Rightarrow> bool" where
  "good N cx \<longleftrightarrow> (\<forall>isTopLevel c b node clobberSlot destSlot I. size node < N \<longrightarrow>
     tri c (here c b) I (cx isTopLevel c b node clobberSlot destSlot) (\<lambda>x. slot_ok c destSlot) (\<lambda>x. I))"

lemma tri_cx:
  assumes "good N cx" "size node < N" "\<And>s. P s \<Longrightarrow> here c b s"
  shows "tri c P I (cx isTopLevel c b node clobberSlot destSlot) (\<lambda>x. slot_ok c destSlot) (\<lambda>x. I)"
  by (rule tri_pre [of _ "here c b"]) (use assms in \<open>auto simp: good_def\<close>)

lemma tri_CompileAssignation:
  assumes cx: "good N cx" "size rhs < N" and P: "stable c P" "\<And>s. P s \<Longrightarrow> here c b s"
  shows "tri c P I (CompileAssignation E cx c b lhs rhs clobberSlot destSlot) (\<lambda>x. slot_ok c destSlot) (\<lambda>x. I)"
  unfolding CompileAssignation_def
  apply (rule tri_bind [OF P(1) tri_UpdateTopSlot], rule tri_keep, intro stables P, simp)
  apply (rule tri_bind [OF _ tri_cx [OF cx]], intro stables P, simp add: P)
  apply (rule tri_assign_all, intro stables P, simp add: P)
  done

lemma tri_CompileTopLevelAssignation:
  assumes cx: "good N cx" "size rhs < N" and P: "stable c P" "\<And>s. P s \<Longrightarrow> here c b s"
  shows "tri c P I (CompileTopLevelAssignation E cx c b lhs rhs clobberSlot) (\<lambda>x s. True) (\<lambda>x. I)"
  unfolding CompileTopLevelAssignation_def
  apply (rule tri_bind [OF P(1) tri_DetectTrivialLocalVarOrConstantUse], rule P, simp add: P)
  apply (rule tri_option)
   apply (rule tri_bind [OF _ tri_first_local], (intro stables P)+, simp add: P)
   apply (rule tri_option)
    apply (rule tri_drop, rule tri_CompileAssignation [OF cx], intro stables P, simp add: P)
   apply (rule tri_bind [OF _ tri_ResolveVariable], (intro stables P)+, simp add: P)
   apply (rule tri_bind [OF _ tri_cx [OF cx]], intro stables P, simp add: P)
   apply (rule tri_assign_all, intro stables P, simp add: P)
  apply (rule tri_assign_all, intro stables P, simp add: P)
  done

text \<open>An operand is in a slot of the frame (or a constant), and the next free slot is at most one higher.\<close>

lemma tri_operand_slot:
  assumes cx: "good N cx" "size expr < N" and P: "stable c P" "\<And>s. P s \<Longrightarrow> here c b s"
  shows "tri c P I (operand_slot E cx c b expr cur) (\<lambda>r. slot_ok c (fst r)) (\<lambda>x. I)"
  unfolding operand_slot_def
  apply (rule tri_bind [OF P(1) tri_DetectTrivialLocalVarUse], rule P, simp add: P)
  apply (rule tri_option)
   apply (rule tri_bind [OF _ tri_cx [OF cx]], intro stables P, simp add: P)
   apply (rule tri_ret; simp)
  apply (rule tri_ret; simp)
  done

lemma tri_operand:
  assumes cx: "good N cx" "size expr < N" and P: "stable c P" "\<And>s. P s \<Longrightarrow> here c b s"
  shows "tri c P I (operand E cx c b expr cur) (\<lambda>r. opnd_ok c (fst r)) (\<lambda>x. I)"
  unfolding operand_def
  apply (rule tri_bind [OF P(1) tri_DetectTrivialLocalVarOrConstantUse], rule P, simp add: P)
  apply (rule tri_option)
   apply (rule tri_bind [OF _ tri_cx [OF cx]], intro stables P, simp add: P)
   apply (rule tri_ret; simp)
  apply (rule tri_ret; simp)
  done

subsection \<open>Returns\<close>

definition code_ends :: "nat \<Rightarrow> CS \<Rightarrow> bool" where
  "code_ends c s \<longleftrightarrow> ends (code_of s c)"

lemma tri_emit_ret:
  assumes "plain bc" "is_exit bc" "\<And>s. P s \<Longrightarrow> slots_le (topslot s c) bc"
  shows "tri c P I (emit c bc) (\<lambda>x. code_ends c) (\<lambda>x. I)"
  by (rule tri_weaken [OF tri_emit_exit [of c P]]) (use assms in \<open>auto simp: bc_ok_plain code_ends_def elim: is_exit.elims\<close>)

lemma tri_close_if:
  assumes "\<And>s. cs_ok s \<Longrightarrow> c < length (cs_ctxs s) \<Longrightarrow> P s \<Longrightarrow> slot_ok c k s"
  shows "tri c P I (if d then emit c (BC_UpvalueClose k) else retS ()) (\<lambda>x s. True) (\<lambda>x. I)"
  by (auto intro!: tri_emit tri_skip simp: bc_ok_plain assms)

lemma tri_CompileReturn:
  assumes cx: "good N cx" "size node < N" and P: "stable c P" "\<And>s. P s \<Longrightarrow> here c b s"
  shows "tri c P I (CompileReturn cx c b node clobberSlot) (\<lambda>x. code_ends c) (\<lambda>x. I)"
  unfolding CompileReturn_def
  apply (rule tri_bind [OF P(1) tri_cx [OF cx]], simp add: P)
  apply (rule tri_bind [OF _ tri_get_bctx], intro stables P)
  apply (rule tri_bind [OF _ tri_close_if], intro stables P, simp)
  apply (rule tri_emit_ret; simp)
  done

lemma tri_CompileThrow:
  assumes cx: "good N cx" "size node < N" and P: "stable c P" "\<And>s. P s \<Longrightarrow> here c b s"
  shows "tri c P I (CompileThrow cx c b node clobberSlot) (\<lambda>x. code_ends c) (\<lambda>x. I)"
  unfolding CompileThrow_def
  apply (rule tri_bind [OF P(1) tri_upd_bctx], simp)
  apply (rule tri_bind [OF _ tri_cx [OF cx]], intro stables P, simp add: P)
  apply (rule tri_emit_ret; simp)
  done

subsection \<open>Bodies\<close>

text \<open>The body of a function ends its code; the body of an inlined block need not.\<close>

definition body_done :: "nat \<Rightarrow> nat \<Rightarrow> CS \<Rightarrow> bool" where
  "body_done c b s \<longleftrightarrow> (owner s b = b \<longrightarrow> code_ends c s)"

lemma tri_body_done: "tri c P I m (\<lambda>x. code_ends c) J \<Longrightarrow> tri c P I m (\<lambda>x. body_done c b) J"
  by (erule tri_weaken) (auto simp: body_done_def)

lemma tri_inlined:
  assumes "tri c P I m (\<lambda>x s. True) J" "stable c P" "\<And>s. P s \<Longrightarrow> bctx_at b x s" "IsInlined b x"
  shows "tri c P I m (\<lambda>x. body_done c b) J"
  by (rule tri_keep [OF assms(2) _ assms(1)]) (use assms(3,4) in \<open>auto simp: bctx_at_def IsInlined_def body_done_def\<close>)

lemma block_slots_ok:
  assumes ok: "cs_ok s" and c: "c < length (cs_ctxs s)" and h: "here c b s" and x: "bctx_at b x s"
  shows "slot_ok c (bt_startSlot x) s" "bt_returnValueSlot x = Some r \<Longrightarrow> slot_ok c r s"
proof -
  have "bctx_ok s b" using ok_at(1) [OF ok] h by (simp add: here_def)
  then show "slot_ok c (bt_startSlot x) s" "bt_returnValueSlot x = Some r \<Longrightarrow> slot_ok c r s"
    using c h x by (auto simp: bctx_ok_def here_def bctx_at_def)
qed

lemma GetReturnValueSlot_fuel: "GetReturnValueSlotForInlinedBlock x \<noteq> Inl OutOfFuel"
  by (simp add: GetReturnValueSlotForInlinedBlock_def split: option.split)

lemma GetReturnValueSlot_Inr: "GetReturnValueSlotForInlinedBlock x = Inr r \<Longrightarrow> bt_returnValueSlot x = Some r"
  by (simp add: GetReturnValueSlotForInlinedBlock_def split: option.splits)

lemma tri_no_effect:
  assumes P: "stable c P" "\<And>s. P s \<Longrightarrow> here c b s"
  shows "tri c P I (if k then no_effect E b expr else retS False) (\<lambda>x s. True) (\<lambda>x. I)"
proof -
  have "tri c P I (bindS (IsVariableResolvedTo E b {VU_Global} name) (\<lambda>isGlobal. retS (\<not> isGlobal))) (\<lambda>x s. True) (\<lambda>x. I)" for name
    by (rule tri_bind [OF P(1) tri_IsVariableResolvedTo], rule P, simp add: P, rule tri_skip)
  then show ?thesis unfolding no_effect_def by (auto intro: tri_skip split: AstExpr.split)
qed

lemma tri_compile_block_value:
  assumes cx: "good N cx" "size expr < N" and P: "stable c P" "\<And>s. P s \<Longrightarrow> here c b s"
  shows "tri c P I (compile_block_value E cx c b expr clobberSlot) (\<lambda>x. body_done c b) (\<lambda>x. I)"
  unfolding compile_block_value_def
  apply (rule tri_bind [OF P(1) tri_get_bctx])
  apply (rule tri_if)
   apply (rule tri_inlined)
      apply (rule tri_bind [OF _ tri_close_if], intro stables P, blast intro: block_slots_ok P)
      apply (rule tri_bind [OF _ tri_no_effect], (intro stables P)+, simp add: P)
      apply (rule tri_if)
       apply (rule tri_skip)
      apply (rule tri_bind [OF _ tri_liftS [OF GetReturnValueSlot_fuel]], intro stables P)
      apply (rule tri_drop, rule tri_cx [OF cx], simp add: P)
     apply (intro stables P)
    apply (erule conjunct2)
   apply assumption
  apply (rule tri_body_done, rule tri_CompileReturn [OF cx], intro stables P, simp add: P)
  done

lemma tri_compile_statement:
  assumes cx: "good N cx" "size expr < N" and P: "stable c P" "\<And>s. P s \<Longrightarrow> here c b s"
  shows "tri c P I (compile_statement E cx c b expr clobberSlot) (\<lambda>x s. True) (\<lambda>x. I)"
proof (cases "\<exists>lhs rhs. expr = AstAssignation lhs rhs")
  case True
  then obtain lhs rhs where e: "expr = AstAssignation lhs rhs" by blast
  then have "size rhs < N" using cx(2) by simp
  then show ?thesis unfolding e compile_statement_def AstExpr.case by (rule tri_CompileTopLevelAssignation [OF cx(1) _ P])
next
  case False
  then have "compile_statement E cx c b expr clobberSlot = cx (IsCall expr) c b expr clobberSlot clobberSlot"
    by (cases expr) (simp_all add: compile_statement_def)
  then show ?thesis by (simp only:, intro tri_drop [OF tri_cx [OF cx P(2)]])
qed

lemma tri_compile_empty_body:
  assumes P: "stable c P" "\<And>s. P s \<Longrightarrow> here c b s"
  shows "tri c P I (compile_empty_body c b) (\<lambda>x. body_done c b) (\<lambda>x. I)"
  unfolding compile_empty_body_def
  apply (rule tri_bind [OF P(1) tri_get_bctx])
  apply (rule tri_if)
   apply (rule tri_if)
    apply (rule tri_inlined)
       apply (rule tri_if)
        apply (rule tri_skip)
       apply (rule tri_bind [OF _ tri_liftS [OF GetReturnValueSlot_fuel]], intro stables P)
       apply (rule tri_emit)
         apply (simp add: bc_ok_plain, blast intro: block_slots_ok GetReturnValueSlot_Inr P)
        apply simp
       apply simp
      apply (intro stables P)
     apply (erule conjunct2)
    apply assumption
   apply (rule tri_bind [OF _ tri_emit_plain], intro stables P, simp, simp, simp)
   apply (rule tri_body_done, rule tri_emit_ret; simp)
  apply (rule tri_body_done, rule tri_emit_ret; simp)
  done

lemma tri_case_return:
  assumes "\<And>e. expr = AstReturn e \<Longrightarrow> tri c P I (f e) Q J" "tri c P I m Q J"
  shows "tri c P I (case expr of AstReturn e \<Rightarrow> f e | _ \<Rightarrow> m) Q J"
  using assms by (cases expr) simp_all

lemma tri_compile_statements:
  assumes cx: "good N cx" "\<And>e. e \<in> set exprs \<Longrightarrow> size e < N" and ne: "exprs \<noteq> []" and P: "stable c P" "\<And>s. P s \<Longrightarrow> here c b s"
  shows "tri c P I (compile_statements E cx c b clobberSlot exprs) (\<lambda>x. body_done c b) (\<lambda>x. I)"
  using cx(2) ne
proof (induction exprs)
  case (Cons expr exprs)
  have sz: "size expr < N" using Cons.prems(1) by simp
  have Q: "stable c (\<lambda>s. P s \<and> bctx_at b x s)" "\<And>s. P s \<and> bctx_at b x s \<Longrightarrow> here c b s" for x
    using P by (auto intro: stables)
  have ret: "tri c (\<lambda>s. P s \<and> bctx_at b x s) I (if k then CompileThrow cx c b e clobberSlot else CompileReturn cx c b e clobberSlot) (\<lambda>x. body_done c b) (\<lambda>x. I)"
    if "size e < N" for x k e
    using that by (auto intro!: tri_body_done tri_CompileThrow [OF cx(1) _ Q] tri_CompileReturn [OF cx(1) _ Q])
  have stmt: "tri c (\<lambda>s. P s \<and> bctx_at b x s) I
     (if exprs = [] \<and> \<not> IsTopLevelMethod b x then compile_block_value E cx c b expr clobberSlot
      else bindS (compile_statement E cx c b expr clobberSlot) (\<lambda>_.
           if exprs = []
           then bindS (get_bctx b) (\<lambda>x. bindS (if MustEmitUpvalueCloseBeforeReturn x then emit c (BC_UpvalueClose 0) else retS ()) (\<lambda>_. emit c (BC_Ret 0)))
           else compile_statements E cx c b clobberSlot exprs)) (\<lambda>x. body_done c b) (\<lambda>x. I)" for x
    apply (rule tri_if, rule tri_compile_block_value [OF cx(1) sz Q(1)], simp add: P)
    apply (rule tri_bind [OF Q(1) tri_compile_statement [OF cx(1) sz Q(1)]], simp add: P)
    apply (rule tri_if)
     apply (rule tri_bind [OF _ tri_get_bctx], intro stables P)
     apply (rule tri_bind [OF _ tri_close_if], intro stables P, simp)
     apply (rule tri_body_done, rule tri_emit_ret; simp)
    apply (rule tri_pre [OF Cons.IH]; use Cons.prems in simp)
    done
  show ?case unfolding compile_statements.simps
    by (rule tri_bind [OF P(1) tri_get_bctx], rule tri_case_return) (rule ret, use sz in simp, rule stmt)
qed simp

lemma tri_CompileBlockBody:
  assumes cx: "good N cx" "\<And>e. e \<in> set body \<Longrightarrow> size e < N" and P: "stable c P" "\<And>s. P s \<Longrightarrow> here c b s"
  shows "tri c P I (CompileBlockBody E cx c b body clobberSlot) (\<lambda>x. body_done c b) (\<lambda>x. I)"
  unfolding CompileBlockBody_def by (intro tri_if tri_compile_empty_body tri_compile_statements [OF cx] P) simp_all

lemma tri_propagate_throws: "stable c P \<Longrightarrow> tri c P I (propagate_throws b newBCtx) (\<lambda>x s. True) (\<lambda>x. I)"
  unfolding propagate_throws_def by (rule tri_bind [OF _ tri_get_bctx], assumption) (auto intro: tri_skip tri_upd_bctx)

subsection \<open>Scopes\<close>

definition new_vars :: "nat \<Rightarrow> nat \<Rightarrow> nat \<Rightarrow> LocalVarInfo list" where
  "new_vars b k n = map (\<lambda>i. \<lparr>lv_bctx = b, lv_slotOrd = i, lv_isUsed = False, lv_isWritten = False, lv_isImmutable = True\<rparr>) [k..<k + n]"

fun install_map :: "string list \<Rightarrow> nat \<Rightarrow> (string \<Rightarrow> nat list) \<Rightarrow> string \<Rightarrow> nat list" where
  "install_map [] v M = M"
| "install_map (name # names) v M = install_map names (v + 1) (M(name := v # M name))"

lemma new_vars_Suc: "new_vars b k (Suc n) = \<lparr>lv_bctx = b, lv_slotOrd = k, lv_isUsed = False, lv_isWritten = False, lv_isImmutable = True\<rparr> # new_vars b (k + 1) n"
  by (simp add: new_vars_def upt_conv_Cons del: upt_Suc)

lemma install_all_run: "install_all b names k s = Inr (k + length names,
   s\<lparr>cs_vars := cs_vars s @ new_vars b k (length names), cs_localVarMap := install_map names (length (cs_vars s)) (cs_localVarMap s)\<rparr>)"
proof (induction names arbitrary: k s)
  case Nil
  show ?case by (simp add: new_vars_def)
next
  case (Cons name names)
  show ?case by (simp add: bindS_def InstallLocalVariable_def Cons.IH new_vars_Suc)
qed

lemma add_vars_ok:
  assumes ok: "cs_ok s" and c: "c < length (cs_ctxs s)" and h: "here c b s" "slot_ok c (k + n) s"
    and s': "s' = s\<lparr>cs_vars := cs_vars s @ new_vars b k n, cs_localVarMap := M\<rparr>"
  shows "cs_ok s' \<and> translates c s s' \<and> code_of s' c = code_of s c"
proof -
  have e: "extends s s'" using grows_append [of same_place] by (simp add: s' extends_def grows_refl)
  have "var_ok s' v" if v: "length (cs_vars s) \<le> v" "v < length (cs_vars s')" for v
  proof -
    let ?i = "v - length (cs_vars s)"
    have i: "?i < n" using v by (simp add: s' new_vars_def)
    then have vi: "cs_vars s' ! v = \<lparr>lv_bctx = b, lv_slotOrd = k + ?i, lv_isUsed = False, lv_isWritten = False, lv_isImmutable = True\<rparr>"
      using v by (simp add: s' nth_append new_vars_def)
    have "def_owner s' v = owner s b" by (simp add: def_owner_def vi, simp add: owner_def s')
    moreover have "k + ?i \<le> topslot s' c'" if "c' < length (cs_ctxs s)" "tc_resultBCtx (cs_ctxs s ! c') = owner s b" for c'
    proof -
      have "c' = c" using ctx_unique [OF ok that(1) c] that(2) h(1) by (simp add: here_def)
      moreover have "k + n \<le> topslot s c" using h(2) by (simp only: slot_ok_def)
      ultimately have "k + ?i \<le> topslot s c'" using i by (simp del: slot_ok_fold)
      then show ?thesis by (simp add: topslot_def s')
    qed
    ultimately show ?thesis using h(1) unfolding var_ok_def vi by (simp add: here_def s' del: slot_ok_fold)
  qed
  then have "cs_ok s'" by (intro cs_ok_extends [OF e fresh_ctxs_same ok]) (auto simp: s' uvs_def code_of_def)
  moreover have "translates c s s'" using e by (simp add: translates_def s' code_of_def)
  ultimately show ?thesis by (simp add: s' code_of_def)
qed

lemma tri_install_all:
  assumes "\<And>s. P s \<Longrightarrow> here c b s \<and> slot_ok c (k + length names) s"
  shows "tri c P I (install_all b names k) (\<lambda>r s. r = k + length names) (\<lambda>x. I)"
proof (rule triI)
  fix s r s' assume s: "cs_ok s" "c < length (cs_ctxs s)" "P s" and run: "install_all b names k s = Inr (r, s')"
  have "cs_ok s' \<and> translates c s s' \<and> code_of s' c = code_of s c"
    by (rule add_vars_ok [OF s(1,2), of b k "length names"]) (use run s(3) assms in \<open>auto simp: install_all_run\<close>)
  then show "cs_ok s' \<and> translates c s s' \<and> r = k + length names \<and> pending (code_of s' c) \<subseteq> (pending (code_of s c) - I) \<union> I"
    using run by (auto simp: install_all_run)
qed (simp add: install_all_run)

lemma tri_InstallLocalVariables:
  assumes P: "stable c P" "\<And>s. P s \<Longrightarrow> here c b s \<and> slot_ok c (k + length params + length locals) s"
  shows "tri c P I (InstallLocalVariables c b params locals k) (\<lambda>r s. True) (\<lambda>x. I)"
proof -
  have le: "slot_ok c (k + length params) s" "k + length params + unat (of_nat (length locals) :: u16) \<le> topslot s c + 1" if "P s" for s
    using P(2) [OF that] unat_of_nat_le [of "length locals", where 'a = 16] slot_ok_mono by (auto simp: slot_ok_def simp del: slot_ok_fold)
  have fill: "tri c (\<lambda>s. P s \<and> r = k + length params) I
      (if length locals > 0 then emit c (BC_RangeFillNils r (of_nat (length locals))) else retS ()) (\<lambda>x s. True) (\<lambda>x. I)" for r
    using le(2) by (auto intro!: tri_emit_plain tri_skip simp del: slot_ok_fold)
  show ?thesis unfolding InstallLocalVariables_def
    apply (rule tri_bind [OF P(1) tri_install_all], simp add: P le)
    apply (rule tri_bind [OF _ fill], intro stables P)
    apply (rule tri_drop, rule tri_install_all, simp add: P)
    done
qed

text \<open>The top slot is raised after the variables have been installed; it could as well be raised before.\<close>

lemma install_top:
  "bindS (InstallLocalVariables c b params locals k) (\<lambda>n. bindS (upd_ctx c (\<lambda>t. t\<lparr>tc_historyTopSlot := h (tc_historyTopSlot t) n\<rparr>)) (\<lambda>_. f n)) =
   bindS (upd_ctx c (\<lambda>t. t\<lparr>tc_historyTopSlot := h (tc_historyTopSlot t) (k + length params + length locals)\<rparr>)) (\<lambda>_.
   bindS (InstallLocalVariables c b params locals k) (\<lambda>_. f (k + length params + length locals)))"
proof (rule ext)
  fix s
  have swap: "t\<lparr>tc_builder := x, tc_historyTopSlot := y\<rparr> = t\<lparr>tc_historyTopSlot := y, tc_builder := x\<rparr>" for t :: TranslationContext and x y by simp
  have swap_cs: "s\<lparr>cs_vars := a, cs_localVarMap := m, cs_ctxs := t\<rparr> = s\<lparr>cs_ctxs := t, cs_vars := a, cs_localVarMap := m\<rparr>" for s :: CS and a m t by simp
  show "bindS (InstallLocalVariables c b params locals k) (\<lambda>n. bindS (upd_ctx c (\<lambda>t. t\<lparr>tc_historyTopSlot := h (tc_historyTopSlot t) n\<rparr>)) (\<lambda>_. f n)) s =
   bindS (upd_ctx c (\<lambda>t. t\<lparr>tc_historyTopSlot := h (tc_historyTopSlot t) (k + length params + length locals)\<rparr>)) (\<lambda>_.
   bindS (InstallLocalVariables c b params locals k) (\<lambda>_. f (k + length params + length locals))) s"
    by (cases "c < length (cs_ctxs s)"; cases "locals = []")
      (simp_all add: InstallLocalVariables_def install_all_run bindS_def emit_def upd_ctx_def swap swap_cs list_update_beyond add.assoc)
qed

lemma install_UpdateTopSlot:
  "bindS (InstallLocalVariables c b params locals k) (\<lambda>n. bindS (UpdateTopSlot c n) (\<lambda>_. f n)) =
   bindS (UpdateTopSlot c (k + length params + length locals)) (\<lambda>_.
   bindS (InstallLocalVariables c b params locals k) (\<lambda>_. f (k + length params + length locals)))"
  unfolding UpdateTopSlot_def by (rule install_top)

lemma tri_uninstall_all: "stable c P \<Longrightarrow> tri c P I (uninstall_all names) (\<lambda>x s. True) (\<lambda>x. I)"
proof (induction names)
  case (Cons name names)
  have "tri c P I (UninstallLocalVariable name) (\<lambda>x s. True) (\<lambda>x. I)"
    by (rule tri_quiet) (auto simp: UninstallLocalVariable_def split: list.splits)
  then show ?case unfolding uninstall_all.simps
    by (rule tri_bind [OF Cons.prems], intro tri_pre [OF Cons.IH] Cons.prems) simp
qed (unfold uninstall_all.simps, rule tri_skip)

lemma tri_UninstallLocalVariables: "stable c P \<Longrightarrow> tri c P I (UninstallLocalVariables params locals) (\<lambda>x s. True) (\<lambda>x. I)"
  unfolding UninstallLocalVariables_def
  by (rule tri_bind [OF _ tri_uninstall_all], assumption, assumption, rule tri_uninstall_all, intro stables)

lemma tri_alloc_inlined:
  assumes "\<And>s. P s \<Longrightarrow> here c b s \<and> bctx_at b x s \<and> slot_ok c frameStartSlot s \<and> slot_ok c destSlot s"
  shows "tri c P I (alloc_bctx ((new_bctx frameStartSlot (Some b) (bt_owningContext x) (bt_trueParent x))
              \<lparr>bt_returnValueMayBeDiscarded := d, bt_returnValueSlot := Some destSlot\<rparr>)) (\<lambda>b'. here c b') (\<lambda>x. I)"
proof (rule triI)
  let ?x = "(new_bctx frameStartSlot (Some b) (bt_owningContext x) (bt_trueParent x))\<lparr>bt_returnValueMayBeDiscarded := d, bt_returnValueSlot := Some destSlot\<rparr>"
  fix s b' s' assume s: "cs_ok s" "c < length (cs_ctxs s)" "P s" and "alloc_bctx ?x s = Inr (b', s')"
  then have b': "b' = length (cs_bctxs s)" and s': "s' = s\<lparr>cs_bctxs := cs_bctxs s @ [?x]\<rparr>" by (simp_all add: alloc_bctx_def)
  note a = assms [OF s(3)]
  have bl: "b < length (cs_bctxs s)" using a by (simp add: here_def)
  have ol: "owner s b < length (cs_bctxs s)" using owner_lt [OF s(1) bl] .
  have e: "extends s s'" using grows_append [of bctx_grows] by (simp add: s' extends_def grows_refl)
  have ox: "bt_owningContext x = owner s b" "bt_trueParent x = parent s b" using a by (simp_all add: bctx_at_def)
  have new: "owner s' b' = owner s b" "parent s' b' = parent s b" "uvs s' b' = []" "bt_uvOrdMap (cs_bctxs s' ! b') = Map.empty"
    "bt_startSlot (cs_bctxs s' ! b') = frameStartSlot" "bt_returnValueSlot (cs_bctxs s' ! b') = Some destSlot"
    using ox by (simp_all add: s' b' owner_def parent_def uvs_def new_bctx_def)
  have bo: "bctx_ok s b" using ok_at(1) [OF s(1) bl] .
  have ctxs: "cs_ctxs s' = cs_ctxs s" "topslot s' c = topslot s c" by (simp_all add: s' topslot_def)
  have uniq: "c' = c" if "c' < length (cs_ctxs s)" "tc_resultBCtx (cs_ctxs s ! c') = owner s b" for c'
    using ctx_unique [OF s(1) that(1) s(2)] that(2) a by (simp add: here_def)
  have "bctx_ok s' b'"
    unfolding bctx_ok_def new
  proof (intro conjI allI impI)
    show "owner s b \<le> b'" "owner s' (owner s b) = owner s b" "parent s' (owner s b) = parent s b"
      using bo extends_facts(1,2) [OF e ol] bl b' by (simp_all add: bctx_ok_def)
    fix p assume p: "parent s b = Some p"
    then show "p < owner s b" using bo by (simp add: bctx_ok_def)
    then show "owner s' p = p" using p bo extends_facts(1) [OF e, of p] ol by (simp add: bctx_ok_def)
  next
    fix c' assume "c' < length (cs_ctxs s')" "tc_resultBCtx (cs_ctxs s' ! c') = owner s b"
    then have "c' = c" using uniq ctxs(1) by simp
    then show "frameStartSlot \<le> topslot s' c'" "\<And>r. Some destSlot = Some r \<Longrightarrow> r \<le> topslot s' c'"
      using a ctxs(2) by (simp_all add: slot_ok_def del: slot_ok_fold)
  qed
  moreover have "uvs_ok s' b'" using new ol b' by (simp add: uvs_ok_def)
  moreover have "i = b'" if "length (cs_bctxs s) \<le> i" "i < length (cs_bctxs s')" for i using that by (simp add: s' b')
  ultimately have newb: "bctx_ok s' i \<and> uvs_ok s' i" if "length (cs_bctxs s) \<le> i" "i < length (cs_bctxs s')" for i using that by blast
  have "cs_ok s'"
    by (rule cs_ok_extends [OF e fresh_ctxs_same s(1) newb]) (simp_all add: s' uvs_def code_of_def nth_append)
  moreover have "translates c s s'" using e by (simp add: translates_def s' code_of_def)
  moreover have "here c b' s'" using a new(1) by (simp add: here_def b', simp add: s')
  ultimately show "cs_ok s' \<and> translates c s s' \<and> here c b' s' \<and> pending (code_of s' c) \<subseteq> (pending (code_of s c) - I) \<union> I"
    by (auto simp: s' code_of_def)
qed (simp add: alloc_bctx_def)

lemma tri_InlineBlock:
  assumes cx: "good N cx" "\<And>e. e \<in> set body \<Longrightarrow> size e < N" and P: "stable c P" "\<And>s. P s \<Longrightarrow> here c b s"
  shows "tri c P I (InlineBlock E cx c b params locals body frameStartSlot destSlot d) (\<lambda>x s. True) (\<lambda>x. I)"
  unfolding InlineBlock_def install_UpdateTopSlot
  apply (rule tri_bind [OF P(1) tri_UpdateTopSlot])
  apply (rule tri_bind [OF _ tri_UpdateTopSlot], intro stables P)
  apply (rule tri_bind [OF _ tri_get_bctx], intro stables P)
  apply (rule tri_bind [OF _ tri_alloc_inlined], intro stables P, simp add: P)
  apply (rule tri_bind [OF _ tri_UpdateTopSlot], intro stables P)
  apply (rule tri_bind [OF _ tri_InstallLocalVariables], (intro stables P)+, simp)
  apply (rule tri_bind [OF _ tri_drop [OF tri_CompileBlockBody [OF cx]]], intro stables P, assumption, intro stables P, simp)
  apply (rule tri_bind [OF _ tri_UninstallLocalVariables], (intro stables P)+)
  apply (rule tri_propagate_throws, intro stables P)
  done

subsection \<open>New functions\<close>

definition new_function ::
  "cenv \<Rightarrow> compile_fn \<Rightarrow> nat \<Rightarrow> nat \<Rightarrow> BlockTranslationContext \<Rightarrow> string list \<Rightarrow> string list \<Rightarrow> AstExpr list \<Rightarrow> (nat \<times> nat) cop" where
  "new_function E cx c b x params locals body =
     bindS (getS (\<lambda>s. length (cs_bctxs s))) (\<lambda>self.
     bindS (alloc_bctx ((new_bctx 0 (Some b) self (Some (bt_owningContext x)))
              \<lparr>bt_uvs := [\<lparr>uvi_isParentLocal = True, uvi_parentLocalSlot = Some 0, uvi_parentUpvalueOrd = None, uvi_varInfo = None\<rparr>]\<rparr>)) (\<lambda>newBCtx.
     bindS (alloc_ctx (new_ctx (UnlinkedCodeBlock_Create\<lparr>ucb_parent := Some c, ucb_numFixedArguments := length params + 1\<rparr>) newBCtx)) (\<lambda>newCtx.
     bindS (InstallLocalVariables newCtx newBCtx params locals 1) (\<lambda>firstFreeSlot.
     bindS (upd_ctx newCtx (\<lambda>t. t\<lparr>tc_historyTopSlot := firstFreeSlot\<rparr>)) (\<lambda>_.
     bindS (CompileBlockBody E cx newCtx newBCtx body firstFreeSlot) (\<lambda>_. retS (newBCtx, newCtx)))))))"

lemma CompileNewBlock_eq:
  "CompileNewBlock E cx c b params locals body destSlot =
     bindS (UpdateTopSlot c destSlot) (\<lambda>_.
     bindS (get_bctx b) (\<lambda>x.
     bindS (new_function E cx c b x params locals body) (\<lambda>(newBCtx, newCtx).
     bindS (UninstallLocalVariables params locals) (\<lambda>_.
     bindS (propagate_throws b newBCtx) (\<lambda>_.
     bindS (get_bctx newBCtx) (\<lambda>y.
     bindS (upd_ctx newCtx (\<lambda>t. t\<lparr>tc_resultUcb := (tc_resultUcb t)\<lparr>ucb_fnKind := block_kind (length params) (MustMutablyCaptureSelf y)\<rparr>\<rparr>)) (\<lambda>_.
     emit c (BC_NewClosure newCtx destSlot))))))))"
proof -
  have ret: "bindS (bindS m (\<lambda>_. retS (i, j))) f = bindS m (\<lambda>_. f (i, j))" for m :: "unit cop" and i j and f :: "nat \<times> nat \<Rightarrow> unit cop"
    by (rule ext) (simp add: bindS_def bindR_assoc split_def)
  show ?thesis unfolding CompileNewBlock_def new_function_def bindS_assoc ret by simp
qed

lemma alloc_function_ok:
  assumes ok: "cs_ok s" and c: "c < length (cs_ctxs s)" and h: "here c b s" and x: "owner s b = w"
    and X: "bt_startSlot X = 0" "bt_owningContext X = length (cs_bctxs s)" "bt_trueParent X = Some w" "bt_returnValueSlot X = None"
      "bt_uvOrdMap X = Map.empty" "bt_uvs X = [uv]" "self_uv uv"
    and T: "T = new_ctx ucb (length (cs_bctxs s))" "ucb_parent ucb = Some c"
    and s': "s' = s\<lparr>cs_bctxs := cs_bctxs s @ [X], cs_ctxs := cs_ctxs s @ [T]\<rparr>"
  shows "cs_ok s' \<and> extends s s'" "owner s' (length (cs_bctxs s)) = length (cs_bctxs s)"
    and "here (length (cs_ctxs s)) (length (cs_bctxs s)) s'" "code_of s' (length (cs_ctxs s)) = []" "topslot s' (length (cs_ctxs s)) = 0"
proof -
  let ?b = "length (cs_bctxs s)" and ?c = "length (cs_ctxs s)"
  have bl: "b < ?b" using h by (simp add: here_def)
  have wl: "w < ?b" "owner s w = w" using owner_lt [OF ok bl] owner_owner [OF ok bl] x by simp_all
  have e: "extends s s'" using grows_append [of bctx_grows] grows_append [of ctx_grows] by (simp add: s' extends_def grows_refl)
  have new: "owner s' ?b = ?b" "parent s' ?b = Some w" "uvs s' ?b = [uv]" "bt_uvOrdMap (cs_bctxs s' ! ?b) = Map.empty"
    "bt_startSlot (cs_bctxs s' ! ?b) = 0" "bt_returnValueSlot (cs_bctxs s' ! ?b) = None"
    using X by (simp_all add: s' owner_def parent_def uvs_def)
  have ctx: "cs_ctxs s' ! ?c = T" "tc_resultBCtx T = ?b" "code_of s' ?c = []" "topslot s' ?c = 0"
    using T by (simp_all add: s' code_of_def topslot_def new_ctx_def)
  have res: "tc_resultBCtx (cs_ctxs s ! i) < ?b" if "i < ?c" for i using ok_at(4) [OF ok that] by (simp add: place_ok_def Let_def)
  have f: "fresh_ctxs s s'" using ctx(1,2) by (auto simp: fresh_ctxs_def s' less_Suc_eq_le)
  have "bctx_ok s' ?b" using new wl extends_facts(1) [OF e wl(1)] unfolding bctx_ok_def by simp
  moreover have "uvs_ok s' ?b" using new X(7) by (simp add: uvs_ok_def)
  moreover have "i = ?b" if "?b \<le> i" "i < length (cs_bctxs s')" for i using that by (simp add: s')
  ultimately have newb: "bctx_ok s' i \<and> uvs_ok s' i" if "?b \<le> i" "i < length (cs_bctxs s')" for i using that by blast
  have cw: "tc_resultBCtx (cs_ctxs s' ! c) = w" using extends_facts(5) [OF e c] h x by (simp add: here_def)
  have "place_ok s' ?c" using ctx new(1,2) cw T c by (simp add: place_ok_def Let_def new_ctx_def, simp add: s')
  moreover have "code_ok s' ?c" using ctx(1,3) T by (simp add: code_ok_def Let_def code_of_def new_ctx_def)
  moreover have "i = ?c" if "?c \<le> i" "i < length (cs_ctxs s')" for i using that by (simp add: s')
  ultimately have newc: "place_ok s' i \<and> code_ok s' i" if "?c \<le> i" "i < length (cs_ctxs s')" for i using that by blast
  have notin: "?b \<notin> tc_resultBCtx ` set (cs_ctxs s)" using res by (metis imageE in_set_conv_nth less_irrefl)
  have dist: "length (cs_ctxs s') = ?c \<or> distinct (map tc_resultBCtx (cs_ctxs s'))"
    using ok ctx(2) notin by (simp add: cs_ok_def s')
  have "cs_ok s'"
    by (rule cs_ok_extends [OF e f ok newb _ _ newc dist]) (auto simp: s' uvs_def code_of_def nth_append)
  then show "cs_ok s' \<and> extends s s'" "owner s' ?b = ?b" "code_of s' ?c = []" "topslot s' ?c = 0" using e new(1) ctx(3,4) by simp_all
  show "here ?c ?b s'" using new(1) ctx(1,2) by (simp add: here_def, simp add: s')
qed

lemma step_function:
  assumes e: "extends s t" and len: "length (cs_ctxs t) = Suc (length (cs_ctxs s))"
    and same: "\<And>i. i < length (cs_ctxs s) \<Longrightarrow> code_of t i = code_of s i" and st: "translates (length (cs_ctxs s)) t u"
    and fin: "ends (code_of u (length (cs_ctxs s)))" "pending (code_of u (length (cs_ctxs s))) = {}" and c: "c < length (cs_ctxs s)"
  shows "translates c s u \<and> code_of u c = code_of s c"
proof -
  have "code_of u i = code_of s i" if "i < length (cs_ctxs s)" for i
    using st same [OF that] that len by (simp add: translates_def)
  moreover have "ends (code_of u i) \<and> pending (code_of u i) = {}" if "length (cs_ctxs s) \<le> i" "i < length (cs_ctxs u)" for i
    using st that len fin by (cases "i = length (cs_ctxs s)") (auto simp: translates_def)
  moreover have "extends s u" using extends_trans [OF e] st by (simp add: translates_def)
  ultimately show ?thesis using c by (simp add: translates_def)
qed

lemma tri_set_top:
  "tri c (\<lambda>s. topslot s c = 0) I (upd_ctx c (\<lambda>t. t\<lparr>tc_historyTopSlot := k\<rparr>)) (\<lambda>x. slot_ok c k) (\<lambda>x. I)"
proof (rule tri_quiet)
  fix s x s' assume s: "cs_ok s" "c < length (cs_ctxs s)" "topslot s c = 0" "upd_ctx c (\<lambda>t. t\<lparr>tc_historyTopSlot := k\<rparr>) s = Inr (x, s')"
  then show "quiet s s' \<and> slot_ok c k s'"
    by (auto simp: upd_ctx_def slot_ok_def topslot_def ctx_grows_def simp del: slot_ok_fold intro!: quiet_ctx)
qed (simp add: upd_ctx_def)

lemma tri_function_body:
  assumes cx: "good N cx" "\<And>e. e \<in> set body \<Longrightarrow> size e < N"
  shows "tri c (\<lambda>s. here c b s \<and> topslot s c = 0) I (bindS (InstallLocalVariables c b params locals 1) (\<lambda>n.
     bindS (upd_ctx c (\<lambda>t. t\<lparr>tc_historyTopSlot := n\<rparr>)) (\<lambda>_. CompileBlockBody E cx c b body n))) (\<lambda>x. body_done c b) (\<lambda>x. I)"
  unfolding install_top [where h = "\<lambda>_ n. n"]
  apply (rule tri_bind_pre [where P = "here c b"], rule stables, simp, rule tri_pre [OF tri_set_top], simp)
  apply (rule tri_bind [OF _ tri_InstallLocalVariables], (intro stables)+, simp)
  apply (rule tri_CompileBlockBody [OF cx], assumption, intro stables, simp)
  done

lemma body_done_ends: "body_done c b s \<Longrightarrow> owner s b = b \<Longrightarrow> ends (code_of s c)"
  by (simp add: body_done_def code_ends_def)

definition ctx_at :: "nat \<Rightarrow> CS \<Rightarrow> bool" where
  "ctx_at c s \<longleftrightarrow> c < length (cs_ctxs s)"

lemma stable_ctx_at [stables]: "stable c' (ctx_at c)"
  by (rule stableI) (use extends_facts(9) in \<open>fastforce simp: ctx_at_def\<close>)

lemma tri_new_function:
  assumes cx: "good N cx" "\<And>e. e \<in> set body \<Longrightarrow> size e < N" and P: "\<And>s. P s \<Longrightarrow> here c b s \<and> bctx_at b x s"
  shows "tri c P I (new_function E cx c b x params locals body) (\<lambda>r. ctx_at (snd r)) (\<lambda>x. I)"
proof -
  define X where "X s = (new_bctx 0 (Some b) (length (cs_bctxs s)) (Some (bt_owningContext x)))
     \<lparr>bt_uvs := [\<lparr>uvi_isParentLocal = True, uvi_parentLocalSlot = Some 0, uvi_parentUpvalueOrd = None, uvi_varInfo = None\<rparr>]\<rparr>" for s :: CS
  define T where "T s = new_ctx (UnlinkedCodeBlock_Create\<lparr>ucb_parent := Some c, ucb_numFixedArguments := length params + 1\<rparr>) (length (cs_bctxs s))" for s :: CS
  define t where "t s = s\<lparr>cs_bctxs := cs_bctxs s @ [X s], cs_ctxs := cs_ctxs s @ [T s]\<rparr>" for s :: CS
  define m where "m nc nb = bindS (InstallLocalVariables nc nb params locals 1) (\<lambda>n.
     bindS (upd_ctx nc (\<lambda>t. t\<lparr>tc_historyTopSlot := n\<rparr>)) (\<lambda>_. CompileBlockBody E cx nc nb body n))" for nc nb
  have run: "new_function E cx c b x params locals body s =
     bindR (m (length (cs_ctxs s)) (length (cs_bctxs s)) (t s)) (\<lambda>(y, u). Inr ((length (cs_bctxs s), length (cs_ctxs s)), u))" for s
    by (simp add: new_function_def bindS_def alloc_bctx_def alloc_ctx_def m_def t_def X_def T_def bindR_assoc split_def)
  have body: "tri nc (\<lambda>s. here nc nb s \<and> topslot s nc = 0) {} (m nc nb) (\<lambda>x. body_done nc nb) (\<lambda>x. {})" for nc nb
    unfolding m_def by (rule tri_function_body [OF cx])
  show ?thesis
  proof (rule triI)
    fix s assume s: "cs_ok s" "c < length (cs_ctxs s)" "P s"
    let ?c = "length (cs_ctxs s)" and ?b = "length (cs_bctxs s)"
    have h: "here c b s" "bctx_at b x s" using P [OF s(3)] by auto
    have ox: "owner s b = bt_owningContext x" using h(2) by (simp add: bctx_at_def)
    have X: "bt_startSlot (X s) = 0" "bt_owningContext (X s) = ?b" "bt_trueParent (X s) = Some (bt_owningContext x)" "bt_returnValueSlot (X s) = None"
      "bt_uvOrdMap (X s) = Map.empty" "bt_uvs (X s) = [\<lparr>uvi_isParentLocal = True, uvi_parentLocalSlot = Some 0, uvi_parentUpvalueOrd = None, uvi_varInfo = None\<rparr>]"
      by (simp_all add: X_def new_bctx_def)
    have uv: "self_uv \<lparr>uvi_isParentLocal = True, uvi_parentLocalSlot = Some 0, uvi_parentUpvalueOrd = None, uvi_varInfo = None\<rparr>" by (simp add: self_uv_def)
    have ucb: "ucb_parent (UnlinkedCodeBlock_Create\<lparr>ucb_parent := Some c, ucb_numFixedArguments := length params + 1\<rparr>) = Some c" by simp
    note a = alloc_function_ok [OF s(1,2) h(1) ox X uv T_def ucb t_def]
    have len: "length (cs_ctxs (t s)) = Suc ?c" "\<And>i. i < ?c \<Longrightarrow> code_of (t s) i = code_of s i"
      by (simp_all add: t_def code_of_def nth_append)
    have pre: "cs_ok (t s)" "?c < length (cs_ctxs (t s))" "here ?c ?b (t s) \<and> topslot (t s) ?c = 0" using a len by simp_all
    show "new_function E cx c b x params locals body s \<noteq> Inl OutOfFuel"
      using tri_fuel [OF body pre] by (auto simp: run bindR_eq_Inl)
    fix r u assume "new_function E cx c b x params locals body s = Inr (r, u)"
    then obtain y where y: "m ?c ?b (t s) = Inr (y, u)" and r: "r = (?b, ?c)" by (auto simp: run bindR_eq_Inr)
    note d = triD [OF body pre y]
    have eu: "extends (t s) u" using d(2) by (simp add: translates_def)
    have bl: "?b < length (cs_bctxs (t s))" by (simp add: t_def)
    have "ends (code_of u ?c)" using body_done_ends [OF d(3)] extends_facts(1) [OF eu bl] a(2) by simp
    moreover have "pending (code_of u ?c) = {}" using d(4) a(4) by (simp add: pending_def)
    ultimately have "translates c s u \<and> code_of u c = code_of s c"
      using step_function [OF _ len d(2) _ _ s(2)] a(1) by blast
    moreover have "?c < length (cs_ctxs u)" using extends_facts(9) [OF eu] len(1) by simp
    ultimately show "cs_ok u \<and> translates c s u \<and> ctx_at (snd r) u \<and> pending (code_of u c) \<subseteq> (pending (code_of s c) - I) \<union> I"
      using d(1) r by (auto simp: ctx_at_def)
  qed
qed

lemma tri_CompileNewBlock:
  assumes cx: "good N cx" "\<And>e. e \<in> set body \<Longrightarrow> size e < N" and P: "stable c P" "\<And>s. P s \<Longrightarrow> here c b s"
  shows "tri c P I (CompileNewBlock E cx c b params locals body destSlot) (\<lambda>x. slot_ok c destSlot) (\<lambda>x. I)"
  unfolding CompileNewBlock_eq
  apply (rule tri_bind [OF P(1) tri_UpdateTopSlot], rule tri_keep, intro stables P, simp)
  apply (rule tri_bind [OF _ tri_get_bctx], intro stables P)
  apply (rule tri_bind [OF _ tri_new_function [OF cx]], intro stables P, assumption, simp add: P)
  apply (rule tri_pair)
  apply (rule tri_bind [OF _ tri_UninstallLocalVariables], (intro stables P)+)
  apply (rule tri_bind [OF _ tri_propagate_throws], (intro stables P)+)
  apply (rule tri_bind [OF _ tri_get_bctx], intro stables P)
  apply (rule tri_bind [OF _ tri_upd_ctx], intro stables P, simp add: ctx_grows_def)
  apply (rule tri_emit)
   apply (auto simp: bc_ok_def ctx_at_def)
  done

end
