(* ===== verification/CompileCalls.thy ===== *)
theory CompileCalls
  imports CompileWf
begin

section \<open>The compiler: message sends keep the invariant\<close>

text \<open>
  The judgement of theory \<open>CompileWf\<close> for the translation of message sends: inlined control flow, where every branch gets
  its target, operators and calls; and so for all expressions.
\<close>

subsection \<open>Rules\<close>

lemma tri_branch_last:
  assumes "\<And>s. P s \<Longrightarrow> pos_ok c d s" "K - {i} \<subseteq> I"
  shows "tri c P K (branch_to E c i d) (\<lambda>x s. True) (\<lambda>x. I)"
  by (rule tri_weaken [OF tri_branch_to [of c P]]) (use assms in auto)

lemma tri_true: "K \<subseteq> I \<Longrightarrow> tri c P K (retS x) (\<lambda>x s. True) (\<lambda>x. I)"
  by (rule tri_ret) auto

lemma tri_mov_if:
  assumes "\<And>s. P s \<Longrightarrow> opnd_ok c a s \<and> slot_ok c d s"
  shows "tri c P I (if k then emit c (BC_Mov a d) else retS ()) (\<lambda>x s. True) (\<lambda>x. I)"
    and "tri c P I (if k then retS () else emit c (BC_Mov a d)) (\<lambda>x s. True) (\<lambda>x. I)"
  using assms by (auto intro!: tri_emit_plain tri_skip)

lemma tri_list:
  assumes "xs = [] \<Longrightarrow> tri c P I m Q J" "\<And>y ys. xs = y # ys \<Longrightarrow> tri c P I (f y ys) Q J"
  shows "tri c P I (case xs of [] \<Rightarrow> m | y # ys \<Rightarrow> f y ys) Q J"
  using assms by (cases xs) simp_all

lemma tri_case_block:
  assumes "\<And>p l e. expr = AstNestedBlock p l e \<Longrightarrow> tri c P I (f p l e) Q J" "tri c P I m Q J"
  shows "tri c P I (case expr of AstNestedBlock p l e \<Rightarrow> f p l e | _ \<Rightarrow> m) Q J"
  using assms by (cases expr) simp_all

lemma nested_size: "e \<in> set body \<Longrightarrow> size (AstNestedBlock params locals body) < N \<Longrightarrow> size e < N"
  using size_list_estimation' [of e body "size e" size] by simp

subsection \<open>Control flow\<close>

lemma tri_inline_conditional:
  assumes cx: "good N cx" "\<And>e. e \<in> set body \<Longrightarrow> size e < N" and P: "stable c P" "\<And>s. P s \<Longrightarrow> here c b s"
    and br: "plain (fst br)" "\<And>s. P s \<Longrightarrow> slots_le (topslot s c) (fst br)" "\<And>s. P s \<Longrightarrow> opnd_ok c elseVal s \<and> slot_ok c destSlot s"
  shows "tri c P I (inline_conditional E cx c b locals body br elseVal clobberSlot destSlot isTopLevel) (\<lambda>x s. True) (\<lambda>x. I)"
  unfolding inline_conditional_def emit_branch_eq
  apply (rule tri_bind [OF P(1) tri_branch_plain], rule br, erule br)
  apply (rule tri_bind [OF _ tri_InlineBlock [OF cx]], intro stables P, assumption, intro stables P, simp add: P)
  apply (rule tri_if)
   apply (rule tri_bind [OF _ tri_GetCurLength], intro stables P)
   apply (rule tri_branch_last; simp)
  apply (rule tri_bind [OF _ tri_branch_plain], intro stables P, simp, simp)
  apply (rule tri_bind [OF _ tri_GetCurLength], intro stables P)
  apply (rule tri_bind [OF _ tri_branch_to], intro stables P, simp)
  apply (rule tri_bind [OF _ tri_emit_plain], intro stables P, simp, simp, simp add: br)
  apply (rule tri_bind [OF _ tri_GetCurLength], intro stables P)
  apply (rule tri_branch_last, simp, auto)
  done

lemma if_branch_ok: "plain (fst (if_branch V methId isTopLevel condSlot clobberSlot destSlot))"
  "slot_ok c condSlot s \<Longrightarrow> slot_ok c destSlot s \<Longrightarrow> slots_le (topslot s c) (fst (if_branch V methId isTopLevel condSlot clobberSlot destSlot))"
  by (simp_all add: if_branch_def)

lemma andor_branch_ok: "plain (fst (andor_branch V methId isTopLevel condSlot clobberSlot destSlot))"
  "slot_ok c condSlot s \<Longrightarrow> slot_ok c destSlot s \<Longrightarrow> slots_le (topslot s c) (fst (andor_branch V methId isTopLevel condSlot clobberSlot destSlot))"
  by (simp_all add: andor_branch_def Let_def)

lemma tri_try_if:
  assumes cx: "good N cx" "size receiver < N" "\<And>e. e \<in> set args \<Longrightarrow> size e < N"
    and P: "stable c P" "\<And>s. P s \<Longrightarrow> here c b s" "\<And>s. P s \<Longrightarrow> slot_ok c destSlot s"
  shows "tri c P I (try_if E cx c b receiver methId args clobberSlot destSlot isTopLevel) (\<lambda>x s. True) (\<lambda>x. I)"
  unfolding try_if_def Let_def
  apply (rule tri_bind [OF P(1) tri_getS_any])
  apply (rule tri_if)
   apply (rule tri_list, simp add: tri_fail)
   apply (rule tri_case_block)
    apply (rule tri_if)
     apply (rule tri_bind [OF _ tri_operand_slot [OF cx(1,2)]], (intro stables P)+, simp add: P)
     apply (rule tri_pair)
     apply (rule tri_bind [OF _ tri_inline_conditional [OF cx(1)]])
            apply (intro stables P)
           apply (erule nested_size, use cx(3) in fastforce)
          apply (intro stables P)
         apply (simp add: P)
        apply (rule if_branch_ok)
       apply (simp add: P if_branch_ok)
      apply (simp add: P)
     apply (rule tri_skip)+
  done
lemma tri_try_and_or:
  assumes cx: "good N cx" "size receiver < N" "\<And>e. e \<in> set args \<Longrightarrow> size e < N"
    and P: "stable c P" "\<And>s. P s \<Longrightarrow> here c b s" "\<And>s. P s \<Longrightarrow> slot_ok c destSlot s"
  shows "tri c P I (try_and_or E cx c b receiver methId args clobberSlot destSlot isTopLevel) (\<lambda>x s. True) (\<lambda>x. I)"
  unfolding try_and_or_def
  apply (rule tri_bind [OF P(1) tri_getS_any])
  apply (rule tri_if)
   apply (rule tri_list, simp add: tri_fail)
   apply (rule tri_case_block)
    apply (rule tri_if)
     apply (rule tri_bind [OF _ tri_operand_slot [OF cx(1,2)]], (intro stables P)+, simp add: P)
     apply (rule tri_pair)
     apply (rule tri_bind [OF _ tri_inline_conditional [OF cx(1)]])
            apply (intro stables P)
           apply (erule nested_size, use cx(3) in fastforce)
          apply (intro stables P)
         apply (simp add: P)
        apply (rule andor_branch_ok)
       apply (simp add: P andor_branch_ok)
      apply (simp add: P)
     apply (rule tri_skip)+
  done

lemma tri_try_if_else:
  assumes cx: "good N cx" "size receiver < N" "\<And>e. e \<in> set args \<Longrightarrow> size e < N"
    and P: "stable c P" "\<And>s. P s \<Longrightarrow> here c b s"
  shows "tri c P I (try_if_else E cx c b receiver methId args clobberSlot destSlot isTopLevel) (\<lambda>x s. True) (\<lambda>x. I)"
proof -
  have blocks: "tri c Q I (bindS (operand_slot E cx c b receiver clobberSlot) (\<lambda>(condSlot, _).
       bindS (emit_branch c (bc condSlot)) (\<lambda>branchBcLoc.
       bindS (InlineBlock E cx c b [] locals1 body1 clobberSlot destSlot isTopLevel) (\<lambda>_.
       bindS (emit_branch c BC_Branch) (\<lambda>elseBranchBcLoc.
       bindS (GetCurLength c) (\<lambda>here.
       bindS (branch_to E c branchBcLoc here) (\<lambda>_.
       bindS (InlineBlock E cx c b [] locals2 body2 clobberSlot destSlot False) (\<lambda>_.
       bindS (GetCurLength c) (\<lambda>here2.
       bindS (branch_to E c elseBranchBcLoc here2) (\<lambda>_. retS True))))))))) ) (\<lambda>x s. True) (\<lambda>x. I)"
    if Q: "stable c Q" "\<And>s. Q s \<Longrightarrow> here c b s" and bc: "\<And>k. plain (bc k)" "\<And>k t. slots_le t (bc k) \<longleftrightarrow> k \<le> t"
      and b: "\<And>e. e \<in> set body1 \<Longrightarrow> size e < N" "\<And>e. e \<in> set body2 \<Longrightarrow> size e < N" for Q bc locals1 body1 locals2 body2
    apply (rule tri_bind [OF Q(1) tri_operand_slot [OF cx(1,2)]], (intro Q stables)+, simp add: Q)
    apply (rule tri_pair)
    apply (rule tri_bind [OF _ tri_branch_plain], intro Q stables, rule bc, simp add: bc)
    apply (rule tri_bind [OF _ tri_InlineBlock [OF cx(1) b(1)]], intro stables Q, assumption, intro stables Q, simp add: Q)
    apply (rule tri_bind [OF _ tri_branch_plain], intro Q stables, simp, simp)
    apply (rule tri_bind [OF _ tri_GetCurLength], intro stables Q)
    apply (rule tri_bind [OF _ tri_branch_to], intro stables Q, simp)
    apply (rule tri_bind [OF _ tri_InlineBlock [OF cx(1) b(2)]], intro stables Q, assumption, intro stables Q, simp add: Q)
    apply (rule tri_bind [OF _ tri_GetCurLength], intro stables Q)
    apply (rule tri_bind [OF _ tri_branch_to], intro stables Q, simp)
    apply (rule tri_true, auto)
    done
  show ?thesis
    unfolding try_if_else_def emit_branch_eq
    apply (rule tri_bind [OF P(1) tri_getS_any])
    apply (rule tri_if)
     apply (rule tri_list, simp add: tri_fail)
     subgoal for V e es
       apply (cases es)
        apply (cases e; simp add: tri_fail)
       subgoal for e2 es2
         apply (cases e; cases e2; simp only: list.case AstExpr.case; (rule tri_skip)?)
         apply (rule tri_if)
          apply (rule blocks, intro stables P, simp add: P, simp, simp)
            apply (erule nested_size, use cx(3) in fastforce)
           apply (erule nested_size, use cx(3) in fastforce)
          apply (rule tri_skip)+
         done
       done
    apply (rule tri_skip)
    done
qed

lemma tri_try_while:
  assumes cx: "good N cx" "size receiver < N" "\<And>e. e \<in> set args \<Longrightarrow> size e < N"
    and P: "stable c P" "\<And>s. P s \<Longrightarrow> here c b s" "\<And>s. P s \<Longrightarrow> slot_ok c destSlot s" "\<And>s. P s \<Longrightarrow> slot_ok c clobberSlot s"
  shows "tri c P I (try_while E cx c b receiver methId args clobberSlot destSlot isTopLevel) (\<lambda>x s. True) (\<lambda>x. I)"
proof -
  have loop: "tri c Q I (bindS (GetCurLength c) (\<lambda>loopBeginOffset.
       bindS (InlineBlock E cx c b [] locals1 body1 clobberSlot clobberSlot False) (\<lambda>_.
       bindS (emit_branch c (BC_BranchIf f clobberSlot)) (\<lambda>checkCondOffset.
       bindS (InlineBlock E cx c b [] locals2 body2 clobberSlot clobberSlot True) (\<lambda>_.
       bindS (emit_branch c BC_BranchLoopHint) (\<lambda>endBranchBcLoc.
       bindS (branch_to E c endBranchBcLoc loopBeginOffset) (\<lambda>_.
       bindS (GetCurLength c) (\<lambda>here.
       bindS (branch_to E c checkCondOffset here) (\<lambda>_.
       bindS (if isTopLevel then retS () else emit c (BC_Mov (Cst TNil) destSlot)) (\<lambda>_. retS True)))))))))) (\<lambda>x s. True) (\<lambda>x. I)"
    if Q: "stable c Q" "\<And>s. Q s \<Longrightarrow> P s" and b: "\<And>e. e \<in> set body1 \<Longrightarrow> size e < N" "\<And>e. e \<in> set body2 \<Longrightarrow> size e < N"
    for Q f locals1 body1 locals2 body2
    apply (rule tri_bind [OF Q(1) tri_GetCurLength])
    apply (rule tri_bind [OF _ tri_InlineBlock [OF cx(1) b(1)]], intro stables Q, assumption, intro stables Q, simp add: Q P)
    apply (rule tri_bind [OF _ tri_branch_plain], intro Q stables, simp, simp add: Q P)
    apply (rule tri_bind [OF _ tri_InlineBlock [OF cx(1) b(2)]], intro stables Q, assumption, intro stables Q, simp add: Q P)
    apply (rule tri_bind [OF _ tri_branch_plain], intro Q stables, simp, simp)
    apply (rule tri_bind [OF _ tri_branch_to], intro stables Q, simp)
    apply (rule tri_bind [OF _ tri_GetCurLength], intro stables Q)
    apply (rule tri_bind [OF _ tri_branch_to], intro stables Q, simp)
    apply (rule tri_bind [OF _ tri_mov_if(2)], intro stables Q, simp add: Q P)
    apply (rule tri_true, auto)
    done
  show ?thesis
    unfolding try_while_def emit_branch_eq
    apply (rule tri_bind [OF P(1) tri_getS_any])
    apply (rule tri_if)
     apply (cases receiver; cases args; simp only: prod.case list.case AstExpr.case; (rule tri_skip | (rule tri_fail, simp))?)
     subgoal for V params1 locals1 body1 e es
       apply (cases e; simp only: prod.case list.case AstExpr.case; (rule tri_skip)?)
       apply (rule tri_if)
        apply (rule loop, intro stables P, simp)
          apply (erule nested_size, use cx(2) in simp)
         apply (erule nested_size, use cx(3) in fastforce)
        apply (rule tri_skip)+
       done
    apply (rule tri_skip)
    done
qed

lemma tri_try_for:
  assumes cx: "good N cx" "size receiver < N" "\<And>e. e \<in> set args \<Longrightarrow> size e < N"
    and P: "stable c P" "\<And>s. P s \<Longrightarrow> here c b s" "\<And>s. P s \<Longrightarrow> slot_ok c destSlot s" "\<And>s. P s \<Longrightarrow> slot_ok c (clobber0 + 1) s"
  shows "tri c P I (try_for E cx c b receiver methId args clobber0 destSlot isTopLevel) (\<lambda>x s. True) (\<lambda>x. I)"
proof -
  have loop: "tri c Q I (bindS (cx False c b limit (k + 1) (k + 1)) (\<lambda>_.
       bindS (UpdateTopSlot c (k + 2)) (\<lambda>_.
       bindS (emit_branch c (BC_CheckForLoopStartCond isTo k (k + 1) (k + 2))) (\<lambda>loopStartOffset.
       bindS (GetCurLength c) (\<lambda>bodyStartOffset.
       bindS (InlineBlock E cx c b params locals body (k + 2) (k + 2) True) (\<lambda>_.
       bindS (emit_branch c (BC_ForLoopStep isTo k)) (\<lambda>loopCheckOffset.
       bindS (branch_to E c loopCheckOffset bodyStartOffset) (\<lambda>_.
       bindS (GetCurLength c) (\<lambda>here.
       bindS (branch_to E c loopStartOffset here) (\<lambda>_.
       bindS (if \<not> isTopLevel \<and> k - 1 \<noteq> destSlot then emit c (BC_Mov (Loc (k - 1)) destSlot) else retS ()) (\<lambda>_.
       retS True))))))))))) (\<lambda>x s. True) (\<lambda>x. I)"
    if Q: "stable c Q" "\<And>s. Q s \<Longrightarrow> P s" and b: "size limit < N" "\<And>e. e \<in> set body \<Longrightarrow> size e < N" for Q k limit params locals body isTo
  proof -
    have le: "slot_ok c (k + 2) s \<Longrightarrow> slot_ok c k s" "slot_ok c (k + 2) s \<Longrightarrow> slot_ok c (k + 1) s" "slot_ok c (k + 2) s \<Longrightarrow> slot_ok c (k - 1) s" for s
      by (erule slot_ok_mono, simp)+
    show ?thesis
      apply (rule tri_bind [OF Q(1) tri_cx [OF cx(1) b(1)]], simp add: Q P)
      apply (rule tri_bind [OF _ tri_UpdateTopSlot], intro stables Q)
      apply (rule tri_bind [OF _ tri_branch_plain], intro stables Q, simp, simp add: le)
      apply (rule tri_bind [OF _ tri_GetCurLength], intro stables Q)
      apply (rule tri_bind [OF _ tri_InlineBlock [OF cx(1) b(2)]], intro stables Q, assumption, intro stables Q, simp add: Q P)
      apply (rule tri_bind [OF _ tri_branch_plain], intro stables Q, simp, simp)
      apply (rule tri_bind [OF _ tri_branch_to], intro stables Q, simp)
      apply (rule tri_bind [OF _ tri_GetCurLength], intro stables Q)
      apply (rule tri_bind [OF _ tri_branch_to], intro stables Q, simp)
      apply (rule tri_bind [OF _ tri_mov_if(1)], intro stables Q, simp only: opnd_ok_simps, blast intro: le Q P)
      apply (rule tri_true, auto)
      done
  qed
  show ?thesis
    unfolding try_for_def emit_branch_eq Let_def
    apply (rule tri_bind [OF P(1) tri_getS_any])
    apply (rule tri_if)
     apply (rule tri_list, simp add: tri_fail)
     subgoal for V limit es
       apply (rule tri_list, simp add: tri_fail)
       apply (rule tri_case_block)
        apply (rule tri_if)
         apply (rule tri_bind [OF _ tri_cx [OF cx(1,2)]], intro stables P, simp add: P)
         apply (rule tri_bind [OF _ tri_mov_if(2)], intro stables P, use P(4) slot_ok_mono in fastforce)
         apply (rule loop, intro stables P, simp)
          apply (use cx(3) in fastforce)
         apply (erule nested_size, use cx(3) in fastforce)
        apply (rule tri_skip)+
       done
    apply (rule tri_skip)
    done
qed

subsection \<open>Operators\<close>

lemma tri_is_false_true_nil:
  assumes "stable c P" "\<And>s. P s \<Longrightarrow> here c b s"
  shows "tri c P I (is_false_true_nil E b e) (\<lambda>x s. True) (\<lambda>x. I)"
  unfolding is_false_true_nil_def using assms by (cases e) (auto intro!: tri_skip tri_IsVariableResolvedTo)

lemma tri_skip_arith:
  assumes P: "stable c P" "\<And>s. P s \<Longrightarrow> here c b s"
  shows "tri c P I (skip_arith E V b selectorStringId receiver arg) (\<lambda>x s. True) (\<lambda>x. I)"
  unfolding skip_arith_def
  apply (intro tri_if, rule tri_skip, rule tri_skip)
  apply (rule tri_bind [OF P(1) tri_is_false_true_nil], rule P, simp add: P)
  apply (rule tri_bind [OF _ tri_is_false_true_nil], (intro stables P)+, simp add: P)
  apply (rule tri_skip)
  done

lemma arith_bytecode_ok: "plain (arith_bytecode V sel a a' d)" "\<not> is_branch (arith_bytecode V sel a a' d)"
  "opnd_ok c a s \<Longrightarrow> opnd_ok c a' s \<Longrightarrow> slot_ok c d s \<Longrightarrow> slots_le (topslot s c) (arith_bytecode V sel a a' d)"
  by (simp_all add: arith_bytecode_def split: option.split prod.split)

lemma unary_bytecode_ok: "plain (unary_bytecode V sel k d)" "\<not> is_branch (unary_bytecode V sel k d)"
  "slot_ok c k s \<Longrightarrow> slot_ok c d s \<Longrightarrow> slots_le (topslot s c) (unary_bytecode V sel k d)"
  by (simp_all add: unary_bytecode_def)

lemma tri_try_arith:
  assumes cx: "good N cx" "size receiver < N" "\<And>e. e \<in> set args \<Longrightarrow> size e < N"
    and P: "stable c P" "\<And>s. P s \<Longrightarrow> here c b s" "\<And>s. P s \<Longrightarrow> slot_ok c destSlot s"
  shows "tri c P I (try_arith E cx c b receiver sel args clobberSlot destSlot) (\<lambda>x s. True) (\<lambda>x. I)"
  unfolding try_arith_def
  apply (rule tri_bind [OF P(1) tri_getS_any])
  apply (rule tri_if)
   apply (rule tri_list, simp add: tri_fail)
   apply (rule tri_bind [OF _ tri_skip_arith], (intro stables P)+, simp add: P)
   apply (rule tri_if, rule tri_skip)
   apply (rule tri_bind [OF _ tri_operand [OF cx(1,2)]], (intro stables P)+, simp add: P)
   apply (rule tri_pair)
   apply (rule tri_bind [OF _ tri_operand [OF cx(1) cx(3)]], intro stables P, simp, intro stables P, simp add: P)
   apply (rule tri_pair)
   apply (rule tri_bind [OF _ tri_UpdateTopSlot], intro stables P)
   apply (rule tri_bind [OF _ tri_emit_plain], intro stables P, rule arith_bytecode_ok, rule arith_bytecode_ok, simp add: P arith_bytecode_ok)
   apply (rule tri_skip)+
  done

lemma tri_misc_operand:
  assumes cx: "good N cx" "size expr < N" and P: "stable c P" "\<And>s. P s \<Longrightarrow> here c b s"
  shows "tri c P I (if k then operand E cx c b expr cur else bindS (operand_slot E cx c b expr cur) (\<lambda>(slot, cur). retS (Loc slot, cur)))
     (\<lambda>r. opnd_ok c (fst r)) (\<lambda>x. I)"
  apply (rule tri_if, rule tri_operand [OF cx P], assumption)
  apply (rule tri_bind [OF P(1) tri_operand_slot [OF cx P]], assumption)
  apply (rule tri_pair, rule tri_ret; simp)
  done

lemma tri_try_misc_binary:
  assumes cx: "good N cx" "size receiver < N" "\<And>e. e \<in> set args \<Longrightarrow> size e < N"
    and P: "stable c P" "\<And>s. P s \<Longrightarrow> here c b s" "\<And>s. P s \<Longrightarrow> slot_ok c destSlot s"
  shows "tri c P I (try_misc_binary E cx c b receiver sel args clobberSlot destSlot) (\<lambda>x s. True) (\<lambda>x. I)"
  unfolding try_misc_binary_def
  apply (rule tri_list, rule tri_skip)
  apply (rule tri_list)
   apply (rule tri_bind [OF P(1) tri_getS_any])
   apply (rule tri_option, rule tri_skip)
   apply (rule tri_pair)
   apply (rule tri_bind [OF _ tri_operand_slot [OF cx(1,2)]], (intro stables P)+, simp add: P)
   apply (rule tri_pair)
   apply (rule tri_bind [OF _ tri_misc_operand [OF cx(1) cx(3)]], intro stables P, simp, intro stables P, simp add: P)
   apply (rule tri_pair)
   apply (rule tri_bind [OF _ tri_UpdateTopSlot], intro stables P)
   apply (rule tri_bind [OF _ tri_emit_plain], intro stables P, simp, simp, simp add: P)
   apply (rule tri_skip)+
  done

lemma tri_try_unary:
  assumes cx: "good N cx" "size receiver < N"
    and P: "stable c P" "\<And>s. P s \<Longrightarrow> here c b s" "\<And>s. P s \<Longrightarrow> slot_ok c destSlot s"
  shows "tri c P I (try_unary E cx c b receiver sel args clobberSlot destSlot) (\<lambda>x s. True) (\<lambda>x. I)"
  unfolding try_unary_def
  apply (rule tri_bind [OF P(1) tri_getS_any])
  apply (rule tri_if)
   apply (rule tri_bind [OF _ tri_operand_slot [OF cx]], (intro stables P)+, simp add: P)
   apply (rule tri_pair)
   apply (rule tri_bind [OF _ tri_emit_plain], intro stables P, rule unary_bytecode_ok, rule unary_bytecode_ok, simp add: P unary_bytecode_ok)
   apply (rule tri_skip)+
  done

lemma tri_try_ternary:
  assumes cx: "good N cx" "size receiver < N" "\<And>e. e \<in> set args \<Longrightarrow> size e < N"
    and P: "stable c P" "\<And>s. P s \<Longrightarrow> here c b s" "\<And>s. P s \<Longrightarrow> slot_ok c destSlot s"
  shows "tri c P I (try_ternary E cx c b receiver sel args clobberSlot destSlot) (\<lambda>x s. True) (\<lambda>x. I)"
  unfolding try_ternary_def
  apply (rule tri_list, rule tri_skip)
  apply (rule tri_list, rule tri_skip)
  apply (rule tri_list)
   apply (rule tri_bind [OF P(1) tri_getS_any])
   apply (rule tri_if)
    apply (rule tri_bind [OF _ tri_operand_slot [OF cx(1,2)]], (intro stables P)+, simp add: P)
    apply (rule tri_pair)
    apply (rule tri_bind [OF _ tri_operand [OF cx(1) cx(3)]], intro stables P, simp, intro stables P, simp add: P)
    apply (rule tri_pair)
    apply (rule tri_bind [OF _ tri_operand [OF cx(1) cx(3)]], intro stables P, simp, intro stables P, simp add: P)
    apply (rule tri_pair)
    apply (rule tri_bind [OF _ tri_UpdateTopSlot], intro stables P)
    apply (rule tri_bind [OF _ tri_emit_plain], intro stables P, simp, simp, simp add: P)
    apply (rule tri_skip)+
  done

subsection \<open>Calls\<close>

lemma tri_compile_args:
  assumes cx: "good N cx" "\<And>e. e \<in> set args \<Longrightarrow> size e < N" and P: "stable c P" "\<And>s. P s \<Longrightarrow> here c b s"
  shows "tri c P I (compile_args cx c b k args) (\<lambda>x s. True) (\<lambda>x. I)"
  using cx(2)
proof (induction args arbitrary: k)
  case (Cons arg args)
  show ?case unfolding compile_args.simps
    apply (rule tri_bind [OF P(1) tri_cx [OF cx(1)]], use Cons.prems in simp, simp add: P)
    apply (rule tri_pre [OF Cons.IH]; use Cons.prems in simp)
    done
qed (unfold compile_args.simps, rule tri_skip)

lemma call_slots: "slot_ok c (k + x_numSlotsForStackFrameHeader + n) s \<Longrightarrow>
   k + x_numSlotsForStackFrameHeader + unat (of_nat (n + 1) :: u16) \<le> topslot s c + 1"
  using unat_of_nat_le [of "n + 1", where 'a = 16] by (simp add: slot_ok_def del: slot_ok_fold)

lemma tri_compile_call:
  assumes cx: "good N cx" "size receiver < N" "\<And>e. e \<in> set args \<Longrightarrow> size e < N"
    and P: "stable c P" "\<And>s. P s \<Longrightarrow> here c b s" "\<And>s. P s \<Longrightarrow> slot_ok c destSlot s"
      "\<And>s. P s \<Longrightarrow> slot_ok c (clobberSlot + x_numSlotsForStackFrameHeader + length args) s"
  shows "tri c P I (compile_call E cx c b receiver sel args clobberSlot destSlot) (\<lambda>x s. True) (\<lambda>x. I)"
proof -
  have rcv: "tri c P I (if k then cx False c b receiver i j else retS ()) (\<lambda>x s. True) (\<lambda>x. I)" for k i j
    by (rule tri_if, rule tri_drop, rule tri_cx [OF cx(1,2) P(2)], assumption, rule tri_skip)
  note call = call_slots [OF P(4)] P(3)
  show ?thesis unfolding compile_call_def Let_def
    apply (rule tri_bind [OF P(1) rcv])
    apply (rule tri_bind [OF _ tri_compile_args [OF cx(1,3)]], intro stables P, assumption, intro stables P, simp add: P)
    apply (rule tri_bind [OF _ tri_getS_any], intro stables P)
    apply (rule tri_option, simp add: tri_fail)
    apply (rule tri_if, rule tri_emit_plain, simp, simp, use call in \<open>simp del: of_nat_add\<close>)
    apply (rule tri_if, rule tri_emit_plain, simp, simp, use call in \<open>simp del: of_nat_add\<close>)
    apply (rule tri_option, simp add: tri_fail)
    apply (rule tri_emit_plain, simp, simp, use call in \<open>simp del: of_nat_add\<close>)
    done
qed

lemma tri_first_success:
  assumes "stable c P" "\<And>m. m \<in> set ms \<Longrightarrow> tri c P I m (\<lambda>x s. True) (\<lambda>x. I)"
  shows "tri c P I (first_success ms) (\<lambda>x s. True) (\<lambda>x. I)"
  using assms(2)
proof (induction ms)
  case (Cons m ms)
  show ?case unfolding first_success.simps
    apply (rule tri_bind [OF assms(1) Cons.prems], simp)
    apply (rule tri_if, rule tri_skip)
    apply (rule tri_pre [OF Cons.IH]; use Cons.prems in simp)
    done
qed (unfold first_success.simps, rule tri_skip)

lemma tri_call_attempts:
  assumes cx: "good N cx" "size receiver < N" "\<And>e. e \<in> set args \<Longrightarrow> size e < N"
    and P: "stable c P" "\<And>s. P s \<Longrightarrow> here c b s" "\<And>s. P s \<Longrightarrow> slot_ok c destSlot s"
      "\<And>s. P s \<Longrightarrow> slot_ok c (clobberSlot + x_numSlotsForStackFrameHeader + length args) s"
    and m: "m \<in> set (call_attempts E cx V c b receiver sel args clobberSlot destSlot isTopLevel)"
  shows "tri c P I m (\<lambda>x s. True) (\<lambda>x. I)"
proof -
  have le: "slot_ok c clobberSlot s" "slot_ok c (clobberSlot + 1) s" if "P s" for s
    using P(4) [OF that] by (auto elim!: slot_ok_mono simp: x_numSlotsForStackFrameHeader_def)
  show ?thesis
    using m tri_try_if [OF cx P(1-3)] tri_try_if_else [OF cx P(1,2)] tri_try_and_or [OF cx P(1-3)] tri_try_while [OF cx P(1-3) le(1)]
      tri_try_for [OF cx P(1-3) le(2)] tri_try_arith [OF cx P(1-3)] tri_try_misc_binary [OF cx P(1-3)] tri_try_unary [OF cx(1,2) P(1-3)]
      tri_try_ternary [OF cx P(1-3)]
    unfolding call_attempts_def by (auto split: if_splits)
qed

lemma tri_CompileSOMCall:
  assumes cx: "good N cx" "size receiver < N" "\<And>e. e \<in> set args \<Longrightarrow> size e < N" and P: "stable c P" "\<And>s. P s \<Longrightarrow> here c b s"
  shows "tri c P I (CompileSOMCall E cx c b receiver sel args clobberSlot destSlot isTopLevel) (\<lambda>x. slot_ok c destSlot) (\<lambda>x. I)"
  unfolding CompileSOMCall_def
  apply (rule tri_bind [OF P(1) tri_UpdateTopSlot], rule tri_keep, intro stables P, simp)
  apply (rule tri_bind [OF _ tri_UpdateTopSlot], intro stables P)
  apply (rule tri_bind [OF _ tri_getS_any], intro stables P)
  apply (rule tri_bind [OF _ tri_first_success], (intro stables P)+)
   apply (rule tri_call_attempts [OF cx, rotated -1], assumption, assumption, intro stables P, simp add: P, simp, simp)
  apply (rule tri_if, rule tri_skip)
  apply (rule tri_compile_call [OF cx], assumption, intro stables P, simp add: P, simp, simp)
  done

lemma CompileExpression_good: "good n (CompileExpression E n)"
proof (induction n)
  case (Suc n)
  have call: "tri c (here c b) I (CompileSOMCall E (CompileExpression E n) c b receiver sel args clobberSlot destSlot isTopLevel) (\<lambda>x. slot_ok c destSlot) (\<lambda>x. I)"
    if "size receiver < n" "\<And>e. e \<in> set args \<Longrightarrow> size e < n" for c b I receiver sel args clobberSlot destSlot isTopLevel
    by (rule tri_CompileSOMCall [OF Suc.IH that stable_here], assumption)
  have "tri c (here c b) I (CompileExpression E (Suc n) isTopLevel c b node clobberSlot destSlot) (\<lambda>x. slot_ok c destSlot) (\<lambda>x. I)"
    if "size node < Suc n" for c b I isTopLevel node clobberSlot destSlot
  proof (cases node)
    case (AstVariableUse name)
    then show ?thesis by (simp add: tri_CompileVarUse [OF stable_here])
  next
    case (AstAssignation lhs rhs)
    then show ?thesis using that by (simp add: tri_CompileAssignation [OF Suc.IH _ stable_here])
  next
    case (AstNestedBlock params locals body)
    have "\<And>e. e \<in> set body \<Longrightarrow> size e < n" using that size_list_estimation' [of _ body _ size] unfolding AstNestedBlock by fastforce
    then show ?thesis by (simp add: AstNestedBlock tri_CompileNewBlock [OF Suc.IH _ stable_here])
  next
    case (AstReturn e)
    then show ?thesis by (simp add: tri_fail)
  next
    case (AstUnaryCall selector receiver)
    then show ?thesis using that by (auto intro!: call)
  next
    case (AstBinaryCall selector receiver argument)
    then show ?thesis using that by (auto intro!: call)
  next
    case (AstKeywordCall selector receiver arguments)
    have "\<And>e. e \<in> set arguments \<Longrightarrow> size e < n" using that size_list_estimation' [of _ arguments _ size] unfolding AstKeywordCall by fastforce
    then show ?thesis using that by (auto simp: AstKeywordCall intro!: call)
  qed (simp_all add: tri_CompileAstLiteral [OF stable_here])
  then show ?case by (simp add: good_def)
qed (simp add: good_def)

end
