(* ===== verification/CompileCode.thy ===== *)
theory CompileCode
  imports CompileCalls
begin

section \<open>The compiler: the code blocks of a method are well-formed\<close>

text \<open>
  What the interpreter relies on in a code block: all operands are slots of its frame, every branch has a target inside the
  code, the code ends by leaving the function, upvalue ordinals and code blocks exist, a read of an upvalue
  uses the bytecode for its kind, and each upvalue is described by an existing slot or upvalue of the enclosing function.
\<close>

subsection \<open>Well-formed code blocks\<close>

fun get_matches :: "UpvalueMetadata list \<Rightarrow> bytecode \<Rightarrow> bool" where
  "get_matches infos (BC_UpvalueGetMutable ord d) \<longleftrightarrow> \<not> um_isImmutable (infos ! unat ord)"
| "get_matches infos (BC_UpvalueGetImmutable ord d) \<longleftrightarrow> um_isImmutable (infos ! unat ord)"
| "get_matches infos _ \<longleftrightarrow> True"

definition bytecodes_ok :: "UnlinkedCodeBlock list \<Rightarrow> UnlinkedCodeBlock \<Rightarrow> bool" where
  "bytecodes_ok ucbs u \<longleftrightarrow> (let bcs = ucb_bytecode u; infos = ucb_upvalueInfo u in
     bcs \<noteq> [] \<and> is_exit (fst (last bcs)) \<and> 0 < ucb_stackFrameNumSlots u
     \<and> (\<forall>x \<in> set bcs. slots_le (ucb_stackFrameNumSlots u - 1) (fst x) \<and> refs_lt (length infos) (length ucbs) (fst x) \<and> get_matches infos (fst x)
          \<and> (is_branch (fst x) \<longrightarrow> snd x \<noteq> None) \<and> (\<forall>d. snd x = Some d \<longrightarrow> d < length bcs)))"

definition upvalue_ok :: "UnlinkedCodeBlock \<Rightarrow> UpvalueMetadata \<Rightarrow> bool" where
  "upvalue_ok pu m \<longleftrightarrow>
     (if um_isParentLocal m then um_slot m < ucb_stackFrameNumSlots pu
      else um_slot m < length (ucb_upvalueInfo pu) \<and> um_isImmutable (ucb_upvalueInfo pu ! um_slot m) = um_isImmutable m)"

definition code_block_ok :: "UnlinkedCodeBlock list \<Rightarrow> UnlinkedCodeBlock \<Rightarrow> bool" where
  "code_block_ok ucbs u \<longleftrightarrow> bytecodes_ok ucbs u \<and> (case ucb_parent u of
       None \<Rightarrow> ucb_upvalueInfo u = []
     | Some p \<Rightarrow> p < length ucbs \<and> (\<forall>m \<in> set (ucb_upvalueInfo u). upvalue_ok (ucbs ! p) m))"

subsection \<open>The body of a method\<close>

lemma tri_trivial_return:
  assumes P: "stable c P" "\<And>s. P s \<Longrightarrow> here c b s"
  shows "tri c P I (trivial_return E b body) (\<lambda>x s. True) (\<lambda>x. I)"
proof -
  have lit: "tri c P I (bindS (liftV (CreateConstantNonArray val)) (\<lambda>v. retS (f v))) (\<lambda>x s. True) (\<lambda>x. I)" for val and f :: "val \<Rightarrow> SOMMethodLookupResultKind \<times> upval"
    by (rule tri_bind [OF P(1) tri_liftV], rule unfuelleds, rule tri_skip)
  have var: "tri c P I (bindS (ResolveVariable E b name DryRun) (\<lambda>vr. retS (f vr))) (\<lambda>x s. True) (\<lambda>x. I)" for name
    and f :: "VarResolveResult \<Rightarrow> SOMMethodLookupResultKind \<times> upval"
    by (rule tri_bind [OF P(1) tri_ResolveVariable], rule P, simp add: P, rule tri_skip)
  show ?thesis unfolding trivial_return_def
    by (auto intro!: tri_skip lit var split: list.split AstExpr.split)
qed

lemma tri_trivial_setter:
  assumes P: "stable c P" "\<And>s. P s \<Longrightarrow> here c b s"
  shows "tri c P I (trivial_setter E b params body) (\<lambda>x s. True) (\<lambda>x. I)"
proof -
  have var: "tri c P I (bindS (ResolveVariable E b name DryRun) (\<lambda>vr. retS (f vr))) (\<lambda>x s. True) (\<lambda>x. I)" for name
    and f :: "VarResolveResult \<Rightarrow> nat option"
    by (rule tri_bind [OF P(1) tri_ResolveVariable], rule P, simp add: P, rule tri_skip)
  show ?thesis unfolding trivial_setter_def
    by (auto intro!: tri_skip var split: list.split option.split)
qed

lemma tri_triviality:
  assumes P: "stable c P" "\<And>s. P s \<Longrightarrow> here c b s"
  shows "tri c P I (triviality E b meth) (\<lambda>x s. True) (\<lambda>x. I)"
  unfolding triviality_def
  apply (rule tri_bind [OF P(1) tri_trivial_return [OF P]], assumption)
  apply (rule tri_bind [OF _ tri_trivial_setter], (intro stables P)+, simp add: P)
  apply (rule tri_skip)
  done

lemma uninstall_all_run: "uninstall_all names s = Inr (x, s') \<Longrightarrow> \<exists>M. s' = s\<lparr>cs_localVarMap := M\<rparr>"
proof (induction names arbitrary: s)
  case Nil
  then have "s' = s\<lparr>cs_localVarMap := cs_localVarMap s\<rparr>" by simp
  then show ?case by blast
next
  case (Cons name names)
  then obtain M where "uninstall_all names (s\<lparr>cs_localVarMap := M\<rparr>) = Inr (x, s')"
    by (auto simp: UninstallLocalVariable_def bindS_def split: list.splits)
  then show ?case using Cons.IH [of "s\<lparr>cs_localVarMap := M\<rparr>"] by auto
qed

lemma uninstall_fuel: "uninstall_all names s \<noteq> Inl OutOfFuel"
  by (induction names arbitrary: s) (auto simp: UninstallLocalVariable_def bindS_def bindR_eq_Inl split: list.splits)

lemma tri_uninstall_body: "tri c (\<lambda>s. P s \<and> body_done c b s) I (UninstallLocalVariables params locals) (\<lambda>x. body_done c b) (\<lambda>x. I)"
proof (rule tri_quiet)
  fix s show "UninstallLocalVariables params locals s \<noteq> Inl OutOfFuel"
    by (auto simp: UninstallLocalVariables_def bindS_def bindR_eq_Inl uninstall_fuel)
next
  fix s x s' assume s: "P s \<and> body_done c b s" and run: "UninstallLocalVariables params locals s = Inr (x, s')"
  obtain M where "s' = s\<lparr>cs_localVarMap := M\<rparr>"
    using run by (auto simp: UninstallLocalVariables_def elim!: bindS_InrE dest!: uninstall_all_run)
  then show "quiet s s' \<and> body_done c b s'" using s by (simp add: body_done_def code_ends_def owner_def code_of_def)
qed

lemma method_sizes: "e \<in> set (am_body meth) \<Longrightarrow> size e < method_fuel meth"
  using size_list_estimation' [of e "am_body meth" "size e" size] by (simp add: method_fuel_def)

text \<open>The translation of a method, in the parts before and after its triviality is recorded.\<close>

definition method_head :: "cenv \<Rightarrow> AstMethod \<Rightarrow> (nat \<times> SOMMethodLookupResultKind \<times> upval) cop" where
  "method_head E meth =
     bindS (InstallLocalVariables 0 0 (am_params meth) (am_locals meth) 1) (\<lambda>firstFreeSlot.
     bindS (upd_ctx 0 (\<lambda>t. t\<lparr>tc_historyTopSlot := firstFreeSlot\<rparr>)) (\<lambda>_.
     bindS (triviality E 0 meth) (\<lambda>t. retS (firstFreeSlot, t))))"

definition set_kind :: "SOMMethodLookupResultKind \<Rightarrow> upval \<Rightarrow> unit cop" where
  "set_kind kind info =
     (if kind \<noteq> SOM_NormalMethod
      then upd_ctx 0 (\<lambda>t. t\<lparr>tc_resultUcb := (tc_resultUcb t)\<lparr>ucb_trivialFnType := kind, ucb_trivialFnInfo := info\<rparr>\<rparr>)
      else retS ())"

definition method_tail :: "cenv \<Rightarrow> AstMethod \<Rightarrow> nat \<Rightarrow> unit cop" where
  "method_tail E meth firstFreeSlot =
     bindS (CompileBlockBody E (CompileExpression E (method_fuel meth)) 0 0 (am_body meth) firstFreeSlot) (\<lambda>_.
     UninstallLocalVariables (am_params meth) (am_locals meth))"

lemma tri_method_head: "tri 0 (\<lambda>s. here 0 0 s \<and> topslot s 0 = 0) {} (method_head E meth) (\<lambda>x. here 0 0) (\<lambda>x. {})"
  unfolding method_head_def install_top [where h = "\<lambda>_ n. n"]
  apply (rule tri_bind_pre [where P = "here 0 0"], rule stables, simp, rule tri_pre [OF tri_set_top], simp)
  apply (rule tri_bind [OF _ tri_InstallLocalVariables], (intro stables)+, simp)
  apply (rule tri_bind [OF _ tri_triviality], (intro stables)+, simp)
  apply (rule tri_ret, simp, simp)
  done

lemma tri_method_tail: "tri 0 (here 0 0) {} (method_tail E meth n) (\<lambda>x. body_done 0 0) (\<lambda>x. {})"
  unfolding method_tail_def
  apply (rule tri_bind [OF _ tri_CompileBlockBody [OF CompileExpression_good method_sizes]], intro stables, assumption, intro stables, simp)
  apply (rule tri_uninstall_body)
  done

text \<open>Recording the triviality changes nothing else.\<close>

lemma set_kind_run:
  assumes "set_kind kind info s = Inr (x, s')"
  shows "cs_ok s' = cs_ok s" "here 0 0 s' = here 0 0 s" "length (cs_ctxs s') = length (cs_ctxs s)" "code_of s' c = code_of s c" "owner s' b = owner s b"
proof -
  let ?f = "\<lambda>t. t\<lparr>tc_resultUcb := (tc_resultUcb t)\<lparr>ucb_trivialFnType := kind, ucb_trivialFnInfo := info\<rparr>\<rparr>"
  let ?ts = "(cs_ctxs s)[0 := ?f (cs_ctxs s ! 0)]"
  have same: "tc_builder (?ts ! c) = tc_builder (cs_ctxs s ! c)" "tc_historyTopSlot (?ts ! c) = tc_historyTopSlot (cs_ctxs s ! c)"
    "tc_allUpvalueGetBytecodes (?ts ! c) = tc_allUpvalueGetBytecodes (cs_ctxs s ! c)" "tc_resultBCtx (?ts ! c) = tc_resultBCtx (cs_ctxs s ! c)"
    "ucb_parent (tc_resultUcb (?ts ! c)) = ucb_parent (tc_resultUcb (cs_ctxs s ! c))" "map tc_resultBCtx ?ts = map tc_resultBCtx (cs_ctxs s)" for c
    by (cases "c = 0"; cases "cs_ctxs s"; simp)+
  have s': "s' = s \<or> s' = s\<lparr>cs_ctxs := ?ts\<rparr>" using assms by (auto simp: set_kind_def upd_ctx_def split: if_splits)
  have views: "topslot (s\<lparr>cs_ctxs := ?ts\<rparr>) c = topslot s c" "owner (s\<lparr>cs_ctxs := ?ts\<rparr>) b = owner s b" "parent (s\<lparr>cs_ctxs := ?ts\<rparr>) b = parent s b"
    "uvs (s\<lparr>cs_ctxs := ?ts\<rparr>) b = uvs s b" "def_owner (s\<lparr>cs_ctxs := ?ts\<rparr>) v = def_owner s v" "code_of (s\<lparr>cs_ctxs := ?ts\<rparr>) c = code_of s c" for b c v
    by (simp_all add: topslot_def owner_def parent_def uvs_def def_owner_def code_of_def same)
  have "cs_ok (s\<lparr>cs_ctxs := ?ts\<rparr>) = cs_ok s"
    unfolding cs_ok_def bctx_ok_def uvs_ok_def uv_ok_def var_ok_def place_ok_def code_ok_def bc_ok_def Let_def views
    by (simp add: same del: slot_ok_fold cong: option.case_cong)
  then show "cs_ok s' = cs_ok s" using s' by blast
  show "here 0 0 s' = here 0 0 s" "length (cs_ctxs s') = length (cs_ctxs s)" "code_of s' c = code_of s c" "owner s' b = owner s b"
    using s' views by (auto simp: here_def same)
qed

definition method_start :: "VM \<Rightarrow> CS" where
  "method_start V = \<lparr>cs_vm = V, cs_vars = [], cs_bctxs = [new_bctx 0 None 0 None], cs_ctxs = [new_ctx UnlinkedCodeBlock_Create 0], cs_localVarMap = (\<lambda>_. [])\<rparr>"

lemma compile_method_body_run:
  "compile_method_body E meth (initial_cs V) = bindS (method_head E meth) (\<lambda>(n, kind, info). bindS (set_kind kind info) (\<lambda>_. method_tail E meth n)) (method_start V)"
  by (simp add: compile_method_body_def method_head_def set_kind_def method_tail_def initial_cs_def alloc_bctx_def alloc_ctx_def bindS_app method_start_def
      bindR_assoc split_def cong: if_cong)

lemma method_start_ok: "cs_ok (method_start V)" "here 0 0 (method_start V)" "topslot (method_start V) 0 = 0" "owner (method_start V) 0 = 0"
  "code_of (method_start V) 0 = []"
  by (simp_all add: cs_ok_def method_start_def bctx_ok_def uvs_ok_def place_ok_def code_ok_def here_def owner_def parent_def uvs_def topslot_def
      code_of_def new_bctx_def new_ctx_def UnlinkedCodeBlock_Create_def)

text \<open>After the translation of a method every context has complete code.\<close>

lemma compile_method_body_ok:
  shows "compile_method_body E meth (initial_cs V) \<noteq> Inl OutOfFuel"
    and "compile_method_body E meth (initial_cs V) = Inr (x, s) \<Longrightarrow> cs_ok s \<and> cs_ctxs s \<noteq> []
       \<and> (\<forall>c < length (cs_ctxs s). ends (code_of s c) \<and> pending (code_of s c) = {})"
proof -
  let ?t = "method_start V"
  have pre: "cs_ok ?t" "0 < length (cs_ctxs ?t)" "here 0 0 ?t \<and> topslot ?t 0 = 0"
    using method_start_ok by (simp_all add: method_start_def)
  have mid: "cs_ok s2 \<and> 0 < length (cs_ctxs s2) \<and> here 0 0 s2 \<and> owner s2 0 = 0 \<and> pending (code_of s2 0) = {}
      \<and> (\<forall>c < length (cs_ctxs s2). 0 < c \<longrightarrow> ends (code_of s2 c) \<and> pending (code_of s2 c) = {})"
    if h: "method_head E meth ?t = Inr (y, s1)" and k: "set_kind kind info s1 = Inr (z, s2)" for y z kind info s1 s2
  proof -
    note d = triD [OF tri_method_head pre h] and k' = set_kind_run [OF k]
    have "owner s1 0 = 0" using d(2) extends_facts(1) [of ?t s1 0] method_start_ok(4) by (simp add: translates_def method_start_def)
    moreover have "ends (code_of s1 c) \<and> pending (code_of s1 c) = {}" if "c < length (cs_ctxs s1)" "0 < c" for c
      using d(2) that by (auto simp: translates_def method_start_def)
    moreover have "pending (code_of s1 0) = {}" using d(4) method_start_ok(5) by (simp add: pending_def)
    ultimately show ?thesis using d(1,3) step_ctx_lt [OF d(2) pre(2)] by (simp add: k')
  qed
  show "compile_method_body E meth (initial_cs V) \<noteq> Inl OutOfFuel"
    using tri_fuel [OF tri_method_head pre] tri_fuel [OF tri_method_tail] mid
    by (fastforce simp: compile_method_body_run bindS_app bindR_eq_Inl set_kind_def upd_ctx_def split: if_splits)
  assume "compile_method_body E meth (initial_cs V) = Inr (x, s)"
  then obtain n kind info s1 s2 where r: "method_head E meth ?t = Inr ((n, kind, info), s1)" "set_kind kind info s1 = Inr ((), s2)" "method_tail E meth n s2 = Inr (x, s)"
    by (auto simp: compile_method_body_run elim!: bindS_InrE)
  note m = mid [OF r(1,2)]
  have s2: "cs_ok s2" "0 < length (cs_ctxs s2)" "here 0 0 s2" using m by blast+
  note d = triD [OF tri_method_tail s2 r(3)]
  have e: "extends s2 s" using d(2) by (simp add: translates_def)
  have "owner s 0 = 0" using extends_facts(1) [OF e, of 0] m by (auto simp: here_def)
  then have z: "ends (code_of s 0) \<and> pending (code_of s 0) = {}"
    using body_done_ends [OF d(3)] d(4) m by auto
  have "ends (code_of s c) \<and> pending (code_of s c) = {}" if "c < length (cs_ctxs s)" for c
    using z d(2) m that by (cases "c = 0"; cases "c < length (cs_ctxs s2)") (auto simp: translates_def)
  moreover have "cs_ctxs s \<noteq> []" using step_ctx_lt [OF d(2) s2(2)] by auto
  ultimately show "cs_ok s \<and> cs_ctxs s \<noteq> [] \<and> (\<forall>c < length (cs_ctxs s). ends (code_of s c) \<and> pending (code_of s c) = {})"
    using d(1) by simp
qed

subsection \<open>The final pass\<close>

fun fixed :: "UpvalueMetadata list \<Rightarrow> bytecode \<Rightarrow> bytecode" where
  "fixed infos (BC_UpvalueGetMutable ord d) = (if um_isImmutable (infos ! unat ord) then BC_UpvalueGetImmutable ord d else BC_UpvalueGetMutable ord d)"
| "fixed infos bc = bc"

lemma fixed_fixed [simp]: "fixed infos (fixed infos bc) = fixed infos bc"
  by (cases bc) simp_all

lemma fix_upvalue_get_run:
  assumes "fix_upvalue_get infos off bcs = Inr bcs'"
  shows "off < length bcs \<and> bcs' = bcs[off := (fixed infos (fst (bcs ! off)), snd (bcs ! off))]"
  using assms list_update_id [of bcs off] unfolding fix_upvalue_get_def
  by (cases "bcs ! off"; cases "fst (bcs ! off)") (auto split: if_splits)

lemma fix_upvalue_gets_run:
  "fix_upvalue_gets infos offs bcs = Inr bcs' \<Longrightarrow> length bcs' = length bcs \<and>
     (\<forall>i < length bcs. bcs' ! i = (if i \<in> set offs then (fixed infos (fst (bcs ! i)), snd (bcs ! i)) else bcs ! i))"
proof (induction offs arbitrary: bcs)
  case (Cons off offs)
  then obtain bcs1 where r: "fix_upvalue_get infos off bcs = Inr bcs1" "fix_upvalue_gets infos offs bcs1 = Inr bcs'"
    by (auto simp: bindR_eq_Inr)
  note one = fix_upvalue_get_run [OF r(1)] and rest_ok = Cons.IH [OF r(2)]
  show ?case using one rest_ok by (auto simp: nth_list_update)
qed simp

lemma finish_codes_run:
  "finish_codes E vars bctxs ts = Inr us \<Longrightarrow> length us = length ts \<and> (\<forall>c < length ts. finish_code E vars bctxs (ts ! c) = Inr (us ! c))"
proof (induction ts arbitrary: us)
  case (Cons t ts)
  then obtain u us' where r: "finish_code E vars bctxs t = Inr u" "finish_codes E vars bctxs ts = Inr us'" "us = u # us'"
    by (auto simp: bindR_eq_Inr)
  then show ?case using Cons.IH [OF r(2)] by (auto simp: nth_Cons split: nat.split)
qed simp

lemma finish_code_run:
  assumes "finish_code E vars bctxs t = Inr u"
  shows "ucb_stackFrameNumSlots u = tc_historyTopSlot t + 1" "ucb_parent u = ucb_parent (tc_resultUcb t)"
    and "ucb_upvalueInfo u = upvalue_infos (ucb_fnKind (tc_resultUcb t)) vars (bt_uvs (bctxs ! tc_resultBCtx t))"
    and "fix_upvalue_gets (ucb_upvalueInfo u) (tc_allUpvalueGetBytecodes t) (tc_builder t) = Inr (ucb_bytecode u)"
  using assms by (auto simp: finish_code_def Let_def bindR_eq_Inr split: if_splits)

lemma length_upvalue_infos [simp]: "length (upvalue_infos kind vars us) = length us"
  by (simp add: upvalue_infos_def split: list.split)

lemma upvalue_infos_nth: "0 < i \<Longrightarrow> i < length us \<Longrightarrow> upvalue_infos kind vars us ! i = upvalue_metadata vars (us ! i)"
  by (cases us) (auto simp: upvalue_infos_def nth_Cons split: nat.split)

lemma upvalue_infos_0: "us \<noteq> [] \<Longrightarrow> upvalue_infos kind vars us ! 0 = \<lparr>um_isParentLocal = True, um_isImmutable = is_imm_self kind, um_slot = 0\<rparr>"
  by (cases us) (simp_all add: upvalue_infos_def)

lemma fixed_simps [simp]: "slots_le t (fixed infos bc) = slots_le t bc" "refs_lt n m (fixed infos bc) = refs_lt n m bc"
  "is_branch (fixed infos bc) = is_branch bc" "is_exit (fixed infos bc) = is_exit bc"
  by (cases bc; simp)+

lemma get_matches_fixed: "(\<exists>ord d. bc = BC_UpvalueGetMutable ord d) \<or> \<not> is_get bc \<Longrightarrow> get_matches infos (fixed infos bc)"
  by (cases bc) auto

lemma no_get_fixed: "\<not> is_get bc \<Longrightarrow> fixed infos bc = bc"
  by (cases bc) simp_all

lemma finished_bytecodes_ok:
  assumes co: "code_ok s c" and en: "ends (code_of s c)" "pending (code_of s c) = {}"
    and len: "length ucbs = length (cs_ctxs s)" and u: "finish_code E (cs_vars s) (cs_bctxs s) (cs_ctxs s ! c) = Inr u"
  shows "bytecodes_ok ucbs u"
proof -
  let ?t = "cs_ctxs s ! c" and ?n = "ucb_upvalueInfo u" and ?bcs = "code_of s c"
  note f = finish_code_run [OF u]
  have g: "length (ucb_bytecode u) = length ?bcs"
    "\<And>i. i < length ?bcs \<Longrightarrow> ucb_bytecode u ! i = (if i \<in> set (tc_allUpvalueGetBytecodes ?t) then (fixed ?n (fst (?bcs ! i)), snd (?bcs ! i)) else ?bcs ! i)"
    using fix_upvalue_gets_run [OF f(4)] by (simp_all add: code_of_def)
  have each: "ucb_bytecode u ! i = (fixed ?n (fst (?bcs ! i)), snd (?bcs ! i))" if "i < length ?bcs" for i
    using g(2) [OF that] co that no_get_fixed by (auto simp: code_ok_def code_of_def Let_def)
  have nlen: "length ?n = length (uvs s (tc_resultBCtx ?t))" by (simp add: f(3) uvs_def)
  have bcs_at: "slots_le (topslot s c) (fst (?bcs ! i)) \<and> refs_lt (length ?n) (length ucbs) (fst (?bcs ! i)) \<and> get_matches ?n (fixed ?n (fst (?bcs ! i)))
      \<and> (is_branch (fst (?bcs ! i)) \<longrightarrow> snd (?bcs ! i) \<noteq> None) \<and> (\<forall>d. snd (?bcs ! i) = Some d \<longrightarrow> d < length ?bcs)" if i: "i < length ?bcs" for i
  proof -
    have bc: "bc_ok s c (fst (?bcs ! i))" using co i by (simp add: code_ok_def code_of_def Let_def)
    have "(\<exists>ord d. fst (?bcs ! i) = BC_UpvalueGetMutable ord d) \<or> \<not> is_get (fst (?bcs ! i))"
      using co i by (auto simp: code_ok_def code_of_def Let_def get_ok_def)
    then have "get_matches ?n (fixed ?n (fst (?bcs ! i)))" by (rule get_matches_fixed)
    moreover have "is_branch (fst (?bcs ! i)) \<longrightarrow> snd (?bcs ! i) \<noteq> None" using en(2) i by (auto simp: pending_def)
    moreover have "\<forall>d. snd (?bcs ! i) = Some d \<longrightarrow> d < length ?bcs" using en(1) nth_mem [OF i] by (simp add: ends_def)
    ultimately show ?thesis using bc by (simp add: bc_ok_def nlen len del: slot_ok_fold)
  qed
  have ne: "?bcs \<noteq> []" "is_exit (fst (last ?bcs))" using en(1) by (simp_all add: ends_def)
  have ne': "ucb_bytecode u \<noteq> []" using g(1) ne(1) by auto
  have "last (ucb_bytecode u) = (fixed ?n (fst (last ?bcs)), snd (last ?bcs))"
    using each [of "length ?bcs - 1"] g(1) ne(1) ne' by (simp add: last_conv_nth)
  then have "is_exit (fst (last (ucb_bytecode u)))" using ne(2) by simp
  moreover have "slots_le (topslot s c) (fst x) \<and> refs_lt (length ?n) (length ucbs) (fst x) \<and> get_matches ?n (fst x)
      \<and> (is_branch (fst x) \<longrightarrow> snd x \<noteq> None) \<and> (\<forall>d. snd x = Some d \<longrightarrow> d < length (ucb_bytecode u))" if x: "x \<in> set (ucb_bytecode u)" for x
  proof -
    obtain i where i: "i < length ?bcs" "x = ucb_bytecode u ! i" using x g(1) by (auto simp: in_set_conv_nth)
    show ?thesis using bcs_at [OF i(1)] by (simp add: i(2) each [OF i(1)] g(1) del: slot_ok_fold)
  qed
  ultimately show ?thesis using ne' unfolding bytecodes_ok_def Let_def by (simp add: f(1) topslot_def [symmetric] del: slot_ok_fold)
qed

lemma finish_code_fuel: "finish_code E vars bctxs t \<noteq> Inl OutOfFuel"
proof -
  have "fix_upvalue_gets infos offs bcs \<noteq> Inl OutOfFuel" for infos offs bcs
    by (induction offs arbitrary: bcs) (auto simp: fix_upvalue_get_def bindR_eq_Inl split: if_splits prod.splits bytecode.splits)
  then show ?thesis by (auto simp: finish_code_def Let_def bindR_eq_Inl split: if_splits)
qed

lemma finish_codes_fuel: "finish_codes E vars bctxs ts \<noteq> Inl OutOfFuel"
  by (induction ts) (auto simp: bindR_eq_Inl finish_code_fuel)

text \<open>An upvalue of a function, seen from the code block of the enclosing function.\<close>

lemma upvalue_metadata_ok:
  assumes ok: "cs_ok s" and b: "b < length (cs_bctxs s)" and uv: "uv \<in> set (tl (uvs s b))" and p: "parent s b = Some (tc_resultBCtx (cs_ctxs s ! c'))"
    and c': "c' < length (cs_ctxs s)" and pu: "finish_code E (cs_vars s) (cs_bctxs s) (cs_ctxs s ! c') = Inr pu"
  shows "upvalue_ok pu (upvalue_metadata (cs_vars s) uv)"
proof -
  note f = finish_code_run [OF pu]
  let ?p = "tc_resultBCtx (cs_ctxs s ! c')"
  obtain v where v: "uvi_varInfo uv = Some v" "uv_ok s b uv v"
  proof -
    have "uvs_ok s b" using ok b by (simp add: cs_ok_def)
    then show thesis using uv that unfolding uvs_ok_def by blast
  qed
  have pb: "?p < length (cs_bctxs s)" using ok c' by (auto simp: cs_ok_def place_ok_def Let_def)
  show ?thesis
  proof (cases "uvi_isParentLocal uv")
    case True
    then have "?p = def_owner s v" "uvi_parentLocalSlot uv = Some (lv_slotOrd (cs_vars s ! v))" "var_ok s v"
      using v p ok by (auto simp: uv_ok_def cs_ok_def)
    then show ?thesis using True c' by (auto simp: upvalue_ok_def upvalue_metadata_def f(1) var_ok_def topslot_def less_Suc_eq_le)
  next
    case False
    then obtain j where j: "uvi_parentUpvalueOrd uv = Some j" "j < length (uvs s ?p)" "uvi_varInfo (uvs s ?p ! j) = Some v"
      using v p by (auto simp: uv_ok_def)
    have "self_uv (hd (uvs s ?p))" using ok pb j(2) by (auto simp: cs_ok_def uvs_ok_def)
    then have "0 < j" using j(2,3) by (cases "j = 0") (auto simp: self_uv_def hd_conv_nth)
    then show ?thesis using False j v(1)
      by (simp add: upvalue_ok_def upvalue_metadata_def f(3) upvalue_infos_nth uvs_def)
  qed
qed

lemma finished_code_block_ok:
  assumes ok: "cs_ok s" and c: "c < length (cs_ctxs s)" and en: "ends (code_of s c)" "pending (code_of s c) = {}"
    and us: "finish_codes E (cs_vars s) (cs_bctxs s) (cs_ctxs s) = Inr ucbs"
  shows "code_block_ok ucbs (ucbs ! c)"
proof -
  note r = finish_codes_run [OF us]
  have u: "finish_code E (cs_vars s) (cs_bctxs s) (cs_ctxs s ! d) = Inr (ucbs ! d)" if "d < length (cs_ctxs s)" for d using r that by blast
  note f = finish_code_run [OF u [OF c]]
  let ?b = "tc_resultBCtx (cs_ctxs s ! c)"
  have co: "code_ok s c" "place_ok s c" using ok c by (auto simp: cs_ok_def)
  then have b: "?b < length (cs_bctxs s)" "owner s ?b = ?b" by (simp_all add: place_ok_def Let_def)
  then have uo: "uvs_ok s ?b" using ok by (simp add: cs_ok_def)
  have "bytecodes_ok ucbs (ucbs ! c)" using finished_bytecodes_ok [OF co(1) en _ u [OF c]] r by blast
  moreover have "case ucb_parent (ucbs ! c) of None \<Rightarrow> ucb_upvalueInfo (ucbs ! c) = []
     | Some p \<Rightarrow> p < length ucbs \<and> (\<forall>m \<in> set (ucb_upvalueInfo (ucbs ! c)). upvalue_ok (ucbs ! p) m)"
  proof (cases "parent s ?b")
    case None
    then have "uvs s ?b = []" "ucb_parent (ucbs ! c) = None" using uo co(2) f(2) by (simp_all add: uvs_ok_def place_ok_def Let_def)
    then show ?thesis by (simp add: f(3) upvalue_infos_def uvs_def)
  next
    case (Some p)
    then obtain c' where c': "ucb_parent (ucbs ! c) = Some c'" "c' < length (cs_ctxs s)" "tc_resultBCtx (cs_ctxs s ! c') = p"
      using co(2) f(2) by (auto simp: place_ok_def Let_def)
    have infos: "ucb_upvalueInfo (ucbs ! c) = upvalue_infos (ucb_fnKind (tc_resultUcb (cs_ctxs s ! c))) (cs_vars s) (uvs s ?b)"
      by (simp add: f(3) uvs_def)
    have "upvalue_ok (ucbs ! c') m" if "m \<in> set (ucb_upvalueInfo (ucbs ! c))" for m
    proof (cases "m \<in> set (map (upvalue_metadata (cs_vars s)) (tl (uvs s ?b)))")
      case True
      then show ?thesis using upvalue_metadata_ok [OF ok b(1) _ _ c'(2) u [OF c'(2)]] Some c'(3) by auto
    next
      case False
      then have "um_isParentLocal m" "um_slot m = 0"
        using that unfolding infos by (cases "uvs s ?b"; auto simp: upvalue_infos_def)+
      then show ?thesis by (simp add: upvalue_ok_def finish_code_run(1) [OF u [OF c'(2)]])
    qed
    then show ?thesis using c' r by simp
  qed
  ultimately show ?thesis by (simp add: code_block_ok_def)
qed

text \<open>
  C6. Every method is compiled to well-formed code blocks: \<open>CompileMethod\<close> never runs out of the fuel of the model, and when it
  returns there is at least one code block, and in each of them every operand is a slot of the frame, every branch has a
  target inside the code, the last bytecode leaves the function, upvalue ordinals and the code blocks of closures exist,
  each read of an upvalue uses the bytecode for its mutability, and each upvalue is described by an existing slot, or by an upvalue
  of the same mutability, of the enclosing function's code block.
\<close>

theorem CompileMethod_code_ok:
  "CompileMethod E meth V \<noteq> Inl OutOfFuel
   \<and> (\<forall>ucbs V'. CompileMethod E meth V = Inr (ucbs, V') \<longrightarrow> ucbs \<noteq> [] \<and> (\<forall>u \<in> set ucbs. code_block_ok ucbs u))"
proof (rule conjI)
  show "CompileMethod E meth V \<noteq> Inl OutOfFuel"
    using compile_method_body_ok(1) finish_codes_fuel by (auto simp: CompileMethod_def bindR_eq_Inl split: prod.splits)
next
  show "\<forall>ucbs V'. CompileMethod E meth V = Inr (ucbs, V') \<longrightarrow> ucbs \<noteq> [] \<and> (\<forall>u \<in> set ucbs. code_block_ok ucbs u)"
  proof (intro allI impI)
    fix ucbs V' assume "CompileMethod E meth V = Inr (ucbs, V')"
    then obtain x s where s: "compile_method_body E meth (initial_cs V) = Inr (x, s)"
      and us: "finish_codes E (cs_vars s) (cs_bctxs s) (cs_ctxs s) = Inr ucbs"
      by (auto simp: CompileMethod_def bindR_eq_Inr)
    note compiled = compile_method_body_ok(2) [OF s]
    have len: "length ucbs = length (cs_ctxs s)" using finish_codes_run [OF us] by simp
    then show "ucbs \<noteq> [] \<and> (\<forall>u \<in> set ucbs. code_block_ok ucbs u)"
      using compiled finished_code_block_ok [OF _ _ _ _ us] by (auto simp: in_set_conv_nth)
  qed
qed

text \<open>
  For the evaluation of a run: the definitions, with a rule that evaluates the first part of a sequence before the rest.
\<close>

lemma bindS_block: "bindS m f = bindS m f"
  by (rule refl)

lemma bindR_weak: "r = r' \<Longrightarrow> bindR r f = bindR r' f"
  by simp

lemma CompileExpression_numeral: "CompileExpression E (numeral k) = CompileExpression E (Suc (pred_numeral k))"
  by (simp only: numeral_eq_Suc)

lemmas compile_run = bindS_app Let_def IsNonArrayLiteral_def CompileExpression_numeral
  NotifyUse_def NotifyWrite_def new_bctx_def IsInlined_def liftV_def get_var_def upd_var_def get_bctx_def upd_bctx_def
  upd_ctx_def UpdateTopSlot_def emit_def push_uv_def resolve_var_def ResolveVariable_def IsVariableResolvedTo_def
  CreateConstantNonArray_def DetectTrivialLocalVarOrConstantUse_def CompileVarUse_def EmitAssignValueToLhs_def
  CompileAssignation_def CompileTopLevelAssignation_def InstallLocalVariable_def InstallLocalVariables_def
  UninstallLocalVariable_def UninstallLocalVariables_def CompileReturn_def CompileThrow_def compile_block_value_def
  compile_statement_def CompileBlockBody_def propagate_throws_def alloc_bctx_def alloc_ctx_def new_ctx_def
  CompileNewBlock_def trivial_return_def trivial_setter_def triviality_def upvalue_infos_def fix_upvalue_get_def
  finish_code_def method_fuel_def compile_method_body_def initial_cs_def CompileMethod_def
  MustEmitUpvalueCloseBeforeReturn_def MustMutablyCaptureSelf_def IsInlinedIntoTopLevelMethod_def IsTopLevelMethod_def
  get_ctx_def GetCurLength_def UnlinkedCodeBlock_Create_def upvalue_metadata_def

definition sample_env :: cenv where
  "sample_env = \<lparr>ce_hash = (\<lambda>_. 0), ce_size = (\<lambda>_. 1), ce_numConstants = length, ce_fieldMap = Map.empty, ce_isSelfObject = True,
     ce_superClass = None\<rparr>"

text \<open>\<open>with: x = ( | y | y := 0. ^ [ y := x ] )\<close>\<close>

definition sample_method :: AstMethod where
  "sample_method = \<lparr>am_params = [''x''], am_locals = [''y''],
     am_body = [AstAssignation [''y''] (AstInteger 0), AstReturn (AstNestedBlock [] [] [AstAssignation [''y''] (AstVariableUse ''x'')])],
     am_kind = KeywordKind, am_isPrimitive = False, am_selectorName = 0\<rparr>"

theorem CompileMethod_code_ok_witness:
  "case CompileMethod sample_env sample_method empty_vm of
     Inl e \<Rightarrow> False
   | Inr (ucbs, V') \<Rightarrow> (\<forall>u \<in> set ucbs. code_block_ok ucbs u) \<and> map (\<lambda>u. map fst (ucb_bytecode u)) ucbs =
       [[BC_RangeFillNils 2 1, BC_Mov (Cst (TInt 0)) 2, BC_NewClosure 1 3, BC_UpvalueClose 0, BC_Ret 3],
        [BC_UpvalueGetImmutable 1 1, BC_UpvaluePut 2 (Loc 1), BC_Ret 1]]"
proof -
  have "\<exists>ucbs V'. CompileMethod sample_env sample_method empty_vm = Inr (ucbs, V') \<and> map (\<lambda>u. map fst (ucb_bytecode u)) ucbs =
       [[BC_RangeFillNils 2 1, BC_Mov (Cst (TInt 0)) 2, BC_NewClosure 1 3, BC_UpvalueClose 0, BC_Ret 3],
        [BC_UpvalueGetImmutable 1 1, BC_UpvaluePut 2 (Loc 1), BC_Ret 1]]"
    by (simp add: sample_env_def sample_method_def compile_run del: bindS_Inr bindS_Inl cong: bindS_block bindR_weak)
  then show ?thesis using CompileMethod_code_ok [of sample_env sample_method empty_vm] by auto
qed

end
