(* ===== verification/CompileTrivial.thy ===== *)
theory CompileTrivial
  imports CompileCode Dispatch
begin

section \<open>The compiler: trivial methods\<close>

text \<open>
  A call of a trivial method runs a shortcut instead of the method's code (theory \<open>Dispatch\<close>). This theory runs
  the code of such methods, with the frame on the stack of the VM, and shows that the shortcut does the same.
\<close>

subsection \<open>Straight-line code\<close>

text \<open>
  The generated interpreter reads the operands of a bytecode from the frame, calls its implementation and stores the
  result into the output slot. Bytecodes that branch, call or create closures do not occur in the code of
  trivial methods and are left out here.
\<close>

definition read_slot :: "nat \<Rightarrow> nat \<Rightarrow> val vmop" where
  "read_slot fbase k = (\<lambda>V. if fbase + k < length (v_stack V) then Inr (v_stack V ! (fbase + k), V) else Inl Undefined)"

definition write_slot :: "nat \<Rightarrow> nat \<Rightarrow> val \<Rightarrow> unit vmop" where
  "write_slot fbase k v = (\<lambda>V. if fbase + k < length (v_stack V) then Inr ((), V\<lparr>v_stack := (v_stack V)[fbase + k := v]\<rparr>) else Inl Undefined)"

fun read_operand :: "nat \<Rightarrow> loc_or_cst \<Rightarrow> val vmop" where
  "read_operand fbase (Loc k) = read_slot fbase k"
| "read_operand fbase (Cst v) = retS v"

definition BytecodeMovImpl :: "val \<Rightarrow> val vmop" where
  "BytecodeMovImpl input = retS input"

definition ReturnImpl :: "nat \<Rightarrow> nat \<Rightarrow> outcome vmop" where
  "ReturnImpl fbase retStart = bindS (read_slot fbase retStart) (\<lambda>v. retS (Ret v))"

fun run_code :: "prim_env \<Rightarrow> nat \<Rightarrow> bytecode list \<Rightarrow> outcome vmop" where
  "run_code E fbase (BC_Mov a d # bcs) =
     bindS (read_operand fbase a) (\<lambda>input. bindS (BytecodeMovImpl input) (\<lambda>v. bindS (write_slot fbase d v) (\<lambda>_. run_code E fbase bcs)))"
| "run_code E fbase (BC_RangeFillNils k n # bcs) =
     bindS (RangeFillNilsImpl (fbase + k) (unat n)) (\<lambda>_. run_code E fbase bcs)"
| "run_code E fbase (BC_SOMGetField k i d # bcs) =
     bindS (read_slot fbase k) (\<lambda>base. bindS (GetFieldImpl base (unat i)) (\<lambda>v. bindS (write_slot fbase d v) (\<lambda>_. run_code E fbase bcs)))"
| "run_code E fbase (BC_SOMPutField k i a # bcs) =
     bindS (read_slot fbase k) (\<lambda>base. bindS (read_operand fbase a) (\<lambda>v. bindS (PutFieldImpl base (unat i) v) (\<lambda>_. run_code E fbase bcs)))"
| "run_code E fbase (BC_SOMGlobalGet k i d # bcs) =
     bindS (read_slot fbase k) (\<lambda>self. bindS (GlobalGetImpl E self (unat i)) (\<lambda>oc.
     case oc of Ret v \<Rightarrow> bindS (write_slot fbase d v) (\<lambda>_. run_code E fbase bcs) | Call _ _ _ \<Rightarrow> failS Undefined))"
| "run_code E fbase (BC_Ret k # bcs) = ReturnImpl fbase k"
| "run_code E fbase _ = failS Undefined"

subsection \<open>Resolving and creating twice\<close>

text \<open>The triviality check resolves names and creates constants that the translation of the body then finds again.\<close>

definition settles :: "('s, 'a) op \<Rightarrow> bool" where
  "settles m \<longleftrightarrow> (\<forall>s x s'. m s = Inr (x, s') \<longrightarrow> m s' = Inr (x, s'))"

lemma InternString_again: "InternString H s I = (i, I') \<Longrightarrow> InternString H s I' = (i, I')"
  by (cases "m_map I s") (auto simp: InternString_known InternString_new)

lemma settles_global: "settles (GetSlotForGlobal H name)"
  unfolding settles_def GetSlotForGlobal_def InternV_def
  by (auto simp: Let_def InternString_again split: prod.splits option.splits elim!: bindS_InrE)

lemma grow_id: "ord < length xs \<Longrightarrow> grow ord xs = xs"
  by (simp add: grow_def)

lemma GetInternedString_again:
  assumes "GetInternedString ord V = Inr (a, V')"
  shows "GetInternedString ord V' = Inr (a, V')"
proof -
  have "Get (m_interner V') ord \<noteq> None \<and> ord < length (m_internedStringObjects V') \<and> m_internedStringObjects V' ! ord = Some a"
    using assms unfolding GetInternedString_def AllocateString_def new_obj_def
    by (auto simp: grow_length split: option.splits elim!: bindS_InrE)
  then show ?thesis by (auto simp: GetInternedString_def grow_id)
qed

lemma GetInternedSymbol_again:
  assumes "GetInternedSymbol ord V = Inr (a, V')"
  shows "GetInternedSymbol ord V' = Inr (a, V')"
proof -
  have "Get (m_interner V') ord \<noteq> None \<and> ord < length (m_internedSymbolObjects V') \<and> m_internedSymbolObjects V' ! ord = Some a"
    using assms unfolding GetInternedSymbol_def AllocateString_def new_obj_def the_obj_def set_obj_def
    by (auto simp: grow_length split: option.splits if_splits elim!: bindS_InrE)
  then show ?thesis by (auto simp: GetInternedSymbol_def grow_id)
qed

lemma settles_literal: "settles (CreateConstantNonArray val)"
  unfolding settles_def CreateConstantNonArray_def
  by (auto simp: GetInternedString_again GetInternedSymbol_again split: AstExpr.splits elim!: bindS_InrE)

text \<open>A name that is not a local variable: a second resolution finds what the first found and changes nothing.\<close>

definition self_name :: "string \<Rightarrow> bool" where
  "self_name name \<longleftrightarrow> name = ''self'' \<or> name = ''super''"

lemma resolve_again:
  assumes run: "ResolveVariable E 0 name DryRun s = Inr ((k, i), s')" and k: "k \<notin> {VU_Local, VU_Upvalue} \<or> self_name name"
  shows "s' = s\<lparr>cs_vm := cs_vm s'\<rparr>" "k = VU_Local \<Longrightarrow> i = 0" "k \<noteq> VU_Upvalue"
    and "cs_vm t = cs_vm s' \<Longrightarrow> cs_localVarMap t = cs_localVarMap s \<Longrightarrow> ResolveVariable E 0 name ForRead t = Inr ((k, i), t)"
    and "k = VU_Field \<Longrightarrow> cs_localVarMap t = cs_localVarMap s \<Longrightarrow> ResolveVariable E 0 name ForWrite t = Inr ((k, i), t)"
proof -
  have loc: "resolve_var 0 var m s = Inr ((k, i), s') \<Longrightarrow> k \<in> {VU_Local, VU_Upvalue}" for var m
    by (auto simp: resolve_var_def split: if_splits elim!: bindS_InrE)
  consider (self) "self_name name" "k = VU_Local" "i = 0" "s' = s"
    | (other) "\<not> self_name name" "cs_localVarMap s name = []" "(case ce_fieldMap E name of Some ord \<Rightarrow> retS (VU_Field, ord) | None \<Rightarrow> resolve_global E name DryRun) s = Inr ((k, i), s')"
    using run k loc unfolding ResolveVariable_def self_name_def
    by (cases "cs_localVarMap s name") (auto split: if_splits elim!: bindS_InrE)
  note cs = this
  have glob: "cs_vm t = cs_vm s' \<Longrightarrow> resolve_global E name ForRead t = Inr ((k, i), t)" if "resolve_global E name DryRun s = Inr ((k, i), s')" for t
    using that settles_global [of "ce_hash E" name] unfolding resolve_global_def liftV_def settles_def
    by (auto simp: bindR_eq_Inr split: if_splits elim!: bindS_InrE)
  have glob': "s' = s\<lparr>cs_vm := cs_vm s'\<rparr> \<and> k \<in> {VU_FalseTrueNil, VU_Global}" if "resolve_global E name DryRun s = Inr ((k, i), s')"
    using that unfolding resolve_global_def liftV_def by (auto simp: bindR_eq_Inr split: if_splits elim!: bindS_InrE)
  show "s' = s\<lparr>cs_vm := cs_vm s'\<rparr>" "k = VU_Local \<Longrightarrow> i = 0" "k \<noteq> VU_Upvalue"
    using cs glob' by (cases; auto split: option.splits)+
  show "ResolveVariable E 0 name ForRead t = Inr ((k, i), t)" if "cs_vm t = cs_vm s'" "cs_localVarMap t = cs_localVarMap s" for t
    using cs that glob by cases (auto simp: ResolveVariable_def self_name_def split: option.splits)
  show "ResolveVariable E 0 name ForWrite t = Inr ((k, i), t)" if "k = VU_Field" "cs_localVarMap t = cs_localVarMap s" for t
    using cs that glob' by cases (auto simp: ResolveVariable_def self_name_def split: option.splits)
qed

subsection \<open>The code of trivial methods\<close>

definition bare :: "CS \<Rightarrow> TranslationContext \<Rightarrow> bool" where
  "bare s t \<longleftrightarrow> cs_bctxs s = [new_bctx 0 None 0 None] \<and> cs_ctxs s = [t]"

text \<open>The parameter \<open>p\<close> of a method with one parameter is in slot 1.\<close>

definition param_at :: "CS \<Rightarrow> string \<Rightarrow> bool" where
  "param_at s p \<longleftrightarrow> cs_localVarMap s p = [0] \<and> cs_vars s \<noteq> [] \<and> lv_bctx (cs_vars s ! 0) = 0 \<and> lv_slotOrd (cs_vars s ! 0) = 1"

definition fill_code :: "AstMethod \<Rightarrow> bcode" where
  "fill_code meth = (if am_locals meth = [] then []
     else [(BC_RangeFillNils (1 + length (am_params meth)) (of_nat (length (am_locals meth))), None)])"

definition free_slot :: "AstMethod \<Rightarrow> nat" where
  "free_slot meth = 1 + length (am_params meth) + length (am_locals meth)"

lemma install_map_other: "x \<notin> set names \<Longrightarrow> install_map names v M x = M x"
  by (induction names arbitrary: v M) auto

lemma install_method_run:
  "\<exists>s. InstallLocalVariables 0 0 (am_params meth) (am_locals meth) 1 (method_start V) = Inr (free_slot meth, s)
     \<and> bare s ((new_ctx UnlinkedCodeBlock_Create 0)\<lparr>tc_builder := fill_code meth\<rparr>) \<and> cs_vm s = V
     \<and> (\<forall>p. am_params meth = [p] \<longrightarrow> p \<notin> set (am_locals meth) \<longrightarrow> param_at s p)"
proof -
  let ?ps = "am_params meth" and ?ls = "am_locals meth"
  obtain vs M where r: "install_all 0 ?ps 1 (method_start V) = Inr (1 + length ?ps, (method_start V)\<lparr>cs_vars := vs, cs_localVarMap := M\<rparr>)"
    using install_all_run [of 0 ?ps 1 "method_start V"] by (auto simp: method_start_def)
  let ?s1 = "(method_start V)\<lparr>cs_vars := vs, cs_localVarMap := M\<rparr>"
  let ?s2 = "?s1\<lparr>cs_ctxs := [(new_ctx UnlinkedCodeBlock_Create 0)\<lparr>tc_builder := fill_code meth\<rparr>]\<rparr>"
  have fill: "(if length ?ls > 0 then emit 0 (BC_RangeFillNils (1 + length ?ps) (of_nat (length ?ls))) else retS ()) ?s1 = Inr ((), ?s2)"
    by (simp add: emit_def upd_ctx_def fill_code_def new_ctx_def method_start_def)
  obtain vs' M' where r': "install_all 0 ?ls (1 + length ?ps) ?s2 = Inr (free_slot meth, ?s2\<lparr>cs_vars := vs @ vs', cs_localVarMap := M'\<rparr>)"
    "\<forall>x. x \<notin> set ?ls \<longrightarrow> M' x = M x"
    using install_all_run [of 0 ?ls "1 + length ?ps" ?s2] install_map_other by (auto simp: free_slot_def)
  have "param_at (?s2\<lparr>cs_vars := vs @ vs', cs_localVarMap := M'\<rparr>) p" if "?ps = [p]" "p \<notin> set ?ls" for p
    using r r'(2) that by (auto simp: param_at_def method_start_def InstallLocalVariable_def bindS_def nth_append)
  moreover have "InstallLocalVariables 0 0 ?ps ?ls 1 (method_start V) = Inr (free_slot meth, ?s2\<lparr>cs_vars := vs @ vs', cs_localVarMap := M'\<rparr>)"
    by (simp only: InstallLocalVariables_def bindS_app r fill r'(1) bindR_simps prod.case)
  ultimately show ?thesis by (auto simp: bare_def method_start_def)
qed

text \<open>What makes a method trivial.\<close>

definition trivial_variable :: "string \<Rightarrow> VarResolveResult \<Rightarrow> SOMMethodLookupResultKind \<times> upval" where
  "trivial_variable name vr = (case fst vr of
      VU_Local \<Rightarrow> if self_name name then (SOM_SelfReturn, UvRaw 0) else (SOM_NormalMethod, UvRaw 0)
    | VU_Field \<Rightarrow> (SOM_Getter, UvRaw (snd vr))
    | VU_Global \<Rightarrow> (SOM_GlobalReturn, UvRaw (snd vr))
    | VU_FalseTrueNil \<Rightarrow> (SOM_LiteralReturn, UvImm (GetTValueForFalseTrueNil vr))
    | VU_Upvalue \<Rightarrow> (SOM_NormalMethod, UvRaw 0))"

lemma trivial_return_run:
  assumes "trivial_return E 0 body s = Inr ((kind, info), s')" "kind \<noteq> SOM_NormalMethod"
  obtains (nobody) "body = []" "kind = SOM_SelfReturn" "info = UvRaw 0" "s' = s"
  | (literal) val v V' where "body = [AstReturn val]" "IsNonArrayLiteral val" "CreateConstantNonArray val (cs_vm s) = Inr (v, V')"
      "s' = s\<lparr>cs_vm := V'\<rparr>" "kind = SOM_LiteralReturn" "info = UvImm v"
  | (variable) name vr where "body = [AstReturn (AstVariableUse name)]" "ResolveVariable E 0 name DryRun s = Inr (vr, s')"
      "trivial_variable name vr = (kind, info)"
proof (cases body)
  case Nil
  then show ?thesis using assms nobody by (simp add: trivial_return_def)
next
  case (Cons e body')
  then obtain val where b: "body = [AstReturn val]"
    using assms by (auto simp: trivial_return_def split: AstExpr.splits list.splits)
  show ?thesis
  proof (cases "IsNonArrayLiteral val")
    case True
    then show ?thesis using assms b literal by (auto simp: trivial_return_def liftV_def bindR_eq_Inr elim!: bindS_InrE)
  next
    case False
    then obtain name where "val = AstVariableUse name" using assms b by (auto simp: trivial_return_def split: AstExpr.splits)
    then show ?thesis using assms b False variable [of name]
      by (auto simp: trivial_return_def trivial_variable_def self_name_def split: VarUseKind.splits elim!: bindS_InrE)
  qed
qed

lemma trivial_setter_run:
  assumes "trivial_setter E 0 params body s = Inr (Some i, s')"
  obtains p f stmts where "params = [p]" "body = AstAssignation [f] (AstVariableUse p) # stmts"
    "stmts = [] \<or> (\<exists>name. self_name name \<and> stmts = [AstReturn (AstVariableUse name)])" "ResolveVariable E 0 f DryRun s = Inr ((VU_Field, i), s')"
proof -
  have stmt: "\<exists>stmts. body = AstAssignation lhs rhs # stmts \<and> (stmts = [] \<or> (\<exists>name. self_name name \<and> stmts = [AstReturn (AstVariableUse name)]))"
    if "setter_stmt body = Some (lhs, rhs)" for lhs rhs
    using that by (cases body rule: setter_stmt.cases) (auto simp: self_name_def split: if_splits)
  show ?thesis using assms that stmt unfolding trivial_setter_def
    by (fastforce split: list.splits option.splits prod.splits if_splits elim!: bindS_InrE)
qed

text \<open>Translating the body of a trivial method.\<close>

lemma bare_emit: "bare s t \<Longrightarrow> emit 0 bc s = Inr ((), s\<lparr>cs_ctxs := [t\<lparr>tc_builder := tc_builder t @ [(bc, None)]\<rparr>]\<rparr>)"
  by (simp add: bare_def emit_def upd_ctx_def)

lemma bare_top: "bare s t \<Longrightarrow> UpdateTopSlot 0 k s = Inr ((), s\<lparr>cs_ctxs := [t\<lparr>tc_historyTopSlot := max (tc_historyTopSlot t) k\<rparr>]\<rparr>)"
  by (simp add: bare_def UpdateTopSlot_def upd_ctx_def)

lemma bare_bctx: "bare s t \<Longrightarrow> get_bctx 0 s = Inr (new_bctx 0 None 0 None, s)"
  by (simp add: bare_def get_bctx_def)

lemma bare_upd [simp]: "bare (s\<lparr>cs_ctxs := [t]\<rparr>) t' \<longleftrightarrow> cs_bctxs s = [new_bctx 0 None 0 None] \<and> t = t'"
  "bare (s\<lparr>cs_vm := V\<rparr>) t' = bare s t'" "bare (s\<lparr>cs_vars := vs\<rparr>) t' = bare s t'"
  by (auto simp: bare_def)

lemma bare_bctxs: "bare s t \<Longrightarrow> cs_bctxs s = [new_bctx 0 None 0 None]"
  by (simp add: bare_def)

lemma bctx0 [simp]: "\<not> MustEmitUpvalueCloseBeforeReturn (new_bctx 0 None 0 None)" "IsTopLevelMethod 0 (new_bctx 0 None 0 None)"
  "IsInlinedIntoTopLevelMethod (new_bctx 0 None 0 None)"
  by (simp_all add: MustEmitUpvalueCloseBeforeReturn_def IsTopLevelMethod_def IsInlinedIntoTopLevelMethod_def new_bctx_def)

lemmas bare_runs = bare_emit bare_top bare_bctx bare_bctxs

text \<open>The code that \<open>CompileVarUse\<close> emits for a resolved name.\<close>

fun use_code :: "VarResolveResult \<Rightarrow> nat \<Rightarrow> bytecode" where
  "use_code (VU_Field, i) k = BC_SOMGetField 0 (of_nat i) k"
| "use_code (VU_Global, i) k = BC_SOMGlobalGet 0 (of_nat i) k"
| "use_code (VU_FalseTrueNil, i) k = BC_Mov (Cst (GetTValueForFalseTrueNil (VU_FalseTrueNil, i))) k"
| "use_code (VU_Local, i) k = BC_Mov (Loc i) k"
| "use_code (VU_Upvalue, i) k = BC_UpvalueGetMutable (of_nat i) k"

definition emitted :: "CS \<Rightarrow> TranslationContext \<Rightarrow> nat \<Rightarrow> bytecode list \<Rightarrow> CS" where
  "emitted s t k bcs = s\<lparr>cs_ctxs := [t\<lparr>tc_historyTopSlot := max (tc_historyTopSlot t) k, tc_builder := tc_builder t @ map (\<lambda>bc. (bc, None)) bcs\<rparr>]\<rparr>"

lemma var_use_run:
  assumes "bare s t" "\<And>u. cs_vm u = cs_vm s \<Longrightarrow> cs_localVarMap u = cs_localVarMap s \<Longrightarrow> ResolveVariable E 0 name ForRead u = Inr (vr, u)" "fst vr \<noteq> VU_Upvalue"
  shows "CompileVarUse E 0 0 name k s = Inr ((), emitted s t k [use_code vr k])"
  using assms by (cases vr; cases "fst vr") (simp_all add: CompileVarUse_def bindS_def bare_runs emitted_def)

lemma literal_run:
  assumes "bare s t" "IsNonArrayLiteral val" "CreateConstantNonArray val (cs_vm s) = Inr (v, cs_vm s)"
  shows "CompileAstLiteral 0 val k s = Inr ((), emitted s t k [BC_Mov (Cst v) k])"
  using assms by (cases val) (simp_all add: CompileAstLiteral_def IsNonArrayLiteral_def bindS_def bare_runs liftV_def emitted_def)

lemma return_run:
  assumes "bare s t" "cx False 0 0 val k k s = Inr ((), emitted s t k bcs)"
  shows "CompileReturn cx 0 0 val k s = Inr ((), emitted s t k (bcs @ [BC_Ret k]))"
  using assms by (simp add: CompileReturn_def bindS_def emitted_def bare_runs)

lemma param_resolve:
  assumes "bare s t" "param_at s p" "\<not> self_name p"
  shows "ResolveVariable E 0 p DryRun s = Inr ((VU_Local, 1), s)"
    and "ResolveVariable E 0 p ForRead s = Inr ((VU_Local, 1), s\<lparr>cs_vars := (cs_vars s)[0 := NotifyUse (cs_vars s ! 0)]\<rparr>)"
  using assms by (simp_all add: ResolveVariable_def self_name_def param_at_def resolve_var_def bindS_def get_var_def get_bctx_def upd_var_def bare_def new_bctx_def)

lemma setter_run:
  assumes p: "bare s t" "param_at s p" "\<not> self_name p"
    and f: "\<And>u. cs_localVarMap u = cs_localVarMap s \<Longrightarrow> ResolveVariable E 0 f ForWrite u = Inr ((VU_Field, i), u)"
  shows "\<exists>s'. compile_statement E cx 0 0 (AstAssignation [f] (AstVariableUse p)) k s = Inr ((), emitted s' t 0 [BC_SOMPutField 0 (of_nat i) (Loc 1)])
     \<and> bare s' t \<and> cs_vm s' = cs_vm s \<and> cs_localVarMap s' = cs_localVarMap s"
proof -
  let ?s = "s\<lparr>cs_vars := (cs_vars s)[0 := NotifyUse (cs_vars s ! 0)]\<rparr>"
  have "DetectTrivialLocalVarOrConstantUse E 0 (AstVariableUse p) s = Inr (Some (Loc 1), ?s)"
    by (simp add: DetectTrivialLocalVarOrConstantUse_def IsNonArrayLiteral_def IsVariableResolvedTo_def bindS_app param_resolve [OF p])
  moreover have "assign_all E 0 0 (Loc 1) [f] ?s = Inr ((), emitted ?s t 0 [BC_SOMPutField 0 (of_nat i) (Loc 1)])"
    using f [of ?s] p(1) by (simp add: EmitAssignValueToLhs_def bindS_app bare_runs emitted_def)
  ultimately show ?thesis using p(1)
    by (intro exI [of _ ?s]) (simp add: compile_statement_def CompileTopLevelAssignation_def bindS_app)
qed

text \<open>The bodies, and the code after the locals are filled.\<close>

inductive trivial_code :: "nat \<Rightarrow> SOMMethodLookupResultKind \<Rightarrow> upval \<Rightarrow> bytecode list \<Rightarrow> bool" for k where
  self_empty: "trivial_code k SOM_SelfReturn info [BC_Ret 0]"
| self: "trivial_code k SOM_SelfReturn info [BC_Mov (Loc 0) k, BC_Ret k]"
| literal: "trivial_code k SOM_LiteralReturn (UvImm v) [BC_Mov (Cst v) k, BC_Ret k]"
| global: "trivial_code k SOM_GlobalReturn (UvRaw i) [BC_SOMGlobalGet 0 (of_nat i) k, BC_Ret k]"
| getter: "trivial_code k SOM_Getter (UvRaw i) [BC_SOMGetField 0 (of_nat i) k, BC_Ret k]"
| setter: "trivial_code k SOM_Setter (UvRaw i) [BC_SOMPutField 0 (of_nat i) (Loc 1), BC_Ret 0]"
| setter_self: "trivial_code k SOM_Setter (UvRaw i) [BC_SOMPutField 0 (of_nat i) (Loc 1), BC_Mov (Loc 0) k, BC_Ret k]"

lemma return_body_run:
  assumes s: "bare s t" "cs_vm u = cs_vm s'" "cs_localVarMap u = cs_localVarMap s" "bare u t'"
    and run: "trivial_return E 0 body s = Inr ((kind, info), s')" "kind \<noteq> SOM_NormalMethod"
  shows "\<exists>bcs j. CompileBlockBody E (CompileExpression E (Suc n)) 0 0 body k u = Inr ((), emitted u t' j bcs) \<and> j \<le> k \<and> trivial_code k kind info bcs"
  using run
proof (cases rule: trivial_return_run)
  case nobody
  then show ?thesis using s(4) by (intro exI [of _ "[BC_Ret 0]"] exI [of _ 0])
    (simp add: CompileBlockBody_def compile_empty_body_def bindS_app bare_runs emitted_def trivial_code.intros)
next
  case (literal val v V')
  have "CreateConstantNonArray val (cs_vm u) = Inr (v, cs_vm u)"
    using settles_literal [of val] literal s(2) by (auto simp: settles_def)
  then have "CompileExpression E (Suc n) False 0 0 val k k u = Inr ((), emitted u t' k [BC_Mov (Cst v) k])"
    using literal_run [OF s(4) literal(2)] literal(2) by (cases val) (simp_all add: IsNonArrayLiteral_def)
  from return_run [where cx = "CompileExpression E (Suc n)" and val = val, OF s(4) this] show ?thesis using literal s(4)
    by (intro exI [of _ "[BC_Mov (Cst v) k, BC_Ret k]"] exI [of _ k]) (simp add: CompileBlockBody_def bindS_app bare_runs trivial_code.intros)
next
  case (variable name vr)
  obtain vk i where vr: "vr = (vk, i)" by force
  have ok: "vk \<notin> {VU_Local, VU_Upvalue} \<or> self_name name"
    using variable(3) run(2) by (auto simp: trivial_variable_def vr split: if_splits)
  note again = resolve_again [OF variable(2) [unfolded vr] ok]
  have "CompileExpression E (Suc n) False 0 0 (AstVariableUse name) k k u = Inr ((), emitted u t' k [use_code vr k])"
    using var_use_run [OF s(4), of E name vr k] again(3,4) s(2,3) by (simp add: vr)
  note code = return_run [where cx = "CompileExpression E (Suc n)" and val = "AstVariableUse name", OF s(4) this]
  have "trivial_code k kind info [use_code vr k, BC_Ret k]"
    using variable(3) ok again(2,3) by (cases vk) (auto simp: trivial_variable_def vr intro: trivial_code.intros)
  then show ?thesis using code variable(1) s(4)
    by (intro exI [of _ "[use_code vr k, BC_Ret k]"] exI [of _ k]) (simp add: CompileBlockBody_def bindS_app bare_runs)
qed

lemma setter_body_run:
  assumes p: "bare u t" "param_at u p" "\<not> self_name p"
    and f: "\<And>u'. cs_localVarMap u' = cs_localVarMap u \<Longrightarrow> ResolveVariable E 0 f ForWrite u' = Inr ((VU_Field, i), u')"
    and stmts: "stmts = [] \<or> (\<exists>name. self_name name \<and> stmts = [AstReturn (AstVariableUse name)])"
  shows "\<exists>u' bcs j. CompileBlockBody E (CompileExpression E (Suc n)) 0 0 (AstAssignation [f] (AstVariableUse p) # stmts) k u = Inr ((), emitted u' t j bcs)
     \<and> bare u' t \<and> cs_vm u' = cs_vm u \<and> j \<le> k \<and> trivial_code k SOM_Setter (UvRaw i) bcs"
proof -
  let ?cx = "CompileExpression E (Suc n)" and ?put = "BC_SOMPutField 0 (of_nat i) (Loc 1)"
  obtain s' where s': "compile_statement E ?cx 0 0 (AstAssignation [f] (AstVariableUse p)) k u = Inr ((), emitted s' t 0 [?put])"
    "bare s' t" "cs_vm s' = cs_vm u" using setter_run [OF p f] by blast
  let ?e = "emitted s' t 0 [?put]"
  let ?t = "t\<lparr>tc_historyTopSlot := tc_historyTopSlot t, tc_builder := tc_builder t @ [(?put, None)]\<rparr>"
  have e: "bare ?e ?t" using s'(2) by (simp add: emitted_def bare_bctxs)
  show ?thesis using stmts
  proof
    assume "stmts = []"
    then have "CompileBlockBody E ?cx 0 0 (AstAssignation [f] (AstVariableUse p) # stmts) k u = Inr ((), emitted s' t 0 [?put, BC_Ret 0])"
      using p(1) s'(1) e by (simp add: CompileBlockBody_def bindS_app bare_runs) (simp add: emitted_def)
    then show ?thesis using s' trivial_code.setter [of k i] by blast
  next
    assume "\<exists>name. self_name name \<and> stmts = [AstReturn (AstVariableUse name)]"
    then obtain name where name: "self_name name" "stmts = [AstReturn (AstVariableUse name)]" by blast
    have "ResolveVariable E 0 name ForRead v = Inr ((VU_Local, 0), v)" for v using name(1) by (auto simp: ResolveVariable_def self_name_def)
    then have "?cx False 0 0 (AstVariableUse name) k k ?e = Inr ((), emitted ?e ?t k [BC_Mov (Loc 0) k])"
      using var_use_run [OF e, of E name "(VU_Local, 0)" k] by simp
    note ret = return_run [where cx = ?cx and val = "AstVariableUse name", OF e this]
    have "CompileBlockBody E ?cx 0 0 (AstAssignation [f] (AstVariableUse p) # stmts) k u = Inr ((), emitted s' t k [?put, BC_Mov (Loc 0) k, BC_Ret k])"
      using p(1) s'(1) e ret by (simp add: CompileBlockBody_def bindS_app bare_runs name(2) del: CompileExpression.simps) (simp add: emitted_def)
    then show ?thesis using s' trivial_code.setter_self [of k i] by blast
  qed
qed

definition trivial_ctx :: "AstMethod \<Rightarrow> SOMMethodLookupResultKind \<Rightarrow> upval \<Rightarrow> TranslationContext" where
  "trivial_ctx meth kind info = \<lparr>tc_historyTopSlot = free_slot meth, tc_builder = fill_code meth, tc_allUpvalueGetBytecodes = [],
     tc_resultUcb = UnlinkedCodeBlock_Create\<lparr>ucb_trivialFnType := kind, ucb_trivialFnInfo := info\<rparr>, tc_resultBCtx = 0\<rparr>"

text \<open>The check changes no context.\<close>

lemma trivial_return_state:
  assumes "trivial_return E 0 body s = Inr ((kind, info), s')" "kind \<noteq> SOM_NormalMethod"
  shows "s' = s\<lparr>cs_vm := cs_vm s'\<rparr> \<and> setter_stmt body = None \<and> kind \<noteq> SOM_Setter"
  using assms
proof (cases rule: trivial_return_run)
  case (variable name vr)
  obtain vk i where vr: "vr = (vk, i)" by force
  have ok: "vk \<notin> {VU_Local, VU_Upvalue} \<or> self_name name" using variable(3) assms(2) by (auto simp: trivial_variable_def vr split: if_splits)
  have "s' = s\<lparr>cs_vm := cs_vm s'\<rparr>" using resolve_again(1) [OF variable(2) [unfolded vr] ok] .
  moreover have "kind \<noteq> SOM_Setter" using variable(3) by (auto simp: trivial_variable_def split: VarUseKind.splits if_splits)
  ultimately show ?thesis using variable(1) by simp
qed simp_all

lemma field_state: "ResolveVariable E 0 f DryRun s = Inr ((VU_Field, i), s') \<Longrightarrow> s' = s"
  by (auto simp: ResolveVariable_def resolve_global_def resolve_var_def split: if_splits list.splits option.splits elim!: bindS_InrE)

lemma triviality_run:
  assumes run: "triviality E 0 meth s = Inr ((kind, info), s')" "kind \<noteq> SOM_NormalMethod"
  obtains (return) "trivial_return E 0 (am_body meth) s = Inr ((kind, info), s')" "kind \<noteq> SOM_Setter"
  | (setter) i where "trivial_setter E 0 (am_params meth) (am_body meth) s = Inr (Some i, s)" "kind = SOM_Setter" "info = UvRaw i" "s' = s"
proof -
  obtain x s1 y where r: "trivial_return E 0 (am_body meth) s = Inr (x, s1)" "trivial_setter E 0 (am_params meth) (am_body meth) s1 = Inr (y, s')"
    "(kind, info) = (case y of Some ord \<Rightarrow> (SOM_Setter, UvRaw ord) | None \<Rightarrow> x)"
    using run(1) by (auto simp: triviality_def elim!: bindS_InrE)
  show ?thesis
  proof (cases y)
    case None
    then have x: "x = (kind, info)" using r(3) by simp
    note st = trivial_return_state [OF r(1) [unfolded x] run(2)]
    then have "s' = s1" using r(2) None by (auto simp: trivial_setter_def split: list.splits)
    then show ?thesis using return r(1) x st by blast
  next
    case (Some i)
    from r(2) [unfolded Some] have st: "s' = s1" "am_body meth \<noteq> []" "\<nexists>e. am_body meth = [AstReturn e]"
      by (auto elim!: trivial_setter_run dest: field_state)
    have "s1 = s" using r(1) st(2,3) by (cases "am_body meth"; cases "hd (am_body meth)"; cases "tl (am_body meth)") (auto simp: trivial_return_def)
    then show ?thesis using setter [of i] r(2,3) Some st(1) by simp
  qed
qed

lemma triviality_state: "triviality E 0 meth s = Inr ((kind, info), s') \<Longrightarrow> kind \<noteq> SOM_NormalMethod \<Longrightarrow> s' = s\<lparr>cs_vm := cs_vm s'\<rparr>"
  by (erule triviality_run) (auto dest: trivial_return_state)

lemma trivial_body_run:
  assumes s: "bare s t" "bare u t'" "u = s'\<lparr>cs_ctxs := [t']\<rparr>"
    and run: "triviality E 0 meth s = Inr ((kind, info), s')" "kind \<noteq> SOM_NormalMethod"
    and p: "\<And>p. kind = SOM_Setter \<Longrightarrow> am_params meth = [p] \<Longrightarrow> param_at s p \<and> \<not> self_name p"
  shows "\<exists>u' bcs j. CompileBlockBody E (CompileExpression E (Suc n)) 0 0 (am_body meth) k u = Inr ((), emitted u' t' j bcs)
     \<and> bare u' t' \<and> j \<le> k \<and> trivial_code k kind info bcs \<and> (kind = SOM_Setter \<longrightarrow> length (am_params meth) = 1)"
  using run
proof (cases rule: triviality_run)
  case return
  have "cs_localVarMap s' = cs_localVarMap (s\<lparr>cs_vm := cs_vm s'\<rparr>)" using triviality_state [OF run] by (rule arg_cong)
  then have u: "cs_vm u = cs_vm s'" "cs_localVarMap u = cs_localVarMap s" using s(3) by simp_all
  show ?thesis using return_body_run [OF s(1) u s(2) return(1) run(2)] s(2) return(2) by blast
next
  case (setter i)
  obtain p f stmts where st: "am_params meth = [p]" "am_body meth = AstAssignation [f] (AstVariableUse p) # stmts"
    "stmts = [] \<or> (\<exists>name. self_name name \<and> stmts = [AstReturn (AstVariableUse name)])" "ResolveVariable E 0 f DryRun s = Inr ((VU_Field, i), s)"
    using trivial_setter_run [OF setter(1)] by blast
  have pu: "param_at u p" using p [OF setter(2) st(1)] s(3) setter(4) by (simp add: param_at_def)
  have "ResolveVariable E 0 f ForWrite u' = Inr ((VU_Field, i), u')" if "cs_localVarMap u' = cs_localVarMap u" for u'
    using resolve_again(5) [OF st(4)] that s(3) setter(4) by simp
  from setter_body_run [OF s(2) pu _ this st(3), of n k] obtain u' bcs j
    where "CompileBlockBody E (CompileExpression E (Suc n)) 0 0 (am_body meth) k u = Inr ((), emitted u' t' j bcs)" "bare u' t'" "j \<le> k"
      "trivial_code k SOM_Setter (UvRaw i) bcs" using p [OF setter(2) st(1)] st(2) by auto
  then show ?thesis using st(1) setter(2,3) by auto
qed

text \<open>The kind of a method is the one that the check found.\<close>

lemma kind_kept:
  assumes "tri 0 P I m Q J" "cs_ok s" "0 < length (cs_ctxs s)" "P s" "m s = Inr (x, s')"
  shows "ucb_trivialFnType (tc_resultUcb (cs_ctxs s' ! 0)) = ucb_trivialFnType (tc_resultUcb (cs_ctxs s ! 0))"
  using triD(2) [OF assms] assms(3) by (auto simp: translates_def extends_def grows_def ctx_grows_def)

lemma method_kind:
  assumes "method_head E meth (method_start V) = Inr ((n, kind, info), s1)" "set_kind kind info s1 = Inr (y, s2)" "method_tail E meth n s2 = Inr (x, s)"
  shows "ucb_trivialFnType (tc_resultUcb (cs_ctxs s ! 0)) = kind"
proof -
  have pre: "cs_ok (method_start V)" "0 < length (cs_ctxs (method_start V))" "here 0 0 (method_start V) \<and> topslot (method_start V) 0 = 0"
    using method_start_ok by (simp_all add: method_start_def)
  note d = triD [OF tri_method_head pre assms(1)] and k = kind_kept [OF tri_method_head pre assms(1)] and set = set_kind_run [OF assms(2)]
  have len: "0 < length (cs_ctxs s1)" by (rule step_ctx_lt [OF d(2) pre(2)])
  have "ucb_trivialFnType (tc_resultUcb (cs_ctxs s2 ! 0)) = kind"
    using assms(2) k len by (auto simp: set_kind_def upd_ctx_def method_start_def new_ctx_def UnlinkedCodeBlock_Create_def split: if_splits)
  then show ?thesis using kind_kept [OF tri_method_tail _ _ _ assms(3)] d(1,3) len set by simp
qed

text \<open>The code block of a trivial method.\<close>

lemma trivial_method_code:
  assumes run: "CompileMethod E meth V = Inr (u # us, V')" and triv: "ucb_trivialFnType u \<noteq> SOM_NormalMethod"
    and names: "ucb_trivialFnType u = SOM_Setter \<Longrightarrow> \<forall>p \<in> set (am_params meth). \<not> self_name p \<and> p \<notin> set (am_locals meth)"
  shows "\<exists>bcs. map fst (ucb_bytecode u) = map fst (fill_code meth) @ bcs \<and> trivial_code (free_slot meth) (ucb_trivialFnType u) (ucb_trivialFnInfo u) bcs
     \<and> free_slot meth < ucb_stackFrameNumSlots u \<and> (ucb_trivialFnType u = SOM_Setter \<longrightarrow> length (am_params meth) = 1)"
proof -
  obtain s where s: "InstallLocalVariables 0 0 (am_params meth) (am_locals meth) 1 (method_start V) = Inr (free_slot meth, s)"
    "bare s ((new_ctx UnlinkedCodeBlock_Create 0)\<lparr>tc_builder := fill_code meth\<rparr>)"
    "\<And>p. am_params meth = [p] \<Longrightarrow> p \<notin> set (am_locals meth) \<Longrightarrow> param_at s p"
    using install_method_run by blast
  let ?t0 = "(new_ctx UnlinkedCodeBlock_Create 0)\<lparr>tc_builder := fill_code meth, tc_historyTopSlot := free_slot meth\<rparr>"
  let ?s = "s\<lparr>cs_ctxs := [?t0]\<rparr>"
  have b: "bare ?s ?t0" using s(2) by (simp add: bare_bctxs)
  have top: "upd_ctx 0 (\<lambda>t. t\<lparr>tc_historyTopSlot := free_slot meth\<rparr>) s = Inr ((), ?s)"
    using s(2) by (simp add: bare_def upd_ctx_def)
  obtain z t n kind info s1 s2 where r: "method_head E meth (method_start V) = Inr ((n, kind, info), s1)" "set_kind kind info s1 = Inr ((), s2)"
    "method_tail E meth n s2 = Inr (z, t)" and fin: "finish_codes E (cs_vars t) (cs_bctxs t) (cs_ctxs t) = Inr (u # us)"
    using run by (auto simp: CompileMethod_def compile_method_body_run bindR_eq_Inr elim!: bindS_InrE)
  have tr: "n = free_slot meth" "triviality E 0 meth ?s = Inr ((kind, info), s1)"
    using r(1) s(1) top by (auto simp: method_head_def bindS_app bindR_eq_Inr)
  obtain x ts where t: "cs_ctxs t = x # ts" "finish_code E (cs_vars t) (cs_bctxs t) x = Inr u"
    using fin by (cases "cs_ctxs t") (auto simp: bindR_eq_Inr)
  have ty: "ucb_trivialFnType u = ucb_trivialFnType (tc_resultUcb x)" using t(2) by (auto simp: finish_code_def Let_def bindR_eq_Inr split: if_splits)
  have k: "ucb_trivialFnType u = kind" using method_kind [OF r] ty t(1) by simp
  then have kind: "kind \<noteq> SOM_NormalMethod" using triv by simp
  let ?x = "trivial_ctx meth kind info"
  have s1: "s1 = ?s\<lparr>cs_vm := cs_vm s1\<rparr>" by (rule triviality_state [OF tr(2) kind])
  then have "cs_ctxs s1 = [?t0]" "cs_bctxs s1 = cs_bctxs s" by (metis CS.select_convs(3,4) CS.surjective CS.update_convs(1,4))+
  then have s2: "s2 = s1\<lparr>cs_ctxs := [?x]\<rparr>" "bare s2 ?x"
    using r(2) kind s(2) by (auto simp: set_kind_def upd_ctx_def trivial_ctx_def new_ctx_def bare_def)
  have params: "param_at ?s p \<and> \<not> self_name p" if "kind = SOM_Setter" "am_params meth = [p]" for p
    using s(3) [OF that(2)] names that k by (simp add: param_at_def)
  obtain u' bcs j where body: "CompileBlockBody E (CompileExpression E (method_fuel meth)) 0 0 (am_body meth) n s2 = Inr ((), emitted u' ?x j bcs)"
    "j \<le> n" "trivial_code n kind info bcs" "kind = SOM_Setter \<longrightarrow> length (am_params meth) = 1"
    using trivial_body_run [OF b s2(2,1) tr(2) kind params, of "size_list size (am_body meth)" n] by (auto simp: method_fuel_def)
  obtain M where "t = (emitted u' ?x j bcs)\<lparr>cs_localVarMap := M\<rparr>"
    using r(3) body(1) by (auto simp: method_tail_def UninstallLocalVariables_def elim!: bindS_InrE dest!: uninstall_all_run)
  then have x: "x = ?x\<lparr>tc_historyTopSlot := free_slot meth, tc_builder := fill_code meth @ map (\<lambda>bc. (bc, None)) bcs\<rparr>"
    using t(1) body(2) tr(1) by (simp add: emitted_def trivial_ctx_def)
  have "ucb_bytecode u = fill_code meth @ map (\<lambda>bc. (bc, None)) bcs \<and> ucb_stackFrameNumSlots u = free_slot meth + 1
      \<and> ucb_trivialFnType u = kind \<and> ucb_trivialFnInfo u = info"
    using t(2) by (auto simp: x trivial_ctx_def finish_code_def Let_def split: if_splits)
  then show ?thesis using body(3,4) tr(1) by (auto simp: comp_def)
qed

subsection \<open>Running the code\<close>

definition agrees_outside :: "nat \<Rightarrow> nat \<Rightarrow> val list \<Rightarrow> val list \<Rightarrow> bool" where
  "agrees_outside fbase n st st' \<longleftrightarrow> length st' = length st \<and> (\<forall>i. i < fbase \<or> fbase + n \<le> i \<longrightarrow> st' ! i = st ! i)"

lemma agrees_refl: "agrees_outside fbase n st st"
  by (simp add: agrees_outside_def)

lemma agrees_update: "agrees_outside fbase n st st' \<Longrightarrow> k < n \<Longrightarrow> agrees_outside fbase n st (st'[fbase + k := v])"
  by (auto simp: agrees_outside_def nth_list_update)

lemma fill_nils_nth: "length (fill_nils n base st) = length st \<and>
    (base + n \<le> length st \<longrightarrow> (\<forall>i. fill_nils n base st ! i = (if base \<le> i \<and> i < base + n then TNil else st ! i)))"
  by (induction n base st rule: fill_nils.induct) (auto simp: nth_list_update)

text \<open>The frame of a call: the receiver, the arguments and room for the locals and temporaries.\<close>

definition call_frame :: "nat \<Rightarrow> nat \<Rightarrow> val list \<Rightarrow> val list \<Rightarrow> bool" where
  "call_frame fbase n args st \<longleftrightarrow> fbase + n \<le> length st \<and> take (length args) (drop fbase st) = args"

lemma call_frame_nth: "call_frame fbase n args st \<Longrightarrow> length args \<le> n \<Longrightarrow> i < length args \<Longrightarrow> st ! (fbase + i) = args ! i"
  unfolding call_frame_def by (metis add.commute add_leD1 diff_add_inverse2 length_drop nth_drop nth_take order_trans)

lemma fill_run:
  assumes "call_frame fbase n (self # args) (v_stack W)" "length args = length (am_params meth)" "free_slot meth < n"
  shows "\<exists>st. run_code PE fbase (map fst (fill_code meth) @ bcs) W = run_code PE fbase bcs (W\<lparr>v_stack := st\<rparr>)
     \<and> agrees_outside fbase n (v_stack W) st \<and> (\<forall>i \<le> length args. st ! (fbase + i) = (self # args) ! i)"
proof (cases "am_locals meth = []")
  case True
  then show ?thesis using assms call_frame_nth [OF assms(1)]
    by (intro exI [of _ "v_stack W"]) (auto simp: fill_code_def agrees_refl free_slot_def less_Suc_eq_le)
next
  case False
  let ?m = "unat (of_nat (length (am_locals meth)) :: u16)" and ?b = "fbase + (1 + length args)"
  let ?st = "fill_nils ?m ?b (v_stack W)"
  have m: "?m \<le> length (am_locals meth)" by (simp add: unat_of_nat)
  have b: "?b + ?m \<le> length (v_stack W)" "?b + ?m \<le> fbase + n"
    using assms m by (auto simp: call_frame_def free_slot_def)
  have len: "length ?st = length (v_stack W)" and fill_at: "?st ! i = (if ?b \<le> i \<and> i < ?b + ?m then TNil else v_stack W ! i)" for i
    using fill_nils_nth [of ?m ?b "v_stack W"] b(1) by blast+
  have "run_code PE fbase (map fst (fill_code meth) @ bcs) W = run_code PE fbase bcs (W\<lparr>v_stack := ?st\<rparr>)"
    using b(1) assms(2) False by (simp add: fill_code_def RangeFillNilsImpl_def bindS_app)
  moreover have "agrees_outside fbase n (v_stack W) ?st" using len fill_at b(2) by (auto simp: agrees_outside_def)
  moreover have "\<forall>i \<le> length args. ?st ! (fbase + i) = (self # args) ! i"
    using fill_at call_frame_nth [OF assms(1)] assms(2,3) by (auto simp: free_slot_def)
  ultimately show ?thesis by blast
qed

text \<open>What a lookup that finds a trivial method returns.\<close>

lemma lookup_trivial:
  assumes fn: "class_method hc sel W = Inr (Some fn, W)" "the_fun fn W = Inr (compiled_method (CodeBlock_Create ex u), W)"
    and look: "lookup_in hc sel W = Inr ((effect, k, x), W)" "k \<noteq> SOM_NormalMethod"
  shows "ucb_trivialFnType u = k"
    and "k = SOM_GlobalReturn \<Longrightarrow> ucb_trivialFnInfo u = UvRaw x \<and> (\<exists>v. VM_GetGlobal x W = Inr (v, W) \<and> v \<noteq> TImpossible)"
    and "k \<in> {SOM_Getter, SOM_Setter} \<Longrightarrow> ucb_trivialFnInfo u = UvRaw x"
    and "k = SOM_LiteralReturn \<Longrightarrow> x = fn"
proof -
  let ?fo = "compiled_method (CodeBlock_Create ex u)"
  have fo: "fo_lookup ?fo = ucb_trivialFnType u"
    "fo_upvalues ?fo = (if ucb_trivialFnType u \<in> {SOM_LiteralReturn, SOM_GlobalReturn, SOM_Getter, SOM_Setter} then [ucb_trivialFnInfo u] else [])"
    by (simp_all add: compiled_method_def CodeBlock_Create_def needExtraUpvalueDueToTrivialFn_def)
  have raw: "raw_upvalue ?fo s = Inr (i, s') \<Longrightarrow> ucb_trivialFnInfo u = UvRaw i \<and> s' = s" for i s s'
    by (auto simp: raw_upvalue_def fo split: list.splits upval.splits if_splits)
  have glob: "VM_GetGlobal i s = Inr (v, s') \<Longrightarrow> s' = s" for i s v s' by (auto simp: VM_GetGlobal_def split: if_splits)
  have run: "bindS (if ucb_trivialFnType u = SOM_GlobalReturn
                then bindS (raw_upvalue ?fo) (\<lambda>i. bindS (VM_GetGlobal i) (\<lambda>r. retS (r = TImpossible)))
                else retS False) (\<lambda>undefined_global.
         if undefined_global then retS (False, SOM_NormalMethod, fn)
         else if ucb_trivialFnType u = SOM_GlobalReturn \<or> ucb_trivialFnType u = SOM_Getter \<or> ucb_trivialFnType u = SOM_Setter
         then bindS (raw_upvalue ?fo) (\<lambda>c_result. retS (True, ucb_trivialFnType u, c_result))
         else retS (True, ucb_trivialFnType u, fn)) W = Inr ((effect, k, x), W)"
    using look(1) by (simp only: lookup_in_def bindS_app [of "class_method hc sel"] bindS_app [of "the_fun fn"] fn bindR_simps prod.case option.case Let_def fo(1))
  show "ucb_trivialFnType u = k"
    using run look(2) by (auto split: if_splits elim!: bindS_InrE)
  show "ucb_trivialFnInfo u = UvRaw x \<and> (\<exists>v. VM_GetGlobal x W = Inr (v, W) \<and> v \<noteq> TImpossible)" if "k = SOM_GlobalReturn"
    using run look(2) that by (auto split: if_splits elim!: bindS_InrE dest!: raw dest: glob)
  show "ucb_trivialFnInfo u = UvRaw x" if "k \<in> {SOM_Getter, SOM_Setter}"
    using run look(2) that by (auto split: if_splits elim!: bindS_InrE dest!: raw)
  show "x = fn" if "k = SOM_LiteralReturn"
    using run that by (auto split: if_splits elim!: bindS_InrE)
qed

text \<open>The code after the locals are filled does what the shortcut does.\<close>

definition on_stack :: "val list \<Rightarrow> 'a \<times> VM \<Rightarrow> 'a \<times> VM" where
  "on_stack st r = (fst r, (snd r)\<lparr>v_stack := st\<rparr>)"

lemma stack_frame:
  "VM_GetGlobal i (W\<lparr>v_stack := st\<rparr>) = map_sum id (on_stack st) (VM_GetGlobal i W)"
  "GetFieldImpl v i (W\<lparr>v_stack := st\<rparr>) = map_sum id (on_stack st) (GetFieldImpl v i W)"
  "PutFieldImpl v i a (W\<lparr>v_stack := st\<rparr>) = map_sum id (on_stack st) (PutFieldImpl v i a W)"
  by (simp_all add: VM_GetGlobal_def GetFieldImpl_def PutFieldImpl_def obj_of_def as_obj_def the_obj_def set_obj_def get_field_def put_field_def
      bindS_app liftS_def on_stack_def split: tv.split payload.split)

lemma GetFieldImpl_reads: "GetFieldImpl v i W = Inr (a, W') \<Longrightarrow> W' = W"
  by (auto simp: GetFieldImpl_def obj_of_def as_obj_def the_obj_def bindS_app bindR_eq_Inr liftS_def split: tv.splits if_splits)

lemma setter_is_put: "ExecuteSetterTrivialMethod fn self arg = bindS (PutFieldImpl self fn arg) (\<lambda>_. retS self)"
  by (simp add: ExecuteSetterTrivialMethod_def PutFieldImpl_def bindS_assoc)

lemma getter_is_get: "ExecuteTrivialMethodExceptSetter fn self SOM_Getter = GetFieldImpl self fn"
  by (simp add: ExecuteTrivialMethodExceptSetter_def GetFieldImpl_def)

lemma trivial_code_runs:
  assumes code: "trivial_code k kind info bcs"
    and st: "agrees_outside fbase n (v_stack W) st" "fbase + n \<le> length (v_stack W)" "k < n" "st ! fbase = self"
    and arg: "kind = SOM_Setter \<Longrightarrow> args = [a] \<and> st ! (fbase + 1) = a \<and> 1 < n"
    and x: "\<And>i. info = UvRaw i \<Longrightarrow> kind \<noteq> SOM_SelfReturn \<Longrightarrow> i = x \<and> x < 65536"
    and glob: "kind = SOM_GlobalReturn \<Longrightarrow> \<exists>v. VM_GetGlobal x W = Inr (v, W) \<and> v \<noteq> TImpossible"
    and lit: "\<And>v. kind = SOM_LiteralReturn \<Longrightarrow> info = UvImm v \<Longrightarrow> \<exists>fo. the_fun x W = Inr (fo, W) \<and> fo_upvalues fo = [UvImm v]"
  shows "\<exists>st'. agrees_outside fbase n (v_stack W) st' \<and>
     run_code PE fbase bcs (W\<lparr>v_stack := st\<rparr>) = map_sum id (on_stack st') (finish_call nf no (self # args) (kind, x) W)"
proof -
  have len: "length st = length (v_stack W)" and lt: "fbase < length (v_stack W)" "fbase + k < length (v_stack W)"
    using st by (auto simp: agrees_outside_def)
  have small: "unat (of_nat x :: u16) = x" if "x < 65536" using that by (simp add: unat_of_nat)
  have st': "agrees_outside fbase n (v_stack W) (st[fbase + k := v])" for v using agrees_update [OF st(1,3)] .
  note simps = read_slot_def write_slot_def BytecodeMovImpl_def ReturnImpl_def bindS_app len lt st(4) finish_call_def ret_val_def GetArg_def on_stack_def stack_frame
  from code show ?thesis
  proof cases
    case self_empty
    then show ?thesis using st(1) by (intro exI [of _ st]) (simp add: simps ExecuteTrivialMethodExceptSetter_def)
  next
    case self
    then show ?thesis using st' by (intro exI [of _ "st[fbase + k := self]"]) (simp add: simps ExecuteTrivialMethodExceptSetter_def)
  next
    case (literal v)
    obtain fo where "the_fun x W = Inr (fo, W)" "fo_upvalues fo = [UvImm v]" using lit literal by auto
    then show ?thesis using st' literal by (intro exI [of _ "st[fbase + k := v]"]) (simp add: simps ExecuteTrivialMethodExceptSetter_def)
  next
    case (global i)
    then obtain v where "i = x" "x < 65536" "VM_GetGlobal x W = Inr (v, W)" "v \<noteq> TImpossible" using x glob by auto
    then show ?thesis using st' global
      by (intro exI [of _ "st[fbase + k := v]"]) (simp add: simps small GlobalGetImpl_def ExecuteTrivialMethodExceptSetter_def)
  next
    case (getter i)
    then have i: "i = x" "x < 65536" using x by auto
    show ?thesis
    proof (cases "GetFieldImpl self x W")
      case (Inl err)
      then show ?thesis using getter i st(1) by (intro exI [of _ st]) (simp add: simps small getter_is_get)
    next
      case (Inr r)
      then obtain v where "GetFieldImpl self x W = Inr (v, W)" using GetFieldImpl_reads by (cases r) fastforce
      then show ?thesis using getter i st' by (intro exI [of _ "st[fbase + k := v]"]) (simp add: simps small getter_is_get)
    qed
  next
    case (setter i)
    then have i: "i = x" "x < 65536" "args = [a]" "st ! Suc fbase = a" "Suc fbase < length (v_stack W)" using x arg st(2) by auto
    then show ?thesis using setter st(1)
      by (intro exI [of _ st], cases "PutFieldImpl self x a W") (auto simp: simps small setter_is_put)
  next
    case (setter_self i)
    then have i: "i = x" "x < 65536" "args = [a]" "st ! Suc fbase = a" "Suc fbase < length (v_stack W)" using x arg st(2) by auto
    then show ?thesis using setter_self st'
      by (intro exI [of _ "st[fbase + k := self]"], cases "PutFieldImpl self x a W") (auto simp: simps small setter_is_put)
  qed
qed

text \<open>
  C7. The shortcut of a trivial method does what the compiled method does. Let \<open>u\<close> be the code block of a compiled method
  and let a lookup find the method and choose a shortcut. Then the shortcut in the call bytecode has the same
  outcome, value or error, and the same effect on the VM as running the bytecodes of \<open>u\<close> in a new frame that holds the
  receiver and the arguments; the run changes no stack slot outside that frame. Two cases are excluded: a setter whose
  parameter is called \<open>self\<close> or \<open>super\<close> or is hidden by a local variable (the shortcut then stores the argument although the code
  does not, see \<open>hidden_parameter_setter\<close>), and a field or global index that does not fit the 16-bit operand of the bytecode.
\<close>

theorem trivial_method_shortcut:
  assumes "CompileMethod E meth V = Inr (u # us, V')"
    and "ucb_trivialFnType u = SOM_Setter \<longrightarrow> (\<forall>p \<in> set (am_params meth). p \<noteq> ''self'' \<and> p \<noteq> ''super'' \<and> p \<notin> set (am_locals meth))"
    and "\<forall>i. ucb_trivialFnInfo u = UvRaw i \<longrightarrow> i < 65536"
    and "class_method hc sel W = Inr (Some fn, W)" and "the_fun fn W = Inr (compiled_method (CodeBlock_Create ex u), W)"
    and "lookup_in hc sel W = Inr ((effect, kind, x), W)" and "kind \<noteq> SOM_NormalMethod"
    and "call_frame fbase (ucb_stackFrameNumSlots u) (self # args) (v_stack W)" and "length args = length (am_params meth)"
  shows "\<exists>st. agrees_outside fbase (ucb_stackFrameNumSlots u) (v_stack W) st \<and>
     run_code PE fbase (map fst (ucb_bytecode u)) W =
       map_sum id (on_stack st) (finish_call not_found not_object (self # args) (kind, x) W)"
proof -
  note look = lookup_trivial [OF assms(4-7)]
  have names: "\<forall>p \<in> set (am_params meth). \<not> self_name p \<and> p \<notin> set (am_locals meth)" if "ucb_trivialFnType u = SOM_Setter"
    using assms(2) that by (simp add: self_name_def)
  obtain bcs where code: "map fst (ucb_bytecode u) = map fst (fill_code meth) @ bcs" "trivial_code (free_slot meth) kind (ucb_trivialFnInfo u) bcs"
    "free_slot meth < ucb_stackFrameNumSlots u" "kind = SOM_Setter \<longrightarrow> length (am_params meth) = 1"
    using trivial_method_code [OF assms(1) _ names] look(1) assms(7) by auto
  obtain st where st: "run_code PE fbase (map fst (ucb_bytecode u)) W = run_code PE fbase bcs (W\<lparr>v_stack := st\<rparr>)"
    "agrees_outside fbase (ucb_stackFrameNumSlots u) (v_stack W) st" "\<forall>i \<le> length args. st ! (fbase + i) = (self # args) ! i"
    using fill_run [OF assms(8,9) code(3), of PE bcs] code(1) by auto
  have x: "i = x \<and> x < 65536" if "ucb_trivialFnInfo u = UvRaw i" "kind \<noteq> SOM_SelfReturn" for i
    using code(2) that look assms(3) by cases auto
  have lit: "\<exists>fo. the_fun x W = Inr (fo, W) \<and> fo_upvalues fo = [UvImm v]" if "kind = SOM_LiteralReturn" "ucb_trivialFnInfo u = UvImm v" for v
    using that look(1,4) assms(5) by (auto simp: compiled_method_def CodeBlock_Create_def needExtraUpvalueDueToTrivialFn_def)
  have arg: "args = [hd args] \<and> st ! (fbase + 1) = hd args \<and> 1 < ucb_stackFrameNumSlots u" if "kind = SOM_Setter"
    using that code(3,4) assms(9) st(3) by (cases args) (auto simp: free_slot_def)
  have frame: "fbase + ucb_stackFrameNumSlots u \<le> length (v_stack W)" "st ! fbase = self"
    using assms(8) st(3) by (auto simp: call_frame_def)
  show ?thesis unfolding st(1)
    by (rule trivial_code_runs [OF code(2) st(2) frame(1) code(3) frame(2) arg x _ lit]) (use look(2) in blast)+
qed

text \<open>The setter \<open>x: v = ( x := v )\<close> of the only field of an object.\<close>

definition setter_env :: cenv where
  "setter_env = sample_env\<lparr>ce_fieldMap := [''x'' \<mapsto> 0]\<rparr>"

definition setter_method :: AstMethod where
  "setter_method = \<lparr>am_params = [''v''], am_locals = [], am_body = [AstAssignation [''x''] (AstVariableUse ''v'')],
     am_kind = KeywordKind, am_isPrimitive = False, am_selectorName = 0\<rparr>"

definition setter_block :: UnlinkedCodeBlock where
  "setter_block = \<lparr>ucb_parent = None, ucb_numFixedArguments = 0, ucb_fnKind = SOM_Method, ucb_trivialFnType = SOM_Setter, ucb_trivialFnInfo = UvRaw 0,
     ucb_stackFrameNumSlots = 3, ucb_upvalueInfo = [], ucb_bytecode = [(BC_SOMPutField 0 0 (Loc 1), None), (BC_Ret 0, None)]\<rparr>"

definition setter_vm :: VM where
  "setter_vm = empty_vm\<lparr>h_classes := [\<lparr>c_superClass = None, c_classObject = None, c_name = 0, c_fields = 0, c_methods = 0, c_numFields = 1,
        c_methodHt = [mk_entry 0 (fn_ptr 0)]\<rparr>],
     h_funs := [compiled_method (CodeBlock_Create 0 setter_block)],
     h_objs := [\<lparr>o_hiddenClass = 0, o_payload = Fields [TNil]\<rparr>], v_stack := [TObj 0, TInt 7, TNil]\<rparr>"

lemma setter_block_compiled: "CompileMethod setter_env setter_method empty_vm = Inr ([setter_block], empty_vm)"
  by (simp add: setter_env_def sample_env_def setter_method_def setter_block_def compile_run del: bindS_Inr bindS_Inl cong: bindS_block bindR_weak)

theorem trivial_method_shortcut_witness:
  "\<exists>st. agrees_outside 0 3 [TObj 0, TInt 7, TNil] st \<and>
     run_code demo_prims 0 [BC_SOMPutField 0 0 (Loc 1), BC_Ret 0] setter_vm =
       map_sum id (on_stack st) (finish_call (failS Undefined) (failS Undefined) [TObj 0, TInt 7] (SOM_Setter, 0) setter_vm)
   \<and> finish_call (failS Undefined) (failS Undefined) [TObj 0, TInt 7] (SOM_Setter, 0) setter_vm =
       Inr (Ret (TObj 0), setter_vm\<lparr>h_objs := [\<lparr>o_hiddenClass = 0, o_payload = Fields [TInt 7]\<rparr>]\<rparr>)"
proof -
  let ?sel = "\<lparr>us_id = 0, us_hash = 0\<rparr>"
  have find: "class_method 0 ?sel setter_vm = Inr (Some 0, setter_vm)" "the_fun 0 setter_vm = Inr (compiled_method (CodeBlock_Create 0 setter_block), setter_vm)"
    by (simp_all add: class_method_def the_class_def the_fun_def GetMethod_def setter_vm_def mk_entry_def fn_ptr_def ptr_fn_def bindS_app)
  have look: "lookup_in 0 ?sel setter_vm = Inr ((True, SOM_Setter, 0), setter_vm)"
    by (simp add: lookup_in_def bindS_app find Let_def)
       (simp add: compiled_method_def CodeBlock_Create_def setter_block_def raw_upvalue_def needExtraUpvalueDueToTrivialFn_def)
  have frame: "call_frame 0 (ucb_stackFrameNumSlots setter_block) [TObj 0, TInt 7] (v_stack setter_vm)"
    by (simp add: call_frame_def setter_block_def setter_vm_def)
  have "finish_call (failS Undefined) (failS Undefined) [TObj 0, TInt 7] (SOM_Setter, 0) setter_vm =
       Inr (Ret (TObj 0), setter_vm\<lparr>h_objs := [\<lparr>o_hiddenClass = 0, o_payload = Fields [TInt 7]\<rparr>]\<rparr>)"
    by (simp add: finish_call_def bindS_app GetArg_def liftS_def ret_val_def ExecuteSetterTrivialMethod_def as_obj_def the_obj_def put_field_def set_obj_def setter_vm_def)
  then show ?thesis
    using trivial_method_shortcut [OF setter_block_compiled _ _ find look _ frame, of demo_prims "failS Undefined" "failS Undefined"]
    by (auto simp: setter_method_def setter_block_def setter_vm_def)
qed

text \<open>
  The hypothesis on names is needed: in \<open>x: v = ( | v | x := v )\<close> the code assigns the local variable (slot 2), but the
  method is still taken for a setter of its argument.
\<close>

lemma hidden_parameter_setter:
  "\<exists>u. CompileMethod setter_env (setter_method\<lparr>am_locals := [''v'']\<rparr>) empty_vm = Inr ([u], empty_vm) \<and> ucb_trivialFnType u = SOM_Setter
     \<and> map fst (ucb_bytecode u) = [BC_RangeFillNils 2 1, BC_SOMPutField 0 0 (Loc 2), BC_Ret 0]"
  by (simp add: setter_env_def sample_env_def setter_method_def compile_run del: bindS_Inr bindS_Inl cong: bindS_block bindR_weak)

end
