(* ===== verification/Spec2Isabelle.thy ===== *)
theory Spec2Isabelle
  imports ParserFuel TypeMask Operators Branches Upvalues SortingNetwork JitCallIc SpdsPages CompileTrivial
begin

text \<open>
  This library models the SOM virtual machine of this repository: the language front end, the object
  model, the runtime state of the VM, the primitives of the standard library and the semantics of the
  bytecodes, and proves what makes these parts correct.

  \<^bold>\<open>The program.\<close> A source file is read by a lexer (\<open>src/runtime/som_lexer.cpp\<close>) and a recursive-descent
  parser (\<open>som_parser.h\<close>) that builds an AST (\<open>som_ast.h\<close>) and interns every name
  (\<open>string_interner.h\<close>). A compiler (\<open>som_compile_file.cpp\<close>) turns methods into bytecode and creates the
  class (\<open>som_class.cpp\<close>) with one flat hash table of all the methods its instances understand. Values are
  64-bit NaN-boxed words (\<open>src/drt/tvalue.h\<close>). The bytecodes (\<open>src/annotated/bytecodes\<close>) and the library
  functions (\<open>src/annotated/builtin_libs\<close>) are C++ functions from which the build generates an interpreter
  and a JIT; they share the state of \<open>VM\<close> (\<open>vm.h\<close>): globals, interned strings and symbols, the system
  classes, the selectors known from the start, and the heap.

  \<^bold>\<open>Conventions\<close> (theory \<open>Prelude\<close>). Fallible code returns \<open>'a res\<close>, a sum with the errors \<open>vm_error\<close>: failed
  assertions, aborts with their message, reads outside a vector, and \<open>Undefined\<close> for what C++ or an unchecked
  cast leaves undefined. Operations on a state are \<open>('s, 'a) op\<close>, sequenced by \<open>bindS\<close>; those on the VM are
  \<open>'a vmop\<close>. \<open>tb\<close> (or \<open>e_tb\<close>) says whether test assertions are compiled in. \<open>keeps\<close> is a calculus of frame
  conditions, \<open>same_run\<close> compares a test build with a release build. Machine integers are words; the signed
  arithmetic of the primitives wraps around as on the machine, an overflow of the counter of an inlined loop is \<open>Undefined\<close>. Code that is not part of the repository is a parameter: the
  hash function, \<open>sin\<close>, \<open>cos\<close>, \<open>stod\<close>, \<open>rand\<close>, the clock and the files (\<open>prim_env\<close>), and the decision of a
  generated inline cache to accept an entry.

  \<^bold>\<open>Theories, sources and results.\<close>
  \<^item> \<open>Interner\<close>: \<open>StringInterner\<close>. Ordinals and strings are in bijection; the locale \<open>interning\<close> states what
    clients rely on and is interpreted on \<open>InternString\<close>.
  \<^item> \<open>MethodTable\<close>: \<open>SimpleCuckooHashTable\<close> and \<open>SOMClass::GetMethod\<close>. An insertion attempt keeps the table
    well formed and loses nothing; insertion with resizing binds the key and no other, unless it fails an assertion (a
    release build, which does not check it, can then lose a binding). The locale \<open>lossy_dict\<close> is the contract of both builds,
    \<open>method_dict\<close> extends it to the one of test builds.
  \<^item> \<open>Lexer\<close>: the lexer over the lines of a stream. Printing tokens and lexing gives them back; peeking does not
    change the tokens read; every token consumes input.
  \<^item> \<open>Ast\<close>, \<open>Parser\<close>, \<open>ParserFuel\<close>: the AST and every parsing function with its error messages. The mutual
    recursion of the parser carries fuel; \<open>ParserFuel\<close> proves that fuel linear in the length of the input is
    enough and that more fuel gives the same result, so the parser ends on every input, if compiling the superclass does.
  \<^item> \<open>Double\<close>, \<open>DoubleLib\<close>: IEEE double arithmetic on 64-bit words, conversions, square root and printing.
  \<^item> \<open>TValue\<close>, \<open>TypeMask\<close>: NaN boxing and the type masks. The checks partition the words the runtime creates;
    boxing and unboxing are inverse; the mask of a type is exactly the set of values that pass its check, but for NaNs
    other than the pure one.
  \<^item> \<open>Objects\<close>, \<open>VMState\<close>, \<open>SomClass\<close>: heap objects, classes, functions and the state of \<open>VM\<close> with its
    operations. Globals implement a map from names to values; symbols are unique; a new class answers each
    selector with its own last definition or else with what its superclass answers, where the insertion into its table loses nothing.
  \<^item> \<open>Selectors\<close>: \<open>VM::InitializeVMGlobalData\<close>. The members hold their selectors and the range checks on ordinals
    decide the selector classes in every later state.
  \<^item> \<open>PrimNumbers\<close>, \<open>PrimObjects\<close>: the library functions. Division, printing and parsing of integers, agreement of
    integers and doubles in comparisons, arrays, substrings, symbols, and the loops run by return continuations.
  \<^item> \<open>PrimTable\<close>: \<open>SOMPrimitivesContainer\<close>, the table that binds class and selector to a library function.
  \<^item> \<open>Dispatch\<close>: message sends, inline caches, trivial methods, \<open>doesNotUnderstand:\<close>, globals and fields. The locale
    \<open>inline_cache\<close> states when caching a lookup is sound; sends are its instance.
  \<^item> \<open>Operators\<close>: the specialised unary, binary and ternary operators. Their fast paths return what the
    primitives of the standard library return.
  \<^item> \<open>Branches\<close>: conditional branches and the inlined for loops, which visit exactly the integers between start
    and limit; at the ends of the integer range the last step overflows.
  \<^item> \<open>Upvalues\<close>: the list of open upvalues, closures and the upvalue bytecodes. The upvalues refine a store of
    variables: capturing shares the upvalue of a slot, closing keeps every value, assigning changes one variable; a
    closure holds up to 255 variables.
  \<^item> \<open>SpdsList\<close>, \<open>InterpCallIc\<close>, \<open>JitCallIc\<close>: circular doubly-linked lists and the call inline caches of the interpreter
    and of the JIT. The locale
    \<open>intrusive_lists\<close> states the contract of the lists and proves what a family of them in one memory keeps; the
    registry of cache entries is its client. The bloom filter of a site never changes a decision; after new
    code for a block every cached jump goes there.
  \<^item> \<open>SortingNetwork\<close>: the comparison networks for up to 16 elements sort, by the zero-one principle and
    evaluation of the tables on sets of bit vectors.
  \<^item> \<open>Memory\<close>: the address range of a VM, its root coroutine and its two bump-allocated heaps. A creation that returns null leaves nothing
    reserved; destroying a VM releases its range but not the stack of the root coroutine; allocated blocks are aligned, mapped and disjoint.
  \<^item> \<open>SpdsPages\<close>: the pages of the short-pointer region. Threads interleave at the atomic accesses of the lock-free free
    list and of the slow path; pages are never held twice and never lost, as long as the
    tag of the list does not wrap around under a sleeping thread.
  \<^item> \<open>CompileCtx\<close>, \<open>Compile\<close>: the compiler from methods to code blocks (\<open>som_compile_file.cpp\<close>): translation contexts,
    resolution of names and upvalues, inlined control flow, operators, blocks and the trivial methods that calls
    shortcut. The fuel of an expression is its nesting depth.
  \<^item> \<open>CompileOk\<close>, \<open>CompileWf\<close>, \<open>CompileCalls\<close>, \<open>CompileCode\<close>: the code the compiler produces is well-formed. The invariant
    \<open>cs_ok\<close> of the contexts and a Hoare-style judgement \<open>tri\<close>, with a rule for each part of the compiler, which tracks the
    branches whose target is still open; the last theory adds the final pass and states the result for methods.
  \<^item> \<open>CompileTrivial\<close>: runs the straight-line code of trivial methods on the stack of the VM. The shortcuts of \<open>Dispatch\<close> for getters,
    setters and methods that return the receiver, a literal or a global do what the compiled code does, but for setters whose parameter is hidden by another name.

  \<^bold>\<open>Fuel.\<close> The parser, the clone of a constant array and loops run by calls take fuel; where a theorem says that
  code returns, the fuel that suffices is part of the statement. The eviction loop of the method table and the
  lexer loops are total functions with termination proofs.

  \<^bold>\<open>Not modelled.\<close> Loading of class files and the bootstrap of the class hierarchy (\<open>SOMCompileFile\<close> and
  \<open>SOMBootstrapClassHierarchy\<close> of \<open>som_compile_file.cpp\<close>); the bytecode builder, the interpreter loop, the baseline and DFG compilers and the deegen
  tool, which consist of or depend on code generated at build time over LLVM; native stack traces; start-up of
  the process and running of coroutines; garbage collection, which the repository does not have; the vendored
  libraries.
\<close>

end
